(* ===== verification/Prelude.thy ===== *)
theory Prelude
  imports Main "HOL-Library.Word" "HOL-Library.State_Monad"
begin

text \<open>
  What every other theory of the library shares: the widths of the C integers, the state
  monad in which the driver code is written, a weakest-precondition reading of it with one
  rule per construct (collected in \<open>wp\<close>), the bounded polling loop that the driver uses
  everywhere, and generic facts about words and lists.
\<close>

section \<open>Integers of the source\<close>

type_synonym u8 = "8 word"
type_synonym u16 = "16 word"
type_synonym u32 = "32 word"
type_synonym u64 = "64 word"

text \<open>
  \<open>s32\<close> is used for return codes: 0 for success, minus an error number otherwise (the
  source also returns a few positive codes, which the model keeps). No arithmetic that could
  overflow is done on them, so they are plain integers.
\<close>

type_synonym s32 = int

text \<open>Error numbers of the kernel.\<close>

abbreviation (input) ENOMEM :: s32 where "ENOMEM \<equiv> 12"

abbreviation (input) EFAULT :: s32 where "EFAULT \<equiv> 14"

abbreviation (input) EINVAL :: s32 where "EINVAL \<equiv> 22"

abbreviation (input) EOPNOTSUPP :: s32 where "EOPNOTSUPP \<equiv> 95"

unbundle bit_operations_syntax

section \<open>The state monad and its weakest preconditions\<close>

abbreviation return :: "'a \<Rightarrow> ('s, 'a) state" where
  "return \<equiv> State_Monad.return"

abbreviation get :: "('s, 's) state" where
  "get \<equiv> State_Monad.get"

definition gets :: "('s \<Rightarrow> 'a) \<Rightarrow> ('s, 'a) state" where
  "gets f = State (\<lambda>s. (f s, s))"

definition modify :: "('s \<Rightarrow> 's) \<Rightarrow> ('s, unit) state" where
  "modify f = State (\<lambda>s. ((), f s))"

definition wp :: "('s, 'a) state \<Rightarrow> ('a \<Rightarrow> 's \<Rightarrow> bool) \<Rightarrow> 's \<Rightarrow> bool" where
  "wp m Q s \<longleftrightarrow> Q (fst (run_state m s)) (snd (run_state m s))"

named_theorems wp \<open>weakest preconditions of the constructs of the model\<close>

lemma run_state_gets [simp]: "run_state (gets f) s = (f s, s)"
  by (simp add: gets_def)

lemma run_state_modify [simp]: "run_state (modify f) s = ((), f s)"
  by (simp add: modify_def)

lemma run_state_if [simp]:
  "run_state (if b then m else n) s = (if b then run_state m s else run_state n s)"
  by simp

text \<open>
  The rules rewrite the predicate transformer itself, so that they apply under the binders
  that the rule for \<open>bind\<close> produces.
\<close>

lemma wp_return [wp]: "wp (return x) Q = Q x"
  by (simp add: wp_def fun_eq_iff)

lemma wp_get [wp]: "wp get Q = (\<lambda>s. Q s s)"
  by (simp add: wp_def fun_eq_iff)

lemma wp_gets [wp]: "wp (gets f) Q = (\<lambda>s. Q (f s) s)"
  by (simp add: wp_def fun_eq_iff)

lemma wp_modify [wp]: "wp (modify f) Q = (\<lambda>s. Q () (f s))"
  by (simp add: wp_def fun_eq_iff)

lemma wp_bind [wp]: "wp (State_Monad.bind m f) Q = wp m (\<lambda>a. wp (f a) Q)"
  by (simp add: wp_def fun_eq_iff split: prod.splits)

lemma wp_if [wp]:
  "wp (if b then m else n) Q = (\<lambda>s. (b \<longrightarrow> wp m Q s) \<and> (\<not> b \<longrightarrow> wp n Q s))"
  by (simp add: fun_eq_iff)

lemma wp_let [wp]: "wp (Let x f) Q = wp (f x) Q"
  by simp

lemma wp_case_prod [wp]: "wp (case_prod f p) Q = wp (f (fst p) (snd p)) Q"
  by (simp add: case_prod_beta)

lemma wp_option: "wp (case_option m f x) Q = case_option (wp m Q) (\<lambda>v. wp (f v) Q) x"
  by (cases x) simp_all

lemma wp_mono:
  "wp m Q s \<Longrightarrow> (\<And>a s'. Q a s' \<Longrightarrow> R a s') \<Longrightarrow> wp m R s"
  by (simp add: wp_def)

lemma wp_both: "wp m P h \<Longrightarrow> wp m Q h \<Longrightarrow> wp m (\<lambda>a h'. P a h' \<and> Q a h') h"
  by (simp add: wp_def)

lemma wp_run: "run_state m s = (a, s') \<Longrightarrow> wp m Q s = Q a s'"
  by (simp add: wp_def)

lemma wpD: "wp m Q s \<Longrightarrow> run_state m s = (a, s') \<Longrightarrow> Q a s'"
  by (simp add: wp_def)

lemma wpI: "(\<And>a s'. run_state m s = (a, s') \<Longrightarrow> Q a s') \<Longrightarrow> wp m Q s"
  by (simp add: wp_def)

lemma wp_conj: "wp m (\<lambda>a s. P a s \<and> Q a s) s = (wp m P s \<and> wp m Q s)"
  by (simp add: wp_def)

lemma wp_all: "wp m (\<lambda>a s. \<forall>x. P x a s) s = (\<forall>x. wp m (P x) s)"
  by (simp add: wp_def)

lemma wp_True [simp]: "wp m (\<lambda>a s. True) s"
  by (simp add: wp_def)

section \<open>Bounded polling\<close>

text \<open>
  \<open>poll n rd ok idle\<close> reads up to \<open>n\<close> times, waits with \<open>idle\<close> after every
  read that is not yet \<open>ok\<close>, and gives the first \<open>ok\<close> value, or \<open>None\<close> when all
  \<open>n\<close> reads failed. It is the loop
  \<^verbatim>\<open>for (i = 0; i < n; i++) { v = rd; if (ok(v)) break; idle; }\<close>
  of the source; it is structurally recursive, so every such loop returns.
\<close>

fun poll :: "nat \<Rightarrow> ('s, 'a) state \<Rightarrow> ('a \<Rightarrow> bool) \<Rightarrow> ('s, unit) state \<Rightarrow> ('s, 'a option) state" where
  "poll 0 rd ok idle = return None"
| "poll (Suc n) rd ok idle =
     do { v \<leftarrow> rd;
          if ok v then return (Some v)
          else do { idle; poll n rd ok idle } }"

declare poll.simps [simp del]

lemma poll_numeral:
  "poll (numeral k) rd ok idle =
     do { v \<leftarrow> rd;
          if ok v then return (Some v)
          else do { idle; poll (pred_numeral k) rd ok idle } }"
  by (simp add: numeral_eq_Suc poll.simps)

text \<open>An invariant of the wait step and the read holds after polling; a value found is ok.\<close>

lemma wp_poll:
  assumes "I s"
    and rd: "\<And>s. I s \<Longrightarrow> wp rd (\<lambda>v s'. J v s' \<and> (\<not> ok v \<longrightarrow> wp idle (\<lambda>_. I) s')) s"
    and some: "\<And>v s. J v s \<Longrightarrow> ok v \<Longrightarrow> Q (Some v) s"
    and none: "\<And>s. I s \<Longrightarrow> Q None s"
  shows "wp (poll n rd ok idle) Q s"
  using assms(1)
proof (induction n arbitrary: s)
  case 0
  then show ?case by (simp add: poll.simps wp none)
next
  case (Suc n)
  have "wp rd (\<lambda>v. wp (if ok v then return (Some v)
          else do { idle; poll n rd ok idle }) Q) s"
    by (rule wp_mono [OF rd [OF Suc.prems]])
      (auto simp: wp some intro: wp_mono Suc.IH)
  then show ?case by (simp add: poll.simps wp)
qed

lemma poll_first:
  assumes "n \<noteq> 0" and "run_state rd s = (v, s')" and "ok v"
  shows "run_state (poll n rd ok idle) s = (Some v, s')"
  using assms by (cases n) (simp_all add: poll.simps)

lemma poll_never:
  assumes "I s"
    and "\<And>s. I s \<Longrightarrow> \<not> ok (fst (run_state rd s))"
    and "\<And>s. I s \<Longrightarrow> I (snd (run_state idle (snd (run_state rd s))))"
  shows "fst (run_state (poll n rd ok idle) s) = None"
  using assms(1)
proof (induction n arbitrary: s)
  case 0
  then show ?case by (simp add: poll.simps)
next
  case (Suc n)
  obtain v s1 where r: "run_state rd s = (v, s1)" by fastforce
  obtain s2 where i: "run_state idle s1 = ((), s2)" by (cases "run_state idle s1") auto
  from assms(2) [OF Suc.prems] assms(3) [OF Suc.prems] r i have "\<not> ok v" "I s2" by simp_all
  with Suc.IH r i show ?case by (simp add: poll.simps)
qed

section \<open>Repeated attempts\<close>

text \<open>
  \<open>retry n body\<close> is the loop
  \<^verbatim>\<open>count = 0; do { body } while (count++ < n)\<close>, whose body says, next to its value,
  whether the loop condition is to be tested (\<open>True\<close>) or the loop is left (\<open>False\<close>).
  The body runs at least once and at most \<open>n + 1\<close> times.
\<close>

fun retry :: "nat \<Rightarrow> ('s, bool \<times> 'a) state \<Rightarrow> ('s, 'a) state" where
  "retry 0 body = do { (again, a) \<leftarrow> body; return a }"
| "retry (Suc n) body = do { (again, a) \<leftarrow> body; if again then retry n body else return a }"

declare retry.simps [simp del]

lemma wp_retry:
  assumes "I s"
    and body: "\<And>s. I s \<Longrightarrow> wp body (\<lambda>(again, a) s'. Q a s' \<and> (again \<longrightarrow> I s')) s"
  shows "wp (retry n body) Q s"
  using assms(1)
proof (induction n arbitrary: s)
  case 0
  show ?case
    unfolding retry.simps wp by (rule wp_mono [OF body [OF 0]]) auto
next
  case (Suc n)
  show ?case
    unfolding retry.simps wp
    by (rule wp_mono [OF body [OF Suc.prems]]) (auto simp: wp intro: Suc.IH)
qed

lemma retry_once:
  assumes "run_state body s = ((False, a), s')"
  shows "run_state (retry n body) s = (a, s')"
  using assms by (cases n) (simp_all add: retry.simps)

section \<open>Words and lists\<close>

lemma and_one_bit: "(w AND push_bit n 1 \<noteq> 0) = bit w n"
  for w :: "'a::len word"
  by (simp only: bit_iff_and_push_bit_not_eq_0)

text \<open>
  The complement of a mask stays written as such (the simplifier would turn it into a negative
  numeral), so that the laws of set and cleared fields apply.
\<close>

declare not_numeral_eq [simp del] not_one_eq [simp del]
  word_no_log_defs(1) [simp del] word_bitwise_1_simps(1) [simp del]

lemmas not_evals = not_numeral_eq not_one_eq word_no_log_defs(1) word_bitwise_1_simps(1)

lemma set_clear_field:
  fixes x m :: "'a::len word"
  shows "(x OR m) AND m = m" "(x AND NOT m) AND m = 0" "(x AND NOT m) OR m = x OR m"
    "(x OR m) AND NOT m = x AND NOT m"
  by (auto intro!: bit_word_eqI simp: bit_simps)

lemma unat_inc_less: "a < b \<Longrightarrow> unat (a + 1) = Suc (unat a)"
  for a b :: "'a::len word"
proof -
  assume "a < b"
  then have "unat a < unat b" by (simp add: word_less_nat_alt)
  moreover have "unat b < 2 ^ LENGTH('a)" by (rule unsigned_less)
  ultimately have "Suc (unat a) < 2 ^ LENGTH('a)" by linarith
  then show ?thesis by (simp add: unat_word_ariths)
qed

lemma unat_ucast_up:
  fixes w :: "'a::len word"
  assumes "LENGTH('a) \<le> LENGTH('b)"
  shows "unat (ucast w :: 'b::len word) = unat w"
proof -
  have "unat w < 2 ^ LENGTH('a)" by (rule unsigned_less)
  also have "(2::nat) ^ LENGTH('a) \<le> 2 ^ LENGTH('b)"
    using assms by (intro power_increasing) simp_all
  finally show ?thesis by (simp add: unsigned_ucast_eq take_bit_nat_eq_self)
qed

lemma unat_ucast_widen [simp]:
  "unat (ucast (b :: u8) :: u16) = unat b" "unat (ucast (b :: u8) :: u32) = unat b"
  "unat (ucast (w :: u16) :: u32) = unat w"
  by (simp_all add: unat_ucast_up)

lemma single_bit:
  "k < LENGTH('a) \<Longrightarrow> bit (push_bit k 1 :: 'a::len word) n \<longleftrightarrow> n = k"
  by (auto simp: bit_simps)

lemma byte_bit_high: "8 \<le> n \<Longrightarrow> \<not> bit (w :: u8) n"
  by (auto dest: bit_imp_le_length)

lemma list_update_beyond_take: "n \<le> i \<Longrightarrow> take n (xs[i := v]) = take n xs"
  by simp

lemma take_Suc_update:
  "i < length xs \<Longrightarrow> take (Suc i) (xs[i := v]) = take i xs @ [v]"
  by (simp add: take_Suc_conv_app_nth)

section \<open>Reachable states\<close>

text \<open>
  The interface of a transition system with an invariant: what holds at the start and is kept by
  every step holds in every state that can be reached.
\<close>

locale transition_system =
  fixes initial :: "'s \<Rightarrow> bool"
    and step :: "'s \<Rightarrow> 's \<Rightarrow> bool"
    and inv :: "'s \<Rightarrow> bool"
  assumes inv_initial: "initial s \<Longrightarrow> inv s"
    and inv_step: "inv s \<Longrightarrow> step s s' \<Longrightarrow> inv s'"
begin

lemma inv_from:
  assumes "inv s" and "step\<^sup>*\<^sup>* s s'"
  shows "inv s'"
  using assms(2,1) by induction (auto intro: inv_step)

lemma inv_reach:
  assumes "initial s" and "step\<^sup>*\<^sup>* s s'"
  shows "inv s'"
  using assms by (blast intro: inv_from inv_initial)

end

end
