(* ===== verification/Regs.thy ===== *)
theory Regs
  imports Prelude
begin

text \<open>
  The constants of \<open>regs.h\<close>, \<open>defines.h\<close>, \<open>hw.h\<close>, \<open>manage.h\<close> and
  \<open>ich8lan.h\<close> that the modelled code uses, under the names of the source: register
  offsets and bits at the width of the register, counts as natural numbers, error numbers as
  integers. They are abbreviations, so the simplifier sees the numerals.
\<close>

subsection \<open>PHY register addresses, phy.h and defines.h\<close>

abbreviation (input) MAX_PHY_REG_ADDRESS :: u32 where
  "MAX_PHY_REG_ADDRESS \<equiv> 0x1F"

abbreviation (input) MAX_PHY_MULTI_PAGE_REG :: u32 where
  "MAX_PHY_MULTI_PAGE_REG \<equiv> 0xF"

abbreviation (input) IGP01E1000_PHY_PAGE_SELECT :: u32 where
  "IGP01E1000_PHY_PAGE_SELECT \<equiv> 0x1F"

abbreviation (input) IGP01E1000_PHY_PORT_STATUS :: u32 where
  "IGP01E1000_PHY_PORT_STATUS \<equiv> 0x11"

abbreviation (input) IGP01E1000_PHY_LINK_HEALTH :: u32 where
  "IGP01E1000_PHY_LINK_HEALTH \<equiv> 0x13"

abbreviation (input) IGP01E1000_PHY_PCS_INIT_REG :: u32 where
  "IGP01E1000_PHY_PCS_INIT_REG \<equiv> 0x00B4"

abbreviation (input) IGP02E1000_PHY_AGC_A :: u32 where
  "IGP02E1000_PHY_AGC_A \<equiv> 0x11B1"

abbreviation (input) IGP02E1000_PHY_AGC_B :: u32 where
  "IGP02E1000_PHY_AGC_B \<equiv> 0x12B1"

abbreviation (input) IGP02E1000_PHY_AGC_C :: u32 where
  "IGP02E1000_PHY_AGC_C \<equiv> 0x14B1"

abbreviation (input) IGP02E1000_PHY_AGC_D :: u32 where
  "IGP02E1000_PHY_AGC_D \<equiv> 0x18B1"

abbreviation (input) M88E1000_PHY_SPEC_CTRL :: u32 where
  "M88E1000_PHY_SPEC_CTRL \<equiv> 0x10"

abbreviation (input) M88E1000_PHY_SPEC_STATUS :: u32 where
  "M88E1000_PHY_SPEC_STATUS \<equiv> 0x11"

abbreviation (input) M88E1000_PHY_GEN_CONTROL :: u32 where
  "M88E1000_PHY_GEN_CONTROL \<equiv> 0x1E"

abbreviation (input) IFE_PHY_EXTENDED_STATUS_CONTROL :: u32 where
  "IFE_PHY_EXTENDED_STATUS_CONTROL \<equiv> 0x10"

abbreviation (input) IFE_PHY_SPECIAL_CONTROL :: u32 where
  "IFE_PHY_SPECIAL_CONTROL \<equiv> 0x11"

abbreviation (input) IFE_PHY_MDIX_CONTROL :: u32 where
  "IFE_PHY_MDIX_CONTROL \<equiv> 0x1C"

abbreviation (input) I82577_PHY_STATUS_2 :: u32 where
  "I82577_PHY_STATUS_2 \<equiv> 26"

abbreviation (input) I82577_PHY_DIAG_STATUS :: u32 where
  "I82577_PHY_DIAG_STATUS \<equiv> 31"

abbreviation (input) PHY_REVISION_MASK :: u32 where
  "PHY_REVISION_MASK \<equiv> 0xFFFFFFF0"

abbreviation (input) E1000_KMRNCTRLSTA_OFFSET :: u32 where
  "E1000_KMRNCTRLSTA_OFFSET \<equiv> 0x001F0000"

abbreviation (input) E1000_KMRNCTRLSTA_REN :: u32 where
  "E1000_KMRNCTRLSTA_REN \<equiv> 0x00200000"

abbreviation (input) E1000_MANC_BLK_PHY_RST_ON_IDE :: u32 where
  "E1000_MANC_BLK_PHY_RST_ON_IDE \<equiv> 0x00040000"

abbreviation (input) E1000_CTRL_PHY_RST :: u32 where
  "E1000_CTRL_PHY_RST \<equiv> 0x80000000"

subsection \<open>PHY fields, phy.h and defines.h\<close>

abbreviation (input) M88E1000_PSSR_DOWNSHIFT :: u16 where
  "M88E1000_PSSR_DOWNSHIFT \<equiv> 0x0020"

abbreviation (input) M88E1000_PSSR_REV_POLARITY :: u16 where
  "M88E1000_PSSR_REV_POLARITY \<equiv> 0x0002"

abbreviation (input) M88E1000_PSSR_CABLE_LENGTH :: u16 where
  "M88E1000_PSSR_CABLE_LENGTH \<equiv> 0x0380"

abbreviation (input) M88E1000_PSSR_MDIX :: u16 where
  "M88E1000_PSSR_MDIX \<equiv> 0x0040"

abbreviation (input) M88E1000_PSSR_SPEED :: u16 where
  "M88E1000_PSSR_SPEED \<equiv> 0xC000"

abbreviation (input) M88E1000_PSSR_1000MBS :: u16 where
  "M88E1000_PSSR_1000MBS \<equiv> 0x8000"

abbreviation (input) M88E1000_PSCR_POLARITY_REVERSAL :: u16 where
  "M88E1000_PSCR_POLARITY_REVERSAL \<equiv> 0x0002"

abbreviation (input) IGP01E1000_PLHR_SS_DOWNGRADE :: u16 where
  "IGP01E1000_PLHR_SS_DOWNGRADE \<equiv> 0x8000"

abbreviation (input) IGP01E1000_PSSR_SPEED_MASK :: u16 where
  "IGP01E1000_PSSR_SPEED_MASK \<equiv> 0xC000"

abbreviation (input) IGP01E1000_PSSR_SPEED_1000MBPS :: u16 where
  "IGP01E1000_PSSR_SPEED_1000MBPS \<equiv> 0xC000"

abbreviation (input) IGP01E1000_PHY_POLARITY_MASK :: u16 where
  "IGP01E1000_PHY_POLARITY_MASK \<equiv> 0x0078"

abbreviation (input) IGP01E1000_PSSR_POLARITY_REVERSED :: u16 where
  "IGP01E1000_PSSR_POLARITY_REVERSED \<equiv> 0x0002"

abbreviation (input) IGP01E1000_PSSR_MDIX :: u16 where
  "IGP01E1000_PSSR_MDIX \<equiv> 0x0800"

abbreviation (input) IFE_PESC_POLARITY_REVERSED :: u16 where
  "IFE_PESC_POLARITY_REVERSED \<equiv> 0x0100"

abbreviation (input) IFE_PSC_FORCE_POLARITY :: u16 where
  "IFE_PSC_FORCE_POLARITY \<equiv> 0x0020"

abbreviation (input) IFE_PSC_AUTO_POLARITY_DISABLE :: u16 where
  "IFE_PSC_AUTO_POLARITY_DISABLE \<equiv> 0x0010"

abbreviation (input) IFE_PMC_MDIX_STATUS :: u16 where
  "IFE_PMC_MDIX_STATUS \<equiv> 0x0020"

abbreviation (input) I82577_PHY_STATUS2_REV_POLARITY :: u16 where
  "I82577_PHY_STATUS2_REV_POLARITY \<equiv> 0x0400"

abbreviation (input) I82577_PHY_STATUS2_MDIX :: u16 where
  "I82577_PHY_STATUS2_MDIX \<equiv> 0x0800"

abbreviation (input) I82577_PHY_STATUS2_SPEED_MASK :: u16 where
  "I82577_PHY_STATUS2_SPEED_MASK \<equiv> 0x0300"

abbreviation (input) I82577_PHY_STATUS2_SPEED_1000MBPS :: u16 where
  "I82577_PHY_STATUS2_SPEED_1000MBPS \<equiv> 0x0200"

abbreviation (input) I82577_DSTATUS_CABLE_LENGTH :: u16 where
  "I82577_DSTATUS_CABLE_LENGTH \<equiv> 0x03FC"

abbreviation (input) E1000_CABLE_LENGTH_UNDEFINED :: u16 where
  "E1000_CABLE_LENGTH_UNDEFINED \<equiv> 0xFF"

abbreviation (input) IGP02E1000_AGC_LENGTH_MASK :: u16 where
  "IGP02E1000_AGC_LENGTH_MASK \<equiv> 0x7F"

subsection \<open>PHY shifts and counts, phy.h and defines.h\<close>

abbreviation (input) M88E1000_PSSR_CABLE_LENGTH_SHIFT :: nat where
  "M88E1000_PSSR_CABLE_LENGTH_SHIFT \<equiv> 7"

abbreviation (input) I82577_DSTATUS_CABLE_LENGTH_SHIFT :: nat where
  "I82577_DSTATUS_CABLE_LENGTH_SHIFT \<equiv> 2"

abbreviation (input) IGP02E1000_AGC_LENGTH_SHIFT :: nat where
  "IGP02E1000_AGC_LENGTH_SHIFT \<equiv> 9"

abbreviation (input) IGP02E1000_PHY_CHANNEL_NUM :: nat where
  "IGP02E1000_PHY_CHANNEL_NUM \<equiv> 4"

abbreviation (input) IGP02E1000_AGC_RANGE :: nat where
  "IGP02E1000_AGC_RANGE \<equiv> 15"

abbreviation (input) PHY_AUTO_NEG_LIMIT :: nat where
  "PHY_AUTO_NEG_LIMIT \<equiv> 45"

abbreviation (input) E1000_KMRNCTRLSTA_OFFSET_SHIFT :: nat where
  "E1000_KMRNCTRLSTA_OFFSET_SHIFT \<equiv> 16"

subsection \<open>PHY return codes, phy.h\<close>

abbreviation (input) E1000_BLK_PHY_RESET :: s32 where
  "E1000_BLK_PHY_RESET \<equiv> 12"

subsection \<open>Registers of the MAC register space, regs.h\<close>

abbreviation (input) E1000_CTRL :: u32 where
  "E1000_CTRL \<equiv> 0x00000"

abbreviation (input) E1000_STATUS :: u32 where
  "E1000_STATUS \<equiv> 0x00008"

abbreviation (input) E1000_EECD :: u32 where
  "E1000_EECD \<equiv> 0x00010"

abbreviation (input) E1000_EERD :: u32 where
  "E1000_EERD \<equiv> 0x00014"

abbreviation (input) E1000_CTRL_EXT :: u32 where
  "E1000_CTRL_EXT \<equiv> 0x00018"

abbreviation (input) E1000_MDIC :: u32 where
  "E1000_MDIC \<equiv> 0x00020"

abbreviation (input) E1000_FCAL :: u32 where
  "E1000_FCAL \<equiv> 0x00028"

abbreviation (input) E1000_FCAH :: u32 where
  "E1000_FCAH \<equiv> 0x0002C"

abbreviation (input) E1000_FCT :: u32 where
  "E1000_FCT \<equiv> 0x00030"

abbreviation (input) E1000_RCTL :: u32 where
  "E1000_RCTL \<equiv> 0x00100"

abbreviation (input) E1000_FCTTV :: u32 where
  "E1000_FCTTV \<equiv> 0x00170"

abbreviation (input) E1000_TXCW :: u32 where
  "E1000_TXCW \<equiv> 0x00178"

abbreviation (input) E1000_RXCW :: u32 where
  "E1000_RXCW \<equiv> 0x00180"

abbreviation (input) E1000_TCTL :: u32 where
  "E1000_TCTL \<equiv> 0x00400"

abbreviation (input) E1000_AIT :: u32 where
  "E1000_AIT \<equiv> 0x00458"

abbreviation (input) E1000_LEDCTL :: u32 where
  "E1000_LEDCTL \<equiv> 0x00E00"

abbreviation (input) E1000_EXTCNF_CTRL :: u32 where
  "E1000_EXTCNF_CTRL \<equiv> 0x00F00"

abbreviation (input) E1000_PHY_CTRL :: u32 where
  "E1000_PHY_CTRL \<equiv> 0x00F10"

abbreviation (input) E1000_EEWR :: u32 where
  "E1000_EEWR \<equiv> 0x0102C"

abbreviation (input) E1000_FCRTL :: u32 where
  "E1000_FCRTL \<equiv> 0x02160"

abbreviation (input) E1000_FCRTH :: u32 where
  "E1000_FCRTH \<equiv> 0x02168"

abbreviation (input) E1000_PCS_LCTL :: u32 where
  "E1000_PCS_LCTL \<equiv> 0x04208"

abbreviation (input) E1000_PCS_LSTAT :: u32 where
  "E1000_PCS_LSTAT \<equiv> 0x0420C"

abbreviation (input) E1000_PCS_ANADV :: u32 where
  "E1000_PCS_ANADV \<equiv> 0x04218"

abbreviation (input) E1000_PCS_LPAB :: u32 where
  "E1000_PCS_LPAB \<equiv> 0x0421C"

abbreviation (input) E1000_MTA :: u32 where
  "E1000_MTA \<equiv> 0x05200"

abbreviation (input) E1000_RA :: u32 where
  "E1000_RA \<equiv> 0x05400"

abbreviation (input) E1000_VFTA :: u32 where
  "E1000_VFTA \<equiv> 0x05600"

abbreviation (input) E1000_MANC :: u32 where
  "E1000_MANC \<equiv> 0x05820"

abbreviation (input) E1000_HOST_IF :: u32 where
  "E1000_HOST_IF \<equiv> 0x08800"

abbreviation (input) E1000_KMRNCTRLSTA :: u32 where
  "E1000_KMRNCTRLSTA \<equiv> 0x00034"

abbreviation (input) E1000_SW_FW_SYNC :: u32 where
  "E1000_SW_FW_SYNC \<equiv> 0x05B5C"

abbreviation (input) E1000_GCR :: u32 where
  "E1000_GCR \<equiv> 0x05B00"

abbreviation (input) E1000_FACTPS :: u32 where
  "E1000_FACTPS \<equiv> 0x05B30"

abbreviation (input) E1000_SWSM :: u32 where
  "E1000_SWSM \<equiv> 0x05B50"

abbreviation (input) E1000_FWSM :: u32 where
  "E1000_FWSM \<equiv> 0x05B54"

abbreviation (input) E1000_SWSM2 :: u32 where
  "E1000_SWSM2 \<equiv> 0x05B58"

abbreviation (input) E1000_HICR :: u32 where
  "E1000_HICR \<equiv> 0x08F00"

abbreviation (input) E1000_STRAP :: u32 where
  "E1000_STRAP \<equiv> 0x0000C"

abbreviation (input) E1000_CRCERRS :: u32 where
  "E1000_CRCERRS \<equiv> 0x04000"

abbreviation (input) E1000_ALGNERRC :: u32 where
  "E1000_ALGNERRC \<equiv> 0x04004"

abbreviation (input) E1000_SYMERRS :: u32 where
  "E1000_SYMERRS \<equiv> 0x04008"

abbreviation (input) E1000_RXERRC :: u32 where
  "E1000_RXERRC \<equiv> 0x0400C"

abbreviation (input) E1000_MPC :: u32 where
  "E1000_MPC \<equiv> 0x04010"

abbreviation (input) E1000_SCC :: u32 where
  "E1000_SCC \<equiv> 0x04014"

abbreviation (input) E1000_ECOL :: u32 where
  "E1000_ECOL \<equiv> 0x04018"

abbreviation (input) E1000_MCC :: u32 where
  "E1000_MCC \<equiv> 0x0401C"

abbreviation (input) E1000_LATECOL :: u32 where
  "E1000_LATECOL \<equiv> 0x04020"

abbreviation (input) E1000_COLC :: u32 where
  "E1000_COLC \<equiv> 0x04028"

abbreviation (input) E1000_DC :: u32 where
  "E1000_DC \<equiv> 0x04030"

abbreviation (input) E1000_TNCRS :: u32 where
  "E1000_TNCRS \<equiv> 0x04034"

abbreviation (input) E1000_SEC :: u32 where
  "E1000_SEC \<equiv> 0x04038"

abbreviation (input) E1000_CEXTERR :: u32 where
  "E1000_CEXTERR \<equiv> 0x0403C"

abbreviation (input) E1000_RLEC :: u32 where
  "E1000_RLEC \<equiv> 0x04040"

abbreviation (input) E1000_XONRXC :: u32 where
  "E1000_XONRXC \<equiv> 0x04048"

abbreviation (input) E1000_XONTXC :: u32 where
  "E1000_XONTXC \<equiv> 0x0404C"

abbreviation (input) E1000_XOFFRXC :: u32 where
  "E1000_XOFFRXC \<equiv> 0x04050"

abbreviation (input) E1000_XOFFTXC :: u32 where
  "E1000_XOFFTXC \<equiv> 0x04054"

abbreviation (input) E1000_FCRUC :: u32 where
  "E1000_FCRUC \<equiv> 0x04058"

abbreviation (input) E1000_GPRC :: u32 where
  "E1000_GPRC \<equiv> 0x04074"

abbreviation (input) E1000_BPRC :: u32 where
  "E1000_BPRC \<equiv> 0x04078"

abbreviation (input) E1000_MPRC :: u32 where
  "E1000_MPRC \<equiv> 0x0407C"

abbreviation (input) E1000_GPTC :: u32 where
  "E1000_GPTC \<equiv> 0x04080"

abbreviation (input) E1000_GORCL :: u32 where
  "E1000_GORCL \<equiv> 0x04088"

abbreviation (input) E1000_GORCH :: u32 where
  "E1000_GORCH \<equiv> 0x0408C"

abbreviation (input) E1000_GOTCL :: u32 where
  "E1000_GOTCL \<equiv> 0x04090"

abbreviation (input) E1000_GOTCH :: u32 where
  "E1000_GOTCH \<equiv> 0x04094"

abbreviation (input) E1000_RNBC :: u32 where
  "E1000_RNBC \<equiv> 0x040A0"

abbreviation (input) E1000_RUC :: u32 where
  "E1000_RUC \<equiv> 0x040A4"

abbreviation (input) E1000_RFC :: u32 where
  "E1000_RFC \<equiv> 0x040A8"

abbreviation (input) E1000_ROC :: u32 where
  "E1000_ROC \<equiv> 0x040AC"

abbreviation (input) E1000_RJC :: u32 where
  "E1000_RJC \<equiv> 0x040B0"

abbreviation (input) E1000_TORL :: u32 where
  "E1000_TORL \<equiv> 0x040C0"

abbreviation (input) E1000_TORH :: u32 where
  "E1000_TORH \<equiv> 0x040C4"

abbreviation (input) E1000_TOTL :: u32 where
  "E1000_TOTL \<equiv> 0x040C8"

abbreviation (input) E1000_TOTH :: u32 where
  "E1000_TOTH \<equiv> 0x040CC"

abbreviation (input) E1000_TPR :: u32 where
  "E1000_TPR \<equiv> 0x040D0"

abbreviation (input) E1000_TPT :: u32 where
  "E1000_TPT \<equiv> 0x040D4"

abbreviation (input) E1000_MPTC :: u32 where
  "E1000_MPTC \<equiv> 0x040F0"

abbreviation (input) E1000_BPTC :: u32 where
  "E1000_BPTC \<equiv> 0x040F4"

subsection \<open>Bits and fields, defines.h\<close>

abbreviation (input) E1000_CTRL_EXT_EE_RST :: u32 where
  "E1000_CTRL_EXT_EE_RST \<equiv> 0x00002000"

abbreviation (input) E1000_MANC_SMBUS_EN :: u32 where
  "E1000_MANC_SMBUS_EN \<equiv> 0x00000001"

abbreviation (input) E1000_MANC_ASF_EN :: u32 where
  "E1000_MANC_ASF_EN \<equiv> 0x00000002"

abbreviation (input) E1000_MANC_RCV_TCO_EN :: u32 where
  "E1000_MANC_RCV_TCO_EN \<equiv> 0x00020000"

abbreviation (input) E1000_CTRL_FD :: u32 where
  "E1000_CTRL_FD \<equiv> 0x00000001"

abbreviation (input) E1000_CTRL_GIO_MASTER_DISABLE :: u32 where
  "E1000_CTRL_GIO_MASTER_DISABLE \<equiv> 0x00000004"

abbreviation (input) E1000_CTRL_LRST :: u32 where
  "E1000_CTRL_LRST \<equiv> 0x00000008"

abbreviation (input) E1000_CTRL_SLU :: u32 where
  "E1000_CTRL_SLU \<equiv> 0x00000040"

abbreviation (input) E1000_CTRL_SWDPIN0 :: u32 where
  "E1000_CTRL_SWDPIN0 \<equiv> 0x00040000"

abbreviation (input) E1000_CTRL_SWDPIN1 :: u32 where
  "E1000_CTRL_SWDPIN1 \<equiv> 0x00080000"

abbreviation (input) E1000_CTRL_SWDPIO0 :: u32 where
  "E1000_CTRL_SWDPIO0 \<equiv> 0x00400000"

abbreviation (input) E1000_CTRL_RFCE :: u32 where
  "E1000_CTRL_RFCE \<equiv> 0x08000000"

abbreviation (input) E1000_CTRL_TFCE :: u32 where
  "E1000_CTRL_TFCE \<equiv> 0x10000000"

abbreviation (input) E1000_PCS_LCTL_FORCE_FCTRL :: u32 where
  "E1000_PCS_LCTL_FORCE_FCTRL \<equiv> 0x80"

abbreviation (input) E1000_PCS_LSTS_AN_COMPLETE :: u32 where
  "E1000_PCS_LSTS_AN_COMPLETE \<equiv> 0x10000"

abbreviation (input) E1000_STATUS_FD :: u32 where
  "E1000_STATUS_FD \<equiv> 0x00000001"

abbreviation (input) E1000_STATUS_LU :: u32 where
  "E1000_STATUS_LU \<equiv> 0x00000002"

abbreviation (input) E1000_STATUS_FUNC_MASK :: u32 where
  "E1000_STATUS_FUNC_MASK \<equiv> 0x0000000C"

abbreviation (input) E1000_EXTCNF_CTRL_SWFLAG :: u32 where
  "E1000_EXTCNF_CTRL_SWFLAG \<equiv> 0x00000020"

abbreviation (input) E1000_STATUS_SPEED_100 :: u32 where
  "E1000_STATUS_SPEED_100 \<equiv> 0x00000040"

abbreviation (input) E1000_STATUS_SPEED_1000 :: u32 where
  "E1000_STATUS_SPEED_1000 \<equiv> 0x00000080"

abbreviation (input) E1000_STATUS_GIO_MASTER_ENABLE :: u32 where
  "E1000_STATUS_GIO_MASTER_ENABLE \<equiv> 0x00080000"

abbreviation (input) E1000_LEDCTL_LED0_MODE_MASK :: u32 where
  "E1000_LEDCTL_LED0_MODE_MASK \<equiv> 0x0000000F"

abbreviation (input) E1000_LEDCTL_LED0_IVRT :: u32 where
  "E1000_LEDCTL_LED0_IVRT \<equiv> 0x00000040"

abbreviation (input) E1000_LEDCTL_LED0_BLINK :: u32 where
  "E1000_LEDCTL_LED0_BLINK \<equiv> 0x00000080"

abbreviation (input) E1000_LEDCTL_MODE_LED_ON :: u32 where
  "E1000_LEDCTL_MODE_LED_ON \<equiv> 0xE"

abbreviation (input) E1000_LEDCTL_MODE_LED_OFF :: u32 where
  "E1000_LEDCTL_MODE_LED_OFF \<equiv> 0xF"

abbreviation (input) E1000_TCTL_COLD :: u32 where
  "E1000_TCTL_COLD \<equiv> 0x003ff000"

abbreviation (input) E1000_COLLISION_DISTANCE :: u32 where
  "E1000_COLLISION_DISTANCE \<equiv> 63"

abbreviation (input) E1000_RAH_AV :: u32 where
  "E1000_RAH_AV \<equiv> 0x80000000"

abbreviation (input) E1000_FCRTL_XONE :: u32 where
  "E1000_FCRTL_XONE \<equiv> 0x80000000"

abbreviation (input) E1000_TXCW_FD :: u32 where
  "E1000_TXCW_FD \<equiv> 0x00000020"

abbreviation (input) E1000_TXCW_PAUSE :: u32 where
  "E1000_TXCW_PAUSE \<equiv> 0x00000080"

abbreviation (input) E1000_TXCW_ASM_DIR :: u32 where
  "E1000_TXCW_ASM_DIR \<equiv> 0x00000100"

abbreviation (input) E1000_TXCW_PAUSE_MASK :: u32 where
  "E1000_TXCW_PAUSE_MASK \<equiv> 0x00000180"

abbreviation (input) E1000_TXCW_ANE :: u32 where
  "E1000_TXCW_ANE \<equiv> 0x80000000"

abbreviation (input) E1000_RXCW_IV :: u32 where
  "E1000_RXCW_IV \<equiv> 0x08000000"

abbreviation (input) E1000_RXCW_C :: u32 where
  "E1000_RXCW_C \<equiv> 0x20000000"

abbreviation (input) E1000_RXCW_SYNCH :: u32 where
  "E1000_RXCW_SYNCH \<equiv> 0x40000000"

abbreviation (input) E1000_EECD_SK :: u32 where
  "E1000_EECD_SK \<equiv> 0x00000001"

abbreviation (input) E1000_EECD_CS :: u32 where
  "E1000_EECD_CS \<equiv> 0x00000002"

abbreviation (input) E1000_EECD_DI :: u32 where
  "E1000_EECD_DI \<equiv> 0x00000004"

abbreviation (input) E1000_EECD_DO :: u32 where
  "E1000_EECD_DO \<equiv> 0x00000008"

abbreviation (input) E1000_EECD_REQ :: u32 where
  "E1000_EECD_REQ \<equiv> 0x00000040"

abbreviation (input) E1000_EECD_GNT :: u32 where
  "E1000_EECD_GNT \<equiv> 0x00000080"

abbreviation (input) E1000_EECD_PRES :: u32 where
  "E1000_EECD_PRES \<equiv> 0x00000100"

abbreviation (input) E1000_EECD_AUTO_RD :: u32 where
  "E1000_EECD_AUTO_RD \<equiv> 0x00000200"

abbreviation (input) E1000_EECD_SEC1VAL :: u32 where
  "E1000_EECD_SEC1VAL \<equiv> 0x00400000"

abbreviation (input) E1000_NVM_RW_REG_DONE :: u32 where
  "E1000_NVM_RW_REG_DONE \<equiv> 2"

abbreviation (input) E1000_NVM_RW_REG_START :: u32 where
  "E1000_NVM_RW_REG_START \<equiv> 1"

abbreviation (input) E1000_SWFW_EEP_SM :: u32 where
  "E1000_SWFW_EEP_SM \<equiv> 0x01"

abbreviation (input) E1000_SWFW_PHY0_SM :: u32 where
  "E1000_SWFW_PHY0_SM \<equiv> 0x02"

abbreviation (input) E1000_SWFW_PHY1_SM :: u32 where
  "E1000_SWFW_PHY1_SM \<equiv> 0x04"

abbreviation (input) E1000_SWFW_CSR_SM :: u32 where
  "E1000_SWFW_CSR_SM \<equiv> 0x08"

abbreviation (input) E1000_MDIC_REG_MASK :: u32 where
  "E1000_MDIC_REG_MASK \<equiv> 0x001F0000"

abbreviation (input) E1000_MDIC_OP_WRITE :: u32 where
  "E1000_MDIC_OP_WRITE \<equiv> 0x04000000"

abbreviation (input) E1000_MDIC_OP_READ :: u32 where
  "E1000_MDIC_OP_READ \<equiv> 0x08000000"

abbreviation (input) E1000_MDIC_READY :: u32 where
  "E1000_MDIC_READY \<equiv> 0x10000000"

abbreviation (input) E1000_MDIC_ERROR :: u32 where
  "E1000_MDIC_ERROR \<equiv> 0x40000000"

subsection \<open>Shift distances, table sizes and loop bounds, defines.h\<close>

abbreviation (input) E1000_STATUS_FUNC_SHIFT :: nat where
  "E1000_STATUS_FUNC_SHIFT \<equiv> 2"

abbreviation (input) E1000_LEDCTL_LED0_MODE_SHIFT :: nat where
  "E1000_LEDCTL_LED0_MODE_SHIFT \<equiv> 0"

abbreviation (input) E1000_COLD_SHIFT :: nat where
  "E1000_COLD_SHIFT \<equiv> 12"

abbreviation (input) E1000_NVM_GRANT_ATTEMPTS :: nat where
  "E1000_NVM_GRANT_ATTEMPTS \<equiv> 1000"

abbreviation (input) E1000_NVM_RW_REG_DATA :: nat where
  "E1000_NVM_RW_REG_DATA \<equiv> 16"

abbreviation (input) E1000_NVM_RW_ADDR_SHIFT :: nat where
  "E1000_NVM_RW_ADDR_SHIFT \<equiv> 2"

abbreviation (input) E1000_VLAN_FILTER_TBL_SIZE :: nat where
  "E1000_VLAN_FILTER_TBL_SIZE \<equiv> 128"

abbreviation (input) E1000_RAL_MAC_ADDR_LEN :: nat where
  "E1000_RAL_MAC_ADDR_LEN \<equiv> 4"

abbreviation (input) E1000_RAH_MAC_ADDR_LEN :: nat where
  "E1000_RAH_MAC_ADDR_LEN \<equiv> 2"

abbreviation (input) E1000_MDIC_REG_SHIFT :: nat where
  "E1000_MDIC_REG_SHIFT \<equiv> 16"

abbreviation (input) E1000_MDIC_PHY_SHIFT :: nat where
  "E1000_MDIC_PHY_SHIFT \<equiv> 21"

abbreviation (input) E1000_GEN_POLL_TIMEOUT :: nat where
  "E1000_GEN_POLL_TIMEOUT \<equiv> 640"

subsection \<open>Error codes, defines.h\<close>

abbreviation (input) E1000_ERR_NVM :: s32 where
  "E1000_ERR_NVM \<equiv> 1"

abbreviation (input) E1000_ERR_PHY :: s32 where
  "E1000_ERR_PHY \<equiv> 2"

abbreviation (input) E1000_ERR_CONFIG :: s32 where
  "E1000_ERR_CONFIG \<equiv> 3"

abbreviation (input) E1000_ERR_PARAM :: s32 where
  "E1000_ERR_PARAM \<equiv> 4"

abbreviation (input) E1000_ERR_MAC_INIT :: s32 where
  "E1000_ERR_MAC_INIT \<equiv> 5"

abbreviation (input) E1000_ERR_PHY_TYPE :: s32 where
  "E1000_ERR_PHY_TYPE \<equiv> 6"

abbreviation (input) E1000_ERR_RESET :: s32 where
  "E1000_ERR_RESET \<equiv> 9"

abbreviation (input) E1000_ERR_MASTER_REQUESTS_PENDING :: s32 where
  "E1000_ERR_MASTER_REQUESTS_PENDING \<equiv> 10"

abbreviation (input) E1000_ERR_HOST_INTERFACE_COMMAND :: s32 where
  "E1000_ERR_HOST_INTERFACE_COMMAND \<equiv> 11"

abbreviation (input) E1000_ERR_SWFW_SYNC :: s32 where
  "E1000_ERR_SWFW_SYNC \<equiv> 13"

abbreviation (input) E1000_ERR_INVALID_ARGUMENT :: s32 where
  "E1000_ERR_INVALID_ARGUMENT \<equiv> 16"

abbreviation (input) E1000_ERR_NO_SPACE :: s32 where
  "E1000_ERR_NO_SPACE \<equiv> 17"

abbreviation (input) E1000_ERR_NVM_PBA_SECTION :: s32 where
  "E1000_ERR_NVM_PBA_SECTION \<equiv> 18"

subsection \<open>Loop bounds and flow-control constants without the driver prefix, defines.h\<close>

abbreviation (input) FIBER_LINK_UP_LIMIT :: nat where
  "FIBER_LINK_UP_LIMIT \<equiv> 50"

abbreviation (input) MASTER_DISABLE_TIMEOUT :: nat where
  "MASTER_DISABLE_TIMEOUT \<equiv> 800"

abbreviation (input) PHY_CFG_TIMEOUT :: nat where
  "PHY_CFG_TIMEOUT \<equiv> 100"

abbreviation (input) AUTO_READ_DONE_TIMEOUT :: nat where
  "AUTO_READ_DONE_TIMEOUT \<equiv> 10"

abbreviation (input) MDIO_OWNERSHIP_TIMEOUT :: nat where
  "MDIO_OWNERSHIP_TIMEOUT \<equiv> 10"

abbreviation (input) NVM_MAX_RETRY_SPI :: nat where
  "NVM_MAX_RETRY_SPI \<equiv> 5000"

abbreviation (input) PCIE_LINK_WIDTH_SHIFT :: nat where
  "PCIE_LINK_WIDTH_SHIFT \<equiv> 4"

subsection \<open>Flow-control constants, defines.h\<close>

abbreviation (input) FLOW_CONTROL_ADDRESS_LOW :: u32 where
  "FLOW_CONTROL_ADDRESS_LOW \<equiv> 0x00C28001"

abbreviation (input) FLOW_CONTROL_ADDRESS_HIGH :: u32 where
  "FLOW_CONTROL_ADDRESS_HIGH \<equiv> 0x00000100"

abbreviation (input) FLOW_CONTROL_TYPE :: u32 where
  "FLOW_CONTROL_TYPE \<equiv> 0x8808"

subsection \<open>Words and opcodes of the NVM, defines.h\<close>

abbreviation (input) NVM_COMPAT :: u16 where
  "NVM_COMPAT \<equiv> 0x0003"

abbreviation (input) NVM_ID_LED_SETTINGS :: u16 where
  "NVM_ID_LED_SETTINGS \<equiv> 0x0004"

abbreviation (input) NVM_FUTURE_INIT_WORD1 :: u16 where
  "NVM_FUTURE_INIT_WORD1 \<equiv> 0x0019"

abbreviation (input) NVM_COMPAT_VALID_CSUM :: u16 where
  "NVM_COMPAT_VALID_CSUM \<equiv> 0x0001"

abbreviation (input) NVM_FUTURE_INIT_WORD1_VALID_CSUM :: u16 where
  "NVM_FUTURE_INIT_WORD1_VALID_CSUM \<equiv> 0x0040"

abbreviation (input) NVM_INIT_CONTROL2_REG :: u16 where
  "NVM_INIT_CONTROL2_REG \<equiv> 0x000F"

abbreviation (input) NVM_ALT_MAC_ADDR_PTR :: u16 where
  "NVM_ALT_MAC_ADDR_PTR \<equiv> 0x0037"

abbreviation (input) NVM_CHECKSUM_REG :: u16 where
  "NVM_CHECKSUM_REG \<equiv> 0x003F"

abbreviation (input) NVM_WORD0F_PAUSE_MASK :: u16 where
  "NVM_WORD0F_PAUSE_MASK \<equiv> 0x3000"

abbreviation (input) NVM_WORD0F_ASM_DIR :: u16 where
  "NVM_WORD0F_ASM_DIR \<equiv> 0x2000"

abbreviation (input) NVM_SUM :: u16 where
  "NVM_SUM \<equiv> 0xBABA"

abbreviation (input) NVM_PBA_OFFSET_0 :: u16 where
  "NVM_PBA_OFFSET_0 \<equiv> 8"

abbreviation (input) NVM_PBA_OFFSET_1 :: u16 where
  "NVM_PBA_OFFSET_1 \<equiv> 9"

abbreviation (input) NVM_PBA_PTR_GUARD :: u16 where
  "NVM_PBA_PTR_GUARD \<equiv> 0xFAFA"

abbreviation (input) NVM_WRITE_OPCODE_SPI :: u16 where
  "NVM_WRITE_OPCODE_SPI \<equiv> 0x02"

abbreviation (input) NVM_A8_OPCODE_SPI :: u16 where
  "NVM_A8_OPCODE_SPI \<equiv> 0x08"

abbreviation (input) NVM_WREN_OPCODE_SPI :: u16 where
  "NVM_WREN_OPCODE_SPI \<equiv> 0x06"

abbreviation (input) NVM_RDSR_OPCODE_SPI :: u16 where
  "NVM_RDSR_OPCODE_SPI \<equiv> 0x05"

abbreviation (input) NVM_STATUS_RDY_SPI :: u16 where
  "NVM_STATUS_RDY_SPI \<equiv> 0x01"

abbreviation (input) ID_LED_RESERVED_0000 :: u16 where
  "ID_LED_RESERVED_0000 \<equiv> 0x0000"

abbreviation (input) ID_LED_RESERVED_FFFF :: u16 where
  "ID_LED_RESERVED_FFFF \<equiv> 0xFFFF"

abbreviation (input) ID_LED_DEF1_DEF2 :: u16 where
  "ID_LED_DEF1_DEF2 \<equiv> 0x1"

abbreviation (input) ID_LED_DEF1_ON2 :: u16 where
  "ID_LED_DEF1_ON2 \<equiv> 0x2"

abbreviation (input) ID_LED_DEF1_OFF2 :: u16 where
  "ID_LED_DEF1_OFF2 \<equiv> 0x3"

abbreviation (input) ID_LED_ON1_DEF2 :: u16 where
  "ID_LED_ON1_DEF2 \<equiv> 0x4"

abbreviation (input) ID_LED_ON1_ON2 :: u16 where
  "ID_LED_ON1_ON2 \<equiv> 0x5"

abbreviation (input) ID_LED_ON1_OFF2 :: u16 where
  "ID_LED_ON1_OFF2 \<equiv> 0x6"

abbreviation (input) ID_LED_OFF1_DEF2 :: u16 where
  "ID_LED_OFF1_DEF2 \<equiv> 0x7"

abbreviation (input) ID_LED_OFF1_ON2 :: u16 where
  "ID_LED_OFF1_ON2 \<equiv> 0x8"

abbreviation (input) ID_LED_OFF1_OFF2 :: u16 where
  "ID_LED_OFF1_OFF2 \<equiv> 0x9"

abbreviation (input) HALF_DUPLEX :: u16 where
  "HALF_DUPLEX \<equiv> 1"

abbreviation (input) FULL_DUPLEX :: u16 where
  "FULL_DUPLEX \<equiv> 2"

abbreviation (input) PCIE_LINK_STATUS :: u16 where
  "PCIE_LINK_STATUS \<equiv> 0x12"

abbreviation (input) PCIE_LINK_WIDTH_MASK :: u16 where
  "PCIE_LINK_WIDTH_MASK \<equiv> 0x3F0"

subsection \<open>Adaptive interframe spacing, defines.h\<close>

abbreviation (input) IFS_MAX :: u16 where
  "IFS_MAX \<equiv> 80"

abbreviation (input) IFS_MIN :: u16 where
  "IFS_MIN \<equiv> 40"

abbreviation (input) IFS_RATIO :: u16 where
  "IFS_RATIO \<equiv> 4"

abbreviation (input) IFS_STEP :: u16 where
  "IFS_STEP \<equiv> 10"

subsection \<open>Adaptive interframe spacing, threshold, defines.h\<close>

abbreviation (input) MIN_NUM_XMITS :: u32 where
  "MIN_NUM_XMITS \<equiv> 1000"

subsection \<open>Length of the printed board number, defines.h\<close>

abbreviation (input) E1000_PBANUM_LENGTH :: u32 where
  "E1000_PBANUM_LENGTH \<equiv> 11"

subsection \<open>Alternate MAC addresses, hw.h\<close>

abbreviation (input) E1000_FUNC_1 :: u16 where
  "E1000_FUNC_1 \<equiv> 1"

abbreviation (input) E1000_ALT_MAC_ADDRESS_OFFSET_LAN1 :: u16 where
  "E1000_ALT_MAC_ADDRESS_OFFSET_LAN1 \<equiv> 3"

subsection \<open>Bound of the management data, hw.h\<close>

abbreviation (input) E1000_HI_MAX_MNG_DATA_LENGTH :: nat where
  "E1000_HI_MAX_MNG_DATA_LENGTH \<equiv> 0x6F8"

subsection \<open>Management, manage.h\<close>

abbreviation (input) E1000_FWSM_MODE_MASK :: u32 where
  "E1000_FWSM_MODE_MASK \<equiv> 0xE"

abbreviation (input) E1000_MNG_IAMT_MODE :: u32 where
  "E1000_MNG_IAMT_MODE \<equiv> 0x3"

abbreviation (input) E1000_FACTPS_MNGCG :: u32 where
  "E1000_FACTPS_MNGCG \<equiv> 0x20000000"

abbreviation (input) E1000_HICR_EN :: u32 where
  "E1000_HICR_EN \<equiv> 0x01"

abbreviation (input) E1000_HICR_C :: u32 where
  "E1000_HICR_C \<equiv> 0x02"

abbreviation (input) E1000_SWSM_SMBI :: u32 where
  "E1000_SWSM_SMBI \<equiv> 0x00000001"

abbreviation (input) E1000_SWSM_SWESMBI :: u32 where
  "E1000_SWSM_SWESMBI \<equiv> 0x00000002"

abbreviation (input) E1000_IAMT_SIGNATURE :: u32 where
  "E1000_IAMT_SIGNATURE \<equiv> 0x544D4149"

abbreviation (input) E1000_NVM_INIT_CTRL2_MNGM :: u32 where
  "E1000_NVM_INIT_CTRL2_MNGM \<equiv> 0x6000"

subsection \<open>Management, lengths and shifts, manage.h\<close>

abbreviation (input) E1000_FWSM_MODE_SHIFT :: nat where
  "E1000_FWSM_MODE_SHIFT \<equiv> 1"

abbreviation (input) E1000_MNG_DHCP_COOKIE_LENGTH :: nat where
  "E1000_MNG_DHCP_COOKIE_LENGTH \<equiv> 0x10"

abbreviation (input) E1000_MNG_DHCP_COOKIE_OFFSET :: nat where
  "E1000_MNG_DHCP_COOKIE_OFFSET \<equiv> 0x6F0"

abbreviation (input) E1000_MNG_DHCP_COMMAND_TIMEOUT :: nat where
  "E1000_MNG_DHCP_COMMAND_TIMEOUT \<equiv> 10"

subsection \<open>Management, bytes, manage.h\<close>

abbreviation (input) E1000_MNG_DHCP_TX_PAYLOAD_CMD :: u8 where
  "E1000_MNG_DHCP_TX_PAYLOAD_CMD \<equiv> 64"

abbreviation (input) E1000_MNG_DHCP_COOKIE_STATUS_PARSING :: u8 where
  "E1000_MNG_DHCP_COOKIE_STATUS_PARSING \<equiv> 0x1"

subsection \<open>Flash controller, ich8lan.h\<close>

abbreviation (input) ICH_FLASH_GFPREG :: u32 where
  "ICH_FLASH_GFPREG \<equiv> 0x0000"

abbreviation (input) ICH_FLASH_HSFSTS :: u32 where
  "ICH_FLASH_HSFSTS \<equiv> 0x0004"

abbreviation (input) ICH_FLASH_HSFCTL :: u32 where
  "ICH_FLASH_HSFCTL \<equiv> 0x0006"

abbreviation (input) ICH_FLASH_FADDR :: u32 where
  "ICH_FLASH_FADDR \<equiv> 0x0008"

abbreviation (input) ICH_FLASH_FDATA0 :: u32 where
  "ICH_FLASH_FDATA0 \<equiv> 0x0010"

abbreviation (input) ICH_FLASH_LINEAR_ADDR_MASK :: u32 where
  "ICH_FLASH_LINEAR_ADDR_MASK \<equiv> 0x00FFFFFF"

abbreviation (input) FLASH_GFPREG_BASE_MASK :: u32 where
  "FLASH_GFPREG_BASE_MASK \<equiv> 0x1FFF"

abbreviation (input) ICH_FLASH_SEG_SIZE_256 :: u32 where
  "ICH_FLASH_SEG_SIZE_256 \<equiv> 256"

abbreviation (input) ICH_FLASH_SEG_SIZE_4K :: u32 where
  "ICH_FLASH_SEG_SIZE_4K \<equiv> 4096"

abbreviation (input) ICH_FLASH_SEG_SIZE_8K :: u32 where
  "ICH_FLASH_SEG_SIZE_8K \<equiv> 8192"

abbreviation (input) ICH_FLASH_SEG_SIZE_64K :: u32 where
  "ICH_FLASH_SEG_SIZE_64K \<equiv> 65536"

abbreviation (input) NVM_SIZE_MULTIPLIER :: u32 where
  "NVM_SIZE_MULTIPLIER \<equiv> 4096"

abbreviation (input) E1000_ICH_FWSM_PCIM2PCI :: u32 where
  "E1000_ICH_FWSM_PCIM2PCI \<equiv> 0x01000000"

abbreviation (input) E1000_ICH_NVM_SIG_WORD :: u32 where
  "E1000_ICH_NVM_SIG_WORD \<equiv> 0x13"

abbreviation (input) E1000_ICH_NVM_SIG_MASK :: u32 where
  "E1000_ICH_NVM_SIG_MASK \<equiv> 0xC000"

subsection \<open>Flash controller, ich8lan.h\<close>

abbreviation (input) ICH_FLASH_READ_COMMAND_TIMEOUT :: nat where
  "ICH_FLASH_READ_COMMAND_TIMEOUT \<equiv> 10000000"

abbreviation (input) ICH_FLASH_WRITE_COMMAND_TIMEOUT :: nat where
  "ICH_FLASH_WRITE_COMMAND_TIMEOUT \<equiv> 10000000"

abbreviation (input) ICH_FLASH_ERASE_COMMAND_TIMEOUT :: nat where
  "ICH_FLASH_ERASE_COMMAND_TIMEOUT \<equiv> 10000000"

abbreviation (input) ICH_FLASH_CYCLE_REPEAT_COUNT :: nat where
  "ICH_FLASH_CYCLE_REPEAT_COUNT \<equiv> 10"

abbreviation (input) FLASH_SECTOR_ADDR_SHIFT :: nat where
  "FLASH_SECTOR_ADDR_SHIFT \<equiv> 12"

abbreviation (input) E1000_ICH_FWSM_PCIM2PCI_COUNT :: nat where
  "E1000_ICH_FWSM_PCIM2PCI_COUNT \<equiv> 2000"

abbreviation (input) SW_FLAG_TIMEOUT :: nat where
  "SW_FLAG_TIMEOUT \<equiv> 1000"

abbreviation (input) E1000_ICH8_SHADOW_RAM_WORDS :: nat where
  "E1000_ICH8_SHADOW_RAM_WORDS \<equiv> 2048"

subsection \<open>Flash controller, ich8lan.h\<close>

abbreviation (input) ICH_CYCLE_READ :: u16 where
  "ICH_CYCLE_READ \<equiv> 0"

abbreviation (input) ICH_CYCLE_WRITE :: u16 where
  "ICH_CYCLE_WRITE \<equiv> 2"

abbreviation (input) ICH_CYCLE_ERASE :: u16 where
  "ICH_CYCLE_ERASE \<equiv> 3"

subsection \<open>Flash signature, ich8lan.h\<close>

abbreviation (input) E1000_ICH_NVM_VALID_SIG_MASK :: u8 where
  "E1000_ICH_NVM_VALID_SIG_MASK \<equiv> 0xC0"

abbreviation (input) E1000_ICH_NVM_SIG_VALUE :: u8 where
  "E1000_ICH_NVM_SIG_VALUE \<equiv> 0x80"

subsection \<open>Composite constants and register arrays\<close>

abbreviation (input) E1000_EECD_SEC1VAL_VALID_MASK :: u32 where
  "E1000_EECD_SEC1VAL_VALID_MASK \<equiv> E1000_EECD_AUTO_RD OR E1000_EECD_PRES"

abbreviation (input) PCIE_NO_SNOOP_ALL :: u32 where
  "PCIE_NO_SNOOP_ALL \<equiv> 0x1 OR 0x2 OR 0x4 OR 0x8 OR 0x10 OR 0x20"

abbreviation (input) ID_LED_DEFAULT :: u16 where
  "ID_LED_DEFAULT \<equiv> push_bit 12 ID_LED_OFF1_ON2 OR push_bit 8 ID_LED_OFF1_OFF2 OR
     push_bit 4 ID_LED_DEF1_DEF2 OR ID_LED_DEF1_DEF2"

abbreviation (input) ID_LED_DEFAULT_ICH8LAN :: u16 where
  "ID_LED_DEFAULT_ICH8LAN \<equiv> push_bit 12 ID_LED_DEF1_DEF2 OR push_bit 8 ID_LED_OFF1_OFF2 OR
     push_bit 4 ID_LED_OFF1_ON2 OR ID_LED_DEF1_DEF2"

text \<open>Low and high word of receive address register \<open>i\<close>.\<close>

definition E1000_RAL :: "u32 \<Rightarrow> u32" where
  "E1000_RAL i = (if i \<le> 15 then 0x05400 + i * 8 else 0x054E0 + (i - 16) * 8)"

definition E1000_RAH :: "u32 \<Rightarrow> u32" where
  "E1000_RAH i = (if i \<le> 15 then 0x05404 + i * 8 else 0x054E4 + (i - 16) * 8)"

text \<open>
  Constants of the kernel headers the driver includes: the length of an Ethernet address, the
  link speeds of \<open>ethtool.h\<close> and the PHY registers of \<open>mii.h\<close>.
\<close>

abbreviation (input) ETH_ALEN :: nat where "ETH_ALEN \<equiv> 6"
abbreviation (input) SPEED_10 :: u16 where "SPEED_10 \<equiv> 10"
abbreviation (input) SPEED_100 :: u16 where "SPEED_100 \<equiv> 100"
abbreviation (input) SPEED_1000 :: u16 where "SPEED_1000 \<equiv> 1000"
abbreviation (input) MII_BMSR :: u32 where "MII_BMSR \<equiv> 1"
abbreviation (input) MII_ADVERTISE :: u32 where "MII_ADVERTISE \<equiv> 4"
abbreviation (input) MII_LPA :: u32 where "MII_LPA \<equiv> 5"
abbreviation (input) BMSR_ANEGCOMPLETE :: u16 where "BMSR_ANEGCOMPLETE \<equiv> 0x20"
abbreviation (input) ADVERTISE_PAUSE_CAP :: u16 where "ADVERTISE_PAUSE_CAP \<equiv> 0x400"
abbreviation (input) ADVERTISE_PAUSE_ASYM :: u16 where "ADVERTISE_PAUSE_ASYM \<equiv> 0x800"
abbreviation (input) LPA_PAUSE_CAP :: u16 where "LPA_PAUSE_CAP \<equiv> 0x400"
abbreviation (input) LPA_PAUSE_ASYM :: u16 where "LPA_PAUSE_ASYM \<equiv> 0x800"
abbreviation (input) MII_BMCR :: u32 where "MII_BMCR \<equiv> 0"
abbreviation (input) MII_PHYSID1 :: u32 where "MII_PHYSID1 \<equiv> 2"
abbreviation (input) MII_PHYSID2 :: u32 where "MII_PHYSID2 \<equiv> 3"
abbreviation (input) MII_STAT1000 :: u32 where "MII_STAT1000 \<equiv> 10"
abbreviation (input) BMSR_LSTATUS :: u16 where "BMSR_LSTATUS \<equiv> 0x4"
abbreviation (input) BMCR_RESET :: u16 where "BMCR_RESET \<equiv> 0x8000"
abbreviation (input) LPA_1000LOCALRXOK :: u16 where "LPA_1000LOCALRXOK \<equiv> 0x2000"
abbreviation (input) LPA_1000REMRXOK :: u16 where "LPA_1000REMRXOK \<equiv> 0x1000"

end
