(* ===== verification/Hw.thy ===== *)
theory Hw
  imports Regs
begin

text \<open>
  The hardware structure of \<open>hw.h\<close> and the accesses to the device. The structures are
  records with the fields of the source (without the function pointers: a function that calls
  through a pointer takes the callee as an argument). The device itself is not part of the
  driver: \<open>dev\<close> holds what a read of each of its registers returns, as an arbitrary
  function of everything that happened before, and every access, delay and lock is an event of
  \<open>trace\<close>, newest first. A theorem about all \<open>hw\<close> is a theorem about all devices.
\<close>

unbundle bit_operations_syntax

section \<open>Enumerations of hw.h\<close>

datatype mac_kind =
    e1000_82571 | e1000_82572 | e1000_82573 | e1000_82574 | e1000_82583 | e1000_80003es2lan
  | e1000_ich8lan | e1000_ich9lan | e1000_ich10lan | e1000_pchlan | e1000_pch2lan
  | e1000_pch_lpt | e1000_pch_spt | e1000_pch_cnp

text \<open>The source compares MAC types by their position in the enumeration.\<close>

primrec mac_index :: "mac_kind \<Rightarrow> nat" where
  "mac_index e1000_82571 = 0"
| "mac_index e1000_82572 = 1"
| "mac_index e1000_82573 = 2"
| "mac_index e1000_82574 = 3"
| "mac_index e1000_82583 = 4"
| "mac_index e1000_80003es2lan = 5"
| "mac_index e1000_ich8lan = 6"
| "mac_index e1000_ich9lan = 7"
| "mac_index e1000_ich10lan = 8"
| "mac_index e1000_pchlan = 9"
| "mac_index e1000_pch2lan = 10"
| "mac_index e1000_pch_lpt = 11"
| "mac_index e1000_pch_spt = 12"
| "mac_index e1000_pch_cnp = 13"

lemma mac_index_inject [simp]: "mac_index a = mac_index b \<longleftrightarrow> a = b"
  by (cases a; cases b) simp_all

instantiation mac_kind :: linorder
begin

definition less_eq_mac_kind :: "mac_kind \<Rightarrow> mac_kind \<Rightarrow> bool" where
  "a \<le> b \<longleftrightarrow> mac_index a \<le> mac_index b"

definition less_mac_kind :: "mac_kind \<Rightarrow> mac_kind \<Rightarrow> bool" where
  "a < b \<longleftrightarrow> mac_index a < mac_index b"

instance
  by standard (auto simp: less_eq_mac_kind_def less_mac_kind_def)

end

datatype media_kind =
    e1000_media_type_unknown | e1000_media_type_copper | e1000_media_type_fiber
  | e1000_media_type_internal_serdes

datatype nvm_kind =
    e1000_nvm_unknown | e1000_nvm_none | e1000_nvm_eeprom_spi | e1000_nvm_flash_hw
  | e1000_nvm_flash_sw

datatype fc_mode =
    e1000_fc_none | e1000_fc_rx_pause | e1000_fc_tx_pause | e1000_fc_full | e1000_fc_default

primrec fc_code :: "fc_mode \<Rightarrow> u32" where
  "fc_code e1000_fc_none = 0"
| "fc_code e1000_fc_rx_pause = 1"
| "fc_code e1000_fc_tx_pause = 2"
| "fc_code e1000_fc_full = 3"
| "fc_code e1000_fc_default = 0xFF"

datatype phy_kind =
    e1000_phy_unknown | e1000_phy_none | e1000_phy_m88 | e1000_phy_igp | e1000_phy_igp_2
  | e1000_phy_gg82563 | e1000_phy_igp_3 | e1000_phy_ife | e1000_phy_bm | e1000_phy_82578
  | e1000_phy_82577 | e1000_phy_82579 | e1000_phy_i217

datatype rev_polarity =
    e1000_rev_polarity_normal | e1000_rev_polarity_reversed | e1000_rev_polarity_undefined

datatype rx_status_1000t =
    e1000_1000t_rx_status_not_ok | e1000_1000t_rx_status_ok | e1000_1000t_rx_status_undefined

section \<open>Structures of hw.h\<close>

record mac_info =
  mac_addr :: "u8 list"
  perm_addr :: "u8 list"
  mac_type :: mac_kind
  collision_delta :: u32
  ledctl_default :: u32
  ledctl_mode1 :: u32
  ledctl_mode2 :: u32
  mc_filter_type :: u32
  tx_packet_delta :: u32
  txcw :: u32
  current_ifs_val :: u16
  ifs_max_val :: u16
  ifs_min_val :: u16
  ifs_ratio :: u16
  ifs_step_size :: u16
  mta_reg_count :: u16
  mta_shadow :: "u32 list"
  rar_entry_count :: u16
  adaptive_ifs :: bool
  has_fwsm :: bool
  arc_subsystem_valid :: bool
  autoneg :: bool
  autoneg_failed :: bool
  get_link_status :: bool
  in_ifs_mode :: bool
  serdes_has_link :: bool
  tx_pkt_filtering :: bool

record fc_info =
  high_water :: u32
  low_water :: u32
  pause_time :: u16
  refresh_time :: u16
  send_xon :: bool
  current_mode :: fc_mode
  requested_mode :: fc_mode

record phy_info =
  phy_type :: phy_kind
  phy_addr :: u32
  phy_id :: u32
  phy_revision :: u32
  media_type :: media_kind
  cable_polarity :: rev_polarity
  cable_length :: u16
  max_cable_length :: u16
  min_cable_length :: u16
  mdix :: u8
  speed_downgraded :: bool
  polarity_correction :: bool
  is_mdix :: bool
  local_rx :: rx_status_1000t
  remote_rx :: rx_status_1000t
  reset_delay_us :: u32

record nvm_info =
  nvm_type :: nvm_kind
  flash_bank_size :: u32
  flash_base_addr :: u32
  word_size :: u16
  delay_usec :: u16
  address_bits :: u16
  opcode_bits :: u16
  page_size :: u16

record bus_info =
  bus_width :: u16
  bus_func :: u16

record shadow_ram_word =
  sr_value :: u16
  sr_modified :: bool

record adapter_info =
  pcim2pci_wa :: bool
  access_shared_resource :: bool
  flash_mapped :: bool

section \<open>The device and the trace\<close>

datatype event =
    ReadL u32 u32
  | WriteL u32 u32
  | FlashReadW u32 u16
  | FlashReadL u32 u32
  | FlashWriteW u32 u16
  | FlashWriteL u32 u32
  | PciReadW u32 u16
  | Delay nat
  | MutexLock
  | MutexUnlock

text \<open>
  What the device answers to a read of each register space, and (as ghost functions, read by no
  code) the words its EEPROM and the bytes its flash part hold after a history.
\<close>

record device =
  dev_readl :: "event list \<Rightarrow> u32 \<Rightarrow> u32"
  dev_flash_readw :: "event list \<Rightarrow> u32 \<Rightarrow> u16"
  dev_flash_readl :: "event list \<Rightarrow> u32 \<Rightarrow> u32"
  dev_pci_readw :: "event list \<Rightarrow> u32 \<Rightarrow> u16"
  dev_pci_capability :: u16
  dev_eeprom :: "event list \<Rightarrow> u16 \<Rightarrow> u16"
  dev_flash_mem :: "event list \<Rightarrow> u32 \<Rightarrow> u8"

text \<open>
  The hardware structure. The management cookie is kept as its 16 bytes in memory order (the
  source overlays the structure with an array of dwords); \<open>shadow_ram\<close> is the member of
  \<open>dev_spec.ich8lan\<close>.
\<close>

record hw =
  mac :: mac_info
  fc :: fc_info
  phy :: phy_info
  nvm :: nvm_info
  bus :: bus_info
  mng_cookie :: "u8 list"
  shadow_ram :: "shadow_ram_word list"
  adapter :: adapter_info
  dev :: device
  trace :: "event list"

type_synonym 'a io = "(hw, 'a) state"

section \<open>Accesses\<close>

definition log_event :: "event \<Rightarrow> hw \<Rightarrow> hw" where
  "log_event e h = h\<lparr>trace := e # trace h\<rparr>"

definition er32 :: "u32 \<Rightarrow> u32 io" where
  "er32 r = do {
     h \<leftarrow> get;
     let v = dev_readl (dev h) (trace h) r;
     modify (log_event (ReadL r v));
     return v }"

definition udelay :: "nat \<Rightarrow> unit io" where
  "udelay n = modify (log_event (Delay n))"

text \<open>The sleeping and the busy delays of the kernel, with the lower bound of the sleep.\<close>

definition usleep_range :: "nat \<Rightarrow> nat \<Rightarrow> unit io" where
  "usleep_range lo hi = modify (log_event (Delay lo))"

definition mdelay :: "nat \<Rightarrow> unit io" where
  "mdelay n = modify (log_event (Delay (1000 * n)))"

text \<open>
  \<open>__ew32_prepare\<close>: while the management engine is in the register space, wait, at most
  \<open>E1000_ICH_FWSM_PCIM2PCI_COUNT\<close> times.
\<close>

fun ew32_prepare_loop :: "nat \<Rightarrow> nat io" where
  "ew32_prepare_loop 0 = return 0"
| "ew32_prepare_loop (Suc i) = do {
     v \<leftarrow> er32 E1000_FWSM;
     if v AND E1000_ICH_FWSM_PCIM2PCI \<noteq> 0
     then (if i = 0 then return 0 else do { udelay 50; ew32_prepare_loop i })
     else return (Suc i) }"

definition ew32_prepare :: "nat io" where
  "ew32_prepare = ew32_prepare_loop E1000_ICH_FWSM_PCIM2PCI_COUNT"

definition ew32 :: "u32 \<Rightarrow> u32 \<Rightarrow> unit io" where
  "ew32 r v = do {
     h \<leftarrow> get;
     (if pcim2pci_wa (adapter h) then do { _ \<leftarrow> ew32_prepare; return () } else return ());
     modify (log_event (WriteL r v)) }"

definition e1e_flush :: "unit io" where
  "e1e_flush = do { _ \<leftarrow> er32 E1000_STATUS; return () }"

definition E1000_READ_REG_ARRAY :: "u32 \<Rightarrow> u32 \<Rightarrow> u32 io" where
  "E1000_READ_REG_ARRAY r offset = er32 (r + push_bit 2 offset)"

definition E1000_WRITE_REG_ARRAY :: "u32 \<Rightarrow> u32 \<Rightarrow> u32 \<Rightarrow> unit io" where
  "E1000_WRITE_REG_ARRAY r offset v = ew32 (r + push_bit 2 offset) v"

definition er16flash :: "u32 \<Rightarrow> u16 io" where
  "er16flash r = do {
     h \<leftarrow> get;
     let v = dev_flash_readw (dev h) (trace h) r;
     modify (log_event (FlashReadW r v));
     return v }"

definition er32flash :: "u32 \<Rightarrow> u32 io" where
  "er32flash r = do {
     h \<leftarrow> get;
     let v = dev_flash_readl (dev h) (trace h) r;
     modify (log_event (FlashReadL r v));
     return v }"

definition ew16flash :: "u32 \<Rightarrow> u16 \<Rightarrow> unit io" where
  "ew16flash r v = modify (log_event (FlashWriteW r v))"

definition ew32flash :: "u32 \<Rightarrow> u32 \<Rightarrow> unit io" where
  "ew32flash r v = modify (log_event (FlashWriteL r v))"

definition pci_read_config_word :: "u32 \<Rightarrow> u16 io" where
  "pci_read_config_word r = do {
     h \<leftarrow> get;
     let v = dev_pci_readw (dev h) (trace h) r;
     modify (log_event (PciReadW r v));
     return v }"

definition mutex_lock :: "unit io" where
  "mutex_lock = modify (log_event MutexLock)"

definition mutex_unlock :: "unit io" where
  "mutex_unlock = modify (log_event MutexUnlock)"

text \<open>Updates of the members of the hardware structure.\<close>

definition set_mac :: "(mac_info \<Rightarrow> mac_info) \<Rightarrow> unit io" where
  "set_mac f = modify (\<lambda>h. h\<lparr>mac := f (mac h)\<rparr>)"

definition set_fc :: "(fc_info \<Rightarrow> fc_info) \<Rightarrow> unit io" where
  "set_fc f = modify (\<lambda>h. h\<lparr>fc := f (fc h)\<rparr>)"

definition set_phy :: "(phy_info \<Rightarrow> phy_info) \<Rightarrow> unit io" where
  "set_phy f = modify (\<lambda>h. h\<lparr>phy := f (phy h)\<rparr>)"

definition set_nvm :: "(nvm_info \<Rightarrow> nvm_info) \<Rightarrow> unit io" where
  "set_nvm f = modify (\<lambda>h. h\<lparr>nvm := f (nvm h)\<rparr>)"

definition set_bus :: "(bus_info \<Rightarrow> bus_info) \<Rightarrow> unit io" where
  "set_bus f = modify (\<lambda>h. h\<lparr>bus := f (bus h)\<rparr>)"

definition set_adapter :: "(adapter_info \<Rightarrow> adapter_info) \<Rightarrow> unit io" where
  "set_adapter f = modify (\<lambda>h. h\<lparr>adapter := f (adapter h)\<rparr>)"

end
