(* ===== verification/Bus.thy ===== *)
theory Bus
  imports Hw
begin

text \<open>
  Reasoning about device accesses: the effect of a read, a write and a delay on the hardware
  structure, the writes that a trace holds, what a documented plain storage register promises,
  and the frame interface: a relation between states that every access respects is respected
  by every operation built from accesses.
\<close>

unbundle bit_operations_syntax

section \<open>Effect of the accesses\<close>

definition rdv :: "u32 \<Rightarrow> hw \<Rightarrow> u32" where
  "rdv r h = dev_readl (dev h) (trace h) r"

definition rd :: "u32 \<Rightarrow> hw \<Rightarrow> hw" where
  "rd r h = log_event (ReadL r (rdv r h)) h"

definition wr :: "u32 \<Rightarrow> u32 \<Rightarrow> hw \<Rightarrow> hw" where
  "wr r v h = snd (run_state (ew32 r v) h)"

definition frdw :: "u32 \<Rightarrow> hw \<Rightarrow> u16" where
  "frdw r h = dev_flash_readw (dev h) (trace h) r"

definition frdl :: "u32 \<Rightarrow> hw \<Rightarrow> u32" where
  "frdl r h = dev_flash_readl (dev h) (trace h) r"

lemma run_er32 [simp]: "run_state (er32 r) h = (rdv r h, rd r h)"
  by (simp add: er32_def rdv_def rd_def Let_def)

lemma run_ew32 [simp]: "run_state (ew32 r v) h = ((), wr r v h)"
  by (simp add: wr_def prod_eq_iff)

lemma run_udelay [simp]: "run_state (udelay n) h = ((), log_event (Delay n) h)"
  by (simp add: udelay_def)

lemma run_usleep_range [simp]:
  "run_state (usleep_range lo hi) h = ((), log_event (Delay lo) h)"
  by (simp add: usleep_range_def)

lemma run_mdelay [simp]: "run_state (mdelay n) h = ((), log_event (Delay (1000 * n)) h)"
  by (simp add: mdelay_def)

lemma run_flush [simp]: "run_state e1e_flush h = ((), rd E1000_STATUS h)"
  by (simp add: e1e_flush_def)

lemma run_er16flash [simp]:
  "run_state (er16flash r) h = (frdw r h, log_event (FlashReadW r (frdw r h)) h)"
  by (simp add: er16flash_def frdw_def Let_def)

lemma run_er32flash [simp]:
  "run_state (er32flash r) h = (frdl r h, log_event (FlashReadL r (frdl r h)) h)"
  by (simp add: er32flash_def frdl_def Let_def)

lemma run_ew16flash [simp]:
  "run_state (ew16flash r v) h = ((), log_event (FlashWriteW r v) h)"
  by (simp add: ew16flash_def)

lemma run_ew32flash [simp]:
  "run_state (ew32flash r v) h = ((), log_event (FlashWriteL r v) h)"
  by (simp add: ew32flash_def)

lemma run_mutex [simp]:
  "run_state mutex_lock h = ((), log_event MutexLock h)"
  "run_state mutex_unlock h = ((), log_event MutexUnlock h)"
  by (simp_all add: mutex_lock_def mutex_unlock_def)

lemma run_sets [simp]:
  "run_state (set_mac f) h = ((), h\<lparr>mac := f (mac h)\<rparr>)"
  "run_state (set_fc g) h = ((), h\<lparr>fc := g (fc h)\<rparr>)"
  "run_state (set_phy p) h = ((), h\<lparr>phy := p (phy h)\<rparr>)"
  "run_state (set_nvm n) h = ((), h\<lparr>nvm := n (nvm h)\<rparr>)"
  "run_state (set_bus b) h = ((), h\<lparr>bus := b (bus h)\<rparr>)"
  "run_state (set_adapter a) h = ((), h\<lparr>adapter := a (adapter h)\<rparr>)"
  by (simp_all add: set_mac_def set_fc_def set_phy_def set_nvm_def set_bus_def set_adapter_def)

lemma wp_access [wp]:
  "wp (er32 r) P = (\<lambda>h. P (rdv r h) (rd r h))"
  "wp (ew32 r v) Q = (\<lambda>h. Q () (wr r v h))"
  "wp (udelay n) Q = (\<lambda>h. Q () (log_event (Delay n) h))"
  "wp (usleep_range lo hi) Q = (\<lambda>h. Q () (log_event (Delay lo) h))"
  "wp (mdelay n) Q = (\<lambda>h. Q () (log_event (Delay (1000 * n)) h))"
  "wp e1e_flush Q = (\<lambda>h. Q () (rd E1000_STATUS h))"
  "wp (er16flash r) S = (\<lambda>h. S (frdw r h) (log_event (FlashReadW r (frdw r h)) h))"
  "wp (er32flash r) P = (\<lambda>h. P (frdl r h) (log_event (FlashReadL r (frdl r h)) h))"
  "wp (ew16flash r w) Q = (\<lambda>h. Q () (log_event (FlashWriteW r w) h))"
  "wp (ew32flash r v) Q = (\<lambda>h. Q () (log_event (FlashWriteL r v) h))"
  "wp mutex_lock Q = (\<lambda>h. Q () (log_event MutexLock h))"
  "wp mutex_unlock Q = (\<lambda>h. Q () (log_event MutexUnlock h))"
  by (simp_all add: wp_def fun_eq_iff)

lemma wp_sets [wp]:
  "wp (set_mac f) Q = (\<lambda>h. Q () (h\<lparr>mac := f (mac h)\<rparr>))"
  "wp (set_fc g) Q = (\<lambda>h. Q () (h\<lparr>fc := g (fc h)\<rparr>))"
  "wp (set_phy p) Q = (\<lambda>h. Q () (h\<lparr>phy := p (phy h)\<rparr>))"
  "wp (set_nvm n) Q = (\<lambda>h. Q () (h\<lparr>nvm := n (nvm h)\<rparr>))"
  "wp (set_bus b) Q = (\<lambda>h. Q () (h\<lparr>bus := b (bus h)\<rparr>))"
  "wp (set_adapter a) Q = (\<lambda>h. Q () (h\<lparr>adapter := a (adapter h)\<rparr>))"
  by (simp_all add: wp_def fun_eq_iff)

lemma log_event_fields [simp]:
  "mac (log_event e h) = mac h" "fc (log_event e h) = fc h" "phy (log_event e h) = phy h"
  "nvm (log_event e h) = nvm h" "bus (log_event e h) = bus h"
  "mng_cookie (log_event e h) = mng_cookie h" "shadow_ram (log_event e h) = shadow_ram h"
  "adapter (log_event e h) = adapter h" "dev (log_event e h) = dev h"
  "trace (log_event e h) = e # trace h"
  by (simp_all add: log_event_def)

lemma rd_fields [simp]:
  "mac (rd r h) = mac h" "fc (rd r h) = fc h" "phy (rd r h) = phy h"
  "nvm (rd r h) = nvm h" "bus (rd r h) = bus h"
  "mng_cookie (rd r h) = mng_cookie h" "shadow_ram (rd r h) = shadow_ram h"
  "adapter (rd r h) = adapter h" "dev (rd r h) = dev h"
  "trace (rd r h) = ReadL r (rdv r h) # trace h"
  by (simp_all add: rd_def)

section \<open>Writes of a trace\<close>

text \<open>The register writes of a trace, newest first.\<close>

fun reg_writes :: "event list \<Rightarrow> (u32 \<times> u32) list" where
  "reg_writes [] = []"
| "reg_writes (WriteL r v # t) = (r, v) # reg_writes t"
| "reg_writes (_ # t) = reg_writes t"

text \<open>An event that changes nothing outside the driver's own waiting: a read or a delay.\<close>

fun quiet :: "event \<Rightarrow> bool" where
  "quiet (ReadL _ _) = True"
| "quiet (Delay _) = True"
| "quiet _ = False"

lemma reg_writes_quiet [simp]:
  "\<forall>e \<in> set es. quiet e \<Longrightarrow> reg_writes (es @ t) = reg_writes t"
proof (induction es)
  case (Cons e es)
  then show ?case by (cases e) simp_all
qed simp

lemma ew32_prepare_loop_quiet:
  "\<exists>es. snd (run_state (ew32_prepare_loop i) h) = h\<lparr>trace := es @ trace h\<rparr> \<and> (\<forall>e \<in> set es. quiet e)"
proof (induction i arbitrary: h)
  case 0
  show ?case by (rule exI [of _ "[]"]) simp
next
  case (Suc i)
  define v where "v = rdv E1000_FWSM h"
  define h1 where "h1 = log_event (Delay 50) (rd E1000_FWSM h)"
  obtain es where es: "snd (run_state (ew32_prepare_loop i) h1) = h1\<lparr>trace := es @ trace h1\<rparr>"
    "\<forall>e \<in> set es. quiet e"
    using Suc.IH by blast
  have r: "rd E1000_FWSM h = h\<lparr>trace := [ReadL E1000_FWSM v] @ trace h\<rparr>"
    by (simp add: rd_def log_event_def v_def)
  show ?case
  proof (cases "v AND E1000_ICH_FWSM_PCIM2PCI \<noteq> 0 \<and> i \<noteq> 0")
    case True
    then have "snd (run_state (ew32_prepare_loop (Suc i)) h)
        = h\<lparr>trace := (es @ [Delay 50, ReadL E1000_FWSM v]) @ trace h\<rparr>"
      using es(1) by (simp add: v_def h1_def rd_def log_event_def)
    moreover have "\<forall>e \<in> set (es @ [Delay 50, ReadL E1000_FWSM v]). quiet e"
      using es(2) by simp
    ultimately show ?thesis by blast
  next
    case False
    then have "snd (run_state (ew32_prepare_loop (Suc i)) h)
        = h\<lparr>trace := [ReadL E1000_FWSM v] @ trace h\<rparr>"
      by (auto simp: v_def rd_def log_event_def)
    moreover have "\<forall>e \<in> set [ReadL E1000_FWSM v]. quiet e" by simp
    ultimately show ?thesis by blast
  qed
qed

lemma wr_trace:
  "\<exists>es. wr r v h = h\<lparr>trace := WriteL r v # es @ trace h\<rparr> \<and> (\<forall>e \<in> set es. quiet e)"
proof (cases "pcim2pci_wa (adapter h)")
  case True
  obtain es where "snd (run_state ew32_prepare h) = h\<lparr>trace := es @ trace h\<rparr>"
    and "\<forall>e \<in> set es. quiet e"
    using ew32_prepare_loop_quiet unfolding ew32_prepare_def by blast
  with True show ?thesis
    by (intro exI [of _ es]) (simp add: wr_def ew32_def log_event_def case_prod_beta)
next
  case False
  then show ?thesis
    by (intro exI [of _ "[]"]) (simp add: wr_def ew32_def log_event_def)
qed

lemma wr_plain:
  "\<not> pcim2pci_wa (adapter h) \<Longrightarrow> wr r v h = log_event (WriteL r v) h"
  by (simp add: wr_def ew32_def)

lemma wr_fields [simp]:
  "mac (wr r v h) = mac h" "fc (wr r v h) = fc h" "phy (wr r v h) = phy h"
  "nvm (wr r v h) = nvm h" "bus (wr r v h) = bus h"
  "mng_cookie (wr r v h) = mng_cookie h" "shadow_ram (wr r v h) = shadow_ram h"
  "adapter (wr r v h) = adapter h" "dev (wr r v h) = dev h"
  using wr_trace [of r v h] by auto

lemma reg_writes_simps [simp]:
  "reg_writes (trace (wr r v h)) = (r, v) # reg_writes (trace h)"
  "reg_writes (trace (rd r h)) = reg_writes (trace h)"
  using wr_trace [of r v h] by auto

section \<open>Documented behaviour of registers\<close>

text \<open>
  Register \<open>r\<close> of device \<open>d\<close> is plain storage: it reads back what was last written to
  it, and nothing else the driver does changes it.
\<close>

definition storage_reg :: "device \<Rightarrow> u32 \<Rightarrow> bool" where
  "storage_reg d r \<longleftrightarrow>
     (\<forall>t v. dev_readl d (WriteL r v # t) r = v) \<and>
     (\<forall>t e. (\<forall>v. e \<noteq> WriteL r v) \<longrightarrow> dev_readl d (e # t) r = dev_readl d t r)"

lemma storage_quiet:
  assumes "storage_reg d r" and "\<forall>e \<in> set es. quiet e"
  shows "dev_readl d (es @ t) r = dev_readl d t r"
  using assms(2)
proof (induction es)
  case (Cons e es)
  then have "\<forall>v. e \<noteq> WriteL r v" by auto
  with assms(1) Cons show ?case by (simp add: storage_reg_def)
qed simp

lemma storage_reg_simps:
  assumes "storage_reg (dev h) r"
  shows "rdv r (wr r v h) = v"
    and "r' \<noteq> r \<Longrightarrow> rdv r (wr r' v h) = rdv r h"
    and "rdv r (rd r' h) = rdv r h"
    and "rdv r (log_event (Delay n) h) = rdv r h"
proof -
  show "rdv r (wr r v h) = v"
    using wr_trace [of r v h] assms by (auto simp: rdv_def storage_reg_def)
  show "rdv r (wr r' v h) = rdv r h" if "r' \<noteq> r"
  proof -
    obtain es where es: "wr r' v h = h\<lparr>trace := WriteL r' v # es @ trace h\<rparr>"
      "\<forall>e \<in> set es. quiet e"
      using wr_trace by blast
    have "rdv r (wr r' v h) = dev_readl (dev h) (es @ trace h) r"
      using assms that es(1) by (simp add: rdv_def storage_reg_def)
    with storage_quiet [OF assms es(2)] show ?thesis by (simp add: rdv_def)
  qed
  show "rdv r (rd r' h) = rdv r h" "rdv r (log_event (Delay n) h) = rdv r h"
    using assms by (simp_all add: rdv_def rd_def storage_reg_def)
qed

text \<open>A device all of whose registers are plain storage, with given initial values.\<close>

fun last_write :: "event list \<Rightarrow> u32 \<Rightarrow> u32 option" where
  "last_write [] r = None"
| "last_write (e # t) r =
     (case e of WriteL r' v \<Rightarrow> if r' = r then Some v else last_write t r | _ \<Rightarrow> last_write t r)"

definition ram_device :: "(u32 \<Rightarrow> u32) \<Rightarrow> device" where
  "ram_device init = \<lparr>
     dev_readl = (\<lambda>t r. case last_write t r of Some v \<Rightarrow> v | None \<Rightarrow> init r),
     dev_flash_readw = (\<lambda>t r. 0), dev_flash_readl = (\<lambda>t r. 0),
     dev_pci_readw = (\<lambda>t r. 0), dev_pci_capability = 0,
     dev_eeprom = (\<lambda>t a. 0xFFFF), dev_flash_mem = (\<lambda>t a. 0xFF)\<rparr>"

lemma ram_device_storage: "storage_reg (ram_device init) r"
  by (auto simp: storage_reg_def ram_device_def split: event.splits)

text \<open>A device whose registers all read as \<open>v\<close>, always.\<close>

definition const_device :: "u32 \<Rightarrow> device" where
  "const_device v = (ram_device (\<lambda>r. 0))\<lparr>dev_readl := (\<lambda>t r. v)\<rparr>"

lemma rdv_const_device [simp]: "dev h = const_device v \<Longrightarrow> rdv r h = v"
  by (simp add: rdv_def const_device_def)

section \<open>The frame interface\<close>

named_theorems frame \<open>operations that respect a relation on states\<close>

text \<open>
  First for relations that only reads and delays have to respect; such a relation may speak of
  what was written.
\<close>

locale read_frame =
  fixes R :: "hw \<Rightarrow> hw \<Rightarrow> bool"
  assumes R_refl: "R h h"
    and R_trans: "R a b \<Longrightarrow> R b c \<Longrightarrow> R a c"
    and R_quiet: "quiet e \<Longrightarrow> R h (log_event e h)"
begin

lemma frame_return [frame]: "state_io_rel R (return x)"
  by (auto simp: state_io_rel_def R_refl)

lemma frame_get [frame]: "state_io_rel R get"
  by (auto simp: state_io_rel_def R_refl)

lemma frame_bind [frame]:
  "state_io_rel R m \<Longrightarrow> (\<And>a. state_io_rel R (f a)) \<Longrightarrow> state_io_rel R (State_Monad.bind m f)"
  by (auto simp: state_io_rel_def split: prod.splits)
    (metis R_trans snd_conv)

lemma frame_if [frame]:
  "(b \<Longrightarrow> state_io_rel R m) \<Longrightarrow> (\<not> b \<Longrightarrow> state_io_rel R n) \<Longrightarrow> state_io_rel R (if b then m else n)"
  by simp

lemma frame_let [frame]: "(\<And>a. state_io_rel R (f a)) \<Longrightarrow> state_io_rel R (Let x f)"
  by simp

lemma frame_case_prod [frame]:
  "(\<And>a b. state_io_rel R (f a b)) \<Longrightarrow> state_io_rel R (case_prod f p)"
  by (cases p) simp

lemma frame_case_option [frame]:
  "state_io_rel R m \<Longrightarrow> (\<And>a. state_io_rel R (f a)) \<Longrightarrow> state_io_rel R (case_option m f x)"
  by (cases x) simp_all

lemma frame_quiet_log: "quiet e \<Longrightarrow> state_io_rel R (modify (log_event e))"
  by (auto simp: state_io_rel_def R_quiet)

lemma frame_gets [frame]: "state_io_rel R (gets f)"
  by (auto simp: state_io_rel_def R_refl)

lemma frame_er32 [frame]:
  "state_io_rel R (er32 r)" "state_io_rel R e1e_flush" "state_io_rel R (E1000_READ_REG_ARRAY r off)"
  by (auto simp: er32_def e1e_flush_def E1000_READ_REG_ARRAY_def
      intro!: frame_bind frame_get frame_let frame_quiet_log frame_return)

lemma frame_delays [frame]:
  "state_io_rel R (udelay n)" "state_io_rel R (usleep_range lo hi)" "state_io_rel R (mdelay n)"
  by (auto simp: udelay_def usleep_range_def mdelay_def intro: frame_quiet_log)

lemma frame_ew32_prepare: "state_io_rel R (ew32_prepare_loop n)"
  by (induction n) (auto intro!: frame_return frame_bind frame_if frame_er32 frame_delays)

lemma frame_ew32:
  "(\<And>h. R h (log_event (WriteL r v) h)) \<Longrightarrow> state_io_rel R (ew32 r v)"
  "(\<And>h. R h (log_event (WriteL (r + push_bit 2 off) v) h)) \<Longrightarrow> state_io_rel R (E1000_WRITE_REG_ARRAY r off v)"
proof -
  show ew: "(\<And>h. R h (log_event (WriteL r v) h)) \<Longrightarrow> state_io_rel R (ew32 r v)" for r v
    by (auto simp: ew32_def ew32_prepare_def state_io_rel_def [of R "modify _"]
        intro!: frame_bind frame_get frame_if frame_return frame_ew32_prepare)
  then show "(\<And>h. R h (log_event (WriteL (r + push_bit 2 off) v) h)) \<Longrightarrow>
      state_io_rel R (E1000_WRITE_REG_ARRAY r off v)"
    by (simp add: E1000_WRITE_REG_ARRAY_def)
qed

lemma frame_poll [frame]:
  "state_io_rel R rdop \<Longrightarrow> state_io_rel R idle \<Longrightarrow> state_io_rel R (poll n rdop ok idle)"
  by (induction n) (auto simp: poll.simps intro!: frame_return frame_bind frame_if)

lemma frame_retry [frame]:
  "state_io_rel R body \<Longrightarrow> state_io_rel R (retry n body)"
  by (induction n) (auto simp: retry.simps intro!: frame_return frame_bind frame_if frame_case_prod)

end

text \<open>Then for relations that every access respects.\<close>

locale bus_frame = read_frame +
  assumes R_log: "R h (log_event e h)"
begin

lemma frame_log [frame]: "state_io_rel R (modify (log_event e))"
  by (auto simp: state_io_rel_def R_log)

lemma frame_reads [frame]:
  "state_io_rel R (er32 r)" "state_io_rel R e1e_flush" "state_io_rel R (er16flash r)"
  "state_io_rel R (er32flash r)" "state_io_rel R (pci_read_config_word r)"
  by (auto simp: er32_def e1e_flush_def er16flash_def er32flash_def pci_read_config_word_def
      intro!: frame_bind frame_get frame_let frame_log frame_return)

lemma frame_mutex [frame]: "state_io_rel R mutex_lock" "state_io_rel R mutex_unlock"
  by (auto simp: mutex_lock_def mutex_unlock_def intro: frame_log)

lemma frame_writes [frame]:
  "state_io_rel R (ew32 r v)" "state_io_rel R (ew16flash r w)" "state_io_rel R (ew32flash r v)"
  by (auto simp: ew16flash_def ew32flash_def intro!: frame_log frame_ew32 R_log)

lemma frame_reg_array [frame]:
  "state_io_rel R (E1000_READ_REG_ARRAY r off)" "state_io_rel R (E1000_WRITE_REG_ARRAY r off v)"
  by (simp_all add: E1000_READ_REG_ARRAY_def E1000_WRITE_REG_ARRAY_def frame_reads frame_writes)

end

text \<open>
  Three instances: operations that only touch the device leave the hardware structure as it is,
  and they only add to the trace; what was last written to a register stays, as long as it is not
  written.
\<close>

definition same_hw :: "hw \<Rightarrow> hw \<Rightarrow> bool" where
  "same_hw h h' \<longleftrightarrow> h' = h\<lparr>trace := trace h'\<rparr>"

definition grows :: "hw \<Rightarrow> hw \<Rightarrow> bool" where
  "grows h h' \<longleftrightarrow> (\<exists>es. trace h' = es @ trace h)"

interpretation same: bus_frame same_hw
proof
  show "same_hw a c" if "same_hw a b" "same_hw b c" for a b c
    using that unfolding same_hw_def by (metis hw.update_convs(10) hw.surjective)
qed (simp_all add: same_hw_def log_event_def)

interpretation grow: bus_frame grows
  by standard (auto simp: grows_def log_event_def)

definition keeps_reg :: "u32 \<Rightarrow> hw \<Rightarrow> hw \<Rightarrow> bool" where
  "keeps_reg r h h' \<longleftrightarrow> same_hw h h' \<and> last_write (trace h') r = last_write (trace h) r"

lemma keeps_reg_log: "(\<And>v. e \<noteq> WriteL r v) \<Longrightarrow> keeps_reg r h (log_event e h)"
  by (cases e) (auto simp: keeps_reg_def log_event_def same_hw_def)

interpretation keeps: read_frame "keeps_reg r" for r
proof
  show "keeps_reg r a c" if "keeps_reg r a b" "keeps_reg r b c" for a b c
    using that same.R_trans by (auto simp: keeps_reg_def)
  show "keeps_reg r h (log_event e h)" if "quiet e" for e h
    using that by (intro keeps_reg_log) auto
qed (simp add: keeps_reg_def same_hw_def)

lemma keeps_write:
  "r' \<noteq> r \<Longrightarrow> state_io_rel (keeps_reg r) (ew32 r' v)"
  "r' + push_bit 2 off \<noteq> r \<Longrightarrow> state_io_rel (keeps_reg r) (E1000_WRITE_REG_ARRAY r' off v)"
  by (auto intro!: keeps.frame_ew32 keeps_reg_log)

lemma same_hw_iff:
  "same_hw h h' \<longleftrightarrow> mac h' = mac h \<and> fc h' = fc h \<and> phy h' = phy h \<and> nvm h' = nvm h \<and>
     bus h' = bus h \<and> mng_cookie h' = mng_cookie h \<and> shadow_ram h' = shadow_ram h \<and>
     adapter h' = adapter h \<and> dev h' = dev h"
  by (cases h; cases h') (auto simp: same_hw_def)

lemma same_hw_simps [simp]:
  "same_hw h h" "same_hw h (rd r h') = same_hw h h'" "same_hw h (wr r v h') = same_hw h h'"
  "same_hw h (log_event e h') = same_hw h h'"
  "same_hw (rd r h) h' = same_hw h h'" "same_hw (wr r v h) h' = same_hw h h'"
  "same_hw (log_event e h) h' = same_hw h h'"
  by (simp_all add: same_hw_iff)

lemma same_hw_trans [trans]: "same_hw a b \<Longrightarrow> same_hw b c \<Longrightarrow> same_hw a c"
  by (rule same.R_trans)

lemma same_hw_fields:
  assumes "same_hw h h'"
  shows "mac h' = mac h" "fc h' = fc h" "phy h' = phy h" "nvm h' = nvm h" "bus h' = bus h"
    "mng_cookie h' = mng_cookie h" "shadow_ram h' = shadow_ram h" "adapter h' = adapter h"
    "dev h' = dev h"
  using assms by (simp_all add: same_hw_iff)

lemma same_hw_run:
  "state_io_rel same_hw m \<Longrightarrow> run_state m h = (a, h') \<Longrightarrow> same_hw h h'"
  by (auto dest: state_io_relD)

lemma wp_same: "state_io_rel same_hw m \<Longrightarrow> wp m (\<lambda>_ h'. same_hw h h') h"
  by (simp add: wp_def state_io_rel_def)

text \<open>What was last written to a register, and the ghost contents, over quiet events.\<close>

lemma last_write_quiet:
  "\<forall>e \<in> set es. quiet e \<Longrightarrow> last_write (es @ t) r = last_write t r"
proof (induction es)
  case (Cons e es)
  then show ?case by (cases e) simp_all
qed simp

lemma last_write_simps [simp]:
  "last_write (trace (wr r v h)) r = Some v"
  "r' \<noteq> r \<Longrightarrow> last_write (trace (wr r' v h)) r = last_write (trace h) r"
  using wr_trace [of r v h] wr_trace [of r' v h] by (auto simp: last_write_quiet)

section \<open>A concrete state\<close>

text \<open>
  A hardware structure over a given device, as the driver finds it before any access; the
  concrete instances of the theorems evaluate on it.
\<close>

definition sample_mac :: mac_info where
  "sample_mac = \<lparr>mac_addr = [0x00, 0x1B, 0x21, 0x0A, 0x0B, 0x0C],
     perm_addr = [0x00, 0x1B, 0x21, 0x0A, 0x0B, 0x0C], mac_type = e1000_ich9lan,
     collision_delta = 0, ledctl_default = 0, ledctl_mode1 = 0, ledctl_mode2 = 0,
     mc_filter_type = 0, tx_packet_delta = 0, txcw = 0, current_ifs_val = 0, ifs_max_val = 0,
     ifs_min_val = 0, ifs_ratio = 0, ifs_step_size = 0, mta_reg_count = 32,
     mta_shadow = replicate 128 0, rar_entry_count = 7, adaptive_ifs = True, has_fwsm = True,
     arc_subsystem_valid = False, autoneg = True, autoneg_failed = False,
     get_link_status = True, in_ifs_mode = False, serdes_has_link = False,
     tx_pkt_filtering = True\<rparr>"

definition sample_phy :: phy_info where
  "sample_phy = \<lparr>phy_type = e1000_phy_igp_3, phy_addr = 1, phy_id = 0, phy_revision = 0,
     media_type = e1000_media_type_copper, cable_polarity = e1000_rev_polarity_normal,
     cable_length = 0, max_cable_length = 0, min_cable_length = 0, mdix = 0,
     speed_downgraded = False, polarity_correction = True, is_mdix = False,
     local_rx = e1000_1000t_rx_status_undefined, remote_rx = e1000_1000t_rx_status_undefined,
     reset_delay_us = 100\<rparr>"

definition sample_nvm :: nvm_info where
  "sample_nvm = \<lparr>nvm_type = e1000_nvm_eeprom_spi, flash_bank_size = 0x800, flash_base_addr = 0,
     word_size = 0x800, delay_usec = 1, address_bits = 8, opcode_bits = 8, page_size = 8\<rparr>"

definition sample_hw :: "device \<Rightarrow> hw" where
  "sample_hw d = \<lparr>mac = sample_mac,
     fc = \<lparr>high_water = 0, low_water = 0, pause_time = 0, refresh_time = 0, send_xon = False,
       current_mode = e1000_fc_none, requested_mode = e1000_fc_default\<rparr>,
     phy = sample_phy, nvm = sample_nvm, bus = \<lparr>bus_width = 0, bus_func = 0\<rparr>,
     mng_cookie = replicate 16 0,
     shadow_ram = replicate 2048 \<lparr>sr_value = 0xFFFF, sr_modified = False\<rparr>,
     adapter = \<lparr>pcim2pci_wa = False, access_shared_resource = False, flash_mapped = True\<rparr>,
     dev = d, trace = []\<rparr>"

lemma sample_hw_fields [simp]:
  "mac (sample_hw d) = sample_mac" "phy (sample_hw d) = sample_phy"
  "nvm (sample_hw d) = sample_nvm" "dev (sample_hw d) = d" "trace (sample_hw d) = []"
  "shadow_ram (sample_hw d) = replicate 2048 \<lparr>sr_value = 0xFFFF, sr_modified = False\<rparr>"
  "adapter (sample_hw d) = \<lparr>pcim2pci_wa = False, access_shared_resource = False, flash_mapped = True\<rparr>"
  "fc (sample_hw d) = \<lparr>high_water = 0, low_water = 0, pause_time = 0, refresh_time = 0, send_xon = False,
       current_mode = e1000_fc_none, requested_mode = e1000_fc_default\<rparr>"
  "mng_cookie (sample_hw d) = replicate 16 0"
  by (simp_all only: sample_hw_def hw.simps)

end
