(* ===== verification/Nvm.thy ===== *)
theory Nvm
  imports Bus
begin

text \<open>
  \<open>nvm.c\<close>: access to the EEPROM, by bit-banging its serial interface through
  \<open>EECD\<close> and through the read register \<open>EERD\<close>, and the operations on the words of the
  NVM that are written once for all parts (checksum, printed board number, MAC address) over
  the access operations of the part.
\<close>

unbundle bit_operations_syntax

section \<open>Function pointers of the NVM\<close>

text \<open>
  \<open>struct e1000_nvm_operations\<close>, in stages: the functions of each stage are written over the
  pointers of the stages before it.
\<close>

record nvm_lock_ops =
  nvm_acquire :: "s32 io"
  nvm_release :: "unit io"

record nvm_access_ops = nvm_lock_ops +
  nvm_read :: "u16 \<Rightarrow> u16 \<Rightarrow> u16 list \<Rightarrow> (s32 \<times> u16 list) io"
  nvm_write :: "u16 \<Rightarrow> u16 \<Rightarrow> u16 list \<Rightarrow> s32 io"
  nvm_reload :: "unit io"

record nvm_update_ops = nvm_access_ops +
  nvm_update :: "s32 io"

record nvm_operations = nvm_update_ops +
  nvm_validate :: "s32 io"
  nvm_valid_led_default :: "(s32 \<times> u16) io"

definition e1000_read_nvm ::
  "'x nvm_access_ops_scheme \<Rightarrow> u16 \<Rightarrow> u16 \<Rightarrow> u16 list \<Rightarrow> (s32 \<times> u16 list) io" where
  "e1000_read_nvm ops offset words data = nvm_read ops offset words data"

definition e1000_write_nvm ::
  "'x nvm_access_ops_scheme \<Rightarrow> u16 \<Rightarrow> u16 \<Rightarrow> u16 list \<Rightarrow> s32 io" where
  "e1000_write_nvm ops offset words data = nvm_write ops offset words data"

text \<open>The read of one word into a local variable, the form in which most callers use it.\<close>

definition read_nvm_word :: "'x nvm_access_ops_scheme \<Rightarrow> u16 \<Rightarrow> (s32 \<times> u16) io" where
  "read_nvm_word ops offset = do {
     (ret_val, data) \<leftarrow> e1000_read_nvm ops offset 1 [0];
     return (ret_val, data ! 0) }"

text \<open>The bounds check shared by the read and write routines.\<close>

definition nvm_bad_range :: "u16 \<Rightarrow> u16 \<Rightarrow> u16 \<Rightarrow> bool" where
  "nvm_bad_range wsize offset words \<longleftrightarrow>
     offset \<ge> wsize \<or> uint words > uint wsize - uint offset \<or> words = 0"

section \<open>Serial interface\<close>

definition eec_delay :: "unit io" where
  "eec_delay = do { h \<leftarrow> get; udelay (unat (delay_usec (nvm h))) }"

definition e1000_raise_eec_clk :: "u32 \<Rightarrow> u32 io" where
  "e1000_raise_eec_clk eecd = do {
     let eecd = eecd OR E1000_EECD_SK;
     ew32 E1000_EECD eecd;
     e1e_flush;
     eec_delay;
     return eecd }"

definition e1000_lower_eec_clk :: "u32 \<Rightarrow> u32 io" where
  "e1000_lower_eec_clk eecd = do {
     let eecd = eecd AND NOT E1000_EECD_SK;
     ew32 E1000_EECD eecd;
     e1e_flush;
     eec_delay;
     return eecd }"

text \<open>One pass through the body of the shifting loop: the bit of \<open>data\<close> under \<open>msk\<close>.\<close>

definition shift_out_bit :: "u16 \<Rightarrow> u32 \<Rightarrow> u32 \<Rightarrow> u32 io" where
  "shift_out_bit data msk eecd = do {
     let eecd = eecd AND NOT E1000_EECD_DI;
     let eecd = (if ucast data AND msk \<noteq> 0 then eecd OR E1000_EECD_DI else eecd);
     ew32 E1000_EECD eecd;
     e1e_flush;
     eec_delay;
     eecd \<leftarrow> e1000_raise_eec_clk eecd;
     e1000_lower_eec_clk eecd }"

lemma drop_bit_1_less:
  fixes w :: u32
  assumes "w \<noteq> 0"
  shows "unat (drop_bit 1 w) < unat w"
proof -
  have "unat (drop_bit 1 w) = unat w div 2"
    by (simp only: unat_drop_bit_eq) (simp add: drop_bit_eq_div)
  moreover have "unat w > 0" using assms by (simp add: unat_gt_0)
  ultimately show ?thesis by simp
qed

function shift_out_loop :: "u16 \<Rightarrow> u32 \<Rightarrow> u32 \<Rightarrow> u32 io" where
  "shift_out_loop data msk eecd = do {
     eecd \<leftarrow> shift_out_bit data msk eecd;
     (if drop_bit 1 msk \<noteq> 0 then shift_out_loop data (drop_bit 1 msk) eecd
      else return eecd) }"
  by pat_completeness auto
termination
proof (relation "measure (\<lambda>(data, msk, eecd). unat msk)")
  fix data :: u16 and msk eecd x :: u32
  assume "drop_bit 1 msk \<noteq> 0"
  then have "msk \<noteq> 0" by auto
  then show "((data, drop_bit 1 msk, x), data, msk, eecd)
      \<in> measure (\<lambda>(data, msk, eecd). unat msk)"
    using drop_bit_1_less [of msk] by simp
qed simp

declare shift_out_loop.simps [simp del]

definition e1000_shift_out_eec_bits :: "u16 \<Rightarrow> u16 \<Rightarrow> unit io" where
  "e1000_shift_out_eec_bits data count = do {
     h \<leftarrow> get;
     eecd \<leftarrow> er32 E1000_EECD;
     let msk = push_bit (unat count - 1) 1;
     let eecd = (if nvm_type (nvm h) = e1000_nvm_eeprom_spi then eecd OR E1000_EECD_DO else eecd);
     eecd \<leftarrow> shift_out_loop data msk eecd;
     let eecd = eecd AND NOT E1000_EECD_DI;
     ew32 E1000_EECD eecd }"

fun shift_in_loop :: "nat \<Rightarrow> u32 \<Rightarrow> u16 \<Rightarrow> u16 io" where
  "shift_in_loop 0 eecd data = return data"
| "shift_in_loop (Suc n) eecd data = do {
     let data = push_bit 1 data;
     eecd \<leftarrow> e1000_raise_eec_clk eecd;
     eecd \<leftarrow> er32 E1000_EECD;
     let eecd = eecd AND NOT E1000_EECD_DI;
     let data = (if eecd AND E1000_EECD_DO \<noteq> 0 then data OR 1 else data);
     eecd \<leftarrow> e1000_lower_eec_clk eecd;
     shift_in_loop n eecd data }"

definition e1000_shift_in_eec_bits :: "u16 \<Rightarrow> u16 io" where
  "e1000_shift_in_eec_bits count = do {
     eecd \<leftarrow> er32 E1000_EECD;
     let eecd = eecd AND NOT (E1000_EECD_DO OR E1000_EECD_DI);
     shift_in_loop (unat count) eecd 0 }"

section \<open>Arbitration and standby\<close>

datatype eerd_eewr = E1000_NVM_POLL_READ | E1000_NVM_POLL_WRITE

definition e1000e_poll_eerd_eewr_done :: "eerd_eewr \<Rightarrow> s32 io" where
  "e1000e_poll_eerd_eewr_done ee_reg = do {
     reg \<leftarrow> poll 100000
       (if ee_reg = E1000_NVM_POLL_READ then er32 E1000_EERD else er32 E1000_EEWR)
       (\<lambda>reg. reg AND E1000_NVM_RW_REG_DONE \<noteq> 0) (udelay 5);
     return (case reg of Some _ \<Rightarrow> 0 | None \<Rightarrow> - E1000_ERR_NVM) }"

fun acquire_nvm_loop :: "nat \<Rightarrow> u32 \<Rightarrow> (nat \<times> u32) io" where
  "acquire_nvm_loop 0 eecd = return (0, eecd)"
| "acquire_nvm_loop (Suc timeout) eecd =
     (if eecd AND E1000_EECD_GNT \<noteq> 0 then return (Suc timeout, eecd)
      else do { udelay 5; eecd \<leftarrow> er32 E1000_EECD; acquire_nvm_loop timeout eecd })"

definition e1000e_acquire_nvm :: "s32 io" where
  "e1000e_acquire_nvm = do {
     eecd \<leftarrow> er32 E1000_EECD;
     ew32 E1000_EECD (eecd OR E1000_EECD_REQ);
     eecd \<leftarrow> er32 E1000_EECD;
     (timeout, eecd) \<leftarrow> acquire_nvm_loop E1000_NVM_GRANT_ATTEMPTS eecd;
     if timeout = 0
     then do {
       let eecd = eecd AND NOT E1000_EECD_REQ;
       ew32 E1000_EECD eecd;
       return (- E1000_ERR_NVM) }
     else return 0 }"

definition e1000_standby_nvm :: "unit io" where
  "e1000_standby_nvm = do {
     h \<leftarrow> get;
     eecd \<leftarrow> er32 E1000_EECD;
     if nvm_type (nvm h) = e1000_nvm_eeprom_spi
     then do {
       let eecd = eecd OR E1000_EECD_CS;
       ew32 E1000_EECD eecd;
       e1e_flush;
       eec_delay;
       let eecd = eecd AND NOT E1000_EECD_CS;
       ew32 E1000_EECD eecd;
       e1e_flush;
       eec_delay }
     else return () }"

definition e1000_stop_nvm :: "unit io" where
  "e1000_stop_nvm = do {
     eecd \<leftarrow> er32 E1000_EECD;
     h \<leftarrow> get;
     if nvm_type (nvm h) = e1000_nvm_eeprom_spi
     then do {
       let eecd = eecd OR E1000_EECD_CS;
       _ \<leftarrow> e1000_lower_eec_clk eecd;
       return () }
     else return () }"

definition e1000e_release_nvm :: "unit io" where
  "e1000e_release_nvm = do {
     e1000_stop_nvm;
     eecd \<leftarrow> er32 E1000_EECD;
     let eecd = eecd AND NOT E1000_EECD_REQ;
     ew32 E1000_EECD eecd }"

definition e1000_ready_nvm_eeprom :: "s32 io" where
  "e1000_ready_nvm_eeprom = do {
     h \<leftarrow> get;
     eecd \<leftarrow> er32 E1000_EECD;
     if nvm_type (nvm h) = e1000_nvm_eeprom_spi
     then do {
       let eecd = eecd AND NOT (E1000_EECD_CS OR E1000_EECD_SK);
       ew32 E1000_EECD eecd;
       e1e_flush;
       udelay 1;
       status \<leftarrow> poll NVM_MAX_RETRY_SPI
         (do { e1000_shift_out_eec_bits NVM_RDSR_OPCODE_SPI (opcode_bits (nvm h));
               e1000_shift_in_eec_bits 8 })
         (\<lambda>spi_stat_reg. (ucast spi_stat_reg :: u8) AND ucast NVM_STATUS_RDY_SPI = 0)
         (do { udelay 5; e1000_standby_nvm });
       return (case status of Some _ \<Rightarrow> 0 | None \<Rightarrow> - E1000_ERR_NVM) }
     else return 0 }"

section \<open>Words of the EEPROM\<close>

text \<open>The loop of the read: word \<open>i\<close> goes to \<open>data[i]\<close>; the first failed poll ends it.\<close>

fun read_eerd_loop :: "u16 \<Rightarrow> nat \<Rightarrow> nat \<Rightarrow> u16 list \<Rightarrow> (s32 \<times> u16 list) io" where
  "read_eerd_loop offset i 0 data = return (0, data)"
| "read_eerd_loop offset i (Suc n) data = do {
     let eerd = push_bit E1000_NVM_RW_ADDR_SHIFT (ucast offset + of_nat i) +
       E1000_NVM_RW_REG_START;
     ew32 E1000_EERD eerd;
     ret_val \<leftarrow> e1000e_poll_eerd_eewr_done E1000_NVM_POLL_READ;
     if ret_val \<noteq> 0 then return (ret_val, data)
     else do {
       v \<leftarrow> er32 E1000_EERD;
       read_eerd_loop offset (Suc i) n (data[i := ucast (drop_bit E1000_NVM_RW_REG_DATA v)]) } }"

definition e1000e_read_nvm_eerd :: "u16 \<Rightarrow> u16 \<Rightarrow> u16 list \<Rightarrow> (s32 \<times> u16 list) io" where
  "e1000e_read_nvm_eerd offset words data = do {
     h \<leftarrow> get;
     if nvm_bad_range (word_size (nvm h)) offset words then return (- E1000_ERR_NVM, data)
     else read_eerd_loop offset 0 (unat words) data }"

text \<open>
  The words of one page: shifted out until the buffer is exhausted or the next word would
  start a page, which puts the EEPROM back to standby. Gives the new \<open>widx\<close>.
\<close>

definition swab16 :: "u16 \<Rightarrow> u16" where
  "swab16 word_out = drop_bit 8 word_out OR push_bit 8 word_out"

definition page_ends :: "u16 \<Rightarrow> u16 \<Rightarrow> u16 \<Rightarrow> bool" where
  "page_ends pagesize offset widx \<longleftrightarrow> ((uint offset + uint widx) * 2) mod uint pagesize = 0"

function write_spi_page :: "u16 \<Rightarrow> u16 \<Rightarrow> u16 list \<Rightarrow> u16 \<Rightarrow> u16 io" where
  "write_spi_page offset words data widx =
     (if widx < words
      then do {
        let word_out = swab16 (data ! unat widx);
        e1000_shift_out_eec_bits word_out 16;
        h \<leftarrow> get;
        (if page_ends (page_size (nvm h)) offset (widx + 1)
         then do { e1000_standby_nvm; return (widx + 1) }
         else write_spi_page offset words data (widx + 1)) }
      else return widx)"
  by pat_completeness auto
termination
  by (relation "measure (\<lambda>(offset, words, data, widx). unat words - unat widx)")
    (auto simp: unat_inc_less word_less_nat_alt)

declare write_spi_page.simps [simp del]

text \<open>
  The opcode of a page write, with the address bit 8 that parts with 8 address bits take in it,
  and the byte address that follows it.
\<close>

definition spi_write_opcode :: "u16 \<Rightarrow> u16 \<Rightarrow> u16" where
  "spi_write_opcode abits offset =
     (if abits = 8 \<and> offset \<ge> 128
      then NVM_WRITE_OPCODE_SPI OR NVM_A8_OPCODE_SPI else NVM_WRITE_OPCODE_SPI)"

definition spi_write_addr :: "u16 \<Rightarrow> u16 \<Rightarrow> u16" where
  "spi_write_addr offset widx = (offset + widx) * 2"

text \<open>
  The loop over the pages. Every pass writes at least one word, so as many passes as there are
  words are enough: \<open>fuel\<close> starts at \<open>words\<close>.
\<close>

fun write_spi_pages ::
  "nat \<Rightarrow> 'x nvm_lock_ops_scheme \<Rightarrow> u16 \<Rightarrow> u16 \<Rightarrow> u16 list \<Rightarrow> u16 \<Rightarrow> s32 \<Rightarrow> s32 io" where
  "write_spi_pages 0 ops offset words data widx ret_val = return ret_val"
| "write_spi_pages (Suc fuel) ops offset words data widx ret_val =
     (if widx < words
      then do {
        ret_val \<leftarrow> nvm_acquire ops;
        if ret_val \<noteq> 0 then return ret_val
        else do {
          ret_val \<leftarrow> e1000_ready_nvm_eeprom;
          if ret_val \<noteq> 0 then do { nvm_release ops; return ret_val }
          else do {
            e1000_standby_nvm;
            h \<leftarrow> get;
            e1000_shift_out_eec_bits NVM_WREN_OPCODE_SPI (opcode_bits (nvm h));
            e1000_standby_nvm;
            e1000_shift_out_eec_bits (spi_write_opcode (address_bits (nvm h)) offset)
              (opcode_bits (nvm h));
            e1000_shift_out_eec_bits (spi_write_addr offset widx) (address_bits (nvm h));
            widx \<leftarrow> write_spi_page offset words data widx;
            usleep_range 10000 20000;
            nvm_release ops;
            write_spi_pages fuel ops offset words data widx ret_val } } }
      else return ret_val)"

definition e1000e_write_nvm_spi ::
  "'x nvm_lock_ops_scheme \<Rightarrow> u16 \<Rightarrow> u16 \<Rightarrow> u16 list \<Rightarrow> s32 io" where
  "e1000e_write_nvm_spi ops offset words data = do {
     h \<leftarrow> get;
     if nvm_bad_range (word_size (nvm h)) offset words then return (- E1000_ERR_NVM)
     else write_spi_pages (unat words) ops offset words data 0 (- E1000_ERR_NVM) }"

section \<open>Printed board number\<close>

text \<open>Digits 0 to 15 become hexadecimal characters; anything else (the dash) is kept.\<close>

definition pba_hex_char :: "u8 \<Rightarrow> u8" where
  "pba_hex_char c = (if c < 0xA then c + 0x30 else if c < 0x10 then c + (0x41 - 0xA) else c)"

definition pba_nibble :: "nat \<Rightarrow> u16 \<Rightarrow> u8" where
  "pba_nibble n w = ucast (drop_bit n w AND 0xF)"

text \<open>The legacy format: the first eleven bytes of the buffer are written.\<close>

definition pba_legacy :: "u16 \<Rightarrow> u16 \<Rightarrow> u8 list" where
  "pba_legacy nvm_data pba_ptr =
     map pba_hex_char
       [pba_nibble 12 nvm_data, pba_nibble 8 nvm_data, pba_nibble 4 nvm_data, pba_nibble 0 nvm_data,
        pba_nibble 12 pba_ptr, pba_nibble 8 pba_ptr, 0x2D, 0,
        pba_nibble 4 pba_ptr, pba_nibble 0 pba_ptr] @ [0]"

fun read_pba_loop ::
  "'x nvm_access_ops_scheme \<Rightarrow> u16 \<Rightarrow> nat \<Rightarrow> nat \<Rightarrow> u8 list \<Rightarrow> (s32 \<times> u8 list) io" where
  "read_pba_loop ops pba_ptr offset 0 pba_num = return (0, pba_num[offset * 2 := 0])"
| "read_pba_loop ops pba_ptr offset (Suc n) pba_num = do {
     (ret_val, nvm_data) \<leftarrow> read_nvm_word ops (pba_ptr + of_nat offset);
     if ret_val \<noteq> 0 then return (ret_val, pba_num)
     else read_pba_loop ops pba_ptr (Suc offset) n
       (pba_num[offset * 2 := ucast (drop_bit 8 nvm_data),
                offset * 2 + 1 := ucast (nvm_data AND 0xFF)]) }"

definition e1000_read_pba_string_generic ::
  "'x nvm_access_ops_scheme \<Rightarrow> u8 list option \<Rightarrow> u32 \<Rightarrow> (s32 \<times> u8 list option) io" where
  "e1000_read_pba_string_generic ops pba_buf pba_num_size =
     (case pba_buf of
        None \<Rightarrow> return (- E1000_ERR_INVALID_ARGUMENT, None)
      | Some pba_num \<Rightarrow> do {
          (ret_val, nvm_data) \<leftarrow> read_nvm_word ops NVM_PBA_OFFSET_0;
          if ret_val \<noteq> 0 then return (ret_val, Some pba_num)
          else do {
            (ret_val, pba_ptr) \<leftarrow> read_nvm_word ops NVM_PBA_OFFSET_1;
            if ret_val \<noteq> 0 then return (ret_val, Some pba_num)
            else if nvm_data \<noteq> NVM_PBA_PTR_GUARD then
              (if pba_num_size < E1000_PBANUM_LENGTH then return (E1000_ERR_NO_SPACE, Some pba_num)
               else return (0, Some (pba_legacy nvm_data pba_ptr @ drop 11 pba_num)))
            else do {
              (ret_val, len) \<leftarrow> read_nvm_word ops pba_ptr;
              if ret_val \<noteq> 0 then return (ret_val, Some pba_num)
              else if len = 0xFFFF \<or> len = 0 then return (- E1000_ERR_NVM_PBA_SECTION, Some pba_num)
              else if pba_num_size < (ucast len :: u32) * 2 - 1
              then return (- E1000_ERR_NO_SPACE, Some pba_num)
              else do {
                (ret_val, pba_num) \<leftarrow> read_pba_loop ops (pba_ptr + 1) 0 (unat (len - 1)) pba_num;
                return (ret_val, Some pba_num) } } } })"

section \<open>MAC address, checksum, reload\<close>

definition e1000_read_mac_addr_generic :: "s32 io" where
  "e1000_read_mac_addr_generic = do {
     rar_high \<leftarrow> er32 (E1000_RAH 0);
     rar_low \<leftarrow> er32 (E1000_RAL 0);
     let perm =
       map (\<lambda>i. ucast (drop_bit (i * 8) rar_low)) [0 ..< E1000_RAL_MAC_ADDR_LEN] @
       map (\<lambda>i. ucast (drop_bit (i * 8) rar_high)) [0 ..< E1000_RAH_MAC_ADDR_LEN];
     set_mac (\<lambda>m. m\<lparr>perm_addr := perm, mac_addr := take ETH_ALEN perm\<rparr>);
     return 0 }"

text \<open>In this tree the validation has no body: it accepts every NVM.\<close>

definition e1000e_validate_nvm_checksum_generic :: "s32 io" where
  "e1000e_validate_nvm_checksum_generic = return 0"

text \<open>The sum of \<open>n\<close> words from \<open>i\<close> on, added to \<open>checksum\<close>.\<close>

fun nvm_sum_loop :: "'x nvm_access_ops_scheme \<Rightarrow> u16 \<Rightarrow> nat \<Rightarrow> u16 \<Rightarrow> (s32 \<times> u16) io" where
  "nvm_sum_loop ops i 0 checksum = return (0, checksum)"
| "nvm_sum_loop ops i (Suc n) checksum = do {
     (ret_val, nvm_data) \<leftarrow> read_nvm_word ops i;
     if ret_val \<noteq> 0 then return (ret_val, checksum)
     else nvm_sum_loop ops (i + 1) n (checksum + nvm_data) }"

definition e1000e_update_nvm_checksum_generic :: "'x nvm_access_ops_scheme \<Rightarrow> s32 io" where
  "e1000e_update_nvm_checksum_generic ops = do {
     (ret_val, checksum) \<leftarrow> nvm_sum_loop ops 0 (unat NVM_CHECKSUM_REG) 0;
     if ret_val \<noteq> 0 then return ret_val
     else do {
       let checksum = NVM_SUM - checksum;
       e1000_write_nvm ops NVM_CHECKSUM_REG 1 [checksum] } }"

definition e1000e_reload_nvm_generic :: "unit io" where
  "e1000e_reload_nvm_generic = do {
     usleep_range 10 20;
     ctrl_ext \<leftarrow> er32 E1000_CTRL_EXT;
     let ctrl_ext = ctrl_ext OR E1000_CTRL_EXT_EE_RST;
     ew32 E1000_CTRL_EXT ctrl_ext;
     e1e_flush }"

end
