(* ===== verification/Nvm_Serial.thy ===== *)
theory Nvm_Serial
  imports Nvm
begin

text \<open>
  The serial interface of the EEPROM in \<open>nvm.c\<close>, seen from the part: the data bits it
  samples at the rising edges of the clock, computed from the values the driver writes to
  \<open>EECD\<close>; shifting words out and in; page bursts; arbitration.
\<close>

unbundle bit_operations_syntax

definition eecd_values :: "event list \<Rightarrow> u32 list" where
  "eecd_values t = map snd (filter (\<lambda>(r, v). r = E1000_EECD) (reg_writes t))"

definition clock_low :: "u32 list \<Rightarrow> bool" where
  "clock_low vs \<longleftrightarrow> (case vs of [] \<Rightarrow> True | v # _ \<Rightarrow> \<not> bit v 0)"

fun spi_bits :: "u32 list \<Rightarrow> bool list" where
  "spi_bits [] = []"
| "spi_bits (v # vs) =
     (if bit v 0 \<and> clock_low vs then bit v 2 # spi_bits vs else spi_bits vs)"

lemma clock_low_simps [simp]: "clock_low []" "clock_low (v # vs) = (\<not> bit v 0)"
  by (simp_all add: clock_low_def)

lemma eecd_values_simps [simp]:
  "eecd_values (trace (wr E1000_EECD v h)) = v # eecd_values (trace h)"
  "r \<noteq> E1000_EECD \<Longrightarrow> eecd_values (trace (wr r v h)) = eecd_values (trace h)"
  "eecd_values (ReadL r v # t) = eecd_values t"
  "eecd_values (Delay n # t) = eecd_values t"
  by (simp_all add: eecd_values_def)

lemma wp_raise [wp]:
  "wp (e1000_raise_eec_clk e) Q = (\<lambda>h.
     Q (e OR E1000_EECD_SK) (log_event (Delay (unat (delay_usec (nvm h))))
       (rd E1000_STATUS (wr E1000_EECD (e OR E1000_EECD_SK) h))))"
  by (simp add: e1000_raise_eec_clk_def eec_delay_def wp Let_def)

lemma wp_lower [wp]:
  "wp (e1000_lower_eec_clk e) Q = (\<lambda>h.
     Q (e AND NOT E1000_EECD_SK) (log_event (Delay (unat (delay_usec (nvm h))))
       (rd E1000_STATUS (wr E1000_EECD (e AND NOT E1000_EECD_SK) h))))"
  by (simp add: e1000_lower_eec_clk_def eec_delay_def wp Let_def)

lemma eecd_bits:
  fixes e :: u32
  shows "bit (e OR E1000_EECD_SK) 0" "bit (e OR E1000_EECD_SK) 2 = bit e 2"
    "\<not> bit (e AND NOT E1000_EECD_SK) 0"
    "bit (e AND NOT E1000_EECD_DI) 0 = bit e 0" "\<not> bit (e AND NOT E1000_EECD_DI) 2"
    "bit (e OR E1000_EECD_DI) 0 = bit e 0" "bit (e OR E1000_EECD_DI) 2"
    "bit (e OR E1000_EECD_DO) 0 = bit e 0"
  by (simp_all add: bit_simps)

lemma ucast_mask:
  fixes data :: u16
  assumes "k < 32"
  shows "(ucast data AND push_bit k 1 \<noteq> (0::u32)) = bit data k"
  using assms by (simp only: bit_iff_and_push_bit_not_eq_0 [symmetric]) (simp add: bit_simps)

lemma push_bit_1_nonzero:
  assumes "k < 32" shows "push_bit k 1 \<noteq> (0::u32)"
proof
  assume "push_bit k 1 = (0::u32)"
  moreover have "bit (push_bit k 1 :: u32) k" using assms by (simp add: bit_simps)
  ultimately show False by (metis bit_0_eq bot_fun_def bot_bool_def)
qed

lemma wp_shift_out_bit:
  assumes "\<not> bit e 0" and "k < 32"
  shows "wp (shift_out_bit data (push_bit k 1) e) (\<lambda>e' h'. \<not> bit e' 0 \<and>
    spi_bits (eecd_values (trace h')) = bit data k # spi_bits (eecd_values (trace h))) h"
  using assms(1) unfolding ucast_mask [OF assms(2), symmetric]
  by (simp add: shift_out_bit_def eec_delay_def wp Let_def bit_simps)

lemma drop_push_Suc: "k < 31 \<Longrightarrow> drop_bit 1 (push_bit (Suc k) 1 :: u32) = push_bit k 1"
  by (intro bit_word_eqI) (auto simp: bit_simps)

lemma wp_shift_out_loop:
  assumes "\<not> bit e 0" and "k < 32"
  shows "wp (shift_out_loop data (push_bit k 1) e) (\<lambda>e' h'. \<not> bit e' 0 \<and>
    spi_bits (eecd_values (trace h')) =
      map (bit data) [0 ..< Suc k] @ spi_bits (eecd_values (trace h))) h"
  using assms
proof (induction k arbitrary: e h)
  case 0
  have "drop_bit 1 (push_bit 0 1 :: u32) = 0" by simp
  with wp_shift_out_bit [OF 0] show ?case
    by (subst shift_out_loop.simps)
      (simp only: wp simp_thms upt_Suc upt_0 list.map append.simps le_refl if_True)
next
  case (Suc k)
  have "wp (shift_out_bit data (push_bit (Suc k) 1) e) (\<lambda>e' h1.
      wp (shift_out_loop data (push_bit k 1) e') (\<lambda>e'' h'. \<not> bit e'' 0 \<and>
        spi_bits (eecd_values (trace h')) =
          map (bit data) [0 ..< Suc (Suc k)] @ spi_bits (eecd_values (trace h))) h1) h"
    by (rule wp_mono [OF wp_shift_out_bit [OF Suc.prems]], rule wp_mono [OF Suc.IH])
      (use Suc.prems in auto)
  then show ?case
    using Suc.prems(2) push_bit_1_nonzero [of k] drop_push_Suc [of k]
    by (subst shift_out_loop.simps) (simp only: wp simp_thms if_True)
qed

lemma wp_shift_out_eec_bits:
  assumes "1 \<le> count" and "count \<le> 16" and "\<not> bit (rdv E1000_EECD h) 0"
  shows "wp (e1000_shift_out_eec_bits data count) (\<lambda>_ h'. clock_low (eecd_values (trace h')) \<and>
    spi_bits (eecd_values (trace h')) =
      map (bit data) [0 ..< unat count] @ spi_bits (eecd_values (trace h))) h"
proof -
  obtain k where k: "unat count = Suc k" "k < 32"
    using assms(1,2) by (cases "unat count") (auto simp: word_le_nat_alt)
  show ?thesis
    unfolding e1000_shift_out_eec_bits_def Let_def k(1) diff_Suc_1 wp
    by (rule wp_mono [OF wp_shift_out_loop]) (use assms(3) k(2) in \<open>auto simp: bit_simps\<close>)
qed

text \<open>
  C18: shifting out \<open>count\<close> bits (\<open>e1000_shift_out_eec_bits\<close>) makes the part sample exactly
  those bits, most significant first, and leaves the clock low.
\<close>

theorem shift_out_bits:
  assumes "1 \<le> count" and "count \<le> 16" and "\<not> bit (rdv E1000_EECD h) 0"
  shows "let h' = snd (run_state (e1000_shift_out_eec_bits data count) h) in
    spi_bits (eecd_values (trace h')) =
      map (bit data) [0 ..< unat count] @ spi_bits (eecd_values (trace h)) \<and>
    clock_low (eecd_values (trace h'))"
  using wp_shift_out_eec_bits [OF assms] by (simp add: wp_def Let_def)

theorem shift_out_bits_witness:
  "spi_bits (eecd_values (trace (snd (run_state (e1000_shift_out_eec_bits 3 8)
     (sample_hw (ram_device (\<lambda>r. 0))))))) = [True, True, False, False, False, False, False, False]"
  using shift_out_bits [of 8 "sample_hw (ram_device (\<lambda>r. 0))" 3]
  by (simp add: Let_def rdv_def ram_device_def eecd_values_def upt_rec)

definition edges :: "event list \<Rightarrow> nat" where
  "edges t = length (spi_bits (eecd_values t))"

definition serves_bits :: "device \<Rightarrow> nat \<Rightarrow> nat \<Rightarrow> u16 \<Rightarrow> bool" where
  "serves_bits d base n w \<longleftrightarrow>
     (\<forall>t. base < edges t \<and> edges t \<le> base + n \<longrightarrow>
        bit (dev_readl d t E1000_EECD) 3 = bit w (n - (edges t - base)))"

lemma word_halves:
  fixes x :: "'a::len word"
  shows "(if bit x 0 then push_bit 1 (drop_bit 1 x) OR 1 else push_bit 1 (drop_bit 1 x)) = x"
proof (rule bit_word_eqI)
  fix i assume "i < LENGTH('a)"
  then show "bit (if bit x 0 then push_bit 1 (drop_bit 1 x) OR 1 else push_bit 1 (drop_bit 1 x)) i
    = bit x i"
    by (cases i) (simp_all add: bit_or_iff bit_push_bit_iff bit_drop_bit_eq bit_1_iff del: push_bit_Suc)
qed

lemma take_bit_step:
  fixes w :: u16
  assumes "Suc j \<le> n"
  shows "(if bit w (n - Suc j) then push_bit 1 (drop_bit (n - j) (take_bit n w)) OR 1
          else push_bit 1 (drop_bit (n - j) (take_bit n w))) = drop_bit (n - Suc j) (take_bit n w)"
proof -
  let ?x = "drop_bit (n - Suc j) (take_bit n w)"
  have "drop_bit (n - j) (take_bit n w) = drop_bit 1 ?x"
    using assms by (simp only: drop_bit_drop_bit) (simp add: Suc_diff_Suc)
  moreover have "bit ?x 0 = bit w (n - Suc j)"
    using assms by (simp only: bit_drop_bit_eq bit_take_bit_iff comp_apply) auto
  ultimately show ?thesis using word_halves [of ?x] by (simp only:)
qed

lemma wp_shift_in_loop:
  assumes "serves_bits (dev h) base n w" and "j + k = n" and "n \<le> 16"
    and "clock_low (eecd_values (trace h))" and "edges (trace h) = base + j"
    and "data = drop_bit (n - j) (take_bit n w)"
  shows "wp (shift_in_loop k e data) (\<lambda>v h'. v = take_bit n w) h"
  using assms
proof (induction k arbitrary: j e data h)
  case 0
  then show ?case by (simp add: wp)
next
  case (Suc k)
  let ?e1 = "e OR E1000_EECD_SK"
  let ?h1 = "log_event (Delay (unat (delay_usec (nvm h)))) (rd E1000_STATUS (wr E1000_EECD ?e1 h))"
  have ed: "edges (trace ?h1) = base + Suc j"
    using Suc.prems(4,5) by (simp add: edges_def bit_simps)
  have b: "((rdv E1000_EECD ?h1 AND NOT E1000_EECD_DI) AND E1000_EECD_DO \<noteq> 0) = bit w (n - Suc j)"
  proof -
    have "((x AND NOT E1000_EECD_DI) AND E1000_EECD_DO \<noteq> 0) = bit x 3" for x :: u32
      using and_one_bit [of "x AND NOT E1000_EECD_DI" 3] by (simp add: bit_simps)
    moreover have "bit (rdv E1000_EECD ?h1) 3 = bit w (n - (edges (trace ?h1) - base))"
      using Suc.prems(1,2) ed by (simp add: serves_bits_def rdv_def)
    ultimately show ?thesis unfolding ed by (simp only: add_diff_cancel_left')
  qed
  show ?case
    apply (simp only: shift_in_loop.simps wp Let_def b)
    apply (rule Suc.IH [where j = "Suc j"])
    using Suc.prems ed take_bit_step [of j n w]
    by (auto simp: edges_def bit_simps)
qed

text \<open>
  C19: when the part presents the low \<open>count\<close> bits of \<open>w\<close>, most significant first, one
  per rising edge, \<open>e1000_shift_in_eec_bits\<close> returns exactly them.
\<close>

theorem shift_in_reads_bits:
  assumes "count \<le> 16" and "clock_low (eecd_values (trace h))"
    and "serves_bits (dev h) (edges (trace h)) (unat count) w"
  shows "fst (run_state (e1000_shift_in_eec_bits count) h) = take_bit (unat count) w"
proof -
  have "unat count \<le> 16" using assms(1) by (simp add: word_le_nat_alt)
  have "wp (e1000_shift_in_eec_bits count) (\<lambda>v h'. v = take_bit (unat count) w) h"
    unfolding e1000_shift_in_eec_bits_def Let_def wp
    by (rule wp_shift_in_loop [where j = 0 and base = "edges (trace h)"])
      (use assms \<open>unat count \<le> 16\<close> in \<open>auto simp: edges_def serves_bits_def drop_bit_take_bit\<close>)
  then show ?thesis by (simp add: wp_def)
qed

text \<open>A part that has the byte \<open>0xA5\<close> in its status register.\<close>

definition status_part :: device where
  "status_part = (ram_device (\<lambda>r. 0))
     \<lparr>dev_readl := (\<lambda>t r. if bit (0xA5 :: u16) (8 - edges t) then 8 else 0)\<rparr>"

lemma status_part_serves: "serves_bits status_part 0 8 0xA5"
  by (auto simp: serves_bits_def status_part_def bit_simps)

theorem shift_in_reads_bits_witness:
  "fst (run_state (e1000_shift_in_eec_bits 8) (sample_hw status_part)) = 0xA5"
  using shift_in_reads_bits [of 8 "sample_hw status_part" "0xA5"] status_part_serves
  by (simp add: eecd_values_def edges_def)

definition eecd_readback :: "device \<Rightarrow> bool" where
  "eecd_readback d \<longleftrightarrow> (\<forall>t. bit (dev_readl d t E1000_EECD) 0 = (\<not> clock_low (eecd_values t)))"

text \<open>The bits of a word, newest first: its low byte goes out first, each byte from its highest bit.\<close>

definition word_bits :: "u16 \<Rightarrow> bool list" where
  "word_bits v = map (bit v) ([8 ..< 16] @ [0 ..< 8])"

lemma swab16_bits: "map (bit (swab16 v)) [0 ..< 16] = word_bits v"
proof -
  have "\<not> bit v n" if "16 \<le> n" for n using that bit_imp_le_length [of v n] by auto
  then show ?thesis by (simp add: word_bits_def swab16_def upt_rec bit_simps)
qed

lemma frame_shift [frame]: "state_io_rel same_hw (shift_out_bit d m e)"
  by (auto simp: shift_out_bit_def e1000_raise_eec_clk_def e1000_lower_eec_clk_def eec_delay_def Let_def
      intro!: same.frame_bind same.frame_writes same.frame_reads same.frame_delays same.frame_get same.frame_return)

lemma frame_shift_loop: "state_io_rel same_hw (shift_out_loop d m e)"
  by (induction d m e rule: shift_out_loop.induct)
    (subst shift_out_loop.simps, intro same.frame_bind same.frame_if frame_shift same.frame_return)

lemma frame_shift_out [frame]: "state_io_rel same_hw (e1000_shift_out_eec_bits data count)"
  unfolding e1000_shift_out_eec_bits_def Let_def
  by (intro same.frame_bind same.frame_get same.frame_reads same.frame_writes frame_shift_loop)

lemma wp_shift_out:
  assumes "1 \<le> count" and "count \<le> 16" and "eecd_readback (dev h)" and "clock_low (eecd_values (trace h))"
  shows "wp (e1000_shift_out_eec_bits data count) (\<lambda>_ h'. same_hw h h' \<and> clock_low (eecd_values (trace h')) \<and>
    spi_bits (eecd_values (trace h')) =
      map (bit data) [0 ..< unat count] @ spi_bits (eecd_values (trace h))) h"
  using assms wp_shift_out_eec_bits [OF assms(1,2), where h = h and data = data]
    wp_same [OF frame_shift_out [of data count], of h]
  by (simp add: wp_conj eecd_readback_def rdv_def)

lemma wp_standby:
  assumes "eecd_readback (dev h)" and "clock_low (eecd_values (trace h))"
  shows "wp e1000_standby_nvm (\<lambda>_ h'. same_hw h h' \<and> clock_low (eecd_values (trace h')) \<and>
    spi_bits (eecd_values (trace h')) = spi_bits (eecd_values (trace h))) h"
  using assms by (auto simp: e1000_standby_nvm_def eec_delay_def wp Let_def eecd_readback_def rdv_def bit_simps)

lemma word_between: "w < n \<Longrightarrow> w < j \<Longrightarrow> j < w + 1 \<Longrightarrow> False" for w n j :: u16
  using unat_inc_less [of w n] by (simp add: word_less_nat_alt)

lemma wp_write_spi_page:
  assumes "widx < words" and "eecd_readback (dev h)" and "clock_low (eecd_values (trace h))"
  shows "wp (write_spi_page offset words data widx) (\<lambda>w h'. same_hw h h' \<and> clock_low (eecd_values (trace h')) \<and>
    widx < w \<and> w \<le> words \<and> (w = words \<or> page_ends (page_size (nvm h)) offset w) \<and>
    (\<forall>j. widx < j \<and> j < w \<longrightarrow> \<not> page_ends (page_size (nvm h)) offset j) \<and>
    spi_bits (eecd_values (trace h')) =
      concat (map (\<lambda>k. word_bits (data ! k)) (rev [unat widx ..< unat w])) @ spi_bits (eecd_values (trace h))) h"
  using assms
proof (induction offset words data widx arbitrary: h rule: write_spi_page.induct)
  case prems: (1 offset words data widx)
  let ?w = "widx + 1"
  have u: "unat ?w = Suc (unat widx)" using prems(2) by (rule unat_inc_less)
  have lt: "widx < ?w" "?w \<le> words" using u prems(2) by (auto simp: word_less_nat_alt word_le_nat_alt)
  have s: "wp (e1000_shift_out_eec_bits (swab16 (data ! unat widx)) 16) (\<lambda>_ h'. same_hw h h' \<and>
      clock_low (eecd_values (trace h')) \<and>
      spi_bits (eecd_values (trace h')) = word_bits (data ! unat widx) @ spi_bits (eecd_values (trace h))) h"
    by (rule wp_mono [OF wp_shift_out]) (use prems in \<open>auto simp: swab16_bits\<close>)
  show ?case
    apply (subst write_spi_page.simps)
    unfolding if_P [OF prems(2)] Let_def wp
  proof (rule wp_mono [OF s], intro conjI impI, goal_cases)
    case (1 x h1)
    then have r: "eecd_readback (dev h1)" "clock_low (eecd_values (trace h1))"
      using prems(3) by (simp_all add: same_hw_iff)
    show ?case
      by (rule wp_mono [OF wp_standby [OF r]])
        (use 1 lt u word_between [OF prems(2)] in \<open>auto simp: same_hw_iff\<close>)
  next
    case (2 x h1)
    show ?case
    proof (cases "?w < words")
      case True
      have r: "eecd_readback (dev h1)" "clock_low (eecd_values (trace h1))"
        using 2 prems(3) by (simp_all add: same_hw_iff)
      have np: "\<not> page_ends (page_size (nvm h1)) offset ?w" using 2 by simp
      have up: "[unat widx ..< unat w] = unat widx # [unat ?w ..< unat w]" if "?w < w" for w
        using that lt u by (simp add: upt_conv_Cons word_less_nat_alt)
      have next_index: "j = ?w \<or> ?w < j" if "widx < j" for j
        using word_between [OF prems(2) that] by force
      show ?thesis
        by (rule wp_mono [OF prems(1) [OF prems(2) refl np True r]])
          (use 2 np lt up next_index in \<open>auto simp: same_hw_iff\<close>)
    next
      case False
      with lt have "?w = words" by simp
      with 2 lt u word_between [OF prems(2)] show ?thesis
        by (subst write_spi_page.simps) (auto simp: wp same_hw_iff)
    qed
  qed
qed

text \<open>
  C20: one pass of the page loop of \<open>e1000e_write_nvm_spi\<close> sends, with the low byte of each word
  first and each byte from its highest bit, the words from \<open>widx\<close> up to the index it returns; that is at least one word, and the
  burst never runs over the start of a page of the part.
\<close>

theorem write_page_burst:
  assumes "widx < words" and "eecd_readback (dev h)" and "clock_low (eecd_values (trace h))"
  shows "let (w, h') = run_state (write_spi_page offset words data widx) h in
    widx < w \<and> w \<le> words \<and> (w = words \<or> page_ends (page_size (nvm h)) offset w) \<and>
    (\<forall>j. widx < j \<and> j < w \<longrightarrow> \<not> page_ends (page_size (nvm h)) offset j) \<and>
    spi_bits (eecd_values (trace h')) =
      concat (map (\<lambda>k. word_bits (data ! k)) (rev [unat widx ..< unat w])) @
        spi_bits (eecd_values (trace h))"
  using wp_write_spi_page [OF assms, of offset data] by (simp add: wp_def case_prod_beta)

text \<open>A part that reads the clock back as it was driven.\<close>

definition clocked_part :: device where
  "clocked_part = (ram_device (\<lambda>r. 0))
     \<lparr>dev_readl := (\<lambda>t r. if clock_low (eecd_values t) then 0 else 1)\<rparr>"

theorem write_page_burst_witness:
  "let (w, h') = run_state (write_spi_page 2 5 [0x00FF, 0xFF00, 3, 4, 5] 0) (sample_hw clocked_part) in
    w = 2 \<and> spi_bits (eecd_values (trace h')) =
      replicate 8 True @ replicate 8 False @ replicate 8 False @ replicate 8 True"
proof -
  obtain w h' where run: "run_state (write_spi_page 2 5 [0x00FF, 0xFF00, 3, 4, 5] 0) (sample_hw clocked_part) = (w, h')"
    by fastforce
  have "eecd_readback clocked_part" by (simp add: eecd_readback_def clocked_part_def)
  then have w: "0 < w" "w = 5 \<or> page_ends 8 2 w" "0 < j \<Longrightarrow> j < w \<Longrightarrow> \<not> page_ends 8 2 j"
    and bits: "spi_bits (eecd_values (trace h')) =
      concat (map (\<lambda>k. word_bits ([0x00FF, 0xFF00, 3, 4, 5] ! k)) (rev [0 ..< unat w]))" for j
    using write_page_burst [of 0 5 "sample_hw clocked_part" 2 "[0x00FF, 0xFF00, 3, 4, 5]"] run
    by (simp_all add: sample_nvm_def case_prod_beta eecd_values_def)
  have p: "page_ends 8 2 2" "\<not> page_ends 8 2 1" by (simp_all add: page_ends_def)
  have "\<not> 2 < w" using w(3) [of 2] p(1) by auto
  moreover have "w \<noteq> 1" using w(2) p(2) by auto
  moreover have "w = 0 \<or> w = 1 \<or> w = 2 \<or> 2 < w" by (simp add: word_less_nat_alt word_unat_eq_iff) linarith
  ultimately have "w = 2" using w(1) by auto
  moreover have "replicate 8 b = [b, b, b, b, b, b, b, b]" for b :: bool by (simp add: eval_nat_numeral)
  moreover from this have "word_bits 0x00FF = replicate 8 False @ replicate 8 True" "word_bits 0xFF00 = replicate 8 True @ replicate 8 False"
    by (simp_all add: word_bits_def upt_rec bit_numeral_rec)
  ultimately show ?thesis using bits by (simp add: run upt_rec)
qed

text \<open>
  The loop over the pages never runs out of fuel: every pass advances, so \<open>words\<close> passes are
  enough, and more fuel changes nothing.
\<close>

lemma write_page_advances:
  "widx < words \<Longrightarrow> wp (write_spi_page offset words data widx) (\<lambda>w h'. widx < w \<and> w \<le> words) h"
proof (induction offset words data widx arbitrary: h rule: write_spi_page.induct)
  case (1 offset words data widx)
  have u: "unat (widx + 1) = Suc (unat widx)" using 1(2) by (rule unat_inc_less)
  have lt: "widx < widx + 1" "widx + 1 \<le> words"
    using u 1(2) by (auto simp: word_less_nat_alt word_le_nat_alt)
  have rest: "wp (write_spi_page offset words data (widx + 1)) (\<lambda>w h'. widx < w \<and> w \<le> words) h'"
    if "\<not> page_ends (page_size (nvm h')) offset (widx + 1)" for h'
  proof (cases "widx + 1 < words")
    case True
    show ?thesis
      by (rule wp_mono [OF 1(1) [OF 1(2) refl that True]]) (use lt in auto)
  next
    case False
    with lt show ?thesis by (subst write_spi_page.simps) (simp add: wp)
  qed
  show ?case
    by (subst write_spi_page.simps, unfold if_P [OF 1(2)] Let_def wp)
      (auto intro!: wpI simp: lt rest [THEN wpD])
qed

lemma write_pages_fuel:
  assumes "unat words - unat widx \<le> n"
  shows "run_state (write_spi_pages (n + k) ops offset words data widx r) h =
    run_state (write_spi_pages n ops offset words data widx r) h"
  using assms
proof (induction n arbitrary: widx r h)
  case 0
  then show ?case by (cases k) (simp_all add: word_less_nat_alt)
next
  case (Suc n)
  have IH: "run_state (write_spi_pages (n + k) ops offset words data w r') h2 =
      run_state (write_spi_pages n ops offset words data w r') h2"
    if "widx < words" "run_state (write_spi_page offset words data widx) h1 = (w, h1')" for w r' h1 h1' h2
    using wpD [OF write_page_advances [OF that(1), of offset data] that(2)] Suc.prems that(1)
    by (intro Suc.IH) (auto simp: word_less_nat_alt)
  show ?case
    by (auto simp: IH split: prod.splits)
qed

section \<open>Addresses\<close>

text \<open>
  The byte address that a part with 8 address bits decodes from an opcode, whose bit 3 is the
  ninth address bit, and the address byte.
\<close>

definition spi_target :: "u16 \<Rightarrow> u16 \<Rightarrow> nat" where
  "spi_target opcode a = (if bit opcode 3 then 256 else 0) + unat (take_bit 8 a)"

text \<open>
  C21: on a part with 8 address bits, a burst of \<open>e1000e_write_nvm_spi\<close> that starts at word
  \<open>offset + widx\<close> reaches that word exactly when \<open>offset\<close> and \<open>offset + widx\<close> lie in
  the same half of the part: the ninth address bit is computed from \<open>offset\<close> alone.
\<close>

theorem spi_address_reached:
  fixes offset widx :: u16
  assumes "unat offset + unat widx < 256"
  shows "spi_target (spi_write_opcode 8 offset) (spi_write_addr offset widx) = 2 * (unat offset + unat widx) \<longleftrightarrow>
     (offset \<ge> 128 \<longleftrightarrow> unat offset + unat widx \<ge> 128)"
proof -
  have a: "unat (spi_write_addr offset widx) = 2 * (unat offset + unat widx)"
    unfolding spi_write_addr_def unat_word_ariths using assms by simp
  have "unat (take_bit 8 (spi_write_addr offset widx)) = 2 * (unat offset + unat widx) mod 256"
    by (simp only: unsigned_take_bit_eq a) (simp add: take_bit_eq_mod)
  moreover have "bit (spi_write_opcode 8 offset) 3 \<longleftrightarrow> offset \<ge> 128"
    by (simp add: spi_write_opcode_def)
  moreover have "offset \<ge> 128 \<longleftrightarrow> 128 \<le> unat offset" by (simp add: word_le_nat_alt)
  moreover have "2 * n mod 256 + (if 128 \<le> n then 256 else 0) = 2 * n" if "n < 256" for n :: nat
    using that by (simp add: mod_if) linarith
  note this [OF assms]
  ultimately show ?thesis unfolding spi_target_def by (cases "128 \<le> offset") auto
qed

theorem spi_address_reached_witness:
  "spi_target (spi_write_opcode 8 120) (spi_write_addr 120 16) \<noteq> 2 * 136"
  using spi_address_reached [of 120 16] by simp

section \<open>Arbitration\<close>

lemma wp_acquire_nvm_loop:
  "wp (acquire_nvm_loop n e) (\<lambda>(k, e') h'. same_hw h h' \<and>
     eecd_values (trace h') = eecd_values (trace h) \<and>
     (k \<noteq> 0 \<longrightarrow> e' AND E1000_EECD_GNT \<noteq> 0)) h"
proof (induction n arbitrary: e h)
  case (Suc n)
  then show ?case
    by (auto simp: wp intro!: wp_mono [OF Suc.IH])
qed (simp add: wp)

text \<open>
  \<open>e1000e_acquire_nvm\<close> on any device: success leaves the request bit set in the last value
  written to \<open>EECD\<close>, a timeout takes the request back and gives \<open>- E1000_ERR_NVM\<close>.
\<close>

theorem acquire_nvm_request:
  "let (r, h') = run_state e1000e_acquire_nvm h; last_value = hd (eecd_values (trace h')) in
     if r = 0 then last_value AND E1000_EECD_REQ \<noteq> 0
     else r = - E1000_ERR_NVM \<and> last_value AND E1000_EECD_REQ = 0"
proof -
  have "wp e1000e_acquire_nvm (\<lambda>r h'.
      if r = 0 then hd (eecd_values (trace h')) AND E1000_EECD_REQ \<noteq> 0
      else r = - E1000_ERR_NVM \<and> hd (eecd_values (trace h')) AND E1000_EECD_REQ = 0) h"
    unfolding e1000e_acquire_nvm_def wp Let_def
    by (rule wp_mono [OF wp_acquire_nvm_loop]) (auto simp: set_clear_field split: prod.splits)
  then show ?thesis by (simp add: wp_def case_prod_beta Let_def)
qed

end
