(* ===== verification/Nvm_Eerd.thy ===== *)
theory Nvm_Eerd
  imports Nvm
begin

text \<open>
  Word access in \<open>nvm.c\<close>: reads through \<open>EERD\<close>, and the interface under
  which the checksum and board number routines are correct for every part.
\<close>

unbundle bit_operations_syntax

section \<open>Reads through EERD\<close>


definition eerd_device :: "device \<Rightarrow> bool" where
  "eerd_device d \<longleftrightarrow>
     (\<forall>t w. last_write t E1000_EERD = Some w \<longrightarrow>
        dev_readl d t E1000_EERD AND E1000_NVM_RW_REG_DONE \<noteq> 0 \<longrightarrow>
        ucast (drop_bit 16 (dev_readl d (ReadL E1000_EERD (dev_readl d t E1000_EERD) # t) E1000_EERD))
          = dev_eeprom d t (ucast (drop_bit 2 w))) \<and>
     (\<forall>t e. quiet e \<or> (\<exists>w. e = WriteL E1000_EERD w) \<longrightarrow> dev_eeprom d (e # t) = dev_eeprom d t)"

lemma eeprom_quiet:
  "eerd_device d \<Longrightarrow> \<forall>e \<in> set es. quiet e \<Longrightarrow> dev_eeprom d (es @ t) = dev_eeprom d t"
  by (induction es) (simp_all add: eerd_device_def)

lemma wr_eeprom:
  "eerd_device (dev h) \<Longrightarrow> dev_eeprom (dev h) (trace (wr E1000_EERD v h)) = dev_eeprom (dev h) (trace h)"
  using wr_trace [of E1000_EERD v h] by (auto simp: eeprom_quiet) (simp add: eerd_device_def eeprom_quiet)

definition eeprom :: "hw \<Rightarrow> u16 \<Rightarrow> u16" where
  "eeprom h = dev_eeprom (dev h) (trace h)"

lemma wp_poll_eerd:
  assumes "eerd_device (dev h)" and "last_write (trace h) E1000_EERD = Some w"
  shows "wp (e1000e_poll_eerd_eewr_done E1000_NVM_POLL_READ) (\<lambda>r h'.
    same_hw h h' \<and> eeprom h' = eeprom h \<and> (r = 0 \<or> r = - E1000_ERR_NVM) \<and>
    (r = 0 \<longrightarrow> ucast (drop_bit 16 (rdv E1000_EERD h')) = eeprom h (ucast (drop_bit 2 w)))) h"
proof -
  let ?I = "\<lambda>h'. same_hw h h' \<and> eeprom h' = eeprom h \<and> last_write (trace h') E1000_EERD = Some w"
  show ?thesis
    unfolding e1000e_poll_eerd_eewr_done_def if_P [OF refl] wp
    apply (rule wp_poll [where I = ?I and J = "\<lambda>v h'. ?I h' \<and>
      (v AND E1000_NVM_RW_REG_DONE \<noteq> 0 \<longrightarrow>
        ucast (drop_bit 16 (rdv E1000_EERD h')) = eeprom h (ucast (drop_bit 2 w)))"])
    using assms by (auto simp: eerd_device_def eeprom_def wp rdv_def same_hw_fields)
qed


lemma drop_push_start:
  fixes x :: u32
  assumes "unat x < 2 ^ 30"
  shows "drop_bit 2 (push_bit 2 x + 1) = x"
proof -
  have "unat (push_bit 2 x) = 4 * unat x"
    using assms by (simp add: push_bit_eq_mult unat_word_ariths)
  then have "unat (push_bit 2 x + 1) = 4 * unat x + 1"
    using assms by (simp add: unat_word_ariths)
  then have "unat (drop_bit 2 (push_bit 2 x + 1)) = unat x"
    by (simp only: unat_drop_bit_eq) (simp add: drop_bit_eq_div)
  then show ?thesis by (simp add: word_unat_eq_iff)
qed

lemma eerd_command:
  fixes a :: u16
  assumes "unat a + i < 65536"
  shows "ucast (drop_bit 2 (push_bit 2 (ucast a + of_nat i) + E1000_NVM_RW_REG_START :: u32))
    = a + of_nat i"
proof -
  let ?x = "ucast a + of_nat i :: u32"
  have u: "unat (ucast a :: u32) = unat a" "unat (of_nat i :: u32) = i"
    using assms by (simp_all add: unat_of_nat)
  have x: "unat ?x = unat a + i"
    unfolding unat_word_ariths u using assms by simp
  then have "unat (ucast ?x :: u16) = unat (a + of_nat i)"
    using assms by (simp add: unsigned_ucast_eq take_bit_eq_mod unat_word_ariths unat_of_nat)
  then have "ucast ?x = a + of_nat i" by (simp add: word_unat_eq_iff)
  moreover have "drop_bit 2 (push_bit 2 ?x + 1) = ?x"
    using x assms by (intro drop_push_start) simp
  ultimately show ?thesis by simp
qed

lemma take_update_map:
  assumes "i + Suc n \<le> length xs"
  shows "take (Suc i) (xs[i := f i]) @ map f [Suc i ..< Suc i + n] @ drop (Suc i + n) (xs[i := f i])
    = take i xs @ map f [i ..< i + Suc n] @ drop (i + Suc n) xs"
  using assms by (simp add: take_Suc_update upt_conv_Cons del: upt_Suc)

lemma eeprom_rd: "eerd_device (dev h) \<Longrightarrow> eeprom (rd r h) = eeprom h"
  by (simp add: eeprom_def eerd_device_def)

lemma wp_read_eerd_loop:
  assumes "eerd_device (dev h)" and "unat a + i + n \<le> 65536" and "i + n \<le> length data"
  shows "wp (read_eerd_loop a i n data) (\<lambda>(r, data') h'.
     same_hw h h' \<and> eeprom h' = eeprom h \<and> length data' = length data \<and>
     (r = 0 \<or> r = - E1000_ERR_NVM) \<and>
     (r = 0 \<longrightarrow> data' = take i data @ map (\<lambda>k. eeprom h (a + of_nat k)) [i ..< i + n] @ drop (i + n) data)) h"
  using assms
proof (induction n arbitrary: i data h)
  case 0
  then show ?case by (simp add: wp)
next
  case (Suc n)
  let ?f = "\<lambda>k. eeprom h (a + of_nat k)"
  let ?w = "push_bit E1000_NVM_RW_ADDR_SHIFT (ucast a + of_nat i) + E1000_NVM_RW_REG_START :: u32"
  let ?h1 = "wr E1000_EERD ?w h"
  have cmd: "ucast (drop_bit 2 ?w) = a + of_nat i"
    using eerd_command [of a i] Suc.prems(2) by simp
  have e1: "eeprom ?h1 = eeprom h"
    using wr_eeprom [OF Suc.prems(1)] by (simp add: eeprom_def)
  have IH: "wp (read_eerd_loop a (Suc i) n (data[i := ?f i])) (\<lambda>(r, data') h'.
     same_hw h h' \<and> eeprom h' = eeprom h \<and> length data' = length data \<and>
     (r = 0 \<or> r = - E1000_ERR_NVM) \<and>
     (r = 0 \<longrightarrow> data' = take i data @ map ?f [i ..< i + Suc n] @ drop (i + Suc n) data)) h2"
    if "same_hw h h2" "eeprom h2 = eeprom h" for h2
    unfolding take_update_map [of i n data ?f, OF Suc.prems(3), symmetric]
    by (rule wp_mono [OF Suc.IH])
      (use Suc.prems that in \<open>auto simp: same_hw_fields simp del: upt_Suc intro: same_hw_trans\<close>)
  show ?case
    unfolding read_eerd_loop.simps Let_def wp
  proof (rule wp_mono [OF wp_poll_eerd [where w = ?w]], goal_cases)
    case (3 r h2)
    then have "same_hw h (rd E1000_EERD h2)" by (auto simp: same_hw_iff)
    moreover have "eeprom (rd E1000_EERD h2) = eeprom h"
      using 3 Suc.prems(1) e1 eeprom_rd [of h2] by (auto simp: same_hw_iff)
    moreover have "r = 0 \<longrightarrow> ucast (drop_bit E1000_NVM_RW_REG_DATA (rdv E1000_EERD h2)) = ?f i"
      using 3 unfolding e1 cmd by simp
    ultimately show ?case using 3 IH e1 by (auto simp: same_hw_iff)
  qed (simp_all add: Suc.prems)
qed

lemma nvm_good_range:
  assumes "\<not> nvm_bad_range n offset words"
  shows "unat offset + unat words \<le> unat n" and "0 < unat words"
proof -
  have "uint words \<le> uint n - uint offset" and "words \<noteq> 0"
    using assms by (simp_all add: nvm_bad_range_def not_less)
  then show "unat offset + unat words \<le> unat n" and "0 < unat words"
    unfolding uint_nat by (linarith, simp add: unat_gt_0)
qed

text \<open>
  C16: \<open>e1000e_read_nvm_eerd\<close> on a part that answers as documented: a range outside the part
  is refused with nothing touched; otherwise success means the buffer holds exactly the words asked for (and
  is unchanged behind them), and the only failure is the timeout.
\<close>

theorem read_nvm_eerd_correct:
  assumes "eerd_device (dev h)" and "unat words \<le> length data"
  shows "let ((r, data'), h') = run_state (e1000e_read_nvm_eerd offset words data) h in
    if nvm_bad_range (word_size (nvm h)) offset words
    then r = - E1000_ERR_NVM \<and> data' = data \<and> h' = h
    else same_hw h h' \<and> eeprom h' = eeprom h \<and> (r = 0 \<or> r = - E1000_ERR_NVM) \<and>
      (r = 0 \<longrightarrow>
        data' = map (\<lambda>k. eeprom h (offset + of_nat k)) [0 ..< unat words] @ drop (unat words) data)"
proof (cases "nvm_bad_range (word_size (nvm h)) offset words")
  case True
  then show ?thesis by (simp add: e1000e_read_nvm_eerd_def)
next
  case False
  then have "unat offset + unat words \<le> unat (word_size (nvm h))"
    by (rule nvm_good_range)
  also have "\<dots> < 65536" using unsigned_less [of "word_size (nvm h)", where 'a = nat] by simp
  finally have b: "unat offset + 0 + unat words \<le> 65536" by simp
  have "0 + unat words \<le> length data" using assms(2) by simp
  from wp_read_eerd_loop [OF assms(1) b this] have
    "wp (e1000e_read_nvm_eerd offset words data) (\<lambda>(r, data') h'.
       same_hw h h' \<and> eeprom h' = eeprom h \<and> length data' = length data \<and>
       (r = 0 \<or> r = - E1000_ERR_NVM) \<and>
       (r = 0 \<longrightarrow> data' = map (\<lambda>k. eeprom h (offset + of_nat k)) [0 ..< unat words] @ drop (unat words) data)) h"
    unfolding e1000e_read_nvm_eerd_def wp using False by (simp only: take_0 add_0 append_Nil simp_thms)
  with False show ?thesis by (simp add: wp_def case_prod_beta)
qed

text \<open>A part whose word \<open>a\<close> is \<open>f a\<close> and that is done with every read at once.\<close>

definition eerd_part :: "(u16 \<Rightarrow> u16) \<Rightarrow> device" where
  "eerd_part f = (ram_device (\<lambda>r. 0))
     \<lparr>dev_readl := (\<lambda>t r. case last_write t E1000_EERD of
         Some w \<Rightarrow> push_bit 16 (ucast (f (ucast (drop_bit 2 w)))) OR 2 | None \<Rightarrow> 0),
      dev_eeprom := (\<lambda>t. f)\<rparr>"

lemma eerd_part_data:
  fixes x :: u16
  shows "ucast (drop_bit 16 (push_bit 16 (ucast x) OR 2 :: u32)) = x"
    "ucast (drop_bit 16 (push_bit 16 (ucast x) :: u32)) = x"
  by (intro bit_word_eqI; auto simp: bit_simps)+

lemma eeprom_eerd_part: "eeprom (sample_hw (eerd_part f)) = f"
  by (simp add: eeprom_def eerd_part_def)

lemma eerd_part_ok: "eerd_device (eerd_part f)"
  by (auto simp: eerd_device_def eerd_part_def eerd_part_data split: option.splits)

lemma poll_eerd_done:
  assumes "rdv E1000_EERD h AND E1000_NVM_RW_REG_DONE \<noteq> 0"
  shows "run_state (e1000e_poll_eerd_eewr_done E1000_NVM_POLL_READ) h = (0, rd E1000_EERD h)"
  using assms unfolding e1000e_poll_eerd_eewr_done_def
  by (simp add: poll_first [of _ _ _ "rdv E1000_EERD h" "rd E1000_EERD h"])

definition eerd_ready :: "device \<Rightarrow> bool" where
  "eerd_ready d \<longleftrightarrow> (\<forall>t. last_write t E1000_EERD \<noteq> None \<longrightarrow>
     dev_readl d t E1000_EERD AND E1000_NVM_RW_REG_DONE \<noteq> 0)"

lemma read_eerd_loop_ready:
  "eerd_ready (dev h) \<Longrightarrow> fst (fst (run_state (read_eerd_loop a i n data) h)) = 0"
proof (induction n arbitrary: i data h)
  case (Suc n)
  let ?h1 = "wr E1000_EERD (push_bit E1000_NVM_RW_ADDR_SHIFT (ucast a + of_nat i) + E1000_NVM_RW_REG_START) h"
  have "rdv E1000_EERD ?h1 AND E1000_NVM_RW_REG_DONE \<noteq> 0"
    using Suc.prems by (simp add: eerd_ready_def rdv_def)
  from poll_eerd_done [OF this] show ?case using Suc by (simp add: Let_def)
qed simp


lemma eerd_part_ready: "eerd_ready (eerd_part f)"
proof -
  have "(push_bit 16 x OR 2) AND 2 \<noteq> (0::u32)" for x :: u32
    using and_one_bit [of "push_bit 16 x OR 2" 1] by (simp add: bit_simps)
  then show ?thesis by (auto simp: eerd_ready_def eerd_part_def split: option.splits)
qed

theorem read_nvm_eerd_correct_witness:
  "let ((r, data'), h') = run_state (e1000e_read_nvm_eerd 5 2 [0, 0, 9]) (sample_hw (eerd_part (\<lambda>a. a * 3))) in
    r = 0 \<longrightarrow> data' = [15, 18, 9]"
  using read_nvm_eerd_correct [of "sample_hw (eerd_part (\<lambda>a. a * 3))" 2 "[0, 0, 9]" 5] eerd_part_ok
  by (simp add: sample_nvm_def case_prod_beta nvm_bad_range_def eeprom_eerd_part upt_rec)


section \<open>Routines over the words of a part\<close>

text \<open>Sum of the first \<open>n\<close> words.\<close>

definition nvm_sum :: "(u16 \<Rightarrow> u16) \<Rightarrow> nat \<Rightarrow> u16" where
  "nvm_sum f n = (\<Sum>k<n. f (of_nat k))"

lemma nvm_sum_update:
  assumes "n < 65536"
  shows "nvm_sum (f(of_nat n := s - nvm_sum f n)) (Suc n) = s"
proof -
  have "(of_nat k :: u16) \<noteq> of_nat n" if "k < n" for k
    using that assms by (simp add: word_of_nat_eq_iff take_bit_nat_eq_self)
  then have "(\<Sum>k<n. (f(of_nat n := x)) (of_nat k)) = (\<Sum>k<n. f (of_nat k))" for x
    by (intro sum.cong) auto
  then show ?thesis by (simp add: nvm_sum_def)
qed

definition pba_bytes :: "(u16 \<Rightarrow> u16) \<Rightarrow> u16 \<Rightarrow> nat list \<Rightarrow> u8 list" where
  "pba_bytes f p ks =
     concat (map (\<lambda>k. [ucast (drop_bit 8 (f (p + of_nat k))), ucast (f (p + of_nat k) AND 0xFF)]) ks)"

lemma pba_space:
  fixes n :: u16
  assumes "n \<noteq> 0" and "\<not> cap < (ucast n :: u32) * 2 - 1"
  shows "2 * (0 + unat (n - 1)) + 1 \<le> unat cap" "unat (n - 1) = unat n - 1"
proof -
  have u: "unat (ucast n :: u32) = unat n"
    by simp
  have lt: "unat n < 65536" using unsigned_less [of n, where 'a = nat] by simp
  have d: "unat ((ucast n :: u32) * 2) = unat n * 2"
    unfolding unat_word_ariths u using lt by simp
  have n0: "0 < unat n" using assms(1) by (simp add: unat_gt_0)
  then have "(ucast n :: u32) * 2 \<noteq> 0" using d by (metis mult_is_0 neq0_conv unat_0 zero_neq_numeral)
  then have "unat ((ucast n :: u32) * 2 - 1) = unat n * 2 - 1" by (simp add: unat_minus_one d)
  moreover show "unat (n - 1) = unat n - 1" using assms(1) by (simp add: unat_minus_one)
  ultimately show "2 * (0 + unat (n - 1)) + 1 \<le> unat cap"
    using assms(2) n0 by (simp add: word_less_nat_alt)
qed

locale nvm_words =
  fixes ops :: "'x nvm_access_ops_scheme"
    and inv :: "hw \<Rightarrow> bool"
    and word :: "hw \<Rightarrow> u16 \<Rightarrow> u16"
  assumes read_word: "inv h \<Longrightarrow> run_state (read_nvm_word ops a) h = ((r, v), h') \<Longrightarrow>
      inv h' \<and> word h' = word h \<and> (r = 0 \<longrightarrow> v = word h a)"
    and write_word: "inv h \<Longrightarrow> run_state (e1000_write_nvm ops a 1 [v]) h = (r, h') \<Longrightarrow>
      inv h' \<and> (r = 0 \<longrightarrow> word h' = (word h)(a := v))"
begin

lemma wp_read_word:
  assumes "inv h" and "\<And>r v h'. inv h' \<Longrightarrow> word h' = word h \<Longrightarrow> (r = 0 \<Longrightarrow> v = word h a) \<Longrightarrow> Q (r, v) h'"
  shows "wp (read_nvm_word ops a) Q h"
proof (rule wpI)
  fix x h' assume "run_state (read_nvm_word ops a) h = (x, h')"
  then show "Q x h'" using assms read_word [of h a] by (cases x) auto
qed

lemma sum_loop:
  assumes "inv h"
  shows "wp (nvm_sum_loop ops i n c) (\<lambda>(r, c') h'. inv h' \<and> word h' = word h \<and>
     (r = 0 \<longrightarrow> c' = c + (\<Sum>k<n. word h (i + of_nat k)))) h"
  using assms
proof (induction n arbitrary: i c h)
  case 0
  then show ?case by (simp add: wp)
next
  case (Suc n)
  have shift: "(\<Sum>k<Suc n. f (i + of_nat k)) = f i + (\<Sum>k<n. f (i + 1 + of_nat k))" for f :: "u16 \<Rightarrow> u16"
    by (simp only: sum.lessThan_Suc_shift) (simp add: ac_simps)
  show ?case
    unfolding nvm_sum_loop.simps wp
    by (rule wp_read_word [OF Suc.prems])
      (auto simp: shift add.assoc intro!: wp_mono [OF Suc.IH] simp del: sum.lessThan_Suc)
qed

lemma checksum_updated:
  assumes "inv h" and "run_state (e1000e_update_nvm_checksum_generic ops) h = (r, h')"
  shows "inv h' \<and> (r = 0 \<longrightarrow> nvm_sum (word h') 64 = NVM_SUM \<and>
    (\<forall>a. a \<noteq> NVM_CHECKSUM_REG \<longrightarrow> word h' a = word h a))"
proof -
  have upd: "nvm_sum (f(NVM_CHECKSUM_REG := NVM_SUM - (\<Sum>k<63. f (of_nat k)))) 64 = NVM_SUM"
    for f :: "u16 \<Rightarrow> u16"
    using nvm_sum_update [of 63 f NVM_SUM] by (simp add: nvm_sum_def)
  have "wp (e1000e_update_nvm_checksum_generic ops) (\<lambda>r h'. inv h' \<and>
      (r = 0 \<longrightarrow> word h' = (word h)(NVM_CHECKSUM_REG := NVM_SUM - (\<Sum>k<63. word h (of_nat k))))) h"
    unfolding e1000e_update_nvm_checksum_generic_def wp Let_def
    by (rule wp_mono [OF sum_loop [OF assms(1)]])
      (auto intro!: wpI dest: write_word)
  from wpD [OF this assms(2)] show ?thesis by (auto simp: upd)
qed


lemma pba_loop:
  assumes "inv h" and "2 * (off + n) + 1 \<le> cap" and "cap \<le> length buf"
  shows "wp (read_pba_loop ops p off n buf) (\<lambda>(r, buf') h'. inv h' \<and> word h' = word h \<and>
     length buf' = length buf \<and> drop cap buf' = drop cap buf \<and>
     (r = 0 \<longrightarrow> take (2 * (off + n) + 1) buf' =
        take (2 * off) buf @ pba_bytes (word h) p [off ..< off + n] @ [0])) h"
  using assms
proof (induction n arbitrary: off buf h)
  case 0
  then show ?case by (simp add: wp pba_bytes_def take_Suc_update mult.commute)
next
  case (Suc n)
  let ?b = "\<lambda>v. buf[off * 2 := ucast (drop_bit 8 v), off * 2 + 1 := ucast (v AND 0xFF)]"
  have t: "take (2 * Suc off) (?b v) = take (2 * off) buf @ [ucast (drop_bit 8 v), ucast (v AND 0xFF)]" for v
    using Suc.prems(2,3) by (simp add: take_Suc_update mult.commute)
  have d: "drop cap (?b v) = drop cap buf" for v
    using Suc.prems(2) by simp
  have pb: "pba_bytes f p [off ..< off + Suc n] =
    ucast (drop_bit 8 (f (p + of_nat off))) # ucast (f (p + of_nat off) AND 0xFF) #
      pba_bytes f p [Suc off ..< Suc off + n]" for f
    by (simp add: pba_bytes_def upt_conv_Cons del: upt_Suc)
  show ?case
    unfolding read_pba_loop.simps wp
  proof (rule wp_read_word [OF Suc.prems(1)], goal_cases)
    case (1 r v h2)
    show ?case
    proof (cases "r = 0")
      case True
      have s: "2 * (Suc off + n) + 1 \<le> cap" "cap \<le> length (?b v)" using Suc.prems by simp_all
      have eq: "take (2 * Suc off) (?b v) @ pba_bytes (word h) p [Suc off ..< Suc off + n] @ [0] =
          take (2 * off) buf @ pba_bytes (word h) p [off ..< off + Suc n] @ [0]"
        unfolding t pb using 1(3) [OF True] by simp
      have sz: "2 * (Suc off + n) + 1 = 2 * (off + Suc n) + 1" by simp
      from Suc.IH [OF 1(1) s] show ?thesis
        unfolding 1(2) eq sz d length_list_update fst_conv snd_conv using True by simp
    next
      case False
      with 1 show ?thesis by simp
    qed
  qed
qed

lemma pba_string:
  assumes "inv h" and "unat cap \<le> length buf"
    and "run_state (e1000_read_pba_string_generic ops (Some buf) cap) h = ((r, Some buf'), h')"
  shows "length buf' = length buf \<and> drop (unat cap) buf' = drop (unat cap) buf \<and>
    (r = 0 \<longrightarrow>
      (if word h NVM_PBA_OFFSET_0 \<noteq> NVM_PBA_PTR_GUARD
       then take 11 buf' = pba_legacy (word h NVM_PBA_OFFSET_0) (word h NVM_PBA_OFFSET_1)
       else (let p = word h NVM_PBA_OFFSET_1; n = unat (word h p) - 1
         in take (2 * n + 1) buf' = pba_bytes (word h) (p + 1) [0 ..< n] @ [0])))"
    (is "?post r buf'")
proof -
  obtain r0 g h0 where e0: "run_state (read_nvm_word ops NVM_PBA_OFFSET_0) h = ((r0, g), h0)"
    by (metis prod.exhaust)
  obtain r1 p h1 where e1: "run_state (read_nvm_word ops NVM_PBA_OFFSET_1) h0 = ((r1, p), h1)"
    by (metis prod.exhaust)
  obtain r2 n h2 where e2: "run_state (read_nvm_word ops p) h1 = ((r2, n), h2)"
    by (metis prod.exhaust)
  obtain r3 b h3 where e3:
    "run_state (read_pba_loop ops (p + 1) 0 (unat (n - 1)) buf) h2 = ((r3, b), h3)"
    by (metis prod.exhaust)
  note w0 = read_word [OF assms(1) e0]
  note w1 = read_word [OF w0 [THEN conjunct1] e1]
  note w2 = read_word [OF w1 [THEN conjunct1] e2]
  have leg: "length (pba_legacy x y) = 11" for x y by (simp add: pba_legacy_def)
  have fit: "2 * (0 + unat (n - 1)) + 1 \<le> unat cap" "unat (n - 1) = unat n - 1"
    if "n \<noteq> 0" "\<not> cap < ucast n * 2 - 1"
    using pba_space [OF that] by simp_all
  show ?thesis
  proof (cases "n \<noteq> 0 \<and> \<not> cap < ucast n * 2 - 1")
    case True
    then have n: "n \<noteq> 0" "\<not> cap < ucast n * 2 - 1" by auto
    from wpD [OF pba_loop [OF w2 [THEN conjunct1] fit(1) [OF n] assms(2)] e3]
    show ?thesis using assms(2,3) e0 e1 e2 e3 w0 w1 w2 fit [OF n]
      by (auto simp: e1000_read_pba_string_generic_def leg Let_def word_less_nat_alt split: if_splits)
  next
    case False
    then show ?thesis using assms(2,3) e0 e1 e2 e3 w0 w1 w2
      by (auto simp: e1000_read_pba_string_generic_def leg Let_def word_less_nat_alt split: if_splits)
  qed
qed

end

end
