(* ===== verification/Mac.thy ===== *)
theory Mac
  imports Nvm
begin

text \<open>
  \<open>mac.c\<close> without the link handling (which is in \<open>Mac_Link\<close>): bus and function
  number, receive address and multicast filters, statistics, the hardware semaphore, LEDs, PCIe
  mastering and adaptive inter-frame spacing.
\<close>

unbundle bit_operations_syntax

section \<open>Bus\<close>

definition e1000e_get_bus_info_pcie :: "unit io \<Rightarrow> s32 io" where
  "e1000e_get_bus_info_pcie set_lan_id = do {
     h \<leftarrow> get;
     let cap_offset = dev_pci_capability (dev h);
     (if cap_offset = 0 then set_bus (\<lambda>b. b\<lparr>bus_width := 0\<rparr>)
      else do {
        pcie_link_status \<leftarrow> pci_read_config_word (ucast (cap_offset + PCIE_LINK_STATUS));
        set_bus (\<lambda>b. b\<lparr>bus_width :=
          drop_bit PCIE_LINK_WIDTH_SHIFT (pcie_link_status AND PCIE_LINK_WIDTH_MASK)\<rparr>) });
     set_lan_id;
     return 0 }"

definition e1000_set_lan_id_multi_port_pcie :: "unit io" where
  "e1000_set_lan_id_multi_port_pcie = do {
     reg \<leftarrow> er32 E1000_STATUS;
     set_bus (\<lambda>b. b\<lparr>bus_func :=
       ucast (drop_bit E1000_STATUS_FUNC_SHIFT (reg AND E1000_STATUS_FUNC_MASK))\<rparr>) }"

definition e1000_set_lan_id_single_port :: "unit io" where
  "e1000_set_lan_id_single_port = set_bus (\<lambda>b. b\<lparr>bus_func := 0\<rparr>)"

section \<open>Filter tables and receive addresses\<close>

fun clear_vfta_loop :: "nat \<Rightarrow> nat \<Rightarrow> unit io" where
  "clear_vfta_loop offset 0 = return ()"
| "clear_vfta_loop offset (Suc n) = do {
     E1000_WRITE_REG_ARRAY E1000_VFTA (of_nat offset) 0;
     e1e_flush;
     clear_vfta_loop (Suc offset) n }"

definition e1000_clear_vfta_generic :: "unit io" where
  "e1000_clear_vfta_generic = clear_vfta_loop 0 E1000_VLAN_FILTER_TBL_SIZE"

definition e1000_write_vfta_generic :: "u32 \<Rightarrow> u32 \<Rightarrow> unit io" where
  "e1000_write_vfta_generic offset value = do {
     E1000_WRITE_REG_ARRAY E1000_VFTA offset value;
     e1e_flush }"

fun clear_rar_loop :: "(u8 list \<Rightarrow> u32 \<Rightarrow> s32 io) \<Rightarrow> nat \<Rightarrow> nat \<Rightarrow> unit io" where
  "clear_rar_loop rar_set i 0 = return ()"
| "clear_rar_loop rar_set i (Suc n) = do {
     _ \<leftarrow> rar_set (replicate ETH_ALEN 0) (of_nat i);
     clear_rar_loop rar_set (Suc i) n }"

definition e1000e_init_rx_addrs :: "(u8 list \<Rightarrow> u32 \<Rightarrow> s32 io) \<Rightarrow> u16 \<Rightarrow> unit io" where
  "e1000e_init_rx_addrs rar_set rar_count = do {
     h \<leftarrow> get;
     _ \<leftarrow> rar_set (mac_addr (mac h)) 0;
     clear_rar_loop rar_set 1 (unat rar_count - 1) }"

text \<open>The three words of the alternate address, low byte first.\<close>

fun read_alt_mac_loop ::
  "'x nvm_access_ops_scheme \<Rightarrow> u16 \<Rightarrow> nat \<Rightarrow> nat \<Rightarrow> u8 list \<Rightarrow> (s32 \<times> u8 list) io" where
  "read_alt_mac_loop ops base i 0 addr = return (0, addr)"
| "read_alt_mac_loop ops base i (Suc n) addr = do {
     (ret_val, nvm_data) \<leftarrow> read_nvm_word ops (base + of_nat (i div 2));
     if ret_val \<noteq> 0 then return (ret_val, addr)
     else read_alt_mac_loop ops base (i + 2) n
       (addr @ [ucast (nvm_data AND 0xFF), ucast (drop_bit 8 nvm_data)]) }"

definition is_multicast_ether_addr :: "u8 list \<Rightarrow> bool" where
  "is_multicast_ether_addr addr \<longleftrightarrow> bit (addr ! 0) 0"

definition e1000_check_alt_mac_addr_generic ::
  "'x nvm_access_ops_scheme \<Rightarrow> (u8 list \<Rightarrow> u32 \<Rightarrow> s32 io) \<Rightarrow> s32 io" where
  "e1000_check_alt_mac_addr_generic ops rar_set = do {
     (ret_val, nvm_data) \<leftarrow> read_nvm_word ops NVM_COMPAT;
     h \<leftarrow> get;
     if ret_val \<noteq> 0 then return ret_val
     else if mac_type (mac h) = e1000_82573 then return 0
     else do {
       (ret_val, alt_offset) \<leftarrow> read_nvm_word ops NVM_ALT_MAC_ADDR_PTR;
       if ret_val \<noteq> 0 then return ret_val
       else if alt_offset = 0xFFFF \<or> alt_offset = 0 then return 0
       else do {
         let alt_offset = (if bus_func (bus h) = E1000_FUNC_1
           then alt_offset + E1000_ALT_MAC_ADDRESS_OFFSET_LAN1 else alt_offset);
         (ret_val, addr) \<leftarrow> read_alt_mac_loop ops alt_offset 0 3 [];
         if ret_val \<noteq> 0 then return ret_val
         else if is_multicast_ether_addr addr then return 0
         else do { _ \<leftarrow> rar_set addr 0; return 0 } } } }"

definition e1000e_rar_get_count_generic :: "u32 io" where
  "e1000e_rar_get_count_generic = do { h \<leftarrow> get; return (ucast (rar_entry_count (mac h))) }"

definition rar_low_of :: "u8 list \<Rightarrow> u32" where
  "rar_low_of addr = ucast (addr ! 0) OR push_bit 8 (ucast (addr ! 1)) OR
     push_bit 16 (ucast (addr ! 2)) OR push_bit 24 (ucast (addr ! 3))"

definition rar_high_of :: "u8 list \<Rightarrow> u32" where
  "rar_high_of addr = ucast (addr ! 4) OR push_bit 8 (ucast (addr ! 5))"

definition e1000e_rar_set_generic :: "u8 list \<Rightarrow> u32 \<Rightarrow> s32 io" where
  "e1000e_rar_set_generic addr index = do {
     let rar_low = rar_low_of addr;
     let rar_high = rar_high_of addr;
     let rar_high = (if rar_low \<noteq> 0 \<or> rar_high \<noteq> 0 then rar_high OR E1000_RAH_AV else rar_high);
     ew32 (E1000_RAL index) rar_low;
     e1e_flush;
     ew32 (E1000_RAH index) rar_high;
     e1e_flush;
     return 0 }"

section \<open>Multicast hash\<close>

text \<open>
  The search for the shift has no bound in the source: it ends only when some shift below 32
  leaves exactly eight bits of the mask, and \<open>None\<close> stands for a search that does not.
\<close>

definition hash_bit_shift :: "u32 \<Rightarrow> nat option" where
  "hash_bit_shift hash_mask = List.find (\<lambda>s. drop_bit s hash_mask = 0xFF) [0 ..< 32]"

definition filter_shift :: "u32 \<Rightarrow> nat" where
  "filter_shift ty =
     (if ty = 1 then 1 else if ty = 2 then 2
      else if ty = 3 then 4 else 0)"

definition e1000_hash_mc_addr :: "mac_info \<Rightarrow> u8 list \<Rightarrow> u32 option" where
  "e1000_hash_mc_addr m mc_addr =
     (let hash_mask = ucast (mta_reg_count m) * 32 - 1 in
      case hash_bit_shift hash_mask of
        None \<Rightarrow> None
      | Some s \<Rightarrow> (let bit_shift = s + filter_shift (mc_filter_type m) in
          Some (hash_mask AND
            (ucast (drop_bit (8 - bit_shift) (mc_addr ! 4)) OR
             push_bit bit_shift (ucast (mc_addr ! 5))))))"

text \<open>Where the bit of a hash value lies: register and bit in it.\<close>

definition mta_reg :: "mac_info \<Rightarrow> u32 \<Rightarrow> nat" where
  "mta_reg m hash_value = unat (drop_bit 5 hash_value AND (ucast (mta_reg_count m) - 1))"

definition mta_bit :: "u32 \<Rightarrow> nat" where
  "mta_bit hash_value = unat (hash_value AND 0x1F)"

fun mta_shadow_loop :: "mac_info \<Rightarrow> nat \<Rightarrow> u8 list \<Rightarrow> u32 list \<Rightarrow> u32 list option" where
  "mta_shadow_loop m 0 mc_addr_list shadow = Some shadow"
| "mta_shadow_loop m (Suc n) mc_addr_list shadow =
     (case e1000_hash_mc_addr m mc_addr_list of
        None \<Rightarrow> None
      | Some hash_value \<Rightarrow>
          (let r = mta_reg m hash_value in
           mta_shadow_loop m n (drop ETH_ALEN mc_addr_list)
             (shadow[r := shadow ! r OR push_bit (mta_bit hash_value) 1])))"

fun write_mta_loop :: "nat \<Rightarrow> u32 list \<Rightarrow> unit io" where
  "write_mta_loop 0 shadow = return ()"
| "write_mta_loop (Suc i) shadow = do {
     E1000_WRITE_REG_ARRAY E1000_MTA (of_nat i) (shadow ! i);
     write_mta_loop i shadow }"

text \<open>The value is \<open>None\<close> where the source does not return.\<close>

definition e1000e_update_mc_addr_list_generic :: "u8 list \<Rightarrow> u32 \<Rightarrow> unit option io" where
  "e1000e_update_mc_addr_list_generic mc_addr_list mc_addr_count = do {
     h \<leftarrow> get;
     let cleared = map (\<lambda>_. 0) (mta_shadow (mac h));
     case mta_shadow_loop (mac h) (unat mc_addr_count) mc_addr_list cleared of
       None \<Rightarrow> return None
     | Some shadow \<Rightarrow> do {
         set_mac (\<lambda>m. m\<lparr>mta_shadow := shadow\<rparr>);
         write_mta_loop (unat (mta_reg_count (mac h))) shadow;
         e1e_flush;
         return (Some ()) } }"

section \<open>Statistics\<close>

text \<open>Reading a counter clears it; the values are thrown away.\<close>

definition base_counters :: "u32 list" where
  "base_counters =
     [E1000_CRCERRS, E1000_SYMERRS, E1000_MPC, E1000_SCC, E1000_ECOL, E1000_MCC, E1000_LATECOL,
      E1000_COLC, E1000_DC, E1000_SEC, E1000_RLEC, E1000_XONRXC, E1000_XONTXC, E1000_XOFFRXC,
      E1000_XOFFTXC, E1000_FCRUC, E1000_GPRC, E1000_BPRC, E1000_MPRC, E1000_GPTC, E1000_GORCL,
      E1000_GORCH, E1000_GOTCL, E1000_GOTCH, E1000_RNBC, E1000_RUC, E1000_RFC, E1000_ROC,
      E1000_RJC, E1000_TORL, E1000_TORH, E1000_TOTL, E1000_TOTH, E1000_TPR, E1000_TPT,
      E1000_MPTC, E1000_BPTC]"

fun read_counters :: "u32 list \<Rightarrow> unit io" where
  "read_counters [] = return ()"
| "read_counters (r # rs) = do { _ \<leftarrow> er32 r; read_counters rs }"

definition e1000e_clear_hw_cntrs_base :: "unit io" where
  "e1000e_clear_hw_cntrs_base = read_counters base_counters"

section \<open>Hardware semaphore\<close>

definition e1000e_put_hw_semaphore :: "unit io" where
  "e1000e_put_hw_semaphore = do {
     swsm \<leftarrow> er32 E1000_SWSM;
     ew32 E1000_SWSM (swsm AND NOT (E1000_SWSM_SMBI OR E1000_SWSM_SWESMBI)) }"

definition e1000e_get_hw_semaphore :: "s32 io" where
  "e1000e_get_hw_semaphore = do {
     h \<leftarrow> get;
     let timeout = unat (word_size (nvm h)) + 1;
     smbi \<leftarrow> poll timeout (er32 E1000_SWSM) (\<lambda>swsm. swsm AND E1000_SWSM_SMBI = 0)
       (usleep_range 50 100);
     case smbi of
       None \<Rightarrow> return (- E1000_ERR_NVM)
     | Some _ \<Rightarrow> do {
         swesmbi \<leftarrow> poll timeout
           (do { swsm \<leftarrow> er32 E1000_SWSM;
                 ew32 E1000_SWSM (swsm OR E1000_SWSM_SWESMBI);
                 er32 E1000_SWSM })
           (\<lambda>swsm. swsm AND E1000_SWSM_SWESMBI \<noteq> 0) (usleep_range 50 100);
         case swesmbi of
           None \<Rightarrow> do { e1000e_put_hw_semaphore; return (- E1000_ERR_NVM) }
         | Some _ \<Rightarrow> return 0 } }"

definition e1000e_get_auto_rd_done :: "s32 io" where
  "e1000e_get_auto_rd_done = do {
     auto_rd \<leftarrow> poll AUTO_READ_DONE_TIMEOUT (er32 E1000_EECD)
       (\<lambda>eecd. eecd AND E1000_EECD_AUTO_RD \<noteq> 0) (usleep_range 1000 2000);
     return (case auto_rd of None \<Rightarrow> - E1000_ERR_RESET | Some _ \<Rightarrow> 0) }"

section \<open>LEDs\<close>

definition e1000e_valid_led_default :: "'x nvm_access_ops_scheme \<Rightarrow> (s32 \<times> u16) io" where
  "e1000e_valid_led_default ops = do {
     (ret_val, data) \<leftarrow> read_nvm_word ops NVM_ID_LED_SETTINGS;
     if ret_val \<noteq> 0 then return (ret_val, data)
     else if data = ID_LED_RESERVED_0000 \<or> data = ID_LED_RESERVED_FFFF
     then return (0, ID_LED_DEFAULT)
     else return (0, data) }"

text \<open>The field of LED \<open>i\<close> in a control value, replaced by \<open>m\<close>.\<close>

definition set_led_mode :: "nat \<Rightarrow> u32 \<Rightarrow> u32 \<Rightarrow> u32" where
  "set_led_mode i m v = (v AND NOT (push_bit (8 * i) 0xFF)) OR push_bit (8 * i) m"

definition led_mode1 :: "u16 \<Rightarrow> u32 option" where
  "led_mode1 temp =
     (if temp = ID_LED_ON1_DEF2 \<or> temp = ID_LED_ON1_ON2 \<or> temp = ID_LED_ON1_OFF2
      then Some E1000_LEDCTL_MODE_LED_ON
      else if temp = ID_LED_OFF1_DEF2 \<or> temp = ID_LED_OFF1_ON2 \<or> temp = ID_LED_OFF1_OFF2
      then Some E1000_LEDCTL_MODE_LED_OFF else None)"

definition led_mode2 :: "u16 \<Rightarrow> u32 option" where
  "led_mode2 temp =
     (if temp = ID_LED_DEF1_ON2 \<or> temp = ID_LED_ON1_ON2 \<or> temp = ID_LED_OFF1_ON2
      then Some E1000_LEDCTL_MODE_LED_ON
      else if temp = ID_LED_DEF1_OFF2 \<or> temp = ID_LED_ON1_OFF2 \<or> temp = ID_LED_OFF1_OFF2
      then Some E1000_LEDCTL_MODE_LED_OFF else None)"

definition led_nibble :: "u16 \<Rightarrow> nat \<Rightarrow> u16" where
  "led_nibble data i = drop_bit (4 * i) data AND 0x0F"

definition led_init_step :: "(u16 \<Rightarrow> u32 option) \<Rightarrow> u16 \<Rightarrow> u32 \<Rightarrow> nat \<Rightarrow> u32" where
  "led_init_step mode data v i =
     (case mode (led_nibble data i) of None \<Rightarrow> v | Some m \<Rightarrow> set_led_mode i m v)"

definition e1000e_id_led_init_generic :: "(s32 \<times> u16) io \<Rightarrow> s32 io" where
  "e1000e_id_led_init_generic valid_led_default = do {
     (ret_val, data) \<leftarrow> valid_led_default;
     if ret_val \<noteq> 0 then return ret_val
     else do {
       ledctl \<leftarrow> er32 E1000_LEDCTL;
       set_mac (\<lambda>m. m\<lparr>ledctl_default := ledctl,
         ledctl_mode1 := foldl (led_init_step led_mode1 data) ledctl [0 ..< 4],
         ledctl_mode2 := foldl (led_init_step led_mode2 data) ledctl [0 ..< 4]\<rparr>);
       return 0 } }"

text \<open>The argument says whether the pointer \<open>setup_led\<close> of the MAC is this function.\<close>

definition e1000e_setup_led_generic :: "bool \<Rightarrow> s32 io" where
  "e1000e_setup_led_generic is_setup_led = do {
     h \<leftarrow> get;
     if \<not> is_setup_led then return (- E1000_ERR_CONFIG)
     else do {
       (if media_type (phy h) = e1000_media_type_fiber
        then do {
          ledctl \<leftarrow> er32 E1000_LEDCTL;
          set_mac (\<lambda>m. m\<lparr>ledctl_default := ledctl\<rparr>);
          ew32 E1000_LEDCTL
            ((ledctl AND NOT (E1000_LEDCTL_LED0_IVRT OR E1000_LEDCTL_LED0_BLINK OR
                E1000_LEDCTL_LED0_MODE_MASK)) OR
             push_bit E1000_LEDCTL_LED0_MODE_SHIFT E1000_LEDCTL_MODE_LED_OFF) }
        else if media_type (phy h) = e1000_media_type_copper
        then ew32 E1000_LEDCTL (ledctl_mode1 (mac h))
        else return ());
       return 0 } }"

definition e1000e_cleanup_led_generic :: "s32 io" where
  "e1000e_cleanup_led_generic = do {
     h \<leftarrow> get;
     ew32 E1000_LEDCTL (ledctl_default (mac h));
     return 0 }"

definition blink_step :: "mac_info \<Rightarrow> u32 \<Rightarrow> nat \<Rightarrow> u32" where
  "blink_step m ledctl_blink i =
     (let mode = drop_bit (8 * i) (ledctl_mode2 m) AND E1000_LEDCTL_LED0_MODE_MASK;
          led_default = drop_bit (8 * i) (ledctl_default m) in
      if led_default AND E1000_LEDCTL_LED0_IVRT = 0 \<and> mode = E1000_LEDCTL_MODE_LED_ON \<or>
         led_default AND E1000_LEDCTL_LED0_IVRT \<noteq> 0 \<and> mode = E1000_LEDCTL_MODE_LED_OFF
      then (ledctl_blink AND NOT (push_bit (8 * i) E1000_LEDCTL_LED0_MODE_MASK)) OR
           push_bit (8 * i) (E1000_LEDCTL_LED0_BLINK OR E1000_LEDCTL_MODE_LED_ON)
      else ledctl_blink)"

definition e1000e_blink_led_generic :: "s32 io" where
  "e1000e_blink_led_generic = do {
     h \<leftarrow> get;
     let ledctl_blink =
       (if media_type (phy h) = e1000_media_type_fiber
        then E1000_LEDCTL_LED0_BLINK OR push_bit E1000_LEDCTL_LED0_MODE_SHIFT E1000_LEDCTL_MODE_LED_ON
        else foldl (blink_step (mac h)) (ledctl_mode2 (mac h)) [0 ..< 4]);
     ew32 E1000_LEDCTL ledctl_blink;
     return 0 }"

definition e1000e_led_on_generic :: "s32 io" where
  "e1000e_led_on_generic = do {
     h \<leftarrow> get;
     (case media_type (phy h) of
        e1000_media_type_fiber \<Rightarrow> do {
          ctrl \<leftarrow> er32 E1000_CTRL;
          ew32 E1000_CTRL ((ctrl AND NOT E1000_CTRL_SWDPIN0) OR E1000_CTRL_SWDPIO0) }
      | e1000_media_type_copper \<Rightarrow> ew32 E1000_LEDCTL (ledctl_mode2 (mac h))
      | _ \<Rightarrow> return ());
     return 0 }"

definition e1000e_led_off_generic :: "s32 io" where
  "e1000e_led_off_generic = do {
     h \<leftarrow> get;
     (case media_type (phy h) of
        e1000_media_type_fiber \<Rightarrow> do {
          ctrl \<leftarrow> er32 E1000_CTRL;
          ew32 E1000_CTRL ((ctrl OR E1000_CTRL_SWDPIN0) OR E1000_CTRL_SWDPIO0) }
      | e1000_media_type_copper \<Rightarrow> ew32 E1000_LEDCTL (ledctl_mode1 (mac h))
      | _ \<Rightarrow> return ());
     return 0 }"

section \<open>PCIe\<close>

definition e1000e_set_pcie_no_snoop :: "u32 \<Rightarrow> unit io" where
  "e1000e_set_pcie_no_snoop no_snoop =
     (if no_snoop \<noteq> 0
      then do {
        gcr \<leftarrow> er32 E1000_GCR;
        ew32 E1000_GCR ((gcr AND NOT PCIE_NO_SNOOP_ALL) OR no_snoop) }
      else return ())"

definition e1000e_disable_pcie_master :: "s32 io" where
  "e1000e_disable_pcie_master = do {
     ctrl \<leftarrow> er32 E1000_CTRL;
     ew32 E1000_CTRL (ctrl OR E1000_CTRL_GIO_MASTER_DISABLE);
     quiesced \<leftarrow> poll MASTER_DISABLE_TIMEOUT (er32 E1000_STATUS)
       (\<lambda>status. status AND E1000_STATUS_GIO_MASTER_ENABLE = 0) (usleep_range 100 200);
     return (case quiesced of None \<Rightarrow> - E1000_ERR_MASTER_REQUESTS_PENDING | Some _ \<Rightarrow> 0) }"

section \<open>Adaptive inter-frame spacing\<close>

definition e1000e_reset_adaptive :: "unit io" where
  "e1000e_reset_adaptive = do {
     h \<leftarrow> get;
     if \<not> adaptive_ifs (mac h) then return ()
     else do {
       set_mac (\<lambda>m. m\<lparr>current_ifs_val := 0, ifs_min_val := IFS_MIN, ifs_max_val := IFS_MAX,
         ifs_step_size := IFS_STEP, ifs_ratio := IFS_RATIO, in_ifs_mode := False\<rparr>);
       ew32 E1000_AIT 0 } }"

definition e1000e_update_adaptive :: "unit io" where
  "e1000e_update_adaptive = do {
     h \<leftarrow> get;
     let m = mac h;
     if \<not> adaptive_ifs m then return ()
     else if collision_delta m * ucast (ifs_ratio m) > tx_packet_delta m
     then (if tx_packet_delta m > MIN_NUM_XMITS
           then do {
             set_mac (\<lambda>m. m\<lparr>in_ifs_mode := True\<rparr>);
             (if current_ifs_val m < ifs_max_val m
              then do {
                let v = (if current_ifs_val m = 0 then ifs_min_val m
                         else current_ifs_val m + ifs_step_size m);
                set_mac (\<lambda>m. m\<lparr>current_ifs_val := v\<rparr>);
                ew32 E1000_AIT (ucast v) }
              else return ()) }
           else return ())
     else (if in_ifs_mode m \<and> tx_packet_delta m \<le> MIN_NUM_XMITS
           then do {
             set_mac (\<lambda>m. m\<lparr>current_ifs_val := 0, in_ifs_mode := False\<rparr>);
             ew32 E1000_AIT 0 }
           else return ()) }"

section \<open>MDI settings\<close>

definition e1000e_validate_mdi_setting_generic :: "s32 io" where
  "e1000e_validate_mdi_setting_generic = do {
     h \<leftarrow> get;
     if \<not> autoneg (mac h) \<and> (mdix (phy h) = 0 \<or> mdix (phy h) = 3)
     then do {
       set_phy (\<lambda>p. p\<lparr>mdix := 1\<rparr>);
       return (- E1000_ERR_CONFIG) }
     else return 0 }"

definition e1000e_validate_mdi_setting_crossover_generic :: "s32 io" where
  "e1000e_validate_mdi_setting_crossover_generic = return 0"

section \<open>Receive addresses\<close>

lemma ra_addr: "E1000_RAL 0 = 0x05400" "E1000_RAH 0 = 0x05404"
  by (simp_all add: E1000_RAL_def E1000_RAH_def)

lemma rar_bytes:
  fixes addr :: "u8 list"
  assumes "length addr = 6" and "v = 0 \<or> v = E1000_RAH_AV"
  shows "map (\<lambda>i. ucast (drop_bit (i * 8) (rar_low_of addr))) [0 ..< 4] @
      map (\<lambda>i. ucast (drop_bit (i * 8) (rar_high_of addr OR v))) [0 ..< 2] = addr"
proof -
  have "\<exists>a b c d e f. addr = [a, b, c, d, e, f]"
    using assms(1) by (auto simp: numeral_eq_Suc length_Suc_conv)
  then obtain a b c d e f where addr: "addr = [a, b, c, d, e, f]" by blast
  have v: "\<not> bit v n" if "n < 16" for n
    using assms(2) that single_bit [of 31 n, where 'a = 32] by auto
  show ?thesis
    by (auto simp: addr rar_low_of_def rar_high_of_def upt_rec intro!: bit_word_eqI)
      (auto simp: bit_simps byte_bit_high v)
qed


text \<open>
  C31: an address stored in receive address register 0 is read back by
  \<open>e1000_read_mac_addr_generic\<close> byte for byte.
\<close>

theorem rar_round_trip:
  assumes "length addr = 6" and "storage_reg (dev h) (E1000_RAL 0)" and "storage_reg (dev h) (E1000_RAH 0)"
  shows "let h1 = snd (run_state (e1000e_rar_set_generic addr 0) h);
      h2 = snd (run_state e1000_read_mac_addr_generic h1)
    in mac_addr (mac h2) = addr \<and> perm_addr (mac h2) = addr"
proof -
  let ?hi = "if rar_low_of addr \<noteq> 0 \<or> rar_high_of addr \<noteq> 0 then rar_high_of addr OR E1000_RAH_AV else rar_high_of addr"
  let ?h1 = "snd (run_state (e1000e_rar_set_generic addr 0) h)"
  have ne: "E1000_RAL 0 \<noteq> E1000_RAH 0" by (simp add: ra_addr)
  have lo: "storage_reg (dev g) (E1000_RAL 0)" "storage_reg (dev g) (E1000_RAH 0)" if "dev g = dev h" for g
    using assms(2,3) that by simp_all
  have rd: "rdv (E1000_RAH 0) ?h1 = ?hi" "rdv (E1000_RAL 0) (rd (E1000_RAH 0) ?h1) = rar_low_of addr"
    using ne by (simp_all add: e1000e_rar_set_generic_def Let_def storage_reg_simps lo)
  have "map (\<lambda>i. ucast (drop_bit (i * 8) (rar_low_of addr))) [0 ..< 4] @
      map (\<lambda>i. ucast (drop_bit (i * 8) ?hi)) [0 ..< 2] = addr"
    using rar_bytes [OF assms(1), of 0] rar_bytes [OF assms(1), of E1000_RAH_AV] by auto
  then show ?thesis
    using assms(1) by (simp add: Let_def e1000_read_mac_addr_generic_def rd)
qed

theorem rar_round_trip_witness:
  "let h1 = snd (run_state (e1000e_rar_set_generic [0, 0x1B, 0x21, 7, 8, 9] 0) (sample_hw (ram_device (\<lambda>r. 0))));
      h2 = snd (run_state e1000_read_mac_addr_generic h1)
    in mac_addr (mac h2) = [0, 0x1B, 0x21, 7, 8, 9]"
  using rar_round_trip [of "[0, 0x1B, 0x21, 7, 8, 9]" "sample_hw (ram_device (\<lambda>r. 0))"]
  by (simp add: Let_def ram_device_storage)

section \<open>Multicast\<close>

lemma hash_shift_values:
  "hash_bit_shift 0x3FF = Some 2" "hash_bit_shift 0xFFF = Some 4"
  by (simp_all add: hash_bit_shift_def upt_rec)

text \<open>The table sizes the driver uses.\<close>

definition mta_sized :: "mac_info \<Rightarrow> bool" where
  "mta_sized m \<longleftrightarrow> (mta_reg_count m = 32 \<or> mta_reg_count m = 128) \<and> length (mta_shadow m) = 128"

lemma hash_total:
  assumes "mta_sized m"
  obtains v where "e1000_hash_mc_addr m a = Some v"
  using assms by (auto simp: mta_sized_def e1000_hash_mc_addr_def hash_shift_values Let_def)

lemma mta_reg_bound:
  assumes "mta_sized m"
  shows "mta_reg m v < unat (mta_reg_count m)" "unat (mta_reg_count m) \<le> 128"
proof -
  have "unat (x AND 31 :: u32) < 32" "unat (x AND 127 :: u32) < 128" for x
    using word_and_le2 [of 31 x] word_and_le2 [of 127 x] word_and_le1 [of 31 x] word_and_le1 [of 127 x]
    by (simp_all add: word_le_nat_alt and.commute)
  then show "mta_reg m v < unat (mta_reg_count m)" "unat (mta_reg_count m) \<le> 128"
    using assms by (auto simp: mta_sized_def mta_reg_def)
qed

lemma mta_bit_bound: "mta_bit v < 32"
  using word_and_le1 [of 31 v] word_and_le2 [of 31 v] by (simp add: mta_bit_def word_le_nat_alt and.commute)

text \<open>Address \<open>i\<close> of a list of addresses, and does it hash to bit \<open>b\<close> of register \<open>r\<close>?\<close>

definition hashes_to :: "mac_info \<Rightarrow> u8 list \<Rightarrow> nat \<Rightarrow> nat \<Rightarrow> nat \<Rightarrow> bool" where
  "hashes_to m addrs i r b \<longleftrightarrow>
     (\<exists>v. e1000_hash_mc_addr m (drop (6 * i) addrs) = Some v \<and> mta_reg m v = r \<and> mta_bit v = b)"

lemma shadow_loop:
  assumes "mta_sized m" and "length shadow = 128"
  shows "\<exists>shadow'. mta_shadow_loop m n addrs shadow = Some shadow' \<and> length shadow' = 128 \<and>
    (\<forall>r < 128. \<forall>b < 32. bit (shadow' ! r) b \<longleftrightarrow> bit (shadow ! r) b \<or> (\<exists>i < n. hashes_to m addrs i r b))"
  using assms(2)
proof (induction n arbitrary: addrs shadow)
  case (Suc n)
  obtain v where v: "e1000_hash_mc_addr m addrs = Some v" by (rule hash_total [OF assms(1)])
  let ?r = "mta_reg m v"
  let ?s = "shadow[?r := shadow ! ?r OR push_bit (mta_bit v) 1]"
  have r: "?r < 128" using mta_reg_bound [OF assms(1)] by (meson less_le_trans)
  have "length ?s = 128" using Suc.prems by simp
  from Suc.IH [OF this, of "drop 6 addrs"] obtain s' where s':
    "mta_shadow_loop m n (drop 6 addrs) ?s = Some s'" "length s' = 128"
    "\<And>r b. r < 128 \<Longrightarrow> b < 32 \<Longrightarrow>
      bit (s' ! r) b \<longleftrightarrow> bit (?s ! r) b \<or> (\<exists>i < n. hashes_to m (drop 6 addrs) i r b)"
    by blast
  have here: "bit (?s ! r') b \<longleftrightarrow> bit (shadow ! r') b \<or> hashes_to m addrs 0 r' b" if "r' < 128" "b < 32" for r' b
    using Suc.prems that single_bit [where 'a = 32 and k = "mta_bit v" and n = b] mta_bit_bound [of v]
    by (cases "?r = r'") (use r in \<open>auto simp: hashes_to_def v bit_or_iff simp del: push_bit_of_1\<close>)
  have later: "hashes_to m (drop 6 addrs) i r' b = hashes_to m addrs (Suc i) r' b" for i r' b
    by (simp add: hashes_to_def add.commute)
  have "bit (s' ! r') b \<longleftrightarrow> bit (shadow ! r') b \<or> (\<exists>i < Suc n. hashes_to m addrs i r' b)"
    if "r' < 128" "b < 32" for r' b
    unfolding s'(3) [OF that] here [OF that] later by (auto simp: less_Suc_eq_0_disj)
  with s' v show ?case by (auto simp: Let_def)
qed auto

lemma mta_addr_eq:
  "i < 128 \<Longrightarrow> j < 128 \<Longrightarrow>
    (E1000_MTA + push_bit 2 (of_nat i) = (E1000_MTA + push_bit 2 (of_nat j) :: u32)) = (i = j)"
  by (simp add: push_bit_eq_mult word_unat_eq_iff unat_word_ariths unat_of_nat)

lemma wp_write_mta:
  assumes "n \<le> 128"
  shows "wp (write_mta_loop n shadow) (\<lambda>_ h'. \<forall>i < 128.
      last_write (trace h') (E1000_MTA + push_bit 2 (of_nat i)) =
        (if i < n then Some (shadow ! i) else last_write (trace h) (E1000_MTA + push_bit 2 (of_nat i)))) h"
  using assms
proof (induction n arbitrary: h)
  case (Suc n)
  have "wp (E1000_WRITE_REG_ARRAY E1000_MTA (of_nat n) (shadow ! n)) (\<lambda>_.
      wp (write_mta_loop n shadow) (\<lambda>_ h'. \<forall>i < 128.
        last_write (trace h') (E1000_MTA + push_bit 2 (of_nat i)) =
          (if i < Suc n then Some (shadow ! i) else last_write (trace h) (E1000_MTA + push_bit 2 (of_nat i))))) h"
    unfolding E1000_WRITE_REG_ARRAY_def wp
  proof (rule wp_mono [OF Suc.IH])
    fix s' i
    assume ih: "\<forall>i < 128. last_write (trace s') (E1000_MTA + push_bit 2 (of_nat i)) =
      (if i < n then Some (shadow ! i)
       else last_write (trace (wr (E1000_MTA + push_bit 2 (of_nat n)) (shadow ! n) h))
         (E1000_MTA + push_bit 2 (of_nat i)))"
    have "E1000_MTA + push_bit 2 (of_nat n) \<noteq> (E1000_MTA + push_bit 2 (of_nat i) :: u32)" if "i \<noteq> n" "i < 128" for i
      using mta_addr_eq [of n i] that Suc.prems by simp
    with ih show "\<forall>i < 128. last_write (trace s') (E1000_MTA + push_bit 2 (of_nat i)) =
      (if i < Suc n then Some (shadow ! i) else last_write (trace h) (E1000_MTA + push_bit 2 (of_nat i)))"
      by (auto simp: less_Suc_eq)
  qed (use Suc.prems in simp)
  then show ?case by (simp add: wp)
qed (simp add: wp)



text \<open>
  The twelve (or ten, on parts with 32 registers) address bits that each filter type selects,
  as a shift of the sixteen bits of the last two bytes.
\<close>

definition filter_low_bit :: "u32 \<Rightarrow> nat" where
  "filter_low_bit ty = (if ty = 1 then 3 else if ty = 2 then 2 else if ty = 3 then 0 else 4)"

lemma shifted_pair:
  fixes a b :: u8
  assumes "s + k = 8"
  shows "ucast (drop_bit (8 - s) a) OR push_bit s (ucast b) =
    (drop_bit k (ucast a OR push_bit 8 (ucast b)) :: u32)"
proof (rule bit_word_eqI)
  fix n assume n: "n < LENGTH(32)"
  have k: "k \<le> 8" "s = 8 - k" "8 - (8 - k) = k" using assms by auto
  have e: "8 - k \<le> n \<longleftrightarrow> 8 \<le> k + n" "n - (8 - k) = k + n - 8" using k(1) by auto
  have "k + n < 16" if "bit b (k + n - 8)"
    using that byte_bit_high [of "k + n - 8" b] by linarith
  then show "bit (ucast (drop_bit (8 - s) a) OR push_bit s (ucast b) :: u32) n =
    bit (drop_bit k (ucast a OR push_bit 8 (ucast b)) :: u32) n"
    unfolding k using n byte_bit_high [of "k + n" a] by (auto simp: bit_simps e)
qed

lemma filter_bits:
  "4 + filter_shift ty + filter_low_bit ty = 8" "2 + filter_shift ty + (filter_low_bit ty + 2) = 8"
  by (simp_all add: filter_shift_def filter_low_bit_def)

text \<open>
  The hash of an address is the field of the last sixteen address bits that the filter
  type selects, with 128 and with 32 table registers.
\<close>

theorem hash_mc_addr_bits:
  "e1000_hash_mc_addr (m\<lparr>mta_reg_count := 128\<rparr>) a =
     Some (drop_bit (filter_low_bit (mc_filter_type m)) (ucast (a ! 4) OR push_bit 8 (ucast (a ! 5))) AND 0xFFF) \<and>
   e1000_hash_mc_addr (m\<lparr>mta_reg_count := 32\<rparr>) a =
     Some (drop_bit (filter_low_bit (mc_filter_type m) + 2) (ucast (a ! 4) OR push_bit 8 (ucast (a ! 5))) AND 0x3FF)"
  unfolding shifted_pair [OF filter_bits(1), symmetric] shifted_pair [OF filter_bits(2), symmetric]
  by (simp add: e1000_hash_mc_addr_def hash_shift_values Let_def and.commute)

lemma hash_comment_example:
  "map (\<lambda>ty. e1000_hash_mc_addr (sample_mac\<lparr>mta_reg_count := 128, mc_filter_type := ty\<rparr>)
      [0x01, 0xAA, 0x00, 0x12, 0x34, 0x56]) [0, 1, 2, 3] =
    [Some 0x563, Some 0xAC6, Some 0x58D, Some 0x634]"
  by (simp add: e1000_hash_mc_addr_def hash_bit_shift_def upt_rec filter_shift_def Let_def)

section \<open>Adaptive inter-frame spacing\<close>

text \<open>
  What happens to the state between two calls: the counters are refreshed with anything the
  device counted, and other registers are written.
\<close>

inductive ifs_step :: "hw \<Rightarrow> hw \<Rightarrow> bool" where
  stats: "ifs_step h (h\<lparr>mac := (mac h)\<lparr>collision_delta := c, tx_packet_delta := t\<rparr>\<rparr>)"
| access: "\<forall>v. e \<noteq> WriteL E1000_AIT v \<Longrightarrow> ifs_step h (log_event e h)"
| update: "ifs_step h (snd (run_state e1000e_update_adaptive h))"
| reset: "ifs_step h (snd (run_state e1000e_reset_adaptive h))"

inductive ifs_reachable :: "hw \<Rightarrow> hw \<Rightarrow> bool" for h0 where
  start: "ifs_reachable h0 (snd (run_state e1000e_reset_adaptive h0))"
| step: "ifs_reachable h0 h \<Longrightarrow> ifs_step h h' \<Longrightarrow> ifs_reachable h0 h'"

definition ifs_inv :: "hw \<Rightarrow> bool" where
  "ifs_inv h \<longleftrightarrow> adaptive_ifs (mac h) \<and>
     current_ifs_val (mac h) \<in> {0, 40, 50, 60, 70, 80} \<and>
     (\<not> in_ifs_mode (mac h) \<longrightarrow> current_ifs_val (mac h) = 0) \<and>
     last_write (trace h) E1000_AIT = Some (ucast (current_ifs_val (mac h))) \<and>
     ifs_min_val (mac h) = 40 \<and> ifs_max_val (mac h) = 80 \<and> ifs_step_size (mac h) = 10 \<and>
     ifs_ratio (mac h) = 4"

lemma ifs_inv_update: "ifs_inv h \<Longrightarrow> ifs_inv (snd (run_state e1000e_update_adaptive h))"
  by (auto simp: ifs_inv_def e1000e_update_adaptive_def Let_def)

lemma ifs_inv_reset: "adaptive_ifs (mac h) \<Longrightarrow> ifs_inv (snd (run_state e1000e_reset_adaptive h))"
  by (simp add: ifs_inv_def e1000e_reset_adaptive_def)

lemma ifs_inv_step: "ifs_step h h' \<Longrightarrow> ifs_inv h \<Longrightarrow> ifs_inv h'"
proof (induction rule: ifs_step.induct)
  case (stats h c t)
  then show ?case by (simp add: ifs_inv_def)
next
  case (access e h)
  then show ?case by (cases e) (auto simp: ifs_inv_def log_event_def)
next
  case (update h)
  then show ?case by (rule ifs_inv_update)
next
  case (reset h)
  then show ?case by (intro ifs_inv_reset) (simp add: ifs_inv_def)
qed

text \<open>
  C32: along every sequence of counter updates, accesses to other registers, calls of
  \<open>e1000e_update_adaptive\<close> and resets, the spacing is 0 or one of 40, 50, 60, 70, 80, it is 0
  outside IFS mode, and the device register \<open>AIT\<close> was last written with it.
\<close>

theorem adaptive_ifs_bounded:
  assumes "adaptive_ifs (mac h0)" and "ifs_reachable h0 h"
  shows "current_ifs_val (mac h) \<in> {0, 40, 50, 60, 70, 80} \<and>
    (\<not> in_ifs_mode (mac h) \<longrightarrow> current_ifs_val (mac h) = 0) \<and>
    last_write (trace h) E1000_AIT = Some (ucast (current_ifs_val (mac h)))"
proof -
  have "ifs_inv h"
    using assms(2) by induction (use assms(1) in \<open>auto intro: ifs_inv_reset ifs_inv_step\<close>)
  then show ?thesis by (simp add: ifs_inv_def)
qed

theorem adaptive_ifs_bounded_witness:
  "let h1 = snd (run_state e1000e_reset_adaptive (sample_hw (ram_device (\<lambda>r. 0))));
       h2 = h1\<lparr>mac := (mac h1)\<lparr>collision_delta := 400, tx_packet_delta := 1500\<rparr>\<rparr>;
       h3 = snd (run_state e1000e_update_adaptive h2)
   in current_ifs_val (mac h3) = 40 \<and> last_write (trace h3) E1000_AIT = Some 40"
proof -
  let ?h0 = "sample_hw (ram_device (\<lambda>r. 0))"
  let ?h1 = "snd (run_state e1000e_reset_adaptive ?h0)"
  let ?h2 = "?h1\<lparr>mac := (mac ?h1)\<lparr>collision_delta := 400, tx_packet_delta := 1500\<rparr>\<rparr>"
  have "ifs_reachable ?h0 (snd (run_state e1000e_update_adaptive ?h2))"
    by (rule ifs_reachable.step [OF ifs_reachable.step [OF ifs_reachable.start stats] update])
  from adaptive_ifs_bounded [OF _ this] show ?thesis
    by (simp add: Let_def e1000e_update_adaptive_def e1000e_reset_adaptive_def sample_mac_def)
qed

section \<open>LEDs\<close>

text \<open>Byte \<open>i\<close> of a LED control value.\<close>

definition led_byte :: "u32 \<Rightarrow> nat \<Rightarrow> u32" where
  "led_byte v i = take_bit 8 (drop_bit (8 * i) v)"

lemma set_led_mode_mask:
  "set_led_mode i m v = (v AND NOT (push_bit (8 * i) (mask 8))) OR push_bit (8 * i) m"
  by (simp add: set_led_mode_def mask_eq_exp_minus_1)

lemma led_byte_set:
  assumes "i < 4" "j < 4" "take_bit 8 m = m"
  shows "led_byte (set_led_mode j m v) i = (if i = j then m else led_byte v i)"
proof -
  have m: "bit m n \<longleftrightarrow> n < 8 \<and> bit m n" for n
    using arg_cong [OF assms(3), of "\<lambda>w. bit w n"] by (auto simp: bit_take_bit_iff)
  show ?thesis
  proof (rule bit_word_eqI)
    fix n assume n: "n < LENGTH(32)"
    show "bit (led_byte (set_led_mode j m v) i) n = bit (if i = j then m else led_byte v i) n"
      using assms(1,2) n m [of "8 * i + n - 8 * j"] m [of n]
      by (cases "i = j"; cases "i < j") (auto simp: led_byte_def set_led_mode_mask bit_simps)
  qed
qed

lemma led_modes:
  "led_mode1 n = Some m \<Longrightarrow> take_bit 8 m = m" "led_mode2 n = Some m \<Longrightarrow> take_bit 8 m = m"
  by (auto simp: led_mode1_def led_mode2_def split: if_splits)

lemma led_init_bytes:
  assumes "\<And>n m. mode n = Some m \<Longrightarrow> take_bit 8 m = m" and "i < 4"
  shows "led_byte (foldl (led_init_step mode data) v [0 ..< 4]) i =
    (case mode (led_nibble data i) of None \<Rightarrow> led_byte v i | Some m \<Rightarrow> m)"
proof -
  have step: "led_byte (led_init_step mode data w j) i =
      (if i = j then (case mode (led_nibble data i) of None \<Rightarrow> led_byte w i | Some m \<Rightarrow> m) else led_byte w i)"
    if "i < 4" "j < 4" for i j w
    using led_byte_set [OF that] assms(1)
    by (auto simp: led_init_step_def split: option.splits)
  have u: "[0 ..< 4] = [0, 1, 2, 3 :: nat]" by (simp add: upt_rec)
  have "i = 0 \<or> i = 1 \<or> i = 2 \<or> i = 3" using assms(2) by auto
  then show ?thesis by (auto simp: u step split: option.splits)
qed

text \<open>
  \<open>e1000e_id_led_init_generic\<close> sets, for each of the four LEDs, its byte of the two control
  values to the mode its field of the NVM word asks for, and leaves it as the hardware has it
  otherwise.
\<close>

theorem id_led_init:
  assumes "run_state valid_led_default h = ((0, data), h1)"
  shows "let (r, h') = run_state (e1000e_id_led_init_generic valid_led_default) h in
    r = 0 \<and> (\<forall>i < 4.
      led_byte (ledctl_default (mac h')) i = led_byte (rdv E1000_LEDCTL h1) i \<and>
      led_byte (ledctl_mode1 (mac h')) i =
        (case led_mode1 (led_nibble data i) of None \<Rightarrow> led_byte (rdv E1000_LEDCTL h1) i | Some m \<Rightarrow> m) \<and>
      led_byte (ledctl_mode2 (mac h')) i =
        (case led_mode2 (led_nibble data i) of None \<Rightarrow> led_byte (rdv E1000_LEDCTL h1) i | Some m \<Rightarrow> m))"
  using assms
  by (simp add: e1000e_id_led_init_generic_def Let_def led_modes led_init_bytes del: upt_rec_numeral)

theorem id_led_init_witness:
  "let (r, h') = run_state (e1000e_id_led_init_generic (return (0, 0x8911))) (sample_hw (const_device 0x07068302)) in
    r = 0 \<and> led_byte (ledctl_mode1 (mac h')) 0 = 0x02 \<and> led_byte (ledctl_mode2 (mac h')) 3 = 0x0E"
proof -
  have "run_state (return (0, 0x8911)) (sample_hw (const_device 0x07068302)) =
      ((0, 0x8911), sample_hw (const_device 0x07068302))"
    by simp
  from id_led_init [OF this] show ?thesis
    by (auto simp: case_prod_beta Let_def led_nibble_def led_mode1_def led_mode2_def led_byte_def
      dest: spec [of _ 0] spec [of _ 3])
qed

section \<open>Semaphore\<close>

text \<open>
  On any device, \<open>e1000e_get_hw_semaphore\<close> gives 0 only right after it has read its own request bit
  back as set; when it fails, it has either not written the semaphore register at all or has
  cleared both bits last.
\<close>

theorem hw_semaphore:
  "let (r, h') = run_state e1000e_get_hw_semaphore h in
    (r = 0 \<and> (\<exists>v t. trace h' = ReadL E1000_SWSM v # t \<and> v AND E1000_SWSM_SWESMBI \<noteq> 0) \<or>
     r = - E1000_ERR_NVM \<and>
       (last_write (trace h') E1000_SWSM = last_write (trace h) E1000_SWSM \<or>
        (\<exists>v. last_write (trace h') E1000_SWSM = Some v \<and> v AND (E1000_SWSM_SMBI OR E1000_SWSM_SWESMBI) = 0)))"
proof -
  let ?w = "\<lambda>g. last_write (trace g) E1000_SWSM"
  let ?owned = "\<lambda>g. \<exists>v t. trace g = ReadL E1000_SWSM v # t \<and> v AND E1000_SWSM_SWESMBI \<noteq> 0"
  have smbi: "wp (poll n (er32 E1000_SWSM) (\<lambda>swsm. swsm AND E1000_SWSM_SMBI = 0) (usleep_range 50 100))
     (\<lambda>_ g. ?w g = ?w h) h" for n
    by (rule wp_poll [where I = "\<lambda>g. ?w g = ?w h" and J = "\<lambda>_ g. ?w g = ?w h"])
      (simp_all add: wp rd_def log_event_def)
  have own: "wp (poll n (do { swsm \<leftarrow> er32 E1000_SWSM;
                 ew32 E1000_SWSM (swsm OR E1000_SWSM_SWESMBI);
                 er32 E1000_SWSM }) (\<lambda>swsm. swsm AND E1000_SWSM_SWESMBI \<noteq> 0) (usleep_range 50 100))
     (\<lambda>v g. v \<noteq> None \<longrightarrow> ?owned g) g" for n g
    by (rule wp_poll [where I = "\<lambda>_. True" and J = "\<lambda>v g. \<exists>t. trace g = ReadL E1000_SWSM v # t"])
      (simp_all add: wp rd_def log_event_def, blast)
  have "wp e1000e_get_hw_semaphore (\<lambda>r h'. r = 0 \<and> ?owned h' \<or> r = - E1000_ERR_NVM \<and> (?w h' = ?w h \<or>
        (\<exists>v. ?w h' = Some v \<and> v AND (E1000_SWSM_SMBI OR E1000_SWSM_SWESMBI) = 0))) h"
    unfolding e1000e_get_hw_semaphore_def Let_def wp
    by (rule wp_mono [OF smbi])
      (auto simp: wp wp_option e1000e_put_hw_semaphore_def set_clear_field
        intro!: wp_mono [OF own] split: option.splits)
  then show ?thesis by (simp add: wp_def case_prod_beta)
qed

end
