(* ===== verification/Phy.thy ===== *)
theory Phy
  imports Nvm
begin

text \<open>
  \<open>phy.c\<close>: access to the PHY registers through \<open>MDIC\<close>, by pages, and through the
  Kumeran interface, and the state that is derived from them (identity, link, downshift,
  polarity, cable length). A read gives its code and the value, which means something only when
  the code is 0.
\<close>

unbundle bit_operations_syntax

section \<open>Function pointers of the PHY\<close>

record phy_ops =
  phy_acquire :: "s32 io"
  phy_release :: "unit io"
  phy_read_reg :: "u32 \<Rightarrow> (s32 \<times> u16) io"
  phy_write_reg :: "u32 \<Rightarrow> u16 \<Rightarrow> s32 io"

definition e1e_rphy :: "phy_ops \<Rightarrow> u32 \<Rightarrow> (s32 \<times> u16) io" where
  "e1e_rphy ops offset = phy_read_reg ops offset"

definition e1e_wphy :: "phy_ops \<Rightarrow> u32 \<Rightarrow> u16 \<Rightarrow> s32 io" where
  "e1e_wphy ops offset data = phy_write_reg ops offset data"

abbreviation msleep :: "nat \<Rightarrow> unit io" where
  "msleep \<equiv> mdelay"

section \<open>Reset block, identity\<close>

definition e1000e_check_reset_block_generic :: "s32 io" where
  "e1000e_check_reset_block_generic = do {
     manc \<leftarrow> er32 E1000_MANC;
     return (if manc AND E1000_MANC_BLK_PHY_RST_ON_IDE \<noteq> 0 then E1000_BLK_PHY_RESET else 0) }"

text \<open>The body of the loop over two tries; \<open>None\<close> is the next try.\<close>

definition get_phy_id_try :: "phy_ops \<Rightarrow> s32 option io" where
  "get_phy_id_try ops = do {
     (ret_val, id1) \<leftarrow> e1e_rphy ops MII_PHYSID1;
     if ret_val \<noteq> 0 then return (Some ret_val)
     else do {
       set_phy (\<lambda>p. p\<lparr>phy_id := push_bit 16 (ucast id1)\<rparr>);
       usleep_range 20 40;
       (ret_val, id2) \<leftarrow> e1e_rphy ops MII_PHYSID2;
       if ret_val \<noteq> 0 then return (Some ret_val)
       else do {
         set_phy (\<lambda>p. p\<lparr>phy_id := phy_id p OR (ucast id2 AND PHY_REVISION_MASK),
           phy_revision := ucast id2 AND NOT PHY_REVISION_MASK\<rparr>);
         h \<leftarrow> get;
         return (if phy_id (phy h) \<noteq> 0 \<and> phy_id (phy h) \<noteq> PHY_REVISION_MASK then Some 0 else None) } } }"

definition e1000e_get_phy_id :: "phy_ops \<Rightarrow> s32 io" where
  "e1000e_get_phy_id ops = do {
     first \<leftarrow> get_phy_id_try ops;
     case first of
       Some ret_val \<Rightarrow> return ret_val
     | None \<Rightarrow> do {
         second \<leftarrow> get_phy_id_try ops;
         case second of Some ret_val \<Rightarrow> return ret_val | None \<Rightarrow> return 0 } }"

definition e1000e_phy_reset_dsp :: "phy_ops \<Rightarrow> s32 io" where
  "e1000e_phy_reset_dsp ops = do {
     ret_val \<leftarrow> e1e_wphy ops M88E1000_PHY_GEN_CONTROL 0xC1;
     if ret_val \<noteq> 0 then return ret_val
     else e1e_wphy ops M88E1000_PHY_GEN_CONTROL 0 }"

section \<open>MDIC\<close>

definition mdic_field :: "u32 \<Rightarrow> u32" where
  "mdic_field mdic = drop_bit E1000_MDIC_REG_SHIFT (mdic AND E1000_MDIC_REG_MASK)"

text \<open>Issue a command, wait for it, and check the answer: the code and the final register.\<close>

definition mdic_transaction :: "u32 \<Rightarrow> u32 \<Rightarrow> (s32 \<times> u32) io" where
  "mdic_transaction offset mdic = do {
     h \<leftarrow> get;
     ew32 E1000_MDIC mdic;
     answer \<leftarrow> poll (E1000_GEN_POLL_TIMEOUT * 3) (do { udelay 50; er32 E1000_MDIC })
       (\<lambda>mdic. mdic AND E1000_MDIC_READY \<noteq> 0) (return ());
     case answer of
       None \<Rightarrow> return (- E1000_ERR_PHY, 0)
     | Some mdic \<Rightarrow>
         (if mdic AND E1000_MDIC_ERROR \<noteq> 0 then return (- E1000_ERR_PHY, mdic)
          else if mdic_field mdic \<noteq> offset then return (- E1000_ERR_PHY, mdic)
          else do {
            (if mac_type (mac h) = e1000_pch2lan then udelay 100 else return ());
            return (0, mdic) }) }"

definition e1000e_read_phy_reg_mdic :: "u32 \<Rightarrow> (s32 \<times> u16) io" where
  "e1000e_read_phy_reg_mdic offset = do {
     h \<leftarrow> get;
     if offset > MAX_PHY_REG_ADDRESS then return (- E1000_ERR_PARAM, 0)
     else do {
       (ret_val, mdic) \<leftarrow> mdic_transaction offset
         (push_bit E1000_MDIC_REG_SHIFT offset OR
          push_bit E1000_MDIC_PHY_SHIFT (phy_addr (phy h)) OR E1000_MDIC_OP_READ);
       return (ret_val, ucast mdic) } }"

definition e1000e_write_phy_reg_mdic :: "u32 \<Rightarrow> u16 \<Rightarrow> s32 io" where
  "e1000e_write_phy_reg_mdic offset data = do {
     h \<leftarrow> get;
     if offset > MAX_PHY_REG_ADDRESS then return (- E1000_ERR_PARAM)
     else do {
       (ret_val, mdic) \<leftarrow> mdic_transaction offset
         (ucast data OR push_bit E1000_MDIC_REG_SHIFT offset OR
          push_bit E1000_MDIC_PHY_SHIFT (phy_addr (phy h)) OR E1000_MDIC_OP_WRITE);
       return ret_val } }"

section \<open>Locked and paged access\<close>

definition e1000e_read_phy_reg_m88 :: "phy_ops \<Rightarrow> u32 \<Rightarrow> (s32 \<times> u16) io" where
  "e1000e_read_phy_reg_m88 ops offset = do {
     ret_val \<leftarrow> phy_acquire ops;
     if ret_val \<noteq> 0 then return (ret_val, 0)
     else do {
       (ret_val, data) \<leftarrow> e1000e_read_phy_reg_mdic (MAX_PHY_REG_ADDRESS AND offset);
       phy_release ops;
       return (ret_val, data) } }"

definition e1000e_write_phy_reg_m88 :: "phy_ops \<Rightarrow> u32 \<Rightarrow> u16 \<Rightarrow> s32 io" where
  "e1000e_write_phy_reg_m88 ops offset data = do {
     ret_val \<leftarrow> phy_acquire ops;
     if ret_val \<noteq> 0 then return ret_val
     else do {
       ret_val \<leftarrow> e1000e_write_phy_reg_mdic (MAX_PHY_REG_ADDRESS AND offset) data;
       phy_release ops;
       return ret_val } }"

definition e1000_set_page_igp :: "u16 \<Rightarrow> s32 io" where
  "e1000_set_page_igp page = do {
     set_phy (\<lambda>p. p\<lparr>phy_addr := 1\<rparr>);
     e1000e_write_phy_reg_mdic IGP01E1000_PHY_PAGE_SELECT page }"

definition igp_read_body :: "u32 \<Rightarrow> (s32 \<times> u16) io" where
  "igp_read_body offset = do {
     ret_val \<leftarrow> (if offset > MAX_PHY_MULTI_PAGE_REG
       then e1000e_write_phy_reg_mdic IGP01E1000_PHY_PAGE_SELECT (ucast offset) else return 0);
     if ret_val = 0 then e1000e_read_phy_reg_mdic (MAX_PHY_REG_ADDRESS AND offset)
     else return (ret_val, 0) }"

definition read_phy_reg_igp :: "phy_ops \<Rightarrow> u32 \<Rightarrow> bool \<Rightarrow> (s32 \<times> u16) io" where
  "read_phy_reg_igp ops offset locked = do {
     ret_val \<leftarrow> (if \<not> locked then phy_acquire ops else return 0);
     if ret_val \<noteq> 0 then return (ret_val, 0)
     else do {
       (ret_val, data) \<leftarrow> igp_read_body offset;
       (if \<not> locked then phy_release ops else return ());
       return (ret_val, data) } }"

definition e1000e_read_phy_reg_igp :: "phy_ops \<Rightarrow> u32 \<Rightarrow> (s32 \<times> u16) io" where
  "e1000e_read_phy_reg_igp ops offset = read_phy_reg_igp ops offset False"

definition e1000e_read_phy_reg_igp_locked :: "phy_ops \<Rightarrow> u32 \<Rightarrow> (s32 \<times> u16) io" where
  "e1000e_read_phy_reg_igp_locked ops offset = read_phy_reg_igp ops offset True"

definition igp_write_body :: "u32 \<Rightarrow> u16 \<Rightarrow> s32 io" where
  "igp_write_body offset data = do {
     ret_val \<leftarrow> (if offset > MAX_PHY_MULTI_PAGE_REG
       then e1000e_write_phy_reg_mdic IGP01E1000_PHY_PAGE_SELECT (ucast offset) else return 0);
     if ret_val = 0 then e1000e_write_phy_reg_mdic (MAX_PHY_REG_ADDRESS AND offset) data
     else return ret_val }"

definition write_phy_reg_igp :: "phy_ops \<Rightarrow> u32 \<Rightarrow> u16 \<Rightarrow> bool \<Rightarrow> s32 io" where
  "write_phy_reg_igp ops offset data locked = do {
     ret_val \<leftarrow> (if \<not> locked then phy_acquire ops else return 0);
     if ret_val \<noteq> 0 then return ret_val
     else do {
       ret_val \<leftarrow> igp_write_body offset data;
       (if \<not> locked then phy_release ops else return ());
       return ret_val } }"

definition e1000e_write_phy_reg_igp :: "phy_ops \<Rightarrow> u32 \<Rightarrow> u16 \<Rightarrow> s32 io" where
  "e1000e_write_phy_reg_igp ops offset data = write_phy_reg_igp ops offset data False"

definition e1000e_write_phy_reg_igp_locked :: "phy_ops \<Rightarrow> u32 \<Rightarrow> u16 \<Rightarrow> s32 io" where
  "e1000e_write_phy_reg_igp_locked ops offset data = write_phy_reg_igp ops offset data True"

section \<open>Kumeran\<close>

definition kmrn_select :: "u32 \<Rightarrow> u32" where
  "kmrn_select offset =
     push_bit E1000_KMRNCTRLSTA_OFFSET_SHIFT offset AND E1000_KMRNCTRLSTA_OFFSET"

definition read_kmrn_reg :: "phy_ops \<Rightarrow> u32 \<Rightarrow> bool \<Rightarrow> (s32 \<times> u16) io" where
  "read_kmrn_reg ops offset locked = do {
     ret_val \<leftarrow> (if \<not> locked then phy_acquire ops else return 0);
     if ret_val \<noteq> 0 then return (ret_val, 0)
     else do {
       ew32 E1000_KMRNCTRLSTA (kmrn_select offset OR E1000_KMRNCTRLSTA_REN);
       e1e_flush;
       udelay 2;
       kmrnctrlsta \<leftarrow> er32 E1000_KMRNCTRLSTA;
       (if \<not> locked then phy_release ops else return ());
       return (0, ucast kmrnctrlsta) } }"

definition e1000e_read_kmrn_reg :: "phy_ops \<Rightarrow> u32 \<Rightarrow> (s32 \<times> u16) io" where
  "e1000e_read_kmrn_reg ops offset = read_kmrn_reg ops offset False"

definition e1000e_read_kmrn_reg_locked :: "phy_ops \<Rightarrow> u32 \<Rightarrow> (s32 \<times> u16) io" where
  "e1000e_read_kmrn_reg_locked ops offset = read_kmrn_reg ops offset True"

definition write_kmrn_reg :: "phy_ops \<Rightarrow> u32 \<Rightarrow> u16 \<Rightarrow> bool \<Rightarrow> s32 io" where
  "write_kmrn_reg ops offset data locked = do {
     ret_val \<leftarrow> (if \<not> locked then phy_acquire ops else return 0);
     if ret_val \<noteq> 0 then return ret_val
     else do {
       ew32 E1000_KMRNCTRLSTA (kmrn_select offset OR ucast data);
       e1e_flush;
       udelay 2;
       (if \<not> locked then phy_release ops else return ());
       return 0 } }"

definition e1000e_write_kmrn_reg :: "phy_ops \<Rightarrow> u32 \<Rightarrow> u16 \<Rightarrow> s32 io" where
  "e1000e_write_kmrn_reg ops offset data = write_kmrn_reg ops offset data False"

definition e1000e_write_kmrn_reg_locked :: "phy_ops \<Rightarrow> u32 \<Rightarrow> u16 \<Rightarrow> s32 io" where
  "e1000e_write_kmrn_reg_locked ops offset data = write_kmrn_reg ops offset data True"

section \<open>Downshift and polarity\<close>

definition downshift_bit :: "phy_kind \<Rightarrow> (u32 \<times> u16) option" where
  "downshift_bit ty =
     (case ty of
        e1000_phy_m88 \<Rightarrow> Some (M88E1000_PHY_SPEC_STATUS, M88E1000_PSSR_DOWNSHIFT)
      | e1000_phy_gg82563 \<Rightarrow> Some (M88E1000_PHY_SPEC_STATUS, M88E1000_PSSR_DOWNSHIFT)
      | e1000_phy_bm \<Rightarrow> Some (M88E1000_PHY_SPEC_STATUS, M88E1000_PSSR_DOWNSHIFT)
      | e1000_phy_82578 \<Rightarrow> Some (M88E1000_PHY_SPEC_STATUS, M88E1000_PSSR_DOWNSHIFT)
      | e1000_phy_igp_2 \<Rightarrow> Some (IGP01E1000_PHY_LINK_HEALTH, IGP01E1000_PLHR_SS_DOWNGRADE)
      | e1000_phy_igp_3 \<Rightarrow> Some (IGP01E1000_PHY_LINK_HEALTH, IGP01E1000_PLHR_SS_DOWNGRADE)
      | _ \<Rightarrow> None)"

definition e1000e_check_downshift :: "phy_ops \<Rightarrow> s32 io" where
  "e1000e_check_downshift ops = do {
     h \<leftarrow> get;
     case downshift_bit (phy_type (phy h)) of
       None \<Rightarrow> do { set_phy (\<lambda>p. p\<lparr>speed_downgraded := False\<rparr>); return 0 }
     | Some (offset, msk) \<Rightarrow> do {
         (ret_val, phy_data) \<leftarrow> e1e_rphy ops offset;
         (if ret_val = 0 then set_phy (\<lambda>p. p\<lparr>speed_downgraded := (phy_data AND msk \<noteq> 0)\<rparr>)
          else return ());
         return ret_val } }"

definition polarity_of :: "u16 \<Rightarrow> rev_polarity" where
  "polarity_of v = (if v \<noteq> 0 then e1000_rev_polarity_reversed else e1000_rev_polarity_normal)"

text \<open>Polarity from one bit of one register, the last step of all the routines.\<close>

definition check_polarity_bit :: "phy_ops \<Rightarrow> u32 \<Rightarrow> u16 \<Rightarrow> s32 io" where
  "check_polarity_bit ops offset msk = do {
     (ret_val, data) \<leftarrow> e1e_rphy ops offset;
     (if ret_val = 0 then set_phy (\<lambda>p. p\<lparr>cable_polarity := polarity_of (data AND msk)\<rparr>)
      else return ());
     return ret_val }"

definition e1000_check_polarity_m88 :: "phy_ops \<Rightarrow> s32 io" where
  "e1000_check_polarity_m88 ops =
     check_polarity_bit ops M88E1000_PHY_SPEC_STATUS M88E1000_PSSR_REV_POLARITY"

definition e1000_check_polarity_igp :: "phy_ops \<Rightarrow> s32 io" where
  "e1000_check_polarity_igp ops = do {
     (ret_val, data) \<leftarrow> e1e_rphy ops IGP01E1000_PHY_PORT_STATUS;
     if ret_val \<noteq> 0 then return ret_val
     else if data AND IGP01E1000_PSSR_SPEED_MASK = IGP01E1000_PSSR_SPEED_1000MBPS
     then check_polarity_bit ops IGP01E1000_PHY_PCS_INIT_REG IGP01E1000_PHY_POLARITY_MASK
     else check_polarity_bit ops IGP01E1000_PHY_PORT_STATUS IGP01E1000_PSSR_POLARITY_REVERSED }"

definition e1000_check_polarity_ife :: "phy_ops \<Rightarrow> s32 io" where
  "e1000_check_polarity_ife ops = do {
     h \<leftarrow> get;
     if polarity_correction (phy h)
     then check_polarity_bit ops IFE_PHY_EXTENDED_STATUS_CONTROL IFE_PESC_POLARITY_REVERSED
     else check_polarity_bit ops IFE_PHY_SPECIAL_CONTROL IFE_PSC_FORCE_POLARITY }"

definition e1000_check_polarity_82577 :: "phy_ops \<Rightarrow> s32 io" where
  "e1000_check_polarity_82577 ops =
     check_polarity_bit ops I82577_PHY_STATUS_2 I82577_PHY_STATUS2_REV_POLARITY"

section \<open>Link\<close>

fun wait_autoneg_loop :: "phy_ops \<Rightarrow> nat \<Rightarrow> s32 \<Rightarrow> s32 io" where
  "wait_autoneg_loop ops 0 ret_val = return ret_val"
| "wait_autoneg_loop ops (Suc n) ret_val = do {
     (ret_val, phy_status) \<leftarrow> e1e_rphy ops MII_BMSR;
     if ret_val \<noteq> 0 then return ret_val
     else do {
       (ret_val, phy_status) \<leftarrow> e1e_rphy ops MII_BMSR;
       if ret_val \<noteq> 0 then return ret_val
       else if phy_status AND BMSR_ANEGCOMPLETE \<noteq> 0 then return ret_val
       else do { msleep 100; wait_autoneg_loop ops n ret_val } } }"

definition e1000_wait_autoneg :: "phy_ops \<Rightarrow> s32 io" where
  "e1000_wait_autoneg ops = wait_autoneg_loop ops PHY_AUTO_NEG_LIMIT 0"

definition link_wait :: "nat \<Rightarrow> unit io" where
  "link_wait usec_interval =
     (if usec_interval \<ge> 1000 then msleep (usec_interval div 1000) else udelay usec_interval)"

text \<open>
  The polls of the link, \<open>n\<close> of them left: code and \<open>success\<close>. The counter of the source
  has 16 bits; its callers ask for far fewer polls.
\<close>

fun has_link_loop :: "phy_ops \<Rightarrow> nat \<Rightarrow> nat \<Rightarrow> (s32 \<times> bool) io" where
  "has_link_loop ops usec_interval 0 = return (0, False)"
| "has_link_loop ops usec_interval (Suc n) = do {
     (ret_val, phy_status) \<leftarrow> e1e_rphy ops MII_BMSR;
     (if ret_val \<noteq> 0 then link_wait usec_interval else return ());
     (ret_val, phy_status) \<leftarrow> e1e_rphy ops MII_BMSR;
     if ret_val \<noteq> 0 then return (ret_val, True)
     else if phy_status AND BMSR_LSTATUS \<noteq> 0 then return (0, True)
     else do { link_wait usec_interval; has_link_loop ops usec_interval n } }"

definition e1000e_phy_has_link_generic :: "phy_ops \<Rightarrow> nat \<Rightarrow> nat \<Rightarrow> (s32 \<times> bool) io" where
  "e1000e_phy_has_link_generic ops iterations usec_interval =
     has_link_loop ops usec_interval iterations"

section \<open>Cable length\<close>

definition e1000_m88_cable_length_table :: "u16 list" where
  "e1000_m88_cable_length_table = [0, 50, 80, 110, 140, 140, E1000_CABLE_LENGTH_UNDEFINED]"

definition e1000_igp_2_cable_length_table :: "u16 list" where
  "e1000_igp_2_cable_length_table = [
     0, 0, 0, 0, 0, 0, 0, 0, 3, 5, 8, 11, 13, 16, 18, 21, 0, 0, 0, 3,
     6, 10, 13, 16, 19, 23, 26, 29, 32, 35, 38, 41, 6, 10, 14, 18, 22,
     26, 30, 33, 37, 41, 44, 48, 51, 54, 58, 61, 21, 26, 31, 35, 40,
     44, 49, 53, 57, 61, 65, 68, 72, 75, 79, 82, 40, 45, 51, 56, 61,
     66, 70, 75, 79, 83, 87, 91, 94, 98, 101, 104, 60, 66, 72, 77, 82,
     87, 92, 96, 100, 104, 108, 111, 114, 117, 119, 121, 83, 89, 95,
     100, 105, 109, 113, 116, 119, 122, 124, 104, 109, 114, 118, 121,
     124]"

definition set_cable_length :: "u16 \<Rightarrow> u16 \<Rightarrow> unit io" where
  "set_cable_length lo hi =
     set_phy (\<lambda>p. p\<lparr>min_cable_length := lo, max_cable_length := hi,
       cable_length := of_nat ((unat lo + unat hi) div 2)\<rparr>)"

definition e1000e_get_cable_length_m88 :: "phy_ops \<Rightarrow> s32 io" where
  "e1000e_get_cable_length_m88 ops = do {
     (ret_val, phy_data) \<leftarrow> e1e_rphy ops M88E1000_PHY_SPEC_STATUS;
     if ret_val \<noteq> 0 then return ret_val
     else do {
       let index = unat (drop_bit M88E1000_PSSR_CABLE_LENGTH_SHIFT (phy_data AND M88E1000_PSSR_CABLE_LENGTH));
       (if index \<ge> length e1000_m88_cable_length_table - 1 then return (- E1000_ERR_PHY)
        else do {
          set_cable_length (e1000_m88_cable_length_table ! index)
            (e1000_m88_cable_length_table ! (index + 1));
          return 0 }) } }"

definition agc_index :: "u16 \<Rightarrow> nat" where
  "agc_index phy_data = unat (drop_bit IGP02E1000_AGC_LENGTH_SHIFT phy_data AND IGP02E1000_AGC_LENGTH_MASK)"

text \<open>
  The loop over the channels carries the indices of the smallest and the largest value and the
  sum; \<open>Inl\<close> is a code to return.
\<close>

fun agc_loop :: "phy_ops \<Rightarrow> u32 list \<Rightarrow> nat \<Rightarrow> nat \<Rightarrow> u16 \<Rightarrow> (s32 + nat \<times> nat \<times> u16) io" where
  "agc_loop ops [] min_agc_index max_agc_index agc_value =
     return (Inr (min_agc_index, max_agc_index, agc_value))"
| "agc_loop ops (r # rs) min_agc_index max_agc_index agc_value = do {
     (ret_val, phy_data) \<leftarrow> e1e_rphy ops r;
     if ret_val \<noteq> 0 then return (Inl ret_val)
     else do {
       let cur = agc_index phy_data;
       let tab = e1000_igp_2_cable_length_table;
       (if cur \<ge> length tab \<or> cur = 0 then return (Inl (- E1000_ERR_PHY))
        else agc_loop ops rs
          (if tab ! min_agc_index > tab ! cur then cur else min_agc_index)
          (if tab ! max_agc_index < tab ! cur then cur else max_agc_index)
          (agc_value + tab ! cur)) } }"

definition e1000e_get_cable_length_igp_2 :: "phy_ops \<Rightarrow> s32 io" where
  "e1000e_get_cable_length_igp_2 ops = do {
     res \<leftarrow> agc_loop ops
       [IGP02E1000_PHY_AGC_A, IGP02E1000_PHY_AGC_B, IGP02E1000_PHY_AGC_C, IGP02E1000_PHY_AGC_D]
       (length e1000_igp_2_cable_length_table - 1) 0 0;
     case res of
       Inl ret_val \<Rightarrow> return ret_val
     | Inr (min_agc_index, max_agc_index, agc_value) \<Rightarrow> do {
         let agc_value = agc_value -
           (e1000_igp_2_cable_length_table ! min_agc_index + e1000_igp_2_cable_length_table ! max_agc_index);
         let agc_value = agc_value div (of_nat IGP02E1000_PHY_CHANNEL_NUM - 2);
         set_cable_length
           (of_nat (unat agc_value - IGP02E1000_AGC_RANGE))
           (agc_value + of_nat IGP02E1000_AGC_RANGE);
         return 0 } }"

definition e1000_get_cable_length_82577 :: "phy_ops \<Rightarrow> s32 io" where
  "e1000_get_cable_length_82577 ops = do {
     (ret_val, phy_data) \<leftarrow> e1e_rphy ops I82577_PHY_DIAG_STATUS;
     if ret_val \<noteq> 0 then return ret_val
     else do {
       let len = drop_bit I82577_DSTATUS_CABLE_LENGTH_SHIFT (phy_data AND I82577_DSTATUS_CABLE_LENGTH);
       (if len = E1000_CABLE_LENGTH_UNDEFINED then return (- E1000_ERR_PHY)
        else do { set_phy (\<lambda>p. p\<lparr>cable_length := len\<rparr>); return 0 }) } }"

end
