(* ===== verification/Mac_Link.thy ===== *)
theory Mac_Link
  imports Phy
begin

text \<open>
  The link handling of \<open>mac.c\<close>: checks for link on copper, fiber and SerDes, set up of the
  link, and flow control, from the mode that is asked for through the resolution of the pause
  bits of both sides to the bits of the MAC. The functions of the part that are called through
  pointers are arguments.
\<close>

unbundle bit_operations_syntax

section \<open>Collision distance, water marks, MAC bits\<close>

definition e1000e_config_collision_dist_generic :: "unit io" where
  "e1000e_config_collision_dist_generic = do {
     tctl \<leftarrow> er32 E1000_TCTL;
     let tctl = (tctl AND NOT E1000_TCTL_COLD) OR push_bit E1000_COLD_SHIFT E1000_COLLISION_DISTANCE;
     ew32 E1000_TCTL tctl;
     e1e_flush }"

definition fc_watermarks :: "fc_info \<Rightarrow> u32 \<times> u32" where
  "fc_watermarks f =
     (if fc_code (current_mode f) AND fc_code e1000_fc_tx_pause \<noteq> 0
      then (if send_xon f then low_water f OR E1000_FCRTL_XONE else low_water f, high_water f)
      else (0, 0))"

definition e1000e_set_fc_watermarks :: "s32 io" where
  "e1000e_set_fc_watermarks = do {
     h \<leftarrow> get;
     let (fcrtl, fcrth) = fc_watermarks (fc h);
     ew32 E1000_FCRTL fcrtl;
     ew32 E1000_FCRTH fcrth;
     return 0 }"

text \<open>The flow control bits of \<open>CTRL\<close> for a mode; \<open>None\<close> when the mode is no setting.\<close>

definition force_fc_bits :: "fc_mode \<Rightarrow> u32 \<Rightarrow> u32 option" where
  "force_fc_bits mode ctrl =
     (case mode of
        e1000_fc_none \<Rightarrow> Some (ctrl AND NOT (E1000_CTRL_TFCE OR E1000_CTRL_RFCE))
      | e1000_fc_rx_pause \<Rightarrow> Some ((ctrl AND NOT E1000_CTRL_TFCE) OR E1000_CTRL_RFCE)
      | e1000_fc_tx_pause \<Rightarrow> Some ((ctrl AND NOT E1000_CTRL_RFCE) OR E1000_CTRL_TFCE)
      | e1000_fc_full \<Rightarrow> Some (ctrl OR (E1000_CTRL_TFCE OR E1000_CTRL_RFCE))
      | e1000_fc_default \<Rightarrow> None)"

definition e1000e_force_mac_fc :: "s32 io" where
  "e1000e_force_mac_fc = do {
     ctrl \<leftarrow> er32 E1000_CTRL;
     h \<leftarrow> get;
     case force_fc_bits (current_mode (fc h)) ctrl of
       None \<Rightarrow> return (- E1000_ERR_CONFIG)
     | Some ctrl \<Rightarrow> do { ew32 E1000_CTRL ctrl; return 0 } }"

section \<open>Flow control after the link is up\<close>

definition set_current_mode :: "fc_mode \<Rightarrow> unit io" where
  "set_current_mode mode = set_fc (\<lambda>f. f\<lparr>current_mode := mode\<rparr>)"

text \<open>
  The resolution of the pause and the direction bit of both sides, the same code for a copper PHY
  and for SerDes.
\<close>

definition resolve_pause :: "fc_mode \<Rightarrow> bool \<Rightarrow> bool \<Rightarrow> bool \<Rightarrow> bool \<Rightarrow> fc_mode" where
  "resolve_pause requested adv_pause adv_asm lp_pause lp_asm =
     (if adv_pause \<and> lp_pause
      then (if requested = e1000_fc_full then e1000_fc_full else e1000_fc_rx_pause)
      else if \<not> adv_pause \<and> adv_asm \<and> lp_pause \<and> lp_asm then e1000_fc_tx_pause
      else if adv_pause \<and> adv_asm \<and> \<not> lp_pause \<and> lp_asm then e1000_fc_rx_pause
      else e1000_fc_none)"

text \<open>\<open>Inl\<close> is a code to return at once, \<open>Inr\<close> the value of \<open>ret_val\<close> to go on with.\<close>

definition config_fc_copper :: "phy_ops \<Rightarrow> (s32 \<times> u16 \<times> u16) io \<Rightarrow> (s32 + s32) io" where
  "config_fc_copper ops get_link_up_info = do {
     (ret_val, mii_status) \<leftarrow> e1e_rphy ops MII_BMSR;
     if ret_val \<noteq> 0 then return (Inl ret_val)
     else do {
       (ret_val, mii_status) \<leftarrow> e1e_rphy ops MII_BMSR;
       if ret_val \<noteq> 0 then return (Inl ret_val)
       else if mii_status AND BMSR_ANEGCOMPLETE = 0 then return (Inl ret_val)
       else do {
         (ret_val, adv) \<leftarrow> e1e_rphy ops MII_ADVERTISE;
         if ret_val \<noteq> 0 then return (Inl ret_val)
         else do {
           (ret_val, lp) \<leftarrow> e1e_rphy ops MII_LPA;
           if ret_val \<noteq> 0 then return (Inl ret_val)
           else do {
             h \<leftarrow> get;
             set_current_mode (resolve_pause (requested_mode (fc h))
               (adv AND ADVERTISE_PAUSE_CAP \<noteq> 0) (adv AND ADVERTISE_PAUSE_ASYM \<noteq> 0)
               (lp AND LPA_PAUSE_CAP \<noteq> 0) (lp AND LPA_PAUSE_ASYM \<noteq> 0));
             (ret_val, speed, duplex) \<leftarrow> get_link_up_info;
             if ret_val \<noteq> 0 then return (Inl ret_val)
             else do {
               (if duplex = HALF_DUPLEX then set_current_mode e1000_fc_none else return ());
               ret_val \<leftarrow> e1000e_force_mac_fc;
               return (if ret_val \<noteq> 0 then Inl ret_val else Inr 0) } } } } } }"

definition config_fc_serdes :: "s32 \<Rightarrow> s32 io" where
  "config_fc_serdes ret_val = do {
     pcs_status \<leftarrow> er32 E1000_PCS_LSTAT;
     if pcs_status AND E1000_PCS_LSTS_AN_COMPLETE = 0 then return ret_val
     else do {
       adv \<leftarrow> er32 E1000_PCS_ANADV;
       lp \<leftarrow> er32 E1000_PCS_LPAB;
       h \<leftarrow> get;
       set_current_mode (resolve_pause (requested_mode (fc h))
         (adv AND E1000_TXCW_PAUSE \<noteq> 0) (adv AND E1000_TXCW_ASM_DIR \<noteq> 0)
         (lp AND E1000_TXCW_PAUSE \<noteq> 0) (lp AND E1000_TXCW_ASM_DIR \<noteq> 0));
       pcs_ctrl \<leftarrow> er32 E1000_PCS_LCTL;
       ew32 E1000_PCS_LCTL (pcs_ctrl OR E1000_PCS_LCTL_FORCE_FCTRL);
       e1000e_force_mac_fc } }"

definition e1000e_config_fc_after_link_up :: "phy_ops \<Rightarrow> (s32 \<times> u16 \<times> u16) io \<Rightarrow> s32 io" where
  "e1000e_config_fc_after_link_up ops get_link_up_info = do {
     h \<leftarrow> get;
     let media = media_type (phy h);
     ret_val \<leftarrow>
       (if autoneg_failed (mac h)
        then (if media = e1000_media_type_fiber \<or> media = e1000_media_type_internal_serdes
              then e1000e_force_mac_fc else return 0)
        else (if media = e1000_media_type_copper then e1000e_force_mac_fc else return 0));
     if ret_val \<noteq> 0 then return ret_val
     else do {
       res \<leftarrow> (if media = e1000_media_type_copper \<and> autoneg (mac h)
         then config_fc_copper ops get_link_up_info else return (Inr ret_val));
       case res of
         Inl ret_val \<Rightarrow> return ret_val
       | Inr ret_val \<Rightarrow>
           (if media = e1000_media_type_internal_serdes \<and> autoneg (mac h)
            then config_fc_serdes ret_val else return 0) } }"

section \<open>Speed and duplex\<close>

definition e1000e_get_speed_and_duplex_copper :: "(s32 \<times> u16 \<times> u16) io" where
  "e1000e_get_speed_and_duplex_copper = do {
     status \<leftarrow> er32 E1000_STATUS;
     return (0,
       if status AND E1000_STATUS_SPEED_1000 \<noteq> 0 then SPEED_1000
       else if status AND E1000_STATUS_SPEED_100 \<noteq> 0 then SPEED_100 else SPEED_10,
       if status AND E1000_STATUS_FD \<noteq> 0 then FULL_DUPLEX else HALF_DUPLEX) }"

definition e1000e_get_speed_and_duplex_fiber_serdes :: "(s32 \<times> u16 \<times> u16) io" where
  "e1000e_get_speed_and_duplex_fiber_serdes = return (0, SPEED_1000, FULL_DUPLEX)"

section \<open>Checks for link\<close>

definition e1000e_check_for_copper_link ::
  "phy_ops \<Rightarrow> unit io \<Rightarrow> (s32 \<times> u16 \<times> u16) io \<Rightarrow> s32 io" where
  "e1000e_check_for_copper_link ops config_collision_dist get_link_up_info = do {
     h \<leftarrow> get;
     if \<not> get_link_status (mac h) then return 0
     else do {
       (ret_val, link) \<leftarrow> e1000e_phy_has_link_generic ops 1 0;
       if ret_val \<noteq> 0 then return ret_val
       else if \<not> link then return 0
       else do {
         set_mac (\<lambda>m. m\<lparr>get_link_status := False\<rparr>);
         _ \<leftarrow> e1000e_check_downshift ops;
         h \<leftarrow> get;
         if \<not> autoneg (mac h) then return (- E1000_ERR_CONFIG)
         else do {
           config_collision_dist;
           e1000e_config_fc_after_link_up ops get_link_up_info } } } }"

text \<open>Force the link up because the partner does not negotiate, after one more chance.\<close>

definition force_link_up :: "phy_ops \<Rightarrow> (s32 \<times> u16 \<times> u16) io \<Rightarrow> s32 io" where
  "force_link_up ops get_link_up_info = do {
     h \<leftarrow> get;
     ew32 E1000_TXCW (txcw (mac h) AND NOT E1000_TXCW_ANE);
     ctrl \<leftarrow> er32 E1000_CTRL;
     ew32 E1000_CTRL (ctrl OR (E1000_CTRL_SLU OR E1000_CTRL_FD));
     e1000e_config_fc_after_link_up ops get_link_up_info }"

definition set_serdes_has_link :: "bool \<Rightarrow> unit io" where
  "set_serdes_has_link b = set_mac (\<lambda>m. m\<lparr>serdes_has_link := b\<rparr>)"

definition stop_forcing_link :: "u32 \<Rightarrow> unit io" where
  "stop_forcing_link ctrl = do {
     h \<leftarrow> get;
     ew32 E1000_TXCW (txcw (mac h));
     ew32 E1000_CTRL (ctrl AND NOT E1000_CTRL_SLU);
     set_serdes_has_link True }"

definition e1000e_check_for_fiber_link :: "phy_ops \<Rightarrow> (s32 \<times> u16 \<times> u16) io \<Rightarrow> s32 io" where
  "e1000e_check_for_fiber_link ops get_link_up_info = do {
     ctrl \<leftarrow> er32 E1000_CTRL;
     status \<leftarrow> er32 E1000_STATUS;
     rxcw \<leftarrow> er32 E1000_RXCW;
     h \<leftarrow> get;
     if ctrl AND E1000_CTRL_SWDPIN1 \<noteq> 0 \<and> status AND E1000_STATUS_LU = 0 \<and> rxcw AND E1000_RXCW_C = 0
     then (if \<not> autoneg_failed (mac h)
           then do { set_mac (\<lambda>m. m\<lparr>autoneg_failed := True\<rparr>); return 0 }
           else force_link_up ops get_link_up_info)
     else if ctrl AND E1000_CTRL_SLU \<noteq> 0 \<and> rxcw AND E1000_RXCW_C \<noteq> 0
     then do { stop_forcing_link ctrl; return 0 }
     else return 0 }"

text \<open>The last part of the SerDes check: with negotiation on, the link state from the codewords.\<close>

definition serdes_autoneg_state :: "unit io" where
  "serdes_autoneg_state = do {
     txcw \<leftarrow> er32 E1000_TXCW;
     if E1000_TXCW_ANE AND txcw \<noteq> 0
     then do {
       status \<leftarrow> er32 E1000_STATUS;
       if status AND E1000_STATUS_LU \<noteq> 0
       then do {
         usleep_range 10 20;
         rxcw \<leftarrow> er32 E1000_RXCW;
         if rxcw AND E1000_RXCW_SYNCH \<noteq> 0
         then set_serdes_has_link (rxcw AND E1000_RXCW_IV = 0)
         else set_serdes_has_link False }
       else set_serdes_has_link False }
     else return () }"

definition serdes_forced_state :: "unit io" where
  "serdes_forced_state = do {
     txcw \<leftarrow> er32 E1000_TXCW;
     if E1000_TXCW_ANE AND txcw = 0
     then do {
       usleep_range 10 20;
       rxcw \<leftarrow> er32 E1000_RXCW;
       if rxcw AND E1000_RXCW_SYNCH \<noteq> 0
       then (if rxcw AND E1000_RXCW_IV = 0 then set_serdes_has_link True else return ())
       else set_serdes_has_link False }
     else return () }"

definition e1000e_check_for_serdes_link :: "phy_ops \<Rightarrow> (s32 \<times> u16 \<times> u16) io \<Rightarrow> s32 io" where
  "e1000e_check_for_serdes_link ops get_link_up_info = do {
     ctrl \<leftarrow> er32 E1000_CTRL;
     status \<leftarrow> er32 E1000_STATUS;
     rxcw \<leftarrow> er32 E1000_RXCW;
     h \<leftarrow> get;
     if status AND E1000_STATUS_LU = 0 \<and> rxcw AND E1000_RXCW_C = 0
     then (if \<not> autoneg_failed (mac h)
           then do { set_mac (\<lambda>m. m\<lparr>autoneg_failed := True\<rparr>); return 0 }
           else do {
             ret_val \<leftarrow> force_link_up ops get_link_up_info;
             if ret_val \<noteq> 0 then return ret_val
             else do { serdes_autoneg_state; return 0 } })
     else do {
       (if ctrl AND E1000_CTRL_SLU \<noteq> 0 \<and> rxcw AND E1000_RXCW_C \<noteq> 0
        then stop_forcing_link ctrl else serdes_forced_state);
       serdes_autoneg_state;
       return 0 } }"

section \<open>Set up of the link\<close>

definition e1000_set_default_fc_generic :: "'x nvm_access_ops_scheme \<Rightarrow> s32 io" where
  "e1000_set_default_fc_generic ops = do {
     (ret_val, nvm_data) \<leftarrow> read_nvm_word ops NVM_INIT_CONTROL2_REG;
     if ret_val \<noteq> 0 then return ret_val
     else do {
       set_fc (\<lambda>f. f\<lparr>requested_mode :=
         (if nvm_data AND NVM_WORD0F_PAUSE_MASK = 0 then e1000_fc_none
          else if nvm_data AND NVM_WORD0F_PAUSE_MASK = NVM_WORD0F_ASM_DIR then e1000_fc_tx_pause
          else e1000_fc_full)\<rparr>);
       return 0 } }"

definition e1000e_setup_link_generic ::
  "'x nvm_access_ops_scheme \<Rightarrow> s32 io option \<Rightarrow> s32 io \<Rightarrow> s32 io" where
  "e1000e_setup_link_generic ops check_reset_block setup_physical_interface = do {
     blocked \<leftarrow> (case check_reset_block of None \<Rightarrow> return 0 | Some check \<Rightarrow> check);
     if blocked \<noteq> 0 then return 0
     else do {
       h \<leftarrow> get;
       ret_val \<leftarrow> (if requested_mode (fc h) = e1000_fc_default
         then e1000_set_default_fc_generic ops else return 0);
       if ret_val \<noteq> 0 then return ret_val
       else do {
         set_fc (\<lambda>f. f\<lparr>current_mode := requested_mode f\<rparr>);
         ret_val \<leftarrow> setup_physical_interface;
         if ret_val \<noteq> 0 then return ret_val
         else do {
           ew32 E1000_FCT FLOW_CONTROL_TYPE;
           ew32 E1000_FCAH FLOW_CONTROL_ADDRESS_HIGH;
           ew32 E1000_FCAL FLOW_CONTROL_ADDRESS_LOW;
           h \<leftarrow> get;
           ew32 E1000_FCTTV (ucast (pause_time (fc h)));
           e1000e_set_fc_watermarks } } } }"

definition fc_txcw :: "fc_mode \<Rightarrow> u32 option" where
  "fc_txcw mode =
     (case mode of
        e1000_fc_none \<Rightarrow> Some (E1000_TXCW_ANE OR E1000_TXCW_FD)
      | e1000_fc_rx_pause \<Rightarrow> Some (E1000_TXCW_ANE OR E1000_TXCW_FD OR E1000_TXCW_PAUSE_MASK)
      | e1000_fc_tx_pause \<Rightarrow> Some (E1000_TXCW_ANE OR E1000_TXCW_FD OR E1000_TXCW_ASM_DIR)
      | e1000_fc_full \<Rightarrow> Some (E1000_TXCW_ANE OR E1000_TXCW_FD OR E1000_TXCW_PAUSE_MASK)
      | e1000_fc_default \<Rightarrow> None)"

definition e1000_commit_fc_settings_generic :: "s32 io" where
  "e1000_commit_fc_settings_generic = do {
     h \<leftarrow> get;
     case fc_txcw (current_mode (fc h)) of
       None \<Rightarrow> return (- E1000_ERR_CONFIG)
     | Some v \<Rightarrow> do {
         ew32 E1000_TXCW v;
         set_mac (\<lambda>m. m\<lparr>txcw := v\<rparr>);
         return 0 } }"

definition e1000_poll_fiber_serdes_link_generic :: "s32 io \<Rightarrow> s32 io" where
  "e1000_poll_fiber_serdes_link_generic check_for_link = do {
     up \<leftarrow> poll FIBER_LINK_UP_LIMIT (do { usleep_range 10000 20000; er32 E1000_STATUS })
       (\<lambda>status. status AND E1000_STATUS_LU \<noteq> 0) (return ());
     case up of
       None \<Rightarrow> do {
         set_mac (\<lambda>m. m\<lparr>autoneg_failed := True\<rparr>);
         ret_val \<leftarrow> check_for_link;
         if ret_val \<noteq> 0 then return ret_val
         else do { set_mac (\<lambda>m. m\<lparr>autoneg_failed := False\<rparr>); return 0 } }
     | Some _ \<Rightarrow> do { set_mac (\<lambda>m. m\<lparr>autoneg_failed := False\<rparr>); return 0 } }"

definition e1000e_setup_fiber_serdes_link :: "unit io \<Rightarrow> s32 io \<Rightarrow> s32 io" where
  "e1000e_setup_fiber_serdes_link config_collision_dist check_for_link = do {
     ctrl \<leftarrow> er32 E1000_CTRL;
     let ctrl = ctrl AND NOT E1000_CTRL_LRST;
     config_collision_dist;
     ret_val \<leftarrow> e1000_commit_fc_settings_generic;
     if ret_val \<noteq> 0 then return ret_val
     else do {
       ew32 E1000_CTRL ctrl;
       e1e_flush;
       usleep_range 1000 2000;
       h \<leftarrow> get;
       signal \<leftarrow> (if media_type (phy h) = e1000_media_type_internal_serdes then return True
         else do { v \<leftarrow> er32 E1000_CTRL; return (v AND E1000_CTRL_SWDPIN1 \<noteq> 0) });
       if signal then e1000_poll_fiber_serdes_link_generic check_for_link
       else return ret_val } }"

text \<open>
  The pause table of IEEE 802.3 as the comments of the source print it, for a requested mode of
  full flow control: local pause and direction bit, partner's pause and direction bit.
\<close>

definition pause_table :: "bool \<times> bool \<Rightarrow> bool \<times> bool \<Rightarrow> fc_mode" where
  "pause_table loc partner =
     (case (loc, partner) of
        ((False, False), _) \<Rightarrow> e1000_fc_none
      | ((False, True), (False, _)) \<Rightarrow> e1000_fc_none
      | ((False, True), (True, False)) \<Rightarrow> e1000_fc_none
      | ((False, True), (True, True)) \<Rightarrow> e1000_fc_tx_pause
      | ((True, False), (False, _)) \<Rightarrow> e1000_fc_none
      | ((True, _), (True, _)) \<Rightarrow> e1000_fc_full
      | ((True, True), (False, False)) \<Rightarrow> e1000_fc_none
      | ((True, True), (False, True)) \<Rightarrow> e1000_fc_rx_pause)"

text \<open>For another requested mode, what would be full flow control only obeys pause frames.\<close>

definition pause_mode :: "fc_mode \<Rightarrow> bool \<times> bool \<Rightarrow> bool \<times> bool \<Rightarrow> fc_mode" where
  "pause_mode requested loc partner =
     (case pause_table loc partner of
        e1000_fc_full \<Rightarrow> if requested = e1000_fc_full then e1000_fc_full else e1000_fc_rx_pause
      | m \<Rightarrow> m)"

lemma resolve_pause_table:
  "resolve_pause requested ap aa lp la = pause_mode requested (ap, aa) (lp, la)"
  by (cases ap; cases aa; cases lp; cases la) (simp_all add: resolve_pause_def pause_table_def pause_mode_def)

text \<open>Can frames of pause be sent, and are received ones obeyed, in a mode?\<close>

definition sends_pause :: "fc_mode \<Rightarrow> bool" where
  "sends_pause m \<longleftrightarrow> m = e1000_fc_tx_pause \<or> m = e1000_fc_full"

definition obeys_pause :: "fc_mode \<Rightarrow> bool" where
  "obeys_pause m \<longleftrightarrow> m = e1000_fc_rx_pause \<or> m = e1000_fc_full"

lemma ctrl_fc_bits:
  "bit (E1000_CTRL_TFCE :: u32) n \<longleftrightarrow> n = 28" "bit (E1000_CTRL_RFCE :: u32) n \<longleftrightarrow> n = 27"
  using single_bit [of 28 n, where 'a = 32] single_bit [of 27 n, where 'a = 32] by simp_all

lemma force_fc_bits_modes:
  assumes "force_fc_bits m v = Some c"
  shows "bit c 28 = sends_pause m" "bit c 27 = obeys_pause m"
    "n \<noteq> 27 \<Longrightarrow> n \<noteq> 28 \<Longrightarrow> n < 32 \<Longrightarrow> bit c n = bit v n"
  using assms by (cases m; auto simp only: force_fc_bits_def sends_pause_def obeys_pause_def bit_or_iff bit_and_iff bit_not_iff ctrl_fc_bits fc_mode.simps option.inject; simp)+


lemma wp_force_mac_fc:
  assumes "current_mode (fc h) \<noteq> e1000_fc_default"
  shows "wp e1000e_force_mac_fc (\<lambda>r h'. r = 0 \<and> same_hw h h' \<and>
    (\<exists>c. last_write (trace h') E1000_CTRL = Some c \<and>
      bit c 28 = sends_pause (current_mode (fc h)) \<and> bit c 27 = obeys_pause (current_mode (fc h)))) h"
proof -
  obtain c where "force_fc_bits (current_mode (fc h)) (rdv E1000_CTRL h) = Some c"
    using assms by (cases "current_mode (fc h)") (auto simp: force_fc_bits_def)
  with force_fc_bits_modes [OF this] show ?thesis
    by (simp add: e1000e_force_mac_fc_def wp)
qed

definition steady_phy :: "phy_ops \<Rightarrow> (u32 \<Rightarrow> u16) \<Rightarrow> bool" where
  "steady_phy ops f \<longleftrightarrow> (\<forall>r. phy_read_reg ops r = return (0, f r))"

lemma wp_rphy [wp]:
  "steady_phy ops f \<Longrightarrow> wp (e1e_rphy ops r) Q = Q (0, f r)"
  by (simp add: e1e_rphy_def steady_phy_def wp)

text \<open>The abilities a PHY advertises and those of its partner: pause and direction bit.\<close>

definition local_pause :: "(u32 \<Rightarrow> u16) \<Rightarrow> bool \<times> bool" where
  "local_pause f = (f MII_ADVERTISE AND ADVERTISE_PAUSE_CAP \<noteq> 0, f MII_ADVERTISE AND ADVERTISE_PAUSE_ASYM \<noteq> 0)"

definition partner_pause :: "(u32 \<Rightarrow> u16) \<Rightarrow> bool \<times> bool" where
  "partner_pause f = (f MII_LPA AND LPA_PAUSE_CAP \<noteq> 0, f MII_LPA AND LPA_PAUSE_ASYM \<noteq> 0)"

text \<open>A copper link whose negotiation has ended, with the registers \<open>f\<close> in the PHY.\<close>

definition copper_up :: "phy_ops \<Rightarrow> (u32 \<Rightarrow> u16) \<Rightarrow> (s32 \<times> u16 \<times> u16) io \<Rightarrow> u16 \<Rightarrow> hw \<Rightarrow> bool" where
  "copper_up ops f info duplex h \<longleftrightarrow> steady_phy ops f \<and>
     (\<forall>h1. dev h1 = dev h \<longrightarrow> wp info (\<lambda>(r, s, d') h'. r = 0 \<and> d' = duplex \<and> same_hw h1 h') h1) \<and>
     media_type (phy h) = e1000_media_type_copper \<and> autoneg (mac h) \<and> \<not> autoneg_failed (mac h) \<and>
     f MII_BMSR AND BMSR_ANEGCOMPLETE \<noteq> 0 \<and> current_mode (fc h) \<noteq> e1000_fc_default"

definition copper_mode :: "(u32 \<Rightarrow> u16) \<Rightarrow> u16 \<Rightarrow> hw \<Rightarrow> fc_mode" where
  "copper_mode f duplex h = (if duplex = HALF_DUPLEX then e1000_fc_none
     else pause_mode (requested_mode (fc h)) (local_pause f) (partner_pause f))"

lemma wp_copper_up:
  assumes "copper_up ops f info duplex h"
  shows "wp (e1000e_config_fc_after_link_up ops info) (\<lambda>r h'. r = 0 \<and> current_mode (fc h') = copper_mode f duplex h \<and>
    (\<exists>c. last_write (trace h') E1000_CTRL = Some c \<and>
      bit c 28 = sends_pause (copper_mode f duplex h) \<and> bit c 27 = obeys_pause (copper_mode f duplex h))) h"
proof -
  have up: "steady_phy ops f" "media_type (phy h) = e1000_media_type_copper" "autoneg (mac h)" "\<not> autoneg_failed (mac h)"
    "f MII_BMSR AND BMSR_ANEGCOMPLETE \<noteq> 0" "current_mode (fc h) \<noteq> e1000_fc_default"
    and info: "\<And>h1. dev h1 = dev h \<Longrightarrow> wp info (\<lambda>(r, s, d') h'. r = 0 \<and> d' = duplex \<and> same_hw h1 h') h1"
    using assms by (simp_all add: copper_up_def)
  define m where "m = copper_mode f duplex h"
  have set: "m \<noteq> e1000_fc_default"
    by (auto simp: m_def copper_mode_def pause_mode_def pause_table_def local_pause_def partner_pause_def split: fc_mode.splits bool.splits)
  let ?post = "\<lambda>h'. current_mode (fc h') = m \<and> (\<exists>c. last_write (trace h') E1000_CTRL = Some c \<and>
        bit c 28 = sends_pause m \<and> bit c 27 = obeys_pause m)"
  have tail: "wp e1000e_force_mac_fc (\<lambda>r h'. r = 0 \<and> ?post h') h1" if "current_mode (fc h1) = m" for h1
    by (rule wp_mono [OF wp_force_mac_fc]) (use that set in \<open>auto simp: same_hw_iff\<close>)
  have copper: "wp (config_fc_copper ops info) (\<lambda>res h'. res = Inr 0 \<and> ?post h') h1"
    if "same_hw h h1" for h1
  proof -
    have req: "requested_mode (fc h1) = requested_mode (fc h)" using that by (simp add: same_hw_iff)
    show ?thesis
      unfolding config_fc_copper_def wp wp_rphy [OF up(1)] set_current_mode_def fst_conv snd_conv req resolve_pause_table
      using up(5) that
      by (auto intro!: wp_mono [OF info] wp_mono [OF tail]
          simp: m_def copper_mode_def local_pause_def partner_pause_def same_hw_iff)
  qed
  show ?thesis
    unfolding e1000e_config_fc_after_link_up_def Let_def wp m_def [symmetric]
    using up(2-4,6)
    by (auto intro!: wp_mono [OF wp_force_mac_fc] wp_mono [OF copper] simp: wp)
qed

text \<open>
  C28: after link up on copper with auto-negotiation done, \<open>e1000e_config_fc_after_link_up\<close>
  stores the flow control mode that the pause table of IEEE 802.3 gives for the two advertised
  abilities (none at half duplex; where the table says full and less was requested, pause frames
  are only obeyed), and the last value written to \<open>CTRL\<close> enables sending (TFCE) and obeying
  (RFCE) pause frames exactly as that mode says.
\<close>

theorem copper_flow_control:
  assumes "steady_phy ops f" and "\<And>h1. dev h1 = dev h \<Longrightarrow> wp info (\<lambda>(r, s, d') h'. r = 0 \<and> d' = duplex \<and> same_hw h1 h') h1"
    and "media_type (phy h) = e1000_media_type_copper" and "autoneg (mac h)" and "\<not> autoneg_failed (mac h)"
    and "f MII_BMSR AND BMSR_ANEGCOMPLETE \<noteq> 0" and "current_mode (fc h) \<noteq> e1000_fc_default"
  shows "let (r, h') = run_state (e1000e_config_fc_after_link_up ops info) h;
      table = pause_table (f MII_ADVERTISE AND ADVERTISE_PAUSE_CAP \<noteq> 0, f MII_ADVERTISE AND ADVERTISE_PAUSE_ASYM \<noteq> 0)
        (f MII_LPA AND LPA_PAUSE_CAP \<noteq> 0, f MII_LPA AND LPA_PAUSE_ASYM \<noteq> 0);
      m = (if duplex = HALF_DUPLEX then e1000_fc_none
        else if table = e1000_fc_full \<and> requested_mode (fc h) \<noteq> e1000_fc_full then e1000_fc_rx_pause else table)
    in r = 0 \<and> current_mode (fc h') = m \<and>
      (\<exists>c. last_write (trace h') E1000_CTRL = Some c \<and>
        bit c 28 = (m = e1000_fc_tx_pause \<or> m = e1000_fc_full) \<and> bit c 27 = (m = e1000_fc_rx_pause \<or> m = e1000_fc_full))"
proof -
  have "copper_up ops f info duplex h" using assms by (simp add: copper_up_def)
  moreover have "copper_mode f duplex h = (let table = pause_table (local_pause f) (partner_pause f) in
      if duplex = HALF_DUPLEX then e1000_fc_none
      else if table = e1000_fc_full \<and> requested_mode (fc h) \<noteq> e1000_fc_full then e1000_fc_rx_pause else table)"
    by (simp add: copper_mode_def pause_mode_def Let_def split: fc_mode.split)
  ultimately show ?thesis
    using wp_copper_up [of ops f info duplex h]
    unfolding wp_def local_pause_def partner_pause_def sends_pause_def obeys_pause_def by (simp add: case_prod_beta Let_def)
qed

text \<open>A PHY with the registers \<open>f\<close>.\<close>

definition table_phy :: "(u32 \<Rightarrow> u16) \<Rightarrow> phy_ops" where
  "table_phy f = \<lparr>phy_acquire = return 0, phy_release = return (),
     phy_read_reg = (\<lambda>r. return (0, f r)), phy_write_reg = (\<lambda>r v. return 0)\<rparr>"

lemma steady_table_phy: "steady_phy (table_phy f) f"
  by (simp add: steady_phy_def table_phy_def)

definition sample_phy_regs :: "u32 \<Rightarrow> u16" where
  "sample_phy_regs r = (if r = MII_BMSR then BMSR_ANEGCOMPLETE
     else if r = MII_ADVERTISE then ADVERTISE_PAUSE_CAP OR ADVERTISE_PAUSE_ASYM
     else if r = MII_LPA then LPA_PAUSE_ASYM else 0)"

theorem copper_flow_control_witness:
  "let (r, h') = run_state (e1000e_config_fc_after_link_up (table_phy sample_phy_regs)
       e1000e_get_speed_and_duplex_copper) (sample_hw (const_device E1000_STATUS_FD))
   in r = 0 \<and> current_mode (fc h') = e1000_fc_rx_pause"
proof -
  let ?h = "sample_hw (const_device E1000_STATUS_FD)"
  have "wp e1000e_get_speed_and_duplex_copper
      (\<lambda>(r, s, d') h'. r = 0 \<and> d' = FULL_DUPLEX \<and> same_hw h h') h"
    if "dev h = dev ?h" for h
    using that by (simp add: e1000e_get_speed_and_duplex_copper_def wp rdv_const_device)
  from copper_flow_control [OF steady_table_phy this, of ?h] show ?thesis
    by (auto simp: sample_phy_def sample_mac_def sample_phy_regs_def pause_table_def Let_def case_prod_beta)
qed

text \<open>
  C29: two link partners that both configure flow control with this routine after they have
  negotiated agree: where one enables sending pause frames, the other has enabled obeying them; each
  obeys them only if it has advertised it and the link is not half duplex; if both have advertised
  it and the link is full duplex both obey, and who has requested full flow control sends; and a
  station that has only advertised sending gets it from a partner that has advertised both.
\<close>

theorem pause_agreement:
  assumes "copper_up opsA fA infoA duplex hA" and "copper_up opsB fB infoB duplex hB"
    and "partner_pause fA = local_pause fB" and "partner_pause fB = local_pause fA"
    and "run_state (e1000e_config_fc_after_link_up opsA infoA) hA = (rA, hA')"
    and "run_state (e1000e_config_fc_after_link_up opsB infoB) hB = (rB, hB')"
  shows "\<exists>cA cB. last_write (trace hA') E1000_CTRL = Some cA \<and> last_write (trace hB') E1000_CTRL = Some cB \<and>
    (let sendA = bit cA 28; obeyA = bit cA 27; sendB = bit cB 28; obeyB = bit cB 27 in
      (sendA \<longrightarrow> obeyB) \<and> (sendB \<longrightarrow> obeyA) \<and>
      (obeyA \<longrightarrow> duplex \<noteq> HALF_DUPLEX \<and> fst (local_pause fA)) \<and>
      (obeyB \<longrightarrow> duplex \<noteq> HALF_DUPLEX \<and> fst (local_pause fB)) \<and>
      (duplex \<noteq> HALF_DUPLEX \<and> fst (local_pause fA) \<and> fst (local_pause fB) \<longrightarrow> obeyA \<and> obeyB \<and>
        sendA = (requested_mode (fc hA) = e1000_fc_full) \<and> sendB = (requested_mode (fc hB) = e1000_fc_full)) \<and>
      (duplex \<noteq> HALF_DUPLEX \<and> local_pause fA = (False, True) \<and> local_pause fB = (True, True) \<longrightarrow> sendA \<and> obeyB \<and> \<not> sendB))"
proof -
  obtain cA cB where c: "last_write (trace hA') E1000_CTRL = Some cA" "last_write (trace hB') E1000_CTRL = Some cB"
    "bit cA 28 = sends_pause (copper_mode fA duplex hA)" "bit cA 27 = obeys_pause (copper_mode fA duplex hA)"
    "bit cB 28 = sends_pause (copper_mode fB duplex hB)" "bit cB 27 = obeys_pause (copper_mode fB duplex hB)"
    using wpD [OF wp_copper_up [OF assms(1)] assms(5)] wpD [OF wp_copper_up [OF assms(2)] assms(6)] by blast
  obtain pa aa pb ab where p: "local_pause fA = (pa, aa)" "local_pause fB = (pb, ab)" by (metis surj_pair)
  show ?thesis
    by (intro exI conjI, rule c(1), rule c(2), unfold c(3-6) copper_mode_def assms(3,4) p Let_def,
        cases pa; cases aa; cases pb; cases ab)
      (simp_all add: pause_mode_def pause_table_def sends_pause_def obeys_pause_def)
qed

text \<open>One station that can only send pause frames, and one that can do both.\<close>

definition asym_phy_regs :: "u32 \<Rightarrow> u16" where
  "asym_phy_regs r = (if r = MII_BMSR then BMSR_ANEGCOMPLETE
     else if r = MII_ADVERTISE then ADVERTISE_PAUSE_ASYM
     else if r = MII_LPA then LPA_PAUSE_CAP OR LPA_PAUSE_ASYM else 0)"

lemma sample_copper_up:
  assumes "f MII_BMSR = BMSR_ANEGCOMPLETE"
  shows "copper_up (table_phy f) f e1000e_get_speed_and_duplex_copper FULL_DUPLEX (sample_hw (const_device E1000_STATUS_FD))"
  using assms steady_table_phy [of f]
  by (simp add: copper_up_def e1000e_get_speed_and_duplex_copper_def wp rdv_const_device sample_phy_def sample_mac_def)

theorem pause_agreement_witness:
  "let run = (\<lambda>f. snd (run_state (e1000e_config_fc_after_link_up (table_phy f) e1000e_get_speed_and_duplex_copper)
      (sample_hw (const_device E1000_STATUS_FD)))) in
    \<exists>cA cB. last_write (trace (run asym_phy_regs)) E1000_CTRL = Some cA \<and>
      last_write (trace (run sample_phy_regs)) E1000_CTRL = Some cB \<and> bit cA 28 \<and> bit cB 27 \<and> \<not> bit cB 28"
proof -
  have f: "asym_phy_regs MII_BMSR = BMSR_ANEGCOMPLETE" "sample_phy_regs MII_BMSR = BMSR_ANEGCOMPLETE"
    "local_pause asym_phy_regs = (False, True)" "partner_pause asym_phy_regs = (True, True)"
    "local_pause sample_phy_regs = (True, True)" "partner_pause sample_phy_regs = (False, True)"
    by (simp_all add: local_pause_def partner_pause_def asym_phy_regs_def sample_phy_regs_def)
  from pause_agreement [OF sample_copper_up [of asym_phy_regs, OF f(1)] sample_copper_up [of sample_phy_regs, OF f(2)] _ _ surjective_pairing surjective_pairing] f
  show ?thesis by (fastforce simp: Let_def)
qed

end
