(* ===== verification/Manage.thy ===== *)
theory Manage
  imports Nvm
begin

text \<open>
  \<open>manage.c\<close>: the host interface to the management firmware. Memory of the host interface
  is an array of dwords, little endian; the cookie and the command header are the bytes of their
  structures in memory order.
\<close>

unbundle bit_operations_syntax

section \<open>Bytes of dwords\<close>

definition bytes_of_dword :: "u32 \<Rightarrow> u8 list" where
  "bytes_of_dword v = [ucast v, ucast (drop_bit 8 v), ucast (drop_bit 16 v), ucast (drop_bit 24 v)]"

definition dword_of_bytes :: "u8 list \<Rightarrow> u32" where
  "dword_of_bytes bs = ucast (bs ! 0) OR push_bit 8 (ucast (bs ! 1)) OR
     push_bit 16 (ucast (bs ! 2)) OR push_bit 24 (ucast (bs ! 3))"

section \<open>Checksum and state of the interface\<close>

definition e1000_calculate_checksum :: "u8 list option \<Rightarrow> nat \<Rightarrow> u8" where
  "e1000_calculate_checksum buffer len =
     (case buffer of None \<Rightarrow> 0 | Some bs \<Rightarrow> 0 - sum_list (take len bs))"

definition e1000_mng_enable_host_if :: "s32 io" where
  "e1000_mng_enable_host_if = do {
     h \<leftarrow> get;
     if \<not> arc_subsystem_valid (mac h) then return (- E1000_ERR_HOST_INTERFACE_COMMAND)
     else do {
       hicr \<leftarrow> er32 E1000_HICR;
       if hicr AND E1000_HICR_EN = 0 then return (- E1000_ERR_HOST_INTERFACE_COMMAND)
       else do {
         previous \<leftarrow> poll E1000_MNG_DHCP_COMMAND_TIMEOUT (er32 E1000_HICR)
           (\<lambda>hicr. hicr AND E1000_HICR_C = 0) (mdelay 1);
         return (case previous of
             None \<Rightarrow> - E1000_ERR_HOST_INTERFACE_COMMAND | Some _ \<Rightarrow> 0) } } }"

definition e1000e_check_mng_mode_generic :: "bool io" where
  "e1000e_check_mng_mode_generic = do {
     fwsm \<leftarrow> er32 E1000_FWSM;
     return (fwsm AND E1000_FWSM_MODE_MASK = push_bit E1000_FWSM_MODE_SHIFT E1000_MNG_IAMT_MODE) }"

section \<open>Transmit filtering\<close>

text \<open>Members of the cookie: \<open>signature\<close>, \<open>status\<close> and \<open>checksum\<close>.\<close>

definition cookie_signature :: "u8 list \<Rightarrow> u32" where
  "cookie_signature c = dword_of_bytes (take 4 c)"

definition cookie_status :: "u8 list \<Rightarrow> u8" where
  "cookie_status c = c ! 4"

definition cookie_checksum :: "u8 list \<Rightarrow> u8" where
  "cookie_checksum c = c ! 15"

definition set_tx_pkt_filtering :: "bool \<Rightarrow> bool io" where
  "set_tx_pkt_filtering b = do { set_mac (\<lambda>m. m\<lparr>tx_pkt_filtering := b\<rparr>); return b }"

definition set_mng_cookie :: "(u8 list \<Rightarrow> u8 list) \<Rightarrow> unit io" where
  "set_mng_cookie f = modify (\<lambda>h. h\<lparr>mng_cookie := f (mng_cookie h)\<rparr>)"

fun read_cookie_loop :: "u32 \<Rightarrow> nat \<Rightarrow> nat \<Rightarrow> unit io" where
  "read_cookie_loop offset i 0 = return ()"
| "read_cookie_loop offset i (Suc n) = do {
     v \<leftarrow> E1000_READ_REG_ARRAY E1000_HOST_IF (offset + of_nat i);
     set_mng_cookie (\<lambda>c. take (4 * i) c @ bytes_of_dword v @ drop (4 * i + 4) c);
     read_cookie_loop offset (Suc i) n }"

definition e1000e_enable_tx_pkt_filtering :: "bool io \<Rightarrow> bool io" where
  "e1000e_enable_tx_pkt_filtering check_mng_mode = do {
     _ \<leftarrow> set_tx_pkt_filtering True;
     mng \<leftarrow> check_mng_mode;
     if \<not> mng then set_tx_pkt_filtering False
     else do {
       ret_val \<leftarrow> e1000_mng_enable_host_if;
       if ret_val \<noteq> 0 then set_tx_pkt_filtering False
       else do {
         read_cookie_loop (of_nat (E1000_MNG_DHCP_COOKIE_OFFSET div 4)) 0
           (E1000_MNG_DHCP_COOKIE_LENGTH div 4);
         h \<leftarrow> get;
         let hdr_csum = cookie_checksum (mng_cookie h);
         set_mng_cookie (\<lambda>c. c[15 := 0]);
         h \<leftarrow> get;
         let hdr = mng_cookie h;
         let csum = e1000_calculate_checksum (Some hdr) E1000_MNG_DHCP_COOKIE_LENGTH;
         if hdr_csum \<noteq> csum \<or> cookie_signature hdr \<noteq> E1000_IAMT_SIGNATURE
         then set_tx_pkt_filtering True
         else if cookie_status hdr AND E1000_MNG_DHCP_COOKIE_STATUS_PARSING = 0
         then set_tx_pkt_filtering False
         else return True } } }"

section \<open>Commands\<close>

record host_mng_command_header =
  command_id :: u8
  checksum :: u8
  reserved1 :: u16
  reserved2 :: u16
  command_length :: u16

definition header_bytes :: "host_mng_command_header \<Rightarrow> u8 list" where
  "header_bytes hdr =
     [command_id hdr, checksum hdr, ucast (reserved1 hdr), ucast (drop_bit 8 (reserved1 hdr)),
      ucast (reserved2 hdr), ucast (drop_bit 8 (reserved2 hdr)),
      ucast (command_length hdr), ucast (drop_bit 8 (command_length hdr))]"

fun write_header_loop :: "u8 list \<Rightarrow> nat \<Rightarrow> nat \<Rightarrow> unit io" where
  "write_header_loop bs i 0 = return ()"
| "write_header_loop bs i (Suc n) = do {
     E1000_WRITE_REG_ARRAY E1000_HOST_IF (of_nat i) (dword_of_bytes (drop (4 * i) bs));
     e1e_flush;
     write_header_loop bs (Suc i) n }"

text \<open>The length of the header is 8 bytes, two dwords.\<close>

definition e1000_mng_write_cmd_header :: "host_mng_command_header \<Rightarrow> s32 io" where
  "e1000_mng_write_cmd_header hdr = do {
     let hdr = hdr\<lparr>checksum := e1000_calculate_checksum (Some (header_bytes hdr)) 8\<rparr>;
     write_header_loop (header_bytes hdr) 0 2;
     return 0 }"

text \<open>
  The write of a buffer in its three parts: up to the first dword boundary, whole dwords, and the
  bytes left over, filled up with zeros. \<open>bufptr\<close> is an index into the buffer.
\<close>

definition host_if_head :: "u8 list \<Rightarrow> nat \<Rightarrow> u16 \<Rightarrow> u16 \<Rightarrow> u8 \<Rightarrow> (nat \<times> u16 \<times> u16 \<times> u8) io" where
  "host_if_head buffer prev_bytes len offset acc = do {
     data \<leftarrow> E1000_READ_REG_ARRAY E1000_HOST_IF (ucast offset);
     let taken = 4 - prev_bytes;
     let bs = map (\<lambda>j. buffer ! j) [0 ..< taken];
     E1000_WRITE_REG_ARRAY E1000_HOST_IF (ucast offset)
       (dword_of_bytes (take prev_bytes (bytes_of_dword data) @ bs));
     return (taken, len - of_nat taken, offset + 1, acc + sum_list bs) }"

fun host_if_dwords :: "u8 list \<Rightarrow> nat \<Rightarrow> u16 \<Rightarrow> nat \<Rightarrow> nat \<Rightarrow> u8 \<Rightarrow> (nat \<times> u8) io" where
  "host_if_dwords buffer bufptr offset i 0 acc = return (bufptr, acc)"
| "host_if_dwords buffer bufptr offset i (Suc n) acc = do {
     let bs = map (\<lambda>j. buffer ! (bufptr + j)) [0 ..< 4];
     E1000_WRITE_REG_ARRAY E1000_HOST_IF (ucast offset + of_nat i) (dword_of_bytes bs);
     host_if_dwords buffer (bufptr + 4) offset (Suc i) n (acc + sum_list bs) }"

definition e1000_mng_host_if_write :: "u8 list \<Rightarrow> u16 \<Rightarrow> u16 \<Rightarrow> u8 \<Rightarrow> (s32 \<times> u8) io" where
  "e1000_mng_host_if_write buffer len offset acc =
     (if len = 0 \<or> unat offset + unat len > E1000_HI_MAX_MNG_DATA_LENGTH
      then return (- E1000_ERR_PARAM, acc)
      else do {
        let prev_bytes = unat (offset AND 0x3);
        let offset = drop_bit 2 offset;
        (bufptr, len, offset, acc) \<leftarrow>
          (if prev_bytes \<noteq> 0 then host_if_head buffer prev_bytes len offset acc
           else return (0, len, offset, acc));
        let remaining = unat (len AND 0x3);
        let dwords = unat (drop_bit 2 (len - of_nat remaining));
        (bufptr, acc) \<leftarrow> host_if_dwords buffer bufptr offset 0 dwords acc;
        (if remaining \<noteq> 0
         then do {
           let bs = map (\<lambda>j. if j < remaining then buffer ! (bufptr + j) else 0) [0 ..< 4];
           E1000_WRITE_REG_ARRAY E1000_HOST_IF (ucast offset + of_nat dwords) (dword_of_bytes bs);
           return (0, acc + sum_list bs) }
         else return (0, acc)) })"

definition e1000e_mng_write_dhcp_info :: "u8 list \<Rightarrow> u16 \<Rightarrow> s32 io" where
  "e1000e_mng_write_dhcp_info buffer len = do {
     let hdr = \<lparr>command_id = E1000_MNG_DHCP_TX_PAYLOAD_CMD, checksum = 0, reserved1 = 0,
       reserved2 = 0, command_length = len\<rparr>;
     ret_val \<leftarrow> e1000_mng_enable_host_if;
     if ret_val \<noteq> 0 then return ret_val
     else do {
       (ret_val, acc) \<leftarrow> e1000_mng_host_if_write buffer len 8 (checksum hdr);
       let hdr = hdr\<lparr>checksum := acc\<rparr>;
       if ret_val \<noteq> 0 then return ret_val
       else do {
         ret_val \<leftarrow> e1000_mng_write_cmd_header hdr;
         if ret_val \<noteq> 0 then return ret_val
         else do {
           hicr \<leftarrow> er32 E1000_HICR;
           ew32 E1000_HICR (hicr OR E1000_HICR_C);
           return 0 } } } }"

section \<open>Pass-through\<close>

text \<open>\<open>e1000_mng_mode_pt\<close> is 2.\<close>

definition e1000e_enable_mng_pass_thru :: "'x nvm_access_ops_scheme \<Rightarrow> bool io" where
  "e1000e_enable_mng_pass_thru ops = do {
     h \<leftarrow> get;
     manc \<leftarrow> er32 E1000_MANC;
     if manc AND E1000_MANC_RCV_TCO_EN = 0 then return False
     else if has_fwsm (mac h)
     then do {
       fwsm \<leftarrow> er32 E1000_FWSM;
       factps \<leftarrow> er32 E1000_FACTPS;
       return (factps AND E1000_FACTPS_MNGCG = 0 \<and>
         fwsm AND E1000_FWSM_MODE_MASK = push_bit E1000_FWSM_MODE_SHIFT 2) }
     else if mac_type (mac h) = e1000_82574 \<or> mac_type (mac h) = e1000_82583
     then do {
       factps \<leftarrow> er32 E1000_FACTPS;
       (ret_val, data) \<leftarrow> read_nvm_word ops NVM_INIT_CONTROL2_REG;
       return (ret_val = 0 \<and> factps AND E1000_FACTPS_MNGCG = 0 \<and>
         data AND ucast E1000_NVM_INIT_CTRL2_MNGM = push_bit 13 2) }
     else return (manc AND E1000_MANC_SMBUS_EN \<noteq> 0 \<and> manc AND E1000_MANC_ASF_EN = 0) }"

section \<open>Contents of the host interface\<close>

lemma bytes_of_dword_of_bytes:
  assumes "length bs = 4"
  shows "bytes_of_dword (dword_of_bytes bs) = bs"
proof -
  obtain a b c d where bs: "bs = [a, b, c, d]"
    using assms by (auto simp: numeral_eq_Suc length_Suc_conv)
  have "ucast (ucast a OR push_bit 8 (ucast b) OR push_bit 16 (ucast c) OR push_bit 24 (ucast d) :: u32) = a"
    "ucast (drop_bit 8 (ucast a OR push_bit 8 (ucast b) OR push_bit 16 (ucast c) OR push_bit 24 (ucast d) :: u32)) = b"
    "ucast (drop_bit 16 (ucast a OR push_bit 8 (ucast b) OR push_bit 16 (ucast c) OR push_bit 24 (ucast d) :: u32)) = c"
    "ucast (drop_bit 24 (ucast a OR push_bit 8 (ucast b) OR push_bit 16 (ucast c) OR push_bit 24 (ucast d) :: u32)) = d"
    by (auto intro!: bit_word_eqI simp: bit_simps byte_bit_high)
  then show ?thesis by (simp add: bs bytes_of_dword_def dword_of_bytes_def)
qed

text \<open>Address of dword \<open>i\<close> of the host interface, and what was last written to it.\<close>

definition hif_addr :: "nat \<Rightarrow> u32" where
  "hif_addr i = E1000_HOST_IF + push_bit 2 (of_nat i)"

definition hif :: "hw \<Rightarrow> nat \<Rightarrow> u32 option" where
  "hif h i = last_write (trace h) (hif_addr i)"

lemma unat_hif_addr: "i < 448 \<Longrightarrow> unat (hif_addr i) = 0x8800 + 4 * i"
  by (simp add: hif_addr_def push_bit_eq_mult unat_word_ariths unat_of_nat)

lemma hif_addr_eq: "i < 448 \<Longrightarrow> j < 448 \<Longrightarrow> hif_addr i = hif_addr j \<longleftrightarrow> i = j"
  by (simp only: word_unat_eq_iff unat_hif_addr) simp

lemma hif_wr:
  "i < 448 \<Longrightarrow> j < 448 \<Longrightarrow> hif (wr (hif_addr j) v h) i = (if i = j then Some v else hif h i)"
  by (auto simp: hif_def hif_addr_eq)

lemma hif_other:
  assumes "i < 448" and "unat r < 0x8800 \<or> 0x8F00 \<le> unat r"
  shows "hif (wr r v h) i = hif h i"
proof -
  have "r \<noteq> hif_addr i" using unat_hif_addr [OF assms(1)] assms by auto
  then show ?thesis by (simp add: hif_def)
qed

lemma hif_quiet [simp]:
  "hif (rd r h) i = hif h i" "hif (log_event (Delay n) h) i = hif h i"
  by (simp_all add: hif_def)

lemma write_hif:
  "run_state (E1000_WRITE_REG_ARRAY E1000_HOST_IF (of_nat i) v) h = ((), wr (hif_addr i) v h)"
  by (simp add: E1000_WRITE_REG_ARRAY_def hif_addr_def)

lemma wp_write_hif [wp]:
  "wp (E1000_WRITE_REG_ARRAY E1000_HOST_IF (of_nat i) v) Q = (\<lambda>h. Q () (wr (hif_addr i) v h))"
  unfolding wp_def by (simp only: write_hif fst_conv snd_conv)

definition dword_at :: "u8 list \<Rightarrow> nat \<Rightarrow> u32" where
  "dword_at buffer p = dword_of_bytes (map (\<lambda>j. buffer ! (p + j)) [0 ..< 4])"

lemma wp_host_if_dwords:
  assumes "unat off + i + n \<le> 448"
  shows "wp (host_if_dwords buffer p off i n acc) (\<lambda>(p', acc') h'. same_hw h h' \<and> p' = p + 4 * n \<and>
      acc' = acc + sum_list (map (\<lambda>j. buffer ! j) [p ..< p + 4 * n]) \<and>
      (\<forall>m < n. hif h' (unat off + i + m) = Some (dword_at buffer (p + 4 * m))) \<and>
      (\<forall>k < 448. k < unat off + i \<or> unat off + i + n \<le> k \<longrightarrow> hif h' k = hif h k)) h"
  using assms
proof (induction n arbitrary: p i acc h)
  case 0
  then show ?case by (auto simp: wp)
next
  case (Suc n)
  have addr: "ucast off + of_nat i = (of_nat (unat off + i) :: u32)"
    by (simp add: word_unat_eq_iff unat_word_ariths unat_of_nat mod_simps)
  have up: "[p ..< p + 4 * Suc n] = [p, p + 1, p + 2, p + 3] @ [p + 4 ..< p + 4 + 4 * n]"
    using upt_add_eq_append [of p "p + 4" "4 * n"] by (simp add: upt_conv_Cons numeral_eq_Suc del: upt_Suc)
  have four: "map (\<lambda>j. buffer ! (p + j)) [0 ..< 4] = map (\<lambda>j. buffer ! j) [p, p + 1, p + 2, p + 3]"
    by (simp add: upt_rec numeral_eq_Suc)
  have step: "P m" if "m < Suc n" "P 0" "\<And>m'. m' < n \<Longrightarrow> P (Suc m')" for m and P :: "nat \<Rightarrow> bool"
    using that by (cases m) auto
  show ?case
    unfolding host_if_dwords.simps Let_def wp addr dword_at_def [symmetric] up
  proof (rule wp_mono [OF Suc.IH], goal_cases)
    case (2 x h')
    obtain p' acc' where x: "x = (p', acc')" by fastforce
    have old: "hif h' k = hif (wr (hif_addr (unat off + i)) (dword_at buffer p) h) k"
      if "k < 448" "k < unat off + Suc i \<or> unat off + Suc i + n \<le> k" for k
      using 2 that by (auto simp: x)
    have fresh: "hif h' (unat off + Suc i + m) = Some (dword_at buffer (p + 4 + 4 * m))" if "m < n" for m
      using 2 that by (auto simp: x)
    have "hif h' (unat off + i + m) = Some (dword_at buffer (p + 4 * m))" if "m < Suc n" for m
      using that
    proof (rule step)
      show "hif h' (unat off + i + 0) = Some (dword_at buffer (p + 4 * 0))"
        using old [of "unat off + i"] Suc.prems by (simp add: hif_wr)
      show "hif h' (unat off + i + Suc m') = Some (dword_at buffer (p + 4 * Suc m'))" if "m' < n" for m'
        using fresh [OF that] by (simp add: add.assoc)
    qed
    moreover have "hif h' k = hif h k" if "k < 448" "k < unat off + i \<or> unat off + i + Suc n \<le> k" for k
      using old [of k] that Suc.prems by (auto simp: hif_wr)
    ultimately show ?case using 2 by (simp add: x four add.assoc)
  qed (use Suc.prems in simp)
qed


text \<open>The buffer filled up with zeros to whole dwords.\<close>

definition padded :: "u8 list \<Rightarrow> nat \<Rightarrow> u8 list" where
  "padded buffer n = map (\<lambda>j. if j < n then buffer ! j else 0) [0 ..< 4 * ((n + 3) div 4)]"

lemma length_padded [simp]: "length (padded buffer n) = 4 * ((n + 3) div 4)"
  by (simp add: padded_def)

lemma padded_parts:
  fixes n :: nat
  defines "d \<equiv> n div 4" and "r \<equiv> n mod 4"
  shows "r = 0 \<Longrightarrow> padded buffer n = map (\<lambda>j. buffer ! j) [0 ..< 4 * d]"
    and "r \<noteq> 0 \<Longrightarrow> padded buffer n = map (\<lambda>j. buffer ! j) [0 ..< 4 * d] @
      map (\<lambda>j. if j < r then buffer ! (4 * d + j) else 0) [0 ..< 4]"
proof -
  have n: "n = 4 * d + r" "r < 4" by (simp_all add: d_def r_def)
  show "padded buffer n = map (\<lambda>j. buffer ! j) [0 ..< 4 * d]" if "r = 0"
    using n that by (auto simp: padded_def)
  assume "r \<noteq> 0"
  then have "(n + 3) div 4 = d + 1" using n by simp
  moreover have "map (\<lambda>j. if j < r then buffer ! (4 * d + j) else 0) [0 ..< 4]
      = map (\<lambda>j. if j < n then buffer ! j else 0) [4 * d ..< 4 * d + 4]"
    using n by (intro nth_equalityI) simp_all
  moreover have "map (\<lambda>j. buffer ! j) [0 ..< 4 * d] = map (\<lambda>j. if j < n then buffer ! j else 0) [0 ..< 4 * d]"
    using n by simp
  ultimately show "padded buffer n = map (\<lambda>j. buffer ! j) [0 ..< 4 * d] @
      map (\<lambda>j. if j < r then buffer ! (4 * d + j) else 0) [0 ..< 4]"
    using upt_add_eq_append [of 0 "4 * d" 4] unfolding padded_def by (simp only: add_mult_distrib2 mult_1_right map_append)
qed

lemma dword_at_padded:
  assumes "m < n div 4"
  shows "dword_at (padded buffer n) (4 * m) = dword_at buffer (4 * m)"
proof -
  have "padded buffer n ! (4 * m + j) = buffer ! (4 * m + j)" if "j < 4" for j
  proof -
    have "4 * m + j < n" using assms that by arith
    then show ?thesis using that by (simp add: padded_def)
  qed
  then show ?thesis by (auto simp: dword_at_def intro!: arg_cong [where f = dword_of_bytes])
qed

lemma dword_at_append:
  assumes "length bs = 4"
  shows "dword_at (xs @ bs) (length xs) = dword_of_bytes bs"
proof -
  have "map (\<lambda>j. bs ! j) [0 ..< 4] = bs" using map_nth [of bs] by (simp only: assms)
  then show ?thesis by (simp add: dword_at_def nth_append)
qed

lemma word_split4:
  fixes len :: u16
  shows "unat (len AND 0x3) = unat len mod 4"
    and "unat (drop_bit 2 (len - of_nat (unat len mod 4))) = unat len div 4"
proof -
  have "len AND 0x3 = take_bit 2 len" by (simp add: take_bit_eq_mask mask_eq_exp_minus_1)
  then have m: "unat (len AND 0x3) = unat len mod 4"
    by (simp only: unsigned_take_bit_eq) (simp add: take_bit_eq_mod)
  then show "unat (len AND 0x3) = unat len mod 4" .
  have "unat (len - of_nat (unat len mod 4)) = unat len - unat len mod 4"
    by (subst unat_sub) (simp_all add: word_le_nat_alt unat_of_nat)
  then show "unat (drop_bit 2 (len - of_nat (unat len mod 4))) = unat len div 4"
    by (simp only: unat_drop_bit_eq) (simp add: drop_bit_eq_div minus_mod_eq_mult_div)
qed


lemma dwords_cover:
  fixes m n :: nat
  assumes "m < (n + 3) div 4"
  shows "m < n div 4 \<or> n mod 4 \<noteq> 0 \<and> m = n div 4"
proof -
  define d r where "d = n div 4" and "r = n mod 4"
  then have n: "n = 4 * d + r" "r < 4" by simp_all
  then have "(n + 3) div 4 = (if r = 0 then d else d + 1)" by auto
  with assms show ?thesis by (auto simp: d_def [symmetric] r_def [symmetric] split: if_splits)
qed

lemma wp_host_if_write:
  assumes "0 < len" and "unat len \<le> 1776"
  shows "wp (e1000_mng_host_if_write buffer len 8 acc) (\<lambda>(r, acc') h'. r = 0 \<and> same_hw h h' \<and>
      acc' = acc + sum_list (padded buffer (unat len)) \<and>
      (\<forall>m < (unat len + 3) div 4. hif h' (2 + m) = Some (dword_at (padded buffer (unat len)) (4 * m)))) h"
proof -
  let ?n = "unat len" and ?d = "unat len div 4" and ?r = "unat len mod 4"
  have bound: "\<not> (len = 0 \<or> unat (8 :: u16) + ?n > E1000_HI_MAX_MNG_DATA_LENGTH)"
    using assms by auto
  have off: "unat (drop_bit 2 (8 :: u16)) = 2" "unat ((8 :: u16) AND 0x3) = 0" by simp_all
  have fits: "unat (drop_bit 2 (8 :: u16)) + 0 + ?d \<le> 448" using assms(2) by simp
  have addr: "ucast (drop_bit 2 (8 :: u16)) + of_nat ?d = (of_nat (2 + ?d) :: u32)" by simp
  let ?last = "map (\<lambda>j. if j < ?r then buffer ! (4 * ?d + j) else 0) [0 ..< 4]"
  have sum_parts: "sum_list (padded buffer ?n) = sum_list (map ((!) buffer) [0 ..< 4 * ?d]) +
      (if ?r = 0 then 0 else sum_list ?last)"
    using padded_parts [of ?n buffer] by (auto simp: o_def)
  have last: "dword_of_bytes ?last = dword_at (padded buffer ?n) (4 * ?d)" if "?r \<noteq> 0"
    using padded_parts(2) [OF that, of buffer]
      dword_at_append [of ?last "map ((!) buffer) [0 ..< 4 * ?d]"] by simp
  have cover: "m < ?d \<or> ?r \<noteq> 0 \<and> m = ?d" if "m < (?n + 3) div 4" for m
    using that by (rule dwords_cover)
  have zero: "(unat (8 :: u16) mod 4 \<noteq> 0) = False" "(unat (8 :: u16) mod 4 = 0) = True" by simp_all
  show ?thesis
    unfolding e1000_mng_host_if_write_def if_not_P [OF bound] Let_def wp
    apply (simp only: off zero simp_thms wp fst_conv snd_conv word_split4 addr)
  proof (rule wp_mono [OF wp_host_if_dwords [OF fits]], goal_cases)
    case (1 x h1)
    have x: "fst x = 4 * ?d" "snd x = acc + sum_list (map ((!) buffer) [0 ..< 4 * ?d])" "same_hw h h1"
      using 1 by (auto simp: case_prod_beta)
    have dws: "hif h1 (2 + m) = Some (dword_at (padded buffer ?n) (4 * m))" if "m < ?d" for m
      using 1 that dword_at_padded [OF that, of buffer] by (auto simp: case_prod_beta off)
    have bound: "2 + ?d < 448" if "?r \<noteq> 0" using assms(2) by simp
    have "hif (wr (hif_addr (2 + ?d)) (dword_of_bytes ?last) h1) (2 + m)
        = Some (dword_at (padded buffer ?n) (4 * m))" if "?r \<noteq> 0" "m < (?n + 3) div 4" for m
      using cover [OF that(2)] dws bound last that(1) by (auto simp: hif_wr)
    moreover have "hif h1 (2 + m) = Some (dword_at (padded buffer ?n) (4 * m))"
      if "?r = 0" "m < (?n + 3) div 4" for m
      using cover [OF that(2)] dws that(1) by auto
    ultimately show ?case unfolding x using x(3) sum_parts by (auto simp: add.assoc)
  qed
qed


lemma concat_dwords:
  "4 * n \<le> length xs \<Longrightarrow> concat (map (\<lambda>m. bytes_of_dword (dword_at xs (4 * m))) [0 ..< n]) = take (4 * n) xs"
proof (induction n)
  case (Suc n)
  have "map (\<lambda>j. xs ! (4 * n + j)) [0 ..< 4] = take 4 (drop (4 * n) xs)"
    using Suc.prems by (intro nth_equalityI) simp_all
  then have "bytes_of_dword (dword_at xs (4 * n)) = take 4 (drop (4 * n) xs)"
    using Suc.prems by (simp add: dword_at_def bytes_of_dword_of_bytes)
  moreover have "take (4 * Suc n) xs = take (4 * n) xs @ take 4 (drop (4 * n) xs)"
    by (metis mult_Suc_right add.commute take_add)
  ultimately show ?case using Suc by simp
qed simp

text \<open>The bytes of the first \<open>n\<close> dwords of the host interface.\<close>

definition hif_bytes :: "hw \<Rightarrow> nat \<Rightarrow> u8 list" where
  "hif_bytes h n = concat (map (\<lambda>i. bytes_of_dword (the (hif h i))) [0 ..< n])"

lemma length_header [simp]: "length (header_bytes hdr) = 8"
  by (simp add: header_bytes_def)

lemma header_dwords:
  "bytes_of_dword (dword_of_bytes (header_bytes hdr)) @ bytes_of_dword (dword_of_bytes (drop 4 (header_bytes hdr)))
    = header_bytes hdr"
proof -
  have four: "dword_of_bytes (take 4 xs) = dword_of_bytes xs" for xs by (simp add: dword_of_bytes_def)
  show ?thesis
    using bytes_of_dword_of_bytes [of "take 4 (header_bytes hdr)"]
      bytes_of_dword_of_bytes [of "drop 4 (header_bytes hdr)"]
    by (simp add: four)
qed

lemma header_checksum:
  "sum_list (header_bytes (hdr\<lparr>checksum := 0 - sum_list (header_bytes hdr)\<rparr>)) = - checksum hdr"
  by (simp add: header_bytes_def algebra_simps)

lemma wp_write_header:
  "wp (e1000_mng_write_cmd_header hdr) (\<lambda>r h'. r = 0 \<and>
     (let hdr' = hdr\<lparr>checksum := 0 - sum_list (header_bytes hdr)\<rparr> in
      hif h' 0 = Some (dword_of_bytes (header_bytes hdr')) \<and>
      hif h' 1 = Some (dword_of_bytes (drop 4 (header_bytes hdr')))) \<and>
     (\<forall>k < 448. 2 \<le> k \<longrightarrow> hif h' k = hif h k)) h"
  unfolding e1000_mng_write_cmd_header_def Let_def numeral_2_eq_2 write_header_loop.simps wp
  by (simp add: e1000_calculate_checksum_def hif_wr)

lemma hif_bytes_block:
  assumes "hif h 0 = Some (dword_of_bytes (header_bytes hdr))"
    and "hif h 1 = Some (dword_of_bytes (drop 4 (header_bytes hdr)))"
    and "\<forall>m < n. hif h (2 + m) = Some (dword_at pad (4 * m))" and "length pad = 4 * n"
  shows "hif_bytes h (2 + n) = header_bytes hdr @ pad"
proof -
  have idx: "[0 ..< 2 + n] = [0, 1] @ map (\<lambda>m. 2 + m) [0 ..< n]"
    using map_add_upt [of 2 n] by (simp add: upt_conv_Cons add.commute numeral_2_eq_2 del: upt_Suc)
  have dws: "map (\<lambda>m. bytes_of_dword (the (hif h (2 + m)))) [0 ..< n]
      = map (\<lambda>m. bytes_of_dword (dword_at pad (4 * m))) [0 ..< n]"
    using assms(3) by simp
  have "hif_bytes h (2 + n) = (bytes_of_dword (dword_of_bytes (header_bytes hdr)) @
      bytes_of_dword (dword_of_bytes (drop 4 (header_bytes hdr)))) @
      concat (map (\<lambda>m. bytes_of_dword (the (hif h (2 + m)))) [0 ..< n])"
    unfolding hif_bytes_def idx using assms(1,2) by (simp add: o_def)
  then show ?thesis
    unfolding dws header_dwords using concat_dwords [of n pad] assms(4) by simp
qed

text \<open>
  C33: when \<open>e1000e_mng_write_dhcp_info\<close> succeeds, the host interface holds the header (command
  number and length) followed by the buffer, padded with zeros to whole dwords, and the bytes
  of header and data sum to 0.
\<close>

theorem dhcp_info_written:
  assumes "run_state (e1000e_mng_write_dhcp_info buffer len) h = (0, h')"
  shows "let block = hif_bytes h' (2 + (unat len + 3) div 4) in
    block ! 0 = E1000_MNG_DHCP_TX_PAYLOAD_CMD \<and>
    drop 6 (take 8 block) = [ucast len, ucast (drop_bit 8 len)] \<and>
    drop 8 block = padded buffer (unat len) \<and> sum_list block = 0"
proof -
  let ?n = "(unat len + 3) div 4" and ?pad = "padded buffer (unat len)"
  let ?hdr = "\<lparr>command_id = E1000_MNG_DHCP_TX_PAYLOAD_CMD, checksum = sum_list ?pad, reserved1 = 0,
       reserved2 = 0, command_length = len\<rparr>"
  let ?hdr' = "?hdr\<lparr>checksum := 0 - sum_list (header_bytes ?hdr)\<rparr>"
  let ?post = "\<lambda>h'. hif_bytes h' (2 + ?n) = header_bytes ?hdr' @ ?pad"
  have finish: "wp (e1000_mng_write_cmd_header ?hdr) (\<lambda>r h'. r = 0 \<and>
      ?post (wr E1000_HICR (rdv E1000_HICR h' OR E1000_HICR_C) (rd E1000_HICR h'))) h2"
    if "unat len \<le> 1776" "\<forall>m < ?n. hif h2 (2 + m) = Some (dword_at ?pad (4 * m))" for h2
  proof (rule wp_mono [OF wp_write_header], goal_cases)
    case (1 r h3)
    have "2 + m < 448" if "m < ?n" for m using that \<open>unat len \<le> 1776\<close> by simp
    then show ?case using 1 that(2)
      by (intro conjI hif_bytes_block) (auto simp: Let_def hif_other)
  qed
  have filled: "wp (e1000_mng_host_if_write buffer len 8 0) (\<lambda>(r, acc) h2. r = 0 \<longrightarrow>
      acc = sum_list ?pad \<and> unat len \<le> 1776 \<and> (\<forall>m < ?n. hif h2 (2 + m) = Some (dword_at ?pad (4 * m)))) h1" for h1
  proof (cases "0 < len \<and> unat len \<le> 1776")
    case True
    then show ?thesis by (intro wp_mono [OF wp_host_if_write]) auto
  next
    case False
    then have "len = 0 \<or> unat (8 :: u16) + unat len > E1000_HI_MAX_MNG_DATA_LENGTH"
      by (auto simp: word_gt_0)
    then show ?thesis unfolding e1000_mng_host_if_write_def by (simp only: if_True wp) simp
  qed
  have "wp (e1000e_mng_write_dhcp_info buffer len) (\<lambda>r h'. r = 0 \<longrightarrow> ?post h') h"
    unfolding e1000e_mng_write_dhcp_info_def Let_def wp
  proof (rule wpI, intro conjI impI, goal_cases)
    case (2 r h1)
    have header: "wp (e1000_mng_write_cmd_header (\<lparr>command_id = E1000_MNG_DHCP_TX_PAYLOAD_CMD, checksum = 0,
        reserved1 = 0, reserved2 = 0, command_length = len\<rparr>\<lparr>checksum := snd x\<rparr>)) (\<lambda>r h'. r = 0 \<and>
        ?post (wr E1000_HICR (rdv E1000_HICR h' OR E1000_HICR_C) (rd E1000_HICR h'))) h2"
      if "(case x of (r, acc) \<Rightarrow> \<lambda>h2. r = 0 \<longrightarrow> acc = sum_list ?pad \<and> unat len \<le> 1776 \<and>
        (\<forall>m < ?n. hif h2 (2 + m) = Some (dword_at ?pad (4 * m)))) h2" "fst x = 0" for x h2
      using that finish [of h2] by (simp add: case_prod_beta)
    show ?case
      unfolding host_mng_command_header.simps(2)
      apply (rule wp_mono [OF filled], intro conjI impI)
      subgoal by simp
      subgoal for x h2 by (rule wp_mono [OF header]) auto
      done
  qed simp
  from wpD [OF this assms] have "?post h'" by simp
  moreover have "sum_list (header_bytes ?hdr') = - sum_list ?pad"
    using header_checksum [of ?hdr] by simp
  ultimately show ?thesis by (simp add: header_bytes_def)
qed


lemma enable_host_if_ready:
  assumes "arc_subsystem_valid (mac h)" and "dev h = const_device E1000_HICR_EN"
  shows "run_state e1000_mng_enable_host_if h = (0, rd E1000_HICR (rd E1000_HICR h))"
  using assms by (simp add: e1000_mng_enable_host_if_def poll_numeral)

definition arc_hw :: hw where
  "arc_hw = (sample_hw (const_device E1000_HICR_EN))\<lparr>mac := sample_mac\<lparr>arc_subsystem_valid := True\<rparr>\<rparr>"

lemma dhcp_info_sample:
  assumes "0 < len" and "unat len \<le> 1776"
  shows "wp (e1000e_mng_write_dhcp_info buffer len) (\<lambda>r h'. r = 0) arc_hw"
proof -
  have e: "run_state e1000_mng_enable_host_if arc_hw = (0, rd E1000_HICR (rd E1000_HICR arc_hw))"
    by (rule enable_host_if_ready) (simp_all add: arc_hw_def)
  show ?thesis
    unfolding e1000e_mng_write_dhcp_info_def Let_def wp wp_run [OF e]
    apply (simp only: simp_thms host_mng_command_header.simps)
    apply (rule wp_mono [OF wp_host_if_write [OF assms]])
    apply (intro conjI impI)
    subgoal by auto
    subgoal by (rule wp_mono [OF wp_write_header]) auto
    done
qed

theorem dhcp_info_written_witness:
  "drop 8 (hif_bytes (snd (run_state (e1000e_mng_write_dhcp_info [1, 2, 3, 4, 5] 5) arc_hw)) 4)
     = [1, 2, 3, 4, 5, 0, 0, 0]"
proof -
  have "run_state (e1000e_mng_write_dhcp_info [1, 2, 3, 4, 5] 5) arc_hw
      = (0, snd (run_state (e1000e_mng_write_dhcp_info [1, 2, 3, 4, 5] 5) arc_hw))"
    using dhcp_info_sample [of 5 "[1, 2, 3, 4, 5]"] by (simp add: wp_def prod_eq_iff)
  from dhcp_info_written [OF this] show ?thesis by (simp add: Let_def padded_def upt_rec)
qed

end
