(* ===== verification/Ich8_Flash.thy ===== *)
theory Ich8_Flash
  imports Nvm
begin

text \<open>
  The flash controller of \<open>ich8lan.c\<close>: one hardware-sequenced cycle, reads and writes of
  bytes, words and dwords with their retries, the erase of a bank, and the detection of the
  bank that holds a valid image.
\<close>

unbundle bit_operations_syntax

section \<open>Status and control register\<close>

definition flcdone :: "u16 \<Rightarrow> bool" where "flcdone v = bit v 0"
definition flcerr :: "u16 \<Rightarrow> bool" where "flcerr v = bit v 1"
definition berasesz :: "u16 \<Rightarrow> u16" where "berasesz v = take_bit 2 (drop_bit 3 v)"
definition flcinprog :: "u16 \<Rightarrow> bool" where "flcinprog v = bit v 5"
definition fldesvalid :: "u16 \<Rightarrow> bool" where "fldesvalid v = bit v 14"

definition set_flcdone :: "u16 \<Rightarrow> u16" where "set_flcdone v = v OR 0x1"
definition set_flcerr :: "u16 \<Rightarrow> u16" where "set_flcerr v = v OR 0x2"
definition set_dael :: "u16 \<Rightarrow> u16" where "set_dael v = v OR 0x4"

definition set_flcgo :: "u16 \<Rightarrow> u16" where "set_flcgo v = v OR 0x1"

definition set_flcycle :: "u16 \<Rightarrow> u16 \<Rightarrow> u16" where
  "set_flcycle c v = (v AND NOT 0x6) OR push_bit 1 (take_bit 2 c)"

definition set_fldbcount :: "u16 \<Rightarrow> u16 \<Rightarrow> u16" where
  "set_fldbcount n v = (v AND NOT 0x300) OR push_bit 8 (take_bit 2 n)"

text \<open>
  From SPT on, the registers are reached 32 bits at a time: status in the low, control in the
  high half of the same dword.
\<close>

definition write_hsfsts :: "u16 \<Rightarrow> unit io" where
  "write_hsfsts v = do {
     h \<leftarrow> get;
     if mac_type (mac h) \<ge> e1000_pch_spt then ew32flash ICH_FLASH_HSFSTS (ucast v AND 0xFFFF)
     else ew16flash ICH_FLASH_HSFSTS v }"

definition read_hsfctl :: "u16 io" where
  "read_hsfctl = do {
     h \<leftarrow> get;
     if mac_type (mac h) \<ge> e1000_pch_spt
     then do { v \<leftarrow> er32flash ICH_FLASH_HSFSTS; return (ucast (drop_bit 16 v)) }
     else er16flash ICH_FLASH_HSFCTL }"

definition write_hsfctl :: "u16 \<Rightarrow> unit io" where
  "write_hsfctl v = do {
     h \<leftarrow> get;
     if mac_type (mac h) \<ge> e1000_pch_spt then ew32flash ICH_FLASH_HSFSTS (push_bit 16 (ucast v))
     else ew16flash ICH_FLASH_HSFCTL v }"

section \<open>One cycle\<close>

definition e1000_flash_cycle_init_ich8lan :: "s32 io" where
  "e1000_flash_cycle_init_ich8lan = do {
     hsfsts \<leftarrow> er16flash ICH_FLASH_HSFSTS;
     if \<not> fldesvalid hsfsts then return (- E1000_ERR_NVM)
     else do {
       let hsfsts = set_dael (set_flcerr hsfsts);
       write_hsfsts hsfsts;
       if \<not> flcinprog hsfsts
       then do { write_hsfsts (set_flcdone hsfsts); return 0 }
       else do {
         idle \<leftarrow> poll ICH_FLASH_READ_COMMAND_TIMEOUT (er16flash ICH_FLASH_HSFSTS)
           (\<lambda>hsfsts. \<not> flcinprog hsfsts) (udelay 1);
         case idle of
           Some hsfsts \<Rightarrow> do { write_hsfsts (set_flcdone hsfsts); return 0 }
         | None \<Rightarrow> return (- E1000_ERR_NVM) } } }"

definition e1000_flash_cycle_ich8lan :: "nat \<Rightarrow> s32 io" where
  "e1000_flash_cycle_ich8lan timeout = do {
     hsflctl \<leftarrow> read_hsfctl;
     write_hsfctl (set_flcgo hsflctl);
     hsfsts \<leftarrow> poll (Suc timeout) (er16flash ICH_FLASH_HSFSTS) flcdone (udelay 1);
     return (case hsfsts of
         Some hsfsts \<Rightarrow> (if \<not> flcerr hsfsts then 0 else - E1000_ERR_NVM)
       | None \<Rightarrow> - E1000_ERR_NVM) }"

text \<open>After a failed cycle: try again unless the cycle neither failed nor finished.\<close>

definition flash_cycle_again :: "bool io" where
  "flash_cycle_again = do {
     hsfsts \<leftarrow> er16flash ICH_FLASH_HSFSTS;
     return (flcerr hsfsts \<or> flcdone hsfsts) }"

section \<open>Reads\<close>

definition flash_linear :: "u32 \<Rightarrow> u32 \<Rightarrow> u32" where
  "flash_linear base offset = (ICH_FLASH_LINEAR_ADDR_MASK AND offset) + base"

definition read_flash_data_attempt :: "u32 \<Rightarrow> u8 \<Rightarrow> u16 \<Rightarrow> (bool \<times> s32 \<times> u16) io" where
  "read_flash_data_attempt addr nbytes data = do {
     udelay 1;
     ret_val \<leftarrow> e1000_flash_cycle_init_ich8lan;
     if ret_val \<noteq> 0 then return (False, ret_val, data)
     else do {
       hsflctl \<leftarrow> er16flash ICH_FLASH_HSFCTL;
       let hsflctl = set_flcycle ICH_CYCLE_READ (set_fldbcount (ucast nbytes - 1) hsflctl);
       ew16flash ICH_FLASH_HSFCTL hsflctl;
       ew32flash ICH_FLASH_FADDR addr;
       ret_val \<leftarrow> e1000_flash_cycle_ich8lan ICH_FLASH_READ_COMMAND_TIMEOUT;
       if ret_val = 0
       then do {
         flash_data \<leftarrow> er32flash ICH_FLASH_FDATA0;
         return (False, 0,
           if nbytes = 1 then ucast (ucast (flash_data AND 0x000000FF) :: u8)
           else if nbytes = 2 then ucast (flash_data AND 0x0000FFFF)
           else data) }
       else do { again \<leftarrow> flash_cycle_again; return (again, ret_val, data) } } }"

definition e1000_read_flash_data_ich8lan :: "u32 \<Rightarrow> u8 \<Rightarrow> u16 \<Rightarrow> (s32 \<times> u16) io" where
  "e1000_read_flash_data_ich8lan offset nbytes data = do {
     h \<leftarrow> get;
     if nbytes < 1 \<or> nbytes > 2 \<or> offset > ICH_FLASH_LINEAR_ADDR_MASK
     then return (- E1000_ERR_NVM, data)
     else retry ICH_FLASH_CYCLE_REPEAT_COUNT
       (read_flash_data_attempt (flash_linear (flash_base_addr (nvm h)) offset) nbytes data) }"

definition read_flash_data32_attempt :: "u32 \<Rightarrow> u32 \<Rightarrow> (bool \<times> s32 \<times> u32) io" where
  "read_flash_data32_attempt addr data = do {
     udelay 1;
     ret_val \<leftarrow> e1000_flash_cycle_init_ich8lan;
     if ret_val \<noteq> 0 then return (False, ret_val, data)
     else do {
       v \<leftarrow> er32flash ICH_FLASH_HSFSTS;
       let hsflctl = set_flcycle ICH_CYCLE_READ (set_fldbcount (4 - 1) (ucast (drop_bit 16 v)));
       ew32flash ICH_FLASH_HSFSTS (push_bit 16 (ucast hsflctl));
       ew32flash ICH_FLASH_FADDR addr;
       ret_val \<leftarrow> e1000_flash_cycle_ich8lan ICH_FLASH_READ_COMMAND_TIMEOUT;
       if ret_val = 0
       then do { v \<leftarrow> er32flash ICH_FLASH_FDATA0; return (False, 0, v) }
       else do { again \<leftarrow> flash_cycle_again; return (again, ret_val, data) } } }"

definition e1000_read_flash_data32_ich8lan :: "u32 \<Rightarrow> u32 \<Rightarrow> (s32 \<times> u32) io" where
  "e1000_read_flash_data32_ich8lan offset data = do {
     h \<leftarrow> get;
     if offset > ICH_FLASH_LINEAR_ADDR_MASK \<or> mac_type (mac h) < e1000_pch_spt
     then return (- E1000_ERR_NVM, data)
     else retry ICH_FLASH_CYCLE_REPEAT_COUNT
       (read_flash_data32_attempt (flash_linear (flash_base_addr (nvm h)) offset) data) }"

definition e1000_read_flash_dword_ich8lan :: "u32 \<Rightarrow> u32 \<Rightarrow> (s32 \<times> u32) io" where
  "e1000_read_flash_dword_ich8lan offset data =
     e1000_read_flash_data32_ich8lan (push_bit 1 offset) data"

definition e1000_read_flash_word_ich8lan :: "u32 \<Rightarrow> u16 \<Rightarrow> (s32 \<times> u16) io" where
  "e1000_read_flash_word_ich8lan offset data =
     e1000_read_flash_data_ich8lan (push_bit 1 offset) 2 data"

definition e1000_read_flash_byte_ich8lan :: "u32 \<Rightarrow> u8 \<Rightarrow> (s32 \<times> u8) io" where
  "e1000_read_flash_byte_ich8lan offset data = do {
     h \<leftarrow> get;
     if mac_type (mac h) \<ge> e1000_pch_spt then return (- E1000_ERR_NVM, data)
     else do {
       (ret_val, word) \<leftarrow> e1000_read_flash_data_ich8lan offset 1 0;
       if ret_val \<noteq> 0 then return (ret_val, data)
       else return (0, ucast word) } }"

section \<open>Writes\<close>

text \<open>One attempt of the two write routines, which differ in the size and the data.\<close>

definition write_flash_attempt :: "u32 \<Rightarrow> u16 \<Rightarrow> u32 \<Rightarrow> (bool \<times> s32) io" where
  "write_flash_attempt addr dbcount flash_data = do {
     udelay 1;
     ret_val \<leftarrow> e1000_flash_cycle_init_ich8lan;
     if ret_val \<noteq> 0 then return (False, ret_val)
     else do {
       hsflctl \<leftarrow> read_hsfctl;
       let hsflctl = set_flcycle ICH_CYCLE_WRITE (set_fldbcount dbcount hsflctl);
       write_hsfctl hsflctl;
       ew32flash ICH_FLASH_FADDR addr;
       ew32flash ICH_FLASH_FDATA0 flash_data;
       ret_val \<leftarrow> e1000_flash_cycle_ich8lan ICH_FLASH_WRITE_COMMAND_TIMEOUT;
       if ret_val = 0 then return (False, 0)
       else do { again \<leftarrow> flash_cycle_again; return (again, ret_val) } } }"

definition e1000_write_flash_data_ich8lan :: "u32 \<Rightarrow> u8 \<Rightarrow> u16 \<Rightarrow> s32 io" where
  "e1000_write_flash_data_ich8lan offset nbytes data = do {
     h \<leftarrow> get;
     if (if mac_type (mac h) \<ge> e1000_pch_spt
         then nbytes \<noteq> 4 \<or> offset > ICH_FLASH_LINEAR_ADDR_MASK
         else nbytes < 1 \<or> nbytes > 2 \<or> offset > ICH_FLASH_LINEAR_ADDR_MASK)
     then return (- E1000_ERR_NVM)
     else retry ICH_FLASH_CYCLE_REPEAT_COUNT
       (write_flash_attempt (flash_linear (flash_base_addr (nvm h)) offset) (ucast nbytes - 1)
         (if nbytes = 1 then ucast data AND 0x00FF else ucast data)) }"

definition e1000_write_flash_data32_ich8lan :: "u32 \<Rightarrow> u32 \<Rightarrow> s32 io" where
  "e1000_write_flash_data32_ich8lan offset data = do {
     h \<leftarrow> get;
     if mac_type (mac h) \<ge> e1000_pch_spt \<and> offset > ICH_FLASH_LINEAR_ADDR_MASK
     then return (- E1000_ERR_NVM)
     else retry ICH_FLASH_CYCLE_REPEAT_COUNT
       (write_flash_attempt (flash_linear (flash_base_addr (nvm h)) offset) (4 - 1) data) }"

definition e1000_write_flash_byte_ich8lan :: "u32 \<Rightarrow> u8 \<Rightarrow> s32 io" where
  "e1000_write_flash_byte_ich8lan offset data = e1000_write_flash_data_ich8lan offset 1 (ucast data)"

text \<open>The retries on top: up to a hundred more calls, each after a sleep.\<close>

fun program_retry :: "nat \<Rightarrow> s32 io \<Rightarrow> s32 io" where
  "program_retry 0 write = return (- E1000_ERR_NVM)"
| "program_retry (Suc n) write = do {
     usleep_range 100 200;
     ret_val \<leftarrow> write;
     if ret_val = 0 then return 0 else program_retry n write }"

definition e1000_retry_write_flash_dword_ich8lan :: "u32 \<Rightarrow> u32 \<Rightarrow> s32 io" where
  "e1000_retry_write_flash_dword_ich8lan offset dword = do {
     let offset = push_bit 1 offset;
     ret_val \<leftarrow> e1000_write_flash_data32_ich8lan offset dword;
     if ret_val = 0 then return ret_val
     else program_retry 100 (e1000_write_flash_data32_ich8lan offset dword) }"

definition e1000_retry_write_flash_byte_ich8lan :: "u32 \<Rightarrow> u8 \<Rightarrow> s32 io" where
  "e1000_retry_write_flash_byte_ich8lan offset byte = do {
     ret_val \<leftarrow> e1000_write_flash_byte_ich8lan offset byte;
     if ret_val = 0 then return ret_val
     else program_retry 100 (e1000_write_flash_byte_ich8lan offset byte) }"

section \<open>Erase\<close>

text \<open>Size of a hardware sector and number of sectors of a bank of \<open>n\<close> bytes.\<close>

definition erase_geometry :: "u16 \<Rightarrow> u32 \<Rightarrow> u32 \<times> nat" where
  "erase_geometry size_code n =
     (if size_code = 0 then (ICH_FLASH_SEG_SIZE_256, unat (n div ICH_FLASH_SEG_SIZE_256))
      else if size_code = 1 then (ICH_FLASH_SEG_SIZE_4K, 1)
      else if size_code = 2 then (ICH_FLASH_SEG_SIZE_8K, 1)
      else (ICH_FLASH_SEG_SIZE_64K, 1))"

text \<open>
  The attempts at sector \<open>j\<close>. \<open>addr\<close> and \<open>count\<close> live across the sectors; the result
  is the code to return at once (if any), the new \<open>addr\<close> and the new \<open>count\<close>.
\<close>

function erase_sector :: "nat \<Rightarrow> u32 \<Rightarrow> u32 \<Rightarrow> nat \<Rightarrow> (s32 option \<times> u32 \<times> nat) io" where
  "erase_sector j sector_size addr count = do {
     ret_val \<leftarrow> e1000_flash_cycle_init_ich8lan;
     (if ret_val \<noteq> 0 then return (Some ret_val, addr, count)
      else do {
        hsflctl \<leftarrow> read_hsfctl;
        let hsflctl = set_flcycle ICH_CYCLE_ERASE hsflctl;
        write_hsfctl hsflctl;
        let addr = addr + of_nat j * sector_size;
        ew32flash ICH_FLASH_FADDR addr;
        ret_val \<leftarrow> e1000_flash_cycle_ich8lan ICH_FLASH_ERASE_COMMAND_TIMEOUT;
        if ret_val = 0 then return (None, addr, count)
        else do {
          again \<leftarrow> flash_cycle_again;
          (if \<not> again then return (Some ret_val, addr, count)
           else (if count + 1 < ICH_FLASH_CYCLE_REPEAT_COUNT
                 then erase_sector j sector_size addr (count + 1)
                 else return (None, addr, count + 1))) } }) }"
  by pat_completeness auto
termination
  by (relation "measure (\<lambda>(j, sector_size, addr, count). 10 - count)") auto

declare erase_sector.simps [simp del]

text \<open>The sectors from \<open>j\<close> on, \<open>n\<close> of them.\<close>

fun erase_sectors :: "nat \<Rightarrow> nat \<Rightarrow> u32 \<Rightarrow> u32 \<Rightarrow> nat \<Rightarrow> s32 io" where
  "erase_sectors j 0 sector_size addr count = return 0"
| "erase_sectors j (Suc n) sector_size addr count = do {
     (stop, addr, count) \<leftarrow> erase_sector j sector_size addr count;
     case stop of
       Some ret_val \<Rightarrow> return ret_val
     | None \<Rightarrow> erase_sectors (Suc j) n sector_size addr count }"

definition e1000_erase_flash_bank_ich8lan :: "u32 \<Rightarrow> s32 io" where
  "e1000_erase_flash_bank_ich8lan bank = do {
     h \<leftarrow> get;
     let flash_bank_bytes = flash_bank_size (nvm h) * 2;
     hsfsts \<leftarrow> er16flash ICH_FLASH_HSFSTS;
     let (sector_size, iteration) = erase_geometry (berasesz hsfsts) flash_bank_bytes;
     let addr = flash_base_addr (nvm h) + (if bank \<noteq> 0 then flash_bank_bytes else 0);
     erase_sectors 0 iteration sector_size addr 0 }"

section \<open>The valid bank\<close>

definition nvm_sig_valid :: "u8 \<Rightarrow> bool" where
  "nvm_sig_valid sig_byte \<longleftrightarrow> sig_byte AND E1000_ICH_NVM_VALID_SIG_MASK = E1000_ICH_NVM_SIG_VALUE"

definition bank_detect_spt :: "(s32 \<times> u32) io" where
  "bank_detect_spt = do {
     h \<leftarrow> get;
     let bank1_offset = flash_bank_size (nvm h);
     let act_offset = E1000_ICH_NVM_SIG_WORD;
     (ret_val, nvm_dword) \<leftarrow> e1000_read_flash_dword_ich8lan act_offset 0;
     if ret_val \<noteq> 0 then return (ret_val, 0)
     else if nvm_sig_valid (ucast (drop_bit 8 (nvm_dword AND 0xFF00))) then return (0, 0)
     else do {
       (ret_val, nvm_dword) \<leftarrow> e1000_read_flash_dword_ich8lan (act_offset + bank1_offset) nvm_dword;
       if ret_val \<noteq> 0 then return (ret_val, 0)
       else if nvm_sig_valid (ucast (drop_bit 8 (nvm_dword AND 0xFF00))) then return (0, 1)
       else return (- E1000_ERR_NVM, 0) } }"

definition bank_detect_signature :: "(s32 \<times> u32) io" where
  "bank_detect_signature = do {
     h \<leftarrow> get;
     let bank1_offset = flash_bank_size (nvm h) * 2;
     let act_offset = E1000_ICH_NVM_SIG_WORD * 2 + 1;
     (ret_val, sig_byte) \<leftarrow> e1000_read_flash_byte_ich8lan act_offset 0;
     if ret_val \<noteq> 0 then return (ret_val, 0)
     else if nvm_sig_valid sig_byte then return (0, 0)
     else do {
       (ret_val, sig_byte) \<leftarrow> e1000_read_flash_byte_ich8lan (act_offset + bank1_offset) sig_byte;
       if ret_val \<noteq> 0 then return (ret_val, 0)
       else if nvm_sig_valid sig_byte then return (0, 1)
       else return (- E1000_ERR_NVM, 0) } }"

text \<open>The code and the number of the bank.\<close>

definition e1000_valid_nvm_bank_detect_ich8lan :: "(s32 \<times> u32) io" where
  "e1000_valid_nvm_bank_detect_ich8lan = do {
     h \<leftarrow> get;
     if mac_type (mac h) = e1000_pch_spt \<or> mac_type (mac h) = e1000_pch_cnp then bank_detect_spt
     else if mac_type (mac h) = e1000_ich8lan \<or> mac_type (mac h) = e1000_ich9lan
     then do {
       eecd \<leftarrow> er32 E1000_EECD;
       if eecd AND E1000_EECD_SEC1VAL_VALID_MASK = E1000_EECD_SEC1VAL_VALID_MASK
       then return (0, if eecd AND E1000_EECD_SEC1VAL \<noteq> 0 then 1 else 0)
       else bank_detect_signature }
     else bank_detect_signature }"

end
