(* ===== verification/Flash_Part.thy ===== *)
theory Flash_Part
  imports Ich8_Flash
begin

text \<open>
  The flash part behind \<open>Ich8_Flash\<close>: what the controller has been told, as a function of the
  history; what a part promises (the bytes may change at any moment, but only as the command
  in flight allows, and a clean done status means completion); and, for any such part, what one
  cycle, the reads, the writes with their retries and the erase of a bank do to the bytes, at the
  end and at every moment on the way. At the end, a concrete part that keeps the promise.
\<close>

unbundle bit_operations_syntax

section \<open>What the controller has been told\<close>

text \<open>
  A command of the controller: cycle type, number of bytes, linear address and data. A command
  in flight carries next to it whether the done flag had been cleared before it was started,
  since without that the flag may still speak of the command before.
\<close>

datatype flash_cmd = Flash_Cmd (cmd_cycle: u16) (cmd_bytes: nat) (cmd_addr: u32) (cmd_data: u32)

record flash_regs =
  fr_ctl :: u16
  fr_addr :: u32
  fr_data :: u32
  fr_idle :: bool
  fr_cleared :: bool
  fr_cmd :: "(flash_cmd \<times> bool) option"

definition ctl_cycle :: "u16 \<Rightarrow> u16" where "ctl_cycle c = take_bit 2 (drop_bit 1 c)"
definition ctl_count :: "u16 \<Rightarrow> u16" where "ctl_count c = take_bit 2 (drop_bit 8 c)"

text \<open>An erase has no byte count, and only a write has data.\<close>

definition make_cmd :: "u16 \<Rightarrow> u16 \<Rightarrow> u32 \<Rightarrow> u32 \<Rightarrow> flash_cmd" where
  "make_cmd cycle count addr data =
     Flash_Cmd cycle (if cycle = ICH_CYCLE_ERASE then 0 else unat count + 1) addr
       (if cycle = ICH_CYCLE_WRITE then data else 0)"

definition start_command :: "u16 \<Rightarrow> flash_regs \<Rightarrow> flash_regs" where
  "start_command c s =
     (if bit c 0
      then s\<lparr>fr_ctl := c, fr_idle := False, fr_cleared := False,
        fr_cmd := Some (make_cmd (ctl_cycle c) (ctl_count c) (fr_addr s) (fr_data s), fr_cleared s)\<rparr>
      else s\<lparr>fr_ctl := c\<rparr>)"

definition write_status :: "u16 \<Rightarrow> flash_regs \<Rightarrow> flash_regs" where
  "write_status v s = (if bit v 0 then s\<lparr>fr_cleared := fr_idle s\<rparr> else s)"

definition read_status :: "u16 \<Rightarrow> flash_regs \<Rightarrow> flash_regs" where
  "read_status v s = s\<lparr>fr_idle := \<not> flcinprog v,
     fr_cmd := (if flcdone v \<and> \<not> flcerr v then None else fr_cmd s)\<rparr>"

fun flash_regs_step :: "event \<Rightarrow> flash_regs \<Rightarrow> flash_regs" where
  "flash_regs_step (FlashReadW r v) s = (if r = ICH_FLASH_HSFSTS then read_status v s else s)"
| "flash_regs_step (FlashWriteW r v) s =
     (if r = ICH_FLASH_HSFSTS then write_status v s
      else if r = ICH_FLASH_HSFCTL then start_command v s else s)"
| "flash_regs_step (FlashWriteL r v) s =
     (if r = ICH_FLASH_HSFSTS then start_command (ucast (drop_bit 16 v)) (write_status (ucast v) s)
      else if r = ICH_FLASH_FADDR then s\<lparr>fr_addr := v\<rparr>
      else if r = ICH_FLASH_FDATA0 then s\<lparr>fr_data := v\<rparr> else s)"
| "flash_regs_step _ s = s"

fun flash_regs_of :: "event list \<Rightarrow> flash_regs" where
  "flash_regs_of [] = \<lparr>fr_ctl = 0, fr_addr = 0, fr_data = 0, fr_idle = False, fr_cleared = False,
     fr_cmd = None\<rparr>"
| "flash_regs_of (e # t) = flash_regs_step e (flash_regs_of t)"

section \<open>What the part promises\<close>

text \<open>The sector of the size a code stands for that holds an address.\<close>

definition sector_bits :: "u16 \<Rightarrow> nat" where
  "sector_bits code = (if code = 0 then 8 else if code = 1 then 12 else if code = 2 then 13 else 16)"

definition same_sector :: "u16 \<Rightarrow> u32 \<Rightarrow> u32 \<Rightarrow> bool" where
  "same_sector code a b \<longleftrightarrow> drop_bit (sector_bits code) a = drop_bit (sector_bits code) b"

definition cmd_byte :: "flash_cmd \<Rightarrow> nat \<Rightarrow> u8" where
  "cmd_byte c k = ucast (drop_bit (8 * k) (cmd_data c))"

text \<open>
  How the bytes may change while a command is in flight, at any moment and in any number of
  steps: a write clears bits of the bytes it addresses towards its data, an erase sets whole
  bytes of its sector to 0xFF, nothing else changes anything.
\<close>

definition flash_effect :: "u16 \<Rightarrow> flash_cmd \<Rightarrow> (u32 \<Rightarrow> u8) \<Rightarrow> (u32 \<Rightarrow> u8) \<Rightarrow> bool" where
  "flash_effect code c m m' \<longleftrightarrow>
     (\<forall>x. m' x = m x \<or>
       cmd_cycle c = ICH_CYCLE_WRITE \<and> (\<exists>k < cmd_bytes c. x = cmd_addr c + of_nat k \<and>
         (\<forall>i. (bit (m' x) i \<longrightarrow> bit (m x) i) \<and> (bit (m x) i \<longrightarrow> bit (cmd_byte c k) i \<longrightarrow> bit (m' x) i))) \<or>
       cmd_cycle c = ICH_CYCLE_ERASE \<and> same_sector code x (cmd_addr c) \<and> m' x = 0xFF)"

definition flash_completed :: "u16 \<Rightarrow> flash_cmd \<Rightarrow> (u32 \<Rightarrow> u8) \<Rightarrow> bool" where
  "flash_completed code c m \<longleftrightarrow>
     (cmd_cycle c = ICH_CYCLE_WRITE \<longrightarrow>
        (\<forall>k < cmd_bytes c. \<forall>i. bit (m (cmd_addr c + of_nat k)) i \<longrightarrow> bit (cmd_byte c k) i)) \<and>
     (cmd_cycle c = ICH_CYCLE_ERASE \<longrightarrow> (\<forall>x. same_sector code x (cmd_addr c) \<longrightarrow> m x = 0xFF))"

lemma read_effect: "flash_effect code c m m' \<Longrightarrow> cmd_cycle c = ICH_CYCLE_READ \<Longrightarrow> m' = m"
  by (auto simp: flash_effect_def)

definition in_flight :: "event list \<Rightarrow> (flash_cmd \<times> bool) option" where
  "in_flight t = fr_cmd (flash_regs_of t)"

text \<open>
  A flash part with its controller: the control register reads back its cycle and count, with
  the start bit clear; the sector size is fixed; the bytes change only as the command in flight
  allows; and a status that shows done without error, for a command started with the done flag
  cleared, means that the command is complete, and for a read that the data register holds the
  bytes.
\<close>

definition flash_part :: "device \<Rightarrow> u16 \<Rightarrow> bool" where
  "flash_part d code \<longleftrightarrow>
     (\<forall>t. let v = dev_flash_readw d t ICH_FLASH_HSFCTL; c = fr_ctl (flash_regs_of t) in
        \<not> bit v 0 \<and> ctl_cycle v = ctl_cycle c \<and> ctl_count v = ctl_count c) \<and>
     (\<forall>t. let v = ucast (drop_bit 16 (dev_flash_readl d t ICH_FLASH_HSFSTS)); c = fr_ctl (flash_regs_of t) in
        \<not> bit v 0 \<and> ctl_cycle v = ctl_cycle c \<and> ctl_count v = ctl_count c) \<and>
     (\<forall>t. berasesz (dev_flash_readw d t ICH_FLASH_HSFSTS) = code) \<and>
     (\<forall>e t. case in_flight (e # t) of
         None \<Rightarrow> dev_flash_mem d (e # t) = dev_flash_mem d t
       | Some (c, _) \<Rightarrow> flash_effect code c (dev_flash_mem d t) (dev_flash_mem d (e # t))) \<and>
     (\<forall>t c. in_flight t = Some (c, True) \<longrightarrow>
        (let v = dev_flash_readw d t ICH_FLASH_HSFSTS in
         flcdone v \<and> \<not> flcerr v \<longrightarrow>
           flash_completed code c (dev_flash_mem d t) \<and>
           (cmd_cycle c = ICH_CYCLE_READ \<longrightarrow> (\<forall>k < cmd_bytes c.
              ucast (drop_bit (8 * k) (dev_flash_readl d (FlashReadW ICH_FLASH_HSFSTS v # t) ICH_FLASH_FDATA0)) =
              dev_flash_mem d t (cmd_addr c + of_nat k)))))"

lemma flash_part_ctl:
  assumes "flash_part d code"
  shows "\<not> bit (dev_flash_readw d t ICH_FLASH_HSFCTL) 0"
    "ctl_cycle (dev_flash_readw d t ICH_FLASH_HSFCTL) = ctl_cycle (fr_ctl (flash_regs_of t))"
    "ctl_count (dev_flash_readw d t ICH_FLASH_HSFCTL) = ctl_count (fr_ctl (flash_regs_of t))"
    "\<not> bit (ucast (drop_bit 16 (dev_flash_readl d t ICH_FLASH_HSFSTS)) :: u16) 0"
    "ctl_cycle (ucast (drop_bit 16 (dev_flash_readl d t ICH_FLASH_HSFSTS))) = ctl_cycle (fr_ctl (flash_regs_of t))"
    "ctl_count (ucast (drop_bit 16 (dev_flash_readl d t ICH_FLASH_HSFSTS))) = ctl_count (fr_ctl (flash_regs_of t))"
    "berasesz (dev_flash_readw d t ICH_FLASH_HSFSTS) = code"
  using assms unfolding flash_part_def Let_def by blast+

lemma flash_part_step:
  assumes "flash_part d code"
  shows "case in_flight (e # t) of
      None \<Rightarrow> dev_flash_mem d (e # t) = dev_flash_mem d t
    | Some (c, _) \<Rightarrow> flash_effect code c (dev_flash_mem d t) (dev_flash_mem d (e # t))"
  using assms unfolding flash_part_def by blast

lemma flash_part_done:
  assumes "flash_part d code" and "in_flight t = Some (c, True)"
    and "flcdone (dev_flash_readw d t ICH_FLASH_HSFSTS)" and "\<not> flcerr (dev_flash_readw d t ICH_FLASH_HSFSTS)"
  shows "flash_completed code c (dev_flash_mem d t)"
    and "cmd_cycle c = ICH_CYCLE_READ \<Longrightarrow> k < cmd_bytes c \<Longrightarrow>
      ucast (drop_bit (8 * k) (dev_flash_readl d
        (FlashReadW ICH_FLASH_HSFSTS (dev_flash_readw d t ICH_FLASH_HSFSTS) # t) ICH_FLASH_FDATA0)) =
      dev_flash_mem d t (cmd_addr c + of_nat k)"
  using assms unfolding flash_part_def Let_def by blast+

section \<open>Runs that keep an invariant of the bytes\<close>

definition flash_mem :: "hw \<Rightarrow> u32 \<Rightarrow> u8" where
  "flash_mem h = dev_flash_mem (dev h) (trace h)"

definition flash_state :: "hw \<Rightarrow> flash_regs" where
  "flash_state h = flash_regs_of (trace h)"

text \<open>Every history between two states satisfies \<open>I\<close>.\<close>

definition through :: "((u32 \<Rightarrow> u8) \<Rightarrow> bool) \<Rightarrow> hw \<Rightarrow> hw \<Rightarrow> bool" where
  "through I h h' \<longleftrightarrow> (\<exists>es. trace h' = es @ trace h \<and>
     (\<forall>j. I (dev_flash_mem (dev h) (drop j es @ trace h))))"

lemma through_refl: "I (flash_mem h) \<Longrightarrow> through I h h"
  by (auto simp: through_def flash_mem_def)

lemma through_ends: "through I h h' \<Longrightarrow> dev h' = dev h \<Longrightarrow> I (flash_mem h) \<and> I (flash_mem h')"
proof -
  assume "through I h h'" "dev h' = dev h"
  then obtain es where "trace h' = es @ trace h" "\<And>j. I (dev_flash_mem (dev h) (drop j es @ trace h))"
    unfolding through_def by blast
  from this(1) this(2) [of 0] this(2) [of "length es"] show "I (flash_mem h) \<and> I (flash_mem h')"
    using \<open>dev h' = dev h\<close> by (simp add: flash_mem_def)
qed

lemma through_mono: "through I h h' \<Longrightarrow> (\<And>m. I m \<Longrightarrow> J m) \<Longrightarrow> through J h h'"
  by (auto simp: through_def)

lemma through_trans:
  assumes "through I h1 h2" and "through I h2 h3" and "dev h2 = dev h1"
  shows "through I h1 h3"
proof -
  obtain es fs where t: "trace h2 = es @ trace h1" "\<And>j. I (dev_flash_mem (dev h1) (drop j es @ trace h1))"
    "trace h3 = fs @ trace h2" "\<And>j. I (dev_flash_mem (dev h1) (drop j fs @ trace h2))"
    using assms unfolding through_def by auto
  have "I (dev_flash_mem (dev h1) (drop j (fs @ es) @ trace h1))" for j
    using t(2) [of "j - length fs"] t(4) [of j] by (cases "j \<le> length fs") (simp_all add: t(1))
  with t(1,3) show ?thesis unfolding through_def by (intro exI [of _ "fs @ es"]) simp
qed

lemma through_log:
  assumes "through I h h'" and "dev h' = dev h" and "I (flash_mem (log_event e h'))"
  shows "through I h (log_event e h')"
proof -
  have "through I h' (log_event e h')"
    unfolding through_def
    by (rule exI [of _ "[e]"]) (use assms through_ends [OF assms(1,2)] in
      \<open>auto simp: log_event_def flash_mem_def drop_Cons split: nat.splits\<close>)
  with assms show ?thesis by (auto intro: through_trans)
qed

text \<open>
  From \<open>h\<close> to \<open>h'\<close> at most the command \<open>c\<close> has been in flight, and the invariant, which the
  command respects, holds all the way.
\<close>

definition preserves :: "u16 \<Rightarrow> flash_cmd \<Rightarrow> ((u32 \<Rightarrow> u8) \<Rightarrow> bool) \<Rightarrow> bool" where
  "preserves code c I \<longleftrightarrow> (\<forall>m m'. I m \<longrightarrow> flash_effect code c m m' \<longrightarrow> I m')"

text \<open>A command in flight that cannot change a byte.\<close>

fun harmless :: "(flash_cmd \<times> bool) option \<Rightarrow> bool" where
  "harmless None = True"
| "harmless (Some (c, b)) = (cmd_cycle c = ICH_CYCLE_READ)"

definition during :: "flash_cmd \<Rightarrow> ((u32 \<Rightarrow> u8) \<Rightarrow> bool) \<Rightarrow> hw \<Rightarrow> hw \<Rightarrow> bool" where
  "during c I h h' \<longleftrightarrow> same_hw h h' \<and> through I h h' \<and>
     (harmless (fr_cmd (flash_state h')) \<or> fr_cmd (flash_state h') = Some (c, True))"

lemma during_start:
  "harmless (fr_cmd (flash_state h)) \<Longrightarrow> I (flash_mem h) \<Longrightarrow> during c I h h"
  by (simp add: during_def through_refl)

lemma flash_state_log [simp]: "flash_state (log_event e h) = flash_regs_step e (flash_state h)"
  by (simp add: flash_state_def log_event_def)

lemma during_log:
  assumes "flash_part (dev h) code" and "preserves code c I" and "during c I h h'"
    and "harmless (fr_cmd (flash_regs_step e (flash_state h'))) \<or>
      fr_cmd (flash_regs_step e (flash_state h')) = Some (c, True)"
  shows "during c I h (log_event e h')"
proof -
  have d: "dev h' = dev h" using assms(3) by (simp add: during_def same_hw_fields)
  then have I: "I (flash_mem h')" using assms(3) through_ends unfolding during_def by blast
  have mem: "flash_mem (log_event e h') = dev_flash_mem (dev h) (e # trace h')"
    "flash_mem h' = dev_flash_mem (dev h) (trace h')"
    using d by (simp_all add: flash_mem_def log_event_def)
  have "case in_flight (e # trace h') of
         None \<Rightarrow> flash_mem (log_event e h') = flash_mem h'
       | Some (c, _) \<Rightarrow> flash_effect code c (flash_mem h') (flash_mem (log_event e h'))"
    unfolding mem by (rule flash_part_step [OF assms(1)])
  then have "I (flash_mem (log_event e h'))"
    using assms(2,4) I
    by (cases "in_flight (e # trace h')")
      (auto simp: in_flight_def flash_state_def preserves_def dest: read_effect)
  then show ?thesis
    using assms(3,4) d by (auto simp: during_def intro: through_log)
qed

lemma during_ends:
  assumes "during c I h h'"
  shows "I (flash_mem h')" "dev h' = dev h" "mac h' = mac h" "nvm h' = nvm h" "shadow_ram h' = shadow_ram h"
    "adapter h' = adapter h"
  using assms through_ends [of I h h'] by (auto simp: during_def same_hw_fields)


section \<open>One cycle\<close>

lemma status_dword:
  fixes v :: u16
  shows "ucast (drop_bit 16 (ucast v AND 0xFFFF :: u32)) = (0 :: u16)" "ucast (ucast v AND 0xFFFF :: u32) = v"
    "ucast (drop_bit 16 (push_bit 16 (ucast v) :: u32)) = v" "ucast (push_bit 16 (ucast v) :: u32) = (0 :: u16)"
proof -
  have m: "(0xFFFF :: u32) = mask 16" by (simp add: mask_eq_exp_minus_1)
  show "ucast (drop_bit 16 (ucast v AND 0xFFFF :: u32)) = (0 :: u16)" "ucast (ucast v AND 0xFFFF :: u32) = v"
    "ucast (drop_bit 16 (push_bit 16 (ucast v) :: u32)) = v" "ucast (push_bit 16 (ucast v) :: u32) = (0 :: u16)"
    unfolding m by (auto intro!: bit_word_eqI simp: bit_simps)
qed

lemma status_steps:
  "flash_regs_step (FlashWriteW ICH_FLASH_HSFSTS v) s = write_status v s"
  "flash_regs_step (FlashWriteL ICH_FLASH_HSFSTS (ucast v AND 0xFFFF)) s = (write_status v s)\<lparr>fr_ctl := 0\<rparr>"
  "flash_regs_step (FlashWriteW ICH_FLASH_HSFCTL c) s = start_command c s"
  "flash_regs_step (FlashWriteL ICH_FLASH_HSFSTS (push_bit 16 (ucast c))) s = start_command c s"
  unfolding flash_regs_step.simps status_dword by (simp_all add: start_command_def write_status_def)

text \<open>Events that start no command.\<close>

fun calm_event :: "event \<Rightarrow> bool" where
  "calm_event (FlashWriteW r v) = (r = ICH_FLASH_HSFCTL \<longrightarrow> \<not> bit v 0)"
| "calm_event (FlashWriteL r v) = (r = ICH_FLASH_HSFSTS \<longrightarrow> \<not> bit (ucast (drop_bit 16 v) :: u16) 0)"
| "calm_event _ = True"

lemma calm_dwords:
  "calm_event (FlashWriteL r (ucast v AND 0xFFFF))"
  "calm_event (FlashWriteL ICH_FLASH_HSFSTS (push_bit 16 (ucast v))) = (\<not> bit v 0)" for v :: u16
  unfolding calm_event.simps status_dword by simp_all

lemma calm_cmd: "calm_event e \<Longrightarrow> fr_cmd (flash_regs_step e s) \<in> {None, fr_cmd s}"
  by (cases e) (auto simp: read_status_def write_status_def start_command_def)

lemma during_calm:
  assumes "flash_part (dev h0) code" and "preserves code c I" and "during c I h0 h" and "calm_event e"
  shows "during c I h0 (log_event e h)"
  using calm_cmd [OF assms(4), of "flash_state h"] assms(3)
  by (intro during_log [OF assms(1-3)]) (auto simp: during_def)

lemma wp_write_hsfsts:
  assumes "flash_part (dev h0) code" and "preserves code c I" and "during c I h0 h"
  shows "wp (write_hsfsts v) (\<lambda>_ h'. during c I h0 h' \<and> fr_idle (flash_state h') = fr_idle (flash_state h) \<and>
    (bit v 0 \<longrightarrow> fr_cleared (flash_state h') = fr_idle (flash_state h))) h"
  unfolding write_hsfsts_def wp flash_state_log status_steps
  using during_calm [OF assms] by (simp add: write_status_def calm_dwords)


lemma during_frdw: "during c I h0 h \<Longrightarrow> frdw r h = dev_flash_readw (dev h0) (trace h) r"
  by (simp add: frdw_def during_ends)

lemma wp_cycle_init:
  assumes "flash_part (dev h0) code" and "preserves code c I" and "during c I h0 h"
  shows "wp e1000_flash_cycle_init_ich8lan (\<lambda>r h'. during c I h0 h' \<and>
    (r = 0 \<longrightarrow> fr_cleared (flash_state h'))) h"
proof -
  note calm = during_calm [OF assms(1,2)]
  note status = wp_write_hsfsts [OF assms(1,2)]
  have set0: "bit (set_flcdone v) 0" for v by (simp add: set_flcdone_def bit_or_iff)
  have fin: "wp (write_hsfsts (set_flcdone v)) (\<lambda>_ h'. during c I h0 h' \<and> fr_cleared (flash_state h')) g"
    if "during c I h0 g" "fr_idle (flash_state g)" for v g
    by (rule wp_mono [OF status [OF that(1)]]) (use that(2) set0 in auto)
  have idle: "wp (poll n (er16flash ICH_FLASH_HSFSTS) (\<lambda>hsfsts. \<not> flcinprog hsfsts) (udelay 1))
      (\<lambda>v g. during c I h0 g \<and> (v \<noteq> None \<longrightarrow> fr_idle (flash_state g))) g"
    if "during c I h0 g" for n g
    by (rule wp_poll [where I = "during c I h0" and
        J = "\<lambda>v g. during c I h0 g \<and> fr_idle (flash_state g) = (\<not> flcinprog v)"])
      (use that in \<open>auto simp: wp read_status_def intro!: calm\<close>)
  define v where "v = frdw ICH_FLASH_HSFSTS h"
  let ?h1 = "log_event (FlashReadW ICH_FLASH_HSFSTS v) h"
  have d1: "during c I h0 ?h1" "fr_idle (flash_state ?h1) = (\<not> flcinprog v)"
    using calm [OF assms(3)] by (simp_all add: read_status_def)
  have keep: "flcinprog (set_dael (set_flcerr v)) = flcinprog v"
    by (simp add: flcinprog_def set_dael_def set_flcerr_def bit_or_iff)
  show ?thesis
  proof (cases "fldesvalid v")
    case True
    have "wp (write_hsfsts (set_dael (set_flcerr v)))
       (\<lambda>_ g. (\<not> flcinprog v \<longrightarrow> wp (write_hsfsts (set_flcdone (set_dael (set_flcerr v))))
             (\<lambda>_ h'. during c I h0 h' \<and> fr_cleared (flash_state h')) g) \<and>
          (flcinprog v \<longrightarrow> wp (poll ICH_FLASH_READ_COMMAND_TIMEOUT (er16flash ICH_FLASH_HSFSTS)
             (\<lambda>hsfsts. \<not> flcinprog hsfsts) (udelay 1))
             (\<lambda>a. wp (case a of None \<Rightarrow> return (- E1000_ERR_NVM)
                       | Some hsfsts \<Rightarrow> do { write_hsfsts (set_flcdone hsfsts); return 0 })
                (\<lambda>r h'. during c I h0 h' \<and> (r = 0 \<longrightarrow> fr_cleared (flash_state h')))) g)) ?h1"
    proof (rule wp_mono [OF status [OF d1(1)]], intro conjI impI, goal_cases)
      case (1 _ g)
      then show ?case using d1(2) by (auto intro!: fin)
    next
      case (2 _ g)
      then show ?case
        by (intro wp_mono [OF idle]) (auto simp: wp wp_option intro!: fin split: option.splits)
    qed
    with True show ?thesis
      unfolding e1000_flash_cycle_init_ich8lan_def wp_bind wp_access v_def [symmetric] wp_if wp_return Let_def keep
      by simp
  next
    case False
    then show ?thesis
      using d1(1)
      unfolding e1000_flash_cycle_init_ich8lan_def wp_bind wp_access v_def [symmetric] wp_if wp_return Let_def keep
      by simp
  qed
qed

lemma wp_read_hsfctl:
  assumes "flash_part (dev h0) code" and "preserves code c I" and "during c I h0 h"
  shows "wp read_hsfctl (\<lambda>v h'. during c I h0 h' \<and> flash_state h' = flash_state h \<and> \<not> bit v 0 \<and>
    ctl_cycle v = ctl_cycle (fr_ctl (flash_state h)) \<and> ctl_count v = ctl_count (fr_ctl (flash_state h))) h"
  unfolding read_hsfctl_def wp
  using during_calm [OF assms] flash_part_ctl [OF assms(1)]
  by (simp add: frdw_def frdl_def flash_state_def during_ends(2) [OF assms(3)])

lemma wp_write_hsfctl:
  assumes "flash_part (dev h0) code" and "preserves code c I" and "during c I h0 h" and "\<not> bit v 0"
  shows "wp (write_hsfctl v) (\<lambda>_ h'. during c I h0 h' \<and> flash_state h' = (flash_state h)\<lparr>fr_ctl := v\<rparr>) h"
  unfolding write_hsfctl_def wp flash_state_log status_steps
  using during_calm [OF assms(1-3)] assms(4) by (simp add: start_command_def calm_dwords del: calm_event.simps(2))

text \<open>The start of a command, and the end of the wait for it.\<close>

definition command_of :: "hw \<Rightarrow> flash_cmd" where
  "command_of h = (let s = flash_state h in
     make_cmd (ctl_cycle (fr_ctl s)) (ctl_count (fr_ctl s)) (fr_addr s) (fr_data s))"

text \<open>The last event is the status read that found the command \<open>c\<close> complete.\<close>

definition just_done :: "flash_cmd \<Rightarrow> hw \<Rightarrow> bool" where
  "just_done c h \<longleftrightarrow> (\<exists>t. let v = dev_flash_readw (dev h) t ICH_FLASH_HSFSTS in
     trace h = FlashReadW ICH_FLASH_HSFSTS v # t \<and> in_flight t = Some (c, True) \<and> flcdone v \<and> \<not> flcerr v)"

lemma just_done_simps:
  assumes "flash_part (dev h) code" and "just_done c h"
  shows "fr_cmd (flash_state h) = None" and "flash_completed code c (flash_mem h)"
    and "cmd_cycle c = ICH_CYCLE_READ \<Longrightarrow> k < cmd_bytes c \<Longrightarrow>
      ucast (drop_bit (8 * k) (frdl ICH_FLASH_FDATA0 h)) = flash_mem h (cmd_addr c + of_nat k)"
proof -
  obtain t where t: "trace h = FlashReadW ICH_FLASH_HSFSTS (dev_flash_readw (dev h) t ICH_FLASH_HSFSTS) # t"
    "in_flight t = Some (c, True)" "flcdone (dev_flash_readw (dev h) t ICH_FLASH_HSFSTS)"
    "\<not> flcerr (dev_flash_readw (dev h) t ICH_FLASH_HSFSTS)"
    using assms(2) unfolding just_done_def Let_def by blast
  show n: "fr_cmd (flash_state h) = None"
    unfolding flash_state_def t(1) using t(3,4) by (simp add: read_status_def)
  have "flash_mem h = dev_flash_mem (dev h) t"
    using flash_part_step [OF assms(1), of "hd (trace h)" t] n t(1)
    unfolding flash_mem_def flash_state_def in_flight_def by simp
  then show "flash_completed code c (flash_mem h)" "cmd_cycle c = ICH_CYCLE_READ \<Longrightarrow> k < cmd_bytes c \<Longrightarrow>
      ucast (drop_bit (8 * k) (frdl ICH_FLASH_FDATA0 h)) = flash_mem h (cmd_addr c + of_nat k)"
    using flash_part_done [OF assms(1) t(2-4)] t(1) by (simp_all add: frdl_def)
qed

lemma ctl_fields_go:
  "ctl_cycle (set_flcgo v) = ctl_cycle v" "ctl_count (set_flcgo v) = ctl_count v" "bit (set_flcgo v) 0"
  by (auto simp: ctl_cycle_def ctl_count_def set_flcgo_def bit_simps intro!: bit_word_eqI)

lemma during_dev: "during c I h0 h \<Longrightarrow> dev h = dev h0"
  by (rule during_ends)

lemma wp_flash_cycle:
  assumes "flash_part (dev h0) code" and "preserves code c I" and "during c I h0 h"
    and "command_of h = c" and "fr_cleared (flash_state h)"
  shows "wp (e1000_flash_cycle_ich8lan timeout) (\<lambda>r h'. during c I h0 h' \<and> (r = 0 \<longrightarrow> just_done c h') \<and>
    (r \<noteq> 0 \<longrightarrow> fr_cmd (flash_state h') = Some (c, True))) h"
proof -
  note calm = during_calm [OF assms(1,2)]
  let ?go = "\<lambda>g. during c I h0 g \<and> fr_cmd (flash_state g) = Some (c, True)"
  let ?seen = "\<lambda>v g. during c I h0 g \<and> (\<exists>t. trace g = FlashReadW ICH_FLASH_HSFSTS v # t \<and>
    v = dev_flash_readw (dev h0) t ICH_FLASH_HSFSTS \<and> in_flight t = Some (c, True))"
  have start: "wp (write_hsfctl (set_flcgo v)) (\<lambda>_ g. ?go g) h1"
    if "during c I h0 h1" "flash_state h1 = flash_state h"
      "ctl_cycle v = ctl_cycle (fr_ctl (flash_state h))" "ctl_count v = ctl_count (fr_ctl (flash_state h))"
    for v h1
  proof -
    have "fr_cmd (start_command (set_flcgo v) (flash_state h1)) = Some (c, True)"
      using assms(4,5) that(2-4) by (simp add: start_command_def ctl_fields_go command_of_def Let_def)
    then show ?thesis
      unfolding write_hsfctl_def wp flash_state_log status_steps
      by (auto intro!: during_log [OF assms(1,2) that(1)] simp: status_steps simp del: flash_regs_step.simps)
  qed
  have poll: "wp (poll n (er16flash ICH_FLASH_HSFSTS) flcdone (udelay 1))
      (\<lambda>x g. case x of None \<Rightarrow> ?go g | Some v \<Rightarrow> ?seen v g \<and> flcdone v) g" if "?go g" for n g
  proof (rule wp_poll [where I = ?go and J = ?seen])
    fix s assume s: "?go s"
    have rdv: "frdw ICH_FLASH_HSFSTS s = dev_flash_readw (dev h0) (trace s) ICH_FLASH_HSFSTS"
      using s by (auto simp: frdw_def dest!: during_dev)
    show "wp (er16flash ICH_FLASH_HSFSTS) (\<lambda>v s'. ?seen v s' \<and>
        (\<not> flcdone v \<longrightarrow> wp (udelay 1) (\<lambda>_. ?go) s')) s"
      unfolding wp using s
      by (auto simp: rdv read_status_def in_flight_def flash_state_def
          intro!: calm)
  qed (use that in auto)
  show ?thesis
    unfolding e1000_flash_cycle_ich8lan_def wp
  proof (rule wp_mono [OF wp_read_hsfctl [OF assms(1-3)]], goal_cases)
    case (1 v h1)
    then have "wp (write_hsfctl (set_flcgo v)) (\<lambda>_ g. ?go g) h1" by (intro start) auto
    then show ?case
    proof (rule wp_mono, goal_cases)
      case (1 u g)
      show ?case
      proof (rule wp_mono [OF poll [OF 1]], goal_cases)
        case (1 x g')
        then show ?case
          by (cases x) (auto simp: just_done_def Let_def flash_state_def in_flight_def read_status_def
              dest: during_dev)
      qed
    qed
  qed
qed


section \<open>Reads and writes\<close>

lemma ctl_fields [simp]:
  "ctl_cycle (set_flcycle c v) = take_bit 2 c" "ctl_count (set_flcycle c v) = ctl_count v"
  "ctl_count (set_fldbcount n v) = take_bit 2 n" "ctl_cycle (set_fldbcount n v) = ctl_cycle v"
  "bit (set_flcycle c v) 0 = bit v 0" "bit (set_fldbcount n v) 0 = bit v 0"
proof -
  have m: "(0x6 :: u16) = push_bit 1 (mask 2)" "(0x300 :: u16) = push_bit 8 (mask 2)"
    by (simp_all add: mask_eq_exp_minus_1)
  show "ctl_cycle (set_flcycle c v) = take_bit 2 c" "ctl_count (set_flcycle c v) = ctl_count v"
    "ctl_count (set_fldbcount n v) = take_bit 2 n" "ctl_cycle (set_fldbcount n v) = ctl_cycle v"
    "bit (set_flcycle c v) 0 = bit v 0" "bit (set_fldbcount n v) 0 = bit v 0"
    unfolding ctl_cycle_def ctl_count_def set_flcycle_def set_fldbcount_def m
    by (auto intro!: bit_word_eqI simp: bit_simps simp del: push_bit_Suc)
qed

lemma wp_cycle_again:
  assumes "flash_part (dev h0) code" and "preserves code c I" and "during c I h0 h"
  shows "wp flash_cycle_again (\<lambda>_ h'. during c I h0 h') h"
  unfolding flash_cycle_again_def wp using during_calm [OF assms] by simp

lemma wp_write_attempt:
  assumes "flash_part (dev h0) code" and "preserves code c I" and "during c I h0 h"
    and "c = make_cmd ICH_CYCLE_WRITE (take_bit 2 dbcount) addr data"
  shows "wp (write_flash_attempt addr dbcount data) (\<lambda>(again, r) h'. during c I h0 h' \<and>
    (r = 0 \<longrightarrow> just_done c h')) h"
proof -
  note calm = during_calm [OF assms(1,2)]
  have tail: "wp (e1000_flash_cycle_ich8lan n) (\<lambda>r h'. (r = 0 \<longrightarrow> during c I h0 h' \<and> just_done c h') \<and>
      (r \<noteq> 0 \<longrightarrow> wp flash_cycle_again (\<lambda>_ h'. during c I h0 h') h')) g"
    if "during c I h0 g" "command_of g = c" "fr_cleared (flash_state g)" for n g
    by (rule wp_mono [OF wp_flash_cycle [OF assms(1,2) that]])
      (auto intro!: wp_cycle_again [OF assms(1,2)])
  show ?thesis
    unfolding write_flash_attempt_def wp_bind wp_access
  proof (rule wp_mono [OF wp_cycle_init [OF assms(1,2) calm [OF assms(3)]]], simp, goal_cases)
    case (1 r h1)
    then have d1: "during c I h0 h1" by simp
    show ?case
    proof (cases "r = 0")
      case True
      with 1 have clr: "fr_cleared (flash_state h1)" by simp
      have "wp read_hsfctl (\<lambda>v. wp (write_hsfctl (set_flcycle ICH_CYCLE_WRITE (set_fldbcount dbcount v)))
          (\<lambda>_ h. wp (e1000_flash_cycle_ich8lan ICH_FLASH_WRITE_COMMAND_TIMEOUT)
            (\<lambda>r h'. (r = 0 \<longrightarrow> during c I h0 h' \<and> just_done c h') \<and>
              (r \<noteq> 0 \<longrightarrow> wp flash_cycle_again (\<lambda>_ h'. during c I h0 h') h'))
            (log_event (FlashWriteL ICH_FLASH_FDATA0 data) (log_event (FlashWriteL ICH_FLASH_FADDR addr) h)))) h1"
      proof (rule wp_mono [OF wp_read_hsfctl [OF assms(1,2) d1]], goal_cases)
        case (1 v h2)
        then have nb: "\<not> bit (set_flcycle ICH_CYCLE_WRITE (set_fldbcount dbcount v)) 0" by simp
        from 1 have d2: "during c I h0 h2" "flash_state h2 = flash_state h1" by simp_all
        show ?case
        proof (rule wp_mono [OF wp_write_hsfctl [OF assms(1,2) d2(1) nb]], goal_cases)
          case (1 u h3)
          then show ?case
            using clr d2(2)
            by (intro tail calm) (auto simp: command_of_def assms(4) Let_def)
        qed
      qed
      with True show ?thesis
        by (simp add: wp Let_def)
    next
      case False
      with d1 show ?thesis by (simp add: wp)
    qed
  qed
qed


lemma preserves_read: "cmd_cycle c = ICH_CYCLE_READ \<Longrightarrow> preserves code c I"
  by (simp add: preserves_def flash_effect_def) (metis ext)

lemma flash_mem_idle:
  assumes "flash_part (dev h) code" and "harmless (fr_cmd (flash_state (log_event e h)))"
  shows "flash_mem (log_event e h) = flash_mem h"
  using flash_part_step [OF assms(1), of e "trace h"] assms(2)
  by (cases "in_flight (e # trace h)")
    (auto simp: flash_mem_def flash_state_def in_flight_def simp del: flash_state_log dest: read_effect)

lemma data_bytes:
  fixes x :: u32
  shows "ucast (ucast (x AND 0x000000FF) :: u8) = (ucast (ucast x :: u8) :: u16)"
    "ucast (x AND 0x0000FFFF) = (ucast (ucast x :: u8) OR push_bit 8 (ucast (ucast (drop_bit 8 x) :: u8)) :: u16)"
proof -
  have m: "(0xFF :: u32) = mask 8" "(0xFFFF :: u32) = mask 16" by (simp_all add: mask_eq_exp_minus_1)
  show "ucast (ucast (x AND 0x000000FF) :: u8) = (ucast (ucast x :: u8) :: u16)"
    "ucast (x AND 0x0000FFFF) = (ucast (ucast x :: u8) OR push_bit 8 (ucast (ucast (drop_bit 8 x) :: u8)) :: u16)"
    unfolding m by (auto intro!: bit_word_eqI simp: bit_simps)
qed

lemma wp_read_attempt:
  assumes "flash_part (dev h0) code" and "during c I h0 h"
    and "c = make_cmd ICH_CYCLE_READ (take_bit 2 (ucast nbytes - 1)) addr 0" and "nbytes = 1 \<or> nbytes = 2"
  shows "wp (read_flash_data_attempt addr nbytes data) (\<lambda>(again, r, v) h'. during c I h0 h' \<and>
    (r = 0 \<longrightarrow> fr_cmd (flash_state h') = None \<and>
       v = (if nbytes = 1 then ucast (flash_mem h' addr)
            else ucast (flash_mem h' addr) OR push_bit 8 (ucast (flash_mem h' (addr + 1)))))) h"
proof -
  have pres: "preserves code c I" by (rule preserves_read) (simp add: assms(3) make_cmd_def)
  note calm = during_calm [OF assms(1) pres]
  have val: "(if nbytes = 1 then ucast (ucast (frdl ICH_FLASH_FDATA0 g AND 0x000000FF) :: u8)
       else if nbytes = 2 then ucast (frdl ICH_FLASH_FDATA0 g AND 0x0000FFFF) else data) =
      (if nbytes = 1 then ucast (flash_mem g addr)
       else (ucast (flash_mem g addr) OR push_bit 8 (ucast (flash_mem g (addr + 1))) :: u16))"
    if "during c I h0 g" "just_done c g" for g
  proof -
    have part: "flash_part (dev g) code" using assms(1) that(1) by (simp add: during_dev [OF that(1)])
    note b = just_done_simps(3) [OF part that(2)]
    have b0: "ucast (frdl ICH_FLASH_FDATA0 g) = flash_mem g addr"
      using b [of 0] by (simp add: assms(3) make_cmd_def)
    have b1: "ucast (drop_bit 8 (frdl ICH_FLASH_FDATA0 g)) = flash_mem g (addr + 1)" if "nbytes = 2"
      using b [of 1] that by (simp add: assms(3) make_cmd_def)
    show ?thesis
      using assms(4) by (auto simp only: data_bytes b0 b1 simp_thms if_True)
  qed
  have after: "during c I h0 (log_event (FlashReadL r x) g)"
      "fr_cmd (flash_state (log_event (FlashReadL r x) g)) = None"
      "flash_mem (log_event (FlashReadL r x) g) = flash_mem g"
    if "during c I h0 g" "just_done c g" for r x g
  proof -
    have part: "flash_part (dev g) code" using assms(1) that(1) by (simp add: during_dev [OF that(1)])
    show "fr_cmd (flash_state (log_event (FlashReadL r x) g)) = None"
      using just_done_simps(1) [OF part that(2)] by simp
    then show "flash_mem (log_event (FlashReadL r x) g) = flash_mem g"
      by (intro flash_mem_idle [OF part]) simp
    show "during c I h0 (log_event (FlashReadL r x) g)" by (intro calm that) simp
  qed
  have tail: "wp (e1000_flash_cycle_ich8lan n) (\<lambda>r h'.
      (r = 0 \<longrightarrow> during c I h0 h' \<and> just_done c h') \<and>
      (r \<noteq> 0 \<longrightarrow> wp flash_cycle_again (\<lambda>_ h'. during c I h0 h') h')) g"
    if "during c I h0 g" "command_of g = c" "fr_cleared (flash_state g)" for n g
    by (rule wp_mono [OF wp_flash_cycle [OF assms(1) pres that]])
      (auto intro!: wp_cycle_again [OF assms(1) pres])
  show ?thesis
    unfolding read_flash_data_attempt_def wp_bind wp_access
  proof (rule wp_mono [OF wp_cycle_init [OF assms(1) pres calm [OF assms(2)]]], simp, goal_cases)
    case (1 r h1)
    then have d1: "during c I h0 h1" by simp
    let ?v = "frdw ICH_FLASH_HSFCTL h1"
    let ?c = "set_flcycle ICH_CYCLE_READ (set_fldbcount (ucast nbytes - 1) ?v)"
    let ?h2 = "log_event (FlashWriteL ICH_FLASH_FADDR addr) (log_event (FlashWriteW ICH_FLASH_HSFCTL ?c)
      (log_event (FlashReadW ICH_FLASH_HSFCTL ?v) h1))"
    have nb: "\<not> bit ?c 0" using flash_part_ctl [OF assms(1)] by (simp add: during_frdw [OF d1])
    then have d2: "during c I h0 ?h2" by (intro calm d1) simp_all
    have cmd: "command_of ?h2 = c" "fr_cleared (flash_state ?h2) = fr_cleared (flash_state h1)"
      using nb by (simp_all add: command_of_def assms(3) Let_def start_command_def make_cmd_def)
    show ?case
    proof (cases "r = 0")
      case True
      with 1 cmd have clr: "fr_cleared (flash_state ?h2)" by simp
      show ?thesis
        unfolding wp_if wp_return Let_def wp_bind wp_access
        by (simp only: True simp_thms if_True, rule wp_mono [OF tail [OF d2 cmd(1) clr]])
          (auto simp: wp after val simp del: flash_state_log)
    next
      case False
      with d1 show ?thesis by (simp add: wp)
    qed
  qed
qed


text \<open>The routines around the attempts. \<open>mem_word\<close> is the word at an address, low byte first.\<close>

definition mem_word :: "(u32 \<Rightarrow> u8) \<Rightarrow> u32 \<Rightarrow> u16" where
  "mem_word m a = ucast (m a) OR push_bit 8 (ucast (m (a + 1)))"

definition flash_at :: "hw \<Rightarrow> u32 \<Rightarrow> u32" where
  "flash_at h offset = flash_linear (flash_base_addr (nvm h)) offset"

definition idle_flash :: "hw \<Rightarrow> bool" where
  "idle_flash h \<longleftrightarrow> harmless (fr_cmd (flash_state h))"

lemma during_unchanged: "during c (\<lambda>m. m = f) h0 h \<Longrightarrow> flash_mem h = f"
  by (frule during_ends(1))

lemma wp_read_data:
  assumes "flash_part (dev h) code" and "idle_flash h" and "nbytes = 1 \<or> nbytes = 2"
  shows "wp (e1000_read_flash_data_ich8lan offset nbytes data) (\<lambda>(r, v) h'. same_hw h h' \<and>
    through (\<lambda>m. m = flash_mem h) h h' \<and> idle_flash h' \<and> flash_mem h' = flash_mem h \<and> (r = 0 \<longrightarrow>
      v = (if nbytes = 1 then ucast (flash_mem h (flash_at h offset))
           else mem_word (flash_mem h) (flash_at h offset)))) h"
proof -
  let ?I = "\<lambda>m. m = flash_mem h"
  let ?c = "make_cmd ICH_CYCLE_READ (take_bit 2 (ucast nbytes - 1)) (flash_at h offset) 0"
  have start: "during ?c ?I h h" by (rule during_start) (use assms(2) in \<open>simp_all add: idle_flash_def\<close>)
  have "wp (retry ICH_FLASH_CYCLE_REPEAT_COUNT (read_flash_data_attempt (flash_at h offset) nbytes data))
    (\<lambda>(r, v) h'. during ?c ?I h h' \<and> (r = 0 \<longrightarrow> fr_cmd (flash_state h') = None \<and>
      v = (if nbytes = 1 then ucast (flash_mem h (flash_at h offset))
           else mem_word (flash_mem h) (flash_at h offset)))) h"
  proof (rule wp_retry [where I = "during ?c ?I h", OF start])
    fix s assume d: "during ?c ?I h s"
    show "wp (read_flash_data_attempt (flash_at h offset) nbytes data) (\<lambda>(again, a) s'.
        (case a of (r, v) \<Rightarrow> \<lambda>h'. during ?c ?I h h' \<and> (r = 0 \<longrightarrow> fr_cmd (flash_state h') = None \<and>
           v = (if nbytes = 1 then ucast (flash_mem h (flash_at h offset))
                else mem_word (flash_mem h) (flash_at h offset)))) s' \<and>
        (again \<longrightarrow> during ?c ?I h s')) s"
      by (rule wp_mono [OF wp_read_attempt [OF assms(1) d refl assms(3)]])
        (auto simp: mem_word_def dest: during_unchanged)
  qed
  then have "wp (retry ICH_FLASH_CYCLE_REPEAT_COUNT (read_flash_data_attempt (flash_at h offset) nbytes data))
    (\<lambda>(r, v) h'. same_hw h h' \<and>
    through (\<lambda>m. m = flash_mem h) h h' \<and> idle_flash h' \<and> flash_mem h' = flash_mem h \<and> (r = 0 \<longrightarrow>
      v = (if nbytes = 1 then ucast (flash_mem h (flash_at h offset))
           else mem_word (flash_mem h) (flash_at h offset)))) h"
    by (rule wp_mono) (auto simp: idle_flash_def dest: during_unchanged, auto simp: during_def make_cmd_def)
  moreover have "through ?I h h" by (simp add: through_refl)
  ultimately show ?thesis
    using assms(2) unfolding e1000_read_flash_data_ich8lan_def wp flash_at_def by simp
qed

lemma wp_read_flash_word:
  assumes "flash_part (dev h) code" and "idle_flash h"
  shows "wp (e1000_read_flash_word_ich8lan offset data) (\<lambda>(r, v) h'. same_hw h h' \<and>
    through (\<lambda>m. m = flash_mem h) h h' \<and> idle_flash h' \<and> flash_mem h' = flash_mem h \<and> (r = 0 \<longrightarrow>
      v = mem_word (flash_mem h) (flash_at h (push_bit 1 offset)))) h"
  unfolding e1000_read_flash_word_ich8lan_def
  by (rule wp_mono [OF wp_read_data [OF assms]]) auto

lemma byte_through_word:
  fixes b :: u8
  shows "ucast (ucast b :: u16) = b" "ucast (ucast b :: u16) AND 0x00FF = (ucast b :: u32)"
proof -
  have m: "(0x00FF :: u32) = mask 8" by (simp add: mask_eq_exp_minus_1)
  show "ucast (ucast b :: u16) = b" by (auto intro!: bit_word_eqI simp: bit_simps)
  show "ucast (ucast b :: u16) AND 0x00FF = (ucast b :: u32)"
    unfolding m using bit_imp_le_length [of b] by (fastforce intro!: bit_word_eqI simp: bit_simps)
qed

lemma wp_read_byte:
  assumes "flash_part (dev h) code" and "idle_flash h"
  shows "wp (e1000_read_flash_byte_ich8lan offset data) (\<lambda>(r, v) h'. same_hw h h' \<and>
    through (\<lambda>m. m = flash_mem h) h h' \<and> idle_flash h' \<and> flash_mem h' = flash_mem h \<and> (r = 0 \<longrightarrow>
      v = flash_mem h (flash_at h offset))) h"
  unfolding e1000_read_flash_byte_ich8lan_def wp
  using assms(2) through_refl [of "\<lambda>m. m = flash_mem h" h]
  by (auto intro!: wp_mono [OF wp_read_data [OF assms]] simp: wp byte_through_word)

text \<open>Writing a byte: the invariant must allow the byte to change bit by bit.\<close>

definition write_cmd :: "hw \<Rightarrow> u32 \<Rightarrow> u8 \<Rightarrow> flash_cmd" where
  "write_cmd h offset byte = make_cmd ICH_CYCLE_WRITE 0 (flash_at h offset) (ucast byte)"

lemma during_write_byte:
  assumes "flash_part (dev h0) code" and "preserves code c I" and "c = write_cmd h0 offset byte"
    and "during c I h0 h"
  shows "wp (e1000_write_flash_byte_ich8lan offset byte) (\<lambda>r h'. during c I h0 h' \<and>
    (r = 0 \<longrightarrow> just_done c h')) h"
proof -
  have data: "(if (1 :: u8) = 1 then ucast (ucast byte :: u16) AND 0x00FF else ucast (ucast byte :: u16)) = (ucast byte :: u32)" by (simp add: byte_through_word)
  have c: "c = make_cmd ICH_CYCLE_WRITE (take_bit 2 (ucast (1 :: u8) - 1)) (flash_at h0 offset) (ucast byte)"
    by (simp add: assms(3) write_cmd_def)
  have "wp (retry ICH_FLASH_CYCLE_REPEAT_COUNT
      (write_flash_attempt (flash_at h0 offset) (ucast (1 :: u8) - 1) (ucast byte)))
    (\<lambda>r h'. during c I h0 h' \<and> (r = 0 \<longrightarrow> just_done c h')) h"
  proof (rule wp_retry [where I = "during c I h0", OF assms(4)])
    fix s assume d: "during c I h0 s"
    show "wp (write_flash_attempt (flash_at h0 offset) (ucast (1 :: u8) - 1) (ucast byte))
      (\<lambda>(again, r) s'. (during c I h0 s' \<and> (r = 0 \<longrightarrow> just_done c s')) \<and> (again \<longrightarrow> during c I h0 s')) s"
      by (rule wp_mono [OF wp_write_attempt [OF assms(1,2) d c]]) auto
  qed
  moreover have "flash_at h offset = flash_at h0 offset"
    by (simp add: flash_at_def during_ends(4) [OF assms(4)])
  ultimately show ?thesis
    unfolding e1000_write_flash_byte_ich8lan_def e1000_write_flash_data_ich8lan_def wp
      flash_at_def [symmetric] data
    using assms(4) by simp
qed

lemma during_program_retry:
  assumes "flash_part (dev h0) code" and "preserves code c I" and "during c I h0 h"
    and "\<And>h. during c I h0 h \<Longrightarrow> wp w (\<lambda>r h'. during c I h0 h' \<and> (r = 0 \<longrightarrow> just_done c h')) h"
  shows "wp (program_retry n w) (\<lambda>r h'. during c I h0 h' \<and> (r = 0 \<longrightarrow> just_done c h')) h"
  using assms(3)
proof (induction n arbitrary: h)
  case (Suc n)
  have "during c I h0 (log_event (Delay 100) h)" by (intro during_calm [OF assms(1,2)] Suc.prems) simp
  then show ?case
    unfolding program_retry.simps wp
    by (rule wp_mono [OF assms(4)]) (auto intro: Suc.IH)
qed (simp add: wp)

lemma wp_retry_write_byte:
  assumes "flash_part (dev h) code" and "preserves code (write_cmd h offset byte) I"
    and "idle_flash h" and "I (flash_mem h)"
  shows "wp (e1000_retry_write_flash_byte_ich8lan offset byte) (\<lambda>r h'. same_hw h h' \<and> through I h h' \<and>
    (r = 0 \<longrightarrow> idle_flash h' \<and> I (flash_mem h') \<and>
       flash_completed code (write_cmd h offset byte) (flash_mem h'))) h"
proof -
  let ?c = "write_cmd h offset byte"
  note w = during_write_byte [OF assms(1,2) refl]
  have start: "during ?c I h h" by (rule during_start) (use assms(3,4) in \<open>simp_all add: idle_flash_def\<close>)
  have "wp (e1000_retry_write_flash_byte_ich8lan offset byte) (\<lambda>r h'. during ?c I h h' \<and>
      (r = 0 \<longrightarrow> just_done ?c h')) h"
    unfolding e1000_retry_write_flash_byte_ich8lan_def wp
    by (rule wp_mono [OF w [OF start]]) (auto intro!: during_program_retry [OF assms(1,2)] w)
  then show ?thesis
  proof (rule wp_mono, goal_cases)
    case (1 r h')
    then have "flash_part (dev h') code" using assms(1) during_dev [of ?c I h h'] by simp
    from just_done_simps(1,2) [OF this, of ?c] 1 show ?case
      using during_ends(1) [of ?c I h h'] by (cases "r = 0") (simp_all add: during_def idle_flash_def)
  qed
qed


section \<open>Erase\<close>

text \<open>
  A part whose erase cycles never end with the error flag. (When ten of them do, the driver
  leaves the loop as after a success.)
\<close>

definition no_erase_fault :: "device \<Rightarrow> bool" where
  "no_erase_fault d \<longleftrightarrow> (\<forall>t c b. in_flight t = Some (c, b) \<longrightarrow> cmd_cycle c = ICH_CYCLE_ERASE \<longrightarrow>
     \<not> flcerr (dev_flash_readw d t ICH_FLASH_HSFSTS))"

lemma wp_erase_again:
  assumes "flash_part (dev h0) code" and "preserves code c I" and "no_erase_fault (dev h0)"
    and "during c I h0 h" and "fr_cmd (flash_state h) = Some (c, True)" and "cmd_cycle c = ICH_CYCLE_ERASE"
  shows "wp flash_cycle_again (\<lambda>again h'. during c I h0 h' \<and> (again \<longrightarrow> just_done c h')) h"
  unfolding flash_cycle_again_def wp
  using assms(3-6) during_calm [OF assms(1,2,4), of "FlashReadW ICH_FLASH_HSFSTS (frdw ICH_FLASH_HSFSTS h)"]
    during_frdw [OF assms(4), of ICH_FLASH_HSFSTS] during_dev [OF assms(4)]
  by (auto simp: just_done_def no_erase_fault_def in_flight_def flash_state_def Let_def)

lemma wp_erase_sector:
  assumes "flash_part (dev h0) code" and "preserves code c I" and "no_erase_fault (dev h0)"
    and "c = make_cmd ICH_CYCLE_ERASE 0 addr 0" and "during c I h0 h"
  shows "wp (erase_sector 0 sector_size addr count) (\<lambda>(stop, _, _) h'. during c I h0 h' \<and>
    (stop = None \<longrightarrow> just_done c h') \<and> stop \<noteq> Some 0) h"
  using assms(5)
proof (induction "10 - count" arbitrary: count h rule: less_induct)
  case less
  have cyc: "cmd_cycle c = ICH_CYCLE_ERASE" by (simp add: assms(4) make_cmd_def)
  note calm = during_calm [OF assms(1,2)]
  let ?Q = "\<lambda>(stop, _, _) h'. during c I h0 h' \<and> (stop = None \<longrightarrow> just_done c h') \<and> stop \<noteq> Some 0"
  have again: "wp flash_cycle_again (\<lambda>again h'. (\<not> again \<longrightarrow> during c I h0 h') \<and> (again \<longrightarrow>
      (count + 1 < 10 \<longrightarrow> wp (erase_sector 0 sector_size addr (count + 1)) ?Q h') \<and>
      (\<not> count + 1 < 10 \<longrightarrow> during c I h0 h' \<and> just_done c h'))) g"
    if "during c I h0 g" "fr_cmd (flash_state g) = Some (c, True)" for g
    by (rule wp_mono [OF wp_erase_again [OF assms(1-3) that cyc]]) (auto intro!: less.hyps)
  have cycle: "wp (e1000_flash_cycle_ich8lan n) (\<lambda>r h'. (r = 0 \<longrightarrow> during c I h0 h' \<and> just_done c h') \<and>
      (r \<noteq> 0 \<longrightarrow> wp flash_cycle_again (\<lambda>again h'. (\<not> again \<longrightarrow> during c I h0 h') \<and> (again \<longrightarrow>
        (count + 1 < 10 \<longrightarrow> wp (erase_sector 0 sector_size addr (count + 1)) ?Q h') \<and>
        (\<not> count + 1 < 10 \<longrightarrow> during c I h0 h' \<and> just_done c h'))) h')) g"
    if "during c I h0 g" "command_of g = c" "fr_cleared (flash_state g)" for n g
  proof (rule wp_mono [OF wp_flash_cycle [OF assms(1,2) that]], intro conjI impI, goal_cases)
    case (3 r h')
    then show ?case by (intro again) simp_all
  qed simp_all
  show ?case
    unfolding erase_sector.simps [of 0 _ _ count] wp_bind
  proof (rule wp_mono [OF wp_cycle_init [OF assms(1,2) less.prems]], goal_cases)
    case (1 r h1)
    then have d1: "during c I h0 h1" by simp
    show ?case
    proof (cases "r = 0")
      case True
      with 1 have clr: "fr_cleared (flash_state h1)" by simp
      have "wp read_hsfctl (\<lambda>v. wp (write_hsfctl (set_flcycle ICH_CYCLE_ERASE v)) (\<lambda>_ h.
          wp (e1000_flash_cycle_ich8lan ICH_FLASH_ERASE_COMMAND_TIMEOUT)
            (\<lambda>r h'. (r = 0 \<longrightarrow> during c I h0 h' \<and> just_done c h') \<and>
              (r \<noteq> 0 \<longrightarrow> wp flash_cycle_again (\<lambda>again h'. (\<not> again \<longrightarrow> during c I h0 h') \<and> (again \<longrightarrow>
                (count + 1 < 10 \<longrightarrow> wp (erase_sector 0 sector_size addr (count + 1)) ?Q h') \<and>
                (\<not> count + 1 < 10 \<longrightarrow> during c I h0 h' \<and> just_done c h'))) h'))
            (log_event (FlashWriteL ICH_FLASH_FADDR addr) h))) h1"
      proof (rule wp_mono [OF wp_read_hsfctl [OF assms(1,2) d1]], goal_cases)
        case (1 v h2)
        then have nb: "\<not> bit (set_flcycle ICH_CYCLE_ERASE v) 0" by simp
        from 1 have d2: "during c I h0 h2" "flash_state h2 = flash_state h1" by simp_all
        show ?case
        proof (rule wp_mono [OF wp_write_hsfctl [OF assms(1,2) d2(1) nb]], goal_cases)
          case (1 u h3)
          then show ?case
            using clr d2(2) by (intro cycle calm) (auto simp: command_of_def assms(4) make_cmd_def Let_def)
        qed
      qed
      with True show ?thesis
        by (simp add: wp Let_def)
    next
      case False
      with d1 show ?thesis by (simp add: wp)
    qed
  qed
qed

lemma wp_erase_bank:
  assumes "flash_part (dev h) code" and "no_erase_fault (dev h)" and "code = 1 \<or> code = 2 \<or> code = 3"
    and "c = make_cmd ICH_CYCLE_ERASE 0
      (flash_base_addr (nvm h) + (if bank \<noteq> 0 then flash_bank_size (nvm h) * 2 else 0)) 0"
    and "preserves code c I" and "idle_flash h" and "I (flash_mem h)"
  shows "wp (e1000_erase_flash_bank_ich8lan bank) (\<lambda>r h'. same_hw h h' \<and> through I h h' \<and>
    (r = 0 \<longrightarrow> idle_flash h' \<and> I (flash_mem h') \<and> flash_completed code c (flash_mem h'))) h"
proof -
  let ?v = "frdw ICH_FLASH_HSFSTS h"
  let ?h1 = "log_event (FlashReadW ICH_FLASH_HSFSTS ?v) h"
  have "during c I h h" by (rule during_start) (use assms(6,7) in \<open>simp_all add: idle_flash_def\<close>)
  then have d: "during c I h ?h1" by (intro during_calm [OF assms(1,5)]) simp_all
  have "berasesz ?v = code" using flash_part_ctl [OF assms(1)] by (simp add: frdw_def)
  then have g: "snd (erase_geometry (berasesz ?v) n) = 1" for n
    using assms(3) by (auto simp: erase_geometry_def)
  have "wp (e1000_erase_flash_bank_ich8lan bank) (\<lambda>r h'. during c I h h' \<and> (r = 0 \<longrightarrow> just_done c h')) h"
    unfolding e1000_erase_flash_bank_ich8lan_def wp Let_def g One_nat_def erase_sectors.simps
    by (rule wp_mono [OF wp_erase_sector [OF assms(1,5,2,4) d]]) (auto simp: wp split: option.splits)
  then show ?thesis
  proof (rule wp_mono, goal_cases)
    case (1 r h')
    then have "flash_part (dev h') code" using assms(1) during_dev [of c I h h'] by simp
    from just_done_simps(1,2) [OF this, of c] 1 show ?case
      using during_ends(1) [of c I h h'] by (cases "r = 0") (simp_all add: during_def idle_flash_def)
  qed
qed


section \<open>A part\<close>

text \<open>A part that executes every command at once and always reports it as done.\<close>

definition chip_exec :: "u16 \<Rightarrow> flash_cmd \<Rightarrow> (u32 \<Rightarrow> u8) \<Rightarrow> u32 \<Rightarrow> u8" where
  "chip_exec code c m x =
     (if cmd_cycle c = ICH_CYCLE_WRITE \<and> unat (x - cmd_addr c) < cmd_bytes c
      then m x AND cmd_byte c (unat (x - cmd_addr c))
      else if cmd_cycle c = ICH_CYCLE_ERASE \<and> same_sector code x (cmd_addr c) then 0xFF
      else m x)"

fun chip_state :: "u16 \<Rightarrow> (u32 \<Rightarrow> u8) \<Rightarrow> event list \<Rightarrow> flash_cmd option \<times> (u32 \<Rightarrow> u8)" where
  "chip_state code m0 [] = (None, m0)"
| "chip_state code m0 (e # t) =
     (if calm_event e then chip_state code m0 t
      else case in_flight (e # t) of
          None \<Rightarrow> chip_state code m0 t
        | Some (c, _) \<Rightarrow> (Some c, chip_exec code c (snd (chip_state code m0 t))))"

definition chip_dword :: "(u32 \<Rightarrow> u8) \<Rightarrow> u32 \<Rightarrow> u32" where
  "chip_dword m a = ucast (m a) OR push_bit 8 (ucast (m (a + 1))) OR push_bit 16 (ucast (m (a + 2))) OR
     push_bit 24 (ucast (m (a + 3)))"

definition flash_chip :: "u16 \<Rightarrow> (u32 \<Rightarrow> u8) \<Rightarrow> device" where
  "flash_chip code m0 = (ram_device (\<lambda>r. 0))\<lparr>
     dev_flash_readw := (\<lambda>t r. if r = ICH_FLASH_HSFSTS then 0x4001 OR push_bit 3 (take_bit 2 code)
       else if r = ICH_FLASH_HSFCTL then fr_ctl (flash_regs_of t) AND 0x306 else 0),
     dev_flash_readl := (\<lambda>t r. if r = ICH_FLASH_HSFSTS then push_bit 16 (ucast (fr_ctl (flash_regs_of t) AND 0x306))
       else if r = ICH_FLASH_FDATA0
       then (case chip_state code m0 t of (Some c, m) \<Rightarrow> chip_dword m (cmd_addr c) | (None, m) \<Rightarrow> 0) else 0),
     dev_flash_mem := (\<lambda>t. snd (chip_state code m0 t))\<rparr>"

lemma chip_exec_effect:
  assumes "cmd_bytes c \<le> 4"
  shows "flash_effect code c m (chip_exec code c m)" "flash_completed code c (chip_exec code c m)"
proof -
  have "x = cmd_addr c + of_nat (unat (x - cmd_addr c))" for x by simp
  then show "flash_effect code c m (chip_exec code c m)"
    unfolding flash_effect_def chip_exec_def by (auto simp: bit_and_iff)
  have "unat (of_nat k :: u32) = k" if "k < cmd_bytes c" for k
    using that assms by (simp add: unat_of_nat take_bit_nat_eq_self)
  then show "flash_completed code c (chip_exec code c m)"
    unfolding flash_completed_def chip_exec_def by (auto simp: bit_and_iff)
qed

lemma in_flight_bytes: "in_flight t = Some (c, b) \<Longrightarrow> cmd_bytes c \<le> 4"
proof (induction t arbitrary: c b)
  case (Cons e t)
  have bytes: "cmd_bytes (make_cmd x (ctl_count v) y z) \<le> 4" for x v y z
  proof -
    have "unat (ctl_count v) < 2 ^ 2" unfolding ctl_count_def by (simp only: unsigned_take_bit_eq take_bit_nat_less_exp)
    then show ?thesis by (simp add: make_cmd_def)
  qed
  show ?case
    using Cons by (cases e) (auto simp: in_flight_def read_status_def write_status_def start_command_def bytes split: if_splits)
qed (simp add: in_flight_def)

lemma in_flight_starts:
  "\<not> calm_event e \<Longrightarrow> in_flight (e # t) \<noteq> None"
  by (cases e) (auto simp: in_flight_def start_command_def split: if_splits)

lemma chip_in_flight:
  "in_flight t = Some (c, b) \<Longrightarrow>
    fst (chip_state code m0 t) = Some c \<and> flash_completed code c (snd (chip_state code m0 t))"
proof (induction t)
  case (Cons e t)
  show ?case
  proof (cases "calm_event e")
    case True
    then have "in_flight t = Some (c, b)"
      using Cons.prems calm_cmd [OF True, of "flash_regs_of t"] by (auto simp: in_flight_def)
    with Cons True show ?thesis by simp
  next
    case False
    with Cons.prems show ?thesis using chip_exec_effect in_flight_bytes [OF Cons.prems] by simp
  qed
qed (simp add: in_flight_def)

lemma flash_effect_refl: "flash_effect code c m m"
  by (simp add: flash_effect_def)

lemma chip_byte:
  assumes "k < 4"
  shows "ucast (drop_bit (8 * k) (chip_dword m a)) = m (a + of_nat k)"
proof -
  have "k = 0 \<or> k = 1 \<or> k = 2 \<or> k = 3" using assms by auto
  then show ?thesis
    by (auto simp: chip_dword_def intro!: bit_word_eqI) (auto simp: bit_simps byte_bit_high)
qed

lemma chip_ctl:
  "\<not> bit (v AND 0x306 :: u16) 0" "ctl_cycle (v AND 0x306) = ctl_cycle v" "ctl_count (v AND 0x306) = ctl_count v"
proof -
  have m: "(0x306 :: u16) = push_bit 1 (mask 2) OR push_bit 8 (mask 2)" by (simp add: mask_eq_exp_minus_1)
  show "\<not> bit (v AND 0x306 :: u16) 0" "ctl_cycle (v AND 0x306) = ctl_cycle v" "ctl_count (v AND 0x306) = ctl_count v"
    unfolding m ctl_cycle_def ctl_count_def
    by (auto intro!: bit_word_eqI simp: bit_simps simp del: push_bit_Suc)
qed

lemma chip_status:
  assumes "code \<in> {0, 1, 2, 3}"
  shows "berasesz (0x4001 OR push_bit 3 (take_bit 2 code)) = code"
    "\<not> flcerr (0x4001 OR push_bit 3 (take_bit 2 code))" "flcdone (0x4001 OR push_bit 3 (take_bit 2 code))"
    "fldesvalid (0x4001 OR push_bit 3 (take_bit 2 code))" "\<not> flcinprog (0x4001 OR push_bit 3 (take_bit 2 code))"
  using assms by (auto simp: berasesz_def flcerr_def flcdone_def fldesvalid_def flcinprog_def)

lemma flash_chip_part:
  assumes "code \<in> {0, 1, 2, 3}"
  shows "flash_part (flash_chip code m0) code"
  unfolding flash_part_def
proof (intro conjI allI)
  fix e t
  show "case in_flight (e # t) of
      None \<Rightarrow> dev_flash_mem (flash_chip code m0) (e # t) = dev_flash_mem (flash_chip code m0) t
    | Some (c, _) \<Rightarrow> flash_effect code c (dev_flash_mem (flash_chip code m0) t) (dev_flash_mem (flash_chip code m0) (e # t))"
  proof (cases "in_flight (e # t)")
    case None
    then show ?thesis using in_flight_starts [of e t] by (auto simp: flash_chip_def)
  next
    case (Some x)
    then obtain c b where x: "in_flight (e # t) = Some (c, b)" by (cases x) auto
    show ?thesis
      using chip_exec_effect(1) [OF in_flight_bytes [OF x]] flash_effect_refl
      by (auto simp: flash_chip_def x)
  qed
next
  fix t c
  show "in_flight t = Some (c, True) \<longrightarrow>
        (let v = dev_flash_readw (flash_chip code m0) t ICH_FLASH_HSFSTS in
         flcdone v \<and> \<not> flcerr v \<longrightarrow>
           flash_completed code c (dev_flash_mem (flash_chip code m0) t) \<and>
           (cmd_cycle c = ICH_CYCLE_READ \<longrightarrow> (\<forall>k < cmd_bytes c.
              ucast (drop_bit (8 * k) (dev_flash_readl (flash_chip code m0) (FlashReadW ICH_FLASH_HSFSTS v # t) ICH_FLASH_FDATA0)) =
              dev_flash_mem (flash_chip code m0) t (cmd_addr c + of_nat k))))"
  proof
    assume c: "in_flight t = Some (c, True)"
    obtain m where "chip_state code m0 t = (Some c, m)" "flash_completed code c m"
      using chip_in_flight [OF c, of code m0] by (cases "chip_state code m0 t") auto
    then show "let v = dev_flash_readw (flash_chip code m0) t ICH_FLASH_HSFSTS in
         flcdone v \<and> \<not> flcerr v \<longrightarrow>
           flash_completed code c (dev_flash_mem (flash_chip code m0) t) \<and>
           (cmd_cycle c = ICH_CYCLE_READ \<longrightarrow> (\<forall>k < cmd_bytes c.
              ucast (drop_bit (8 * k) (dev_flash_readl (flash_chip code m0) (FlashReadW ICH_FLASH_HSFSTS v # t) ICH_FLASH_FDATA0)) =
              dev_flash_mem (flash_chip code m0) t (cmd_addr c + of_nat k)))"
      using in_flight_bytes [OF c] by (auto simp: flash_chip_def Let_def intro!: chip_byte)
  qed
qed (use assms chip_status(1) in \<open>simp_all add: flash_chip_def Let_def chip_ctl status_dword\<close>)

lemma flash_chip_no_fault: "code \<in> {0, 1, 2, 3} \<Longrightarrow> no_erase_fault (flash_chip code m0)"
  using chip_status(2) by (simp add: no_erase_fault_def flash_chip_def)

end
