(* ===== verification/Ich8_Nvm.thy ===== *)
theory Ich8_Nvm
  imports Ich8_Flash
begin

text \<open>
  The NVM of the ICH and PCH parts, \<open>ich8lan.c\<close>: words are read through a shadow RAM that
  holds the pending writes, and a commit copies the valid bank with the pending writes into the
  other bank, marks it valid and invalidates the old one. The tables \<open>ich8_nvm_ops\<close> and
  \<open>spt_nvm_ops\<close> tie the operations together. Also the software flag that arbitrates the
  PHY and the MAC registers with the firmware.
\<close>

unbundle bit_operations_syntax

section \<open>Locks\<close>

definition e1000_acquire_nvm_ich8lan :: "s32 io" where
  "e1000_acquire_nvm_ich8lan = do { mutex_lock; return 0 }"

definition e1000_release_nvm_ich8lan :: "unit io" where
  "e1000_release_nvm_ich8lan = mutex_unlock"

definition set_access_shared_resource :: "bool \<Rightarrow> unit io" where
  "set_access_shared_resource b = set_adapter (\<lambda>a. a\<lparr>access_shared_resource := b\<rparr>)"

text \<open>
  The two waits of the acquisition. \<open>swflag_loop\<close> gives what is left of the timeout and the
  last value read; the second loop is the first with the condition negated.
\<close>

fun swflag_loop :: "bool \<Rightarrow> nat \<Rightarrow> u32 \<Rightarrow> (nat \<times> u32) io" where
  "swflag_loop wanted 0 extcnf_ctrl = return (0, extcnf_ctrl)"
| "swflag_loop wanted (Suc timeout) extcnf_ctrl = do {
     extcnf_ctrl \<leftarrow> er32 E1000_EXTCNF_CTRL;
     if (extcnf_ctrl AND E1000_EXTCNF_CTRL_SWFLAG \<noteq> 0) = wanted
     then return (Suc timeout, extcnf_ctrl)
     else do { mdelay 1; swflag_loop wanted timeout extcnf_ctrl } }"

definition acquire_swflag_inner :: "s32 io" where
  "acquire_swflag_inner = do {
     (timeout, extcnf_ctrl) \<leftarrow> swflag_loop False PHY_CFG_TIMEOUT 0;
     if timeout = 0 then return (- E1000_ERR_CONFIG)
     else do {
       let extcnf_ctrl = extcnf_ctrl OR E1000_EXTCNF_CTRL_SWFLAG;
       ew32 E1000_EXTCNF_CTRL extcnf_ctrl;
       (timeout, extcnf_ctrl) \<leftarrow> swflag_loop True SW_FLAG_TIMEOUT extcnf_ctrl;
       if timeout = 0
       then do {
         _ \<leftarrow> er32 E1000_FWSM;
         let extcnf_ctrl = extcnf_ctrl AND NOT E1000_EXTCNF_CTRL_SWFLAG;
         ew32 E1000_EXTCNF_CTRL extcnf_ctrl;
         return (- E1000_ERR_CONFIG) }
       else return 0 } }"

definition e1000_acquire_swflag_ich8lan :: "s32 io" where
  "e1000_acquire_swflag_ich8lan = do {
     h \<leftarrow> get;
     set_access_shared_resource True;
     if access_shared_resource (adapter h) then return (- E1000_ERR_PHY)
     else do {
       ret_val \<leftarrow> acquire_swflag_inner;
       (if ret_val \<noteq> 0 then set_access_shared_resource False else return ());
       return ret_val } }"

definition e1000_release_swflag_ich8lan :: "unit io" where
  "e1000_release_swflag_ich8lan = do {
     extcnf_ctrl \<leftarrow> er32 E1000_EXTCNF_CTRL;
     (if extcnf_ctrl AND E1000_EXTCNF_CTRL_SWFLAG \<noteq> 0
      then ew32 E1000_EXTCNF_CTRL (extcnf_ctrl AND NOT E1000_EXTCNF_CTRL_SWFLAG)
      else return ());
     set_access_shared_resource False }"

section \<open>Shadow RAM\<close>

definition set_shadow_ram :: "(shadow_ram_word list \<Rightarrow> shadow_ram_word list) \<Rightarrow> unit io" where
  "set_shadow_ram f = modify (\<lambda>h. h\<lparr>shadow_ram := f (shadow_ram h)\<rparr>)"

definition cleared_shadow_ram :: "shadow_ram_word list" where
  "cleared_shadow_ram = replicate E1000_ICH8_SHADOW_RAM_WORDS \<lparr>sr_value = 0xFFFF, sr_modified = False\<rparr>"

definition e1000_init_nvm_params_ich8lan :: "s32 io" where
  "e1000_init_nvm_params_ich8lan = do {
     h \<leftarrow> get;
     set_nvm (\<lambda>n. n\<lparr>nvm_type := e1000_nvm_flash_sw\<rparr>);
     ret_val \<leftarrow>
       (if mac_type (mac h) \<ge> e1000_pch_spt
        then do {
          strap \<leftarrow> er32 E1000_STRAP;
          let nvm_size = (((drop_bit 1 strap) AND 0x1F) + 1) * NVM_SIZE_MULTIPLIER;
          set_nvm (\<lambda>n. n\<lparr>flash_base_addr := 0, flash_bank_size := nvm_size div 2 div 2\<rparr>);
          set_adapter (\<lambda>a. a\<lparr>flash_mapped := True\<rparr>);
          return 0 }
        else if \<not> flash_mapped (adapter h) then return (- E1000_ERR_CONFIG)
        else do {
          gfpreg \<leftarrow> er32flash ICH_FLASH_GFPREG;
          let sector_base_addr = gfpreg AND FLASH_GFPREG_BASE_MASK;
          let sector_end_addr = (drop_bit 16 gfpreg AND FLASH_GFPREG_BASE_MASK) + 1;
          set_nvm (\<lambda>n. n\<lparr>flash_base_addr := push_bit FLASH_SECTOR_ADDR_SHIFT sector_base_addr,
            flash_bank_size :=
              push_bit FLASH_SECTOR_ADDR_SHIFT (sector_end_addr - sector_base_addr) div 2 div 2\<rparr>);
          return 0 });
     if ret_val \<noteq> 0 then return ret_val
     else do {
       set_nvm (\<lambda>n. n\<lparr>word_size := of_nat E1000_ICH8_SHADOW_RAM_WORDS\<rparr>);
       set_shadow_ram (\<lambda>_. cleared_shadow_ram);
       return 0 } }"

section \<open>Reading words\<close>

text \<open>Both routines fall back to bank 0 when no valid bank is found.\<close>

definition active_bank :: "u32 io" where
  "active_bank = do {
     (ret_val, bank) \<leftarrow> e1000_valid_nvm_bank_detect_ich8lan;
     return (if ret_val \<noteq> 0 then 0 else bank) }"

fun read_shadow_loop :: "u16 \<Rightarrow> u32 \<Rightarrow> nat \<Rightarrow> nat \<Rightarrow> u16 list \<Rightarrow> (s32 \<times> u16 list) io" where
  "read_shadow_loop offset act_offset i 0 data = return (0, data)"
| "read_shadow_loop offset act_offset i (Suc n) data = do {
     h \<leftarrow> get;
     let w = shadow_ram h ! (unat offset + i);
     (if sr_modified w
      then read_shadow_loop offset act_offset (Suc i) n (data[i := sr_value w])
      else do {
        (ret_val, word) \<leftarrow> e1000_read_flash_word_ich8lan (act_offset + of_nat i) 0;
        if ret_val \<noteq> 0 then return (ret_val, data)
        else read_shadow_loop offset act_offset (Suc i) n (data[i := word]) }) }"

definition e1000_read_nvm_ich8lan ::
  "'x nvm_lock_ops_scheme \<Rightarrow> u16 \<Rightarrow> u16 \<Rightarrow> u16 list \<Rightarrow> (s32 \<times> u16 list) io" where
  "e1000_read_nvm_ich8lan ops offset words data = do {
     h \<leftarrow> get;
     if nvm_bad_range (word_size (nvm h)) offset words then return (- E1000_ERR_NVM, data)
     else do {
       _ \<leftarrow> nvm_acquire ops;
       bank \<leftarrow> active_bank;
       let act_offset = (if bank \<noteq> 0 then flash_bank_size (nvm h) else 0) + ucast offset;
       (ret_val, data) \<leftarrow> read_shadow_loop offset act_offset 0 (unat words) data;
       nvm_release ops;
       return (ret_val, data) } }"

text \<open>
  SPT reads dwords: the words are taken in pairs, and a last single word is cut out of the dword
  that holds it. The address of a read goes through the 16-bit variable \<open>offset_to_read\<close>.
\<close>

definition read_spt_single :: "u16 \<Rightarrow> u32 \<Rightarrow> nat \<Rightarrow> u16 list \<Rightarrow> (s32 \<times> u16 list) io" where
  "read_spt_single offset act_offset i data = do {
     h \<leftarrow> get;
     let w = shadow_ram h ! (unat offset + i);
     (if sr_modified w then return (0, data[i := sr_value w])
      else do {
        let at = act_offset + of_nat i;
        let offset_to_read = (ucast (at - at mod 2) :: u16);
        (ret_val, dword) \<leftarrow> e1000_read_flash_dword_ich8lan (ucast offset_to_read) 0;
        if ret_val \<noteq> 0 then return (ret_val, data)
        else return (0, data[i :=
          (if at mod 2 = 0 then ucast (dword AND 0xFFFF)
           else ucast (drop_bit 16 dword AND 0xFFFF))]) }) }"

definition read_spt_pair :: "u16 \<Rightarrow> u32 \<Rightarrow> nat \<Rightarrow> u16 list \<Rightarrow> (s32 \<times> u16 list) io" where
  "read_spt_pair offset act_offset i data = do {
     h \<leftarrow> get;
     let lo = shadow_ram h ! (unat offset + i);
     let hi = shadow_ram h ! (unat offset + i + 1);
     let offset_to_read = (ucast (act_offset + of_nat i) :: u16);
     (ret_val, dword) \<leftarrow>
       (if \<not> sr_modified lo \<or> \<not> sr_modified hi
        then e1000_read_flash_dword_ich8lan (ucast offset_to_read) 0
        else return (0, 0));
     if ret_val \<noteq> 0 then return (ret_val, data)
     else do {
       let data = data[i := (if sr_modified lo then sr_value lo else ucast (dword AND 0xFFFF))];
       let data = data[i + 1 :=
         (if sr_modified lo then sr_value hi else ucast (drop_bit 16 dword AND 0xFFFF))];
       return (0, data) } }"

fun read_spt_loop :: "u16 \<Rightarrow> u32 \<Rightarrow> nat \<Rightarrow> nat \<Rightarrow> u16 list \<Rightarrow> (s32 \<times> u16 list) io" where
  "read_spt_loop offset act_offset i 0 data = return (0, data)"
| "read_spt_loop offset act_offset i (Suc 0) data = read_spt_single offset act_offset i data"
| "read_spt_loop offset act_offset i (Suc (Suc n)) data = do {
     (ret_val, data) \<leftarrow> read_spt_pair offset act_offset i data;
     if ret_val \<noteq> 0 then return (ret_val, data)
     else read_spt_loop offset act_offset (i + 2) n data }"

definition e1000_read_nvm_spt ::
  "'x nvm_lock_ops_scheme \<Rightarrow> u16 \<Rightarrow> u16 \<Rightarrow> u16 list \<Rightarrow> (s32 \<times> u16 list) io" where
  "e1000_read_nvm_spt ops offset words data = do {
     h \<leftarrow> get;
     if nvm_bad_range (word_size (nvm h)) offset words then return (- E1000_ERR_NVM, data)
     else do {
       _ \<leftarrow> nvm_acquire ops;
       bank \<leftarrow> active_bank;
       let act_offset = (if bank \<noteq> 0 then flash_bank_size (nvm h) else 0) + ucast offset;
       (ret_val, data) \<leftarrow> read_spt_loop offset act_offset 0 (unat words) data;
       nvm_release ops;
       return (ret_val, data) } }"

section \<open>Writing words\<close>

fun write_shadow_loop :: "nat \<Rightarrow> nat \<Rightarrow> u16 list \<Rightarrow> shadow_ram_word list \<Rightarrow> shadow_ram_word list" where
  "write_shadow_loop at 0 data ram = ram"
| "write_shadow_loop at (Suc n) data ram =
     write_shadow_loop (Suc at) n (tl data) (ram[at := \<lparr>sr_value = hd data, sr_modified = True\<rparr>])"

definition e1000_write_nvm_ich8lan ::
  "'x nvm_lock_ops_scheme \<Rightarrow> u16 \<Rightarrow> u16 \<Rightarrow> u16 list \<Rightarrow> s32 io" where
  "e1000_write_nvm_ich8lan ops offset words data = do {
     h \<leftarrow> get;
     if nvm_bad_range (word_size (nvm h)) offset words then return (- E1000_ERR_NVM)
     else do {
       _ \<leftarrow> nvm_acquire ops;
       set_shadow_ram (write_shadow_loop (unat offset) (unat words) data);
       nvm_release ops;
       return 0 } }"

section \<open>Commit\<close>

text \<open>
  The offsets of the new and the old bank, from the bank that is valid now, and the number of
  the bank to erase.
\<close>

definition commit_banks :: "u32 \<Rightarrow> u32 \<Rightarrow> u32 \<times> u32 \<times> u32" where
  "commit_banks bank_words bank =
     (if bank = 0 then (bank_words, 0, 1) else (0, bank_words, 0))"

text \<open>The word the commit programs at index \<open>i\<close>: word 0x13 with its signature bits set.\<close>

definition commit_word :: "nat \<Rightarrow> u16 \<Rightarrow> u16" where
  "commit_word i data = (if i = unat E1000_ICH_NVM_SIG_WORD then data OR ucast E1000_ICH_NVM_SIG_MASK else data)"

fun commit_words :: "u32 \<Rightarrow> u32 \<Rightarrow> nat \<Rightarrow> nat \<Rightarrow> s32 io" where
  "commit_words old_bank_offset new_bank_offset i 0 = return 0"
| "commit_words old_bank_offset new_bank_offset i (Suc n) = do {
     h \<leftarrow> get;
     let w = shadow_ram h ! i;
     (ret_val, data) \<leftarrow>
       (if sr_modified w then return (0, sr_value w)
        else e1000_read_flash_word_ich8lan (of_nat i + old_bank_offset) 0);
     if ret_val \<noteq> 0 then return ret_val
     else do {
       let data = commit_word i data;
       let act_offset = push_bit 1 (of_nat i + new_bank_offset);
       usleep_range 100 200;
       ret_val \<leftarrow> e1000_retry_write_flash_byte_ich8lan act_offset (ucast data);
       if ret_val \<noteq> 0 then return ret_val
       else do {
         usleep_range 100 200;
         ret_val \<leftarrow> e1000_retry_write_flash_byte_ich8lan (act_offset + 1) (ucast (drop_bit 8 data));
         if ret_val \<noteq> 0 then return ret_val
         else commit_words old_bank_offset new_bank_offset (Suc i) n } } }"

text \<open>The locked part of the update: erase, copy, validate the new bank, invalidate the old.\<close>

definition commit_ich8lan :: "s32 io" where
  "commit_ich8lan = do {
     h \<leftarrow> get;
     bank \<leftarrow> active_bank;
     let (new_bank_offset, old_bank_offset, erased) = commit_banks (flash_bank_size (nvm h)) bank;
     ret_val \<leftarrow> e1000_erase_flash_bank_ich8lan erased;
     if ret_val \<noteq> 0 then return ret_val
     else do {
       ret_val \<leftarrow> commit_words old_bank_offset new_bank_offset 0 E1000_ICH8_SHADOW_RAM_WORDS;
       if ret_val \<noteq> 0 then return ret_val
       else do {
         let act_offset = new_bank_offset + E1000_ICH_NVM_SIG_WORD;
         (ret_val, data) \<leftarrow> e1000_read_flash_word_ich8lan act_offset 0;
         if ret_val \<noteq> 0 then return ret_val
         else do {
           let data = data AND 0xBFFF;
           ret_val \<leftarrow> e1000_retry_write_flash_byte_ich8lan (act_offset * 2 + 1) (ucast (drop_bit 8 data));
           if ret_val \<noteq> 0 then return ret_val
           else do {
             let act_offset = (old_bank_offset + E1000_ICH_NVM_SIG_WORD) * 2 + 1;
             ret_val \<leftarrow> e1000_retry_write_flash_byte_ich8lan act_offset 0;
             if ret_val \<noteq> 0 then return ret_val
             else do {
               set_shadow_ram (\<lambda>_. cleared_shadow_ram);
               return 0 } } } } } }"

text \<open>What the two update routines do around their commit.\<close>

definition update_nvm_checksum_with :: "s32 io \<Rightarrow> 'x nvm_access_ops_scheme \<Rightarrow> s32 io" where
  "update_nvm_checksum_with commit ops = do {
     ret_val \<leftarrow> e1000e_update_nvm_checksum_generic ops;
     h \<leftarrow> get;
     if ret_val \<noteq> 0 \<or> nvm_type (nvm h) \<noteq> e1000_nvm_flash_sw then return ret_val
     else do {
       _ \<leftarrow> nvm_acquire ops;
       ret_val \<leftarrow> commit;
       nvm_release ops;
       (if ret_val = 0 then do { nvm_reload ops; usleep_range 10000 20000 } else return ());
       return ret_val } }"

definition e1000_update_nvm_checksum_ich8lan :: "'x nvm_access_ops_scheme \<Rightarrow> s32 io" where
  "e1000_update_nvm_checksum_ich8lan ops = update_nvm_checksum_with commit_ich8lan ops"

text \<open>The same by dwords, for SPT.\<close>

definition merge_dword :: "shadow_ram_word \<Rightarrow> shadow_ram_word \<Rightarrow> u32 \<Rightarrow> u32" where
  "merge_dword lo hi dword =
     (let dword = (if sr_modified lo then (dword AND 0xffff0000) OR (ucast (sr_value lo) AND 0xffff)
                   else dword)
      in if sr_modified hi
         then (dword AND 0x0000ffff) OR push_bit 16 (ucast (sr_value hi) AND 0xffff)
         else dword)"

fun commit_dwords :: "u32 \<Rightarrow> u32 \<Rightarrow> nat \<Rightarrow> nat \<Rightarrow> s32 io" where
  "commit_dwords old_bank_offset new_bank_offset i 0 = return 0"
| "commit_dwords old_bank_offset new_bank_offset i (Suc n) = do {
     h \<leftarrow> get;
     (ret_val, dword) \<leftarrow> e1000_read_flash_dword_ich8lan (of_nat i + old_bank_offset) 0;
     let dword = merge_dword (shadow_ram h ! i) (shadow_ram h ! (i + 1)) dword;
     if ret_val \<noteq> 0 then return ret_val
     else do {
       let dword = (if i = unat E1000_ICH_NVM_SIG_WORD - 1
         then dword OR push_bit 16 E1000_ICH_NVM_SIG_MASK else dword);
       usleep_range 100 200;
       ret_val \<leftarrow> e1000_retry_write_flash_dword_ich8lan (of_nat i + new_bank_offset) dword;
       if ret_val \<noteq> 0 then return ret_val
       else commit_dwords old_bank_offset new_bank_offset (i + 2) n } }"

definition commit_spt :: "s32 io" where
  "commit_spt = do {
     h \<leftarrow> get;
     bank \<leftarrow> active_bank;
     let (new_bank_offset, old_bank_offset, erased) = commit_banks (flash_bank_size (nvm h)) bank;
     ret_val \<leftarrow> e1000_erase_flash_bank_ich8lan erased;
     if ret_val \<noteq> 0 then return ret_val
     else do {
       ret_val \<leftarrow> commit_dwords old_bank_offset new_bank_offset 0 (E1000_ICH8_SHADOW_RAM_WORDS div 2);
       if ret_val \<noteq> 0 then return ret_val
       else do {
         let act_offset = new_bank_offset + E1000_ICH_NVM_SIG_WORD - 1;
         (ret_val, dword) \<leftarrow> e1000_read_flash_dword_ich8lan act_offset 0;
         if ret_val \<noteq> 0 then return ret_val
         else do {
           ret_val \<leftarrow> e1000_retry_write_flash_dword_ich8lan act_offset (dword AND 0xBFFFFFFF);
           if ret_val \<noteq> 0 then return ret_val
           else do {
             let act_offset = old_bank_offset + E1000_ICH_NVM_SIG_WORD - 1;
             (ret_val, dword) \<leftarrow> e1000_read_flash_dword_ich8lan act_offset dword;
             if ret_val \<noteq> 0 then return ret_val
             else do {
               ret_val \<leftarrow> e1000_retry_write_flash_dword_ich8lan act_offset (dword AND 0x00FFFFFF);
               if ret_val \<noteq> 0 then return ret_val
               else do {
                 set_shadow_ram (\<lambda>_. cleared_shadow_ram);
                 return 0 } } } } } } }"

definition e1000_update_nvm_checksum_spt :: "'x nvm_access_ops_scheme \<Rightarrow> s32 io" where
  "e1000_update_nvm_checksum_spt ops = update_nvm_checksum_with commit_spt ops"

section \<open>Validation and defaults\<close>

definition valid_csum_word :: "mac_kind \<Rightarrow> u16 \<times> u16" where
  "valid_csum_word ty =
     (if ty = e1000_pch_lpt \<or> ty = e1000_pch_spt \<or> ty = e1000_pch_cnp
      then (NVM_COMPAT, NVM_COMPAT_VALID_CSUM)
      else (NVM_FUTURE_INIT_WORD1, NVM_FUTURE_INIT_WORD1_VALID_CSUM))"

definition e1000_validate_nvm_checksum_ich8lan :: "'x nvm_update_ops_scheme \<Rightarrow> s32 io" where
  "e1000_validate_nvm_checksum_ich8lan ops = do {
     h \<leftarrow> get;
     let (word, valid_csum_mask) = valid_csum_word (mac_type (mac h));
     (ret_val, data) \<leftarrow> read_nvm_word ops word;
     if ret_val \<noteq> 0 then return ret_val
     else if data AND valid_csum_mask = 0
     then do {
       ret_val \<leftarrow> e1000_write_nvm ops word 1 [data OR valid_csum_mask];
       if ret_val \<noteq> 0 then return ret_val
       else do {
         ret_val \<leftarrow> nvm_update ops;
         if ret_val \<noteq> 0 then return ret_val else e1000e_validate_nvm_checksum_generic } }
     else e1000e_validate_nvm_checksum_generic }"

definition e1000_valid_led_default_ich8lan :: "'x nvm_access_ops_scheme \<Rightarrow> (s32 \<times> u16) io" where
  "e1000_valid_led_default_ich8lan ops = do {
     (ret_val, data) \<leftarrow> read_nvm_word ops NVM_ID_LED_SETTINGS;
     if ret_val \<noteq> 0 then return (ret_val, data)
     else if data = ID_LED_RESERVED_0000 \<or> data = ID_LED_RESERVED_FFFF
     then return (0, ID_LED_DEFAULT_ICH8LAN)
     else return (0, data) }"

section \<open>Tables of operations\<close>

definition ich8_lock_ops :: nvm_lock_ops where
  "ich8_lock_ops = \<lparr>nvm_acquire = e1000_acquire_nvm_ich8lan, nvm_release = e1000_release_nvm_ich8lan\<rparr>"

definition ich8_access_ops :: nvm_access_ops where
  "ich8_access_ops =
     \<lparr>nvm_acquire = e1000_acquire_nvm_ich8lan, nvm_release = e1000_release_nvm_ich8lan,
      nvm_read = e1000_read_nvm_ich8lan ich8_lock_ops,
      nvm_write = e1000_write_nvm_ich8lan ich8_lock_ops,
      nvm_reload = e1000e_reload_nvm_generic\<rparr>"

definition ich8_update_ops :: nvm_update_ops where
  "ich8_update_ops =
     \<lparr>nvm_acquire = e1000_acquire_nvm_ich8lan, nvm_release = e1000_release_nvm_ich8lan,
      nvm_read = e1000_read_nvm_ich8lan ich8_lock_ops,
      nvm_write = e1000_write_nvm_ich8lan ich8_lock_ops,
      nvm_reload = e1000e_reload_nvm_generic,
      nvm_update = e1000_update_nvm_checksum_ich8lan ich8_access_ops\<rparr>"

definition ich8_nvm_ops :: nvm_operations where
  "ich8_nvm_ops =
     \<lparr>nvm_acquire = e1000_acquire_nvm_ich8lan, nvm_release = e1000_release_nvm_ich8lan,
      nvm_read = e1000_read_nvm_ich8lan ich8_lock_ops,
      nvm_write = e1000_write_nvm_ich8lan ich8_lock_ops,
      nvm_reload = e1000e_reload_nvm_generic,
      nvm_update = e1000_update_nvm_checksum_ich8lan ich8_access_ops,
      nvm_validate = e1000_validate_nvm_checksum_ich8lan ich8_update_ops,
      nvm_valid_led_default = e1000_valid_led_default_ich8lan ich8_access_ops\<rparr>"

definition spt_access_ops :: nvm_access_ops where
  "spt_access_ops =
     \<lparr>nvm_acquire = e1000_acquire_nvm_ich8lan, nvm_release = e1000_release_nvm_ich8lan,
      nvm_read = e1000_read_nvm_spt ich8_lock_ops,
      nvm_write = e1000_write_nvm_ich8lan ich8_lock_ops,
      nvm_reload = e1000e_reload_nvm_generic\<rparr>"

definition spt_update_ops :: nvm_update_ops where
  "spt_update_ops =
     \<lparr>nvm_acquire = e1000_acquire_nvm_ich8lan, nvm_release = e1000_release_nvm_ich8lan,
      nvm_read = e1000_read_nvm_spt ich8_lock_ops,
      nvm_write = e1000_write_nvm_ich8lan ich8_lock_ops,
      nvm_reload = e1000e_reload_nvm_generic,
      nvm_update = e1000_update_nvm_checksum_spt spt_access_ops\<rparr>"

definition spt_nvm_ops :: nvm_operations where
  "spt_nvm_ops =
     \<lparr>nvm_acquire = e1000_acquire_nvm_ich8lan, nvm_release = e1000_release_nvm_ich8lan,
      nvm_read = e1000_read_nvm_spt ich8_lock_ops,
      nvm_write = e1000_write_nvm_ich8lan ich8_lock_ops,
      nvm_reload = e1000e_reload_nvm_generic,
      nvm_update = e1000_update_nvm_checksum_spt spt_access_ops,
      nvm_validate = e1000_validate_nvm_checksum_ich8lan spt_update_ops,
      nvm_valid_led_default = e1000_valid_led_default_ich8lan spt_access_ops\<rparr>"

end
