(* ===== verification/Ich8_Commit.thy ===== *)
theory Ich8_Commit
  imports Flash_Part Ich8_Nvm
begin

text \<open>
  The update of the NVM image of the ICH and PCH parts, seen from the bytes of the flash part:
  what a bank holds, which bank the driver selects, the stages of a commit with the invariant of
  the bytes each of them keeps at every moment, and that a ready part always commits.
\<close>

unbundle bit_operations_syntax

section \<open>Banks and images\<close>

text \<open>
  Byte \<open>j\<close> of a bank, the rule by which the driver selects a bank, and the image that a commit
  is to leave in the other bank: the old one with the pending words, and the signature bits of
  word 0x13 still unprogrammed.
\<close>

definition bank_addr :: "nvm_info \<Rightarrow> u32 \<Rightarrow> nat \<Rightarrow> u32" where
  "bank_addr n b j = flash_base_addr n + (if b \<noteq> 0 then flash_bank_size n * 2 else 0) + of_nat j"

definition bank_byte :: "nvm_info \<Rightarrow> u32 \<Rightarrow> (u32 \<Rightarrow> u8) \<Rightarrow> nat \<Rightarrow> u8" where
  "bank_byte n b m j = m (bank_addr n b j)"

definition valid_bank :: "nvm_info \<Rightarrow> (u32 \<Rightarrow> u8) \<Rightarrow> u32 \<Rightarrow> bool" where
  "valid_bank n m b = nvm_sig_valid (bank_byte n b m 39)"

definition selected_bank :: "nvm_info \<Rightarrow> (u32 \<Rightarrow> u8) \<Rightarrow> u32" where
  "selected_bank n m = (if valid_bank n m 0 then 0 else if valid_bank n m 1 then 1 else 0)"

definition committed_word :: "shadow_ram_word list \<Rightarrow> (nat \<Rightarrow> u8) \<Rightarrow> nat \<Rightarrow> u16" where
  "committed_word ram old i = commit_word i
     (if sr_modified (ram ! i) then sr_value (ram ! i)
      else ucast (old (2 * i)) OR push_bit 8 (ucast (old (2 * i + 1))))"

definition committed_byte :: "shadow_ram_word list \<Rightarrow> (nat \<Rightarrow> u8) \<Rightarrow> nat \<Rightarrow> u8" where
  "committed_byte ram old j = (let w = committed_word ram old (j div 2) in
     if even j then ucast w else ucast (drop_bit 8 w))"

text \<open>The bank holds the image \<open>f\<close>, up to the byte with the signature.\<close>

definition holds_image :: "nvm_info \<Rightarrow> (u32 \<Rightarrow> u8) \<Rightarrow> u32 \<Rightarrow> (nat \<Rightarrow> u8) \<Rightarrow> bool" where
  "holds_image n m b f \<longleftrightarrow> (\<forall>j < 4096. j \<noteq> 39 \<longrightarrow> bank_byte n b m j = f j)"

text \<open>
  The banks lie whole sectors apart, hold the 2048 words, and fit into the 24 address bits.
\<close>

definition flash_layout :: "u16 \<Rightarrow> nvm_info \<Rightarrow> bool" where
  "flash_layout code n \<longleftrightarrow>
     2 ^ sector_bits code dvd unat (flash_base_addr n) \<and> 2 ^ sector_bits code dvd 2 * unat (flash_bank_size n) \<and>
     2048 \<le> unat (flash_bank_size n) \<and> unat (flash_base_addr n) + 4 * unat (flash_bank_size n) \<le> 2 ^ 24"

lemma unat_bank_addr:
  assumes "flash_layout code n" and "j < 4096"
  shows "unat (bank_addr n b j) = unat (flash_base_addr n) + (if b \<noteq> 0 then 2 * unat (flash_bank_size n) else 0) + j"
proof -
  have w: "unat (flash_base_addr n) + 4 * unat (flash_bank_size n) \<le> 16777216" "2048 \<le> unat (flash_bank_size n)"
    using assms(1) by (simp_all add: flash_layout_def)
  show ?thesis
    using w assms(2) by (simp add: bank_addr_def unat_word_ariths unat_of_nat take_bit_nat_eq_self)
qed

lemma bank_addr_eq:
  assumes "flash_layout code n" and "i < 4096" "j < 4096"
  shows "bank_addr n b i = bank_addr n b' j \<longleftrightarrow> (b = 0 \<longleftrightarrow> b' = 0) \<and> i = j"
proof -
  have "2048 \<le> unat (flash_bank_size n)" using assms(1) by (simp add: flash_layout_def)
  then show ?thesis
    using assms(2,3) unat_bank_addr [OF assms(1,2), of b] unat_bank_addr [OF assms(1,3), of b']
    by (auto simp: word_unat_eq_iff)
qed

text \<open>The address of a word or byte access in a bank, as the driver computes it.\<close>

definition bank_offset :: "nvm_info \<Rightarrow> u32 \<Rightarrow> u32" where
  "bank_offset n b = (if b \<noteq> 0 then flash_bank_size n else 0)"

lemma linear_mask:
  fixes x :: u32
  assumes "unat x < 2 ^ 24"
  shows "ICH_FLASH_LINEAR_ADDR_MASK AND x = x"
proof -
  have m: "ICH_FLASH_LINEAR_ADDR_MASK = mask 24" by (simp add: mask_eq_exp_minus_1)
  have "take_bit 24 x = x"
    using assms by (simp add: word_unat_eq_iff unsigned_take_bit_eq take_bit_nat_eq_self)
  then show ?thesis unfolding m by (simp add: take_bit_eq_mask and.commute)
qed

lemma flash_at_bank:
  assumes "flash_layout code (nvm h)" and "j < 4096"
    and "x = bank_offset (nvm h) b * 2 + of_nat j"
  shows "flash_at h x = bank_addr (nvm h) b j"
proof -
  have w: "unat (flash_base_addr (nvm h)) + 4 * unat (flash_bank_size (nvm h)) \<le> 16777216"
    "2048 \<le> unat (flash_bank_size (nvm h))"
    using assms(1) by (simp_all add: flash_layout_def)
  have "unat x = (if b \<noteq> 0 then 2 * unat (flash_bank_size (nvm h)) else 0) + j"
    using w assms(2,3) by (simp add: bank_offset_def unat_word_ariths unat_of_nat take_bit_nat_eq_self)
  then have "ICH_FLASH_LINEAR_ADDR_MASK AND x = x" using w assms(2) by (intro linear_mask) auto
  then show ?thesis
    by (simp add: flash_at_def flash_linear_def assms(3) bank_addr_def bank_offset_def)
qed

section \<open>Signatures\<close>

lemma sig_bits: "nvm_sig_valid b \<longleftrightarrow> bit b 7 \<and> \<not> bit b 6"
proof -
  have "nvm_sig_valid b \<longleftrightarrow> (b AND 0xC0) = 0x80" by (simp add: nvm_sig_valid_def)
  also have "\<dots> \<longleftrightarrow> bit b 7 \<and> \<not> bit b 6"
  proof
    assume a: "b AND 0xC0 = 0x80"
    from arg_cong [OF this, of "\<lambda>w. bit w 7"] arg_cong [OF this, of "\<lambda>w. bit w 6"]
    show "bit b 7 \<and> \<not> bit b 6" by (simp add: bit_and_iff)
  next
    assume a: "bit b 7 \<and> \<not> bit b 6"
    show "b AND 0xC0 = 0x80"
    proof (rule bit_word_eqI)
      fix k assume "k < LENGTH(8)"
      then have "k \<in> {0, 1, 2, 3, 4, 5, 6, 7}" by auto
      with a show "bit (b AND 0xC0) k = bit (0x80 :: u8) k" by (auto simp: bit_and_iff)
    qed
  qed
  finally show ?thesis .
qed

lemma committed_sig: "bit (committed_byte ram old 39) 7" "bit (committed_byte ram old 39) 6"
proof -
  have "(ucast E1000_ICH_NVM_SIG_MASK :: u16) = push_bit 14 1 OR push_bit 15 1" by simp
  then have "bit (commit_word 19 w) 14" "bit (commit_word 19 w) 15" for w
    unfolding commit_word_def by (simp_all add: bit_or_iff)
  then show "bit (committed_byte ram old 39) 7" "bit (committed_byte ram old 39) 6"
    by (simp_all add: committed_byte_def committed_word_def bit_simps Let_def)
qed


section \<open>Invariants over the bytes of the two banks\<close>

definition banks_inv :: "nvm_info \<Rightarrow> (u32 \<Rightarrow> nat \<Rightarrow> u8 \<Rightarrow> bool) \<Rightarrow> (u32 \<Rightarrow> u8) \<Rightarrow> bool" where
  "banks_inv n B m \<longleftrightarrow> (\<forall>b \<in> {0, 1}. \<forall>j < 4096. B b j (bank_byte n b m j))"

text \<open>\<open>y\<close> may be seen while \<open>byte\<close> is programmed over \<open>x\<close>.\<close>

definition programs :: "u8 \<Rightarrow> u8 \<Rightarrow> u8 \<Rightarrow> bool" where
  "programs byte x y \<longleftrightarrow> (\<forall>i. (bit y i \<longrightarrow> bit x i) \<and> (bit x i \<longrightarrow> bit byte i \<longrightarrow> bit y i))"

lemma byte_cmd:
  "cmd_byte (make_cmd ICH_CYCLE_WRITE 0 a (ucast byte)) 0 = byte"
  by (auto simp: cmd_byte_def make_cmd_def intro!: bit_word_eqI) (auto simp: bit_simps)

lemma preserves_program:
  assumes "flash_layout code n" and "b \<in> {0, 1}" and "k < 4096"
    and "\<And>x y. B b k x \<Longrightarrow> programs byte x y \<Longrightarrow> B b k y"
  shows "preserves code (make_cmd ICH_CYCLE_WRITE 0 (bank_addr n b k) (ucast byte)) (banks_inv n B)"
  unfolding preserves_def
proof (intro allI impI)
  let ?c = "make_cmd ICH_CYCLE_WRITE 0 (bank_addr n b k) (ucast byte)"
  fix m m' assume B: "banks_inv n B m" and e: "flash_effect code ?c m m'"
  have c: "cmd_cycle ?c = ICH_CYCLE_WRITE" "cmd_bytes ?c = 1" "cmd_addr ?c = bank_addr n b k"
    by (simp_all add: make_cmd_def)
  have e': "m' x = m x \<or> x = bank_addr n b k \<and> programs byte (m x) (m' x)" for x
    using e [unfolded flash_effect_def, rule_format, of x] by (auto simp: c byte_cmd programs_def)
  have "B b' j (bank_byte n b' m' j)" if "b' \<in> {0, 1}" "j < 4096" for b' j
  proof -
    have B': "B b' j (bank_byte n b' m j)" using B that by (auto simp: banks_inv_def)
    show ?thesis
    proof (cases "bank_addr n b' j = bank_addr n b k")
      case True
      then have "b' = b" "j = k" using bank_addr_eq [OF assms(1) that(2) assms(3)] that(1) assms(2) by auto
      with B' e' [of "bank_addr n b k"] assms(4) show ?thesis by (auto simp: bank_byte_def)
    next
      case False
      with B' e' [of "bank_addr n b' j"] show ?thesis by (auto simp: bank_byte_def)
    qed
  qed
  then show "banks_inv n B m'" by (simp add: banks_inv_def)
qed

lemma completed_program:
  fixes byte :: u8
  assumes "flash_completed code (make_cmd ICH_CYCLE_WRITE 0 (bank_addr n b k) (ucast byte)) m"
  shows "bit (bank_byte n b m k) i \<Longrightarrow> bit byte i"
  using assms byte_cmd [of "bank_addr n b k" byte] by (auto simp: flash_completed_def make_cmd_def bank_byte_def)

lemma sector_of_bank:
  assumes "flash_layout code n" and "code \<in> {1, 2, 3}" and "j < 4096"
  shows "same_sector code (bank_addr n b' j) (bank_addr n b 0) \<longleftrightarrow> (b' = 0 \<longleftrightarrow> b = 0)"
proof -
  let ?s = "(2 :: nat) ^ sector_bits code"
  let ?W = "2 * unat (flash_bank_size n)"
  obtain p q where pq: "unat (flash_base_addr n) = ?s * p" "?W = ?s * q"
    using assms(1) unfolding flash_layout_def dvd_def by blast
  have s: "4096 \<le> ?s" using assms(2) by (auto simp: sector_bits_def)
  then have "0 < ?W" using assms(1) by (simp add: flash_layout_def)
  then have q: "0 < q" unfolding pq(2) by simp
  have div: "(?s * p + (if c then ?s * q else 0) + j) div ?s = p + (if c then q else 0)" if "j < 4096" for c j
  proof -
    have "?s * p + (if c then ?s * q else 0) + j = j + ?s * (p + (if c then q else 0))" by (simp add: algebra_simps)
    then show ?thesis using that s by simp
  qed
  have u: "unat (drop_bit (sector_bits code) (bank_addr n c i)) = p + (if c \<noteq> 0 then q else 0)" if "i < 4096" for c i
    using unat_bank_addr [OF assms(1) that, of c] div [OF that, of "c \<noteq> 0"]
    by (simp only: unat_drop_bit_eq drop_bit_eq_div [where 'a = nat] pq)
  show ?thesis
    using u [OF assms(3), of b'] u [of 0 b] q by (auto simp: same_sector_def word_unat_eq_iff)
qed

lemma preserves_erase:
  assumes "flash_layout code n" and "code \<in> {1, 2, 3}" and "b \<in> {0, 1}"
    and "\<And>j x. B b j x \<Longrightarrow> B b j 0xFF"
  shows "preserves code (make_cmd ICH_CYCLE_ERASE 0 (bank_addr n b 0) 0) (banks_inv n B)"
  unfolding preserves_def
proof (intro allI impI)
  let ?c = "make_cmd ICH_CYCLE_ERASE 0 (bank_addr n b 0) 0"
  fix m m' assume B: "banks_inv n B m" and e: "flash_effect code ?c m m'"
  have e': "m' x = m x \<or> same_sector code x (bank_addr n b 0) \<and> m' x = 0xFF" for x
    using e [unfolded flash_effect_def, rule_format, of x] by (auto simp: make_cmd_def)
  show "banks_inv n B m'"
    unfolding banks_inv_def
  proof (intro ballI allI impI)
    fix b' j assume b': "b' \<in> {0, 1 :: u32}" "j < (4096 :: nat)"
    then have "B b' j (m (bank_addr n b' j))" using B by (auto simp: banks_inv_def bank_byte_def)
    moreover have "b' = b" if "same_sector code (bank_addr n b' j) (bank_addr n b 0)"
      using sector_of_bank [OF assms(1,2) b'(2)] that b'(1) assms(3) by auto
    ultimately show "B b' j (bank_byte n b' m' j)"
      using e' [of "bank_addr n b' j"] assms(4) unfolding bank_byte_def by metis
  qed
qed

lemma completed_erase:
  assumes "flash_layout code n" and "code \<in> {1, 2, 3}" and "j < 4096"
    and "flash_completed code (make_cmd ICH_CYCLE_ERASE 0 (bank_addr n b 0) 0) m"
  shows "bank_byte n b m j = 0xFF"
  using assms(4) sector_of_bank [OF assms(1-3), of b b]
  by (simp add: flash_completed_def make_cmd_def bank_byte_def)


section \<open>Stages of a commit\<close>

text \<open>The other fields stay, and \<open>G\<close> holds of the bytes at every moment.\<close>

definition stage :: "((u32 \<Rightarrow> u8) \<Rightarrow> bool) \<Rightarrow> hw \<Rightarrow> hw \<Rightarrow> bool" where
  "stage G h h' \<longleftrightarrow> same_hw h h' \<and> through G h h'"

lemma stage_trans: "stage G a b \<Longrightarrow> stage G b c \<Longrightarrow> stage G a c"
  using same_hw_trans through_trans same_hw_fields(9) unfolding stage_def by blast

lemma stage_refl: "G (flash_mem h) \<Longrightarrow> stage G h h"
  by (simp add: stage_def through_refl)

lemma stage_fields:
  assumes "stage G h h'"
  shows "dev h' = dev h" "nvm h' = nvm h" "mac h' = mac h" "shadow_ram h' = shadow_ram h" "G (flash_mem h')"
    "G (flash_mem h)"
  using assms through_ends [of G h h'] by (auto simp: stage_def same_hw_fields)

lemma idle_calm:
  assumes "flash_part (dev h) code" and "idle_flash h" and "calm_event e" and "G (flash_mem h)"
  shows "idle_flash (log_event e h) \<and> flash_mem (log_event e h) = flash_mem h \<and> stage G h (log_event e h)"
proof -
  have n: "harmless (fr_cmd (flash_state (log_event e h)))"
    using assms(2) calm_cmd [OF assms(3), of "flash_state h"] by (auto simp: idle_flash_def)
  have m: "flash_mem (log_event e h) = flash_mem h" by (rule flash_mem_idle [OF assms(1) n])
  have "through G h (log_event e h)"
    using through_refl [of G h] by (rule through_log) (simp_all add: m assms(4))
  with n m show ?thesis by (simp add: idle_flash_def stage_def)
qed

lemma through_unchanged: "through (\<lambda>m. m = flash_mem h) h h' \<Longrightarrow> G (flash_mem h) \<Longrightarrow> through G h h'"
  by (auto elim: through_mono)

text \<open>A word read, and a byte programmed in a bank.\<close>

lemma wp_bank_word:
  assumes "flash_part (dev h) code" and "flash_layout code (nvm h)" and "idle_flash h" and "G (flash_mem h)"
    and "2 * i + 1 < 4096" and "offset = bank_offset (nvm h) b + of_nat i"
  shows "wp (e1000_read_flash_word_ich8lan offset data) (\<lambda>(r, v) h'. stage G h h' \<and>
    (r = 0 \<longrightarrow> idle_flash h' \<and> flash_mem h' = flash_mem h \<and>
       v = ucast (bank_byte (nvm h) b (flash_mem h) (2 * i)) OR
         push_bit 8 (ucast (bank_byte (nvm h) b (flash_mem h) (2 * i + 1))))) h"
proof -
  have at: "flash_at h (push_bit 1 offset) = bank_addr (nvm h) b (2 * i)"
    by (rule flash_at_bank [OF assms(2)]) (use assms(5) in \<open>auto simp: assms(6) push_bit_eq_mult algebra_simps\<close>)
  have next': "bank_addr (nvm h) b (2 * i) + 1 = bank_addr (nvm h) b (2 * i + 1)"
    by (simp add: bank_addr_def algebra_simps)
  show ?thesis
    by (rule wp_mono [OF wp_read_flash_word [OF assms(1,3), of offset data, unfolded at mem_word_def next']])
      (auto simp: stage_def bank_byte_def intro: through_unchanged assms(4))
qed

lemma wp_bank_program:
  assumes "flash_part (dev h) code" and "flash_layout code (nvm h)" and "idle_flash h"
    and "banks_inv (nvm h) B (flash_mem h)" and "\<And>m. banks_inv (nvm h) B m \<Longrightarrow> G m"
    and "b \<in> {0, 1}" and "k < 4096" and "offset = bank_offset (nvm h) b * 2 + of_nat k"
    and "\<And>x y. B b k x \<Longrightarrow> programs byte x y \<Longrightarrow> B b k y"
  shows "wp (e1000_retry_write_flash_byte_ich8lan offset byte) (\<lambda>r h'. stage G h h' \<and>
    (r = 0 \<longrightarrow> idle_flash h' \<and> banks_inv (nvm h) B (flash_mem h') \<and>
       (\<forall>i. bit (bank_byte (nvm h) b (flash_mem h') k) i \<longrightarrow> bit byte i))) h"
proof -
  have c: "write_cmd h offset byte = make_cmd ICH_CYCLE_WRITE 0 (bank_addr (nvm h) b k) (ucast byte)"
    using flash_at_bank [OF assms(2,7,8)] by (simp add: write_cmd_def)
  have p: "preserves code (write_cmd h offset byte) (banks_inv (nvm h) B)"
    unfolding c using assms(2,6,7,9) by (rule preserves_program)
  show ?thesis
  proof (rule wp_mono [OF wp_retry_write_byte [OF assms(1) p assms(3,4)]], goal_cases)
    case (1 r h')
    then have "through G h h'" using assms(5) through_mono by blast
    with 1 show ?case unfolding c by (auto simp: stage_def dest: completed_program)
  qed
qed

text \<open>How stages follow each other.\<close>

lemma wp_then:
  assumes "wp m (\<lambda>r h'. stage G h h' \<and> (r = 0 \<longrightarrow> P h')) h"
    and "\<And>g. stage G h g \<Longrightarrow> P g \<Longrightarrow> wp k (\<lambda>r h'. stage G g h' \<and> (r = 0 \<longrightarrow> Q h')) g"
  shows "wp (do { r \<leftarrow> m; if r \<noteq> (0 :: s32) then return r else k }) (\<lambda>r h'. stage G h h' \<and> (r = 0 \<longrightarrow> Q h')) h"
  unfolding wp
  by (rule wp_mono [OF assms(1)]) (auto intro: stage_trans wp_mono [OF assms(2)])

lemma wp_then_value:
  assumes "wp m (\<lambda>(r, v) h'. stage G h h' \<and> (r = 0 \<longrightarrow> P v h')) h"
    and "\<And>v g. stage G h g \<Longrightarrow> P v g \<Longrightarrow> wp (k v) (\<lambda>r h'. stage G g h' \<and> (r = 0 \<longrightarrow> Q h')) g"
  shows "wp (do { (r, v) \<leftarrow> m; if r \<noteq> (0 :: s32) then return r else k v }) (\<lambda>r h'. stage G h h' \<and> (r = 0 \<longrightarrow> Q h')) h"
  unfolding wp
  by (rule wp_mono [OF assms(1)]) (auto intro: stage_trans wp_mono [OF assms(2)])

lemma wp_then_sleep:
  assumes "flash_part (dev h) code" and "idle_flash h" and "G (flash_mem h)"
    and "\<And>g. stage G h g \<Longrightarrow> idle_flash g \<Longrightarrow> flash_mem g = flash_mem h \<Longrightarrow>
      wp k (\<lambda>r h'. stage G g h' \<and> (r = (0 :: s32) \<longrightarrow> Q h')) g"
  shows "wp (do { usleep_range lo hi; k }) (\<lambda>r h'. stage G h h' \<and> (r = 0 \<longrightarrow> Q h')) h"
  unfolding wp using idle_calm [OF assms(1,2), of "Delay lo" G] assms(3)
  by (auto intro: stage_trans wp_mono [OF assms(4)])

section \<open>The commit\<close>

text \<open>
  Throughout, the selected bank holds either the whole old image or the whole new one, up to
  the byte with the signature.
\<close>

definition power_safe :: "nvm_info \<Rightarrow> u32 \<Rightarrow> (nat \<Rightarrow> u8) \<Rightarrow> (nat \<Rightarrow> u8) \<Rightarrow> (u32 \<Rightarrow> u8) \<Rightarrow> bool" where
  "power_safe n bank old new m \<longleftrightarrow>
     selected_bank n m = bank \<and> holds_image n m bank old \<or>
     selected_bank n m = 1 - bank \<and> holds_image n m (1 - bank) new"

text \<open>The old bank as it was, and a condition for each byte of the new one.\<close>

definition copying :: "u32 \<Rightarrow> (nat \<Rightarrow> u8) \<Rightarrow> (nat \<Rightarrow> u8 \<Rightarrow> bool) \<Rightarrow> u32 \<Rightarrow> nat \<Rightarrow> u8 \<Rightarrow> bool" where
  "copying bank old P b j x = (if b = bank then x = old j else P j x)"

definition copied :: "(nat \<Rightarrow> u8) \<Rightarrow> nat \<Rightarrow> nat \<Rightarrow> u8 \<Rightarrow> bool" where
  "copied new k j x = (if j < k then x = new j else x = 0xFF)"

definition copying_byte :: "(nat \<Rightarrow> u8) \<Rightarrow> nat \<Rightarrow> nat \<Rightarrow> u8 \<Rightarrow> bool" where
  "copying_byte new k j x =
     (if j < k then x = new j else if j = k then (\<forall>i. bit (new k) i \<longrightarrow> bit x i) else x = 0xFF)"

lemma all_ones_byte: "i < 8 \<Longrightarrow> bit (0xFF :: u8) i"
proof -
  have "(0xFF :: u8) = mask 8" by (simp add: mask_eq_exp_minus_1)
  then show "i < 8 \<Longrightarrow> bit (0xFF :: u8) i" by (simp only: bit_mask_iff) simp
qed

lemma programs_to: "(\<forall>i. bit v i \<longrightarrow> bit x i) \<Longrightarrow> (\<forall>i. bit x i \<longrightarrow> bit v i) \<Longrightarrow> x = (v :: u8)"
  by (auto intro: bit_word_eqI)

lemma selected_old:
  assumes "bank \<in> {0, 1}" and "valid_bank n m bank" and "bank = 1 \<Longrightarrow> \<not> valid_bank n m 0"
  shows "selected_bank n m = bank"
  using assms by (auto simp: selected_bank_def)

text \<open>
  While the copy is made the new bank has no valid signature: its byte is all ones or has both
  signature bits set.
\<close>

lemma copying_safe:
  assumes "banks_inv n (copying bank old P) m" and "bank \<in> {0, 1}" and "nvm_sig_valid (old 39)"
    and "\<And>x. bank = 1 \<Longrightarrow> P 39 x \<Longrightarrow> \<not> nvm_sig_valid x"
  shows "power_safe n bank old new m"
proof -
  have o: "bank_byte n bank m j = old j" if "j < 4096" for j
    using assms(1,2) that by (auto simp: banks_inv_def copying_def)
  have "P 39 (bank_byte n (1 - bank) m 39)"
    using assms(1,2) by (auto simp: banks_inv_def copying_def)
  then have "selected_bank n m = bank"
    using assms(2-4) o [of 39] by (intro selected_old) (auto simp: valid_bank_def)
  with o show ?thesis by (simp add: power_safe_def holds_image_def)
qed


lemma banks_inv_mono:
  "banks_inv n B m \<Longrightarrow> (\<And>b j x. b \<in> {0, 1} \<Longrightarrow> j < 4096 \<Longrightarrow> B b j x \<Longrightarrow> B' b j x) \<Longrightarrow> banks_inv n B' m"
  unfolding banks_inv_def by blast

lemma other_bank: "bank \<in> {0, 1} \<Longrightarrow> 1 - bank \<in> {0, 1} \<and> 1 - bank \<noteq> (bank :: u32)"
  by auto

lemma copying_byte_unsigned:
  assumes "bit (new 39) 7" "bit (new 39) 6" and "copying_byte new k 39 x"
  shows "\<not> nvm_sig_valid x"
  using assms all_ones_byte [of 6] by (auto simp: copying_byte_def sig_bits split: if_splits)

lemma copied_unsigned:
  assumes "bit (new 39) 7" "bit (new 39) 6" and "copied new k 39 x"
  shows "\<not> nvm_sig_valid x"
  using assms all_ones_byte [of 6] by (auto simp: copied_def sig_bits split: if_splits)

lemma copied_safe:
  assumes "banks_inv n (copying bank old (copied new k)) m" and "bank \<in> {0, 1}" and "nvm_sig_valid (old 39)"
    and "bit (new 39) 7" "bit (new 39) 6"
  shows "power_safe n bank old new m"
  using assms(1-3) by (rule copying_safe) (use assms(4,5) in \<open>rule copied_unsigned\<close>)

lemma wp_copy_byte:
  assumes "flash_part (dev h) code" and "flash_layout code (nvm h)" and "bank \<in> {0, 1}"
    and "nvm_sig_valid (old 39)" and "bit (new 39) 7" "bit (new 39) 6"
    and "idle_flash h" and "banks_inv (nvm h) (copying bank old (copied new k)) (flash_mem h)"
    and "k < 4096" and "offset = bank_offset (nvm h) (1 - bank) * 2 + of_nat k"
  shows "wp (e1000_retry_write_flash_byte_ich8lan offset (new k)) (\<lambda>r h'.
    stage (power_safe (nvm h) bank old new) h h' \<and>
    (r = 0 \<longrightarrow> idle_flash h' \<and> banks_inv (nvm h) (copying bank old (copied new (Suc k))) (flash_mem h'))) h"
proof -
  let ?B = "copying bank old (copying_byte new k)"
  have nb: "1 - bank \<in> {0, 1}" "1 - bank \<noteq> bank" using other_bank [OF assms(3)] by auto
  have start: "banks_inv (nvm h) ?B (flash_mem h)"
    using assms(8) by (rule banks_inv_mono)
      (auto simp: copying_def copied_def copying_byte_def all_ones_byte simp del: bit_numeral_word_iff
        split: if_splits dest!: bit_imp_le_length)
  have safe: "power_safe (nvm h) bank old new m" if "banks_inv (nvm h) ?B m" for m
    using that assms(3,4) by (rule copying_safe) (use assms(5,6) in \<open>rule copying_byte_unsigned\<close>)
  have closed: "?B (1 - bank) k y" if "?B (1 - bank) k x" "programs (new k) x y" for x y
    using that nb by (auto simp: copying_def copying_byte_def programs_def)
  have "wp (e1000_retry_write_flash_byte_ich8lan offset (new k)) (\<lambda>r h'.
    stage (power_safe (nvm h) bank old new) h h' \<and> (r = 0 \<longrightarrow> idle_flash h' \<and> banks_inv (nvm h) ?B (flash_mem h') \<and>
       (\<forall>i. bit (bank_byte (nvm h) (1 - bank) (flash_mem h') k) i \<longrightarrow> bit (new k) i))) h"
    by (rule wp_bank_program [OF assms(1,2,7) start _ nb(1) assms(9,10)]) (erule safe, erule (1) closed)
  then show ?thesis
  proof (rule wp_mono, goal_cases)
    case (1 r h')
    have "banks_inv (nvm h) (copying bank old (copied new (Suc k))) (flash_mem h')" if "r = 0"
    proof -
      have inv: "banks_inv (nvm h) ?B (flash_mem h')"
        and le: "\<And>i. bit (bank_byte (nvm h) (1 - bank) (flash_mem h') k) i \<Longrightarrow> bit (new k) i"
        using 1 that by auto
      have ge: "\<forall>i. bit (new k) i \<longrightarrow> bit (bank_byte (nvm h) (1 - bank) (flash_mem h') k) i"
        using inv nb assms(9) by (auto simp: banks_inv_def copying_def copying_byte_def)
      have k: "bank_byte (nvm h) (1 - bank) (flash_mem h') k = new k"
        using programs_to [OF ge] le by blast
      show ?thesis
        unfolding banks_inv_def
      proof (intro ballI allI impI)
        fix b j assume b: "b \<in> {0, 1 :: u32}" "j < (4096 :: nat)"
        then have "?B b j (bank_byte (nvm h) b (flash_mem h') j)" using inv by (auto simp: banks_inv_def)
        moreover have "b = bank \<or> b = 1 - bank" using b(1) assms(3) by auto
        ultimately show "copying bank old (copied new (Suc k)) b j (bank_byte (nvm h) b (flash_mem h') j)"
          using k by (auto simp: copying_def copied_def copying_byte_def less_Suc_eq split: if_splits)
      qed
    qed
    with 1 show ?case by simp
  qed
qed


lemma committed_bytes:
  "ucast (committed_word ram old i) = committed_byte ram old (2 * i)"
  "ucast (drop_bit 8 (committed_word ram old i)) = committed_byte ram old (2 * i + 1)"
  by (simp_all add: committed_byte_def)

lemma wp_commit_words:
  assumes "flash_part (dev h) code" and "flash_layout code (nvm h)" and "bank \<in> {0, 1}"
    and "nvm_sig_valid (old 39)" and "new = committed_byte (shadow_ram h) old"
    and "idle_flash h" and "banks_inv (nvm h) (copying bank old (copied new (2 * i))) (flash_mem h)"
    and "i + k = 2048"
  shows "wp (commit_words (bank_offset (nvm h) bank) (bank_offset (nvm h) (1 - bank)) i k) (\<lambda>r h'.
    stage (power_safe (nvm h) bank old new) h h' \<and>
    (r = 0 \<longrightarrow> idle_flash h' \<and> banks_inv (nvm h) (copying bank old (copied new 4096)) (flash_mem h'))) h"
  using assms
proof (induction k arbitrary: i h)
  case 0
  note sig = committed_sig [of "shadow_ram h" old, folded 0(5)]
  have "power_safe (nvm h) bank old new (flash_mem h)"
    using 0(7,3,4) sig by (rule copied_safe)
  with 0 show ?case by (simp add: wp stage_refl)
next
  case (Suc k)
  let ?n = "nvm h" and ?G = "power_safe (nvm h) bank old new"
  let ?w = "committed_word (shadow_ram h) old i"
  note part = Suc.prems(1) and layout = Suc.prems(2) and bank = Suc.prems(3)
  note sig = committed_sig [of "shadow_ram h" old, folded Suc.prems(5)]
  have i: "i < 2048" using Suc.prems(8) by simp
  have safe: "?G (flash_mem h)"
    using Suc.prems(7) bank Suc.prems(4) sig by (rule copied_safe)
  have old: "bank_byte ?n bank (flash_mem h) j = old j" if "j < 4096" for j
    using Suc.prems(7) bank that by (auto simp: banks_inv_def copying_def)
  have read: "wp (if sr_modified (shadow_ram h ! i) then return (0, sr_value (shadow_ram h ! i))
       else e1000_read_flash_word_ich8lan (of_nat i + bank_offset ?n bank) 0)
    (\<lambda>(r, v) h'. stage ?G h h' \<and> (r = 0 \<longrightarrow> idle_flash h' \<and> flash_mem h' = flash_mem h \<and>
       commit_word i v = ?w)) h"
  proof (cases "sr_modified (shadow_ram h ! i)")
    case True
    then show ?thesis
      using Suc.prems(6) safe by (simp add: wp stage_refl committed_word_def)
  next
    case False
    have "wp (e1000_read_flash_word_ich8lan (of_nat i + bank_offset ?n bank) 0)
      (\<lambda>(r, v) h'. stage ?G h h' \<and> (r = 0 \<longrightarrow> idle_flash h' \<and> flash_mem h' = flash_mem h \<and>
         commit_word i v = ?w)) h"
      by (rule wp_mono [OF wp_bank_word [where i = i and b = bank and G = ?G, OF part layout Suc.prems(6) safe]])
        (use i False old [of "2 * i"] old [of "2 * i + 1"] in \<open>auto simp: committed_word_def add.commute\<close>)
    with False show ?thesis by simp
  qed
  have low: "wp (e1000_retry_write_flash_byte_ich8lan (push_bit 1 (of_nat i + bank_offset ?n (1 - bank))) (ucast ?w))
      (\<lambda>r g'. stage ?G g g' \<and>
       (r = 0 \<longrightarrow> idle_flash g' \<and> banks_inv ?n (copying bank old (copied new (Suc (2 * i)))) (flash_mem g'))) g"
    if "stage ?G h g" "idle_flash g" "banks_inv ?n (copying bank old (copied new (2 * i))) (flash_mem g)" for g
    using wp_copy_byte [of g code bank old new "2 * i" "push_bit 1 (of_nat i + bank_offset ?n (1 - bank))"]
      that part layout bank Suc.prems(4) sig i stage_fields [OF that(1)] Suc.prems(5)
    by (simp add: committed_bytes algebra_simps)
  have high: "wp (e1000_retry_write_flash_byte_ich8lan (push_bit 1 (of_nat i + bank_offset ?n (1 - bank)) + 1)
        (ucast (drop_bit 8 ?w)))
      (\<lambda>r g'. stage ?G g g' \<and>
       (r = 0 \<longrightarrow> idle_flash g' \<and> banks_inv ?n (copying bank old (copied new (2 * Suc i))) (flash_mem g'))) g"
    if "stage ?G h g" "idle_flash g" "banks_inv ?n (copying bank old (copied new (Suc (2 * i)))) (flash_mem g)" for g
    using wp_copy_byte [of g code bank old new "Suc (2 * i)" "push_bit 1 (of_nat i + bank_offset ?n (1 - bank)) + 1"]
      that part layout bank Suc.prems(4) sig i stage_fields [OF that(1)] Suc.prems(5)
    by (simp add: committed_bytes algebra_simps)
  have next': "wp (commit_words (bank_offset ?n bank) (bank_offset ?n (1 - bank)) (Suc i) k)
      (\<lambda>r g'. stage ?G g g' \<and>
       (r = 0 \<longrightarrow> idle_flash g' \<and> banks_inv ?n (copying bank old (copied new 4096)) (flash_mem g'))) g"
    if "stage ?G h g" "idle_flash g" "banks_inv ?n (copying bank old (copied new (2 * Suc i))) (flash_mem g)" for g
    using Suc.IH [of g "Suc i"] that part layout bank Suc.prems(4,5,8) stage_fields [OF that(1)] by simp
  have "wp (do {
      (ret_val, data) \<leftarrow> (if sr_modified (shadow_ram h ! i) then return (0, sr_value (shadow_ram h ! i))
        else e1000_read_flash_word_ich8lan (of_nat i + bank_offset ?n bank) 0);
      if ret_val \<noteq> 0 then return ret_val
      else do {
        usleep_range 100 200;
        ret_val \<leftarrow> e1000_retry_write_flash_byte_ich8lan (push_bit 1 (of_nat i + bank_offset ?n (1 - bank)))
          (ucast (commit_word i data));
        if ret_val \<noteq> 0 then return ret_val
        else do {
          usleep_range 100 200;
          ret_val \<leftarrow> e1000_retry_write_flash_byte_ich8lan (push_bit 1 (of_nat i + bank_offset ?n (1 - bank)) + 1)
            (ucast (drop_bit 8 (commit_word i data)));
          if ret_val \<noteq> 0 then return ret_val
          else commit_words (bank_offset ?n bank) (bank_offset ?n (1 - bank)) (Suc i) k } } })
    (\<lambda>r h'. stage ?G h h' \<and>
      (r = 0 \<longrightarrow> idle_flash h' \<and> banks_inv ?n (copying bank old (copied new 4096)) (flash_mem h'))) h"
  proof (rule wp_then_value [OF read], goal_cases)
    case (1 v g)
    note f = stage_fields [OF 1(1)]
    show ?case
    proof (rule wp_then_sleep [where code = code], goal_cases)
      case (4 g1)
      have s1: "stage ?G h g1" using 1(1) 4(1) by (rule stage_trans)
      show ?case
        unfolding conjunct2 [OF conjunct2 [OF 1(2)]]
      proof (rule wp_then [OF low [OF s1 4(2)]], goal_cases)
        case 1
        show ?case using 4(3) \<open>idle_flash g \<and> _\<close> Suc.prems(7) by simp
      next
        case (2 g2)
        have s2: "stage ?G h g2" using s1 2(1) by (rule stage_trans)
        show ?case
        proof (rule wp_then_sleep [where code = code], goal_cases)
          case (4 g3)
          have s3: "stage ?G h g3" using s2 4(1) by (rule stage_trans)
          show ?case
            by (rule wp_then [OF high [OF s3 4(2)]]) (use 2 4 s3 in \<open>auto intro: next' stage_trans\<close>)
        qed (use 2 part stage_fields [OF s2] in auto)
      qed
    qed (use 1 part f in auto)
  qed
  then show ?case by (simp add: wp Let_def)
qed


lemma wp_erase_other:
  assumes "flash_part (dev h) code" and "no_erase_fault (dev h)" and "code \<in> {1, 2, 3}"
    and "flash_layout code (nvm h)" and "bank \<in> {0, 1}" and "idle_flash h"
    and "old = bank_byte (nvm h) bank (flash_mem h)" and "selected_bank (nvm h) (flash_mem h) = bank"
    and "nvm_sig_valid (old 39)"
  shows "wp (e1000_erase_flash_bank_ich8lan (1 - bank)) (\<lambda>r h'.
    stage (power_safe (nvm h) bank old new) h h' \<and>
    (r = 0 \<longrightarrow> idle_flash h' \<and> banks_inv (nvm h) (copying bank old (copied new 0)) (flash_mem h'))) h"
proof -
  let ?n = "nvm h"
  let ?nb = "1 - bank"
  let ?B = "copying bank old (\<lambda>j x. x = bank_byte ?n ?nb (flash_mem h) j \<or> x = 0xFF)"
  let ?c = "make_cmd ICH_CYCLE_ERASE 0 (bank_addr ?n ?nb 0) 0"
  have nb: "?nb \<in> {0, 1}" "?nb \<noteq> bank" using other_bank [OF assms(5)] by auto
  have addr: "flash_base_addr ?n + (if ?nb \<noteq> 0 then flash_bank_size ?n * 2 else 0) = bank_addr ?n ?nb 0"
    by (simp add: bank_addr_def)
  have pres: "preserves code ?c (banks_inv ?n ?B)"
    using assms(4,3) nb(1) by (rule preserves_erase) (use nb in \<open>auto simp: copying_def\<close>)
  have start: "banks_inv ?n ?B (flash_mem h)"
    using assms(5) by (auto simp: banks_inv_def copying_def assms(7))
  have code: "code = 1 \<or> code = 2 \<or> code = 3" using assms(3) by auto
  have unsigned: "\<not> nvm_sig_valid x" if "bank = 1" "x = bank_byte ?n ?nb (flash_mem h) 39 \<or> x = 0xFF" for x
    using that assms(8) all_ones_byte [of 6] by (auto simp: selected_bank_def valid_bank_def sig_bits split: if_splits)
  have safe: "power_safe ?n bank old new m" if "banks_inv ?n ?B m" for m
    using that assms(5,9) by (rule copying_safe) (rule unsigned)
  show ?thesis
  proof (rule wp_mono [OF wp_erase_bank [OF assms(1,2) code arg_cong [OF addr [symmetric]] pres assms(6) start]], goal_cases)
    case (1 r h')
    have "banks_inv ?n (copying bank old (copied new 0)) (flash_mem h')" if "r = 0"
    proof -
      have "banks_inv ?n ?B (flash_mem h')" "flash_completed code ?c (flash_mem h')" using 1 that by auto
      then show ?thesis
        using completed_erase [OF assms(4,3)] assms(5) by (auto simp: banks_inv_def copying_def copied_def)
    qed
    with 1 safe show ?case by (auto simp: stage_def intro: through_mono)
  qed
qed

text \<open>The new bank with all bytes but the signature, which is on its way to valid.\<close>

definition signing :: "(nat \<Rightarrow> u8) \<Rightarrow> nat \<Rightarrow> u8 \<Rightarrow> bool" where
  "signing new j x = (if j = 39 then (\<forall>i. (bit (new 39 AND 0xBF) i \<longrightarrow> bit x i) \<and> (bit x i \<longrightarrow> bit (new 39) i))
     else x = new j)"

text \<open>The old bank with any signature, the new one signed.\<close>

definition retiring :: "u32 \<Rightarrow> (nat \<Rightarrow> u8) \<Rightarrow> (nat \<Rightarrow> u8) \<Rightarrow> u32 \<Rightarrow> nat \<Rightarrow> u8 \<Rightarrow> bool" where
  "retiring bank old new b j x =
     (if b = bank then j = 39 \<or> x = old j else x = (if j = 39 then new 39 AND 0xBF else new j))"

lemma clear_bit6: "bit (b AND 0xBF :: u8) i \<longleftrightarrow> bit b i \<and> i \<noteq> 6"
proof (cases "i < 8")
  case True
  then have "i \<in> {0, 1, 2, 3, 4, 5, 6, 7}" by auto
  then show ?thesis by (auto simp: bit_and_iff)
next
  case False
  then show ?thesis by (auto dest: bit_imp_le_length)
qed

lemma signed_valid: "bit (new 39) 7 \<Longrightarrow> nvm_sig_valid (new 39 AND 0xBF)" for new :: "nat \<Rightarrow> u8"
  by (simp add: sig_bits clear_bit6)

lemma signing_safe:
  assumes "banks_inv n (copying bank old (signing new)) m" and "bank \<in> {0, 1}" and "nvm_sig_valid (old 39)"
  shows "power_safe n bank old new m"
proof -
  have o: "bank_byte n bank m j = old j" if "j < 4096" for j
    using assms(1,2) that by (auto simp: banks_inv_def copying_def)
  have w: "bank_byte n (1 - bank) m j = new j" if "j < 4096" "j \<noteq> 39" for j
    using assms(1,2) that by (auto simp: banks_inv_def copying_def signing_def)
  have "valid_bank n m bank" using o [of 39] assms(3) by (simp add: valid_bank_def)
  then have "selected_bank n m = bank \<or> selected_bank n m = 1 - bank"
    using assms(2) by (auto simp: selected_bank_def)
  with o w show ?thesis by (auto simp: power_safe_def holds_image_def)
qed

lemma retiring_safe:
  assumes "banks_inv n (retiring bank old new) m" and "bank \<in> {0, 1}" and "bit (new 39) 7"
  shows "power_safe n bank old new m" "\<not> valid_bank n m bank \<Longrightarrow> selected_bank n m = 1 - bank"
proof -
  have o: "bank_byte n bank m j = old j" if "j < 4096" "j \<noteq> 39" for j
    using assms(1,2) that by (auto simp: banks_inv_def retiring_def)
  have w: "bank_byte n (1 - bank) m j = (if j = 39 then new 39 AND 0xBF else new j)" if "j < 4096" for j
    using assms(1,2) that by (auto simp: banks_inv_def retiring_def)
  have "valid_bank n m (1 - bank)"
    using w [of 39] signed_valid [of new, OF assms(3)] by (simp add: valid_bank_def)
  then have s: "selected_bank n m = 1 - bank \<or> selected_bank n m = bank \<and> valid_bank n m bank"
    using assms(2) by (auto simp: selected_bank_def)
  with o w show "power_safe n bank old new m" by (auto simp: power_safe_def holds_image_def)
  from s show "\<not> valid_bank n m bank \<Longrightarrow> selected_bank n m = 1 - bank" by auto
qed


text \<open>The two signature writes.\<close>

lemma wp_sign_new:
  assumes "flash_part (dev h) code" and "flash_layout code (nvm h)" and "bank \<in> {0, 1}"
    and "nvm_sig_valid (old 39)" and "bit (new 39) 7" and "idle_flash h"
    and "banks_inv (nvm h) (copying bank old (copied new 4096)) (flash_mem h)"
    and "offset = bank_offset (nvm h) (1 - bank) * 2 + of_nat 39"
  shows "wp (e1000_retry_write_flash_byte_ich8lan offset (new 39 AND 0xBF)) (\<lambda>r h'.
    stage (power_safe (nvm h) bank old new) h h' \<and>
    (r = 0 \<longrightarrow> idle_flash h' \<and> banks_inv (nvm h) (retiring bank old new) (flash_mem h'))) h"
proof -
  let ?B = "copying bank old (signing new)"
  have nb: "1 - bank \<in> {0, 1}" "1 - bank \<noteq> bank" using other_bank [OF assms(3)] by auto
  have start: "banks_inv (nvm h) ?B (flash_mem h)"
    using assms(7) by (rule banks_inv_mono) (auto simp: copying_def copied_def signing_def clear_bit6)
  have safe: "power_safe (nvm h) bank old new m" if "banks_inv (nvm h) ?B m" for m
    using that assms(3,4) by (rule signing_safe)
  have closed: "?B (1 - bank) 39 y" if "?B (1 - bank) 39 x" "programs (new 39 AND 0xBF) x y" for x y
    using that nb by (auto simp: copying_def signing_def programs_def)
  have "wp (e1000_retry_write_flash_byte_ich8lan offset (new 39 AND 0xBF)) (\<lambda>r h'.
    stage (power_safe (nvm h) bank old new) h h' \<and> (r = 0 \<longrightarrow> idle_flash h' \<and> banks_inv (nvm h) ?B (flash_mem h') \<and>
       (\<forall>i. bit (bank_byte (nvm h) (1 - bank) (flash_mem h') 39) i \<longrightarrow> bit (new 39 AND 0xBF) i))) h"
    by (rule wp_bank_program [OF assms(1,2,6) start _ nb(1) _ assms(8)]) (erule safe, simp, erule (1) closed)
  then show ?thesis
  proof (rule wp_mono, goal_cases)
    case (1 r h')
    have "banks_inv (nvm h) (retiring bank old new) (flash_mem h')" if "r = 0"
    proof -
      have inv: "banks_inv (nvm h) ?B (flash_mem h')"
        and le: "\<And>i. bit (bank_byte (nvm h) (1 - bank) (flash_mem h') 39) i \<Longrightarrow> bit (new 39 AND 0xBF) i"
        using 1 that by auto
      have "\<forall>i. bit (new 39 AND 0xBF) i \<longrightarrow> bit (bank_byte (nvm h) (1 - bank) (flash_mem h') 39) i"
        using inv nb by (auto simp: banks_inv_def copying_def signing_def)
      then have k: "bank_byte (nvm h) (1 - bank) (flash_mem h') 39 = new 39 AND 0xBF"
        using programs_to le by blast
      show ?thesis
        unfolding banks_inv_def
      proof (intro ballI allI impI)
        fix b j assume b: "b \<in> {0, 1 :: u32}" "j < (4096 :: nat)"
        then have "?B b j (bank_byte (nvm h) b (flash_mem h') j)" using inv by (auto simp: banks_inv_def)
        moreover have "b = bank \<or> b = 1 - bank" using b(1) assms(3) by auto
        ultimately show "retiring bank old new b j (bank_byte (nvm h) b (flash_mem h') j)"
          using k by (auto simp: copying_def signing_def retiring_def split: if_splits)
      qed
    qed
    with 1 show ?case by simp
  qed
qed

lemma wp_retire_old:
  assumes "flash_part (dev h) code" and "flash_layout code (nvm h)" and "bank \<in> {0, 1}"
    and "bit (new 39) 7" and "idle_flash h"
    and "banks_inv (nvm h) (retiring bank old new) (flash_mem h)"
    and "offset = bank_offset (nvm h) bank * 2 + of_nat 39"
  shows "wp (e1000_retry_write_flash_byte_ich8lan offset 0) (\<lambda>r h'.
    stage (power_safe (nvm h) bank old new) h h' \<and>
    (r = 0 \<longrightarrow> banks_inv (nvm h) (retiring bank old new) (flash_mem h') \<and>
       \<not> valid_bank (nvm h) (flash_mem h') bank)) h"
proof -
  let ?B = "retiring bank old new"
  have safe: "power_safe (nvm h) bank old new m" if "banks_inv (nvm h) ?B m" for m
    using that assms(3,4) by (rule retiring_safe)
  have closed: "?B bank 39 y" for y by (simp add: retiring_def)
  have "wp (e1000_retry_write_flash_byte_ich8lan offset 0) (\<lambda>r h'.
    stage (power_safe (nvm h) bank old new) h h' \<and> (r = 0 \<longrightarrow> idle_flash h' \<and> banks_inv (nvm h) ?B (flash_mem h') \<and>
       (\<forall>i. bit (bank_byte (nvm h) bank (flash_mem h') 39) i \<longrightarrow> bit (0 :: u8) i))) h"
    by (rule wp_bank_program [OF assms(1,2,5,6) _ assms(3) _ assms(7)]) (erule safe, simp, rule closed)
  then show ?thesis
    by (rule wp_mono) (auto simp: valid_bank_def sig_bits)
qed

section \<open>Finding the bank\<close>

lemma wp_bank_sig:
  assumes "flash_part (dev h) code" and "flash_layout code (nvm h)" and "idle_flash h"
    and "offset = bank_offset (nvm h) b * 2 + of_nat 39"
  shows "wp (e1000_read_flash_byte_ich8lan offset data) (\<lambda>(r, v) h'. stage (\<lambda>m. m = flash_mem h) h h' \<and>
    (r = 0 \<longrightarrow> idle_flash h' \<and> nvm_sig_valid v = valid_bank (nvm h) (flash_mem h) b)) h"
  by (rule wp_mono [OF wp_read_byte [OF assms(1,3)]])
    (use flash_at_bank [OF assms(2) _ assms(4)] in \<open>auto simp: stage_def valid_bank_def bank_byte_def\<close>)

lemma wp_detect_signature:
  assumes "flash_part (dev h) code" and "flash_layout code (nvm h)" and "idle_flash h"
  shows "wp bank_detect_signature (\<lambda>(r, b) h'. stage (\<lambda>m. m = flash_mem h) h h' \<and>
    (r = 0 \<longrightarrow> idle_flash h' \<and> b \<in> {0, 1} \<and> selected_bank (nvm h) (flash_mem h) = b \<and>
       valid_bank (nvm h) (flash_mem h) b)) h"
proof -
  have off: "E1000_ICH_NVM_SIG_WORD * 2 + 1 = bank_offset (nvm h) 0 * 2 + of_nat 39"
    "39 + flash_bank_size (nvm h) * 2 = bank_offset (nvm h) 1 * 2 + of_nat 39"
    by (simp_all add: bank_offset_def)
  show ?thesis
    unfolding bank_detect_signature_def wp Let_def
  proof (rule wp_mono [OF wp_bank_sig [OF assms off(1)]], goal_cases)
    case (1 x g)
    obtain r v where x: "x = (r, v)" by (cases x)
    have s: "stage (\<lambda>m. m = flash_mem h) h g" using 1 x by simp
    note f = stage_fields [OF s]
    have part: "flash_part (dev g) code" "flash_layout code (nvm g)" using assms(1,2) f by simp_all
    have second: "wp (e1000_read_flash_byte_ich8lan (39 + flash_bank_size (nvm h) * 2) v)
      (\<lambda>(r, v) h'. stage (\<lambda>m. m = flash_mem h) h h' \<and>
        (r = 0 \<longrightarrow> idle_flash h' \<and> nvm_sig_valid v = valid_bank (nvm h) (flash_mem h) 1)) g" if "idle_flash g"
      by (rule wp_mono [OF wp_bank_sig [OF part that, of _ 1]])
        (use off(2) f s in \<open>auto intro: stage_trans\<close>)
    show ?case
      using 1 s by (auto simp: x selected_bank_def intro!: wp_mono [OF second])
  qed
qed

text \<open>Generations that look only at the signatures.\<close>

definition signature_mac :: "mac_kind \<Rightarrow> bool" where
  "signature_mac ty \<longleftrightarrow> ty \<notin> {e1000_pch_spt, e1000_pch_cnp, e1000_ich8lan, e1000_ich9lan}"

lemma detected_bank:
  assumes "flash_part (dev h) code" and "flash_layout code (nvm h)" and "idle_flash h"
    and "signature_mac (mac_type (mac h))"
    and "run_state e1000_valid_nvm_bank_detect_ich8lan h = ((0, bank), g)"
  shows "stage (\<lambda>m. m = flash_mem h) h g \<and> idle_flash g \<and> bank \<in> {0, 1} \<and>
    selected_bank (nvm h) (flash_mem h) = bank \<and> valid_bank (nvm h) (flash_mem h) bank"
proof -
  have "run_state bank_detect_signature h = ((0, bank), g)"
    using assms(4,5) by (simp add: e1000_valid_nvm_bank_detect_ich8lan_def signature_mac_def)
  from wpD [OF wp_detect_signature [OF assms(1-3)] this] show ?thesis by simp
qed


section \<open>The whole update\<close>

lemma wp_signatures:
  assumes "flash_part (dev h) code" and "flash_layout code (nvm h)" and "bank \<in> {0, 1}"
    and "nvm_sig_valid (old 39)" and "bit (new 39) 7" "bit (new 39) 6" and "idle_flash h"
    and "banks_inv (nvm h) (copying bank old (copied new 4096)) (flash_mem h)"
  shows "wp (do {
      (ret_val, data) \<leftarrow> e1000_read_flash_word_ich8lan (bank_offset (nvm h) (1 - bank) + E1000_ICH_NVM_SIG_WORD) 0;
      if ret_val \<noteq> 0 then return ret_val
      else do {
        ret_val \<leftarrow> e1000_retry_write_flash_byte_ich8lan
          ((bank_offset (nvm h) (1 - bank) + E1000_ICH_NVM_SIG_WORD) * 2 + 1) (ucast (drop_bit 8 (data AND 0xBFFF)));
        if ret_val \<noteq> 0 then return ret_val
        else e1000_retry_write_flash_byte_ich8lan ((bank_offset (nvm h) bank + E1000_ICH_NVM_SIG_WORD) * 2 + 1) 0 } })
    (\<lambda>r h'. stage (power_safe (nvm h) bank old new) h h' \<and>
      (r = 0 \<longrightarrow> banks_inv (nvm h) (retiring bank old new) (flash_mem h') \<and>
         \<not> valid_bank (nvm h) (flash_mem h') bank)) h"
proof -
  let ?n = "nvm h"
  let ?G = "power_safe ?n bank old new"
  have off: "(bank_offset ?n b + E1000_ICH_NVM_SIG_WORD) * 2 + 1 = bank_offset ?n b * 2 + of_nat 39" for b
    by (simp add: algebra_simps)
  have safe: "?G (flash_mem h)" using assms(8,3-6) by (rule copied_safe)
  have new: "bank_byte ?n (1 - bank) (flash_mem h) j = new j" if "j < 4096" for j
    using assms(3,8) that by (auto simp: banks_inv_def copying_def copied_def)
  have hi: "ucast (drop_bit 8 ((ucast a OR push_bit 8 (ucast b)) AND 0xBFFF :: u16)) = b AND 0xBF" for a b :: u8
  proof -
    have m: "(0xBFFF :: u16) = mask 14 OR push_bit 15 1" "(0xBF :: u8) = mask 6 OR push_bit 7 1"
      by (simp_all add: mask_eq_exp_minus_1)
    show ?thesis
      unfolding m by (rule bit_word_eqI) (auto simp: bit_simps byte_bit_high simp del: push_bit_numeral push_bit_of_1)
  qed
  show ?thesis
  proof (rule wp_then_value [OF wp_bank_word [where i = 19 and b = "1 - bank" and G = ?G, OF assms(1,2,7) safe]], goal_cases)
    case (3 v g)
    note f = stage_fields [OF 3(1)]
    have v: "ucast (drop_bit 8 (v AND 0xBFFF)) = new 39 AND 0xBF"
      using 3(2) hi new [of 38] new [of 39] by simp
    have sign: "wp (e1000_retry_write_flash_byte_ich8lan ((bank_offset ?n (1 - bank) + E1000_ICH_NVM_SIG_WORD) * 2 + 1)
        (new 39 AND 0xBF)) (\<lambda>r h'. stage ?G g h' \<and> (r = 0 \<longrightarrow> idle_flash h' \<and> banks_inv ?n (retiring bank old new) (flash_mem h'))) g"
      using wp_sign_new [of g code bank old new, OF _ _ assms(3-5)] 3(2) f assms(1,2,8) off
      by (simp add: add.commute [of 39])
    show ?case
      unfolding v
    proof (rule wp_then [OF sign], goal_cases)
      case (1 g1)
      note f1 = stage_fields [OF 1(1)]
      show ?case
        using wp_retire_old [of g1 code bank new old, OF _ _ assms(3,5)] 1(2) f f1 assms(1,2) off
        by (simp add: add.commute [of 39])
    qed
  qed simp_all
qed


text \<open>The update up to the last access to the flash part.\<close>

definition commit_body :: "u32 \<Rightarrow> u32 \<Rightarrow> u32 \<Rightarrow> s32 io" where
  "commit_body new_bank_offset old_bank_offset erased = do {
     ret_val \<leftarrow> e1000_erase_flash_bank_ich8lan erased;
     if ret_val \<noteq> 0 then return ret_val
     else do {
       ret_val \<leftarrow> commit_words old_bank_offset new_bank_offset 0 E1000_ICH8_SHADOW_RAM_WORDS;
       if ret_val \<noteq> 0 then return ret_val
       else do {
         (ret_val, data) \<leftarrow> e1000_read_flash_word_ich8lan (new_bank_offset + E1000_ICH_NVM_SIG_WORD) 0;
         if ret_val \<noteq> 0 then return ret_val
         else do {
           ret_val \<leftarrow> e1000_retry_write_flash_byte_ich8lan ((new_bank_offset + E1000_ICH_NVM_SIG_WORD) * 2 + 1)
             (ucast (drop_bit 8 (data AND 0xBFFF)));
           if ret_val \<noteq> 0 then return ret_val
           else e1000_retry_write_flash_byte_ich8lan ((old_bank_offset + E1000_ICH_NVM_SIG_WORD) * 2 + 1) 0 } } } }"

lemma bind_if: "State_Monad.bind (if c then m else k) f = (if c then State_Monad.bind m f else State_Monad.bind k f)"
  by simp

lemma bind_case_prod: "State_Monad.bind (case_prod f p) g = case_prod (\<lambda>x y. State_Monad.bind (f x y) g) p"
  by (cases p) simp

lemma commit_ich8lan_body:
  "commit_ich8lan = do {
     h \<leftarrow> get;
     bank \<leftarrow> active_bank;
     let (new_bank_offset, old_bank_offset, erased) = commit_banks (flash_bank_size (nvm h)) bank;
     ret_val \<leftarrow> commit_body new_bank_offset old_bank_offset erased;
     if ret_val \<noteq> 0 then return ret_val
     else do { set_shadow_ram (\<lambda>_. cleared_shadow_ram); return 0 } }"
  by (simp add: commit_ich8lan_def commit_body_def bind_if bind_case_prod Let_def split_def cong: if_cong)

lemma wp_commit_body:
  assumes "flash_part (dev h) code" and "no_erase_fault (dev h)" and "code \<in> {1, 2, 3}"
    and "flash_layout code (nvm h)" and "bank \<in> {0, 1}" and "idle_flash h"
    and "old = bank_byte (nvm h) bank (flash_mem h)" and "selected_bank (nvm h) (flash_mem h) = bank"
    and "nvm_sig_valid (old 39)" and "new = committed_byte (shadow_ram h) old"
  shows "wp (commit_body (bank_offset (nvm h) (1 - bank)) (bank_offset (nvm h) bank) (1 - bank))
    (\<lambda>r h'. stage (power_safe (nvm h) bank old new) h h' \<and>
      (r = 0 \<longrightarrow> banks_inv (nvm h) (retiring bank old new) (flash_mem h') \<and>
         \<not> valid_bank (nvm h) (flash_mem h') bank)) h"
  unfolding commit_body_def
proof (rule wp_then [OF wp_erase_other [OF assms(1-9)]], goal_cases)
  case (1 g)
  note f = stage_fields [OF 1(1)]
  note sig = committed_sig [of "shadow_ram h" old, folded assms(10)]
  have words: "wp (commit_words (bank_offset (nvm h) bank) (bank_offset (nvm h) (1 - bank)) 0 E1000_ICH8_SHADOW_RAM_WORDS)
    (\<lambda>r h'. stage (power_safe (nvm h) bank old new) g h' \<and>
      (r = 0 \<longrightarrow> idle_flash h' \<and> banks_inv (nvm h) (copying bank old (copied new 4096)) (flash_mem h'))) g"
    using wp_commit_words [of g code bank old new 0 2048] 1(2) f assms by simp
  show ?case
  proof (rule wp_then [OF words], goal_cases)
    case (1 g1)
    then have inv: "idle_flash g1" "banks_inv (nvm h) (copying bank old (copied new 4096)) (flash_mem g1)" by auto
    have fn: "nvm g1 = nvm h" "dev g1 = dev h" using stage_fields [OF 1(1)] f by simp_all
    show ?case
      by (rule wp_signatures [of g1 code bank old new, unfolded fn, OF assms(1,4,5,9) sig inv])
  qed
qed


section \<open>A part that is always ready\<close>

text \<open>Its status always shows a valid descriptor and a finished cycle without error.\<close>

definition always_ready :: "device \<Rightarrow> bool" where
  "always_ready d \<longleftrightarrow> (\<forall>t. let v = dev_flash_readw d t ICH_FLASH_HSFSTS in
     fldesvalid v \<and> flcdone v \<and> \<not> flcerr v \<and> \<not> flcinprog v)"

lemma readyD:
  assumes "always_ready (dev h)"
  shows "fldesvalid (frdw ICH_FLASH_HSFSTS h)" "flcdone (frdw ICH_FLASH_HSFSTS h)"
    "\<not> flcerr (frdw ICH_FLASH_HSFSTS h)" "\<not> flcinprog (frdw ICH_FLASH_HSFSTS h)"
  using assms by (simp_all add: always_ready_def frdw_def Let_def)

text \<open>The operation succeeds and leaves the hardware structure as it is.\<close>

definition succeeds :: "hw \<Rightarrow> (s32 \<Rightarrow> hw \<Rightarrow> bool)" where
  "succeeds h r h' \<longleftrightarrow> r = 0 \<and> same_hw h h'"

lemma ready_hsf:
  "wp (write_hsfsts v) (\<lambda>_ h'. same_hw h h') h" "wp (write_hsfctl c) (\<lambda>_ h'. same_hw h h') h"
  "wp read_hsfctl (\<lambda>_ h'. same_hw h h') h"
  unfolding write_hsfsts_def write_hsfctl_def read_hsfctl_def wp by simp_all

lemma ready_cycle_init:
  assumes "always_ready (dev h)"
  shows "wp e1000_flash_cycle_init_ich8lan (succeeds h) h"
proof -
  let ?v = "frdw ICH_FLASH_HSFSTS h"
  have keep: "flcinprog (set_dael (set_flcerr ?v)) = flcinprog ?v"
    by (simp add: flcinprog_def set_dael_def set_flcerr_def bit_or_iff)
  show ?thesis
    unfolding e1000_flash_cycle_init_ich8lan_def wp_bind wp_access wp_if wp_return Let_def keep
    by (simp add: readyD [OF assms], rule wp_mono [OF ready_hsf(1)], rule wp_mono [OF ready_hsf(1)])
      (auto simp: succeeds_def intro: same_hw_trans)
qed

lemma ready_cycle:
  assumes "always_ready (dev h)"
  shows "wp (e1000_flash_cycle_ich8lan n) (succeeds h) h"
  unfolding e1000_flash_cycle_ich8lan_def wp
proof (rule wp_mono [OF ready_hsf(3)], rule wp_mono [OF ready_hsf(2)], goal_cases)
  case (1 v h1 u h2)
  then have s: "same_hw h h2" by (auto intro: same_hw_trans)
  then have r: "always_ready (dev h2)" using assms by (simp add: same_hw_fields)
  show ?case
    unfolding poll.simps wp using readyD [OF r] s by (simp add: succeeds_def)
qed

lemma wp_same_ready:
  "wp m (succeeds h) h \<Longrightarrow> always_ready (dev h) \<Longrightarrow> wp m (\<lambda>r h'. r = 0 \<and> same_hw h h' \<and> always_ready (dev h')) h"
  by (erule wp_mono) (simp add: succeeds_def same_hw_fields)

lemma ready_write_attempt:
  assumes "always_ready (dev h)"
  shows "wp (write_flash_attempt addr n data) (\<lambda>(again, r) h'. \<not> again \<and> succeeds h r h') h"
  unfolding write_flash_attempt_def wp
proof (rule wp_mono [OF ready_cycle_init], goal_cases)
  case (2 r h1)
  then have s: "same_hw h h1" "r = 0" by (simp_all add: succeeds_def)
  have "wp read_hsfctl (\<lambda>v. wp (write_hsfctl (set_flcycle ICH_CYCLE_WRITE (set_fldbcount n v))) (\<lambda>_ h.
      wp (e1000_flash_cycle_ich8lan ICH_FLASH_WRITE_COMMAND_TIMEOUT) (\<lambda>r h'. r = 0 \<and> same_hw h1 h')
       (log_event (FlashWriteL ICH_FLASH_FDATA0 data) (log_event (FlashWriteL ICH_FLASH_FADDR addr) h)))) h1"
  proof (rule wp_mono [OF ready_hsf(3)], rule wp_mono [OF ready_hsf(2)], goal_cases)
    case (1 v h2 u h3)
    then have s3: "same_hw h1 h3" by (auto intro: same_hw_trans)
    then have "always_ready (dev h3)" using assms s(1) by (simp add: same_hw_fields)
    then show ?case by (intro wp_mono [OF ready_cycle]) (use s3 in \<open>auto simp: succeeds_def intro: same_hw_trans\<close>)
  qed
  then show ?case
    using s by (auto simp: succeeds_def Let_def wp elim!: wp_mono intro: same_hw_trans)
qed (simp add: assms)


lemma ready_read_attempt:
  assumes "always_ready (dev h)"
  shows "wp (read_flash_data_attempt addr n data) (\<lambda>(again, r, v) h'. \<not> again \<and> succeeds h r h') h"
  unfolding read_flash_data_attempt_def wp
proof (rule wp_mono [OF ready_cycle_init], goal_cases)
  case (2 r h1)
  then have s: "same_hw h h1" "r = 0" by (simp_all add: succeeds_def)
  have cyc: "wp (e1000_flash_cycle_ich8lan ICH_FLASH_READ_COMMAND_TIMEOUT) (\<lambda>r h'. r = 0 \<and> same_hw h h') h2"
    if "same_hw h h2" for h2
    by (rule wp_mono [OF ready_cycle]) (use that assms in \<open>auto simp: succeeds_def same_hw_fields intro: same_hw_trans\<close>)
  show ?case
    using s by (auto simp: succeeds_def Let_def wp intro!: wp_mono [OF cyc])
qed (simp add: assms)

lemma succeeds_trans: "succeeds h 0 h1 \<Longrightarrow> succeeds h1 r h2 \<Longrightarrow> succeeds h r h2"
  by (auto simp: succeeds_def intro: same_hw_trans)

lemma ready_retry:
  assumes "wp body (\<lambda>(again, a) h'. \<not> again \<and> Q a h') h"
  shows "wp (retry n body) Q h"
proof -
  obtain again a h' where b: "run_state body h = ((again, a), h')" by (metis prod.exhaust)
  with assms have "\<not> again" "Q a h'" by (simp_all add: wp_def)
  with b have "run_state body h = ((False, a), h')" by simp
  then show ?thesis using \<open>Q a h'\<close> retry_once [of body h a h' n] by (simp add: wp_def)
qed

lemma ready_write_byte:
  assumes "always_ready (dev h)" and "mac_type (mac h) < e1000_pch_spt" and "offset \<le> ICH_FLASH_LINEAR_ADDR_MASK"
  shows "wp (e1000_retry_write_flash_byte_ich8lan offset byte) (succeeds h) h"
proof -
  have "wp (e1000_write_flash_byte_ich8lan offset byte) (succeeds h) h"
    unfolding e1000_write_flash_byte_ich8lan_def e1000_write_flash_data_ich8lan_def wp
    using assms by (auto intro!: ready_retry ready_write_attempt simp: not_less)
  then show ?thesis
    unfolding e1000_retry_write_flash_byte_ich8lan_def wp
    by (rule wp_mono) (simp add: succeeds_def)
qed

lemma ready_read_word:
  assumes "always_ready (dev h)" and "push_bit 1 offset \<le> ICH_FLASH_LINEAR_ADDR_MASK"
  shows "wp (e1000_read_flash_word_ich8lan offset data) (\<lambda>(r, v). succeeds h r) h"
  unfolding e1000_read_flash_word_ich8lan_def e1000_read_flash_data_ich8lan_def wp
  using assms wp_mono [OF ready_read_attempt [OF assms(1)]]
  by (auto intro!: ready_retry simp: not_less)

lemma ready_read_byte:
  assumes "always_ready (dev h)" and "mac_type (mac h) < e1000_pch_spt" and "offset \<le> ICH_FLASH_LINEAR_ADDR_MASK"
  shows "wp (e1000_read_flash_byte_ich8lan offset data) (\<lambda>(r, v). succeeds h r) h"
proof -
  have "wp (e1000_read_flash_data_ich8lan offset 1 0) (\<lambda>(r, v). succeeds h r) h"
    unfolding e1000_read_flash_data_ich8lan_def wp
    using assms wp_mono [OF ready_read_attempt [OF assms(1)]] by (auto intro!: ready_retry)
  then show ?thesis
    unfolding e1000_read_flash_byte_ich8lan_def wp
    using assms(2) by (auto elim!: wp_mono simp: succeeds_def)
qed

lemma ready_erase:
  assumes "always_ready (dev h)"
  shows "wp (e1000_erase_flash_bank_ich8lan bank) (succeeds h) h"
proof -
  have sector: "wp (erase_sector j size addr count) (\<lambda>(stop, _) h'. stop = None \<and> same_hw g h') g"
    if "always_ready (dev g)" for j size addr count g
    unfolding erase_sector.simps [of j size addr count] wp
  proof (rule wp_mono [OF ready_cycle_init [OF that]], goal_cases)
    case (1 r g1)
    then have s: "same_hw g g1" "r = 0" by (simp_all add: succeeds_def)
    have "wp read_hsfctl (\<lambda>v. wp (write_hsfctl (set_flcycle ICH_CYCLE_ERASE v)) (\<lambda>_ h.
        wp (e1000_flash_cycle_ich8lan ICH_FLASH_ERASE_COMMAND_TIMEOUT) (\<lambda>r h'. r = 0 \<and> same_hw g h')
         (log_event (FlashWriteL ICH_FLASH_FADDR (addr + of_nat j * size)) h))) g1"
    proof (rule wp_mono [OF ready_hsf(3)], rule wp_mono [OF ready_hsf(2)], goal_cases)
      case (1 v h2 u h3)
      then have s3: "same_hw g h3" using s(1) by (auto intro: same_hw_trans)
      then have "always_ready (dev h3)" using that by (simp add: same_hw_fields)
      then show ?case by (intro wp_mono [OF ready_cycle]) (use s3 in \<open>auto simp: succeeds_def intro: same_hw_trans\<close>)
    qed
    then show ?case using s by (simp add: Let_def wp) (auto elim!: wp_mono)
  qed
  have sectors: "wp (erase_sectors j n size addr count) (succeeds g) g" if "always_ready (dev g)" for j n size addr count g
    using that
  proof (induction n arbitrary: j addr count g)
    case (Suc n)
    show ?case
      unfolding erase_sectors.simps wp
    proof (rule wp_mono [OF sector [OF Suc.prems]], goal_cases)
      case (1 x g1)
      then have s: "same_hw g g1" "fst x = None" by auto
      then have "always_ready (dev g1)" using Suc.prems by (simp add: same_hw_fields)
      from Suc.IH [OF this] have "wp (erase_sectors (Suc j) n size addr' count') (succeeds g) g1" for addr' count'
        by (rule wp_mono) (use s(1) in \<open>simp add: succeeds_def same_hw_trans [OF s(1)]\<close>)
      then show ?case using s(2) by (simp add: wp case_prod_beta)
    qed
  qed (simp add: wp succeeds_def)
  show ?thesis
    unfolding e1000_erase_flash_bank_ich8lan_def wp Let_def
    by (rule wp_mono [OF sectors]) (use assms in \<open>simp_all add: succeeds_def\<close>)
qed


lemma succeeds_after: "same_hw h g \<Longrightarrow> wp k (succeeds g) g \<Longrightarrow> wp k (succeeds h) g"
  by (erule wp_mono) (auto simp: succeeds_def intro: same_hw_trans)

lemma succeeds_then:
  assumes "wp m (succeeds h) h" and "\<And>g. same_hw h g \<Longrightarrow> wp k (succeeds g) g"
  shows "wp (do { r \<leftarrow> m; if r \<noteq> (0 :: s32) then return r else k }) (succeeds h) h"
  unfolding wp
  by (rule wp_mono [OF assms(1)]) (auto simp: succeeds_def [of h "_ :: int"] intro: succeeds_after assms(2))

lemma succeeds_then_value:
  assumes "wp m (\<lambda>(r, v). succeeds h r) h" and "\<And>v g. same_hw h g \<Longrightarrow> wp (k v) (succeeds g) g"
  shows "wp (do { (r, v) \<leftarrow> m; if r \<noteq> (0 :: s32) then return r else k v }) (succeeds h) h"
  unfolding wp
  by (rule wp_mono [OF assms(1)]) (auto simp: succeeds_def [of h "_ :: int"] intro!: succeeds_after [OF _ assms(2)])

lemma succeeds_sleep:
  assumes "\<And>g. same_hw h g \<Longrightarrow> wp k (succeeds g) g"
  shows "wp (do { usleep_range lo hi; k }) (succeeds h) h"
  unfolding wp using wp_mono [OF assms [of "log_event (Delay lo) h"]] by (simp add: succeeds_def)

lemma ready_commit_words:
  assumes "always_ready (dev h)" and "mac_type (mac h) < e1000_pch_spt"
    and "unat a + 2048 < 2 ^ 23" and "unat b + 2048 < 2 ^ 23" and "i + n \<le> 2048"
  shows "wp (commit_words a b i n) (succeeds h) h"
  using assms
proof (induction n arbitrary: i h)
  case (Suc n)
  have lim: "push_bit 1 (of_nat i + c) + d \<le> ICH_FLASH_LINEAR_ADDR_MASK"
    if "unat c + 2048 < 2 ^ 23" "d = 0 \<or> d = 1" for c d :: u32
  proof -
    have "i < 2048" using Suc.prems(5) by simp
    then have "unat (push_bit 1 (of_nat i + c)) = 2 * (i + unat c)"
      using that(1) by (simp add: push_bit_eq_mult unat_word_ariths unat_of_nat take_bit_nat_eq_self)
    then show ?thesis
      using that \<open>i < 2048\<close> by (auto simp: word_le_nat_alt unat_word_ariths simp del: push_bit_Suc)
  qed
  have low: "push_bit 1 (of_nat i + c) \<le> ICH_FLASH_LINEAR_ADDR_MASK" if "unat c + 2048 < 2 ^ 23" for c :: u32
    using lim [OF that, of 0] by simp
  have keep: "always_ready (dev g)" "mac_type (mac g) < e1000_pch_spt" if "same_hw h g" for g
    using that Suc.prems by (simp_all add: same_hw_fields)
  have read: "wp (if c then return (0, w) else e1000_read_flash_word_ich8lan (of_nat i + a) 0) (\<lambda>(r, v). succeeds h r) h"
    for c w
    using ready_read_word [OF Suc.prems(1) low [OF Suc.prems(3)]] by (simp add: wp succeeds_def)
  have "wp (do {
      (ret_val, data) \<leftarrow> (if sr_modified (shadow_ram h ! i) then return (0, sr_value (shadow_ram h ! i))
        else e1000_read_flash_word_ich8lan (of_nat i + a) 0);
      if ret_val \<noteq> 0 then return ret_val
      else do {
        usleep_range 100 200;
        ret_val \<leftarrow> e1000_retry_write_flash_byte_ich8lan (push_bit 1 (of_nat i + b)) (ucast (commit_word i data));
        if ret_val \<noteq> 0 then return ret_val
        else do {
          usleep_range 100 200;
          ret_val \<leftarrow> e1000_retry_write_flash_byte_ich8lan (push_bit 1 (of_nat i + b) + 1)
            (ucast (drop_bit 8 (commit_word i data)));
          if ret_val \<noteq> 0 then return ret_val
          else commit_words a b (Suc i) n } } }) (succeeds h) h"
  proof (rule succeeds_then_value [OF read], rule succeeds_sleep, rule succeeds_then, goal_cases)
    case (1 v g g1)
    then have "same_hw h g1" by (auto intro: same_hw_trans)
    then show ?case using keep lim [OF Suc.prems(4), of 0] by (intro ready_write_byte) auto
  next
    case (2 v g g1 g2)
    then have s: "same_hw h g2" by (auto intro: same_hw_trans)
    show ?case
    proof (rule succeeds_sleep, rule succeeds_then, goal_cases)
      case (1 g3)
      with s have "same_hw h g3" by (auto intro: same_hw_trans)
      then show ?case using keep lim [OF Suc.prems(4), of 1] by (intro ready_write_byte) auto
    next
      case (2 g3 g4)
      with s have "same_hw h g4" by (auto intro: same_hw_trans)
      then show ?case using keep Suc.prems by (intro Suc.IH) auto
    qed
  qed
  then show ?case by (simp add: wp Let_def)
qed (simp add: wp succeeds_def)

text \<open>
  C22: the update of the NVM image is safe against losing power at any moment. On a part whose
  bytes may change bit by bit while a command is in flight, with one erase sector per bank and
  no erase faults, after every single event of \<open>commit_ich8lan\<close> the bank that the driver would
  select holds the complete old image or the complete new one (up to the byte with the
  signature), whatever fails on the way; on success it is the new image, in the other bank, and
  the shadow RAM is cleared.
\<close>

theorem commit_power_safe:
  assumes "flash_part (dev h) code" and "no_erase_fault (dev h)" and "code \<in> {1, 2, 3}"
    and "flash_layout code (nvm h)" and "signature_mac (mac_type (mac h))" and "idle_flash h"
    and "run_state e1000_valid_nvm_bank_detect_ich8lan h = ((0, bank), g)"
    and "run_state commit_ich8lan h = (r, h')"
  shows "let old = bank_byte (nvm h) bank (flash_mem h); new = committed_byte (shadow_ram h) old in
    selected_bank (nvm h) (flash_mem h) = bank \<and>
    (\<exists>es. trace h' = es @ trace h \<and>
      (\<forall>j. power_safe (nvm h) bank old new (dev_flash_mem (dev h) (drop j es @ trace h)))) \<and>
    (r = 0 \<longrightarrow> selected_bank (nvm h) (flash_mem h') = 1 - bank \<and>
       holds_image (nvm h) (flash_mem h') (1 - bank) new \<and> shadow_ram h' = cleared_shadow_ram)"
proof -
  let ?old = "bank_byte (nvm h) bank (flash_mem h)"
  let ?new = "committed_byte (shadow_ram h) ?old"
  let ?G = "power_safe (nvm h) bank ?old ?new"
  note d = detected_bank [OF assms(1,4,6,5,7)]
  then have det: "stage (\<lambda>m. m = flash_mem h) h g" "idle_flash g" "bank \<in> {0, 1}"
    "selected_bank (nvm h) (flash_mem h) = bank" "valid_bank (nvm h) (flash_mem h) bank" by auto
  note f = stage_fields [OF det(1)]
  have sig: "nvm_sig_valid (?old 39)" using det(5) by (simp add: valid_bank_def)
  have g: "run_state active_bank h = (bank, g)" using assms(7) by (simp add: active_bank_def)
  have banks: "commit_banks (flash_bank_size (nvm h)) bank =
      (bank_offset (nvm h) (1 - bank), bank_offset (nvm h) bank, 1 - bank)"
    using det(3) by (auto simp: commit_banks_def bank_offset_def)
  obtain r1 h1 where b: "run_state (commit_body (bank_offset (nvm h) (1 - bank)) (bank_offset (nvm h) bank) (1 - bank)) g
      = (r1, h1)" by fastforce
  have fin: "r = r1" "h' = (if r1 = 0 then h1\<lparr>shadow_ram := cleared_shadow_ram\<rparr> else h1)"
    using assms(8) b g by (auto simp: commit_ich8lan_body banks set_shadow_ram_def split: if_splits)
  have post: "stage ?G g h1" "r1 = 0 \<Longrightarrow> banks_inv (nvm h) (retiring bank ?old ?new) (flash_mem h1) \<and>
         \<not> valid_bank (nvm h) (flash_mem h1) bank"
    using wpD [OF wp_commit_body [of g code bank ?old ?new] b [folded f(2)]] f det sig assms(1-4) by auto
  have all: "through ?G h h1"
    using through_trans [of ?G h g h1] det(1) post(1) f(1) stage_fields(6) [OF post(1)] f(5)
    by (auto simp: stage_def intro: through_unchanged)
  have mem: "flash_mem h' = flash_mem h1" "trace h' = trace h1" by (simp_all add: fin flash_mem_def)
  have last: "selected_bank (nvm h) (flash_mem h') = 1 - bank \<and> holds_image (nvm h) (flash_mem h') (1 - bank) ?new \<and>
      shadow_ram h' = cleared_shadow_ram" if "r = 0"
  proof -
    have r1: "r1 = 0" using that fin(1) by simp
    note p = post(2) [OF r1]
    have "selected_bank (nvm h) (flash_mem h') = 1 - bank"
      unfolding mem using p committed_sig(1) det(3) by (auto intro: retiring_safe(2))
    moreover have "power_safe (nvm h) bank ?old ?new (flash_mem h')"
      unfolding mem using p committed_sig(1) det(3) by (auto intro: retiring_safe(1))
    ultimately show ?thesis
      using other_bank [OF det(3)] r1 by (auto simp: power_safe_def fin(2))
  qed
  show ?thesis
    using det(4) all last by (simp only: Let_def mem(2) through_def) simp
qed

section \<open>A ready part commits\<close>

lemma ready_active_bank:
  assumes "always_ready (dev h)" and "unat (flash_bank_size (nvm h)) + 2048 < 2 ^ 23" and "mac_type (mac h) < e1000_pch_spt"
  shows "wp active_bank (\<lambda>b h'. b \<in> {0, 1} \<and> same_hw h h') h"
proof -
  let ?W = "flash_bank_size (nvm h)"
  have "unat (39 + ?W * 2) \<le> unat ICH_FLASH_LINEAR_ADDR_MASK"
    using assms(2) by (simp add: unat_word_ariths)
  then have lim: "39 + ?W * 2 \<le> ICH_FLASH_LINEAR_ADDR_MASK" by (simp only: word_le_nat_alt)
  have sig: "wp bank_detect_signature (\<lambda>(r, b) h'. b \<in> {0, 1} \<and> same_hw g h') g" if "same_hw h g" for g
  proof -
    have k: "always_ready (dev g)" "mac_type (mac g) < e1000_pch_spt" "flash_bank_size (nvm g) = ?W"
      using that assms by (simp_all add: same_hw_fields)
    have second: "wp (e1000_read_flash_byte_ich8lan (39 + ?W * 2) v) (\<lambda>(r, v) h'. r = 0 \<and> same_hw g h') g1"
      if "same_hw g g1" for v g1
      by (rule wp_mono [OF ready_read_byte [OF _ _ lim]])
        (use that k in \<open>auto simp: same_hw_fields succeeds_def intro: same_hw_trans\<close>)
    show ?thesis
      unfolding bank_detect_signature_def wp Let_def k(3)
      by (rule wp_mono [OF ready_read_byte [OF k(1,2)]])
        (auto simp: succeeds_def intro!: wp_mono [OF second])
  qed
  show ?thesis
    unfolding active_bank_def e1000_valid_nvm_bank_detect_ich8lan_def wp
    using assms(3) wp_mono [OF sig [of h]] wp_mono [OF sig [of "rd E1000_EECD h"]]
    by (auto simp: less_mac_kind_def)
qed

lemma wp_ready_commit:
  assumes "always_ready (dev h)" and "unat (flash_bank_size (nvm h)) + 2048 < 2 ^ 23" and "mac_type (mac h) < e1000_pch_spt"
  shows "wp commit_ich8lan (\<lambda>r _. r = 0) h"
proof -
  let ?n = "nvm h"
  have body: "wp (commit_body (bank_offset ?n (1 - b)) (bank_offset ?n b) (1 - b)) (succeeds g) g"
    if "same_hw h g" for b g
  proof -
    have lim: "unat (bank_offset ?n b) + 2048 < 2 ^ 23" for b using assms(2) by (simp add: bank_offset_def)
    have at: "push_bit 1 (bank_offset ?n b + E1000_ICH_NVM_SIG_WORD) \<le> ICH_FLASH_LINEAR_ADDR_MASK"
      "(bank_offset ?n b + E1000_ICH_NVM_SIG_WORD) * 2 + 1 \<le> ICH_FLASH_LINEAR_ADDR_MASK" for b
      using lim [of b] by (simp_all add: word_le_nat_alt unat_word_ariths push_bit_eq_mult)
    have keep: "always_ready (dev g)" "mac_type (mac g) < e1000_pch_spt" if "same_hw h g" for g
      using that assms by (simp_all add: same_hw_fields)
    note tr = same_hw_trans
    show ?thesis
      unfolding commit_body_def
    proof (rule succeeds_then, goal_cases)
      case 1 show ?case by (intro ready_erase keep that)
    next
      case (2 g1) note s1 = tr [OF that 2]
      show ?case
      proof (rule succeeds_then, goal_cases)
        case 1 show ?case by (intro ready_commit_words keep s1 lim) simp
      next
        case (2 g2) note s2 = tr [OF s1 2]
        show ?case
        proof (rule succeeds_then_value, goal_cases)
          case 1 show ?case by (intro ready_read_word keep s2 at)
        next
          case (2 v g3) note s3 = tr [OF s2 2]
          show ?case
          proof (rule succeeds_then, goal_cases)
            case 1 show ?case by (intro ready_write_byte keep s3 at)
          next
            case (2 g4) note s4 = tr [OF s3 2]
            show ?case by (intro ready_write_byte keep s4 at)
          qed
        qed
      qed
    qed
  qed
  have banks: "commit_banks (flash_bank_size ?n) b = (bank_offset ?n (1 - b), bank_offset ?n b, 1 - b)"
    if "b \<in> {0, 1}" for b
    using that by (auto simp: commit_banks_def bank_offset_def)
  show ?thesis
    unfolding commit_ich8lan_body wp
    by (rule wp_mono [OF ready_active_bank [OF assms]])
      (auto simp: banks succeeds_def wp intro!: wp_mono [OF body])
qed

text \<open>
  C23: on a part whose status is always ready, \<open>commit_ich8lan\<close> succeeds, for every content of
  the part and of the shadow RAM.
\<close>

theorem commit_succeeds:
  assumes "always_ready (dev h)" and "unat (flash_bank_size (nvm h)) + 2048 < 2 ^ 23" and "mac_type (mac h) < e1000_pch_spt"
  shows "fst (run_state commit_ich8lan h) = 0"
  using wp_ready_commit [OF assms] by (simp add: wp_def)


text \<open>
  A chip with 4096-byte sectors whose bank 0 carries a valid signature, behind a part of the
  generation that looks only at signatures.
\<close>

definition commit_chip :: device where
  "commit_chip = flash_chip 1 ((\<lambda>a. 0xFF)(39 := 0x80))"

definition commit_hw :: hw where
  "commit_hw = (sample_hw commit_chip)\<lparr>mac := sample_mac\<lparr>mac_type := e1000_ich10lan\<rparr>\<rparr>"

lemma commit_hw_fields [simp]:
  "dev commit_hw = commit_chip" "nvm commit_hw = sample_nvm" "trace commit_hw = []"
  "mac_type (mac commit_hw) = e1000_ich10lan"
  by (simp_all add: commit_hw_def)

lemma commit_chip_ready: "always_ready commit_chip"
  using chip_status [of 1] by (simp add: always_ready_def commit_chip_def flash_chip_def)

lemma commit_chip_part: "flash_part commit_chip 1" "no_erase_fault commit_chip"
  by (simp_all add: commit_chip_def flash_chip_part flash_chip_no_fault)

lemma commit_layout: "flash_layout 1 sample_nvm"
  by (simp add: flash_layout_def sample_nvm_def sector_bits_def)

lemma commit_idle: "idle_flash commit_hw"
  by (simp add: idle_flash_def flash_state_def)

lemma commit_hw_bank: "valid_bank sample_nvm (flash_mem commit_hw) 0"
  by (simp add: valid_bank_def bank_byte_def bank_addr_def flash_mem_def commit_chip_def flash_chip_def
      sample_nvm_def nvm_sig_valid_def)

lemma commit_hw_detect: "\<exists>g. run_state e1000_valid_nvm_bank_detect_ich8lan commit_hw = ((0, 0), g)"
proof -
  have o: "39 = bank_offset (nvm commit_hw) 0 * 2 + of_nat 39" by (simp add: bank_offset_def)
  have "wp (e1000_read_flash_byte_ich8lan 39 0) (\<lambda>(r, v) h'. r = 0) commit_hw"
    by (rule wp_mono [OF ready_read_byte]) (auto simp: commit_chip_ready succeeds_def less_mac_kind_def)
  moreover have "wp (e1000_read_flash_byte_ich8lan 39 0) (\<lambda>(r, v) h'. r = 0 \<longrightarrow> nvm_sig_valid v) commit_hw"
    by (rule wp_mono [OF wp_bank_sig [where code = 1 and b = 0, OF _ _ commit_idle o]])
      (use commit_chip_part commit_layout commit_hw_bank in auto)
  ultimately show ?thesis
    by (cases "run_state (e1000_read_flash_byte_ich8lan 39 0) commit_hw")
      (auto simp: wp_def e1000_valid_nvm_bank_detect_ich8lan_def bank_detect_signature_def)
qed

theorem commit_succeeds_witness: "fst (run_state commit_ich8lan commit_hw) = 0"
  using commit_succeeds [of commit_hw] commit_chip_ready
  by (simp add: sample_nvm_def less_mac_kind_def)

theorem commit_power_safe_witness:
  "let h' = snd (run_state commit_ich8lan commit_hw);
       old = bank_byte sample_nvm 0 (flash_mem commit_hw);
       new = committed_byte (shadow_ram commit_hw) old
   in (\<forall>j. power_safe sample_nvm 0 old new (dev_flash_mem commit_chip (drop j (trace h')))) \<and>
     selected_bank sample_nvm (flash_mem h') = 1 \<and> holds_image sample_nvm (flash_mem h') 1 new"
proof -
  obtain g where g: "run_state e1000_valid_nvm_bank_detect_ich8lan commit_hw = ((0, 0), g)"
    using commit_hw_detect by blast
  have "wp commit_ich8lan (\<lambda>r _. r = 0) commit_hw"
    using wp_ready_commit [of commit_hw] commit_chip_ready by (simp add: sample_nvm_def less_mac_kind_def)
  then obtain h' where run: "run_state commit_ich8lan commit_hw = (0, h')"
    by (cases "run_state commit_ich8lan commit_hw") (simp add: wp_def)
  from commit_power_safe [OF _ _ _ _ _ commit_idle g run, of 1] show ?thesis
    using run commit_chip_part commit_layout by (auto simp: Let_def signature_mac_def)
qed

end
