(* ===== verification/Ich8_Words.thy ===== *)
theory Ich8_Words
  imports Ich8_Commit Nvm_Eerd
begin

text \<open>
  The words of the NVM of the ICH and PCH parts: a write is seen by the reads before any commit;
  the parts provide the word interface \<open>nvm_words\<close>, so the checksum and board number routines
  of \<open>nvm.c\<close> are correct on them; and three behaviours of the flash routines that the code
  does not mean: the pending second word of a pair, the addresses and the result of an erase.
\<close>

unbundle bit_operations_syntax

section \<open>The shadow RAM\<close>

lemmas same_frames = same.frame_return same.frame_get same.frame_bind same.frame_if same.frame_let
  same.frame_case_prod same.frame_case_option same.frame_reads same.frame_writes same.frame_delays
  same.frame_poll same.frame_retry same.frame_mutex

lemma frame_flash_cycle:
  "state_io_rel same_hw e1000_flash_cycle_init_ich8lan" "state_io_rel same_hw (e1000_flash_cycle_ich8lan n)"
  "state_io_rel same_hw flash_cycle_again"
  unfolding e1000_flash_cycle_init_ich8lan_def e1000_flash_cycle_ich8lan_def flash_cycle_again_def
    write_hsfsts_def write_hsfctl_def read_hsfctl_def
  by (intro same_frames)+

lemma frame_flash_read:
  "state_io_rel same_hw (e1000_read_flash_data_ich8lan offset nbytes data)"
  "state_io_rel same_hw (e1000_read_flash_data32_ich8lan offset dword)"
  unfolding e1000_read_flash_data_ich8lan_def read_flash_data_attempt_def
    e1000_read_flash_data32_ich8lan_def read_flash_data32_attempt_def
  by (intro same_frames frame_flash_cycle)+

lemma frame_active_bank: "state_io_rel same_hw active_bank"
  unfolding active_bank_def e1000_valid_nvm_bank_detect_ich8lan_def bank_detect_spt_def
    bank_detect_signature_def e1000_read_flash_dword_ich8lan_def e1000_read_flash_byte_ich8lan_def
  by (intro same_frames frame_flash_read)

lemma write_shadow:
  assumes "at + n \<le> length ram" and "length data = n"
  shows "length (write_shadow_loop at n data ram) = length ram \<and>
    (\<forall>k. write_shadow_loop at n data ram ! k =
       (if at \<le> k \<and> k < at + n then \<lparr>sr_value = data ! (k - at), sr_modified = True\<rparr> else ram ! k))"
  using assms
proof (induction n arbitrary: at data ram)
  case (Suc n)
  obtain d ds where data: "data = d # ds" using Suc.prems(2) by (cases data) auto
  let ?ram = "ram[at := \<lparr>sr_value = d, sr_modified = True\<rparr>]"
  have IH: "length (write_shadow_loop (Suc at) n ds ?ram) = length ?ram \<and>
    (\<forall>k. write_shadow_loop (Suc at) n ds ?ram ! k =
       (if Suc at \<le> k \<and> k < Suc at + n then \<lparr>sr_value = ds ! (k - Suc at), sr_modified = True\<rparr> else ?ram ! k))"
    by (rule Suc.IH) (use Suc.prems data in simp_all)
  have "data ! (k - at) = ds ! (k - Suc at)" if "Suc at \<le> k" for k
    using that by (simp add: data nth_Cons')
  moreover have "at < length ram" using Suc.prems(1) by simp
  ultimately show ?case
    using IH by (auto simp: data not_less_eq_eq le_less nth_list_update)
qed auto

lemma read_shadow_modified:
  assumes "\<forall>k < n. sr_modified (shadow_ram h ! (unat offset + i + k))" and "i + n \<le> length data"
  shows "\<exists>data'. run_state (read_shadow_loop offset act i n data) h = ((0, data'), h) \<and> length data' = length data \<and>
    (\<forall>k. data' ! k = (if i \<le> k \<and> k < i + n then sr_value (shadow_ram h ! (unat offset + k)) else data ! k))"
  using assms
proof (induction n arbitrary: i data)
  case (Suc n)
  let ?d = "data[i := sr_value (shadow_ram h ! (unat offset + i))]"
  have "\<forall>k < n. sr_modified (shadow_ram h ! (unat offset + Suc i + k))"
    using Suc.prems(1) by (metis Suc_mono add_Suc_shift add.assoc plus_1_eq_Suc add.commute)
  moreover have "Suc i + n \<le> length ?d" using Suc.prems(2) by simp
  ultimately obtain d' where "run_state (read_shadow_loop offset act (Suc i) n ?d) h = ((0, d'), h)"
    "length d' = length ?d"
    "\<forall>k. d' ! k = (if Suc i \<le> k \<and> k < Suc i + n then sr_value (shadow_ram h ! (unat offset + k)) else ?d ! k)"
    using Suc.IH by blast
  moreover have "sr_modified (shadow_ram h ! (unat offset + i))" using Suc.prems(1) by force
  ultimately show ?case
    using Suc.prems(2) by (intro exI [of _ d']) (auto simp: Let_def nth_list_update not_less_eq_eq le_less)
qed auto

lemma nth_list_update_two:
  "Suc i < length xs \<Longrightarrow> xs[i := a, Suc i := b] ! k = (if k = i then a else if k = Suc i then b else xs ! k)"
  by (auto simp: nth_list_update)

lemma read_spt_modified:
  assumes "\<forall>k < n. sr_modified (shadow_ram h ! (unat offset + i + k))" and "i + n \<le> length data"
  shows "\<exists>data'. run_state (read_spt_loop offset act i n data) h = ((0, data'), h) \<and> length data' = length data \<and>
    (\<forall>k. data' ! k = (if i \<le> k \<and> k < i + n then sr_value (shadow_ram h ! (unat offset + k)) else data ! k))"
  using assms
proof (induction n arbitrary: i data rule: nat_induct2)
  case (step n)
  let ?v = "\<lambda>k. sr_value (shadow_ram h ! (unat offset + k))"
  let ?d = "data[i := ?v i, i + 1 := ?v (i + 1)]"
  have m: "sr_modified (shadow_ram h ! (unat offset + i))" "sr_modified (shadow_ram h ! (unat offset + i + 1))"
    using step.prems(1) [rule_format, of 0] step.prems(1) [rule_format, of 1] by simp_all
  have "sr_modified (shadow_ram h ! (unat offset + (i + 2) + k))" if "k < n" for k
    using step.prems(1) [rule_format, of "k + 2"] that by (simp add: ac_simps)
  moreover have "(i + 2) + n \<le> length ?d" using step.prems(2) by simp
  ultimately obtain d' where d': "run_state (read_spt_loop offset act (i + 2) n ?d) h = ((0, d'), h)"
    "length d' = length ?d"
    "\<forall>k. d' ! k = (if i + 2 \<le> k \<and> k < i + 2 + n then ?v k else ?d ! k)"
    using step.IH by blast
  have run: "run_state (read_spt_loop offset act i (n + 2) data) h = ((0, d'), h)"
    using d'(1) m by (simp add: read_spt_pair_def Let_def ac_simps)
  have "d' ! k = (if i \<le> k \<and> k < i + (n + 2) then ?v k else data ! k)" for k
  proof -
    consider "k = i" | "k = i + 1" | "k \<noteq> i" "k \<noteq> i + 1" by blast
    then show ?thesis using d'(3) step.prems(2) by cases (auto simp: nth_list_update_two)
  qed
  with run d'(2) show ?case by auto
next
  case 1
  then show ?case by (auto simp: read_spt_single_def Let_def nth_list_update)
qed auto

text \<open>What the two accesses leave, on any device.\<close>

lemma range_ok:
  assumes "\<not> nvm_bad_range wsize offset words"
  shows "unat offset + unat words \<le> unat wsize"
proof -
  have "uint words \<le> uint wsize - uint offset" using assms by (simp add: nvm_bad_range_def)
  then have "int (unat words) \<le> int (unat wsize) - int (unat offset)" by (simp only: uint_nat)
  then show ?thesis by linarith
qed

lemma range_fits:
  assumes "unat offset + unat words \<le> unat wsize" and "0 < unat words"
  shows "\<not> nvm_bad_range wsize offset words"
proof -
  have "words \<noteq> 0" using assms(2) by auto
  moreover have "uint x = int (unat x)" for x :: u16 by (simp only: uint_nat)
  ultimately show ?thesis
    unfolding nvm_bad_range_def word_le_nat_alt using assms by (simp only: simp_thms de_Morgan_disj, intro conjI) linarith+
qed

lemma run_write_shadow:
  assumes "\<not> nvm_bad_range (word_size (nvm h)) offset words"
  shows "run_state (e1000_write_nvm_ich8lan ich8_lock_ops offset words data) h =
    (0, log_event MutexUnlock ((log_event MutexLock h)\<lparr>shadow_ram :=
       write_shadow_loop (unat offset) (unat words) data (shadow_ram h)\<rparr>))"
  using assms
  by (simp add: e1000_write_nvm_ich8lan_def ich8_lock_ops_def e1000_acquire_nvm_ich8lan_def
      e1000_release_nvm_ich8lan_def set_shadow_ram_def)

text \<open>
  A range that is only partly pending. Both loops keep what they have already read; the one for SPT
  goes by pairs, and the flag of the first word decides for both.
\<close>

lemma frame_flash_word:
  "state_io_rel same_hw (e1000_read_flash_word_ich8lan offset data)"
  "state_io_rel same_hw (e1000_read_flash_dword_ich8lan offset dword)"
  unfolding e1000_read_flash_word_ich8lan_def e1000_read_flash_dword_ich8lan_def
  by (intro same_frames frame_flash_read)+

definition pending_read :: "hw \<Rightarrow> u16 \<Rightarrow> nat \<Rightarrow> nat \<Rightarrow> u16 list \<Rightarrow> bool" where
  "pending_read h offset i j d \<longleftrightarrow> (\<forall>k. i \<le> k \<and> k < j \<and> sr_modified (shadow_ram h ! (unat offset + k)) \<longrightarrow>
     d ! k = sr_value (shadow_ram h ! (unat offset + k)))"

lemma wp_read_shadow:
  assumes "i + n \<le> length data" and "pending_read h0 offset 0 i data" and "same_hw h0 h"
  shows "wp (read_shadow_loop offset act i n data) (\<lambda>(r, d) g. r = 0 \<longrightarrow> pending_read h0 offset 0 (i + n) d) h"
  using assms
proof (induction n arbitrary: i data h)
  case (Suc n)
  let ?w = "shadow_ram h0 ! (unat offset + i)"
  have ram: "shadow_ram h = shadow_ram h0" using Suc.prems(3) by (simp add: same_hw_fields)
  have step: "wp (read_shadow_loop offset act (Suc i) n (data[i := v]))
      (\<lambda>(r, d) g. r = 0 \<longrightarrow> pending_read h0 offset 0 (i + Suc n) d) g"
    if "same_hw h0 g" "sr_modified ?w \<Longrightarrow> v = sr_value ?w" for v g
    using Suc.IH [of "Suc i" "data[i := v]" g] Suc.prems(1,2) that
    by (auto simp: pending_read_def nth_list_update less_Suc_eq)
  have "wp (e1000_read_flash_word_ich8lan (act + of_nat i) 0) (\<lambda>(r, w) g. same_hw h g) h"
    by (rule wp_mono [OF wp_same [OF frame_flash_word(1)]]) auto
  then show ?case
    using step Suc.prems(3) unfolding read_shadow_loop.simps wp Let_def ram
    by (auto elim!: wp_mono intro!: step intro: same_hw_trans)
qed (simp add: wp)

text \<open>What the loop for SPT gives at the index \<open>k\<close>; \<open>act\<close> is the place of the range in the flash.\<close>

definition spt_word :: "hw \<Rightarrow> u16 \<Rightarrow> u32 \<Rightarrow> nat \<Rightarrow> u16 \<Rightarrow> bool" where
  "spt_word h offset act k v \<longleftrightarrow> (let w = shadow_ram h ! (unat offset + k) in
     if even k then sr_modified w \<longrightarrow> v = sr_value w
     else if sr_modified (shadow_ram h ! (unat offset + k - 1)) then v = sr_value w
     else \<exists>g dword. same_hw h g \<and>
       fst (run_state (e1000_read_flash_dword_ich8lan (ucast (ucast (act + of_nat (k - 1)) :: u16)) 0) g) = (0, dword) \<and>
       v = ucast (drop_bit 16 dword AND 0xFFFF))"

lemma wp_read_spt:
  assumes "i + n \<le> length data" and "\<forall>k < i. spt_word h0 offset act k (data ! k)" and "same_hw h0 h" and "even i"
  shows "wp (read_spt_loop offset act i n data)
    (\<lambda>(r, d) g. r = 0 \<longrightarrow> (\<forall>k < i + n. spt_word h0 offset act k (d ! k))) h"
  using assms
proof (induction n arbitrary: i data h rule: nat_induct2)
  case 0
  then show ?case by (simp add: wp)
next
  case 1
  let ?w = "shadow_ram h0 ! (unat offset + i)"
  have ram: "shadow_ram h = shadow_ram h0" using 1(3) by (simp add: same_hw_fields)
  have last: "\<forall>k < Suc i. spt_word h0 offset act k (data[i := v] ! k)" if "sr_modified ?w \<Longrightarrow> v = sr_value ?w" for v
    using 1 that by (auto simp: less_Suc_eq nth_list_update spt_word_def Let_def)
  show ?case
    unfolding read_spt_loop.simps One_nat_def read_spt_single_def wp Let_def ram
    using last by (auto simp: wp_def case_prod_beta)
next
  case (step n)
  let ?lo = "shadow_ram h0 ! (unat offset + i)" and ?hi = "shadow_ram h0 ! (unat offset + i + 1)"
  let ?at = "ucast (ucast (act + of_nat i) :: u16) :: u32"
  have ram: "shadow_ram h = shadow_ram h0" using step.prems(3) by (simp add: same_hw_fields)
  have rest: "wp (read_spt_loop offset act (i + 2) n (data[i := a, i + 1 := b]))
      (\<lambda>(r, d) g. r = 0 \<longrightarrow> (\<forall>k < i + (n + 2). spt_word h0 offset act k (d ! k))) g"
    if "same_hw h0 g" "spt_word h0 offset act i a" "spt_word h0 offset act (i + 1) b" for a b g
  proof -
    have "\<forall>k < i + 2. spt_word h0 offset act k (data[i := a, i + 1 := b] ! k)"
    proof (intro allI impI)
      fix k assume "k < i + 2"
      then consider "k = i" | "k = i + 1" | "k < i" by linarith
      then show "spt_word h0 offset act k (data[i := a, i + 1 := b] ! k)"
        using that(2,3) step.prems(1,2) by cases (auto simp: nth_list_update)
    qed
    with step.IH [of "i + 2" "data[i := a, i + 1 := b]" g] step.prems(1,4) that(1) show ?thesis by (simp add: ac_simps)
  qed
  let ?read = "(if \<not> sr_modified ?lo \<or> \<not> sr_modified ?hi then e1000_read_flash_dword_ich8lan ?at 0 else return (0, 0))"
  obtain ret dword g where run: "run_state ?read h = ((ret, dword), g)" by (metis prod.exhaust)
  have same: "same_hw h0 g"
    using run step.prems(3) same_hw_run [OF frame_flash_word(2), of ?at 0 h "(ret, dword)" g]
    by (auto intro: same_hw_trans split: if_splits)
  let ?a = "if sr_modified ?lo then sr_value ?lo else ucast (dword AND 0xFFFF)"
  let ?b = "if sr_modified ?lo then sr_value ?hi else ucast (drop_bit 16 dword AND 0xFFFF)"
  have "spt_word h0 offset act i ?a" using step.prems(4) by (simp add: spt_word_def Let_def)
  moreover have "spt_word h0 offset act (i + 1) ?b" if "ret = 0"
    using that run step.prems(3,4) by (auto simp: spt_word_def Let_def intro!: exI [of _ h] exI [of _ dword])
  ultimately have "wp (read_spt_loop offset act (i + 2) n (data[i := ?a, i + 1 := ?b]))
      (\<lambda>(r, d) g. r = 0 \<longrightarrow> (\<forall>k < i + (n + 2). spt_word h0 offset act k (d ! k))) g" if "ret = 0"
    using that by (intro rest [OF same]) simp_all
  moreover have "read_spt_loop offset act i (n + 2) data = do {
      (r, d) \<leftarrow> read_spt_pair offset act i data;
      if r \<noteq> 0 then return (r, d) else read_spt_loop offset act (i + 2) n d }" by simp
  moreover have "run_state (read_spt_pair offset act i data) h = ((ret, if ret = 0 then data[i := ?a, i + 1 := ?b] else data), g)"
    using run ram by (cases "sr_modified ?lo"; cases "sr_modified ?hi") (auto simp: read_spt_pair_def Let_def)
  then have "wp (read_spt_pair offset act i data) Q h = Q (ret, if ret = 0 then data[i := ?a, i + 1 := ?b] else data) g" for Q
    by (simp add: wp_def)
  ultimately show ?case by (simp only: wp_bind) (simp add: wp_return del: read_spt_loop.simps)
qed

lemma write_leaves:
  assumes "length (shadow_ram h) = unat (word_size (nvm h))" and "length data = unat words"
    and "run_state (e1000_write_nvm_ich8lan ich8_lock_ops offset words data) h = (0, h1)"
  shows "nvm h1 = nvm h \<and> (\<forall>j. shadow_ram h1 ! j =
    (if unat offset \<le> j \<and> j < unat offset + unat words then \<lparr>sr_value = data ! (j - unat offset), sr_modified = True\<rparr>
     else shadow_ram h ! j))"
proof -
  have ok: "\<not> nvm_bad_range (word_size (nvm h)) offset words"
    using assms(3) by (auto simp: e1000_write_nvm_ich8lan_def split: if_splits)
  show ?thesis
    using write_shadow [of "unat offset" "unat words" "shadow_ram h" data] range_ok [OF ok] assms(1,2)
      run_write_shadow [OF ok, of data] assms(3) by auto
qed

lemma read_words_pending:
  assumes "length buf = unat n" and "run_state (e1000_read_nvm_ich8lan ich8_lock_ops a n buf) h = ((r, d), h')"
  shows "(r = 0 \<longrightarrow> pending_read h a 0 (unat n) d) \<and>
    (\<not> nvm_bad_range (word_size (nvm h)) a n \<and> (\<forall>k < unat n. sr_modified (shadow_ram h ! (unat a + k))) \<longrightarrow> r = 0)"
proof (cases "nvm_bad_range (word_size (nvm h)) a n")
  case True
  then show ?thesis using assms(2) by (auto simp: e1000_read_nvm_ich8lan_def)
next
  case False
  obtain b g where bank: "run_state active_bank (log_event MutexLock h) = (b, g)" by fastforce
  have same: "same_hw h g" using same_hw_run [OF frame_active_bank bank] by (auto intro: same_hw_trans [of h])
  let ?act = "(if b \<noteq> 0 then flash_bank_size (nvm h) else 0) + ucast a"
  obtain g' where run: "run_state (read_shadow_loop a ?act 0 (unat n) buf) g = ((r, d), g')"
    using assms(2) False bank
    by (auto simp: e1000_read_nvm_ich8lan_def ich8_lock_ops_def e1000_acquire_nvm_ich8lan_def
        e1000_release_nvm_ich8lan_def Let_def case_prod_beta prod_eq_iff split: if_splits)
  have "r = 0 \<longrightarrow> pending_read h a 0 (unat n) d"
    using wpD [OF wp_read_shadow [of 0 "unat n" buf h a g ?act] run] assms(1) same by (simp add: pending_read_def)
  moreover have "r = 0" if "\<forall>k < unat n. sr_modified (shadow_ram h ! (unat a + k))"
    using read_shadow_modified [of "unat n" g a 0 buf ?act] that assms(1) run same by (auto simp: same_hw_fields)
  ultimately show ?thesis by blast
qed

lemma read_spt_pending:
  assumes "length buf = unat n" and "run_state (e1000_read_nvm_spt ich8_lock_ops a n buf) h = ((r, d), h')"
  shows "(r = 0 \<longrightarrow> (\<exists>bank. bank \<in> {0, flash_bank_size (nvm h)} \<and> (\<forall>k < unat n. spt_word h a (bank + ucast a) k (d ! k)))) \<and>
    (\<not> nvm_bad_range (word_size (nvm h)) a n \<and> (\<forall>k < unat n. sr_modified (shadow_ram h ! (unat a + k))) \<longrightarrow> r = 0)"
proof (cases "nvm_bad_range (word_size (nvm h)) a n")
  case True
  then show ?thesis using assms(2) by (auto simp: e1000_read_nvm_spt_def)
next
  case False
  obtain b g where bank: "run_state active_bank (log_event MutexLock h) = (b, g)" by fastforce
  have same: "same_hw h g" using same_hw_run [OF frame_active_bank bank] by (auto intro: same_hw_trans [of h])
  let ?bank = "if b \<noteq> 0 then flash_bank_size (nvm h) else 0"
  obtain g' where run: "run_state (read_spt_loop a (?bank + ucast a) 0 (unat n) buf) g = ((r, d), g')"
    using assms(2) False bank
    by (auto simp: e1000_read_nvm_spt_def ich8_lock_ops_def e1000_acquire_nvm_ich8lan_def
        e1000_release_nvm_ich8lan_def Let_def case_prod_beta prod_eq_iff split: if_splits)
  have "r = 0 \<longrightarrow> (\<forall>k < unat n. spt_word h a (?bank + ucast a) k (d ! k))"
    using wpD [OF wp_read_spt [of 0 "unat n" buf h a "?bank + ucast a" g] run] assms(1) same by simp
  moreover have "?bank \<in> {0, flash_bank_size (nvm h)}" by simp
  moreover have "r = 0" if "\<forall>k < unat n. sr_modified (shadow_ram h ! (unat a + k))"
    using read_spt_modified [of "unat n" g a 0 buf "?bank + ucast a"] that assms(1) run same by (auto simp: same_hw_fields)
  ultimately show ?thesis by blast
qed

text \<open>
  C24: words that \<open>e1000_write_nvm_ich8lan\<close> accepts are seen before any commit, whatever the part
  holds or answers. In any range that the routine for words reads, those that were written have the
  written value. So they have in a range that the routine for SPT reads, at each even index, and at an
  odd index where the word before it is pending too; where that is not, the routine misses the
  pending word and gives what the flash holds. A read within the range that was written never fails.
\<close>

theorem read_after_write:
  assumes "length (shadow_ram h) = unat (word_size (nvm h))" and "length data = unat words"
    and "run_state (e1000_write_nvm_ich8lan ich8_lock_ops offset words data) h = (0, h1)"
    and "length buf = unat n"
    and "run_state (e1000_read_nvm_ich8lan ich8_lock_ops a n buf) h1 = ((r, d), h2)"
    and "run_state (e1000_read_nvm_spt ich8_lock_ops a n buf) h1 = ((r', d'), h3)"
  shows "let written = (\<lambda>j. unat offset \<le> j \<and> j < unat offset + unat words);
      value = (\<lambda>j. data ! (j - unat offset)) in
    (0 < n \<and> offset \<le> a \<and> unat a + unat n \<le> unat offset + unat words \<longrightarrow> r = 0 \<and> r' = 0) \<and>
    (\<forall>k < unat n. written (unat a + k) \<longrightarrow>
      (r = 0 \<longrightarrow> d ! k = value (unat a + k)) \<and>
      (r' = 0 \<longrightarrow>
        (if even k \<or> written (unat a + k - 1) \<or> sr_modified (shadow_ram h ! (unat a + k - 1)) then d' ! k = value (unat a + k)
         else \<exists>g dword bank. same_hw h1 g \<and> bank \<in> {0, flash_bank_size (nvm h)} \<and>
           fst (run_state (e1000_read_flash_dword_ich8lan (ucast (ucast (bank + ucast a + of_nat (k - 1)) :: u16)) 0) g) = (0, dword) \<and>
           d' ! k = ucast (drop_bit 16 dword AND 0xFFFF))))"
proof -
  note w = write_leaves [OF assms(1-3)]
  note rw = read_words_pending [OF assms(4,5)] and rs = read_spt_pending [OF assms(4,6)]
  have bad: "r = 0 \<and> r' = 0" if "0 < n" "offset \<le> a" "unat a + unat n \<le> unat offset + unat words"
  proof -
    have "\<not> nvm_bad_range (word_size (nvm h)) offset words"
      using assms(3) by (auto simp: e1000_write_nvm_ich8lan_def split: if_splits)
    then have "unat a + unat n \<le> unat (word_size (nvm h))" "0 < unat n"
      using range_ok that by (force, simp add: unat_gt_0)
    then have "\<not> nvm_bad_range (word_size (nvm h1)) a n"
      using w by (intro range_fits) simp_all
    moreover have "\<forall>k < unat n. sr_modified (shadow_ram h1 ! (unat a + k))"
      using w that(2,3) by (auto simp: word_le_nat_alt)
    ultimately show ?thesis using rw rs by blast
  qed
  have spt: "if even k \<or> written (unat a + k - 1) \<or> sr_modified (shadow_ram h ! (unat a + k - 1))
        then d' ! k = data ! (unat a + k - unat offset)
        else \<exists>g dword bank. same_hw h1 g \<and> bank \<in> {0, flash_bank_size (nvm h)} \<and>
           fst (run_state (e1000_read_flash_dword_ich8lan (ucast (ucast (bank + ucast a + of_nat (k - 1)) :: u16)) 0) g) = (0, dword) \<and>
           d' ! k = ucast (drop_bit 16 dword AND 0xFFFF)"
    if k: "k < unat n" "written (unat a + k)" "r' = 0"
      and wr: "written = (\<lambda>j. unat offset \<le> j \<and> j < unat offset + unat words)" for k written
  proof -
    obtain bank where bank: "bank \<in> {0, flash_bank_size (nvm h)}" "spt_word h1 a (bank + ucast a) k (d' ! k)"
      using rs k w by auto
    have "sr_modified (shadow_ram h1 ! (unat a + k - 1)) \<longleftrightarrow>
        written (unat a + k - 1) \<or> sr_modified (shadow_ram h ! (unat a + k - 1))" using w wr by auto
    moreover have "shadow_ram h1 ! (unat a + k) = \<lparr>sr_value = data ! (unat a + k - unat offset), sr_modified = True\<rparr>"
      using w k(2) wr by simp
    ultimately show ?thesis using bank unfolding spt_word_def Let_def by (auto split: if_splits)
  qed
  have "d ! k = data ! (unat a + k - unat offset)" if "k < unat n" "r = 0" "unat offset \<le> unat a + k" "unat a + k < unat offset + unat words" for k
    using rw w that by (simp add: pending_read_def)
  with bad spt [OF _ _ _ refl] show ?thesis unfolding Let_def by blast
qed

theorem read_after_write_witness:
  "let h1 = snd (run_state (e1000_write_nvm_ich8lan ich8_lock_ops 5 3 [7, 8, 9]) (sample_hw (ram_device (\<lambda>r. 0))));
      (r, d) = fst (run_state (e1000_read_nvm_ich8lan ich8_lock_ops 6 2 [0, 0]) h1);
      (r', d') = fst (run_state (e1000_read_nvm_spt ich8_lock_ops 6 2 [0, 0]) h1)
    in r = 0 \<and> r' = 0 \<and> d ! 0 = 8 \<and> d ! 1 = 9 \<and> d' ! 0 = 8 \<and> d' ! 1 = 9"
proof -
  let ?h = "sample_hw (ram_device (\<lambda>r. 0))"
  have ok: "\<not> nvm_bad_range (word_size (nvm ?h)) 5 3" by (simp add: nvm_bad_range_def sample_nvm_def)
  define h1 where "h1 = snd (run_state (e1000_write_nvm_ich8lan ich8_lock_ops 5 3 [7, 8, 9]) ?h)"
  have wr: "run_state (e1000_write_nvm_ich8lan ich8_lock_ops 5 3 [7, 8, 9]) ?h = (0, h1)"
    by (simp add: h1_def run_write_shadow [OF ok])
  obtain r d h2 where rd: "run_state (e1000_read_nvm_ich8lan ich8_lock_ops 6 2 [0, 0]) h1 = ((r, d), h2)"
    by (metis prod.exhaust)
  obtain r' d' h3 where rs: "run_state (e1000_read_nvm_spt ich8_lock_ops 6 2 [0, 0]) h1 = ((r', d'), h3)"
    by (metis prod.exhaust)
  have "length (shadow_ram ?h) = unat (word_size (nvm ?h))" by (simp add: sample_nvm_def)
  then have raw: "r = 0 \<and> r' = 0" "k < 2 \<Longrightarrow> d ! k = [7, 8, 9] ! (1 + k) \<and>
      (if even k \<or> 5 \<le> 5 + k \<and> 5 + k < 8 then d' ! k = [7, 8, 9] ! (1 + k) else True)" for k
    using read_after_write [OF _ _ wr _ rd rs] by (simp_all add: Let_def)
  have "d ! 0 = 8 \<and> d ! 1 = 9 \<and> d' ! 0 = 8 \<and> d' ! 1 = 9" using raw(2) [of 0] raw(2) [of 1] by simp
  with raw(1) have "r = 0 \<and> r' = 0 \<and> d ! 0 = 8 \<and> d ! 1 = 9 \<and> d' ! 0 = 8 \<and> d' ! 1 = 9" by simp
  then show ?thesis by (simp add: h1_def [symmetric] rd rs)
qed

section \<open>The words behind the shadow RAM\<close>

text \<open>
  The content a reader of the NVM is to see: the pending writes over the selected bank. The
  invariant covers parts whose reads may fail: a failing read of the signature makes the driver
  fall back to bank 0, so that bank 1 may be the valid one only where reads cannot fail.
\<close>

definition stored_word :: "hw \<Rightarrow> u32 \<Rightarrow> nat \<Rightarrow> u16" where
  "stored_word h b i = ucast (bank_byte (nvm h) b (flash_mem h) (2 * i)) OR
     push_bit 8 (ucast (bank_byte (nvm h) b (flash_mem h) (2 * i + 1)))"

definition nvm_content :: "hw \<Rightarrow> u16 \<Rightarrow> u16" where
  "nvm_content h a = (let w = shadow_ram h ! unat a in
     if sr_modified w then sr_value w else stored_word h (selected_bank (nvm h) (flash_mem h)) (unat a))"

definition words_inv :: "hw \<Rightarrow> bool" where
  "words_inv h \<longleftrightarrow> (\<exists>code. flash_part (dev h) code \<and> flash_layout code (nvm h)) \<and> idle_flash h \<and>
     signature_mac (mac_type (mac h)) \<and> mac_type (mac h) < e1000_pch_spt \<and>
     word_size (nvm h) = 2048 \<and> length (shadow_ram h) = 2048 \<and>
     (selected_bank (nvm h) (flash_mem h) = 0 \<or> always_ready (dev h))"

lemma sig_offset:
  assumes "flash_layout code n"
  shows "39 + flash_bank_size n * 2 \<le> ICH_FLASH_LINEAR_ADDR_MASK"
proof -
  have "unat (flash_base_addr n) + 4 * unat (flash_bank_size n) \<le> 16777216" "2048 \<le> unat (flash_bank_size n)"
    using assms by (simp_all add: flash_layout_def)
  then have "unat (39 + flash_bank_size n * 2) \<le> unat ICH_FLASH_LINEAR_ADDR_MASK"
    by (simp add: unat_word_ariths)
  then show ?thesis by (simp only: word_le_nat_alt)
qed

lemma wp_words_bank:
  assumes "words_inv h"
  shows "wp active_bank (\<lambda>b g. same_hw h g \<and> idle_flash g \<and> flash_mem g = flash_mem h \<and>
    (b \<noteq> 0) = (selected_bank (nvm h) (flash_mem h) \<noteq> 0)) h"
proof -
  obtain code where part: "flash_part (dev h) code" "flash_layout code (nvm h)"
    using assms by (auto simp: words_inv_def)
  have idle: "idle_flash h" and mac: "signature_mac (mac_type (mac h))" "mac_type (mac h) < e1000_pch_spt"
    using assms by (simp_all add: words_inv_def)
  let ?ok = "\<lambda>g. same_hw h g \<and> idle_flash g \<and> flash_mem g = flash_mem h"
  let ?off = "\<lambda>b. bank_offset (nvm h) b * 2 + 39"
  have off: "?off b \<le> ICH_FLASH_LINEAR_ADDR_MASK" for b
    using sig_offset [OF part(2)] by (cases "b = 0") (simp_all add: bank_offset_def add.commute [of 39])
  have sig: "wp (e1000_read_flash_byte_ich8lan (?off b) v) (\<lambda>(r, v) g'. ?ok g' \<and>
      (r = 0 \<longrightarrow> nvm_sig_valid v = valid_bank (nvm h) (flash_mem h) b) \<and> (always_ready (dev h) \<longrightarrow> r = 0)) g"
    if "?ok g" for b v g
  proof -
    have f: "dev g = dev h" "nvm g = nvm h" "mac g = mac h" using that by (simp_all add: same_hw_fields)
    have "wp (e1000_read_flash_byte_ich8lan (?off b) v) (\<lambda>(r, v) g'. ?ok g' \<and>
      (r = 0 \<longrightarrow> nvm_sig_valid v = valid_bank (nvm h) (flash_mem h) b)) g"
      using that part flash_at_bank [of code g 39 "?off b" b]
      by (intro wp_mono [OF wp_read_byte [of g code]])
        (auto simp: f valid_bank_def bank_byte_def intro: same_hw_trans)
    moreover have "wp (e1000_read_flash_byte_ich8lan (?off b) v) (\<lambda>(r, v) g'. always_ready (dev h) \<longrightarrow> r = 0) g"
    proof (cases "always_ready (dev h)")
      case True
      then show ?thesis
        using off mac(2) by (intro wp_mono [OF ready_read_byte]) (auto simp: f succeeds_def)
    qed (simp add: wp_def case_prod_beta)
    ultimately show ?thesis by (rule wp_mono [OF wp_both]) auto
  qed
  have o: "E1000_ICH_NVM_SIG_WORD * 2 + 1 = ?off 0" "?off 0 + flash_bank_size (nvm h) * 2 = ?off 1"
    by (simp_all add: bank_offset_def)
  have "wp bank_detect_signature (\<lambda>(r, b) g. ?ok g \<and>
      ((if r \<noteq> 0 then 0 else b) \<noteq> 0) = (selected_bank (nvm h) (flash_mem h) \<noteq> 0)) h"
    unfolding bank_detect_signature_def wp Let_def o
  proof (rule wp_mono [OF sig], goal_cases)
    case (2 x g)
    have "selected_bank (nvm h) (flash_mem h) = 0 \<or> always_ready (dev h)" using assms by (simp add: words_inv_def)
    with 2 show ?case
      by (auto simp: case_prod_beta selected_bank_def intro!: wp_mono [OF sig])
  qed (simp add: idle)
  then show ?thesis
    unfolding active_bank_def e1000_valid_nvm_bank_detect_ich8lan_def wp
    using mac(1) by (auto simp: signature_mac_def elim!: wp_mono split: if_splits)
qed

lemma of_nat_unat_widen: "(of_nat (unat a) :: u32) = ucast a" for a :: u16
proof -
  have "unat a < 65536" using unsigned_less [of a, where 'a = nat] by simp
  then show ?thesis by (simp add: word_unat_eq_iff unat_of_nat take_bit_nat_eq_self)
qed

lemma words_inv_same:
  "words_inv h \<Longrightarrow> same_hw h g \<Longrightarrow> idle_flash g \<Longrightarrow> flash_mem g = flash_mem h \<Longrightarrow>
    words_inv g \<and> nvm_content g = nvm_content h"
proof -
  assume a: "words_inv h" "same_hw h g" "idle_flash g" "flash_mem g = flash_mem h"
  have "nvm_content g a = nvm_content h a" for a
    unfolding nvm_content_def stored_word_def a(4) same_hw_fields [OF a(2)] ..
  with a show "words_inv g \<and> nvm_content g = nvm_content h"
    by (auto simp: words_inv_def same_hw_fields)
qed

lemma words_log:
  assumes "words_inv h" and "calm_event e"
  shows "words_inv (log_event e h) \<and> nvm_content (log_event e h) = nvm_content h \<and>
    flash_mem (log_event e h) = flash_mem h"
proof -
  obtain code where "flash_part (dev h) code" using assms(1) by (auto simp: words_inv_def)
  from idle_calm [OF this _ assms(2), of "\<lambda>_. True"] assms(1)
  have "idle_flash (log_event e h)" "flash_mem (log_event e h) = flash_mem h" by (auto simp: words_inv_def)
  with words_inv_same [OF assms(1), of "log_event e h"] show ?thesis by simp
qed

lemma read_range:
  "word_size (nvm h) = 2048 \<Longrightarrow> \<not> nvm_bad_range (word_size (nvm h)) a 1 \<longleftrightarrow> unat a < 2048"
proof -
  have n: "unat (2048 :: u16) = 2048" "unat (1 :: u16) = 1" "(1 :: u16) \<noteq> 0" by simp_all
  assume w: "word_size (nvm h) = 2048"
  show "\<not> nvm_bad_range (word_size (nvm h)) a 1 \<longleftrightarrow> unat a < 2048"
    unfolding nvm_bad_range_def w uint_nat word_le_nat_alt n by (simp only: n) presburger
qed

lemma wp_words_read:
  assumes "words_inv h"
  shows "wp (read_nvm_word ich8_access_ops a) (\<lambda>(r, v) g. words_inv g \<and> nvm_content g = nvm_content h \<and>
    flash_mem g = flash_mem h \<and> (r = 0 \<longrightarrow> v = nvm_content h a)) h"
proof (cases "nvm_bad_range (word_size (nvm h)) a 1")
  case True
  with assms show ?thesis
    by (simp add: read_nvm_word_def e1000_read_nvm_def ich8_access_ops_def e1000_read_nvm_ich8lan_def wp)
next
  case False
  let ?h1 = "log_event MutexLock h"
  have a: "unat a < 2048" using False assms read_range [of h a] by (simp add: words_inv_def)
  have h1: "words_inv ?h1" "nvm_content ?h1 = nvm_content h" "flash_mem ?h1 = flash_mem h" using words_log [OF assms, of MutexLock] by simp_all
  obtain code where part: "flash_part (dev h) code" "flash_layout code (nvm h)"
    using assms by (auto simp: words_inv_def)
  have loop: "wp (read_shadow_loop a ((if b \<noteq> 0 then flash_bank_size (nvm h) else 0) + ucast a) 0 1 [0])
      (\<lambda>(r, d) g'. words_inv g' \<and> nvm_content g' = nvm_content h \<and> flash_mem g' = flash_mem h \<and>
      (r = 0 \<longrightarrow> d ! 0 = nvm_content h a)) g"
    if g: "same_hw ?h1 g" "idle_flash g" "flash_mem g = flash_mem ?h1"
      and b: "(b \<noteq> 0) = (selected_bank (nvm ?h1) (flash_mem ?h1) \<noteq> 0)" for b :: u32 and g
  proof -
    have inv: "words_inv g" "nvm_content g = nvm_content h" using words_inv_same [OF h1(1) g] h1(2) by simp_all
    have f: "dev g = dev h" "nvm g = nvm h" "shadow_ram g = shadow_ram h" using g(1) by (simp_all add: same_hw_fields)
    show ?thesis
    proof (cases "sr_modified (shadow_ram h ! unat a)")
      case True
      then show ?thesis using inv g(3) h1(3) by (simp add: wp f Let_def nvm_content_def)
    next
      case False
      let ?off = "(if b \<noteq> 0 then flash_bank_size (nvm h) else 0) + ucast a"
      have "push_bit 1 ?off = bank_offset (nvm g) b * 2 + of_nat (2 * unat a)"
        by (simp add: bank_offset_def f algebra_simps of_nat_unat_widen)
      then have at: "flash_at g (push_bit 1 ?off) = bank_addr (nvm g) b (2 * unat a)"
        using a part(2) by (intro flash_at_bank [of code]) (simp_all add: f)
      have "bank_addr (nvm g) b (2 * unat a) + 1 = bank_addr (nvm g) b (2 * unat a + 1)"
        by (simp add: bank_addr_def algebra_simps)
      then have word: "mem_word (flash_mem g) (flash_at g (push_bit 1 ?off)) = stored_word g b (unat a)"
        unfolding at by (simp add: mem_word_def stored_word_def bank_byte_def)
      have sel: "stored_word g b (unat a) = nvm_content h a"
        using b False by (cases "b = 0") (simp_all add: nvm_content_def stored_word_def bank_byte_def bank_addr_def f g(3) h1(3))
      have "wp (e1000_read_flash_word_ich8lan ?off 0) (\<lambda>(r, v) g'. words_inv g' \<and> nvm_content g' = nvm_content h \<and>
          flash_mem g' = flash_mem h \<and> (r = 0 \<longrightarrow> v = nvm_content h a)) g"
      proof (rule wp_mono [OF wp_read_flash_word [of g code]], goal_cases)
        case (3 x g')
        then show ?case using words_inv_same [OF inv(1), of g'] inv(2) word sel g(3) h1(3) by auto
      qed (use part f g in auto)
      with False show ?thesis
        by (auto simp: wp f Let_def elim!: wp_mono)
    qed
  qed
  have "wp (e1000_read_nvm_ich8lan ich8_lock_ops a 1 [0]) (\<lambda>(r, d) g. words_inv g \<and> nvm_content g = nvm_content h \<and>
    flash_mem g = flash_mem h \<and> (r = 0 \<longrightarrow> d ! 0 = nvm_content h a)) h"
    unfolding e1000_read_nvm_ich8lan_def ich8_lock_ops_def e1000_acquire_nvm_ich8lan_def
      e1000_release_nvm_ich8lan_def wp Let_def nvm_lock_ops.simps
  proof (simp only: False simp_thms, rule wp_mono [OF wp_words_bank [OF h1(1)]], goal_cases)
    case (1 b g)
    then have l: "wp (read_shadow_loop a ((if b \<noteq> 0 then flash_bank_size (nvm h) else 0) + ucast a) 0 1 [0])
      (\<lambda>(r, d) g'. words_inv g' \<and> nvm_content g' = nvm_content h \<and> flash_mem g' = flash_mem h \<and>
      (r = 0 \<longrightarrow> d ! 0 = nvm_content h a)) g"
      by (intro loop) auto
    have one: "unat (1 :: u16) = 1" by simp
    show ?case
      unfolding one by (rule wp_mono [OF l]) (auto dest: words_log [of _ MutexUnlock])
  qed
  then show ?thesis
    by (auto simp: read_nvm_word_def e1000_read_nvm_def ich8_access_ops_def wp elim!: wp_mono)
qed

lemma words_write:
  assumes "words_inv h" and "run_state (e1000_write_nvm ich8_access_ops a 1 [v]) h = (r, g)"
  shows "words_inv g \<and> (r = 0 \<longrightarrow> nvm_content g = (nvm_content h)(a := v))"
proof (cases "nvm_bad_range (word_size (nvm h)) a 1")
  case True
  with assms show ?thesis
    by (auto simp: e1000_write_nvm_def ich8_access_ops_def e1000_write_nvm_ich8lan_def)
next
  case False
  have a: "unat a < 2048" using False assms(1) read_range [of h a] by (simp add: words_inv_def)
  have one: "unat (1 :: u16) = Suc 0" by simp
  let ?h1 = "log_event MutexLock h"
  let ?h2 = "?h1\<lparr>shadow_ram := (shadow_ram h)[unat a := \<lparr>sr_value = v, sr_modified = True\<rparr>]\<rparr>"
  have g: "r = 0" "g = log_event MutexUnlock ?h2"
    using assms(2) run_write_shadow [OF False, of "[v]"]
    unfolding e1000_write_nvm_def ich8_access_ops_def nvm_access_ops.simps one write_shadow_loop.simps by simp_all
  have l: "words_inv ?h1" "nvm_content ?h1 = nvm_content h" using words_log [OF assms(1), of MutexLock] by simp_all
  have 2: "words_inv ?h2"
    using l(1) by (simp add: words_inv_def idle_flash_def flash_state_def flash_mem_def)
  have "nvm_content ?h2 x = ((nvm_content ?h1)(a := v)) x" for x
  proof -
    have "unat a = unat x \<longleftrightarrow> a = x" "length (shadow_ram h) = 2048"
      using assms(1) by (simp_all add: word_unat_eq_iff words_inv_def)
    then show ?thesis
      using a by (simp add: nvm_content_def stored_word_def flash_mem_def Let_def nth_list_update)
  qed
  then have "nvm_content ?h2 = (nvm_content h)(a := v)" using l(2) by auto
  with 2 g words_log [OF 2, of MutexUnlock] show ?thesis by simp
qed

text \<open>The routines of \<open>nvm.c\<close> over the operations of these parts.\<close>

interpretation ich8: nvm_words ich8_access_ops words_inv nvm_content
proof
  fix h a r v h'
  assume "words_inv h" and "run_state (read_nvm_word ich8_access_ops a) h = ((r, v), h')"
  from wpD [OF wp_words_read [OF this(1)] this(2)]
  show "words_inv h' \<and> nvm_content h' = nvm_content h \<and> (r = 0 \<longrightarrow> v = nvm_content h a)" by simp
qed (rule words_write)

text \<open>
  C26: on an ICH part the update of the checksum, written in \<open>nvm.c\<close> over the function
  pointers, leaves a content whose first 64 words sum to \<open>NVM_SUM\<close> and changes no word but
  the checksum word.
\<close>

theorem ich8_checksum_updated:
  assumes "words_inv h" and "run_state (e1000e_update_nvm_checksum_generic ich8_access_ops) h = (r, h')"
  shows "words_inv h' \<and> (r = 0 \<longrightarrow> nvm_sum (nvm_content h') 64 = NVM_SUM \<and>
    (\<forall>a. a \<noteq> NVM_CHECKSUM_REG \<longrightarrow> nvm_content h' a = nvm_content h a))"
  using assms by (rule ich8.checksum_updated)


lemma commit_hw_words: "words_inv commit_hw"
proof -
  have "selected_bank sample_nvm (flash_mem commit_hw) = 0" using commit_hw_bank by (simp add: selected_bank_def)
  moreover have "shadow_ram commit_hw = shadow_ram (sample_hw commit_chip)" by (simp add: commit_hw_def)
  ultimately show ?thesis
    using commit_chip_part commit_layout commit_idle
    by (auto simp: words_inv_def signature_mac_def sample_nvm_def less_mac_kind_def)
qed

theorem ich8_checksum_updated_witness:
  "let (r, h') = run_state (e1000e_update_nvm_checksum_generic ich8_access_ops) commit_hw in
    words_inv h' \<and> (r = 0 \<longrightarrow> nvm_sum (nvm_content h') 64 = NVM_SUM)"
  using ich8_checksum_updated [OF commit_hw_words] by (auto simp: case_prod_beta prod_eq_iff)


section \<open>A pending write that a read does not see\<close>

text \<open>
  In a pair of words, the routine for SPT tests the flag of the first word for both of them.
\<close>

lemma spt_pair_stale:
  assumes "\<not> sr_modified (shadow_ram h ! (unat offset + i))" and "i + 1 < length data"
  shows "let ((r, d), _) = run_state (read_spt_pair offset act_offset i data) h;
      ((r', dword), _) = run_state (e1000_read_flash_dword_ich8lan (ucast (ucast (act_offset + of_nat i) :: u16)) 0) h
    in r = r' \<and> (r = 0 \<longrightarrow> d ! (i + 1) = ucast (drop_bit 16 dword AND 0xFFFF))"
  using assms by (simp add: read_spt_pair_def Let_def case_prod_beta)

lemma spt_pair_stale_witness:
  "let h = (sample_hw (ram_device (\<lambda>r. 0)))\<lparr>shadow_ram :=
        [\<lparr>sr_value = 0xFFFF, sr_modified = False\<rparr>, \<lparr>sr_value = 0x1234, sr_modified = True\<rparr>]\<rparr>;
      ((r, d), _) = run_state (read_spt_pair 0 0 0 [0, 0]) h;
      ((r', dword), _) = run_state (e1000_read_flash_dword_ich8lan 0 0) h
    in r = r' \<and> (r = 0 \<longrightarrow> d ! 1 = ucast (drop_bit 16 dword AND 0xFFFF))"
  using spt_pair_stale [of "(sample_hw (ram_device (\<lambda>r. 0)))\<lparr>shadow_ram :=
        [\<lparr>sr_value = 0xFFFF, sr_modified = False\<rparr>, \<lparr>sr_value = 0x1234, sr_modified = True\<rparr>]\<rparr>" 0 0 "[0, 0]" 0]
  by (simp add: Let_def case_prod_beta)

section \<open>An erase that fails\<close>

text \<open>Every cycle of the part ends at once, with the error flag.\<close>

definition always_failing :: "device \<Rightarrow> bool" where
  "always_failing d \<longleftrightarrow> (\<forall>t. let v = dev_flash_readw d t ICH_FLASH_HSFSTS in
     fldesvalid v \<and> flcdone v \<and> flcerr v \<and> \<not> flcinprog v)"

lemma failing_status:
  assumes "always_failing (dev h)"
  shows "fldesvalid (frdw ICH_FLASH_HSFSTS h)" "flcdone (frdw ICH_FLASH_HSFSTS h)"
    "flcerr (frdw ICH_FLASH_HSFSTS h)" "\<not> flcinprog (frdw ICH_FLASH_HSFSTS h)"
  using assms by (simp_all add: always_failing_def frdw_def Let_def)

lemma failing_init:
  assumes "always_failing (dev h)"
  shows "wp e1000_flash_cycle_init_ich8lan (succeeds h) h"
proof -
  let ?v = "frdw ICH_FLASH_HSFSTS h"
  have keep: "flcinprog (set_dael (set_flcerr ?v)) = flcinprog ?v"
    by (simp add: flcinprog_def set_dael_def set_flcerr_def bit_or_iff)
  show ?thesis
    unfolding e1000_flash_cycle_init_ich8lan_def wp_bind wp_access wp_if wp_return Let_def keep
    by (simp add: failing_status [OF assms], rule wp_mono [OF ready_hsf(1)], rule wp_mono [OF ready_hsf(1)])
      (auto simp: succeeds_def intro: same_hw_trans)
qed

lemma failing_cycle:
  assumes "always_failing (dev h)"
  shows "wp (e1000_flash_cycle_ich8lan n) (\<lambda>r h'. r \<noteq> 0 \<and> same_hw h h') h"
  unfolding e1000_flash_cycle_ich8lan_def wp
proof (rule wp_mono [OF ready_hsf(3)], rule wp_mono [OF ready_hsf(2)], goal_cases)
  case (1 v h1 u h2)
  then have s: "same_hw h h2" by (auto intro: same_hw_trans)
  then have r: "always_failing (dev h2)" using assms by (simp add: same_hw_fields)
  show ?case
    unfolding poll.simps wp using failing_status [OF r] s by simp
qed

lemma failing_sector:
  assumes "always_failing (dev h)"
  shows "wp (erase_sector j sector_size addr count) (\<lambda>(stop, _) h'. stop = None \<and> same_hw h h') h"
  using assms
proof (induction "10 - count" arbitrary: count addr h rule: less_induct)
  case less
  let ?Q = "\<lambda>(stop, _) h'. stop = None \<and> same_hw h h'"
  have tail: "wp (e1000_flash_cycle_ich8lan n) (\<lambda>r h'. r \<noteq> 0 \<and> wp flash_cycle_again (\<lambda>again g.
      again \<and> same_hw h g) h') g" if "same_hw h g" for n g
  proof (rule wp_mono [OF failing_cycle], goal_cases)
    case (2 r h')
    then have s: "same_hw h h'" using that by (auto intro: same_hw_trans)
    then have "always_failing (dev h')" using less.prems by (simp add: same_hw_fields)
    from failing_status [OF this] s 2 show ?case by (simp add: flash_cycle_again_def wp)
  qed (use less.prems that in \<open>simp add: same_hw_fields\<close>)
  have IH: "wp (erase_sector j sector_size a (count + 1)) ?Q g" if "same_hw h g" "count + 1 < 10" for a g
  proof -
    have "always_failing (dev g)" using less.prems that(1) by (simp add: same_hw_fields)
    from less.hyps [OF _ this, of "count + 1"] that(2)
    have "wp (erase_sector j sector_size a (count + 1)) (\<lambda>(stop, _) h'. stop = None \<and> same_hw g h') g" by simp
    then show ?thesis by (rule wp_mono) (use that(1) in \<open>auto intro: same_hw_trans\<close>)
  qed
  show ?case
    unfolding erase_sector.simps [of j sector_size addr count] wp
  proof (rule wp_mono [OF failing_init [OF less.prems]], goal_cases)
    case (1 r h1)
    then have s: "same_hw h h1" "r = 0" by (simp_all add: succeeds_def)
    have "wp read_hsfctl (\<lambda>v. wp (write_hsfctl (set_flcycle ICH_CYCLE_ERASE v)) (\<lambda>_ g.
        wp (e1000_flash_cycle_ich8lan ICH_FLASH_ERASE_COMMAND_TIMEOUT) (\<lambda>r h'. r \<noteq> 0 \<and>
          wp flash_cycle_again (\<lambda>again g. again \<and> same_hw h g) h')
         (log_event (FlashWriteL ICH_FLASH_FADDR (addr + of_nat j * sector_size)) g))) h1"
    proof (rule wp_mono [OF ready_hsf(3)], rule wp_mono [OF ready_hsf(2)], goal_cases)
      case (1 v h2 u h3)
      then have "same_hw h h3" using s(1) by (auto intro: same_hw_trans)
      then show ?case by (intro tail) simp
    qed
    then show ?case
      using s by (simp add: Let_def wp) (auto elim!: wp_mono intro: IH [simplified])
  qed
qed

text \<open>
  The erase of a bank returns success when every cycle of it ends with the error flag: the
  retries are exhausted and the last error is not reported.
\<close>

theorem erase_failure_hidden:
  assumes "always_failing (dev h)"
  shows "fst (run_state (e1000_erase_flash_bank_ich8lan bank) h) = 0"
proof -
  have sectors: "wp (erase_sectors j n size addr count) (\<lambda>r _. r = 0) g" if "always_failing (dev g)"
    for j n size addr count g
    using that
  proof (induction n arbitrary: j addr count g)
    case (Suc n)
    show ?case
      unfolding erase_sectors.simps wp
    proof (rule wp_mono [OF failing_sector [OF Suc.prems]], goal_cases)
      case (1 x g1)
      then have "fst x = None" "always_failing (dev g1)" using Suc.prems by (auto simp: same_hw_fields)
      then show ?case using Suc.IH by (simp add: case_prod_beta)
    qed
  qed (simp add: wp)
  have "wp (e1000_erase_flash_bank_ich8lan bank) (\<lambda>r _. r = 0) h"
    unfolding e1000_erase_flash_bank_ich8lan_def wp Let_def
    by (rule sectors) (use assms in simp)
  then show ?thesis by (simp add: wp_def)
qed

text \<open>Such a part: valid descriptor, done and error set, 4096-byte sectors.\<close>

theorem erase_failure_hidden_witness:
  "fst (run_state (e1000_erase_flash_bank_ich8lan 1)
     (sample_hw ((ram_device (\<lambda>r. 0))\<lparr>dev_flash_readw := (\<lambda>t r. 0x400B)\<rparr>))) = 0"
proof -
  have "always_failing ((ram_device (\<lambda>r. 0))\<lparr>dev_flash_readw := (\<lambda>t r. 0x400B)\<rparr>)"
    by (simp add: always_failing_def fldesvalid_def flcdone_def flcerr_def flcinprog_def)
  then show ?thesis by (intro erase_failure_hidden) simp
qed

section \<open>Where an erase goes\<close>

text \<open>The flash addresses a trace selects, newest first.\<close>

fun flash_addrs :: "event list \<Rightarrow> u32 list" where
  "flash_addrs [] = []"
| "flash_addrs (e # t) =
     (case e of FlashWriteL r v \<Rightarrow> if r = ICH_FLASH_FADDR then v # flash_addrs t else flash_addrs t
      | _ \<Rightarrow> flash_addrs t)"

definition selects :: "u32 list \<Rightarrow> hw \<Rightarrow> hw \<Rightarrow> bool" where
  "selects as h h' \<longleftrightarrow> same_hw h h' \<and> flash_addrs (trace h') = as @ flash_addrs (trace h)"

lemma selects_trans: "selects as h1 h2 \<Longrightarrow> selects bs h2 h3 \<Longrightarrow> selects (bs @ as) h1 h3"
  by (auto simp: selects_def intro: same_hw_trans)

lemma selects_ready: "selects as h h' \<Longrightarrow> always_ready (dev h) \<Longrightarrow> always_ready (dev h')"
  by (auto simp: selects_def dest: same_hw_fields)

lemma selects_hsf:
  "wp (write_hsfsts v) (\<lambda>_ h'. selects [] h h') h" "wp (write_hsfctl c) (\<lambda>_ h'. selects [] h h') h"
  "wp read_hsfctl (\<lambda>_ h'. selects [] h h') h"
  unfolding write_hsfsts_def write_hsfctl_def read_hsfctl_def wp by (simp_all add: selects_def)

lemma selects_init:
  assumes "always_ready (dev h)"
  shows "wp e1000_flash_cycle_init_ich8lan (\<lambda>r h'. r = 0 \<and> selects [] h h') h"
proof -
  let ?v = "frdw ICH_FLASH_HSFSTS h"
  have keep: "flcinprog (set_dael (set_flcerr ?v)) = flcinprog ?v"
    by (simp add: flcinprog_def set_dael_def set_flcerr_def bit_or_iff)
  show ?thesis
    unfolding e1000_flash_cycle_init_ich8lan_def wp_bind wp_access wp_if wp_return Let_def keep
    by (simp add: readyD [OF assms], rule wp_mono [OF selects_hsf(1)], rule wp_mono [OF selects_hsf(1)])
      (auto simp: selects_def intro: same_hw_trans)
qed

lemma selects_cycle:
  assumes "always_ready (dev h)"
  shows "wp (e1000_flash_cycle_ich8lan n) (\<lambda>r h'. r = 0 \<and> selects [] h h') h"
  unfolding e1000_flash_cycle_ich8lan_def wp
proof (rule wp_mono [OF selects_hsf(3)], rule wp_mono [OF selects_hsf(2)], goal_cases)
  case (1 v h1 u h2)
  then have s: "selects [] h h2" by (auto dest: selects_trans)
  from selects_ready [OF s assms] have r: "always_ready (dev h2)" .
  show ?case
    unfolding poll.simps wp using readyD [OF r] s by (simp add: selects_def)
qed

lemma selects_sector:
  assumes "always_ready (dev h)"
  shows "wp (erase_sector j sector addr count) (\<lambda>(stop, addr', count') h'. stop = None \<and> count' = count \<and>
    addr' = addr + of_nat j * sector \<and> selects [addr + of_nat j * sector] h h') h"
  unfolding erase_sector.simps [of j sector addr count] wp
proof (rule wp_mono [OF selects_init [OF assms]], goal_cases)
  case (1 r h1)
  let ?a = "addr + of_nat j * sector"
  have "wp read_hsfctl (\<lambda>v. wp (write_hsfctl (set_flcycle ICH_CYCLE_ERASE v)) (\<lambda>_ g.
      wp (e1000_flash_cycle_ich8lan ICH_FLASH_ERASE_COMMAND_TIMEOUT) (\<lambda>r h'. r = 0 \<and> selects [?a] h h')
       (log_event (FlashWriteL ICH_FLASH_FADDR ?a) g))) h1"
  proof (rule wp_mono [OF selects_hsf(3)], rule wp_mono [OF selects_hsf(2)], goal_cases)
    case (1 v h2 u h3)
    then have "selects [?a] h (log_event (FlashWriteL ICH_FLASH_FADDR ?a) h3)"
      using \<open>r = 0 \<and> selects [] h h1\<close> by (auto simp: selects_def intro: same_hw_trans)
    moreover from selects_ready [OF this assms]
    have "always_ready (dev (log_event (FlashWriteL ICH_FLASH_FADDR ?a) h3))" .
    ultimately show ?case
      by (intro wp_mono [OF selects_cycle]) (auto dest: selects_trans)
  qed
  with 1 show ?case by (simp add: Let_def wp) (auto elim!: wp_mono)
qed

text \<open>The distance of the \<open>k\<close>-th address from the first: \<open>j + (j + 1) + \<dots>\<close> sectors.\<close>

fun erase_offset :: "nat \<Rightarrow> nat \<Rightarrow> nat" where
  "erase_offset j 0 = j"
| "erase_offset j (Suc k) = j + erase_offset (Suc j) k"

lemma erase_offset_triangle: "2 * erase_offset j k = 2 * j * (k + 1) + k * (k + 1)"
proof (induction k arbitrary: j)
  case (Suc k)
  from Suc [of "Suc j"] show ?case by (simp add: algebra_simps)
qed simp

lemma selects_sectors:
  assumes "always_ready (dev h)"
  shows "wp (erase_sectors j n sector addr count) (\<lambda>r h'. r = 0 \<and>
    selects (rev (map (\<lambda>k. addr + of_nat (erase_offset j k) * sector) [0 ..< n])) h h') h"
  using assms
proof (induction n arbitrary: j addr count h)
  case (Suc n)
  let ?a = "addr + of_nat j * sector"
  have list: "map (\<lambda>k. addr + of_nat (erase_offset j k) * sector) [0 ..< Suc n] =
      ?a # map (\<lambda>k. ?a + of_nat (erase_offset (Suc j) k) * sector) [0 ..< n]"
    by (simp add: upt_conv_Cons map_Suc_upt [symmetric] algebra_simps del: upt_Suc)
  show ?case
    unfolding erase_sectors.simps wp list
  proof (rule wp_mono [OF selects_sector [OF Suc.prems]], goal_cases)
    case (1 x g)
    then have g: "x = (None, ?a, count)" "selects [?a] h g" by (auto simp: case_prod_beta prod_eq_iff)
    have "wp (erase_sectors (Suc j) n sector ?a count) (\<lambda>r h'. r = 0 \<and> selects (rev (map (\<lambda>k. addr +
      of_nat (erase_offset j k) * sector) [0 ..< Suc n])) h h') g"
      by (rule wp_mono [OF Suc.IH [OF selects_ready [OF g(2) Suc.prems]]])
        (use list in \<open>auto dest: selects_trans [OF g(2)]\<close>)
    then show ?case unfolding g(1) list by (simp add: wp)
  qed
qed (simp add: wp selects_def)

text \<open>
  The erase of bank 0 with 256 byte sectors selects the addresses 0, 1, 3, 6, 10, \<dots> sectors
  from the start of the bank, not the consecutive ones: the address accumulates a distance that
  itself grows.
\<close>

theorem erase_addresses:
  assumes "always_ready (dev h)" and "berasesz (frdw ICH_FLASH_HSFSTS h) = 0"
  shows "let h' = snd (run_state (e1000_erase_flash_bank_ich8lan 0) h) in
    flash_addrs (trace h') = rev (map (\<lambda>k. flash_base_addr (nvm h) + of_nat (k * (k + 1) div 2) * 256)
        [0 ..< unat (flash_bank_size (nvm h) * 2 div 256)]) @ flash_addrs (trace h)"
proof -
  have off: "erase_offset 0 k = k * (k + 1) div 2" for k using erase_offset_triangle [of 0 k] by simp
  have "wp (e1000_erase_flash_bank_ich8lan 0) (\<lambda>r h'. selects
    (rev (map (\<lambda>k. flash_base_addr (nvm h) + of_nat (erase_offset 0 k) * 256)
        [0 ..< unat (flash_bank_size (nvm h) * 2 div 256)])) h h') h"
    unfolding e1000_erase_flash_bank_ich8lan_def wp Let_def assms(2)
    by (simp add: erase_geometry_def, rule wp_mono [OF selects_sectors])
      (use assms(1) in \<open>auto simp: selects_def\<close>)
  then show ?thesis unfolding off by (simp add: wp_def selects_def Let_def)
qed

definition erase_hw :: hw where
  "erase_hw = hw.nvm_update (\<lambda>n. n\<lparr>flash_bank_size := 0x200\<rparr>) (sample_hw (flash_chip 0 (\<lambda>a. 0xFF)))"

theorem erase_addresses_witness:
  "let h' = snd (run_state (e1000_erase_flash_bank_ich8lan 0)
 erase_hw) in
    flash_addrs (trace h') = [0x600, 0x300, 0x100, 0]"
proof -
  let ?h = "erase_hw"
  have "always_ready (dev ?h)" "berasesz (frdw ICH_FLASH_HSFSTS ?h) = 0"
    using chip_status [of 0] by (simp_all add: erase_hw_def always_ready_def flash_chip_def frdw_def)
  from erase_addresses [OF this] show ?thesis by (simp add: erase_hw_def sample_nvm_def Let_def upt_rec)
qed

end
