(* ===== verification/Net_Regs.thy ===== *)
theory Net_Regs
  imports Regs
begin

text \<open>
  The constants of the data path: bits of the transmit and receive descriptors, the registers of
  the descriptor rings and of interrupt moderation, limits of rings and buffers.
\<close>

subsection \<open>Transmit descriptors, defines.h\<close>

abbreviation (input) E1000_TXD_DTYP_D :: u32 where
  "E1000_TXD_DTYP_D \<equiv> 0x00100000"

abbreviation (input) E1000_TXD_POPTS_IXSM :: u32 where
  "E1000_TXD_POPTS_IXSM \<equiv> 0x01"

abbreviation (input) E1000_TXD_POPTS_TXSM :: u32 where
  "E1000_TXD_POPTS_TXSM \<equiv> 0x02"

abbreviation (input) E1000_TXD_CMD_EOP :: u32 where
  "E1000_TXD_CMD_EOP \<equiv> 0x01000000"

abbreviation (input) E1000_TXD_CMD_IFCS :: u32 where
  "E1000_TXD_CMD_IFCS \<equiv> 0x02000000"

abbreviation (input) E1000_TXD_CMD_RS :: u32 where
  "E1000_TXD_CMD_RS \<equiv> 0x08000000"

abbreviation (input) E1000_TXD_CMD_DEXT :: u32 where
  "E1000_TXD_CMD_DEXT \<equiv> 0x20000000"

abbreviation (input) E1000_TXD_CMD_VLE :: u32 where
  "E1000_TXD_CMD_VLE \<equiv> 0x40000000"

abbreviation (input) E1000_TXD_CMD_IDE :: u32 where
  "E1000_TXD_CMD_IDE \<equiv> 0x80000000"

abbreviation (input) E1000_TXD_STAT_DD :: u32 where
  "E1000_TXD_STAT_DD \<equiv> 0x00000001"

abbreviation (input) E1000_TXD_CMD_TCP :: u32 where
  "E1000_TXD_CMD_TCP \<equiv> 0x01000000"

abbreviation (input) E1000_TXD_CMD_IP :: u32 where
  "E1000_TXD_CMD_IP \<equiv> 0x02000000"

abbreviation (input) E1000_TXD_CMD_TSE :: u32 where
  "E1000_TXD_CMD_TSE \<equiv> 0x04000000"

abbreviation (input) E1000_TXD_EXTCMD_TSTAMP :: u32 where
  "E1000_TXD_EXTCMD_TSTAMP \<equiv> 0x00000010"

abbreviation (input) E1000_TCTL_EN :: u32 where
  "E1000_TCTL_EN \<equiv> 0x00000002"

abbreviation (input) E1000_STATUS_TXOFF :: u32 where
  "E1000_STATUS_TXOFF \<equiv> 0x00000010"

abbreviation (input) E1000_RCTL_EN :: u32 where
  "E1000_RCTL_EN \<equiv> 0x00000002"

subsection \<open>Flags of a transmission, netdev.c\<close>

abbreviation (input) E1000_TX_FLAGS_CSUM :: u32 where
  "E1000_TX_FLAGS_CSUM \<equiv> 0x00000001"

abbreviation (input) E1000_TX_FLAGS_VLAN :: u32 where
  "E1000_TX_FLAGS_VLAN \<equiv> 0x00000002"

abbreviation (input) E1000_TX_FLAGS_TSO :: u32 where
  "E1000_TX_FLAGS_TSO \<equiv> 0x00000004"

abbreviation (input) E1000_TX_FLAGS_IPV4 :: u32 where
  "E1000_TX_FLAGS_IPV4 \<equiv> 0x00000008"

abbreviation (input) E1000_TX_FLAGS_NO_FCS :: u32 where
  "E1000_TX_FLAGS_NO_FCS \<equiv> 0x00000010"

abbreviation (input) E1000_TX_FLAGS_HWTSTAMP :: u32 where
  "E1000_TX_FLAGS_HWTSTAMP \<equiv> 0x00000020"

abbreviation (input) E1000_TX_FLAGS_VLAN_MASK :: u32 where
  "E1000_TX_FLAGS_VLAN_MASK \<equiv> 0xffff0000"

subsection \<open>Counts, e1000.h and netdev.c\<close>

abbreviation (input) E1000_TX_FLAGS_VLAN_SHIFT :: nat where
  "E1000_TX_FLAGS_VLAN_SHIFT \<equiv> 16"

abbreviation (input) MINIMUM_DHCP_PACKET_SIZE :: nat where
  "MINIMUM_DHCP_PACKET_SIZE \<equiv> 282"

abbreviation (input) TX_WAKE_THRESHOLD :: nat where
  "TX_WAKE_THRESHOLD \<equiv> 32"

abbreviation (input) E1000_MAX_TXD :: nat where
  "E1000_MAX_TXD \<equiv> 4096"

abbreviation (input) E1000_MIN_TXD :: nat where
  "E1000_MIN_TXD \<equiv> 64"

abbreviation (input) E1000_MAX_RXD :: nat where
  "E1000_MAX_RXD \<equiv> 4096"

abbreviation (input) E1000_MIN_RXD :: nat where
  "E1000_MIN_RXD \<equiv> 64"

abbreviation (input) E1000_RX_BUFFER_WRITE :: nat where
  "E1000_RX_BUFFER_WRITE \<equiv> 16"

subsection \<open>Management, manage.h\<close>

abbreviation (input) E1000_MNG_DHCP_COOKIE_STATUS_VLAN :: u8 where
  "E1000_MNG_DHCP_COOKIE_STATUS_VLAN \<equiv> 0x2"

subsection \<open>Registers of ring \<open>n\<close>, regs.h\<close>

definition E1000_TDH :: "u32 \<Rightarrow> u32" where
  "E1000_TDH n = (if n < 4 then 0x03810 + n * 0x100 else 0x0E010 + n * 0x40)"

definition E1000_TDT :: "u32 \<Rightarrow> u32" where
  "E1000_TDT n = (if n < 4 then 0x03818 + n * 0x100 else 0x0E018 + n * 0x40)"

definition E1000_RDH :: "u32 \<Rightarrow> u32" where
  "E1000_RDH n = (if n < 4 then 0x02810 + n * 0x100 else 0x0C010 + n * 0x40)"

definition E1000_RDT :: "u32 \<Rightarrow> u32" where
  "E1000_RDT n = (if n < 4 then 0x02818 + n * 0x100 else 0x0C018 + n * 0x40)"

text \<open>Constants of the kernel headers: Ethernet and IP protocol numbers.\<close>

abbreviation (input) ETH_P_IP :: u16 where "ETH_P_IP \<equiv> 0x0800"
abbreviation (input) ETH_P_IPV6 :: u16 where "ETH_P_IPV6 \<equiv> 0x86DD"
abbreviation (input) IPPROTO_TCP :: u8 where "IPPROTO_TCP \<equiv> 6"
abbreviation (input) IPPROTO_UDP :: u8 where "IPPROTO_UDP \<equiv> 17"

end
