(* ===== verification/Net_State.thy ===== *)
theory Net_State
  imports Manage Net_Regs
begin

text \<open>
  The state of the network interface in \<open>netdev.c\<close>: descriptor rings, the buffers that go
  with them, the members of \<open>struct e1000_adapter\<close> that the data path uses, packets, and the
  kernel the driver runs in. The kernel is not part of the driver: what its services return is an
  arbitrary function of everything they were asked before (\<open>os_trace\<close>, newest first).

  Indices into a ring and lengths are natural numbers; a value stored in a 16 bit member is
  reduced, so that a theorem about a ring has to show that nothing is lost.
\<close>

unbundle bit_operations_syntax

section \<open>Packets\<close>

text \<open>
  \<open>struct sk_buff\<close>, as far as the driver looks at it: \<open>skb_id\<close> is its address,
  \<open>skb_mem\<close> the bytes from \<open>skb->data\<close> on, \<open>skb_frags\<close> the sizes of its page
  fragments.
\<close>

record sk_buff =
  skb_id :: nat
  skb_len :: nat
  skb_data_len :: nat
  skb_mem :: "nat \<Rightarrow> u8"
  skb_frags :: "nat list"
  gso_size :: u16
  gso_segs :: u16
  gso_v6 :: bool
  csum_partial :: bool
  csum_start :: nat
  csum_offset :: nat
  skb_protocol :: u16
  network_offset :: nat
  transport_offset :: nat
  tcp_hdrlen :: nat
  vlan_tag :: "u16 option"
  no_fcs :: bool
  wants_tstamp :: bool
  xmit_more :: bool

definition skb_headlen :: "sk_buff \<Rightarrow> nat" where
  "skb_headlen skb = skb_len skb - skb_data_len skb"

definition DIV_ROUND_UP :: "nat \<Rightarrow> nat \<Rightarrow> nat" where
  "DIV_ROUND_UP n d = (n + d - 1) div d"

section \<open>Rings\<close>

text \<open>
  A descriptor is 16 bytes that the source reads and writes as one of several structures: a
  64 bit address and two dwords. The context descriptor overlays the address with the two dwords
  \<open>lower_setup\<close> and \<open>upper_setup\<close>.
\<close>

record e1000_tx_desc =
  desc_addr :: u64
  desc_lower :: u32
  desc_upper :: u32

record e1000_buffer =
  buf_dma :: u64
  buf_skb :: "sk_buff option"
  buf_time_stamp :: u64
  buf_length :: nat
  buf_next_to_watch :: nat
  buf_segs :: u32
  buf_bytecount :: u32
  buf_mapped_as_page :: bool

record e1000_ring =
  ring_desc :: "e1000_tx_desc list"
  ring_count :: nat
  next_to_use :: nat
  next_to_clean :: nat
  buffer_info :: "e1000_buffer list"

definition u16_of :: "nat \<Rightarrow> nat" where
  "u16_of n = n mod 2 ^ 16"

text \<open>The step \<^verbatim>\<open>i++; if (i == ring->count) i = 0;\<close>.\<close>

definition ring_next :: "nat \<Rightarrow> nat \<Rightarrow> nat" where
  "ring_next n i = (if i + 1 = n then 0 else i + 1)"

definition e1000_desc_unused :: "e1000_ring \<Rightarrow> int" where
  "e1000_desc_unused ring =
     (if next_to_clean ring > next_to_use ring
      then int (next_to_clean ring) - int (next_to_use ring) - 1
      else int (ring_count ring) + int (next_to_clean ring) - int (next_to_use ring) - 1)"

section \<open>The kernel\<close>

datatype dma_source = Head nat | Frag nat nat

datatype work = print_hang_task | tx_hwtstamp_work | reset_task

datatype os_event =
    DmaMap dma_source nat u64
  | DmaUnmapSingle u64 nat
  | DmaUnmapPage u64 nat
  | SkbFree nat
  | SkbGet nat
  | QueueStop
  | QueueStart
  | QueueWake
  | QueueReset
  | QueueSent nat
  | QueueCompleted u32 u32
  | WorkScheduled work

record kernel =
  k_dma_map :: "os_event list \<Rightarrow> dma_source \<Rightarrow> nat \<Rightarrow> u64"
  k_dma_error :: "u64 \<Rightarrow> bool"
  k_jiffies :: "os_event list \<Rightarrow> u64"
  k_put_padto :: "os_event list \<Rightarrow> sk_buff \<Rightarrow> nat \<Rightarrow> sk_buff option"
  k_pull_tail :: "os_event list \<Rightarrow> sk_buff \<Rightarrow> nat \<Rightarrow> sk_buff option"
  k_cow_head :: "os_event list \<Rightarrow> sk_buff \<Rightarrow> int"
  k_pseudo_sum :: "sk_buff \<Rightarrow> u16"
  k_xmit_stopped :: "os_event list \<Rightarrow> bool"
  k_max_skb_frags :: nat
  k_page_size :: nat
  k_hz :: u64

section \<open>The adapter\<close>

record net_adapter =
  tx_fifo_limit :: nat
  txd_cmd :: u32
  detect_tx_hung :: bool
  tx_hang_recheck :: bool
  tx_timeout_factor :: u8
  restart_queue :: u32
  total_tx_bytes :: u32
  total_tx_packets :: u32
  has_hw_timestamp :: bool
  tx_hwtstamp_skb :: "sk_buff option"
  tx_hwtstamp_start :: u64
  tx_hwtstamp_skipped :: u32

record net =
  adapter_hw :: hw
  tx_ring :: e1000_ring
  ad :: net_adapter
  down :: bool
  queue_stopped :: bool
  carrier_ok :: bool
  kernel_of :: kernel
  os_trace :: "os_event list"

type_synonym 'a net_io = "(net, 'a) state"

text \<open>Code that ends in a \<open>BUG_ON\<close> or never returns gives no value.\<close>

datatype halt = Bug | Endless

definition on_hw :: "'a io \<Rightarrow> 'a net_io" where
  "on_hw m = State (\<lambda>s. let (a, h) = run_state m (adapter_hw s) in (a, s\<lparr>adapter_hw := h\<rparr>))"

definition os :: "os_event \<Rightarrow> unit net_io" where
  "os e = modify (\<lambda>s. s\<lparr>os_trace := e # os_trace s\<rparr>)"

definition set_tx_ring :: "(e1000_ring \<Rightarrow> e1000_ring) \<Rightarrow> unit net_io" where
  "set_tx_ring f = modify (\<lambda>s. s\<lparr>tx_ring := f (tx_ring s)\<rparr>)"

definition set_ad :: "(net_adapter \<Rightarrow> net_adapter) \<Rightarrow> unit net_io" where
  "set_ad f = modify (\<lambda>s. s\<lparr>ad := f (ad s)\<rparr>)"

definition set_tx_buf :: "nat \<Rightarrow> (e1000_buffer \<Rightarrow> e1000_buffer) \<Rightarrow> unit net_io" where
  "set_tx_buf i f = set_tx_ring (\<lambda>r. r\<lparr>buffer_info := (buffer_info r)[i := f (buffer_info r ! i)]\<rparr>)"

definition set_tx_desc :: "nat \<Rightarrow> (e1000_tx_desc \<Rightarrow> e1000_tx_desc) \<Rightarrow> unit net_io" where
  "set_tx_desc i f = set_tx_ring (\<lambda>r. r\<lparr>ring_desc := (ring_desc r)[i := f (ring_desc r ! i)]\<rparr>)"

definition jiffies :: "u64 net_io" where
  "jiffies = gets (\<lambda>s. k_jiffies (kernel_of s) (os_trace s))"

definition dev_kfree_skb :: "sk_buff \<Rightarrow> unit net_io" where
  "dev_kfree_skb skb = os (SkbFree (skb_id skb))"

definition netif_stop_queue :: "unit net_io" where
  "netif_stop_queue = do { modify (\<lambda>s. s\<lparr>queue_stopped := True\<rparr>); os QueueStop }"

definition netif_start_queue :: "unit net_io" where
  "netif_start_queue = do { modify (\<lambda>s. s\<lparr>queue_stopped := False\<rparr>); os QueueStart }"

definition netif_wake_queue :: "unit net_io" where
  "netif_wake_queue = do { modify (\<lambda>s. s\<lparr>queue_stopped := False\<rparr>); os QueueWake }"

text \<open>A plain register write, without the workaround of \<open>ew32\<close>.\<close>

definition writel :: "u32 \<Rightarrow> u32 \<Rightarrow> unit net_io" where
  "writel v r = on_hw (modify (log_event (WriteL r v)))"

end
