(* ===== verification/Rx_Regs.thy ===== *)
theory Rx_Regs
  imports Net_Regs
begin

text \<open>
  The constants of the receive path, of interrupt moderation and of latency reporting.
\<close>

subsection \<open>Receive descriptors, defines.h\<close>

abbreviation (input) E1000_RXD_STAT_DD :: u32 where
  "E1000_RXD_STAT_DD \<equiv> 0x01"

abbreviation (input) E1000_RXD_STAT_EOP :: u32 where
  "E1000_RXD_STAT_EOP \<equiv> 0x02"

abbreviation (input) E1000_RXD_STAT_IXSM :: u32 where
  "E1000_RXD_STAT_IXSM \<equiv> 0x04"

abbreviation (input) E1000_RXD_STAT_VP :: u32 where
  "E1000_RXD_STAT_VP \<equiv> 0x08"

abbreviation (input) E1000_RXD_STAT_UDPCS :: u32 where
  "E1000_RXD_STAT_UDPCS \<equiv> 0x10"

abbreviation (input) E1000_RXD_STAT_TCPCS :: u32 where
  "E1000_RXD_STAT_TCPCS \<equiv> 0x20"

abbreviation (input) E1000_RXDEXT_STATERR_TST :: u32 where
  "E1000_RXDEXT_STATERR_TST \<equiv> 0x00000100"

abbreviation (input) E1000_RXDEXT_STATERR_CE :: u32 where
  "E1000_RXDEXT_STATERR_CE \<equiv> 0x01000000"

abbreviation (input) E1000_RXDEXT_STATERR_SE :: u32 where
  "E1000_RXDEXT_STATERR_SE \<equiv> 0x02000000"

abbreviation (input) E1000_RXDEXT_STATERR_SEQ :: u32 where
  "E1000_RXDEXT_STATERR_SEQ \<equiv> 0x04000000"

abbreviation (input) E1000_RXDEXT_STATERR_CXE :: u32 where
  "E1000_RXDEXT_STATERR_CXE \<equiv> 0x10000000"

abbreviation (input) E1000_RXDEXT_STATERR_RXE :: u32 where
  "E1000_RXDEXT_STATERR_RXE \<equiv> 0x80000000"

subsection \<open>Errors of a received packet, defines.h\<close>

abbreviation (input) E1000_RXD_ERR_TCPE :: u8 where
  "E1000_RXD_ERR_TCPE \<equiv> 0x20"

abbreviation (input) E1000_RXD_ERR_IPE :: u8 where
  "E1000_RXD_ERR_IPE \<equiv> 0x40"

subsection \<open>Registers of the receive path and of interrupts, regs.h\<close>

abbreviation (input) E1000_TSYNCRXCTL :: u32 where
  "E1000_TSYNCRXCTL \<equiv> 0x0B620"

abbreviation (input) E1000_RXSTMPL :: u32 where
  "E1000_RXSTMPL \<equiv> 0x0B624"

abbreviation (input) E1000_RXSTMPH :: u32 where
  "E1000_RXSTMPH \<equiv> 0x0B628"

abbreviation (input) E1000_LTRV :: u32 where
  "E1000_LTRV \<equiv> 0x000F8"

abbreviation (input) E1000_ITR :: u32 where
  "E1000_ITR \<equiv> 0x000C4"

abbreviation (input) E1000_IMS :: u32 where
  "E1000_IMS \<equiv> 0x000D0"

abbreviation (input) E1000_PBA :: u32 where
  "E1000_PBA \<equiv> 0x01000"

subsection \<open>Latency reporting, ich8lan.h\<close>

abbreviation (input) E1000_LTRV_SCALE_MAX :: u32 where
  "E1000_LTRV_SCALE_MAX \<equiv> 5"

abbreviation (input) E1000_LTRV_SEND :: u32 where
  "E1000_LTRV_SEND \<equiv> 0x40000000"

abbreviation (input) E1000_LTRV_REQ_SHIFT :: u32 where
  "E1000_LTRV_REQ_SHIFT \<equiv> 15"

abbreviation (input) E1000_LTRV_NOSNOOP_SHIFT :: u32 where
  "E1000_LTRV_NOSNOOP_SHIFT \<equiv> 16"

abbreviation (input) E1000_TSYNCRXCTL_VALID :: u32 where
  "E1000_TSYNCRXCTL_VALID \<equiv> 0x00000001"

abbreviation (input) E1000_PBA_RXA_MASK :: u32 where
  "E1000_PBA_RXA_MASK \<equiv> 0xFFFF"

abbreviation (input) E1000_PCI_LTR_CAP_LPT :: u32 where
  "E1000_PCI_LTR_CAP_LPT \<equiv> 0xA8"

subsection \<open>Parts that demote the latency, hw.h\<close>

abbreviation (input) E1000_DEV_ID_PCH_I218_LM3 :: u16 where
  "E1000_DEV_ID_PCH_I218_LM3 \<equiv> 0x15A2"

abbreviation (input) E1000_DEV_ID_PCH_I218_V3 :: u16 where
  "E1000_DEV_ID_PCH_I218_V3 \<equiv> 0x15A3"


end
