(* ===== verification/Ich8_Ltr.thy ===== *)
theory Ich8_Ltr
  imports Bus Rx_Regs
begin

text \<open>
  Latency tolerance reporting of the Lynx Point and later parts, \<open>ich8lan.c\<close>: how much latency
  the receive buffer tolerates at the speed of the link, its encoding as a scale and a value, and
  the switch between the latency of the device and the one of the platform.

  The members \<open>lat_enc\<close> and \<open>max_ltr_enc\<close> of \<open>dev_spec.ich8lan\<close> are passed and
  returned; the device id, \<open>max_frame_size\<close> and the operation \<open>get_link_up_info\<close> are
  arguments.
\<close>

unbundle bit_operations_syntax

abbreviation (input) PCI_LTR_VALUE_MASK :: nat where "PCI_LTR_VALUE_MASK \<equiv> 0x3FF"
abbreviation (input) PCI_LTR_SCALE_SHIFT :: nat where "PCI_LTR_SCALE_SHIFT \<equiv> 10"

record ltr_state =
  lat_enc :: u16
  max_ltr_enc :: u16

text \<open>The loop that finds the scale: round up by a factor of 32 until the value fits 10 bits.\<close>

function ltr_scale :: "nat \<Rightarrow> nat \<Rightarrow> nat \<times> nat" where
  "ltr_scale value scale =
     (if value > PCI_LTR_VALUE_MASK then ltr_scale ((value + 31) div 32) (scale + 1) else (value, scale))"
  by pat_completeness auto
termination by (relation "measure fst") auto

declare ltr_scale.simps [simp del]

definition ltr_value :: "u32 \<Rightarrow> u32 \<Rightarrow> u16 \<Rightarrow> u32" where
  "ltr_value rxa max_frame_size speed =
     (if rxa > max_frame_size then (rxa - max_frame_size) * of_nat (16000 div unat speed) else 0)"

definition ltr_encode :: "nat \<times> nat \<Rightarrow> u16" where
  "ltr_encode vs = of_nat (push_bit PCI_LTR_SCALE_SHIFT (snd vs)) OR of_nat (fst vs)"

definition demotes_ltr :: "u16 \<Rightarrow> mac_kind \<Rightarrow> bool" where
  "demotes_ltr device_id m \<longleftrightarrow>
     device_id = E1000_DEV_ID_PCH_I218_LM3 \<or> device_id = E1000_DEV_ID_PCH_I218_V3 \<or>
     mac_index m \<ge> mac_index e1000_pch_spt"

definition ltr_request :: "bool \<Rightarrow> u32" where
  "ltr_request link =
     (let l = (if link then 1 else 0) in
      push_bit (unat (E1000_LTRV_REQ_SHIFT + E1000_LTRV_NOSNOOP_SHIFT)) l OR
      push_bit (unat E1000_LTRV_REQ_SHIFT) l OR E1000_LTRV_SEND)"

definition ltr_both :: "u16 \<Rightarrow> u32" where
  "ltr_both lat = ucast lat OR push_bit (unat E1000_LTRV_NOSNOOP_SHIFT) (ucast lat)"

text \<open>The part of \<open>e1000_platform_pm_pch_lpt\<close> for a link that is up.\<close>

definition ltr_of_link ::
    "(s32 \<times> u16 \<times> u16) io \<Rightarrow> u16 \<Rightarrow> u32 \<Rightarrow> ltr_state \<Rightarrow> (s32 + u16 \<times> ltr_state) io" where
  "ltr_of_link get_link_up_info device_id max_frame_size lt =
     (if max_frame_size = 0 then return (Inl (- E1000_ERR_CONFIG))
      else do {
        (_, speed, _) \<leftarrow> get_link_up_info;
        if speed = 0 then return (Inl (- E1000_ERR_CONFIG))
        else do {
          pba \<leftarrow> er32 E1000_PBA;
          let rxa = (pba AND E1000_PBA_RXA_MASK) * 512;
          let vs = ltr_scale (unat (ltr_value rxa max_frame_size speed)) 0;
          if snd vs > unat E1000_LTRV_SCALE_MAX then return (Inl (- E1000_ERR_CONFIG))
          else do {
            max_snoop \<leftarrow> pci_read_config_word E1000_PCI_LTR_CAP_LPT;
            max_nosnoop \<leftarrow> pci_read_config_word (E1000_PCI_LTR_CAP_LPT + 2);
            let max_enc = max max_snoop max_nosnoop;
            let lat = (if ltr_encode vs > max_enc then max_enc else ltr_encode vs);
            h \<leftarrow> get;
            return (Inr (if demotes_ltr device_id (mac_type (mac h)) then max_enc else lat,
              \<lparr>lat_enc = lat, max_ltr_enc = max_enc\<rparr>)) } } })"

definition e1000_platform_pm_pch_lpt ::
    "(s32 \<times> u16 \<times> u16) io \<Rightarrow> u16 \<Rightarrow> u32 \<Rightarrow> bool \<Rightarrow> ltr_state \<Rightarrow> (s32 \<times> ltr_state) io" where
  "e1000_platform_pm_pch_lpt get_link_up_info device_id max_frame_size link lt = do {
     r \<leftarrow> (if link then ltr_of_link get_link_up_info device_id max_frame_size lt else return (Inr (0, lt)));
     case r of
       Inl e \<Rightarrow> return (e, lt)
     | Inr (lat, lt) \<Rightarrow> do {
         ew32 E1000_LTRV (ltr_request link OR ltr_both lat);
         return (0, lt) } }"

definition e1000_demote_ltr :: "u16 \<Rightarrow> ltr_state \<Rightarrow> bool \<Rightarrow> bool \<Rightarrow> unit io" where
  "e1000_demote_ltr device_id lt demote link = do {
     h \<leftarrow> get;
     if \<not> demotes_ltr device_id (mac_type (mac h)) then return ()
     else ew32 E1000_LTRV (ltr_request link OR ltr_both (if demote then lat_enc lt else max_ltr_enc lt)) }"

section \<open>What the encoding means\<close>

text \<open>The latency in nanoseconds that an encoding stands for.\<close>

definition ltr_decode :: "u16 \<Rightarrow> nat" where
  "ltr_decode e = unat (e AND 0x3FF) * 32 ^ unat (drop_bit PCI_LTR_SCALE_SHIFT e AND 7)"

lemma wp_pci_read [wp]:
  "wp (pci_read_config_word r) Q =
     (\<lambda>h. Q (dev_pci_readw (dev h) (trace h) r) (log_event (PciReadW r (dev_pci_readw (dev h) (trace h) r)) h))"
  by (simp add: wp_def fun_eq_iff pci_read_config_word_def Let_def)

text \<open>Dividing with rounding up, again and again, rounds up once.\<close>

lemma ltr_scale_bounds:
  "ltr_scale v s = (v', s') \<Longrightarrow> v' \<le> PCI_LTR_VALUE_MASK \<and> s \<le> s' \<and> v \<le> v' * 32 ^ (s' - s) \<and>
     v' * 32 ^ (s' - s) < v + 32 ^ (s' - s) \<and> (s < s' \<longrightarrow> 32 \<le> v')"
proof (induction v s arbitrary: v' s' rule: ltr_scale.induct)
  case (1 v s)
  show ?case
  proof (cases "v > PCI_LTR_VALUE_MASK")
    case False
    then show ?thesis using "1.prems" by (simp add: ltr_scale.simps [of v s])
  next
    case True
    define m where "m = (v + 31) div 32"
    have m: "v \<le> 32 * m" "32 * m \<le> v + 31" "32 \<le> m"
      using True unfolding m_def by simp_all
    have r: "ltr_scale m (s + 1) = (v', s')"
      using "1.prems" True unfolding m_def by (simp add: ltr_scale.simps [of v s])
    note IH = "1.IH" [OF True r [unfolded m_def], folded m_def]
    define q where "q = (32 :: nat) ^ (s' - (s + 1))"
    have e: "s' - s = Suc (s' - (s + 1))" using IH by linarith
    have q: "32 ^ (s' - s) = 32 * q" unfolding e q_def power_Suc by (rule refl)
    have IHq: "m \<le> v' * q \<and> v' * q < m + q" using IH unfolding q_def by (simp only: simp_thms)
    have "32 \<le> v'"
    proof (cases "s + 1 < s'")
      case False
      then have "q = 1" unfolding q_def by simp
      then have "m \<le> v'" using IHq by simp
      then show ?thesis using m(3) by linarith
    qed (use IH in blast)
    moreover have "v' * (32 * q) = 32 * (v' * q)" by simp
    ultimately show ?thesis using IH IHq m unfolding q by linarith
  qed
qed

lemma take_bit_nat_eq_self: "x < 2 ^ n \<Longrightarrow> take_bit n x = (x :: nat)"
  by (simp add: take_bit_nat_eq_self_iff)

lemma ltr_decode_encode:
  assumes "x \<le> PCI_LTR_VALUE_MASK" "k \<le> 5"
  shows "ltr_decode (ltr_encode (x, k)) = x * 32 ^ k"
proof -
  define w where "w = (of_nat x :: u16)"
  define c where "c = (of_nat k :: u16)"
  have x: "take_bit 10 w = w"
    using assms(1) unfolding w_def by (simp add: take_bit_of_nat take_bit_nat_eq_self)
  have k: "take_bit 3 c = c"
    using assms(2) unfolding c_def by (simp add: take_bit_of_nat take_bit_nat_eq_self)
  have wk: "unat w = x" "unat c = k"
    unfolding w_def c_def using assms by (simp_all add: unat_of_nat take_bit_nat_eq_self_iff)
  have m: "(0x3FF :: u16) = mask 10" "(7 :: u16) = mask 3" by (simp_all add: mask_eq_exp_minus_1)
  have low: "(push_bit 10 c OR w) AND 0x3FF = w"
    unfolding m by (subst (2) x [symmetric])
      (rule bit_word_eqI, auto simp: bit_simps)
  have high: "drop_bit 10 (push_bit 10 c OR w) AND 7 = c"
    unfolding m by (subst (2) k [symmetric], subst x [symmetric])
      (rule bit_word_eqI, auto simp: bit_simps)
  have e: "ltr_encode (x, k) = push_bit 10 c OR w"
    unfolding ltr_encode_def fst_conv snd_conv w_def c_def by (simp only: push_bit_of_nat)
  show ?thesis unfolding e ltr_decode_def low high wk by (rule refl)
qed

text \<open>A 32 bit latency never needs a scale that the encoding does not have.\<close>

lemma ltr_scale_u32:
  assumes "ltr_scale v 0 = (x, k)" "v < 2 ^ 32"
  shows "k \<le> 5"
proof (rule ccontr)
  assume "\<not> k \<le> 5"
  then have k: "6 \<le> k" by simp
  note b = ltr_scale_bounds [OF assms(1), unfolded diff_zero]
  have "(32 :: nat) ^ 6 \<le> 32 ^ k" using k by (intro power_increasing) simp_all
  moreover have "32 * 32 ^ k \<le> x * 32 ^ k" using b k by (intro mult_right_mono) simp_all
  moreover have "x * 32 ^ k < v + 32 ^ k" using b by (elim conjE)
  moreover have "v < 4 * 32 ^ 6" using assms(2) by simp
  ultimately show False by linarith
qed

text \<open>
  C34: for every latency the receive buffer can give, the scale found by the loop is one of the six
  that the encoding has (the error branch after the loop is never taken), and what is encoded is
  not less than the latency and at most one part in 31 more.
\<close>

theorem ltr_encoding_bounds:
  "snd (ltr_scale (unat v) 0) \<le> 5 \<and>
   unat (v :: u32) \<le> ltr_decode (ltr_encode (ltr_scale (unat v) 0)) \<and>
   31 * ltr_decode (ltr_encode (ltr_scale (unat v) 0)) \<le> 32 * unat v"
proof -
  obtain x k where r: "ltr_scale (unat v) 0 = (x, k)" by fastforce
  note b = ltr_scale_bounds [OF r, unfolded diff_zero]
  have k: "k \<le> 5" by (rule ltr_scale_u32 [OF r]) (use unsigned_less [of v] in simp)
  have e: "ltr_decode (ltr_encode (x, k)) = x * 32 ^ k" using b k by (intro ltr_decode_encode) simp_all
  have "31 * (x * 32 ^ k) \<le> 32 * unat v"
  proof (cases "k = 0")
    case False
    then have "32 * 32 ^ k \<le> x * 32 ^ k" using b by (intro mult_right_mono) simp_all
    moreover have "x * 32 ^ k < unat v + 32 ^ k" using b by (elim conjE)
    ultimately show ?thesis by linarith
  qed (use b in simp)
  then show ?thesis using k b unfolding r e snd_conv by (elim conjE) (intro conjI)
qed

section \<open>The limit of the platform\<close>

text \<open>
  A gigabit link and the default frame size on a part with a receive buffer of 26 KB and a platform
  that tolerates 131072 ns.
\<close>

definition ltr_chip :: device where
  "ltr_chip = \<lparr>dev_readl = (\<lambda>_ r. if r = E1000_PBA then 26 else 0), dev_flash_readw = (\<lambda>_ _. 0),
     dev_flash_readl = (\<lambda>_ _. 0), dev_pci_readw = (\<lambda>_ _. ltr_encode (4, 3)),
     dev_pci_capability = 0, dev_eeprom = (\<lambda>_ _. 0), dev_flash_mem = (\<lambda>_ _. 0)\<rparr>"

text \<open>
  The limit that the platform gives is compared as a code and not as a latency, so that the
  driver can ask for more than the limit: here it keeps 189440 ns where the platform says 131072.
\<close>

theorem ltr_limit_compares_codes:
  "wp (e1000_platform_pm_pch_lpt (return (0, 1000, 1)) 0x153A 1518 True \<lparr>lat_enc = 0, max_ltr_enc = 0\<rparr>)
     (\<lambda>r h. r = (0, \<lparr>lat_enc = 0x08B9, max_ltr_enc = 0x0C04\<rparr>) \<and>
       hd (reg_writes (trace h)) = (E1000_LTRV, 0xC8B988B9)) (sample_hw ltr_chip) \<and>
   ltr_decode 0x08B9 = 189440 \<and> ltr_decode 0x0C04 = 131072"
proof -
  have v: "unat (ltr_value 13312 1518 1000) = 188704"
    by (simp add: ltr_value_def)
  have sc: "ltr_scale 188704 0 = (185, 2)" by (simp add: ltr_scale.simps)
  have e: "ltr_encode (4, 3) = 0x0C04" "ltr_encode (185, 2) = 0x08B9" by code_simp+
  have d: "ltr_decode 0x08B9 = 189440" "ltr_decode 0x0C04 = 131072"
    using ltr_decode_encode [of 185 2] ltr_decode_encode [of 4 3] by (simp_all add: e)
  have r: "ltr_request True OR ltr_both 0x08B9 = 0xC8B988B9" by code_simp
  have m: "\<not> demotes_ltr 0x153A (mac_type sample_mac)" by code_simp
  have c: "rdv E1000_PBA h = 26" if "dev h = ltr_chip" for h
    using that by (simp add: ltr_chip_def rdv_def)
  have p: "dev_pci_readw ltr_chip t a = 0x0C04" for t a by (simp add: ltr_chip_def e)
  have link: "wp (ltr_of_link (return (0, 1000, 1)) 0x153A 1518 \<lparr>lat_enc = 0, max_ltr_enc = 0\<rparr>)
      (\<lambda>r h. r = Inr (0x08B9, \<lparr>lat_enc = 0x08B9, max_ltr_enc = 0x0C04\<rparr>)) h"
    if "dev h = ltr_chip" "mac h = sample_mac" for h
    unfolding ltr_of_link_def wp Let_def prod.case by (simp add: c p that v sc m e)
  show ?thesis unfolding e1000_platform_pm_pch_lpt_def wp if_True
    by (intro conjI d, rule wp_mono [OF link]) (simp_all add: wp r)
qed

end
