(* ===== verification/Rx_Ring.thy ===== *)
theory Rx_Ring
  imports Net_State Ich8_Ltr
begin

text \<open>
  The receive path of \<open>netdev.c\<close> with one buffer per packet: giving empty buffers to the
  device, taking received packets off the ring, checksum, hash, VLAN tag and time stamp of a packet,
  the copy of small packets, and emptying the ring. The variants for packet split and for chained
  pages are not modelled.

  A socket buffer is the number of events before its allocation, so that two buffers never have the
  same name. A buffer in the ring is empty; the bytes in it are the device's.
\<close>

unbundle bit_operations_syntax

section \<open>State\<close>

text \<open>
  A descriptor in the write-back format: the first 8 bytes are the buffer address that the driver
  writes, or what the device writes over it (the RSS hash is the upper dword).
\<close>

record rx_desc =
  rxd_addr :: u64
  rxd_staterr :: u32
  rxd_len :: u16
  rxd_vlan :: u16

record rx_buffer =
  rxb_skb :: "nat option"
  rxb_dma :: u64

record rx_ring =
  rx_descs :: "rx_desc list"
  rx_count :: nat
  rx_next_to_use :: nat
  rx_next_to_clean :: nat
  rx_info :: "rx_buffer list"

text \<open>
  What the stack is given: the buffer whose bytes it reads, their number, and what the device said
  of them.
\<close>

record rx_frame =
  fr_from :: nat
  fr_len :: u32
  fr_csum_ok :: bool
  fr_hash :: "u32 option"
  fr_vlan :: "u16 option"

datatype rx_event =
    RxAlloc nat u32
  | RxMap nat u64
  | RxUnmap u64
  | RxDeliver nat rx_frame "u64 option"
  | RxFree nat

record rx_kernel =
  k_rx_alloc :: "rx_event list \<Rightarrow> u32 \<Rightarrow> bool"
  k_rx_map :: "rx_event list \<Rightarrow> nat \<Rightarrow> u64"
  k_rx_room :: "u32 \<Rightarrow> u32"
  k_cyc2time :: "rx_event list \<Rightarrow> u64 \<Rightarrow> u64"

text \<open>The members of the adapter that the receive path reads, and those that it writes.\<close>

record rx_config =
  rx_buffer_len :: u32
  crc_stripping :: bool
  feat_rxall :: bool
  feat_rxfcs :: bool
  feat_rxcsum :: bool
  feat_rxhash :: bool
  copybreak :: u32
  c10_pba_bytes :: u32
  pci_device_id :: u16
  ltr_of :: ltr_state

record rx_adapter =
  is_discarding :: bool
  check_rx_hwtstamp :: bool
  hw_csum_err :: u64
  hw_csum_good :: u64
  alloc_rx_buff_failed :: u32
  rx_dma_failed :: u32
  total_rx_bytes :: u32
  total_rx_packets :: u32
  c10_mpc_count :: u64
  c10_rx_bytes :: u64
  c10_demote_ltr :: bool

record nic =
  net_of :: net
  rxr :: rx_ring
  rxc :: rx_config
  rxa :: rx_adapter
  rx_kernel_of :: rx_kernel
  rx_trace :: "rx_event list"

type_synonym 'a nic_io = "(nic, 'a) state"

definition on_net :: "'a net_io \<Rightarrow> 'a nic_io" where
  "on_net m = State (\<lambda>s. let (a, t) = run_state m (net_of s) in (a, s\<lparr>net_of := t\<rparr>))"

definition rx_os :: "rx_event \<Rightarrow> unit nic_io" where
  "rx_os e = modify (\<lambda>s. s\<lparr>rx_trace := e # rx_trace s\<rparr>)"

definition set_rxr :: "(rx_ring \<Rightarrow> rx_ring) \<Rightarrow> unit nic_io" where
  "set_rxr f = modify (\<lambda>s. s\<lparr>rxr := f (rxr s)\<rparr>)"

definition set_rxa :: "(rx_adapter \<Rightarrow> rx_adapter) \<Rightarrow> unit nic_io" where
  "set_rxa f = modify (\<lambda>s. s\<lparr>rxa := f (rxa s)\<rparr>)"

definition set_rx_buf :: "nat \<Rightarrow> (rx_buffer \<Rightarrow> rx_buffer) \<Rightarrow> unit nic_io" where
  "set_rx_buf i f = set_rxr (\<lambda>r. r\<lparr>rx_info := (rx_info r)[i := f (rx_info r ! i)]\<rparr>)"

definition set_rx_desc :: "nat \<Rightarrow> (rx_desc \<Rightarrow> rx_desc) \<Rightarrow> unit nic_io" where
  "set_rx_desc i f = set_rxr (\<lambda>r. r\<lparr>rx_descs := (rx_descs r)[i := f (rx_descs r ! i)]\<rparr>)"

section \<open>Services of the kernel\<close>

definition alloc_skb :: "u32 \<Rightarrow> nat option nic_io" where
  "alloc_skb bytes = do {
     s \<leftarrow> get;
     if k_rx_alloc (rx_kernel_of s) (rx_trace s) bytes
     then do { rx_os (RxAlloc (List.length (rx_trace s)) bytes); return (Some (List.length (rx_trace s))) }
     else return None }"

definition rx_map_single :: "nat \<Rightarrow> u64 nic_io" where
  "rx_map_single skb = do {
     s \<leftarrow> get;
     let a = k_rx_map (rx_kernel_of s) (rx_trace s) skb;
     rx_os (RxMap skb a);
     return a }"

section \<open>Tail register\<close>

definition e1000e_update_rdt_wa :: "nat \<Rightarrow> unit net_io" where
  "e1000e_update_rdt_wa i = do {
     ret_val \<leftarrow> on_hw ew32_prepare;
     writel (of_nat i) (E1000_RDT 0);
     v \<leftarrow> (if ret_val = 0 then on_hw (er32 (E1000_RDT 0)) else return (of_nat i));
     if of_nat i \<noteq> v then do {
       rctl \<leftarrow> on_hw (er32 E1000_RCTL);
       on_hw (ew32 E1000_RCTL (rctl AND NOT E1000_RCTL_EN));
       os (WorkScheduled reset_task) }
     else return () }"

definition write_rx_tail :: "nat \<Rightarrow> unit nic_io" where
  "write_rx_tail i = do {
     s \<leftarrow> get;
     if pcim2pci_wa (adapter (adapter_hw (net_of s))) then on_net (e1000e_update_rdt_wa i)
     else on_net (writel (of_nat i) (E1000_RDT 0)) }"

section \<open>Giving buffers to the device\<close>

abbreviation (input) E1000_RX_BUFFER_WRITE :: nat where "E1000_RX_BUFFER_WRITE \<equiv> 16"

text \<open>One slot from the label \<open>map_skb\<close> on, and the whole of it: the value is
  whether the descriptor has been given a mapped buffer.\<close>

definition rx_map_skb :: "nat \<Rightarrow> nat \<Rightarrow> bool nic_io" where
  "rx_map_skb i skb = do {
     s \<leftarrow> get;
     dma \<leftarrow> rx_map_single skb;
     set_rx_buf i (\<lambda>b. b\<lparr>rxb_dma := dma\<rparr>);
     if k_dma_error (kernel_of (net_of s)) dma then do {
       set_rxa (\<lambda>a. a\<lparr>rx_dma_failed := rx_dma_failed a + 1\<rparr>);
       return False }
     else do {
       set_rx_desc i (\<lambda>d. d\<lparr>rxd_addr := dma\<rparr>);
       (if i mod E1000_RX_BUFFER_WRITE = 0 then write_rx_tail i else return ());
       return True } }"

definition alloc_rx_slot :: "nat \<Rightarrow> bool nic_io" where
  "alloc_rx_slot i = do {
     s \<leftarrow> get;
     case rxb_skb (rx_info (rxr s) ! i) of
       Some skb \<Rightarrow> rx_map_skb i skb
     | None \<Rightarrow> do {
         new_skb \<leftarrow> alloc_skb (rx_buffer_len (rxc s));
         case new_skb of
           None \<Rightarrow> do {
             set_rxa (\<lambda>a. a\<lparr>alloc_rx_buff_failed := alloc_rx_buff_failed a + 1\<rparr>);
             return False }
         | Some skb \<Rightarrow> do {
             set_rx_buf i (\<lambda>b. b\<lparr>rxb_skb := Some skb\<rparr>);
             rx_map_skb i skb } } }"

fun alloc_rx_loop :: "nat \<Rightarrow> nat \<Rightarrow> nat nic_io" where
  "alloc_rx_loop 0 i = return i"
| "alloc_rx_loop (Suc cleaned_count) i = do {
     s \<leftarrow> get;
     filled \<leftarrow> alloc_rx_slot i;
     if filled then alloc_rx_loop cleaned_count (ring_next (rx_count (rxr s)) i) else return i }"

definition e1000_alloc_rx_buffers :: "nat \<Rightarrow> unit nic_io" where
  "e1000_alloc_rx_buffers cleaned_count = do {
     s \<leftarrow> get;
     i \<leftarrow> alloc_rx_loop cleaned_count (rx_next_to_use (rxr s));
     set_rxr (\<lambda>r. r\<lparr>rx_next_to_use := u16_of i\<rparr>) }"

definition rx_desc_unused :: "rx_ring \<Rightarrow> int" where
  "rx_desc_unused ring =
     (if rx_next_to_clean ring > rx_next_to_use ring
      then int (rx_next_to_clean ring) - int (rx_next_to_use ring) - 1
      else int (rx_count ring) + int (rx_next_to_clean ring) - int (rx_next_to_use ring) - 1)"

section \<open>One packet\<close>

definition rx_done :: "rx_desc \<Rightarrow> bool" where
  "rx_done d \<longleftrightarrow> rxd_staterr d AND E1000_RXD_STAT_DD \<noteq> 0"

definition rx_eop :: "rx_desc \<Rightarrow> bool" where
  "rx_eop d \<longleftrightarrow> rxd_staterr d AND E1000_RXD_STAT_EOP \<noteq> 0"

definition E1000_RXDEXT_ERR_FRAME_ERR_MASK :: u32 where
  "E1000_RXDEXT_ERR_FRAME_ERR_MASK = E1000_RXDEXT_STATERR_CE OR E1000_RXDEXT_STATERR_SE OR
     E1000_RXDEXT_STATERR_SEQ OR E1000_RXDEXT_STATERR_CXE OR E1000_RXDEXT_STATERR_RXE"

definition rx_bad_frame :: "rx_config \<Rightarrow> rx_desc \<Rightarrow> bool" where
  "rx_bad_frame c d \<longleftrightarrow> rxd_staterr d AND E1000_RXDEXT_ERR_FRAME_ERR_MASK \<noteq> 0 \<and> \<not> feat_rxall c"

text \<open>
  The verdict of \<open>e1000_rx_checksum\<close>: \<open>None\<close> where the stack has to check, else
  whether the device found the checksum good.
\<close>

definition rx_csum_verdict :: "rx_config \<Rightarrow> u32 \<Rightarrow> bool option" where
  "rx_csum_verdict c status_err =
     (let status = (ucast status_err :: u16); errors = (ucast (drop_bit 24 status_err) :: u8) in
      if \<not> feat_rxcsum c then None
      else if status AND ucast E1000_RXD_STAT_IXSM \<noteq> 0 then None
      else if errors AND (E1000_RXD_ERR_TCPE OR E1000_RXD_ERR_IPE) \<noteq> 0 then Some False
      else if status AND ucast (E1000_RXD_STAT_TCPCS OR E1000_RXD_STAT_UDPCS) = 0 then None
      else Some True)"

definition e1000_rx_checksum :: "u32 \<Rightarrow> bool nic_io" where
  "e1000_rx_checksum status_err = do {
     s \<leftarrow> get;
     (case rx_csum_verdict (rxc s) status_err of
        None \<Rightarrow> return ()
      | Some good \<Rightarrow> (if good then set_rxa (\<lambda>a. a\<lparr>hw_csum_good := hw_csum_good a + 1\<rparr>)
                        else set_rxa (\<lambda>a. a\<lparr>hw_csum_err := hw_csum_err a + 1\<rparr>)));
     return (rx_csum_verdict (rxc s) status_err = Some True) }"

definition e1000_rx_hash :: "rx_config \<Rightarrow> rx_desc \<Rightarrow> u32 option" where
  "e1000_rx_hash c d = (if feat_rxhash c then Some (ucast (drop_bit 32 (rxd_addr d))) else None)"

definition e1000e_rx_hwtstamp :: "u32 \<Rightarrow> u64 option nic_io" where
  "e1000e_rx_hwtstamp status = do {
     s \<leftarrow> get;
     if \<not> has_hw_timestamp (ad (net_of s)) \<or> status AND E1000_RXDEXT_STATERR_TST = 0 then return None
     else do {
       ctl \<leftarrow> on_net (on_hw (er32 E1000_TSYNCRXCTL));
       if ctl AND E1000_TSYNCRXCTL_VALID = 0 then return None
       else do {
         lo \<leftarrow> on_net (on_hw (er32 E1000_RXSTMPL));
         hi \<leftarrow> on_net (on_hw (er32 E1000_RXSTMPH));
         let rxstmp = (ucast lo OR push_bit 32 (ucast hi) :: u64);
         set_rxa (\<lambda>a. a\<lparr>check_rx_hwtstamp := False\<rparr>);
         return (Some (k_cyc2time (rx_kernel_of s) (rx_trace s) rxstmp)) } } }"

definition rx_vlan :: "rx_desc \<Rightarrow> u16 option" where
  "rx_vlan d = (if rxd_staterr d AND E1000_RXD_STAT_VP \<noteq> 0 then Some (rxd_vlan d) else None)"

definition e1000_receive_skb :: "nat \<Rightarrow> nat \<Rightarrow> u32 \<Rightarrow> bool \<Rightarrow> u32 option \<Rightarrow> rx_desc \<Rightarrow> unit nic_io" where
  "e1000_receive_skb skb from len csum hash d = do {
     stamp \<leftarrow> e1000e_rx_hwtstamp (rxd_staterr d);
     rx_os (RxDeliver skb \<lparr>fr_from = from, fr_len = len, fr_csum_ok = csum, fr_hash = hash,
       fr_vlan = rx_vlan d\<rparr> stamp) }"

section \<open>Cleaning\<close>

text \<open>The local variables of \<open>e1000_clean_rx_irq\<close>.\<close>

record rx_locals =
  rl_i :: nat
  rl_cleaned_count :: nat
  rl_cleaned :: bool
  rl_bytes :: u32
  rl_packets :: u32
  rl_work :: nat

text \<open>The length without the frame check sequence, and what the byte counter is given.\<close>

definition rx_length :: "rx_config \<Rightarrow> rx_desc \<Rightarrow> u32" where
  "rx_length c d = ucast (rxd_len d) - (if \<not> crc_stripping c \<and> \<not> feat_rxfcs c then 4 else 0)"

definition rx_counted :: "rx_config \<Rightarrow> rx_desc \<Rightarrow> u32" where
  "rx_counted c d = rx_length c d - (if \<not> crc_stripping c \<and> feat_rxfcs c then 4 else 0)"

text \<open>
  A small packet is copied into a buffer of its own and the old buffer stays in the ring. The
  value is the buffer to hand up and the room in it.
\<close>

definition rx_copybreak :: "nat \<Rightarrow> nat \<Rightarrow> u32 \<Rightarrow> (nat \<times> u32) nic_io" where
  "rx_copybreak i skb len = do {
     s \<leftarrow> get;
     if len < copybreak (rxc s) then do {
       new_skb \<leftarrow> alloc_skb len;
       case new_skb of
         Some new \<Rightarrow> do {
           set_rx_buf i (\<lambda>b. b\<lparr>rxb_skb := Some skb\<rparr>);
           return (new, k_rx_room (rx_kernel_of s) len) }
       | None \<Rightarrow> return (skb, k_rx_room (rx_kernel_of s) (rx_buffer_len (rxc s))) }
     else return (skb, k_rx_room (rx_kernel_of s) (rx_buffer_len (rxc s))) }"

text \<open>The part from the descriptor's flags to \<open>next_desc\<close>; \<open>skb_put\<close> panics when
  the data do not fit.\<close>

definition rx_packet :: "nat \<Rightarrow> nat \<Rightarrow> rx_desc \<Rightarrow> rx_locals \<Rightarrow> (halt + rx_locals) nic_io" where
  "rx_packet i skb d l = do {
     (if \<not> rx_eop d then set_rxa (\<lambda>a. a\<lparr>is_discarding := True\<rparr>) else return ());
     s \<leftarrow> get;
     if is_discarding (rxa s) then do {
       set_rx_buf i (\<lambda>b. b\<lparr>rxb_skb := Some skb\<rparr>);
       (if rx_eop d then set_rxa (\<lambda>a. a\<lparr>is_discarding := False\<rparr>) else return ());
       return (Inr l) }
     else if rx_bad_frame (rxc s) d then do {
       set_rx_buf i (\<lambda>b. b\<lparr>rxb_skb := Some skb\<rparr>);
       return (Inr l) }
     else do {
       let len = rx_length (rxc s) d;
       let l = l\<lparr>rl_bytes := rl_bytes l + rx_counted (rxc s) d, rl_packets := rl_packets l + 1\<rparr>;
       (skb', room) \<leftarrow> rx_copybreak i skb len;
       if len > room then return (Inl Bug)
       else do {
         csum \<leftarrow> e1000_rx_checksum (rxd_staterr d);
         e1000_receive_skb skb' skb len csum (e1000_rx_hash (rxc s) d) d;
         return (Inr l) } } }"

text \<open>
  The body of the loop for the descriptor \<open>d\<close>. A done descriptor without a buffer is a null
  pointer access.
\<close>

definition clean_rx_slot :: "rx_locals \<Rightarrow> (halt + rx_locals) nic_io" where
  "clean_rx_slot l = do {
     s \<leftarrow> get;
     let i = rl_i l;
     let d = rx_descs (rxr s) ! i;
     (case rxb_skb (rx_info (rxr s) ! i) of
        None \<Rightarrow> return (Inl Bug)
      | Some skb \<Rightarrow> do {
          set_rx_buf i (\<lambda>b. b\<lparr>rxb_skb := None\<rparr>);
          rx_os (RxUnmap (rxb_dma (rx_info (rxr s) ! i)));
          set_rx_buf i (\<lambda>b. b\<lparr>rxb_dma := 0\<rparr>);
          r \<leftarrow> rx_packet i skb d (l\<lparr>rl_i := ring_next (rx_count (rxr s)) i, rl_work := rl_work l + 1,
            rl_cleaned := True, rl_cleaned_count := rl_cleaned_count l + 1\<rparr>);
          case r of
            Inl e \<Rightarrow> return (Inl e)
          | Inr l \<Rightarrow> do {
              set_rx_desc i (\<lambda>d. d\<lparr>rxd_staterr := rxd_staterr d AND NOT 0xFF\<rparr>);
              if rl_cleaned_count l \<ge> E1000_RX_BUFFER_WRITE then do {
                e1000_alloc_rx_buffers (rl_cleaned_count l);
                return (Inr (l\<lparr>rl_cleaned_count := 0\<rparr>)) }
              else return (Inr l) } }) }"

text \<open>
  The loop ends at a descriptor that is not done or when the budget is used up, so it is a
  recursion on what is left of the budget.
\<close>

fun clean_rx_loop :: "nat \<Rightarrow> rx_locals \<Rightarrow> (halt + rx_locals) nic_io" where
  "clean_rx_loop left l = do {
     s \<leftarrow> get;
     if \<not> rx_done (rx_descs (rxr s) ! rl_i l) then return (Inr l)
     else (case left of
         0 \<Rightarrow> return (Inr l)
       | Suc left \<Rightarrow> do {
           r \<leftarrow> clean_rx_slot l;
           case r of Inl e \<Rightarrow> return (Inl e) | Inr l \<Rightarrow> clean_rx_loop left l }) }"

declare clean_rx_loop.simps [simp del]

definition e1000e_check_ltr_demote :: "u32 \<Rightarrow> unit nic_io" where
  "e1000e_check_ltr_demote current_rx_bytes = do {
     mpc \<leftarrow> on_net (on_hw (er32 E1000_MPC));
     set_rxa (\<lambda>a. a\<lparr>c10_mpc_count := c10_mpc_count a + ucast mpc,
       c10_rx_bytes := c10_rx_bytes a + ucast current_rx_bytes\<rparr>);
     s \<leftarrow> get;
     if \<not> c10_demote_ltr (rxa s) \<and> (mpc \<noteq> 0 \<or> current_rx_bytes > c10_pba_bytes (rxc s)) then do {
       set_rxa (\<lambda>a. a\<lparr>c10_demote_ltr := True\<rparr>);
       on_net (on_hw (e1000_demote_ltr (pci_device_id (rxc s)) (ltr_of (rxc s)) True True)) }
     else return () }"

text \<open>
  \<open>e1000_clean_rx_irq\<close>; the value is whether anything was cleaned and the work that was
  done of \<open>work_to_do\<close>.
\<close>

definition e1000_clean_rx_irq :: "nat \<Rightarrow> (halt + bool \<times> nat) nic_io" where
  "e1000_clean_rx_irq work_to_do = do {
     s \<leftarrow> get;
     r \<leftarrow> clean_rx_loop work_to_do \<lparr>rl_i = rx_next_to_clean (rxr s), rl_cleaned_count = 0,
       rl_cleaned = False, rl_bytes = 0, rl_packets = 0, rl_work = 0\<rparr>;
     case r of
       Inl e \<Rightarrow> return (Inl e)
     | Inr l \<Rightarrow> do {
         set_rxr (\<lambda>r. r\<lparr>rx_next_to_clean := u16_of (rl_i l)\<rparr>);
         s \<leftarrow> get;
         (if rx_desc_unused (rxr s) \<noteq> 0 then e1000_alloc_rx_buffers (nat (rx_desc_unused (rxr s))) else return ());
         e1000e_check_ltr_demote (rl_bytes l);
         set_rxa (\<lambda>a. a\<lparr>total_rx_bytes := total_rx_bytes a + rl_bytes l,
           total_rx_packets := total_rx_packets a + rl_packets l\<rparr>);
         return (Inr (rl_cleaned l, rl_work l)) } }"

section \<open>Emptying the ring\<close>

fun free_rx_slots :: "nat \<Rightarrow> nat \<Rightarrow> unit nic_io" where
  "free_rx_slots i 0 = return ()"
| "free_rx_slots i (Suc n) = do {
     s \<leftarrow> get;
     (if rxb_dma (rx_info (rxr s) ! i) \<noteq> 0 then do {
        rx_os (RxUnmap (rxb_dma (rx_info (rxr s) ! i)));
        set_rx_buf i (\<lambda>b. b\<lparr>rxb_dma := 0\<rparr>) }
      else return ());
     (case rxb_skb (rx_info (rxr s) ! i) of
        Some skb \<Rightarrow> do { rx_os (RxFree skb); set_rx_buf i (\<lambda>b. b\<lparr>rxb_skb := None\<rparr>) }
      | None \<Rightarrow> return ());
     free_rx_slots (Suc i) n }"

definition empty_rx_desc :: rx_desc where
  "empty_rx_desc = \<lparr>rxd_addr = 0, rxd_staterr = 0, rxd_len = 0, rxd_vlan = 0\<rparr>"

definition e1000_clean_rx_ring :: "unit nic_io" where
  "e1000_clean_rx_ring = do {
     s \<leftarrow> get;
     free_rx_slots 0 (rx_count (rxr s));
     set_rxr (\<lambda>r. r\<lparr>rx_descs := map (\<lambda>_. empty_rx_desc) (rx_descs r), rx_next_to_clean := 0, rx_next_to_use := 0\<rparr>);
     set_rxa (\<lambda>a. a\<lparr>is_discarding := False\<rparr>);
     on_net (writel 0 (E1000_RDH 0));
     write_rx_tail 0 }"

text \<open>The refill when the interface is configured.\<close>

definition rx_refill :: "unit nic_io" where
  "rx_refill = do { s \<leftarrow> get; e1000_alloc_rx_buffers (nat (rx_desc_unused (rxr s))) }"

end
