(* ===== verification/Tx_Ring.thy ===== *)
theory Tx_Ring
  imports Net_State
begin

text \<open>
  The transmit path of \<open>netdev.c\<close>: mapping a packet for the device, filling its
  descriptors, handing them over through the tail register, and cleaning the ring when the device
  reports them as done.
\<close>

unbundle bit_operations_syntax

section \<open>Tail register\<close>

definition e1000e_update_tdt_wa :: "nat \<Rightarrow> unit net_io" where
  "e1000e_update_tdt_wa i = do {
     ret_val \<leftarrow> on_hw ew32_prepare;
     writel (of_nat i) (E1000_TDT 0);
     v \<leftarrow> (if ret_val = 0 then on_hw (er32 (E1000_TDT 0)) else return (of_nat i));
     if of_nat i \<noteq> v then do {
       tctl \<leftarrow> on_hw (er32 E1000_TCTL);
       on_hw (ew32 E1000_TCTL (tctl AND NOT E1000_TCTL_EN));
       os (WorkScheduled reset_task) }
     else return () }"

definition write_tx_tail :: "nat \<Rightarrow> unit net_io" where
  "write_tx_tail i = do {
     s \<leftarrow> get;
     if pcim2pci_wa (adapter (adapter_hw s)) then e1000e_update_tdt_wa i
     else writel (of_nat i) (E1000_TDT 0) }"

section \<open>Cleaning\<close>

definition e1000_put_txbuf :: "nat \<Rightarrow> unit net_io" where
  "e1000_put_txbuf i = do {
     s \<leftarrow> get;
     let b = buffer_info (tx_ring s) ! i;
     (if buf_dma b \<noteq> 0 then do {
        os (if buf_mapped_as_page b then DmaUnmapPage (buf_dma b) (buf_length b)
            else DmaUnmapSingle (buf_dma b) (buf_length b));
        set_tx_buf i (\<lambda>b. b\<lparr>buf_dma := 0\<rparr>) }
      else return ());
     (case buf_skb b of
        Some skb \<Rightarrow> do { dev_kfree_skb skb; set_tx_buf i (\<lambda>b. b\<lparr>buf_skb := None\<rparr>) }
      | None \<Rightarrow> return ());
     set_tx_buf i (\<lambda>b. b\<lparr>buf_time_stamp := 0\<rparr>) }"

text \<open>The local variables of \<open>e1000_clean_tx_irq\<close>.\<close>

record clean_locals =
  cl_i :: nat
  cl_count :: nat
  cl_tx_bytes :: u32
  cl_tx_packets :: u32
  cl_bytes_compl :: u32
  cl_pkts_compl :: u32

definition clean_account :: "e1000_buffer \<Rightarrow> clean_locals \<Rightarrow> clean_locals" where
  "clean_account b l =
     (let l = l\<lparr>cl_tx_packets := cl_tx_packets l + buf_segs b,
                cl_tx_bytes := cl_tx_bytes l + buf_bytecount b\<rparr> in
      case buf_skb b of
        Some skb \<Rightarrow> l\<lparr>cl_bytes_compl := cl_bytes_compl l + of_nat (skb_len skb),
                      cl_pkts_compl := cl_pkts_compl l + 1\<rparr>
      | None \<Rightarrow> l)"

text \<open>
  The inner loop runs from \<open>i\<close> to \<open>eop\<close>; round a ring of \<open>n\<close> descriptors it
  meets \<open>eop\<close> within \<open>n\<close> steps or never.
\<close>

fun clean_packet :: "nat \<Rightarrow> nat \<Rightarrow> clean_locals \<Rightarrow> (halt + clean_locals) net_io" where
  "clean_packet 0 eop l = return (Inl Endless)"
| "clean_packet (Suc fuel) eop l = do {
     s \<leftarrow> get;
     let i = cl_i l;
     let l = (if i = eop then clean_account (buffer_info (tx_ring s) ! i) l else l);
     e1000_put_txbuf i;
     set_tx_desc i (\<lambda>d. d\<lparr>desc_upper := 0\<rparr>);
     let l = l\<lparr>cl_i := ring_next (ring_count (tx_ring s)) i, cl_count := cl_count l + 1\<rparr>;
     if i = eop then return (Inr l) else clean_packet fuel eop l }"

definition tx_done :: "e1000_ring \<Rightarrow> nat \<Rightarrow> bool" where
  "tx_done r eop \<longleftrightarrow> desc_upper (ring_desc r ! eop) AND E1000_TXD_STAT_DD \<noteq> 0"

text \<open>
  Every round of the outer loop cleans at least one descriptor, and it ends when the ring size is
  reached, so \<open>n\<close> rounds are enough.
\<close>

fun clean_packets :: "nat \<Rightarrow> clean_locals \<Rightarrow> (halt + clean_locals) net_io" where
  "clean_packets fuel l = do {
     s \<leftarrow> get;
     let n = ring_count (tx_ring s);
     let eop = buf_next_to_watch (buffer_info (tx_ring s) ! cl_i l);
     if tx_done (tx_ring s) eop \<and> cl_count l < n
     then (case fuel of
         0 \<Rightarrow> return (Inl Endless)
       | Suc fuel \<Rightarrow> do {
           r \<leftarrow> clean_packet n eop l;
           case r of
             Inl e \<Rightarrow> return (Inl e)
           | Inr l \<Rightarrow> if cl_i l = next_to_use (tx_ring s) then return (Inr l)
                      else clean_packets fuel l })
     else return (Inr l) }"

declare clean_packets.simps [simp del]

definition time_after :: "u64 \<Rightarrow> u64 \<Rightarrow> bool" where
  "time_after a b \<longleftrightarrow> (b - a) <s 0"

definition tx_wake :: "clean_locals \<Rightarrow> unit net_io" where
  "tx_wake l = do {
     s \<leftarrow> get;
     if cl_count l \<noteq> 0 \<and> carrier_ok s \<and> e1000_desc_unused (tx_ring s) \<ge> int TX_WAKE_THRESHOLD
     then (if queue_stopped s \<and> \<not> down s
           then do { netif_wake_queue; set_ad (\<lambda>a. a\<lparr>restart_queue := restart_queue a + 1\<rparr>) }
           else return ())
     else return () }"

definition tx_check_hang :: "nat \<Rightarrow> unit net_io" where
  "tx_check_hang i = do {
     s \<leftarrow> get;
     if detect_tx_hung (ad s) then do {
       set_ad (\<lambda>a. a\<lparr>detect_tx_hung := False\<rparr>);
       now \<leftarrow> jiffies;
       let stamp = buf_time_stamp (buffer_info (tx_ring s) ! i);
       hung \<leftarrow> (if stamp \<noteq> 0 \<and>
                    time_after now (stamp + ucast (tx_timeout_factor (ad s)) * k_hz (kernel_of s))
                 then do { status \<leftarrow> on_hw (er32 E1000_STATUS);
                           return (status AND E1000_STATUS_TXOFF = 0) }
                 else return False);
       if hung then os (WorkScheduled print_hang_task)
       else set_ad (\<lambda>a. a\<lparr>tx_hang_recheck := False\<rparr>) }
     else return () }"

definition e1000_clean_tx_irq :: "(halt + bool) net_io" where
  "e1000_clean_tx_irq = do {
     s \<leftarrow> get;
     r \<leftarrow> clean_packets (ring_count (tx_ring s))
       \<lparr>cl_i = next_to_clean (tx_ring s), cl_count = 0, cl_tx_bytes = 0, cl_tx_packets = 0,
        cl_bytes_compl = 0, cl_pkts_compl = 0\<rparr>;
     case r of
       Inl e \<Rightarrow> return (Inl e)
     | Inr l \<Rightarrow> do {
         set_tx_ring (\<lambda>r. r\<lparr>next_to_clean := u16_of (cl_i l)\<rparr>);
         os (QueueCompleted (cl_pkts_compl l) (cl_bytes_compl l));
         tx_wake l;
         tx_check_hang (cl_i l);
         set_ad (\<lambda>a. a\<lparr>total_tx_bytes := total_tx_bytes a + cl_tx_bytes l,
                       total_tx_packets := total_tx_packets a + cl_tx_packets l\<rparr>);
         return (Inr (cl_count l < ring_count (tx_ring s))) } }"

text \<open>Emptying the whole ring, when the interface goes down.\<close>

fun put_txbufs :: "nat \<Rightarrow> nat \<Rightarrow> unit net_io" where
  "put_txbufs i 0 = return ()"
| "put_txbufs i (Suc n) = do { e1000_put_txbuf i; put_txbufs (Suc i) n }"

definition empty_buffer :: e1000_buffer where
  "empty_buffer = \<lparr>buf_dma = 0, buf_skb = None, buf_time_stamp = 0, buf_length = 0,
     buf_next_to_watch = 0, buf_segs = 0, buf_bytecount = 0, buf_mapped_as_page = False\<rparr>"

definition empty_desc :: e1000_tx_desc where
  "empty_desc = \<lparr>desc_addr = 0, desc_lower = 0, desc_upper = 0\<rparr>"

definition e1000_clean_tx_ring :: "unit net_io" where
  "e1000_clean_tx_ring = do {
     s \<leftarrow> get;
     let n = ring_count (tx_ring s);
     put_txbufs 0 n;
     os QueueReset;
     set_tx_ring (\<lambda>r. r\<lparr>buffer_info := map (\<lambda>_. empty_buffer) (buffer_info r),
       ring_desc := map (\<lambda>_. empty_desc) (ring_desc r), next_to_use := 0, next_to_clean := 0\<rparr>);
     writel 0 (E1000_TDH 0);
     write_tx_tail 0 }"

end
