(* ===== verification/Irq_Regs.thy ===== *)
theory Irq_Regs
  imports Rx_Regs
begin

text \<open>
  The constants of interrupts, of the VLAN filter, of the packet buffer and of pass-through
  management.
\<close>

unbundle bit_operations_syntax

subsection \<open>Interrupt registers, regs.h\<close>

abbreviation (input) E1000_ICR :: u32 where
  "E1000_ICR \<equiv> 0x000C0"

abbreviation (input) E1000_ICS :: u32 where
  "E1000_ICS \<equiv> 0x000C8"

abbreviation (input) E1000_IMC :: u32 where
  "E1000_IMC \<equiv> 0x000D8"

abbreviation (input) E1000_IVAR :: u32 where
  "E1000_IVAR \<equiv> 0x000E4"

abbreviation (input) E1000_RFCTL :: u32 where
  "E1000_RFCTL \<equiv> 0x05008"

abbreviation (input) E1000_PBECCSTS :: u32 where
  "E1000_PBECCSTS \<equiv> 0x0100C"

abbreviation (input) E1000_TIDV :: u32 where
  "E1000_TIDV \<equiv> 0x03820"

abbreviation (input) E1000_RDTR :: u32 where
  "E1000_RDTR \<equiv> 0x02820"

abbreviation (input) E1000_MANC2H :: u32 where
  "E1000_MANC2H \<equiv> 0x05860"

subsection \<open>Interrupt registers of the 82574, 82571.h\<close>

abbreviation (input) E1000_EIAC_82574 :: u32 where
  "E1000_EIAC_82574 \<equiv> 0x000DC"

abbreviation (input) E1000_EIAC_MASK_82574 :: u32 where
  "E1000_EIAC_MASK_82574 \<equiv> 0x01F00000"

abbreviation (input) E1000_IVAR_INT_ALLOC_VALID :: u32 where
  "E1000_IVAR_INT_ALLOC_VALID \<equiv> 0x8"

subsection \<open>Interrupt causes, defines.h\<close>

abbreviation (input) E1000_ICR_TXDW :: u32 where
  "E1000_ICR_TXDW \<equiv> 0x00000001"

abbreviation (input) E1000_ICR_LSC :: u32 where
  "E1000_ICR_LSC \<equiv> 0x00000004"

abbreviation (input) E1000_ICR_RXSEQ :: u32 where
  "E1000_ICR_RXSEQ \<equiv> 0x00000008"

abbreviation (input) E1000_ICR_RXDMT0 :: u32 where
  "E1000_ICR_RXDMT0 \<equiv> 0x00000010"

abbreviation (input) E1000_ICR_RXT0 :: u32 where
  "E1000_ICR_RXT0 \<equiv> 0x00000080"

abbreviation (input) E1000_ICR_ECCER :: u32 where
  "E1000_ICR_ECCER \<equiv> 0x00400000"

abbreviation (input) E1000_ICR_INT_ASSERTED :: u32 where
  "E1000_ICR_INT_ASSERTED \<equiv> 0x80000000"

abbreviation (input) E1000_ICR_RXQ0 :: u32 where
  "E1000_ICR_RXQ0 \<equiv> 0x00100000"

abbreviation (input) E1000_ICR_TXQ0 :: u32 where
  "E1000_ICR_TXQ0 \<equiv> 0x00400000"

abbreviation (input) E1000_ICR_OTHER :: u32 where
  "E1000_ICR_OTHER \<equiv> 0x01000000"

subsection \<open>Fields of control registers, defines.h\<close>

abbreviation (input) E1000_CTRL_EXT_IAME :: u32 where
  "E1000_CTRL_EXT_IAME \<equiv> 0x08000000"

abbreviation (input) E1000_CTRL_EXT_EIAME :: u32 where
  "E1000_CTRL_EXT_EIAME \<equiv> 0x01000000"

abbreviation (input) E1000_CTRL_EXT_PBA_CLR :: u32 where
  "E1000_CTRL_EXT_PBA_CLR \<equiv> 0x80000000"

abbreviation (input) E1000_CTRL_EXT_DRV_LOAD :: u32 where
  "E1000_CTRL_EXT_DRV_LOAD \<equiv> 0x10000000"

abbreviation (input) E1000_SWSM_DRV_LOAD :: u32 where
  "E1000_SWSM_DRV_LOAD \<equiv> 0x00000008"

abbreviation (input) E1000_RFCTL_ACK_DIS :: u32 where
  "E1000_RFCTL_ACK_DIS \<equiv> 0x00001000"

abbreviation (input) E1000_PBECCSTS_CORR_ERR_CNT_MASK :: u32 where
  "E1000_PBECCSTS_CORR_ERR_CNT_MASK \<equiv> 0x000000FF"

abbreviation (input) E1000_PBECCSTS_UNCORR_ERR_CNT_MASK :: u32 where
  "E1000_PBECCSTS_UNCORR_ERR_CNT_MASK \<equiv> 0x0000FF00"

abbreviation (input) E1000_RCTL_VFE :: u32 where
  "E1000_RCTL_VFE \<equiv> 0x00040000"

abbreviation (input) E1000_RCTL_CFIEN :: u32 where
  "E1000_RCTL_CFIEN \<equiv> 0x00080000"

abbreviation (input) E1000_CTRL_VME :: u32 where
  "E1000_CTRL_VME \<equiv> 0x40000000"

abbreviation (input) E1000_FCRTH_RTH :: u32 where
  "E1000_FCRTH_RTH \<equiv> 0x0000FFF8"

abbreviation (input) E1000_FCRTL_RTL :: u32 where
  "E1000_FCRTL_RTL \<equiv> 0x0000FFF8"

abbreviation (input) E1000_TIDV_FPD :: u32 where
  "E1000_TIDV_FPD \<equiv> 0x80000000"

abbreviation (input) E1000_RDTR_FPD :: u32 where
  "E1000_RDTR_FPD \<equiv> 0x80000000"

subsection \<open>Shift of the error counter, defines.h\<close>

abbreviation (input) E1000_PBECCSTS_UNCORR_ERR_CNT_SHIFT :: nat where
  "E1000_PBECCSTS_UNCORR_ERR_CNT_SHIFT \<equiv> 8"

subsection \<open>Pass-through management, defines.h\<close>

abbreviation (input) E1000_MANC_EN_MNG2HOST :: u32 where
  "E1000_MANC_EN_MNG2HOST \<equiv> 0x00200000"

abbreviation (input) E1000_MANC2H_PORT_623 :: u32 where
  "E1000_MANC2H_PORT_623 \<equiv> 0x00000020"

abbreviation (input) E1000_MANC2H_PORT_664 :: u32 where
  "E1000_MANC2H_PORT_664 \<equiv> 0x00000040"

abbreviation (input) E1000_MDEF_PORT_623 :: u32 where
  "E1000_MDEF_PORT_623 \<equiv> 0x00000800"

abbreviation (input) E1000_MDEF_PORT_664 :: u32 where
  "E1000_MDEF_PORT_664 \<equiv> 0x00000400"

subsection \<open>Pause time, e1000.h\<close>

abbreviation (input) E1000_FC_PAUSE_TIME :: u16 where
  "E1000_FC_PAUSE_TIME \<equiv> 0x0680"

subsection \<open>Limits of the interrupt interval, e1000.h\<close>

abbreviation (input) E1000_MIN_ITR_USECS :: u32 where
  "E1000_MIN_ITR_USECS \<equiv> 10"

abbreviation (input) E1000_MAX_ITR_USECS :: u32 where
  "E1000_MAX_ITR_USECS \<equiv> 10000"

subsection \<open>Interrupt masks, defines.h\<close>

abbreviation (input) E1000_IMS_TXDW :: u32 where
  "E1000_IMS_TXDW \<equiv> E1000_ICR_TXDW"

abbreviation (input) E1000_IMS_LSC :: u32 where
  "E1000_IMS_LSC \<equiv> E1000_ICR_LSC"

abbreviation (input) E1000_IMS_RXSEQ :: u32 where
  "E1000_IMS_RXSEQ \<equiv> E1000_ICR_RXSEQ"

abbreviation (input) E1000_IMS_RXDMT0 :: u32 where
  "E1000_IMS_RXDMT0 \<equiv> E1000_ICR_RXDMT0"

abbreviation (input) E1000_IMS_RXT0 :: u32 where
  "E1000_IMS_RXT0 \<equiv> E1000_ICR_RXT0"

abbreviation (input) E1000_IMS_ECCER :: u32 where
  "E1000_IMS_ECCER \<equiv> E1000_ICR_ECCER"

abbreviation (input) E1000_IMS_RXQ0 :: u32 where
  "E1000_IMS_RXQ0 \<equiv> E1000_ICR_RXQ0"

abbreviation (input) E1000_IMS_TXQ0 :: u32 where
  "E1000_IMS_TXQ0 \<equiv> E1000_ICR_TXQ0"

abbreviation (input) E1000_IMS_OTHER :: u32 where
  "E1000_IMS_OTHER \<equiv> E1000_ICR_OTHER"

abbreviation (input) E1000_ICS_LSC :: u32 where
  "E1000_ICS_LSC \<equiv> E1000_ICR_LSC"

abbreviation (input) E1000_ICS_RXDMT0 :: u32 where
  "E1000_ICS_RXDMT0 \<equiv> E1000_ICR_RXDMT0"

abbreviation (input) E1000_ICS_OTHER :: u32 where
  "E1000_ICS_OTHER \<equiv> E1000_ICR_OTHER"

definition IMS_ENABLE_MASK :: u32 where
  "IMS_ENABLE_MASK = E1000_IMS_RXT0 OR E1000_IMS_TXDW OR E1000_IMS_RXDMT0 OR E1000_IMS_RXSEQ OR E1000_IMS_LSC"

definition E1000_EITR_82574 :: "nat \<Rightarrow> u32" where
  "E1000_EITR_82574 n = 0x000E8 + 4 * of_nat n"

definition E1000_MDEF :: "nat \<Rightarrow> u32" where
  "E1000_MDEF n = 0x05890 + 4 * of_nat n"

text \<open>No VLAN is used by the management engine: \<^verbatim>\<open>(u16)-1\<close>.\<close>

abbreviation (input) E1000_MNG_VLAN_NONE :: u16 where
  "E1000_MNG_VLAN_NONE \<equiv> 0xFFFF"

end
