(* ===== verification/Irq.thy ===== *)
theory Irq
  imports Rx_Ring Tx_Ring Irq_Regs "HOL-Library.Signed_Division"
begin

text \<open>
  Interrupts of \<open>netdev.c\<close>, in the configuration with polling (NAPI): the handlers, the poll
  that they schedule, the masks, and the moderation of the interrupt rate. The state is that of the
  two rings with the members of the adapter that this code keeps, and the events it asks the kernel
  for. Whether a poll can be scheduled is the kernel's answer. The handlers for the variant without
  polling and for packet split are not modelled.
\<close>

unbundle bit_operations_syntax

section \<open>State\<close>

record irq_adapter =
  itr :: u32
  itr_setting :: u32
  tx_itr :: u16
  rx_itr :: u16
  link_speed :: u16
  aim_disabled :: bool
  msix_entries :: bool
  num_vectors :: nat
  eiac_mask :: u32
  rx_ims_val :: u32
  tx_ims_val :: u32
  rx_itr_val :: u32
  tx_itr_val :: u32
  set_itr :: bool
  lsc_gig_speed_drop :: bool
  rx_needs_restart :: bool
  restart_now :: bool
  dma_burst :: bool
  has_swsm_on_load :: bool
  has_ctrlext_on_load :: bool
  corr_errors :: u32
  uncorr_errors :: u32
  tx_delay :: u32
  rx_delay :: u32
  gotc :: u32
  gorc :: u32

datatype if_event =
    NapiSchedule
  | NapiComplete nat
  | WatchdogTimer
  | DownshiftTask
  | SynchronizeIrq nat

record iface =
  nic_of :: nic
  irq :: irq_adapter
  k_napi_prep :: "if_event list \<Rightarrow> bool"
  if_trace :: "if_event list"

type_synonym 'a if_io = "(iface, 'a) state"

definition on_nic :: "'a nic_io \<Rightarrow> 'a if_io" where
  "on_nic m = State (\<lambda>s. let (a, t) = run_state m (nic_of s) in (a, s\<lparr>nic_of := t\<rparr>))"

definition if_os :: "if_event \<Rightarrow> unit if_io" where
  "if_os e = modify (\<lambda>s. s\<lparr>if_trace := e # if_trace s\<rparr>)"

definition set_irq :: "(irq_adapter \<Rightarrow> irq_adapter) \<Rightarrow> unit if_io" where
  "set_irq f = modify (\<lambda>s. s\<lparr>irq := f (irq s)\<rparr>)"

text \<open>Device accesses from this layer.\<close>

abbreviation if_net :: "'a net_io \<Rightarrow> 'a if_io" where
  "if_net m \<equiv> on_nic (on_net m)"

abbreviation if_er32 :: "u32 \<Rightarrow> u32 if_io" where
  "if_er32 r \<equiv> if_net (on_hw (er32 r))"

abbreviation if_ew32 :: "u32 \<Rightarrow> u32 \<Rightarrow> unit if_io" where
  "if_ew32 r v \<equiv> if_net (on_hw (ew32 r v))"

abbreviation if_writel :: "u32 \<Rightarrow> u32 \<Rightarrow> unit if_io" where
  "if_writel v r \<equiv> if_net (writel v r)"

abbreviation hw_of :: "iface \<Rightarrow> hw" where
  "hw_of s \<equiv> adapter_hw (net_of (nic_of s))"

abbreviation is_down :: "iface \<Rightarrow> bool" where
  "is_down s \<equiv> down (net_of (nic_of s))"

section \<open>Masks\<close>

definition e1000_irq_disable :: "unit if_io" where
  "e1000_irq_disable = do {
     s \<leftarrow> get;
     if_ew32 E1000_IMC (NOT 0);
     (if msix_entries (irq s) then if_ew32 E1000_EIAC_82574 0 else return ());
     if_net (on_hw e1e_flush);
     if_os (SynchronizeIrq (if msix_entries (irq s) then num_vectors (irq s) else 1)) }"

definition e1000_irq_enable :: "unit if_io" where
  "e1000_irq_enable = do {
     s \<leftarrow> get;
     (if msix_entries (irq s) then do {
        if_ew32 E1000_EIAC_82574 (eiac_mask (irq s) AND E1000_EIAC_MASK_82574);
        if_ew32 E1000_IMS (eiac_mask (irq s) OR E1000_IMS_LSC) }
      else if mac_type (mac (hw_of s)) \<ge> e1000_pch_lpt then if_ew32 E1000_IMS (IMS_ENABLE_MASK OR E1000_IMS_ECCER)
      else if_ew32 E1000_IMS IMS_ENABLE_MASK);
     if_net (on_hw e1e_flush) }"

definition e1000e_get_hw_control :: "unit if_io" where
  "e1000e_get_hw_control = do {
     s \<leftarrow> get;
     if has_swsm_on_load (irq s) then do {
       swsm \<leftarrow> if_er32 E1000_SWSM;
       if_ew32 E1000_SWSM (swsm OR E1000_SWSM_DRV_LOAD) }
     else if has_ctrlext_on_load (irq s) then do {
       ctrl_ext \<leftarrow> if_er32 E1000_CTRL_EXT;
       if_ew32 E1000_CTRL_EXT (ctrl_ext OR E1000_CTRL_EXT_DRV_LOAD) }
     else return () }"

definition e1000e_release_hw_control :: "unit if_io" where
  "e1000e_release_hw_control = do {
     s \<leftarrow> get;
     if has_swsm_on_load (irq s) then do {
       swsm \<leftarrow> if_er32 E1000_SWSM;
       if_ew32 E1000_SWSM (swsm AND NOT E1000_SWSM_DRV_LOAD) }
     else if has_ctrlext_on_load (irq s) then do {
       ctrl_ext \<leftarrow> if_er32 E1000_CTRL_EXT;
       if_ew32 E1000_CTRL_EXT (ctrl_ext AND NOT E1000_CTRL_EXT_DRV_LOAD) }
     else return () }"

definition e1000e_trigger_lsc :: "unit if_io" where
  "e1000e_trigger_lsc = do {
     s \<leftarrow> get;
     if msix_entries (irq s) then if_ew32 E1000_ICS E1000_ICS_OTHER else if_ew32 E1000_ICS E1000_ICS_LSC }"

section \<open>The interrupt rate\<close>

datatype latency_range = lowest_latency | low_latency | bulk_latency | latency_invalid

primrec latency_code :: "latency_range \<Rightarrow> u16" where
  "latency_code lowest_latency = 0"
| "latency_code low_latency = 1"
| "latency_code bulk_latency = 2"
| "latency_code latency_invalid = 255"

text \<open>Division of C integers: towards zero.\<close>

definition e1000_update_itr :: "u16 \<Rightarrow> int \<Rightarrow> int \<Rightarrow> u16" where
  "e1000_update_itr setting packets bytes =
     (if packets = 0 then setting
      else if setting = latency_code lowest_latency then
        (if bytes sdiv packets > 8000 then latency_code bulk_latency
         else if packets < 5 \<and> bytes > 512 then latency_code low_latency
         else setting)
      else if setting = latency_code low_latency then
        (if bytes > 10000 then
           (if bytes sdiv packets > 8000 then latency_code bulk_latency
            else if packets < 10 \<or> bytes sdiv packets > 1200 then latency_code bulk_latency
            else if packets > 35 then latency_code lowest_latency
            else setting)
         else if bytes sdiv packets > 2000 then latency_code bulk_latency
         else if packets \<le> 2 \<and> bytes < 512 then latency_code lowest_latency
         else setting)
      else if setting = latency_code bulk_latency then
        (if bytes > 25000 then (if packets > 35 then latency_code low_latency else setting)
         else if bytes < 6000 then latency_code low_latency
         else setting)
      else setting)"

text \<open>Mode 3 does not use the lowest latency.\<close>

definition conservative :: "u32 \<Rightarrow> u16 \<Rightarrow> u16" where
  "conservative setting level =
     (if setting = 3 \<and> level = latency_code lowest_latency then latency_code low_latency else level)"

definition itr_of_level :: "u16 \<Rightarrow> u32 \<Rightarrow> u32" where
  "itr_of_level level old =
     (if level = latency_code lowest_latency then 70000
      else if level = latency_code low_latency then 20000
      else if level = latency_code bulk_latency then 4000
      else old)"

text \<open>An increasing rate is approached in steps.\<close>

definition itr_step :: "u32 \<Rightarrow> u32 \<Rightarrow> u32" where
  "itr_step old new = (if new > old then min (old + drop_bit 2 new) new else new)"

text \<open>
  The interval of a rate, in units of 256 ns. Where the product wraps to 0 the source divides by
  zero, which stops the kernel.
\<close>

definition itr_interval :: "u32 \<Rightarrow> halt + u32" where
  "itr_interval rate =
     (if rate = 0 then Inr 0
      else if rate * 256 = 0 then Inl Bug
      else Inr (1000000000 div (rate * 256)))"

fun write_eitr :: "nat \<Rightarrow> nat \<Rightarrow> u32 \<Rightarrow> unit if_io" where
  "write_eitr vector 0 v = return ()"
| "write_eitr vector (Suc n) v = do { if_writel v (E1000_EITR_82574 vector); write_eitr (Suc vector) n v }"

definition e1000e_write_itr :: "u32 \<Rightarrow> (halt + unit) if_io" where
  "e1000e_write_itr rate = do {
     s \<leftarrow> get;
     case itr_interval rate of
       Inl e \<Rightarrow> return (Inl e)
     | Inr new_itr \<Rightarrow> do {
         (if msix_entries (irq s) then write_eitr 0 (num_vectors (irq s)) new_itr
          else if_ew32 E1000_ITR new_itr);
         return (Inr ()) } }"

text \<open>The part of \<open>e1000_set_itr\<close> before the label \<open>set_itr_now\<close>.\<close>

definition choose_itr :: "u32 if_io" where
  "choose_itr = do {
     s \<leftarrow> get;
     if link_speed (irq s) \<noteq> SPEED_1000 then return 4000
     else if aim_disabled (irq s) then return 0
     else do {
       let n = net_of (nic_of s);
       let a = rxa (nic_of s);
       set_irq (\<lambda>q. q\<lparr>tx_itr := conservative (itr_setting q)
         (e1000_update_itr (tx_itr q) (sint (total_tx_packets (ad n))) (sint (total_tx_bytes (ad n))))\<rparr>);
       set_irq (\<lambda>q. q\<lparr>rx_itr := conservative (itr_setting q)
         (e1000_update_itr (rx_itr q) (sint (total_rx_packets a)) (sint (total_rx_bytes a)))\<rparr>);
       q \<leftarrow> gets irq;
       return (itr_of_level (max (rx_itr q) (tx_itr q)) (itr q)) } }"

definition e1000_set_itr :: "(halt + unit) if_io" where
  "e1000_set_itr = do {
     old \<leftarrow> gets (\<lambda>s. itr (irq s));
     new_itr \<leftarrow> choose_itr;
     if new_itr \<noteq> old then do {
       let new_itr = itr_step old new_itr;
       set_irq (\<lambda>q. q\<lparr>itr := new_itr, rx_itr_val := new_itr\<rparr>);
       s \<leftarrow> get;
       if msix_entries (irq s) then do { set_irq (\<lambda>q. q\<lparr>set_itr := True\<rparr>); return (Inr ()) }
       else e1000e_write_itr new_itr }
     else return (Inr ()) }"

text \<open>Mode 4: the watchdog sets a rate by the symmetry of the traffic.\<close>

definition simple_itr :: "u32 \<Rightarrow> u32 \<Rightarrow> u32" where
  "simple_itr out inc =
     (let goc = (out + inc) div 10000;
          dif = (if out > inc then out - inc else inc - out) div 10000 in
      if goc > 0 then dif * 6000 div goc + 2000 else 8000)"

definition watchdog_itr :: "(halt + unit) if_io" where
  "watchdog_itr = do {
     s \<leftarrow> get;
     if itr_setting (irq s) = 4 then e1000e_write_itr (simple_itr (gotc (irq s)) (gorc (irq s)))
     else return (Inr ()) }"

text \<open>The watchdog wakes the receive path, in case an interrupt was lost.\<close>

definition watchdog_kick :: "unit if_io" where
  "watchdog_kick = do {
     s \<leftarrow> get;
     if msix_entries (irq s) then if_ew32 E1000_ICS (rx_ims_val (irq s)) else if_ew32 E1000_ICS E1000_ICS_RXDMT0 }"

definition e1000e_flush_descriptors :: "unit if_io" where
  "e1000e_flush_descriptors = do {
     q \<leftarrow> gets irq;
     if \<not> dma_burst q then return ()
     else do {
       if_ew32 E1000_TIDV (tx_delay q OR E1000_TIDV_FPD);
       if_ew32 E1000_RDTR (rx_delay q OR E1000_RDTR_FPD);
       if_net (on_hw e1e_flush);
       if_ew32 E1000_TIDV (tx_delay q OR E1000_TIDV_FPD);
       if_ew32 E1000_RDTR (rx_delay q OR E1000_RDTR_FPD);
       if_net (on_hw e1e_flush) } }"

section \<open>The poll\<close>

definition e1000e_poll :: "nat \<Rightarrow> (halt + nat) if_io" where
  "e1000e_poll weight = do {
     s \<leftarrow> get;
     r \<leftarrow> (if \<not> msix_entries (irq s) \<or> rx_ims_val (irq s) AND tx_ims_val (irq s) \<noteq> 0
          then if_net e1000_clean_tx_irq else return (Inr True));
     case r of
       Inl e \<Rightarrow> return (Inl e)
     | Inr tx_cleaned \<Rightarrow> do {
         r \<leftarrow> on_nic (e1000_clean_rx_irq weight);
         case r of
           Inl e \<Rightarrow> return (Inl e)
         | Inr (_, work) \<Rightarrow> do {
             let work_done = (if tx_cleaned then work else weight);
             if work_done < weight then do {
               r \<leftarrow> (if itr_setting (irq s) AND 3 \<noteq> 0 then e1000_set_itr else return (Inr ()));
               case r of
                 Inl e \<Rightarrow> return (Inl e)
               | Inr _ \<Rightarrow> do {
                   if_os (NapiComplete work_done);
                   s \<leftarrow> get;
                   (if \<not> is_down s then
                      (if msix_entries (irq s) then if_ew32 E1000_IMS (rx_ims_val (irq s)) else e1000_irq_enable)
                    else return ());
                   return (Inr work_done) } }
             else return (Inr work_done) } } }"

section \<open>Interrupt handlers\<close>

datatype irqreturn = IRQ_NONE | IRQ_HANDLED

definition intr_lsc :: "unit if_io" where
  "intr_lsc = do {
     s \<leftarrow> get;
     if_net (on_hw (set_mac (\<lambda>m. m\<lparr>get_link_status := True\<rparr>)));
     (if lsc_gig_speed_drop (irq s) then do {
        status \<leftarrow> if_er32 E1000_STATUS;
        if status AND E1000_STATUS_LU = 0 then if_os DownshiftTask else return () }
      else return ());
     (if carrier_ok (net_of (nic_of s)) \<and> rx_needs_restart (irq s) then do {
        rctl \<leftarrow> if_er32 E1000_RCTL;
        if_ew32 E1000_RCTL (rctl AND NOT E1000_RCTL_EN);
        set_irq (\<lambda>q. q\<lparr>restart_now := True\<rparr>) }
      else return ());
     (if \<not> is_down s then if_os WatchdogTimer else return ()) }"

definition intr_eccer :: "unit if_io" where
  "intr_eccer = do {
     pbeccsts \<leftarrow> if_er32 E1000_PBECCSTS;
     set_irq (\<lambda>q. q\<lparr>corr_errors := corr_errors q + (pbeccsts AND E1000_PBECCSTS_CORR_ERR_CNT_MASK),
       uncorr_errors := uncorr_errors q +
         drop_bit E1000_PBECCSTS_UNCORR_ERR_CNT_SHIFT (pbeccsts AND E1000_PBECCSTS_UNCORR_ERR_CNT_MASK)\<rparr>);
     if_net (os (WorkScheduled reset_task)) }"

definition reset_tx_totals :: "unit if_io" where
  "reset_tx_totals = if_net (set_ad (\<lambda>a. a\<lparr>total_tx_bytes := 0, total_tx_packets := 0\<rparr>))"

definition reset_rx_totals :: "unit if_io" where
  "reset_rx_totals = on_nic (set_rxa (\<lambda>a. a\<lparr>total_rx_bytes := 0, total_rx_packets := 0\<rparr>))"

definition napi_schedule :: "unit if_io \<Rightarrow> unit if_io" where
  "napi_schedule reset = do {
     s \<leftarrow> get;
     if k_napi_prep s (if_trace s) then do { reset; if_os NapiSchedule } else return () }"

text \<open>From the cause on, the two handlers are the same.\<close>

definition intr_cause :: "u32 \<Rightarrow> irqreturn if_io" where
  "intr_cause icr = do {
     (if icr AND E1000_ICR_LSC \<noteq> 0 then intr_lsc else return ());
     s \<leftarrow> get;
     if icr AND E1000_ICR_ECCER \<noteq> 0 \<and> mac_type (mac (hw_of s)) \<ge> e1000_pch_lpt then do {
       intr_eccer;
       return IRQ_HANDLED }
     else do {
       napi_schedule (do { reset_tx_totals; reset_rx_totals });
       return IRQ_HANDLED } }"

definition e1000_intr_msi :: "irqreturn if_io" where
  "e1000_intr_msi = do { icr \<leftarrow> if_er32 E1000_ICR; intr_cause icr }"

definition e1000_intr :: "irqreturn if_io" where
  "e1000_intr = do {
     icr \<leftarrow> if_er32 E1000_ICR;
     s \<leftarrow> get;
     if icr = 0 \<or> is_down s then return IRQ_NONE
     else if icr AND E1000_ICR_INT_ASSERTED = 0 then return IRQ_NONE
     else intr_cause icr }"

definition e1000_msix_other :: "irqreturn if_io" where
  "e1000_msix_other = do {
     if_net (on_hw (set_mac (\<lambda>m. m\<lparr>get_link_status := True\<rparr>)));
     s \<leftarrow> get;
     (if \<not> is_down s then do { if_os WatchdogTimer; if_ew32 E1000_IMS E1000_IMS_OTHER } else return ());
     return IRQ_HANDLED }"

definition e1000_intr_msix_tx :: "(halt + irqreturn) if_io" where
  "e1000_intr_msix_tx = do {
     reset_tx_totals;
     s \<leftarrow> get;
     r \<leftarrow> if_net e1000_clean_tx_irq;
     case r of
       Inl e \<Rightarrow> return (Inl e)
     | Inr cleaned \<Rightarrow> do {
         (if \<not> cleaned then if_ew32 E1000_ICS (tx_ims_val (irq s)) else return ());
         (if \<not> is_down s then if_ew32 E1000_IMS (tx_ims_val (irq s)) else return ());
         return (Inr IRQ_HANDLED) } }"

text \<open>The vector of the receive ring is the first one.\<close>

definition e1000_intr_msix_rx :: "(halt + irqreturn) if_io" where
  "e1000_intr_msix_rx = do {
     s \<leftarrow> get;
     r \<leftarrow> (if set_itr (irq s) then
            (case itr_interval (rx_itr_val (irq s)) of
               Inl e \<Rightarrow> return (Inl e)
             | Inr v \<Rightarrow> do {
                 if_writel v (E1000_EITR_82574 0);
                 set_irq (\<lambda>q. q\<lparr>set_itr := False\<rparr>);
                 return (Inr ()) })
          else return (Inr ()));
     case r of
       Inl e \<Rightarrow> return (Inl e)
     | Inr _ \<Rightarrow> do { napi_schedule reset_rx_totals; return (Inr IRQ_HANDLED) } }"

section \<open>Vectors\<close>

text \<open>The interval a vector is configured with: 1 where the rate is not limited.\<close>

definition vector_interval :: "u32 \<Rightarrow> halt + u32" where
  "vector_interval rate = (if rate = 0 then Inr 1 else itr_interval rate)"

definition msix_ivar :: u32 where
  "msix_ivar = E1000_IVAR_INT_ALLOC_VALID OR push_bit 8 (E1000_IVAR_INT_ALLOC_VALID OR 1) OR
     push_bit 16 (E1000_IVAR_INT_ALLOC_VALID OR 2) OR push_bit 31 1"

definition msix_finish :: "unit if_io" where
  "msix_finish = do {
     if_ew32 E1000_IVAR msix_ivar;
     ctrl_ext \<leftarrow> if_er32 E1000_CTRL_EXT;
     if_ew32 E1000_CTRL_EXT ((ctrl_ext AND NOT E1000_CTRL_EXT_IAME) OR (E1000_CTRL_EXT_PBA_CLR OR E1000_CTRL_EXT_EIAME));
     if_net (on_hw e1e_flush) }"

definition e1000_configure_msix :: "(halt + unit) if_io" where
  "e1000_configure_msix = do {
     s \<leftarrow> get;
     set_irq (\<lambda>q. q\<lparr>eiac_mask := 0\<rparr>);
     (if mac_type (mac (hw_of s)) = e1000_82574 then do {
        rfctl \<leftarrow> if_er32 E1000_RFCTL;
        if_ew32 E1000_RFCTL (rfctl OR E1000_RFCTL_ACK_DIS) }
      else return ());
     set_irq (\<lambda>q. q\<lparr>rx_ims_val := E1000_IMS_RXQ0, eiac_mask := eiac_mask q OR E1000_IMS_RXQ0\<rparr>);
     case vector_interval (rx_itr_val (irq s)) of
       Inl e \<Rightarrow> return (Inl e)
     | Inr rx \<Rightarrow> do {
         if_writel rx (E1000_EITR_82574 0);
         set_irq (\<lambda>q. q\<lparr>tx_ims_val := E1000_IMS_TXQ0\<rparr>);
         case vector_interval (tx_itr_val (irq s)) of
           Inl e \<Rightarrow> return (Inl e)
         | Inr tx \<Rightarrow> do {
             if_writel tx (E1000_EITR_82574 1);
             set_irq (\<lambda>q. q\<lparr>eiac_mask := eiac_mask q OR E1000_IMS_TXQ0\<rparr>);
             if_writel rx (E1000_EITR_82574 2);
             set_irq (\<lambda>q. q\<lparr>eiac_mask := eiac_mask q OR E1000_IMS_OTHER\<rparr>);
             msix_finish;
             return (Inr ()) } } }"

text \<open>The part of \<open>e1000e_up\<close> after the configuration of the hardware.\<close>

definition up_enable :: "(halt + unit) if_io" where
  "up_enable = do {
     s \<leftarrow> get;
     if_net (modify (\<lambda>n. n\<lparr>down := False\<rparr>));
     r \<leftarrow> (if msix_entries (irq s) then e1000_configure_msix else return (Inr ()));
     case r of
       Inl e \<Rightarrow> return (Inl e)
     | Inr _ \<Rightarrow> do {
         e1000_irq_enable;
         if_net netif_start_queue;
         e1000e_trigger_lsc;
         return (Inr ()) } }"

end
