(* ===== verification/Tx_Send.thy ===== *)
theory Tx_Send
  imports Tx_Ring
begin

text \<open>
  Sending a packet, \<open>netdev.c\<close>: the context descriptors of segmentation and checksum
  offload, mapping the parts of the packet, filling the descriptors, stopping the queue when the
  ring is full, the DHCP packets that the management firmware wants to see, and
  \<open>e1000_xmit_frame\<close>, which ties them together.
\<close>

unbundle bit_operations_syntax

section \<open>Context descriptors\<close>

definition dword_of_fields :: "u8 \<Rightarrow> u8 \<Rightarrow> u16 \<Rightarrow> u32" where
  "dword_of_fields b0 b1 hi = ucast b0 OR push_bit 8 (ucast b1) OR push_bit 16 (ucast hi)"

definition context_addr :: "u32 \<Rightarrow> u32 \<Rightarrow> u64" where
  "context_addr lower_setup upper_setup = ucast lower_setup OR push_bit 32 (ucast upper_setup)"

text \<open>A context descriptor takes one place of the ring, and watches itself.\<close>

definition take_context :: "(e1000_tx_desc \<Rightarrow> e1000_tx_desc) \<Rightarrow> unit net_io" where
  "take_context f = do {
     s \<leftarrow> get;
     let i = next_to_use (tx_ring s);
     set_tx_desc i f;
     now \<leftarrow> jiffies;
     set_tx_buf i (\<lambda>b. b\<lparr>buf_time_stamp := now, buf_next_to_watch := u16_of i\<rparr>);
     set_tx_ring (\<lambda>r. r\<lparr>next_to_use := u16_of (ring_next (ring_count r) i)\<rparr>) }"

text \<open>The headers of a packet that the device is to segment, before it does.\<close>

definition set_bytes :: "nat \<Rightarrow> u8 list \<Rightarrow> (nat \<Rightarrow> u8) \<Rightarrow> nat \<Rightarrow> u8" where
  "set_bytes off bs m = (\<lambda>k. if off \<le> k \<and> k < off + List.length bs then bs ! (k - off) else m k)"

definition pseudo_bytes :: "u16 \<Rightarrow> u8 list" where
  "pseudo_bytes v = [ucast (NOT v), ucast (drop_bit 8 (NOT v))]"

definition tso_headers :: "kernel \<Rightarrow> sk_buff \<Rightarrow> u16 \<Rightarrow> sk_buff" where
  "tso_headers k skb protocol =
     (let nw = network_offset skb; tp = transport_offset skb in
      if protocol = ETH_P_IP
      then (let skb = skb\<lparr>skb_mem := set_bytes (nw + 10) [0, 0] (set_bytes (nw + 2) [0, 0] (skb_mem skb))\<rparr> in
        skb\<lparr>skb_mem := set_bytes (tp + 16) (pseudo_bytes (k_pseudo_sum k skb)) (skb_mem skb)\<rparr>)
      else if gso_v6 skb
      then (let skb = skb\<lparr>skb_mem := set_bytes (nw + 4) [0, 0] (skb_mem skb)\<rparr> in
        skb\<lparr>skb_mem := set_bytes (tp + 16) (pseudo_bytes (k_pseudo_sum k skb)) (skb_mem skb)\<rparr>)
      else skb)"

definition tso_hdr_len :: "sk_buff \<Rightarrow> u8" where
  "tso_hdr_len skb = of_nat (transport_offset skb + tcp_hdrlen skb)"

definition tso_desc :: "sk_buff \<Rightarrow> u16 \<Rightarrow> e1000_tx_desc \<Rightarrow> e1000_tx_desc" where
  "tso_desc skb protocol d =
     (let ip = (protocol = ETH_P_IP);
        cmd = (if ip then E1000_TXD_CMD_IP else 0);
        ipcse = (if ip then of_nat (transport_offset skb) - 1 else 0);
        len = of_nat (skb_len skb) - ucast (tso_hdr_len skb)
      in d\<lparr>desc_addr := context_addr
            (dword_of_fields (of_nat (network_offset skb)) (of_nat (network_offset skb + 10)) ipcse)
            (dword_of_fields (of_nat (transport_offset skb)) (of_nat (transport_offset skb + 16)) 0),
          desc_upper := (desc_upper d AND 0xFF) OR push_bit 8 (ucast (tso_hdr_len skb)) OR
            push_bit 16 (ucast (gso_size skb)),
          desc_lower := cmd OR (E1000_TXD_CMD_DEXT OR E1000_TXD_CMD_TSE OR E1000_TXD_CMD_TCP OR len)\<rparr>)"

definition e1000_tso :: "sk_buff \<Rightarrow> u16 \<Rightarrow> (int \<times> sk_buff) net_io" where
  "e1000_tso skb protocol =
     (if gso_size skb = 0 then return (0, skb)
      else do {
        s \<leftarrow> get;
        let err = k_cow_head (kernel_of s) (os_trace s) skb;
        if err < 0 then return (err, skb)
        else do {
          let skb = tso_headers (kernel_of s) skb protocol;
          take_context (tso_desc skb protocol);
          return (1, skb) } })"

definition csum_is_tcp :: "sk_buff \<Rightarrow> u16 \<Rightarrow> bool" where
  "csum_is_tcp skb protocol \<longleftrightarrow>
     protocol = ETH_P_IP \<and> skb_mem skb (network_offset skb + 9) = IPPROTO_TCP \<or>
     protocol = ETH_P_IPV6 \<and> skb_mem skb (network_offset skb + 6) = IPPROTO_TCP"

definition csum_desc :: "sk_buff \<Rightarrow> u16 \<Rightarrow> e1000_tx_desc \<Rightarrow> e1000_tx_desc" where
  "csum_desc skb protocol d =
     (let css = of_nat (csum_start skb) in
      d\<lparr>desc_addr := context_addr 0 (dword_of_fields css (css + of_nat (csum_offset skb)) 0),
        desc_upper := 0,
        desc_lower := E1000_TXD_CMD_DEXT OR (if csum_is_tcp skb protocol then E1000_TXD_CMD_TCP else 0)\<rparr>)"

definition e1000_tx_csum :: "sk_buff \<Rightarrow> u16 \<Rightarrow> bool net_io" where
  "e1000_tx_csum skb protocol =
     (if \<not> csum_partial skb then return False
      else do { take_context (csum_desc skb protocol); return True })"

section \<open>Mapping\<close>

text \<open>One chunk of a packet: its buffer, and whether it could be mapped.\<close>

definition map_chunk :: "nat \<Rightarrow> dma_source \<Rightarrow> nat \<Rightarrow> bool net_io" where
  "map_chunk i src n = do {
     now \<leftarrow> jiffies;
     set_tx_buf i (\<lambda>b. b\<lparr>buf_length := u16_of n, buf_time_stamp := now,
       buf_next_to_watch := u16_of i\<rparr>);
     s \<leftarrow> get;
     let dma = k_dma_map (kernel_of s) (os_trace s) src n;
     os (DmaMap src n dma);
     set_tx_buf i (\<lambda>b. b\<lparr>buf_dma := dma,
       buf_mapped_as_page := (case src of Head _ \<Rightarrow> False | Frag _ _ \<Rightarrow> True)\<rparr>);
     return (\<not> k_dma_error (kernel_of s) dma) }"

text \<open>
  What mapping ends with: the last index used and the number of chunks, after an error the index
  of the chunk that could not be mapped and the number of the chunks before it.
\<close>

datatype mapping = Mapped nat nat | DmaError nat nat

text \<open>
  The loops take their \<open>len\<close> as fuel: with a limit of at least one byte, each round maps at
  least one; with the limit 0 they do not end.
\<close>

fun map_head :: "nat \<Rightarrow> nat \<Rightarrow> nat \<Rightarrow> nat \<Rightarrow> nat \<Rightarrow> nat \<Rightarrow> (halt + mapping) net_io" where
  "map_head 0 limit i offset len cnt =
     return (if len = 0 then Inr (Mapped i cnt) else Inl Endless)"
| "map_head (Suc fuel) limit i offset len cnt =
     (if len = 0 then return (Inr (Mapped i cnt))
      else do {
        let n = min len limit;
        ok \<leftarrow> map_chunk i (Head offset) n;
        if \<not> ok then return (Inr (DmaError i cnt))
        else do {
          s \<leftarrow> get;
          let len = len - n;
          let i = (if len \<noteq> 0 then ring_next (ring_count (tx_ring s)) i else i);
          map_head fuel limit i (offset + n) len (cnt + 1) } })"

fun map_frag :: "nat \<Rightarrow> nat \<Rightarrow> nat \<Rightarrow> nat \<Rightarrow> nat \<Rightarrow> nat \<Rightarrow> nat \<Rightarrow> (halt + mapping) net_io" where
  "map_frag 0 limit f i offset len cnt =
     return (if len = 0 then Inr (Mapped i cnt) else Inl Endless)"
| "map_frag (Suc fuel) limit f i offset len cnt =
     (if len = 0 then return (Inr (Mapped i cnt))
      else do {
        s \<leftarrow> get;
        let i = ring_next (ring_count (tx_ring s)) i;
        let n = min len limit;
        ok \<leftarrow> map_chunk i (Frag f offset) n;
        if \<not> ok then return (Inr (DmaError i cnt))
        else map_frag fuel limit f i (offset + n) (len - n) (cnt + 1) })"

fun map_frags :: "nat \<Rightarrow> nat \<Rightarrow> nat list \<Rightarrow> nat \<Rightarrow> nat \<Rightarrow> (halt + mapping) net_io" where
  "map_frags limit f [] i cnt = return (Inr (Mapped i cnt))"
| "map_frags limit f (len # frags) i cnt = do {
     r \<leftarrow> map_frag len limit f i 0 len cnt;
     case r of
       Inr (Mapped i cnt) \<Rightarrow> map_frags limit (f + 1) frags i cnt
     | _ \<Rightarrow> return r }"

text \<open>After an error, \<open>cnt\<close> buffers before index \<open>i\<close> are released.\<close>

fun unmap_back :: "nat \<Rightarrow> nat \<Rightarrow> unit net_io" where
  "unmap_back i 0 = return ()"
| "unmap_back i (Suc cnt) = do {
     s \<leftarrow> get;
     let i = (if i = 0 then ring_count (tx_ring s) else i) - 1;
     e1000_put_txbuf i;
     unmap_back i cnt }"

definition skb_segs :: "sk_buff \<Rightarrow> u32" where
  "skb_segs skb = (if gso_segs skb \<noteq> 0 then ucast (gso_segs skb) else 1)"

definition skb_bytecount :: "sk_buff \<Rightarrow> u32" where
  "skb_bytecount skb = (skb_segs skb - 1) * of_nat (skb_headlen skb) + of_nat (skb_len skb)"

definition e1000_tx_map :: "sk_buff \<Rightarrow> nat \<Rightarrow> nat \<Rightarrow> (halt + nat) net_io" where
  "e1000_tx_map skb first max_per_txd = do {
     s \<leftarrow> get;
     r \<leftarrow> map_head (skb_headlen skb) max_per_txd (next_to_use (tx_ring s)) 0 (skb_headlen skb) 0;
     r \<leftarrow> (case r of
         Inr (Mapped i cnt) \<Rightarrow> map_frags max_per_txd 0 (skb_frags skb) i cnt
       | _ \<Rightarrow> return r);
     case r of
       Inl e \<Rightarrow> return (Inl e)
     | Inr (Mapped i cnt) \<Rightarrow> do {
         set_tx_buf i (\<lambda>b. b\<lparr>buf_skb := Some skb, buf_segs := skb_segs skb,
           buf_bytecount := skb_bytecount skb\<rparr>);
         set_tx_buf first (\<lambda>b. b\<lparr>buf_next_to_watch := u16_of i\<rparr>);
         return (Inr cnt) }
     | Inr (DmaError i cnt) \<Rightarrow> do {
         set_tx_buf i (\<lambda>b. b\<lparr>buf_dma := 0\<rparr>);
         unmap_back i (if cnt \<noteq> 0 then cnt - 1 else 0);
         return (Inr 0) } }"

section \<open>Descriptors\<close>

definition txd_upper_of :: "u32 \<Rightarrow> u32" where
  "txd_upper_of tx_flags =
     (let u = 0;
        u = (if tx_flags AND E1000_TX_FLAGS_TSO \<noteq> 0 then
               (let u = u OR push_bit 8 E1000_TXD_POPTS_TXSM in
                if tx_flags AND E1000_TX_FLAGS_IPV4 \<noteq> 0
                then u OR push_bit 8 E1000_TXD_POPTS_IXSM else u) else u);
        u = (if tx_flags AND E1000_TX_FLAGS_CSUM \<noteq> 0
             then u OR push_bit 8 E1000_TXD_POPTS_TXSM else u);
        u = (if tx_flags AND E1000_TX_FLAGS_VLAN \<noteq> 0
             then u OR (tx_flags AND E1000_TX_FLAGS_VLAN_MASK) else u)
      in if tx_flags AND E1000_TX_FLAGS_HWTSTAMP \<noteq> 0 then u OR E1000_TXD_EXTCMD_TSTAMP else u)"

definition txd_lower_of :: "u32 \<Rightarrow> u32" where
  "txd_lower_of tx_flags =
     (let l = E1000_TXD_CMD_IFCS;
        l = (if tx_flags AND E1000_TX_FLAGS_TSO \<noteq> 0
             then l OR (E1000_TXD_CMD_DEXT OR E1000_TXD_DTYP_D OR E1000_TXD_CMD_TSE) else l);
        l = (if tx_flags AND E1000_TX_FLAGS_CSUM \<noteq> 0
             then l OR (E1000_TXD_CMD_DEXT OR E1000_TXD_DTYP_D) else l);
        l = (if tx_flags AND E1000_TX_FLAGS_VLAN \<noteq> 0 then l OR E1000_TXD_CMD_VLE else l);
        l = (if tx_flags AND E1000_TX_FLAGS_NO_FCS \<noteq> 0 then l AND NOT E1000_TXD_CMD_IFCS else l)
      in if tx_flags AND E1000_TX_FLAGS_HWTSTAMP \<noteq> 0
         then l OR (E1000_TXD_CMD_DEXT OR E1000_TXD_DTYP_D) else l)"

definition fill_desc :: "u32 \<Rightarrow> nat \<Rightarrow> unit net_io" where
  "fill_desc tx_flags i = do {
     s \<leftarrow> get;
     let b = buffer_info (tx_ring s) ! i;
     set_tx_desc i (\<lambda>d. d\<lparr>desc_addr := buf_dma b,
       desc_lower := txd_lower_of tx_flags OR of_nat (buf_length b),
       desc_upper := txd_upper_of tx_flags\<rparr>) }"

text \<open>
  The loop \<^verbatim>\<open>do { ...; i++; } while (--count > 0)\<close> with \<open>n\<close> rounds after the
  first; the result is the index of the last descriptor.
\<close>

fun fill_descs :: "u32 \<Rightarrow> nat \<Rightarrow> nat \<Rightarrow> nat net_io" where
  "fill_descs tx_flags 0 i = do { fill_desc tx_flags i; return i }"
| "fill_descs tx_flags (Suc n) i = do {
     fill_desc tx_flags i;
     s \<leftarrow> get;
     fill_descs tx_flags n (ring_next (ring_count (tx_ring s)) i) }"

definition e1000_tx_queue :: "u32 \<Rightarrow> nat \<Rightarrow> unit net_io" where
  "e1000_tx_queue tx_flags cnt = do {
     s \<leftarrow> get;
     last \<leftarrow> fill_descs tx_flags (cnt - 1) (next_to_use (tx_ring s));
     set_tx_desc last (\<lambda>d. d\<lparr>desc_lower := desc_lower d OR txd_cmd (ad s)\<rparr>);
     (if tx_flags AND E1000_TX_FLAGS_NO_FCS \<noteq> 0
      then set_tx_desc last (\<lambda>d. d\<lparr>desc_lower := desc_lower d AND NOT E1000_TXD_CMD_IFCS\<rparr>)
      else return ());
     set_tx_ring (\<lambda>r. r\<lparr>next_to_use := u16_of (ring_next (ring_count r) last)\<rparr>) }"

section \<open>Packets for the management firmware\<close>

definition skb_u16 :: "sk_buff \<Rightarrow> nat \<Rightarrow> u16" where
  "skb_u16 skb k = push_bit 8 (ucast (skb_mem skb k)) OR ucast (skb_mem skb (k + 1))"

definition cookie_vlan_id :: "u8 list \<Rightarrow> u16" where
  "cookie_vlan_id c = ucast (c ! 6) OR push_bit 8 (ucast (c ! 7))"

definition e1000_transfer_dhcp_info :: "sk_buff \<Rightarrow> s32 net_io" where
  "e1000_transfer_dhcp_info skb = do {
     s \<leftarrow> get;
     let c = mng_cookie (adapter_hw s);
     if (case vlan_tag skb of
           Some v \<Rightarrow> \<not> (v = cookie_vlan_id c \<and> cookie_status c AND E1000_MNG_DHCP_COOKIE_STATUS_VLAN \<noteq> 0)
         | None \<Rightarrow> False) then return 0
     else if skb_len skb \<le> MINIMUM_DHCP_PACKET_SIZE then return 0
     else if skb_u16 skb 12 \<noteq> ETH_P_IP then return 0
     else if skb_mem skb (14 + 9) \<noteq> IPPROTO_UDP then return 0
     else do {
       let udp = 14 + unat (push_bit 2 (skb_mem skb 14 AND 0xF));
       if skb_u16 skb (udp + 2) \<noteq> 67 then return 0
       else do {
         let offset = udp + 8;
         let len = (of_nat (skb_len skb - offset) :: u16);
         on_hw (e1000e_mng_write_dhcp_info (map (\<lambda>k. skb_mem skb (offset + k)) [0 ..< unat len]) len) } } }"

section \<open>Stopping the queue\<close>

definition maybe_stop_tx_again :: "nat \<Rightarrow> bool net_io" where
  "maybe_stop_tx_again n = do {
     netif_stop_queue;
     s \<leftarrow> get;
     if e1000_desc_unused (tx_ring s) < int n then return True
     else do {
       netif_start_queue;
       set_ad (\<lambda>a. a\<lparr>restart_queue := restart_queue a + 1\<rparr>);
       return False } }"

text \<open>The result says whether the queue is busy (the code returns \<open>-EBUSY\<close>).\<close>

definition e1000_maybe_stop_tx :: "nat \<Rightarrow> (halt + bool) net_io" where
  "e1000_maybe_stop_tx n = do {
     s \<leftarrow> get;
     if n > ring_count (tx_ring s) then return (Inl Bug)
     else if e1000_desc_unused (tx_ring s) \<ge> int n then return (Inr False)
     else do { busy \<leftarrow> maybe_stop_tx_again n; return (Inr busy) } }"

section \<open>Sending\<close>

datatype netdev_tx = NETDEV_TX_OK | NETDEV_TX_BUSY

text \<open>
  A packet with only headers in its linear part gets some payload pulled in before it is
  segmented.
\<close>

definition tso_pull :: "sk_buff \<Rightarrow> sk_buff option net_io" where
  "tso_pull skb =
     (if gso_size skb \<noteq> 0 \<and> skb_data_len skb \<noteq> 0 \<and> unat (tso_hdr_len skb) = skb_headlen skb
      then gets (\<lambda>s. k_pull_tail (kernel_of s) (os_trace s) skb (min 4 (skb_data_len skb)))
      else return (Some skb))"

definition xmit_desc_count :: "nat \<Rightarrow> sk_buff \<Rightarrow> nat" where
  "xmit_desc_count limit skb =
     (if gso_size skb \<noteq> 0 \<or> csum_partial skb then 1 else 0) + 1 +
     DIV_ROUND_UP (skb_headlen skb) limit +
     sum_list (map (\<lambda>n. DIV_ROUND_UP n limit) (skb_frags skb))"

definition vlan_flags :: "sk_buff \<Rightarrow> u32" where
  "vlan_flags skb = (case vlan_tag skb of
     Some v \<Rightarrow> E1000_TX_FLAGS_VLAN OR push_bit E1000_TX_FLAGS_VLAN_SHIFT (ucast v) | None \<Rightarrow> 0)"

definition xmit_timestamp :: "sk_buff \<Rightarrow> u32 net_io" where
  "xmit_timestamp skb = do {
     s \<leftarrow> get;
     if wants_tstamp skb \<and> has_hw_timestamp (ad s)
     then (if tx_hwtstamp_skb (ad s) = None
           then do {
             os (SkbGet (skb_id skb));
             now \<leftarrow> jiffies;
             set_ad (\<lambda>a. a\<lparr>tx_hwtstamp_skb := Some skb, tx_hwtstamp_start := now\<rparr>);
             os (WorkScheduled tx_hwtstamp_work);
             return E1000_TX_FLAGS_HWTSTAMP }
           else do {
             set_ad (\<lambda>a. a\<lparr>tx_hwtstamp_skipped := tx_hwtstamp_skipped a + 1\<rparr>);
             return 0 })
     else return 0 }"

definition xmit_stop_size :: "net \<Rightarrow> nat" where
  "xmit_stop_size s = k_max_skb_frags (kernel_of s) *
     DIV_ROUND_UP (k_page_size (kernel_of s)) (tx_fifo_limit (ad s)) + 2"

text \<open>After mapping: queue the descriptors, or give the packet up.\<close>

definition xmit_queue :: "sk_buff \<Rightarrow> u32 \<Rightarrow> nat \<Rightarrow> (halt + netdev_tx) net_io" where
  "xmit_queue skb tx_flags cnt = do {
     stamp \<leftarrow> xmit_timestamp skb;
     os (QueueSent (skb_len skb));
     e1000_tx_queue (tx_flags OR stamp) cnt;
     s \<leftarrow> get;
     r \<leftarrow> e1000_maybe_stop_tx (xmit_stop_size s);
     case r of
       Inl e \<Rightarrow> return (Inl e)
     | Inr _ \<Rightarrow> do {
         s \<leftarrow> get;
         (if \<not> xmit_more skb \<or> queue_stopped s \<or> k_xmit_stopped (kernel_of s) (os_trace s)
          then write_tx_tail (next_to_use (tx_ring s)) else return ());
         return (Inr NETDEV_TX_OK) } }"

definition xmit_drop :: "sk_buff \<Rightarrow> nat \<Rightarrow> (halt + netdev_tx) net_io" where
  "xmit_drop skb first = do {
     dev_kfree_skb skb;
     set_tx_buf first (\<lambda>b. b\<lparr>buf_time_stamp := 0\<rparr>);
     set_tx_ring (\<lambda>r. r\<lparr>next_to_use := u16_of first\<rparr>);
     return (Inr NETDEV_TX_OK) }"

text \<open>The packet takes its place in the ring.\<close>

definition xmit_place :: "sk_buff \<Rightarrow> (halt + netdev_tx) net_io" where
  "xmit_place skb = do {
     s \<leftarrow> get;
     let first = next_to_use (tx_ring s);
     let protocol = skb_protocol skb;
     (tso, skb) \<leftarrow> e1000_tso skb protocol;
     if tso < 0 then do { dev_kfree_skb skb; return (Inr NETDEV_TX_OK) }
     else do {
       flags \<leftarrow> (if tso \<noteq> 0 then return E1000_TX_FLAGS_TSO
         else do { c \<leftarrow> e1000_tx_csum skb protocol;
                   return (if c then E1000_TX_FLAGS_CSUM else 0) });
       let tx_flags = vlan_flags skb OR flags OR
         (if protocol = ETH_P_IP then E1000_TX_FLAGS_IPV4 else 0) OR
         (if no_fcs skb then E1000_TX_FLAGS_NO_FCS else 0);
       r \<leftarrow> e1000_tx_map skb first (tx_fifo_limit (ad s));
       case r of
         Inl e \<Rightarrow> return (Inl e)
       | Inr cnt \<Rightarrow> if cnt \<noteq> 0 then xmit_queue skb tx_flags cnt else xmit_drop skb first } }"

text \<open>
  When padding fails the kernel has already freed the packet; the model notes it here.
\<close>

definition e1000_xmit_frame :: "sk_buff \<Rightarrow> (halt + netdev_tx) net_io" where
  "e1000_xmit_frame skb = do {
     s \<leftarrow> get;
     if down s \<or> skb_len skb = 0 then do { dev_kfree_skb skb; return (Inr NETDEV_TX_OK) }
     else
       case k_put_padto (kernel_of s) (os_trace s) skb 17 of
         None \<Rightarrow> do { dev_kfree_skb skb; return (Inr NETDEV_TX_OK) }
       | Some skb \<Rightarrow> do {
           pulled \<leftarrow> tso_pull skb;
           case pulled of
             None \<Rightarrow> do { dev_kfree_skb skb; return (Inr NETDEV_TX_OK) }
           | Some skb \<Rightarrow> do {
               (if tx_pkt_filtering (mac (adapter_hw s))
                then do { _ \<leftarrow> e1000_transfer_dhcp_info skb; return () } else return ());
               r \<leftarrow> e1000_maybe_stop_tx (xmit_desc_count (tx_fifo_limit (ad s)) skb + 2);
               case r of
                 Inl e \<Rightarrow> return (Inl e)
               | Inr True \<Rightarrow> return (Inr NETDEV_TX_BUSY)
               | Inr False \<Rightarrow> xmit_place skb } } }"

end
