(* ===== verification/Tx_Queue.thy ===== *)
theory Tx_Queue
  imports Tx_Send
begin

text \<open>
  The transmit ring as a queue of packets. A ring is seen as the list of its slots from an
  index on; the slots of the packets in flight come first, each packet in the slots its first
  buffer and its last buffer delimit, then the free slots. Cleaning takes the packets the device
  has reported off the front; sending appends one.
\<close>

unbundle bit_operations_syntax

section \<open>Weakest preconditions of the primitives\<close>

named_theorems net_wp \<open>weakest preconditions of the operations on the interface\<close>

lemma wp_on_hw [net_wp]:
  "wp (on_hw m) Q = (\<lambda>s. wp m (\<lambda>a h. Q a (s\<lparr>adapter_hw := h\<rparr>)) (adapter_hw s))"
  by (simp add: wp_def on_hw_def fun_eq_iff case_prod_beta Let_def)

lemma wp_os [net_wp]: "wp (os e) Q = (\<lambda>s. Q () (s\<lparr>os_trace := e # os_trace s\<rparr>))"
  by (simp add: os_def wp)

lemma wp_set_net [net_wp]:
  "wp (set_tx_ring f) Q = (\<lambda>s. Q () (s\<lparr>tx_ring := f (tx_ring s)\<rparr>))"
  "wp (set_ad g) Q = (\<lambda>s. Q () (s\<lparr>ad := g (ad s)\<rparr>))"
  "wp (set_tx_buf i b) Q = (\<lambda>s. Q () (s\<lparr>tx_ring := tx_ring s\<lparr>buffer_info :=
      (buffer_info (tx_ring s))[i := b (buffer_info (tx_ring s) ! i)]\<rparr>\<rparr>))"
  "wp (set_tx_desc i d) Q = (\<lambda>s. Q () (s\<lparr>tx_ring := tx_ring s\<lparr>ring_desc :=
      (ring_desc (tx_ring s))[i := d (ring_desc (tx_ring s) ! i)]\<rparr>\<rparr>))"
  by (simp_all add: set_tx_ring_def set_ad_def set_tx_buf_def set_tx_desc_def wp)

lemma wp_jiffies [net_wp]: "wp jiffies Q = (\<lambda>s. Q (k_jiffies (kernel_of s) (os_trace s)) s)"
  by (simp add: jiffies_def wp)

lemma wp_kfree [net_wp]:
  "wp (dev_kfree_skb skb) Q = (\<lambda>s. Q () (s\<lparr>os_trace := SkbFree (skb_id skb) # os_trace s\<rparr>))"
  by (simp add: dev_kfree_skb_def net_wp)

lemma wp_queue [net_wp]:
  "wp netif_stop_queue Q = (\<lambda>s. Q () (s\<lparr>queue_stopped := True, os_trace := QueueStop # os_trace s\<rparr>))"
  "wp netif_start_queue Q = (\<lambda>s. Q () (s\<lparr>queue_stopped := False, os_trace := QueueStart # os_trace s\<rparr>))"
  "wp netif_wake_queue Q = (\<lambda>s. Q () (s\<lparr>queue_stopped := False, os_trace := QueueWake # os_trace s\<rparr>))"
  by (simp_all add: netif_stop_queue_def netif_start_queue_def netif_wake_queue_def wp net_wp)

lemma wp_writel [net_wp]:
  "wp (writel v r) Q = (\<lambda>s. Q () (s\<lparr>adapter_hw := log_event (WriteL r v) (adapter_hw s)\<rparr>))"
  by (simp add: writel_def wp net_wp)

section \<open>A ring as a list of slots\<close>

text \<open>
  Seen from index \<open>i\<close>, the ring is the list of its slots (a buffer and its descriptor) in
  the order in which the device meets them.
\<close>

type_synonym slot = "e1000_buffer \<times> e1000_tx_desc"

definition view :: "e1000_ring \<Rightarrow> nat \<Rightarrow> slot list" where
  "view r i = rotate i (zip (buffer_info r) (ring_desc r))"

definition ring_wf :: "e1000_ring \<Rightarrow> bool" where
  "ring_wf r \<longleftrightarrow> 0 < ring_count r \<and> ring_count r < 2 ^ 16 \<and>
     List.length (buffer_info r) = ring_count r \<and> List.length (ring_desc r) = ring_count r \<and>
     next_to_use r < ring_count r \<and> next_to_clean r < ring_count r \<and>
     (\<forall>b \<in> set (buffer_info r). buf_next_to_watch b < ring_count r)"

lemma ring_wf_simps:
  assumes "ring_wf r"
  shows "0 < ring_count r" "List.length (buffer_info r) = ring_count r"
    "List.length (ring_desc r) = ring_count r" "next_to_use r < ring_count r"
    "next_to_clean r < ring_count r" "n < ring_count r \<Longrightarrow> u16_of n = n"
    "i < ring_count r \<Longrightarrow> buf_next_to_watch (buffer_info r ! i) < ring_count r"
  using assms by (auto simp: ring_wf_def u16_of_def)

lemma ring_next_less: "i < n \<Longrightarrow> ring_next n i < n"
  by (auto simp: ring_next_def)

lemma ring_next_mod: "i < n \<Longrightarrow> ring_next n i = (i + 1) mod n"
  by (auto simp: ring_next_def)

lemma length_view [simp]: "ring_wf r \<Longrightarrow> List.length (view r i) = ring_count r"
  by (simp add: view_def ring_wf_simps)

lemma view_nth:
  assumes "ring_wf r" and "k < ring_count r"
  shows "view r i ! k = (buffer_info r ! ((i + k) mod ring_count r), ring_desc r ! ((i + k) mod ring_count r))"
  using assms ring_wf_simps(1) [OF assms(1)] by (simp add: view_def nth_rotate ring_wf_simps add.commute)

lemma mod_add_cancel:
  fixes i :: nat
  assumes "k < n" and "j < n"
  shows "(i + k) mod n = (i + j) mod n \<longleftrightarrow> k = j"
proof -
  have "k = j" if "k < n" "j < n" "k \<le> j" "(i + j) mod n = (i + k) mod n" for k j
  proof -
    have "n dvd (i + j) - (i + k)" using that(3,4) by (subst (asm) mod_eq_dvd_iff_nat) simp_all
    then have "n dvd j - k" by simp
    then show "k = j" using that(2,3) by (meson dvd_imp_le le_neq_implies_less less_imp_diff_less not_le zero_less_diff)
  qed
  from this [of k j] this [of j k] show ?thesis using assms by (metis nat_le_linear)
qed

lemma rotate_update:
  assumes "k < List.length xs"
  shows "rotate i (xs[(i + k) mod List.length xs := v]) = (rotate i xs)[k := v]"
proof (rule nth_equalityI)
  fix j assume "j < List.length (rotate i (xs[(i + k) mod List.length xs := v]))"
  then have j: "j < List.length xs" by simp
  then have m: "(i + j) mod List.length xs < List.length xs" by (intro mod_less_divisor) linarith
  have "(i + k) mod List.length xs = (i + j) mod List.length xs \<longleftrightarrow> k = j"
    using mod_add_cancel [OF assms j] .
  then show "rotate i (xs[(i + k) mod List.length xs := v]) ! j = (rotate i xs)[k := v] ! j"
    using j assms m by (auto simp: nth_rotate nth_list_update add.commute)
qed simp

lemma view_next:
  assumes "ring_wf r" and "i < ring_count r"
  shows "view r (ring_next (ring_count r) i) = rotate1 (view r i)"
proof (cases "i + 1 = ring_count r")
  case True
  have "rotate (Suc i) (zip (buffer_info r) (ring_desc r)) = zip (buffer_info r) (ring_desc r)"
    using True assms(1) by (intro rotate_id) (simp add: ring_wf_simps)
  then have "rotate1 (view r i) = zip (buffer_info r) (ring_desc r)" by (simp add: view_def)
  with True show ?thesis by (simp add: view_def ring_next_def)
qed (simp add: view_def ring_next_def)

lemma view_shift:
  assumes "ring_wf r"
  shows "view r ((i + k) mod ring_count r) = rotate k (view r i)"
proof -
  have "List.length (zip (buffer_info r) (ring_desc r)) = ring_count r" using assms by (simp add: ring_wf_simps)
  then show ?thesis unfolding view_def rotate_rotate by (metis rotate_conv_mod add.commute)
qed

text \<open>Updates of slot \<open>k\<close> from \<open>i\<close>.\<close>

definition put_slot :: "nat \<Rightarrow> slot \<Rightarrow> e1000_ring \<Rightarrow> e1000_ring" where
  "put_slot i s r = r\<lparr>buffer_info := (buffer_info r)[i := fst s], ring_desc := (ring_desc r)[i := snd s]\<rparr>"

lemma put_slot_fields [simp]:
  "ring_count (put_slot i s r) = ring_count r" "next_to_use (put_slot i s r) = next_to_use r"
  "next_to_clean (put_slot i s r) = next_to_clean r"
  by (simp_all add: put_slot_def)

lemma put_slot_wf:
  "ring_wf r \<Longrightarrow> buf_next_to_watch (fst s) < ring_count r \<Longrightarrow> ring_wf (put_slot i s r)"
  by (auto simp: ring_wf_def put_slot_def dest: subsetD [OF set_update_subset_insert])

lemma view_put_slot:
  assumes "ring_wf r" and "k < ring_count r"
  shows "view (put_slot ((i + k) mod ring_count r) s r) i = (view r i)[k := s]"
proof -
  have len: "List.length (zip (buffer_info r) (ring_desc r)) = ring_count r"
    using assms(1) by (simp add: ring_wf_simps)
  have z: "zip ((buffer_info r)[j := fst s]) ((ring_desc r)[j := snd s]) = (zip (buffer_info r) (ring_desc r))[j := s]"
    for j by (simp add: update_zip)
  show ?thesis
    using rotate_update [of k "zip (buffer_info r) (ring_desc r)" i s] assms(2)
    unfolding len view_def put_slot_def by (simp add: z)
qed

text \<open>Updates of different members are brought into one order.\<close>

lemma net_order [simp]:
  fixes s :: net
  shows
  "adapter_hw_update f0 (tx_ring_update g0 s) = tx_ring_update g0 (adapter_hw_update f0 s)"
  "adapter_hw_update f1 (ad_update g1 s) = ad_update g1 (adapter_hw_update f1 s)"
  "adapter_hw_update f2 (queue_stopped_update g2 s) = queue_stopped_update g2 (adapter_hw_update f2 s)"
  "adapter_hw_update f3 (os_trace_update g3 s) = os_trace_update g3 (adapter_hw_update f3 s)"
  "tx_ring_update f4 (ad_update g4 s) = ad_update g4 (tx_ring_update f4 s)"
  "tx_ring_update f5 (queue_stopped_update g5 s) = queue_stopped_update g5 (tx_ring_update f5 s)"
  "tx_ring_update f6 (os_trace_update g6 s) = os_trace_update g6 (tx_ring_update f6 s)"
  "ad_update f7 (queue_stopped_update g7 s) = queue_stopped_update g7 (ad_update f7 s)"
  "ad_update f8 (os_trace_update g8 s) = os_trace_update g8 (ad_update f8 s)"
  "queue_stopped_update f9 (os_trace_update g9 s) = os_trace_update g9 (queue_stopped_update f9 s)"
  by (cases s; simp)+

lemma ring_order [simp]:
  fixes r :: e1000_ring
  shows
  "next_to_use_update f0 (next_to_clean_update g0 r) = next_to_clean_update g0 (next_to_use_update f0 r)"
  "next_to_use_update f1 (buffer_info_update g1 r) = buffer_info_update g1 (next_to_use_update f1 r)"
  "next_to_use_update f2 (ring_desc_update g2 r) = ring_desc_update g2 (next_to_use_update f2 r)"
  "next_to_clean_update f3 (buffer_info_update g3 r) = buffer_info_update g3 (next_to_clean_update f3 r)"
  "next_to_clean_update f4 (ring_desc_update g4 r) = ring_desc_update g4 (next_to_clean_update f4 r)"
  "buffer_info_update f5 (ring_desc_update g5 r) = ring_desc_update g5 (buffer_info_update f5 r)"
  by (cases r; simp)+

section \<open>Packets in flight\<close>

text \<open>
  A packet in flight: the number of its slots and the packet itself. Its first buffer watches the
  last slot, the packet hangs at the last buffer, and only the last descriptor asks the device to
  report.
\<close>

type_synonym packet = "nat \<times> sk_buff"

definition slot_done :: "slot \<Rightarrow> bool" where
  "slot_done s \<longleftrightarrow> desc_upper (snd s) AND E1000_TXD_STAT_DD \<noteq> 0"

definition free_slot :: "slot \<Rightarrow> bool" where
  "free_slot s \<longleftrightarrow> buf_skb (fst s) = None \<and> \<not> slot_done s"

definition reports :: "slot \<Rightarrow> bool" where
  "reports s \<longleftrightarrow> desc_lower (snd s) AND E1000_TXD_CMD_RS \<noteq> 0"

definition packet_slots :: "nat \<Rightarrow> nat \<Rightarrow> packet \<Rightarrow> slot list \<Rightarrow> bool" where
  "packet_slots n i p ss \<longleftrightarrow> ss \<noteq> [] \<and> List.length ss = fst p \<and>
     buf_next_to_watch (fst (hd ss)) = (i + (fst p - 1)) mod n \<and>
     (\<forall>s \<in> set (butlast ss). free_slot s \<and> \<not> reports s) \<and> reports (last ss) \<and>
     buf_skb (fst (last ss)) = Some (snd p) \<and> buf_segs (fst (last ss)) = skb_segs (snd p) \<and>
     buf_bytecount (fst (last ss)) = skb_bytecount (snd p)"

fun packets_at :: "nat \<Rightarrow> nat \<Rightarrow> packet list \<Rightarrow> slot list \<Rightarrow> bool" where
  "packets_at n i [] ss = (\<forall>s \<in> set ss. free_slot s)"
| "packets_at n i (p # ps) ss =
     (packet_slots n i p (take (fst p) ss) \<and> packets_at n ((i + fst p) mod n) ps (drop (fst p) ss))"

definition slots_of :: "packet list \<Rightarrow> nat" where
  "slots_of ps = sum_list (map fst ps)"

definition ring_at :: "e1000_ring \<Rightarrow> nat \<Rightarrow> packet list \<Rightarrow> bool" where
  "ring_at r i ps \<longleftrightarrow> ring_wf r \<and> i < ring_count r \<and> packets_at (ring_count r) i ps (view r i) \<and>
     slots_of ps < ring_count r \<and> next_to_use r = (i + slots_of ps) mod ring_count r"

definition tx_inv :: "e1000_ring \<Rightarrow> packet list \<Rightarrow> bool" where
  "tx_inv r ps \<longleftrightarrow> ring_at r (next_to_clean r) ps"

text \<open>How many packets at the front the device has reported.\<close>

fun done_packets :: "packet list \<Rightarrow> slot list \<Rightarrow> nat" where
  "done_packets [] ss = 0"
| "done_packets (p # ps) ss =
     (if slot_done (last (take (fst p) ss)) then Suc (done_packets ps (drop (fst p) ss)) else 0)"

lemma slots_of_simps [simp]: "slots_of [] = 0" "slots_of (p # ps) = fst p + slots_of ps"
  by (simp_all add: slots_of_def)

lemma packet_slots_pos: "packet_slots n i p ss \<Longrightarrow> 0 < fst p"
  by (metis length_greater_0_conv packet_slots_def)

lemma packets_at_append:
  "packets_at n i ps ss \<Longrightarrow> \<forall>s \<in> set ts. free_slot s \<Longrightarrow> packets_at n i ps (ss @ ts)"
proof (induction ps arbitrary: i ss)
  case (Cons p ps)
  then have "fst p \<le> List.length ss" by (auto simp: packet_slots_def min_def split: if_splits)
  with Cons show ?case by simp
qed auto

lemma packets_at_length: "packets_at n i ps ss \<Longrightarrow> slots_of ps \<le> List.length ss"
proof (induction ps arbitrary: i ss)
  case (Cons p ps)
  then have "fst p \<le> List.length ss" by (auto simp: packet_slots_def min_def split: if_splits)
  moreover have "slots_of ps \<le> List.length (drop (fst p) ss)"
    using Cons.prems by (intro Cons.IH) auto
  ultimately show ?case by simp
qed simp

lemma done_packets_append:
  "packets_at n i ps ss \<Longrightarrow> done_packets ps (ss @ ts) = done_packets ps ss"
proof (induction ps arbitrary: i ss)
  case (Cons p ps)
  then have "fst p \<le> List.length ss" by (auto simp: packet_slots_def min_def split: if_splits)
  with Cons show ?case by auto
qed simp

lemma done_packets_le: "done_packets ps ss \<le> List.length ps"
  by (induction ps ss rule: done_packets.induct) auto

section \<open>Cleaning one slot and one packet\<close>

definition clear_slot :: "slot \<Rightarrow> slot" where
  "clear_slot s = ((fst s)\<lparr>buf_dma := 0, buf_skb := None, buf_time_stamp := 0\<rparr>, (snd s)\<lparr>desc_upper := 0\<rparr>)"

definition put_events :: "e1000_buffer \<Rightarrow> os_event list" where
  "put_events b = (case buf_skb b of Some skb \<Rightarrow> [SkbFree (skb_id skb)] | None \<Rightarrow> []) @
     (if buf_dma b = 0 then []
      else if buf_mapped_as_page b then [DmaUnmapPage (buf_dma b) (buf_length b)]
      else [DmaUnmapSingle (buf_dma b) (buf_length b)])"

lemma buffer_unchanged:
  "buf_dma b = 0 \<Longrightarrow> b\<lparr>buf_dma := 0\<rparr> = b" "buf_skb b = None \<Longrightarrow> b\<lparr>buf_skb := None\<rparr> = b"
  by (cases b; simp)+

lemma wp_put_txbuf [net_wp]:
  "wp (e1000_put_txbuf i) Q = (\<lambda>s. Q () (s\<lparr>tx_ring := tx_ring s\<lparr>buffer_info :=
       (buffer_info (tx_ring s))[i := (buffer_info (tx_ring s) ! i)\<lparr>buf_dma := 0, buf_skb := None, buf_time_stamp := 0\<rparr>]\<rparr>,
     os_trace := put_events (buffer_info (tx_ring s) ! i) @ os_trace s\<rparr>))"
proof (rule ext)
  fix s :: net
  let ?bs = "buffer_info (tx_ring s)"
  show "wp (e1000_put_txbuf i) Q s = Q () (s\<lparr>tx_ring := tx_ring s\<lparr>buffer_info :=
       ?bs[i := (?bs ! i)\<lparr>buf_dma := 0, buf_skb := None, buf_time_stamp := 0\<rparr>]\<rparr>,
     os_trace := put_events (?bs ! i) @ os_trace s\<rparr>)"
  proof (cases "i < List.length ?bs")
    case True
    then show ?thesis
      by (cases "buf_skb (?bs ! i)"; cases "buf_dma (?bs ! i) = 0")
        (simp_all add: e1000_put_txbuf_def wp wp_option net_wp put_events_def Let_def buffer_unchanged)
  next
    case False
    then have "?bs[i := b] = ?bs" for b by (simp add: list_update_beyond)
    then show ?thesis
      by (cases "buf_skb (?bs ! i)")
        (simp_all add: e1000_put_txbuf_def wp wp_option net_wp put_events_def Let_def buffer_unchanged)
  qed
qed

lemma clear_slot_free: "free_slot (clear_slot s)"
  by (simp add: free_slot_def slot_done_def clear_slot_def)

lemma view_head:
  assumes "ring_wf r" and "i < ring_count r" and "view r i = y # ys"
  shows "y = (buffer_info r ! i, ring_desc r ! i)"
  using view_nth [OF assms(1), of 0 i] assms(2,3) by simp

lemma clear_head:
  assumes "ring_wf r" and "i < ring_count r" and "view r i = y # ys"
  shows "ring_wf (put_slot i (clear_slot y) r)"
    "view (put_slot i (clear_slot y) r) (ring_next (ring_count r) i) = ys @ [clear_slot y]"
proof -
  show wf: "ring_wf (put_slot i (clear_slot y) r)"
    using assms view_head [OF assms]
    by (intro put_slot_wf) (simp_all add: clear_slot_def ring_wf_simps)
  have "view (put_slot i (clear_slot y) r) i = clear_slot y # ys"
    using view_put_slot [OF assms(1), of 0 i] assms(2,3) ring_wf_simps(1) [OF assms(1)] by simp
  then show "view (put_slot i (clear_slot y) r) (ring_next (ring_count r) i) = ys @ [clear_slot y]"
    using view_next [OF wf] assms(2) by simp
qed

lemma clean_account_fields [simp]:
  "cl_i (clean_account b l) = cl_i l" "cl_count (clean_account b l) = cl_count l"
  "clean_account b (l\<lparr>cl_i := x, cl_count := y\<rparr>) = (clean_account b l)\<lparr>cl_i := x, cl_count := y\<rparr>"
  by (simp_all add: clean_account_def Let_def split: option.splits)

lemma wp_clean_packet:
  assumes "ring_wf (tx_ring s)" and "cl_i l < ring_count (tx_ring s)"
    and "view (tx_ring s) (cl_i l) = ss @ x # rest"
    and "eop = (cl_i l + List.length ss) mod ring_count (tx_ring s)" and "List.length ss < fuel"
  shows "wp (clean_packet fuel eop l) (\<lambda>res s'. \<exists>r.
      res = Inr ((clean_account (fst x) l)\<lparr>
        cl_i := (cl_i l + Suc (List.length ss)) mod ring_count (tx_ring s),
        cl_count := cl_count l + Suc (List.length ss)\<rparr>) \<and>
      s' = s\<lparr>tx_ring := r, os_trace := concat (map (put_events \<circ> fst) (rev (ss @ [x]))) @ os_trace s\<rparr> \<and>
      ring_wf r \<and> ring_count r = ring_count (tx_ring s) \<and> next_to_use r = next_to_use (tx_ring s) \<and>
      next_to_clean r = next_to_clean (tx_ring s) \<and>
      view r ((cl_i l + Suc (List.length ss)) mod ring_count (tx_ring s)) =
        rest @ map clear_slot (ss @ [x])) s"
  using assms
proof (induction ss arbitrary: s l fuel rest)
  case Nil
  then obtain f where fuel: "fuel = Suc f" by (cases fuel) auto
  note head = view_head [OF Nil.prems(1,2), of x rest] clear_head [OF Nil.prems(1,2), of x rest]
  have eop: "cl_i l = eop" using Nil.prems by simp
  show ?case
    using head Nil.prems(1-3) eop
    unfolding fuel clean_packet.simps wp
    by (simp add: wp net_wp Let_def ring_next_mod put_slot_def clear_slot_def, fastforce?)
next
  case (Cons y ss)
  then obtain f where fuel: "fuel = Suc f" "List.length ss < f" by (cases fuel) auto
  let ?N = "ring_count (tx_ring s)" and ?i = "cl_i l"
  have v: "view (tx_ring s) ?i = y # (ss @ x # rest)" using Cons.prems(3) by simp
  have len: "List.length ss + 2 \<le> ?N"
    using arg_cong [OF v, of List.length] Cons.prems(1) by simp
  note head = view_head [OF Cons.prems(1,2) v] clear_head [OF Cons.prems(1,2) v]
  have "(?i + 0) mod ?N \<noteq> (?i + Suc (List.length ss)) mod ?N"
    using mod_add_cancel [of 0 ?N "Suc (List.length ss)" ?i] len by simp
  then have ne: "?i \<noteq> eop" using Cons.prems(2,4) by simp
  let ?r = "put_slot ?i (clear_slot y) (tx_ring s)"
  let ?s = "s\<lparr>tx_ring := ?r, os_trace := put_events (fst y) @ os_trace s\<rparr>"
  let ?l = "l\<lparr>cl_i := (?i + 1) mod ?N, cl_count := cl_count l + 1\<rparr>"
  have next': "(?i + 1) mod ?N = ring_next ?N ?i" using Cons.prems(2) by (simp add: ring_next_mod)
  have IH: "wp (clean_packet f eop ?l) (\<lambda>res s'. \<exists>r.
      res = Inr ((clean_account (fst x) ?l)\<lparr>cl_i := (cl_i ?l + Suc (List.length ss)) mod ring_count (tx_ring ?s),
        cl_count := cl_count ?l + Suc (List.length ss)\<rparr>) \<and>
      s' = ?s\<lparr>tx_ring := r, os_trace := concat (map (put_events \<circ> fst) (rev (ss @ [x]))) @ os_trace ?s\<rparr> \<and>
      ring_wf r \<and> ring_count r = ring_count (tx_ring ?s) \<and> next_to_use r = next_to_use (tx_ring ?s) \<and>
      next_to_clean r = next_to_clean (tx_ring ?s) \<and>
      view r ((cl_i ?l + Suc (List.length ss)) mod ring_count (tx_ring ?s)) =
        (rest @ [clear_slot y]) @ map clear_slot (ss @ [x])) ?s"
    using head Cons.prems(2,4) fuel(2) len
    by (intro Cons.IH) (simp_all add: next' [symmetric] mod_simps)
  have idx: "(cl_i ?l + Suc (List.length ss)) mod ring_count (tx_ring ?s) =
      (?i + Suc (List.length (y # ss))) mod ?N"
    using mod_add_left_eq [of "?i + 1" ?N "Suc (List.length ss)"] by simp
  have step: "wp (clean_packet fuel eop l) Q s = wp (clean_packet f eop ?l) Q ?s" for Q
    using ne head(1) Cons.prems(2)
    unfolding fuel(1) clean_packet.simps wp
    by (simp add: wp net_wp Let_def put_slot_def clear_slot_def ring_next_mod)
  show ?case
    unfolding step
    by (rule wp_mono [OF IH]) (use idx in \<open>auto simp: clear_slot_def\<close>)
qed

section \<open>Cleaning the ring\<close>

text \<open>The packets a history frees, oldest first.\<close>

fun freed :: "os_event list \<Rightarrow> nat list" where
  "freed [] = []"
| "freed (e # t) = freed t @ (case e of SkbFree n \<Rightarrow> [n] | _ \<Rightarrow> [])"

lemma freed_append [simp]: "freed (a @ b) = freed b @ freed a"
  by (induction a) auto

lemma freed_put_events [simp]:
  "freed (put_events b) = (case buf_skb b of Some skb \<Rightarrow> [skb_id skb] | None \<Rightarrow> [])"
  by (simp add: put_events_def split: option.splits)

definition clean_events :: "slot list \<Rightarrow> os_event list" where
  "clean_events ss = concat (map (put_events \<circ> fst) (rev ss))"

lemma clean_events_append [simp]:
  "clean_events (ss @ ts) = clean_events ts @ clean_events ss" "clean_events [] = []"
  "clean_events [x] = put_events (fst x)"
  by (simp_all add: clean_events_def)

lemma freed_free_slots: "\<forall>s \<in> set ss. free_slot s \<Longrightarrow> freed (clean_events ss) = []"
  by (induction ss rule: rev_induct) (auto simp: clean_events_def free_slot_def)

lemma freed_packet:
  assumes "packet_slots n i p ss"
  shows "freed (clean_events ss) = [skb_id (snd p)]"
proof -
  have ss: "ss = butlast ss @ [last ss]" using assms by (simp add: packet_slots_def)
  have "freed (clean_events (butlast ss @ [last ss])) = [skb_id (snd p)]"
    using assms freed_free_slots [of "butlast ss"]
    unfolding clean_events_append freed_append by (simp add: packet_slots_def)
  with ss show ?thesis by simp
qed

text \<open>What cleaning a list of packets adds up.\<close>

definition account :: "packet list \<Rightarrow> clean_locals \<Rightarrow> clean_locals" where
  "account ps l = l\<lparr>
     cl_tx_bytes := cl_tx_bytes l + sum_list (map (skb_bytecount \<circ> snd) ps),
     cl_tx_packets := cl_tx_packets l + sum_list (map (skb_segs \<circ> snd) ps),
     cl_bytes_compl := cl_bytes_compl l + sum_list (map (of_nat \<circ> skb_len \<circ> snd) ps),
     cl_pkts_compl := cl_pkts_compl l + of_nat (List.length ps)\<rparr>"

lemma account_fields [simp]:
  "cl_i (account ps l) = cl_i l" "cl_count (account ps l) = cl_count l" "account [] l = l"
  "account ps (l\<lparr>cl_i := i, cl_count := c\<rparr>) = (account ps l)\<lparr>cl_i := i, cl_count := c\<rparr>"
  by (simp_all add: account_def)

lemma account_Cons:
  "packet_slots n i p ss \<Longrightarrow> account ps (clean_account (fst (last ss)) l) = account (p # ps) l"
  by (cases l) (simp add: packet_slots_def account_def clean_account_def Let_def algebra_simps)

lemma ring_at_wf: "ring_at r i ps \<Longrightarrow> ring_wf r" "ring_at r i ps \<Longrightarrow> i < ring_count r"
  by (simp_all add: ring_at_def)

lemma ring_at_Cons:
  assumes "ring_at r i (p # ps)"
  defines "v \<equiv> view r i"
  shows "packet_slots (ring_count r) i p (take (fst p) v)"
    "v = butlast (take (fst p) v) @ last (take (fst p) v) # drop (fst p) v"
    "List.length (butlast (take (fst p) v)) = fst p - 1" "0 < fst p"
    "buf_next_to_watch (buffer_info r ! i) = (i + (fst p - 1)) mod ring_count r"
    "tx_done r ((i + (fst p - 1)) mod ring_count r) \<longleftrightarrow> slot_done (last (take (fst p) v))"
proof -
  have wf: "ring_wf r" and i: "i < ring_count r" and n: "fst p < ring_count r"
    using assms(1) by (auto simp: ring_at_def)
  show p: "packet_slots (ring_count r) i p (take (fst p) v)" using assms by (simp add: ring_at_def)
  then have ne: "take (fst p) v \<noteq> []" by (simp add: packet_slots_def)
  then show "v = butlast (take (fst p) v) @ last (take (fst p) v) # drop (fst p) v"
    by (metis append.assoc append_Cons append_Nil append_butlast_last_id append_take_drop_id)
  have len: "List.length v = ring_count r" using wf by (simp add: v_def)
  show pos: "0 < fst p" using packet_slots_pos [OF p] .
  show "List.length (butlast (take (fst p) v)) = fst p - 1" using len n by simp
  have "hd (take (fst p) v) = v ! 0" using ne pos by (simp add: hd_conv_nth)
  then show "buf_next_to_watch (buffer_info r ! i) = (i + (fst p - 1)) mod ring_count r"
    using p view_nth [OF wf, of 0 i] i n by (simp add: packet_slots_def v_def)
  have "last (take (fst p) v) = v ! (fst p - 1)" using ne len n pos by (simp add: last_conv_nth)
  then show "tx_done r ((i + (fst p - 1)) mod ring_count r) \<longleftrightarrow> slot_done (last (take (fst p) v))"
    using view_nth [OF wf, of "fst p - 1" i] n by (simp add: v_def slot_done_def tx_done_def)
qed

lemma idle_done:
  assumes "ring_at r i []"
  shows "\<not> tx_done r (buf_next_to_watch (buffer_info r ! i))"
proof -
  have wf: "ring_wf r" and i: "i < ring_count r" using assms by (auto simp: ring_at_def)
  let ?e = "buf_next_to_watch (buffer_info r ! i)"
  have e: "?e < ring_count r" using wf i by (simp add: ring_wf_simps)
  have "zip (buffer_info r) (ring_desc r) ! ?e \<in> set (zip (buffer_info r) (ring_desc r))"
    using e wf by (intro nth_mem) (simp add: ring_wf_simps)
  then have "view r 0 ! ?e \<in> set (view r i)" by (simp add: view_def)
  then have "free_slot (view r 0 ! ?e)" using assms by (auto simp: ring_at_def)
  then show ?thesis using view_nth [OF wf e, of 0] e by (simp add: free_slot_def slot_done_def tx_done_def)
qed

lemma clean_packets_spec:
  assumes "ring_at (tx_ring s) (cl_i l) ps" and "List.length ps \<le> fuel"
    and "cl_count l + slots_of ps < ring_count (tx_ring s)"
  shows "let v = view (tx_ring s) (cl_i l); n = ring_count (tx_ring s); k = done_packets ps v;
      m = slots_of (take k ps); i = (cl_i l + m) mod n in
    wp (clean_packets fuel l) (\<lambda>res s'. \<exists>r.
      res = Inr ((account (take k ps) l)\<lparr>cl_i := i, cl_count := cl_count l + m\<rparr>) \<and>
      s' = s\<lparr>tx_ring := r, os_trace := clean_events (take m v) @ os_trace s\<rparr> \<and>
      ring_at r i (drop k ps) \<and> ring_count r = n \<and> next_to_clean r = next_to_clean (tx_ring s) \<and>
      freed (clean_events (take m v)) = map (skb_id \<circ> snd) (take k ps) \<and>
      view r i = drop m v @ map clear_slot (take m v)) s"
  using assms
proof (induction ps arbitrary: s l fuel)
  case Nil
  then have "\<not> tx_done (tx_ring s) (buf_next_to_watch (buffer_info (tx_ring s) ! cl_i l))"
    using idle_done by simp
  then show ?case
    using Nil.prems(1)
    by (simp add: clean_packets.simps [of fuel] wp Let_def ring_at_wf) (rule exI [of _ "tx_ring s"], simp)
next
  case (Cons p ps)
  let ?r = "tx_ring s" and ?N = "ring_count (tx_ring s)" and ?i = "cl_i l" and ?v = "view (tx_ring s) (cl_i l)"
  let ?n = "fst p" and ?ss = "butlast (take (fst p) (view (tx_ring s) (cl_i l)))" and ?x = "last (take (fst p) (view (tx_ring s) (cl_i l)))"
  note at = ring_at_Cons [OF Cons.prems(1)]
  have wf: "ring_wf ?r" and i: "?i < ?N" and tot: "?n + slots_of ps < ?N"
    using Cons.prems(1) by (auto simp: ring_at_def)
  show ?case
  proof (cases "slot_done ?x")
    case False
    then show ?thesis
      using Cons.prems(1) at i
      by (simp add: clean_packets.simps [of fuel] wp Let_def) (rule exI [of _ "tx_ring s"], simp)
  next
    case True
    then obtain f where fuel: "fuel = Suc f" "List.length ps \<le> f" using Cons.prems(2) by (cases fuel) auto
    have clean: "wp (clean_packet ?N ((?i + (?n - 1)) mod ?N) l) (\<lambda>res s'. \<exists>r.
      res = Inr ((clean_account (fst ?x) l)\<lparr>cl_i := (?i + ?n) mod ?N, cl_count := cl_count l + ?n\<rparr>) \<and>
      s' = s\<lparr>tx_ring := r, os_trace := clean_events (take ?n ?v) @ os_trace s\<rparr> \<and>
      ring_wf r \<and> ring_count r = ?N \<and> next_to_use r = next_to_use ?r \<and>
      next_to_clean r = next_to_clean ?r \<and>
      view r ((?i + ?n) mod ?N) = drop ?n ?v @ map clear_slot (take ?n ?v)) s"
    proof (rule wp_mono [OF wp_clean_packet [OF wf i at(2), of _ ?N]], goal_cases)
      case (3 res s')
      have "Suc (List.length ?ss) = ?n" using at(3,4) by simp
      moreover have "?ss @ [?x] = take ?n ?v"
        using at(1) by (simp add: packet_slots_def)
      ultimately show ?case using 3 unfolding clean_events_def by simp
    qed (use at(3) tot in simp_all)
    let ?l = "(clean_account (fst ?x) l)\<lparr>cl_i := (?i + ?n) mod ?N, cl_count := cl_count l + ?n\<rparr>"
    let ?k = "done_packets ps (drop ?n ?v)" and ?j = "(?i + ?n) mod ?N"
    let ?m = "slots_of (take ?k ps)"
    have acc: "account qs (clean_account (fst ?x) l) = account (p # qs) l" for qs
      using account_Cons [OF at(1)] .
    have lenv: "List.length ?v = ?N" using wf by simp
    have mle: "?m \<le> slots_of ps"
      unfolding slots_of_def by (metis append_take_drop_id le_add1 map_append sum_list.append)
    have pick: "take (?n + ?m) ?v = take ?n ?v @ take ?m (drop ?n ?v)" by (simp add: take_add)
    have goal: "wp (clean_packets fuel l) (\<lambda>res s'. \<exists>r.
      res = Inr ((account (p # take ?k ps) l)\<lparr>cl_i := (?i + (?n + ?m)) mod ?N, cl_count := cl_count l + (?n + ?m)\<rparr>) \<and>
      s' = s\<lparr>tx_ring := r, os_trace := clean_events (take (?n + ?m) ?v) @ os_trace s\<rparr> \<and>
      ring_at r ((?i + (?n + ?m)) mod ?N) (drop ?k ps) \<and> ring_count r = ?N \<and> next_to_clean r = next_to_clean ?r \<and>
      freed (clean_events (take (?n + ?m) ?v)) = skb_id (snd p) # map (skb_id \<circ> snd) (take ?k ps) \<and>
      view r ((?i + (?n + ?m)) mod ?N) = drop (?n + ?m) ?v @ map clear_slot (take (?n + ?m) ?v)) s"
    proof -
      let ?rest = "\<lambda>r. case r of Inl e \<Rightarrow> return (Inl e)
        | Inr l \<Rightarrow> if cl_i l = next_to_use ?r then return (Inr l) else clean_packets f l"
      have unfold: "wp (clean_packets fuel l) Q s =
          wp (clean_packet ?N ((?i + (?n - 1)) mod ?N) l) (\<lambda>r. wp (?rest r) Q) s" for Q
        using at(5,6) True Cons.prems(3) by (simp add: clean_packets.simps [of "Suc f"] wp fuel(1) Let_def)
      show ?thesis
        unfolding unfold
      proof (rule wp_mono [OF clean], elim exE conjE, goal_cases)
        case (1 res s' r)
        have pk: "packets_at ?N ?j ps (drop ?n ?v)" using Cons.prems(1) by (simp add: ring_at_def)
        have rat: "ring_at r ?j ps"
          using 1 tot i packets_at_append [OF pk, of "map clear_slot (take ?n ?v)"] Cons.prems(1)
          by (simp add: ring_at_def clear_slot_free mod_simps add.assoc)
        have m: "?m \<le> List.length (drop ?n ?v)" using mle packets_at_length [OF pk] by simp
        have idx: "(?j + ?m) mod ?N = (?i + (?n + ?m)) mod ?N" by (simp add: mod_simps add.assoc)
        show ?case
        proof (cases "ps = []")
          case True
          then have "?j = next_to_use ?r" using rat 1 by (simp add: ring_at_def)
          then show ?thesis
            using 1 rat True freed_packet [OF at(1)] acc [of "[]"] by (simp add: wp) (rule exI [of _ r], simp)
        next
          case False
          then have "0 < slots_of ps" using pk by (cases ps) (auto dest: packet_slots_pos)
          then have "(?j + 0) mod ?N \<noteq> (?j + slots_of ps) mod ?N"
            using mod_add_cancel [of 0 ?N "slots_of ps" ?j] tot by simp
          then have ne: "?j \<noteq> next_to_use ?r" using rat 1 by (simp add: ring_at_def)
          have v': "view (tx_ring s') ?j = drop ?n ?v @ map clear_slot (take ?n ?v)"
            and s': "tx_ring s' = r" using 1 by simp_all
          have k': "done_packets ps (view (tx_ring s') ?j) = ?k"
            unfolding v' using done_packets_append [OF pk] .
          have "wp (clean_packets f ?l) (\<lambda>res s''. \<exists>r.
            res = Inr ((account (take ?k ps) ?l)\<lparr>cl_i := (?j + ?m) mod ?N, cl_count := cl_count l + ?n + ?m\<rparr>) \<and>
            s'' = s'\<lparr>tx_ring := r, os_trace := clean_events (take ?m (view (tx_ring s') ?j)) @ os_trace s'\<rparr> \<and>
            ring_at r ((?j + ?m) mod ?N) (drop ?k ps) \<and> ring_count r = ?N \<and> next_to_clean r = next_to_clean ?r \<and>
            freed (clean_events (take ?m (view (tx_ring s') ?j))) = map (skb_id \<circ> snd) (take ?k ps) \<and>
            view r ((?j + ?m) mod ?N) = drop ?m (view (tx_ring s') ?j) @ map clear_slot (take ?m (view (tx_ring s') ?j))) s'"
          proof -
            have li: "cl_i ?l = ?j" "cl_count ?l = cl_count l + ?n" "ring_count (tx_ring s') = ?N"
              "next_to_clean (tx_ring s') = next_to_clean ?r"
              using 1 by simp_all
            have "ring_at (tx_ring s') (cl_i ?l) ps" "cl_count ?l + slots_of ps < ring_count (tx_ring s')"
              using rat s' li Cons.prems(3) by simp_all
            from Cons.IH [OF this(1) fuel(2) this(2)] show ?thesis unfolding Let_def li k' .
          qed
          note run = this
          have "take ?m (view (tx_ring s') ?j) = take ?m (drop ?n ?v)"
            and "drop ?m (view (tx_ring s') ?j) = drop (?n + ?m) ?v @ map clear_slot (take ?n ?v)"
            unfolding v' using m by (simp_all add: add.commute)
          note run = run [unfolded this]
          have rest: "?rest (Inr ?l) = clean_packets f ?l" using ne by simp
          show ?thesis
            unfolding 1(1) rest
          proof (rule wp_mono [OF run], elim exE conjE, goal_cases)
            case (1 res'' s'' r'')
            then show ?case
              using \<open>s' = _\<close> freed_packet [OF at(1)]
              by (intro exI [of _ r'']) (simp add: idx pick acc add.assoc)
          qed
        qed
      qed
    qed
    have k: "done_packets (p # ps) ?v = Suc ?k" using True by simp
    show ?thesis
      using goal unfolding Let_def k take_Suc_Cons drop_Suc_Cons slots_of_simps list.map comp_def .
  qed
qed

section \<open>The interrupt of the transmit ring\<close>

text \<open>What no operation of the data path changes.\<close>

definition env_same :: "net \<Rightarrow> net \<Rightarrow> bool" where
  "env_same s s' \<longleftrightarrow> kernel_of s' = kernel_of s \<and> down s' = down s \<and> carrier_ok s' = carrier_ok s \<and>
     tx_fifo_limit (ad s') = tx_fifo_limit (ad s) \<and> txd_cmd (ad s') = txd_cmd (ad s) \<and>
     ring_count (tx_ring s') = ring_count (tx_ring s)"

text \<open>The registers that were written, and the packets that were freed, are the same.\<close>

definition quiet_step :: "net \<Rightarrow> net \<Rightarrow> bool" where
  "quiet_step s s' \<longleftrightarrow> env_same s s' \<and> tx_ring s' = tx_ring s \<and> freed (os_trace s') = freed (os_trace s) \<and>
     reg_writes (trace (adapter_hw s')) = reg_writes (trace (adapter_hw s))"

lemma env_same_refl [simp]: "env_same s s"
  by (simp add: env_same_def)

lemma env_same_trans [trans]: "env_same a b \<Longrightarrow> env_same b c \<Longrightarrow> env_same a c"
  by (simp add: env_same_def)

lemma ring_clean_to:
  assumes "ring_at r i ps"
  shows "tx_inv (r\<lparr>next_to_clean := u16_of i\<rparr>) ps"
proof -
  have "u16_of i = i" using assms ring_wf_simps(6) [of r i] by (simp add: ring_at_def)
  with assms show ?thesis by (auto simp: tx_inv_def ring_at_def ring_wf_def view_def)
qed

definition wakes :: "net \<Rightarrow> clean_locals \<Rightarrow> bool" where
  "wakes s l \<longleftrightarrow> cl_count l \<noteq> 0 \<and> carrier_ok s \<and> e1000_desc_unused (tx_ring s) \<ge> int TX_WAKE_THRESHOLD \<and>
     \<not> down s"

lemma wp_tx_wake:
  "wp (tx_wake l) (\<lambda>_ s'. quiet_step s s' \<and> adapter_hw s' = adapter_hw s \<and>
     queue_stopped s' = (queue_stopped s \<and> \<not> wakes s l) \<and>
     total_tx_bytes (ad s') = total_tx_bytes (ad s) \<and> total_tx_packets (ad s') = total_tx_packets (ad s)) s"
  by (auto simp: tx_wake_def wp net_wp quiet_step_def env_same_def wakes_def)

lemma wp_tx_check_hang:
  "wp (tx_check_hang i) (\<lambda>_ s'. quiet_step s s' \<and> queue_stopped s' = queue_stopped s \<and>
     total_tx_bytes (ad s') = total_tx_bytes (ad s) \<and> total_tx_packets (ad s') = total_tx_packets (ad s)) s"
  by (simp add: tx_check_hang_def wp wp_access net_wp quiet_step_def env_same_def Let_def)

lemma slots_of_pos:
  "packets_at n i ps ss \<Longrightarrow> slots_of (take k ps) = 0 \<longleftrightarrow> take k ps = []"
  by (cases ps; cases k) (auto dest: packet_slots_pos)

lemma wp_clean_finish:
  "wp (do {
         set_tx_ring (\<lambda>r. r\<lparr>next_to_clean := u16_of (cl_i l)\<rparr>);
         os (QueueCompleted (cl_pkts_compl l) (cl_bytes_compl l));
         tx_wake l;
         tx_check_hang (cl_i l);
         set_ad (\<lambda>a. a\<lparr>total_tx_bytes := total_tx_bytes a + cl_tx_bytes l,
                       total_tx_packets := total_tx_packets a + cl_tx_packets l\<rparr>);
         return (Inr (cl_count l < n)) }) (\<lambda>res s'. res = Inr (cl_count l < n) \<and> env_same s s' \<and>
     tx_ring s' = tx_ring s\<lparr>next_to_clean := u16_of (cl_i l)\<rparr> \<and> freed (os_trace s') = freed (os_trace s) \<and>
     reg_writes (trace (adapter_hw s')) = reg_writes (trace (adapter_hw s)) \<and>
     total_tx_packets (ad s') = total_tx_packets (ad s) + cl_tx_packets l \<and>
     total_tx_bytes (ad s') = total_tx_bytes (ad s) + cl_tx_bytes l \<and>
     queue_stopped s' = (queue_stopped s \<and> \<not> (cl_count l \<noteq> 0 \<and> carrier_ok s \<and> \<not> down s \<and>
        e1000_desc_unused (tx_ring s') \<ge> int TX_WAKE_THRESHOLD))) s"
  unfolding wp net_wp
  by (rule wp_mono [OF wp_tx_wake], rule wp_mono [OF wp_tx_check_hang])
    (auto simp: quiet_step_def env_same_def wakes_def)

lemma wp_clean_tx_irq:
  assumes inv: "tx_inv (tx_ring s) ps"
  defines "n \<equiv> ring_count (tx_ring s)" and "i \<equiv> next_to_clean (tx_ring s)"
  defines "v \<equiv> view (tx_ring s) i"
  defines "k \<equiv> done_packets ps v"
  defines "m \<equiv> slots_of (take k ps)"
  shows "wp e1000_clean_tx_irq (\<lambda>res s'. res = Inr True \<and> env_same s s' \<and> tx_inv (tx_ring s') (drop k ps) \<and>
      next_to_clean (tx_ring s') = (i + m) mod n \<and> next_to_use (tx_ring s') = next_to_use (tx_ring s) \<and>
      view (tx_ring s') (next_to_clean (tx_ring s')) = drop m v @ map clear_slot (take m v) \<and>
      freed (os_trace s') = freed (os_trace s) @ map (skb_id \<circ> snd) (take k ps) \<and>
      reg_writes (trace (adapter_hw s')) = reg_writes (trace (adapter_hw s)) \<and>
      total_tx_packets (ad s') = total_tx_packets (ad s) + sum_list (map (skb_segs \<circ> snd) (take k ps)) \<and>
      total_tx_bytes (ad s') = total_tx_bytes (ad s) + sum_list (map (skb_bytecount \<circ> snd) (take k ps)) \<and>
      queue_stopped s' = (queue_stopped s \<and> \<not> (k \<noteq> 0 \<and> carrier_ok s \<and> \<not> down s \<and>
        e1000_desc_unused (tx_ring s') \<ge> int TX_WAKE_THRESHOLD))) s"
proof -
  let ?l = "\<lparr>cl_i = i, cl_count = 0, cl_tx_bytes = 0, cl_tx_packets = 0, cl_bytes_compl = 0, cl_pkts_compl = 0\<rparr>"
  have at: "ring_at (tx_ring s) i ps" using inv by (simp add: tx_inv_def i_def)
  then have pk: "packets_at n i ps v" and tot: "slots_of ps < n" and wf: "ring_wf (tx_ring s)"
    by (simp_all add: ring_at_def n_def v_def)
  have "packets_at n j qs ss \<Longrightarrow> List.length qs \<le> slots_of qs" for n j qs ss
    by (induction qs arbitrary: j ss) (fastforce dest: packet_slots_pos)+
  from this [OF pk] have len: "List.length ps \<le> n" using tot by simp
  have "m \<le> slots_of ps"
    unfolding m_def slots_of_def by (metis append_take_drop_id le_add1 map_append sum_list.append)
  then have less: "m < n" using tot by simp
  have kpos: "m \<noteq> 0 \<longleftrightarrow> k \<noteq> 0"
    using slots_of_pos [OF pk, of k] done_packets_le [of ps v] by (auto simp: k_def m_def)
  have j: "u16_of ((i + m) mod n) = (i + m) mod n" using ring_wf_simps(1,6) [OF wf] by (simp add: n_def)
  have main: "wp (clean_packets n ?l) (\<lambda>res s'. \<exists>r.
      res = Inr ((account (take k ps) ?l)\<lparr>cl_i := (i + m) mod n, cl_count := m\<rparr>) \<and>
      s' = s\<lparr>tx_ring := r, os_trace := clean_events (take m v) @ os_trace s\<rparr> \<and>
      ring_at r ((i + m) mod n) (drop k ps) \<and> ring_count r = n \<and> next_to_clean r = i \<and>
      freed (clean_events (take m v)) = map (skb_id \<circ> snd) (take k ps) \<and>
      view r ((i + m) mod n) = drop m v @ map clear_slot (take m v)) s"
    using clean_packets_spec [of s ?l ps n] at len tot by (simp add: Let_def n_def v_def k_def m_def i_def)
  show ?thesis
    unfolding e1000_clean_tx_irq_def wp_bind wp_get i_def [symmetric] n_def [symmetric]
  proof (rule wp_mono [OF main], elim exE conjE, goal_cases)
    case (1 res s1 r)
    note r = ring_clean_to [OF 1(3), unfolded j]
    have slots: "slots_of ps = m + slots_of (drop k ps)"
      unfolding m_def slots_of_def by (metis append_take_drop_id map_append sum_list.append)
    have use': "next_to_use r = next_to_use (tx_ring s)"
      using 1(3,4) at slots by (simp add: ring_at_def n_def mod_simps add.assoc)
    show ?case
      unfolding 1(1) sum.case
      by (rule wp_mono [OF wp_clean_finish])
        (use 1 r j use' less kpos in \<open>auto simp: view_def env_same_def n_def account_def\<close>)
  qed
qed

end
