(* ===== verification/Tx_Map.thy ===== *)
theory Tx_Map
  imports Tx_Queue
begin

text \<open>
  Mapping a packet into the transmit ring: the chunks a packet is mapped in, the slots that the
  two mapping loops of \<open>e1000_tx_map\<close> leave, what is taken back after an error, and how a
  packet is appended to the packets in flight.
\<close>

unbundle bit_operations_syntax

section \<open>The chunks of a packet\<close>

function pieces :: "nat \<Rightarrow> nat \<Rightarrow> nat \<Rightarrow> (nat \<times> nat) list" where
  "pieces limit off len =
     (if len = 0 \<or> limit = 0 then []
      else (off, min len limit) # pieces limit (off + min len limit) (len - min len limit))"
  by pat_completeness auto
termination by (relation "measure (\<lambda>(limit, off, len). len)") auto

declare pieces.simps [simp del]

lemma pieces_0 [simp]: "pieces limit off 0 = []"
  by (simp add: pieces.simps)

lemma length_pieces:
  "0 < limit \<Longrightarrow> List.length (pieces limit off len) = DIV_ROUND_UP len limit"
proof (induction limit off len rule: pieces.induct)
  case (1 limit off len)
  show ?case
  proof (cases "len = 0")
    case True
    then show ?thesis using 1 by (simp add: DIV_ROUND_UP_def)
  next
    case False
    have "DIV_ROUND_UP len limit = Suc (DIV_ROUND_UP (len - min len limit) limit)"
    proof (cases "len \<le> limit")
      case True
      then have "DIV_ROUND_UP len limit = 1"
        using False 1 unfolding DIV_ROUND_UP_def by (intro div_nat_eqI) auto
      with True 1 show ?thesis by (simp add: DIV_ROUND_UP_def)
    next
      case False
      then have e: "len + limit - 1 = (len - 1) + limit" "len - limit + limit - 1 = len - 1" by simp_all
      have "DIV_ROUND_UP len limit = (len - 1) div limit + 1"
        unfolding DIV_ROUND_UP_def e(1) using 1(2) by (subst div_add_self2) simp_all
      moreover have "DIV_ROUND_UP (len - limit) limit = (len - 1) div limit"
        unfolding DIV_ROUND_UP_def e(2) ..
      ultimately show ?thesis using False by simp
    qed
    then show ?thesis using 1 False by (simp add: pieces.simps [of limit off len])
  qed
qed

definition head_chunks :: "nat \<Rightarrow> nat \<Rightarrow> nat \<Rightarrow> (dma_source \<times> nat) list" where
  "head_chunks limit off len = map (\<lambda>(o', n). (Head o', n)) (pieces limit off len)"

definition frag_chunks :: "nat \<Rightarrow> nat \<Rightarrow> nat \<Rightarrow> nat \<Rightarrow> (dma_source \<times> nat) list" where
  "frag_chunks limit f off len = map (\<lambda>(o', n). (Frag f o', n)) (pieces limit off len)"

fun frags_chunks :: "nat \<Rightarrow> nat \<Rightarrow> nat list \<Rightarrow> (dma_source \<times> nat) list" where
  "frags_chunks limit f [] = []"
| "frags_chunks limit f (len # frags) = frag_chunks limit f 0 len @ frags_chunks limit (f + 1) frags"

definition chunks :: "nat \<Rightarrow> sk_buff \<Rightarrow> (dma_source \<times> nat) list" where
  "chunks limit skb = head_chunks limit 0 (skb_headlen skb) @ frags_chunks limit 0 (skb_frags skb)"

lemma length_chunks:
  assumes "0 < limit"
  shows "List.length (chunks limit skb) = DIV_ROUND_UP (skb_headlen skb) limit +
    sum_list (map (\<lambda>n. DIV_ROUND_UP n limit) (skb_frags skb))"
proof -
  have "List.length (frags_chunks limit f frags) = sum_list (map (\<lambda>n. DIV_ROUND_UP n limit) frags)" for f frags
    by (induction frags arbitrary: f) (simp_all add: frag_chunks_def length_pieces assms)
  then show ?thesis by (simp add: chunks_def head_chunks_def length_pieces assms)
qed

text \<open>
  One loop over the chunks, each in the slot after the one before. The two loops of
  \<open>e1000_tx_map\<close> do the same, although the first advances after and the second before it
  maps.
\<close>

fun map_all :: "(dma_source \<times> nat) list \<Rightarrow> nat \<Rightarrow> nat \<Rightarrow> mapping net_io" where
  "map_all [] i cnt = return (Mapped i cnt)"
| "map_all (c # cs) i cnt = do {
     s \<leftarrow> get;
     let i = ring_next (ring_count (tx_ring s)) i;
     ok \<leftarrow> map_chunk i (fst c) (snd c);
     if \<not> ok then return (DmaError i cnt) else map_all cs i (cnt + 1) }"

lemma wp_map_chunk:
  "wp (map_chunk i src n) Q s =
     (let dma = k_dma_map (kernel_of s) (os_trace s) src n in
      Q (\<not> k_dma_error (kernel_of s) dma) (s\<lparr>
        tx_ring := tx_ring s\<lparr>buffer_info := (buffer_info (tx_ring s))[i := (buffer_info (tx_ring s) ! i)
          \<lparr>buf_length := u16_of n, buf_time_stamp := k_jiffies (kernel_of s) (os_trace s),
           buf_next_to_watch := u16_of i, buf_dma := dma,
           buf_mapped_as_page := (case src of Head _ \<Rightarrow> False | Frag _ _ \<Rightarrow> True)\<rparr>]\<rparr>,
        os_trace := DmaMap src n dma # os_trace s\<rparr>))"
  by (cases "i < List.length (buffer_info (tx_ring s))")
    (simp_all add: map_chunk_def wp net_wp Let_def list_update_beyond)

lemma map_chunk_count:
  "wp (map_chunk i src n) Q s =
   wp (map_chunk i src n) (\<lambda>ok s'. ring_count (tx_ring s') = ring_count (tx_ring s) \<longrightarrow> Q ok s') s"
  by (simp add: wp_map_chunk Let_def)

lemma wp_map_all_append:
  "wp (map_all (cs @ ds) i cnt) Q s = wp (map_all cs i cnt) (\<lambda>m s. case m of
     Mapped i cnt \<Rightarrow> wp (map_all ds i cnt) Q s | DmaError i cnt \<Rightarrow> Q (DmaError i cnt) s) s"
  by (induction cs arbitrary: i cnt s) (simp_all add: wp wp_map_chunk Let_def)

lemma wp_cong: "(\<And>a s. P a s = Q a s) \<Longrightarrow> wp m P s = wp m Q s"
  by (simp add: wp_def)

lemma map_frag_chunks:
  assumes "0 < limit" and "len \<le> fuel"
  shows "wp (map_frag fuel limit f i off len cnt) Q s =
    wp (map_all (frag_chunks limit f off len) i cnt) (\<lambda>m. Q (Inr m)) s"
  using assms(2)
proof (induction fuel arbitrary: i off len cnt s)
  case 0
  then show ?case by (simp add: wp frag_chunks_def)
next
  case (Suc fuel)
  show ?case
  proof (cases "len = 0")
    case True
    then show ?thesis by (simp add: wp frag_chunks_def)
  next
    case False
    then show ?thesis
      using Suc assms(1)
      by (simp add: frag_chunks_def pieces.simps [of limit off len] wp wp_map_chunk Let_def)
  qed
qed

lemma map_frags_chunks:
  assumes "0 < limit"
  shows "wp (map_frags limit f frags i cnt) Q s =
    wp (map_all (frags_chunks limit f frags) i cnt) (\<lambda>m. Q (Inr m)) s"
proof (induction frags arbitrary: f i cnt s)
  case (Cons len frags)
  have "wp (map_frags limit f (len # frags) i cnt) Q s =
      wp (map_all (frag_chunks limit f 0 len) i cnt) (\<lambda>m s. case m of
        Mapped i cnt \<Rightarrow> wp (map_frags limit (f + 1) frags i cnt) Q s | DmaError i cnt \<Rightarrow> Q (Inr (DmaError i cnt)) s) s"
    by (simp add: wp map_frag_chunks [OF assms])
      (rule arg_cong2 [where f = "\<lambda>a b. wp a b s"], auto simp: fun_eq_iff wp split: mapping.split)
  then show ?case by (simp add: wp_map_all_append Cons.IH cong: mapping.case_cong)
qed (simp add: wp)

lemma map_head_chunks:
  assumes "0 < limit" and "len \<le> fuel" and "len \<noteq> 0" and "i = ring_next (ring_count (tx_ring s)) p"
  shows "wp (map_head fuel limit i off len cnt) Q s =
    wp (map_all (head_chunks limit off len) p cnt) (\<lambda>m. Q (Inr m)) s"
  using assms(2,3,4)
proof (induction fuel arbitrary: i p off len cnt s)
  case (Suc fuel)
  show ?case
  proof (cases "len \<le> limit")
    case True
    then show ?thesis
      using Suc.prems assms(1)
      by (cases fuel) (simp_all add: head_chunks_def pieces.simps [of limit off len] wp wp_map_chunk Let_def)
  next
    case False
    then show ?thesis
      using Suc.prems assms(1)
      by (simp add: head_chunks_def pieces.simps [of limit off len] wp wp_map_chunk Let_def)
        (simp add: Suc.IH head_chunks_def)
  qed
qed simp

text \<open>The mapping of a packet, its linear part not empty.\<close>

lemma wp_tx_map:
  assumes "0 < limit" and "skb_headlen skb \<noteq> 0"
    and "next_to_use (tx_ring s) = ring_next (ring_count (tx_ring s)) p"
  shows "wp (e1000_tx_map skb first limit) Q s =
    wp (map_all (chunks limit skb) p 0) (\<lambda>m s. case m of
       Mapped i cnt \<Rightarrow> wp (do {
         set_tx_buf i (\<lambda>b. b\<lparr>buf_skb := Some skb, buf_segs := skb_segs skb,
           buf_bytecount := skb_bytecount skb\<rparr>);
         set_tx_buf first (\<lambda>b. b\<lparr>buf_next_to_watch := u16_of i\<rparr>);
         return (Inr cnt) }) Q s
     | DmaError i cnt \<Rightarrow> wp (do {
         set_tx_buf i (\<lambda>b. b\<lparr>buf_dma := 0\<rparr>);
         unmap_back i (if cnt \<noteq> 0 then cnt - 1 else 0);
         return (Inr 0) }) Q s) s"
  unfolding e1000_tx_map_def wp chunks_def wp_map_all_append map_head_chunks [OF assms(1) order_refl assms(2,3)]
proof (rule wp_cong, goal_cases)
  case (1 m t)
  show ?case
    by (cases m) (simp_all add: wp map_frags_chunks [OF assms(1)], intro wp_cong, auto simp: wp split: mapping.split)
qed

section \<open>The slots of a mapped packet\<close>

definition mapped_slot :: "slot \<Rightarrow> (dma_source \<times> nat) \<times> u64 \<Rightarrow> slot \<Rightarrow> bool" where
  "mapped_slot s c s' \<longleftrightarrow> snd s' = snd s \<and> buf_skb (fst s') = buf_skb (fst s) \<and>
     buf_length (fst s') = u16_of (snd (fst c)) \<and> buf_dma (fst s') = snd c \<and>
     buf_mapped_as_page (fst s') = (case fst (fst c) of Head _ \<Rightarrow> False | Frag _ _ \<Rightarrow> True)"

definition map_log :: "((dma_source \<times> nat) \<times> u64) list \<Rightarrow> os_event list" where
  "map_log xs = rev (map (\<lambda>((src, n), dma). DmaMap src n dma) xs)"

definition all_mapped :: "slot list \<Rightarrow> ((dma_source \<times> nat) \<times> u64) list \<Rightarrow> slot list \<Rightarrow> bool" where
  "all_mapped ss xs ms \<longleftrightarrow> List.length ms = List.length xs \<and>
     (\<forall>j < List.length xs. mapped_slot (ss ! j) (xs ! j) (ms ! j))"

definition mapping_end ::
    "kernel \<Rightarrow> nat \<Rightarrow> nat \<Rightarrow> nat \<Rightarrow> (dma_source \<times> nat) list \<Rightarrow> ((dma_source \<times> nat) \<times> u64) list \<Rightarrow> nat \<Rightarrow> mapping \<Rightarrow> bool" where
  "mapping_end K n q i cs xs cnt m \<longleftrightarrow> map fst xs = take (List.length xs) cs \<and>
     (case m of
        Mapped i' c \<Rightarrow> List.length xs = List.length cs \<and> c = cnt + List.length cs \<and>
          (\<forall>x \<in> set xs. \<not> k_dma_error K (snd x)) \<and>
          i' = (if cs = [] then i else (q + (List.length cs - 1)) mod n)
      | DmaError i' c \<Rightarrow> \<exists>j < List.length cs. List.length xs = Suc j \<and> c = cnt + j \<and> i' = (q + j) mod n \<and>
          k_dma_error K (snd (last xs)) \<and> (\<forall>x \<in> set (butlast xs). \<not> k_dma_error K (snd x)))"

lemma put_slot_buffer:
  "r\<lparr>buffer_info := (buffer_info r)[i := b]\<rparr> = put_slot i (b, ring_desc r ! i) r"
  by (cases r) (simp add: put_slot_def)

lemma put_slot_desc:
  "r\<lparr>ring_desc := (ring_desc r)[i := d]\<rparr> = put_slot i (buffer_info r ! i, d) r"
  by (cases r) (simp add: put_slot_def)

definition map_post ::
    "net \<Rightarrow> nat \<Rightarrow> nat \<Rightarrow> nat \<Rightarrow> (dma_source \<times> nat) list \<Rightarrow> nat \<Rightarrow> mapping \<Rightarrow> e1000_ring \<Rightarrow>
      ((dma_source \<times> nat) \<times> u64) list \<Rightarrow> slot list \<Rightarrow> bool" where
  "map_post s b k i cs cnt m r xs ms \<longleftrightarrow> ring_wf r \<and>
     ring_count r = ring_count (tx_ring s) \<and> next_to_use r = next_to_use (tx_ring s) \<and>
     next_to_clean r = next_to_clean (tx_ring s) \<and>
     view r b = take k (view (tx_ring s) b) @ ms @ drop (k + List.length xs) (view (tx_ring s) b) \<and>
     all_mapped (drop k (view (tx_ring s) b)) xs ms \<and>
     mapping_end (kernel_of s) (ring_count (tx_ring s)) (b + k) i cs xs cnt m"

lemma all_mapped_Cons:
  assumes "mapped_slot (ss ! k) x m" and "all_mapped (drop (Suc k) (ss[k := y])) xs ms" and "k < List.length ss"
    and "Suc k + List.length xs \<le> List.length ss"
  shows "all_mapped (drop k ss) (x # xs) (m # ms)"
  using assms by (auto simp: all_mapped_def nth_Cons split: nat.split)

lemma mapping_end_ok:
  assumes "mapping_end K n (Suc q) (q mod n) cs xs (cnt + 1) m" and "\<not> k_dma_error K (snd x)" and "fst x = c"
  shows "mapping_end K n q i (c # cs) (x # xs) cnt m"
proof (cases m)
  case (Mapped i' c')
  with assms show ?thesis by (cases cs) (simp_all add: mapping_end_def)
next
  case (DmaError i' c')
  then obtain j where "j < List.length cs" "List.length xs = Suc j" "c' = cnt + 1 + j" "i' = (Suc q + j) mod n"
    using assms(1) by (auto simp: mapping_end_def)
  moreover from this have "xs \<noteq> []" by auto
  ultimately show ?thesis
    using assms DmaError by (auto simp: mapping_end_def intro!: exI [of _ "Suc j"])
qed

lemma wp_map_all:
  assumes "ring_wf (tx_ring s)" and "i < ring_count (tx_ring s)"
    and "ring_next (ring_count (tx_ring s)) i = (b + k) mod ring_count (tx_ring s)"
    and "k + List.length cs \<le> ring_count (tx_ring s)"
  shows "wp (map_all cs i cnt) (\<lambda>m s'. \<exists>r xs ms.
      s' = s\<lparr>tx_ring := r, os_trace := map_log xs @ os_trace s\<rparr> \<and> map_post s b k i cs cnt m r xs ms) s"
  using assms
proof (induction cs arbitrary: s i k cnt)
  case Nil
  have "map_post s b k i [] cnt (Mapped i cnt) (tx_ring s) [] []"
    using Nil by (simp add: map_post_def all_mapped_def mapping_end_def)
  then show ?case
    unfolding map_all.simps wp by (intro exI conjI, rotate_tac, assumption?) (simp_all add: map_log_def)
next
  case (Cons c cs)
  let ?N = "ring_count (tx_ring s)" and ?K = "kernel_of s" and ?v = "view (tx_ring s) b"
  define q where "q = (b + k) mod ?N"
  define dma where "dma = k_dma_map ?K (os_trace s) (fst c) (snd c)"
  have k: "k < ?N" using Cons.prems(4) by simp
  then have q: "q < ?N" by (simp add: q_def)
  have vk: "?v ! k = (buffer_info (tx_ring s) ! q, ring_desc (tx_ring s) ! q)"
    using view_nth [OF Cons.prems(1) k] by (simp add: q_def)
  define x where "x = ((fst (?v ! k))\<lparr>buf_length := u16_of (snd c), buf_time_stamp := k_jiffies ?K (os_trace s),
      buf_next_to_watch := u16_of q, buf_dma := dma,
      buf_mapped_as_page := (case fst c of Head _ \<Rightarrow> False | Frag _ _ \<Rightarrow> True)\<rparr>, snd (?v ! k))"
  define r1 where "r1 = put_slot q x (tx_ring s)"
  define s1 where "s1 = s\<lparr>tx_ring := r1, os_trace := DmaMap (fst c) (snd c) dma # os_trace s\<rparr>"
  have r1: "ring_wf r1" "view r1 b = ?v[k := x]" "ring_count r1 = ?N" "next_to_use r1 = next_to_use (tx_ring s)"
    "next_to_clean r1 = next_to_clean (tx_ring s)"
    using put_slot_wf [OF Cons.prems(1)] view_put_slot [OF Cons.prems(1) k] q
    by (simp_all add: ring_wf_simps [OF Cons.prems(1)] r1_def x_def q_def)
  have ms1: "mapped_slot (?v ! k) (c, dma) x" by (simp add: mapped_slot_def x_def)
  have step: "wp (map_all (c # cs) i cnt) Q s = wp (if k_dma_error ?K dma then return (DmaError q cnt)
      else map_all cs q (cnt + 1)) Q s1" for Q
    using Cons.prems(3) vk
    by (simp add: wp wp_map_chunk Let_def put_slot_buffer s1_def r1_def x_def q_def dma_def)
  have len: "List.length ?v = ?N" using Cons.prems(1) by simp
  show ?case
  proof (cases "k_dma_error ?K dma")
    case True
    have "map_post s b k i (c # cs) cnt (DmaError q cnt) r1 [(c, dma)] [x]"
      using True r1 ms1 k len
      by (auto simp: map_post_def all_mapped_def mapping_end_def upd_conv_take_nth_drop q_def)
    moreover have "s1 = s\<lparr>tx_ring := r1, os_trace := map_log [(c, dma)] @ os_trace s\<rparr>"
      by (simp add: s1_def map_log_def case_prod_beta)
    ultimately show ?thesis unfolding step using True by (auto simp: wp)
  next
    case False
    have nx: "ring_next ?N q = (b + Suc k) mod ?N" using q by (simp add: ring_next_mod mod_simps q_def)
    have "wp (map_all cs q (cnt + 1)) (\<lambda>m s'. \<exists>r xs ms.
      s' = s1\<lparr>tx_ring := r, os_trace := map_log xs @ os_trace s1\<rparr> \<and> map_post s1 b (Suc k) q cs (cnt + 1) m r xs ms) s1"
      using Cons.IH [of s1 q "Suc k" "cnt + 1"] r1 q nx Cons.prems(4) by (simp add: s1_def)
    then have "wp (map_all cs q (cnt + 1)) (\<lambda>m s'. \<exists>r xs ms.
      s' = s\<lparr>tx_ring := r, os_trace := map_log xs @ os_trace s\<rparr> \<and> map_post s b k i (c # cs) cnt m r xs ms) s1"
    proof (rule wp_mono, elim exE conjE, goal_cases)
      case (1 m s' r xs ms)
      have e: "mapping_end ?K ?N (Suc (b + k)) q cs xs (cnt + 1) m" "map_post s1 b (Suc k) q cs (cnt + 1) m r xs ms"
        using 1 by (simp_all add: map_post_def s1_def r1)
      then have "List.length xs \<le> List.length cs" by (auto simp: mapping_end_def split: mapping.splits)
      then have l: "Suc k + List.length xs \<le> List.length ?v" using Cons.prems(4) len by simp
      have "map_post s b k i (c # cs) cnt m r ((c, dma) # xs) (x # ms)"
        using e(2) r1 mapping_end_ok [OF e(1) [unfolded q_def], of "(c, dma)" c i] False k len
          all_mapped_Cons [OF ms1 _ _ l, of x ms]
        by (simp add: map_post_def s1_def take_Suc_conv_app_nth)
      moreover have "s' = s\<lparr>tx_ring := r, os_trace := map_log ((c, dma) # xs) @ os_trace s\<rparr>"
        using 1 by (simp add: s1_def map_log_def case_prod_beta)
      ultimately show ?case by blast
    qed
    then show ?thesis unfolding step using False by simp
  qed
qed

section \<open>Filling descriptors and taking mappings back\<close>

definition ring_kept :: "e1000_ring \<Rightarrow> e1000_ring \<Rightarrow> bool" where
  "ring_kept r r' \<longleftrightarrow> ring_wf r' \<and> ring_count r' = ring_count r \<and> next_to_use r' = next_to_use r \<and>
     next_to_clean r' = next_to_clean r"

lemma ring_kept_put:
  assumes "ring_wf r" and "k < ring_count r" and "buf_next_to_watch (fst x) < ring_count r"
  shows "ring_kept r (put_slot ((b + k) mod ring_count r) x r)"
  using assms put_slot_wf [OF assms(1,3)] by (simp add: ring_kept_def)

lemma list_update_split:
  "k < List.length v \<Longrightarrow> take k v @ (x # ys) @ drop (Suc k + n) v = take (Suc k) (v[k := x]) @ ys @ drop (Suc k + n) (v[k := x])"
  by (simp add: take_Suc_conv_app_nth)

definition fill_slot :: "u32 \<Rightarrow> slot \<Rightarrow> slot" where
  "fill_slot fl s = (fst s, (snd s)\<lparr>desc_addr := buf_dma (fst s),
     desc_lower := txd_lower_of fl OR of_nat (buf_length (fst s)), desc_upper := txd_upper_of fl\<rparr>)"

lemma wp_fill_desc:
  assumes "ring_wf (tx_ring s)" and "k < ring_count (tx_ring s)"
  shows "wp (fill_desc fl ((b + k) mod ring_count (tx_ring s))) Q s =
    Q () (s\<lparr>tx_ring := put_slot ((b + k) mod ring_count (tx_ring s))
      (fill_slot fl (view (tx_ring s) b ! k)) (tx_ring s)\<rparr>)"
  using view_nth [OF assms, of b] by (simp add: fill_desc_def wp net_wp Let_def put_slot_desc fill_slot_def)

lemma wp_fill_descs:
  assumes "ring_wf (tx_ring s)" and "k + n < ring_count (tx_ring s)"
  shows "wp (fill_descs fl n ((b + k) mod ring_count (tx_ring s))) (\<lambda>last s'. \<exists>r.
     s' = s\<lparr>tx_ring := r\<rparr> \<and> last = (b + k + n) mod ring_count (tx_ring s) \<and> ring_kept (tx_ring s) r \<and>
     view r b = take k (view (tx_ring s) b) @ map (fill_slot fl) (take (Suc n) (drop k (view (tx_ring s) b))) @
       drop (k + Suc n) (view (tx_ring s) b)) s"
  using assms
proof (induction n arbitrary: s k)
  case 0
  let ?N = "ring_count (tx_ring s)" and ?v = "view (tx_ring s) b"
  let ?x = "fill_slot fl (?v ! k)"
  have w: "buf_next_to_watch (fst ?x) < ?N"
    using view_nth [OF 0(1), of k b] 0 by (simp add: fill_slot_def ring_wf_simps)
  show ?case
    unfolding fill_descs.simps wp
    using 0 view_put_slot [OF 0(1), of k b ?x] ring_kept_put [OF 0(1) _ w, of k b]
    by (simp add: wp_fill_desc upd_conv_take_nth_drop)
      (rule exI [of _ "put_slot ((b + k) mod ?N) ?x (tx_ring s)"], simp add: Cons_nth_drop_Suc [symmetric])
next
  case (Suc n)
  let ?N = "ring_count (tx_ring s)" and ?v = "view (tx_ring s) b"
  define x where "x = fill_slot fl (?v ! k)"
  define r1 where "r1 = put_slot ((b + k) mod ?N) x (tx_ring s)"
  have k: "k < ?N" using Suc.prems by simp
  have w: "buf_next_to_watch (fst x) < ?N"
    using view_nth [OF Suc.prems(1) k, of b] k by (simp add: x_def fill_slot_def ring_wf_simps Suc.prems)
  have r1: "ring_kept (tx_ring s) r1" "view r1 b = ?v[k := x]" "ring_count r1 = ?N" "ring_wf r1"
    using ring_kept_put [OF Suc.prems(1) k w, of b] view_put_slot [OF Suc.prems(1) k]
    by (simp_all add: r1_def ring_kept_def)
  have nx: "ring_next ?N ((b + k) mod ?N) = (b + Suc k) mod ?N"
    using k by (simp add: ring_next_mod mod_simps)
  have step: "wp (fill_descs fl (Suc n) ((b + k) mod ?N)) Q s =
      wp (fill_descs fl n ((b + Suc k) mod ?N)) Q (s\<lparr>tx_ring := r1\<rparr>)" for Q
    using nx k Suc.prems(1) r1(3) by (simp add: wp wp_fill_desc r1_def x_def)
  have "wp (fill_descs fl n ((b + Suc k) mod ?N)) (\<lambda>last s'. \<exists>r.
     s' = s\<lparr>tx_ring := r\<rparr> \<and> last = (b + Suc k + n) mod ?N \<and> ring_kept r1 r \<and>
     view r b = take (Suc k) (view r1 b) @ map (fill_slot fl) (take (Suc n) (drop (Suc k) (view r1 b))) @
       drop (Suc k + Suc n) (view r1 b)) (s\<lparr>tx_ring := r1\<rparr>)"
    using Suc.IH [of "s\<lparr>tx_ring := r1\<rparr>" "Suc k"] Suc.prems r1 by simp
  then show ?case
    unfolding step
  proof (rule wp_mono, elim exE conjE, goal_cases)
    case (1 last s' r)
    have len: "k < List.length ?v" using Suc.prems k by simp
    have tk: "take (Suc (Suc n)) (drop k ?v) = ?v ! k # take (Suc n) (drop (Suc k) ?v)"
      using len by (simp add: Cons_nth_drop_Suc [symmetric])
    have "view r b = take k ?v @ map (fill_slot fl) (take (Suc (Suc n)) (drop k ?v)) @ drop (k + Suc (Suc n)) ?v"
      using 1 r1(2) len list_update_split [OF len, of x] unfolding tk by (simp add: x_def)
    then show ?case using 1 r1 by (auto simp: ring_kept_def)
  qed
qed

definition clear_buf :: "slot \<Rightarrow> slot" where
  "clear_buf s = ((fst s)\<lparr>buf_dma := 0, buf_skb := None, buf_time_stamp := 0\<rparr>, snd s)"

lemma wp_unmap_back:
  assumes "ring_wf (tx_ring s)" and "c \<le> p" and "p \<le> ring_count (tx_ring s)"
  shows "let v = view (tx_ring s) b in wp (unmap_back ((b + p) mod ring_count (tx_ring s)) c) (\<lambda>_ s'. \<exists>r.
     s' = s\<lparr>tx_ring := r, os_trace := concat (map (put_events \<circ> fst) (take c (drop (p - c) v))) @ os_trace s\<rparr> \<and>
     ring_kept (tx_ring s) r \<and>
     view r b = take (p - c) v @ map clear_buf (take c (drop (p - c) v)) @ drop p v) s"
  using assms unfolding Let_def
proof (induction c arbitrary: s p)
  case 0
  then show ?case
    by (simp add: wp) (rule exI [of _ "tx_ring s"], simp add: ring_kept_def)
next
  case (Suc c)
  let ?N = "ring_count (tx_ring s)" and ?v = "view (tx_ring s) b"
  define k where "k = p - 1"
  have p: "p = Suc k" "k < ?N" "c \<le> k" using Suc.prems by (auto simp: k_def)
  define x where "x = clear_buf (?v ! k)"
  define r1 where "r1 = put_slot ((b + k) mod ?N) x (tx_ring s)"
  define s1 where "s1 = s\<lparr>tx_ring := r1, os_trace := put_events (fst (?v ! k)) @ os_trace s\<rparr>"
  have vk: "?v ! k = (buffer_info (tx_ring s) ! ((b + k) mod ?N), ring_desc (tx_ring s) ! ((b + k) mod ?N))"
    using view_nth [OF Suc.prems(1) p(2)] .
  have w: "buf_next_to_watch (fst x) < ?N"
    using vk p(2) by (simp add: x_def clear_buf_def ring_wf_simps Suc.prems)
  have r1: "ring_kept (tx_ring s) r1" "view r1 b = ?v[k := x]" "ring_count r1 = ?N" "ring_wf r1"
    using ring_kept_put [OF Suc.prems(1) p(2) w, of b] view_put_slot [OF Suc.prems(1) p(2)]
    by (simp_all add: r1_def ring_kept_def)
  have prev: "(if (b + p) mod ?N = 0 then ?N else (b + p) mod ?N) - 1 = (b + k) mod ?N"
    using p(1,2) by (auto simp: mod_Suc)
  have step: "wp (unmap_back ((b + p) mod ?N) (Suc c)) Q s = wp (unmap_back ((b + k) mod ?N) c) Q s1" for Q
    using vk unfolding unmap_back.simps wp_bind wp_get wp_let prev
    by (simp add: net_wp s1_def r1_def x_def clear_buf_def put_slot_buffer)
  have IH: "wp (unmap_back ((b + k) mod ?N) c) (\<lambda>_ s'. \<exists>r.
     s' = s1\<lparr>tx_ring := r, os_trace := concat (map (put_events \<circ> fst) (take c (drop (k - c) (view r1 b)))) @ os_trace s1\<rparr> \<and>
     ring_kept r1 r \<and>
     view r b = take (k - c) (view r1 b) @ map clear_buf (take c (drop (k - c) (view r1 b))) @ drop k (view r1 b)) s1"
    using Suc.IH [of s1 k] r1 p by (simp add: s1_def comp_def)
  have len: "k < List.length ?v" using Suc.prems p by simp
  have tk: "take (Suc c) (drop (k - c) ?v) = take c (drop (k - c) ?v) @ [?v ! k]"
    using p(3) len by (simp add: take_Suc_conv_app_nth)
  have dr: "drop k (?v[k := x]) = x # drop (Suc k) ?v"
    using len by (simp add: Cons_nth_drop_Suc [symmetric])
  have keep: "take c (drop (k - c) (?v[k := x])) = take c (drop (k - c) ?v)"
    using p(3) by (simp add: drop_update_swap)
  show ?case
    unfolding step
  proof (rule wp_mono [OF IH], elim exE conjE, goal_cases)
    case (1 u s' r)
    have "p - Suc c = k - c" using p by simp
    then show ?case
      using 1 [unfolded r1(2) keep] r1 len p(3) tk dr
      by (intro exI [of _ r]) (simp add: s1_def x_def ring_kept_def p(1))
  qed
qed

section \<open>A packet into the free slots\<close>

lemma packets_at_cut:
  "packets_at n i ps (us @ fs) \<Longrightarrow> List.length us = slots_of ps \<Longrightarrow>
     packets_at n i ps us \<and> (\<forall>s \<in> set fs. free_slot s)"
proof (induction ps arbitrary: i us)
  case (Cons p ps)
  then have "fst p \<le> List.length us" by simp
  with Cons.prems Cons.IH [of "(i + fst p) mod n" "drop (fst p) us"] show ?case by simp
qed simp

lemma packets_at_snoc:
  "packets_at n i ps us \<Longrightarrow> List.length us = slots_of ps \<Longrightarrow>
     packet_slots n ((i + slots_of ps) mod n) p ss \<Longrightarrow> packets_at n i (ps @ [p]) (us @ ss)"
proof (induction ps arbitrary: i us)
  case Nil
  then show ?case by (auto simp: packet_slots_def mod_simps)
next
  case (Cons q ps)
  then have "fst q \<le> List.length us" by simp
  moreover have "((i + fst q) mod n + slots_of ps) mod n = (i + (fst q + slots_of ps)) mod n"
    by (simp add: mod_simps add.assoc)
  ultimately show ?case using Cons.prems Cons.IH [of "(i + fst q) mod n" "drop (fst q) us"] by simp
qed

text \<open>
  Seen from \<open>next_to_use\<close>, the free slots come first, then the packets in flight.
\<close>

definition used_slots :: "e1000_ring \<Rightarrow> packet list \<Rightarrow> slot list" where
  "used_slots r ps = take (slots_of ps) (view r (next_to_clean r))"

definition free_slots :: "e1000_ring \<Rightarrow> packet list \<Rightarrow> slot list" where
  "free_slots r ps = drop (slots_of ps) (view r (next_to_clean r))"

lemma view_free_used:
  assumes "tx_inv r ps"
  shows "view r (next_to_use r) = free_slots r ps @ used_slots r ps"
    "\<forall>s \<in> set (free_slots r ps). free_slot s" "List.length (free_slots r ps) = ring_count r - slots_of ps"
    "List.length (used_slots r ps) = slots_of ps" "packets_at (ring_count r) (next_to_clean r) ps (used_slots r ps)"
proof -
  let ?v = "view r (next_to_clean r)"
  have wf: "ring_wf r" and tot: "slots_of ps < ring_count r"
    and use': "next_to_use r = (next_to_clean r + slots_of ps) mod ring_count r"
    and pk: "packets_at (ring_count r) (next_to_clean r) ps ?v"
    using assms by (auto simp: tx_inv_def ring_at_def)
  have len: "List.length ?v = ring_count r" using wf by simp
  show "view r (next_to_use r) = free_slots r ps @ used_slots r ps"
    unfolding use' view_shift [OF wf] rotate_drop_take using len tot by (simp add: free_slots_def used_slots_def)
  show "List.length (free_slots r ps) = ring_count r - slots_of ps" "List.length (used_slots r ps) = slots_of ps"
    using len tot by (simp_all add: free_slots_def used_slots_def)
  with packets_at_cut [of _ _ ps "used_slots r ps" "free_slots r ps"] pk
  show "\<forall>s \<in> set (free_slots r ps). free_slot s" "packets_at (ring_count r) (next_to_clean r) ps (used_slots r ps)"
    by (simp_all add: free_slots_def used_slots_def)
qed

lemma view_from_clean:
  assumes "ring_wf r" and "c < ring_count r" and "n < ring_count r"
    and "view r ((c + n) mod ring_count r) = fs @ us" and "List.length us = n"
  shows "view r c = us @ fs"
proof -
  let ?v = "view r c"
  have len: "List.length ?v = ring_count r" using assms(1) by simp
  have "drop n ?v @ take n ?v = fs @ us"
    using assms(3,4) len unfolding view_shift [OF assms(1)] rotate_drop_take by simp
  moreover have "List.length (take n ?v) = List.length us" using assms(3,5) len by simp
  ultimately have "drop n ?v = fs" "take n ?v = us" by (simp_all add: append_eq_append_conv)
  then show ?thesis by (metis append_take_drop_id)
qed

lemma inv_snoc:
  assumes "tx_inv r ps" and "ring_wf r'" and "ring_count r' = ring_count r" and "next_to_clean r' = next_to_clean r"
    and "next_to_use r' = (next_to_use r + fst p) mod ring_count r" and "slots_of ps + fst p < ring_count r"
    and "view r' (next_to_use r) = ss @ fs @ used_slots r ps"
    and "packet_slots (ring_count r) (next_to_use r) p ss" and "\<forall>s \<in> set fs. free_slot s"
  shows "tx_inv r' (ps @ [p])" "used_slots r' (ps @ [p]) = used_slots r ps @ ss"
proof -
  note v = view_free_used [OF assms(1)]
  have use': "next_to_use r = (next_to_clean r + slots_of ps) mod ring_count r" and c: "next_to_clean r < ring_count r"
    using assms(1) by (auto simp: tx_inv_def ring_at_def)
  have view': "view r' (next_to_clean r) = used_slots r ps @ ss @ fs"
    using view_from_clean [OF assms(2), of "next_to_clean r" "slots_of ps" "ss @ fs" "used_slots r ps"]
      assms(3,6,7) c v(4) use' by simp
  have "packets_at (ring_count r) (next_to_clean r) (ps @ [p]) ((used_slots r ps @ ss) @ fs)"
    using packets_at_append [OF packets_at_snoc [OF v(5,4)]] assms(8,9) use' by simp
  moreover have n: "slots_of (ps @ [p]) = slots_of ps + fst p" by (simp add: slots_of_def)
  ultimately show "tx_inv r' (ps @ [p])"
    using assms c view' use' by (simp add: tx_inv_def ring_at_def mod_simps add.assoc)
  have "List.length ss = fst p" using assms(8) by (simp add: packet_slots_def)
  then show "used_slots r' (ps @ [p]) = used_slots r ps @ ss"
    using v(4) view' assms(4) n by (simp add: used_slots_def [of r'])
qed

lemma inv_keep:
  assumes "tx_inv r ps" and "ring_wf r'" and "ring_count r' = ring_count r" and "next_to_clean r' = next_to_clean r"
    and "next_to_use r' = next_to_use r"
    and "view r' (next_to_use r) = fs @ used_slots r ps" and "\<forall>s \<in> set fs. free_slot s"
  shows "tx_inv r' ps" "used_slots r' ps = used_slots r ps"
proof -
  note v = view_free_used [OF assms(1)]
  have use': "next_to_use r = (next_to_clean r + slots_of ps) mod ring_count r" and c: "next_to_clean r < ring_count r"
    and tot: "slots_of ps < ring_count r"
    using assms(1) by (auto simp: tx_inv_def ring_at_def)
  have view': "view r' (next_to_clean r) = used_slots r ps @ fs"
    using view_from_clean [OF assms(2), of "next_to_clean r" "slots_of ps" fs "used_slots r ps"]
      assms(3,6) c v(4) use' tot by simp
  with packets_at_append [OF v(5) assms(7)] assms c tot use' v(4)
  show "tx_inv r' ps" "used_slots r' ps = used_slots r ps"
    by (simp_all add: tx_inv_def ring_at_def used_slots_def [of r'])
qed

text \<open>Updates of a buffer or of a descriptor, by position.\<close>

lemma wp_set_pos:
  assumes "ring_wf (tx_ring s)" and "k < ring_count (tx_ring s)"
  shows "wp (set_tx_buf ((b + k) mod ring_count (tx_ring s)) f) Q s = Q () (s\<lparr>tx_ring :=
      put_slot ((b + k) mod ring_count (tx_ring s))
        (f (fst (view (tx_ring s) b ! k)), snd (view (tx_ring s) b ! k)) (tx_ring s)\<rparr>)"
    "wp (set_tx_desc ((b + k) mod ring_count (tx_ring s)) g) Q s = Q () (s\<lparr>tx_ring :=
      put_slot ((b + k) mod ring_count (tx_ring s))
        (fst (view (tx_ring s) b ! k), g (snd (view (tx_ring s) b ! k))) (tx_ring s)\<rparr>)"
  using view_nth [OF assms, of b] by (simp_all add: net_wp put_slot_buffer put_slot_desc)

section \<open>Mapping a packet into the ring\<close>

text \<open>
  The packet hangs at its last buffer, and its first buffer watches the last slot.
\<close>

definition attach :: "nat \<Rightarrow> sk_buff \<Rightarrow> slot list \<Rightarrow> slot list" where
  "attach w skb ss =
     (let n = List.length ss - 1;
        ss = ss[n := ((fst (ss ! n))\<lparr>buf_skb := Some skb, buf_segs := skb_segs skb,
                       buf_bytecount := skb_bytecount skb\<rparr>, snd (ss ! n))]
      in ss[0 := ((fst (ss ! 0))\<lparr>buf_next_to_watch := w\<rparr>, snd (ss ! 0))])"

lemma length_attach [simp]: "List.length (attach w skb ss) = List.length ss"
  by (simp add: attach_def Let_def)

definition place_ok ::
    "net \<Rightarrow> sk_buff \<Rightarrow> nat \<Rightarrow> nat \<Rightarrow> (dma_source \<times> nat) list \<Rightarrow> os_event list \<Rightarrow> e1000_ring \<Rightarrow> bool" where
  "place_ok s skb b k cs evs r \<longleftrightarrow> (\<exists>xs ms. evs = map_log xs \<and> map fst xs = cs \<and>
     (\<forall>x \<in> set xs. \<not> k_dma_error (kernel_of s) (snd x)) \<and>
     all_mapped (drop k (view (tx_ring s) b)) xs ms \<and>
     view r b = attach ((b + (k + List.length cs - 1)) mod ring_count (tx_ring s)) skb
         (take k (view (tx_ring s) b) @ ms) @ drop (k + List.length cs) (view (tx_ring s) b))"

text \<open>
  After an error at chunk \<open>j\<close>: the buffers of the chunks \<open>1\<close> to \<open>j - 1\<close> are taken
  back, the one of chunk 0 is not.
\<close>

definition taken_back :: "nat \<Rightarrow> slot list \<Rightarrow> slot list" where
  "taken_back j ms = take (j - 1) (drop 1 ms)"

definition place_failed ::
    "net \<Rightarrow> nat \<Rightarrow> nat \<Rightarrow> (dma_source \<times> nat) list \<Rightarrow> os_event list \<Rightarrow> e1000_ring \<Rightarrow> bool" where
  "place_failed s b k cs evs r \<longleftrightarrow> (\<exists>xs ms es j. j < List.length cs \<and> List.length xs = Suc j \<and>
     map fst xs = take (Suc j) cs \<and> (\<forall>x \<in> set (butlast xs). \<not> k_dma_error (kernel_of s) (snd x)) \<and>
     k_dma_error (kernel_of s) (snd (last xs)) \<and>
     all_mapped (drop k (view (tx_ring s) b)) xs ms \<and>
     evs = concat (map (put_events \<circ> fst) (taken_back j ms)) @ map_log xs \<and>
     list_all2 (\<lambda>x y. snd x = snd y \<and> buf_skb (fst x) = None \<and> buf_skb (fst y) = None) es ms \<and>
     view r b = take k (view (tx_ring s) b) @ es @ drop (k + Suc j) (view (tx_ring s) b))"

lemma ring_kept_trans: "ring_kept a b \<Longrightarrow> ring_kept b c \<Longrightarrow> ring_kept a c"
  by (simp add: ring_kept_def)

lemma view_watch:
  assumes "ring_wf r" and "k < ring_count r"
  shows "buf_next_to_watch (fst (view r b ! k)) < ring_count r"
  using view_nth [OF assms, of b] assms by (simp add: ring_wf_simps)

lemma wp_attach:
  assumes wf: "ring_wf (tx_ring s)" and b: "b < ring_count (tx_ring s)" and n: "0 < n" "n \<le> ring_count (tx_ring s)"
    and v: "view (tx_ring s) b = us @ vs" "List.length us = n"
  shows "wp (do { set_tx_buf ((b + (n - 1)) mod ring_count (tx_ring s)) (\<lambda>x. x\<lparr>buf_skb := Some skb,
           buf_segs := skb_segs skb, buf_bytecount := skb_bytecount skb\<rparr>);
         set_tx_buf b (\<lambda>x. x\<lparr>buf_next_to_watch := u16_of ((b + (n - 1)) mod ring_count (tx_ring s))\<rparr>);
         return c }) (\<lambda>res s'. \<exists>r. s' = s\<lparr>tx_ring := r\<rparr> \<and> ring_kept (tx_ring s) r \<and> res = c \<and>
           view r b = attach ((b + (n - 1)) mod ring_count (tx_ring s)) skb us @ vs) s"
proof -
  let ?N = "ring_count (tx_ring s)"
  let ?w = "(b + (n - 1)) mod ?N"
  have w: "?w < ?N" "u16_of ?w = ?w" using b n wf by (simp_all add: ring_wf_simps)
  have q: "n - 1 < ?N" using n by simp
  define x where "x = ((fst (view (tx_ring s) b ! (n - 1)))\<lparr>buf_skb := Some skb, buf_segs := skb_segs skb,
      buf_bytecount := skb_bytecount skb\<rparr>, snd (view (tx_ring s) b ! (n - 1)))"
  define r1 where "r1 = put_slot ?w x (tx_ring s)"
  have "buf_next_to_watch (fst x) < ?N" using view_watch [OF wf q, of b] by (simp add: x_def)
  from ring_kept_put [OF wf q this, of b] view_put_slot [OF wf q, of b x]
  have r1: "ring_kept (tx_ring s) r1" "ring_wf r1" "ring_count r1 = ?N" "view r1 b = (view (tx_ring s) b)[n - 1 := x]"
    by (simp_all add: r1_def ring_kept_def)
  define y where "y = ((fst (view r1 b ! 0))\<lparr>buf_next_to_watch := ?w\<rparr>, snd (view r1 b ! 0))"
  define r2 where "r2 = put_slot ((b + 0) mod ?N) y r1"
  have z: "0 < ring_count r1" using b r1 by simp
  have "buf_next_to_watch (fst y) < ring_count r1" using w r1 by (simp add: y_def)
  from ring_kept_put [OF r1(2) z this, of b] view_put_slot [OF r1(2) z, of b y]
  have r2: "ring_kept r1 r2" "view r2 b = (view (tx_ring s) b)[n - 1 := x, 0 := y]"
    by (simp_all add: r2_def r1)
  have view2: "view r2 b = attach ?w skb us @ vs"
    using n v unfolding r2(2) by (simp add: attach_def Let_def x_def y_def r1 list_update_append nth_append nth_list_update)
  have b0: "(b + 0) mod ?N = b" using b by simp
  have "wp (set_tx_buf b (\<lambda>x. x\<lparr>buf_next_to_watch := ?w\<rparr>)) Q (s\<lparr>tx_ring := r1\<rparr>) = Q () (s\<lparr>tx_ring := r2\<rparr>)" for Q
    using wp_set_pos(1) [of "s\<lparr>tx_ring := r1\<rparr>" 0 b] r1 z b0 by (simp add: r2_def y_def)
  note second = this
  show ?thesis
    unfolding wp wp_set_pos(1) [OF wf q] x_def [symmetric] r1_def [symmetric] w(2) second
    using ring_kept_trans [OF r1(1) r2(1)] view2 by blast
qed

lemma freed_map_log [simp]: "freed (map_log xs) = []"
  by (induction xs rule: rev_induct) (auto simp: map_log_def split: prod.splits)

lemma freed_no_skb:
  "\<forall>x \<in> set xs. buf_skb (fst x) = None \<Longrightarrow> freed (concat (map (put_events \<circ> fst) xs)) = []"
  by (induction xs) auto

lemma wp_take_back:
  assumes wf: "ring_wf (tx_ring s)" and room: "k + Suc j < ring_count (tx_ring s)"
    and v: "view (tx_ring s) b = us @ ms @ vs" "List.length us = k" "List.length ms = Suc j"
    and skb: "\<forall>x \<in> set ms. buf_skb (fst x) = None"
  shows "wp (do { set_tx_buf ((b + (k + j)) mod ring_count (tx_ring s)) (\<lambda>x. x\<lparr>buf_dma := 0\<rparr>);
         unmap_back ((b + (k + j)) mod ring_count (tx_ring s)) (if j \<noteq> 0 then j - 1 else 0);
         return c }) (\<lambda>res s'. \<exists>r es. s' = s\<lparr>tx_ring := r,
           os_trace := concat (map (put_events \<circ> fst) (taken_back j ms)) @ os_trace s\<rparr> \<and>
         ring_kept (tx_ring s) r \<and> res = c \<and>
         list_all2 (\<lambda>x y. snd x = snd y \<and> buf_skb (fst x) = None \<and> buf_skb (fst y) = None) es ms \<and>
         view r b = us @ es @ vs) s"
proof -
  let ?N = "ring_count (tx_ring s)" and ?v = "view (tx_ring s) b"
  have q: "k + j < ?N" using room by simp
  define x where "x = ((fst (?v ! (k + j)))\<lparr>buf_dma := 0\<rparr>, snd (?v ! (k + j)))"
  define r1 where "r1 = put_slot ((b + (k + j)) mod ?N) x (tx_ring s)"
  have "buf_next_to_watch (fst x) < ?N" using view_watch [OF wf q, of b] by (simp add: x_def)
  from ring_kept_put [OF wf q this, of b] view_put_slot [OF wf q, of b x]
  have r1: "ring_kept (tx_ring s) r1" "ring_wf r1" "ring_count r1 = ?N" "view r1 b = us @ ms[j := x] @ vs"
    using v by (simp_all add: r1_def ring_kept_def list_update_append)
  have mj: "?v ! (k + j) = ms ! j" using v by (simp add: nth_append)
  have x: "snd x = snd (ms ! j)" "buf_skb (fst x) = None" "buf_skb (fst (ms ! j)) = None"
    using skb v(3) by (simp_all add: x_def mj)
  let ?s = "s\<lparr>tx_ring := r1\<rparr>" and ?c = "if j \<noteq> 0 then j - 1 else 0"
  have c: "?c = j - 1" by simp
  have tk: "take (j - 1) (drop (k + j - (j - 1)) (view r1 b)) = taken_back j ms"
    using v(2,3) r1(4) by (cases j) (simp_all add: taken_back_def drop_update_swap)
  define es where "es = take 1 (ms[j := x]) @ map clear_buf (taken_back j ms) @ (if j = 0 then [] else [x])"
  have vw: "take (k + j - (j - 1)) (view r1 b) @ map clear_buf (taken_back j ms) @ drop (k + j) (view r1 b) =
      us @ es @ vs"
    using v(2,3) r1(4)
    by (cases j) (simp_all add: es_def taken_back_def drop_update_swap upd_conv_take_nth_drop)
  have all: "list_all2 (\<lambda>x y. snd x = snd y \<and> buf_skb (fst x) = None \<and> buf_skb (fst y) = None) es ms"
  proof (rule list_all2_all_nthI)
    show "List.length es = List.length ms" using v(3) by (cases j) (simp_all add: es_def taken_back_def)
    fix i assume "i < List.length es"
    moreover have "List.length es = Suc j" using v(3) by (cases j) (simp_all add: es_def taken_back_def)
    ultimately consider "i = 0" "j = 0" | "i = 0" "j \<noteq> 0" | "0 < i" "i < j" | "0 < i" "i = j" by linarith
    then show "snd (es ! i) = snd (ms ! i) \<and> buf_skb (fst (es ! i)) = None \<and> buf_skb (fst (ms ! i)) = None"
      using x v(3) skb
      by cases (auto simp: es_def taken_back_def nth_append nth_Cons' clear_buf_def take_Suc_conv_app_nth hd_conv_nth)
  qed
  have sel: "tx_ring ?s = r1" "os_trace ?s = os_trace s" by simp_all
  have "ring_wf (tx_ring ?s)" "j - 1 \<le> k + j" "k + j \<le> ring_count (tx_ring ?s)"
    using r1 q by simp_all
  note undone = wp_unmap_back [OF this, of b, unfolded Let_def sel tk vw r1(3)]
  show ?thesis
    unfolding wp_bind wp_set_pos(1) [OF wf q] x_def [symmetric] r1_def [symmetric] c wp_return
  proof (rule wp_mono [OF undone], elim exE conjE, goal_cases)
    case (1 u s' r)
    then have "s' = s\<lparr>tx_ring := r, os_trace := concat (map (put_events \<circ> fst) (taken_back j ms)) @ os_trace s\<rparr>"
      by simp
    with 1 all ring_kept_trans [OF r1(1)] show ?case by blast
  qed
qed

lemma all_mapped_none:
  assumes "all_mapped ss xs ms" and "\<forall>x \<in> set (take (List.length xs) ss). buf_skb (fst x) = None"
    and "List.length xs \<le> List.length ss"
  shows "\<forall>x \<in> set ms. buf_skb (fst x) = None"
proof
  fix x assume "x \<in> set ms"
  then obtain j where j: "j < List.length xs" "x = ms ! j" "mapped_slot (ss ! j) (xs ! j) (ms ! j)"
    using assms(1) by (auto simp: all_mapped_def in_set_conv_nth)
  have "ss ! j \<in> set (take (List.length xs) ss)"
    using j(1) assms(3) by (metis length_take min.absorb2 nth_mem nth_take)
  then show "buf_skb (fst x) = None" using assms(2) j by (simp add: mapped_slot_def)
qed

lemma wp_tx_map_view:
  fixes b k :: nat
  assumes wf: "ring_wf (tx_ring s)" and b: "b < ring_count (tx_ring s)"
    and use': "next_to_use (tx_ring s) = (b + k) mod ring_count (tx_ring s)"
    and room: "k + List.length (chunks limit skb) < ring_count (tx_ring s)"
    and limit: "0 < limit" and head: "skb_headlen skb \<noteq> 0"
    and free: "\<forall>x \<in> set (take (List.length (chunks limit skb)) (drop k (view (tx_ring s) b))). buf_skb (fst x) = None"
  shows "wp (e1000_tx_map skb b limit) (\<lambda>res s'. \<exists>r evs.
      s' = s\<lparr>tx_ring := r, os_trace := evs @ os_trace s\<rparr> \<and> ring_kept (tx_ring s) r \<and> freed evs = [] \<and>
      (res = Inr (List.length (chunks limit skb)) \<and> place_ok s skb b k (chunks limit skb) evs r \<or>
       res = Inr 0 \<and> place_failed s b k (chunks limit skb) evs r)) s"
proof -
  let ?N = "ring_count (tx_ring s)" and ?v = "view (tx_ring s) b"
  define cs where "cs = chunks limit skb"
  define p where "p = (b + (k + (?N - 1))) mod ?N"
  have p: "p < ?N" using b by (auto simp: p_def)
  have "ring_next ?N p = Suc (b + (k + (?N - 1))) mod ?N" using p by (simp add: ring_next_mod p_def mod_Suc_eq)
  also have "Suc (b + (k + (?N - 1))) = b + k + ?N" using b by simp
  finally have nx: "ring_next ?N p = (b + k) mod ?N" by simp
  have ne: "cs \<noteq> []" using head limit by (simp add: cs_def chunks_def head_chunks_def pieces.simps [of limit 0])
  have len: "List.length ?v = ?N" using wf by simp
  show ?thesis
    unfolding wp_tx_map [OF limit head use' [folded nx]] cs_def [symmetric]
  proof (rule wp_mono [OF wp_map_all [OF wf p nx]], goal_cases)
    case 1
    then show ?case using room by (simp add: cs_def)
  next
    case (2 m s')
    then obtain r xs ms where s': "s' = s\<lparr>tx_ring := r, os_trace := map_log xs @ os_trace s\<rparr>"
      and post: "map_post s b k p cs 0 m r xs ms" by blast
    have r: "ring_kept (tx_ring s) r" "ring_wf r" "ring_count r = ?N" "tx_ring s' = r" "kernel_of s' = kernel_of s"
      "os_trace s' = map_log xs @ os_trace s"
      using post s' by (simp_all add: map_post_def ring_kept_def)
    have v: "view r b = take k ?v @ ms @ drop (k + List.length xs) ?v" and am: "all_mapped (drop k ?v) xs ms"
      and me: "mapping_end (kernel_of s) ?N (b + k) p cs xs 0 m"
      using post by (simp_all add: map_post_def)
    have lm: "List.length ms = List.length xs" using am by (simp add: all_mapped_def)
    have lx: "List.length xs \<le> List.length cs"
      using me by (auto simp: mapping_end_def split: mapping.splits)
    have lk: "List.length (take k ?v) = k" using room len by simp
    show ?case
    proof (cases m)
      case (Mapped i c)
      with me ne have e: "List.length xs = List.length cs" "c = List.length cs" "map fst xs = cs"
        "\<forall>x \<in> set xs. \<not> k_dma_error (kernel_of s) (snd x)" "i = (b + (k + List.length cs - 1)) mod ?N"
        by (auto simp: mapping_end_def neq_Nil_conv add.assoc)
      let ?n = "k + List.length cs"
      have n: "0 < ?n" "?n \<le> ring_count (tx_ring s')" "b < ring_count (tx_ring s')" "ring_wf (tx_ring s')"
        using ne room b r by (auto simp: cs_def)
      have vw: "view (tx_ring s') b = (take k ?v @ ms) @ drop ?n ?v" "List.length (take k ?v @ ms) = ?n"
        using v lm lk r e by simp_all
      from wp_attach [OF n(4,3,1,2) vw, of skb "Inr c :: halt + nat"]
      show ?thesis
        unfolding Mapped mapping.case e(5) r(3,4)
      proof (rule wp_mono, elim exE conjE, goal_cases)
        case (1 res t r')
        have "place_ok s skb b k cs (map_log xs) r'"
          unfolding place_ok_def using e am 1 by (intro exI [of _ xs] exI [of _ ms]) simp
        moreover have "t = s\<lparr>tx_ring := r', os_trace := map_log xs @ os_trace s\<rparr>" using 1 s' by simp
        moreover have "ring_kept (tx_ring s) r'" using 1 ring_kept_trans [OF r(1)] r(4) by simp
        ultimately show ?case
          using 1 e(2) by (intro exI [of _ r'] exI [of _ "map_log xs"]) simp
      qed
    next
      case (DmaError i c)
      with me obtain j where j: "j < List.length cs" "List.length xs = Suc j" "c = j" "i = (b + (k + j)) mod ?N"
        "k_dma_error (kernel_of s) (snd (last xs))" "\<forall>x \<in> set (butlast xs). \<not> k_dma_error (kernel_of s) (snd x)"
        "map fst xs = take (Suc j) cs"
        by (auto simp: mapping_end_def add.assoc)
      have n: "ring_wf (tx_ring s')" "k + Suc j < ring_count (tx_ring s')" using r j room by (auto simp: cs_def)
      have vw: "view (tx_ring s') b = take k ?v @ ms @ drop (k + Suc j) ?v" "List.length ms = Suc j"
        using v lm r j by simp_all
      have "set (take (List.length xs) (drop k ?v)) \<subseteq> set (take (List.length cs) (drop k ?v))"
        using lx by (intro set_take_subset_set_take)
      then have "\<forall>x \<in> set (take (List.length xs) (drop k ?v)). buf_skb (fst x) = None"
        using free by (auto simp: cs_def)
      then have none: "\<forall>x \<in> set ms. buf_skb (fst x) = None"
        using len room lx by (intro all_mapped_none [OF am]) (auto simp: cs_def)
      from wp_take_back [OF n vw(1) lk vw(2) none, of "Inr 0 :: halt + nat"]
      show ?thesis
        unfolding DmaError mapping.case j(3,4) r(3,4)
      proof (rule wp_mono, elim exE conjE, goal_cases)
        case (1 res t r' es)
        have "place_failed s b k cs (concat (map (put_events \<circ> fst) (taken_back j ms)) @ map_log xs) r'"
          unfolding place_failed_def using j am 1
          by (intro exI [of _ xs] exI [of _ ms] exI [of _ es] exI [of _ j]) simp
        moreover have "t = s\<lparr>tx_ring := r', os_trace :=
            (concat (map (put_events \<circ> fst) (taken_back j ms)) @ map_log xs) @ os_trace s\<rparr>"
          using 1 s' by simp
        moreover have "freed (concat (map (put_events \<circ> fst) (taken_back j ms)) @ map_log xs) = []"
          using none freed_no_skb [of "taken_back j ms"]
          by (auto simp: taken_back_def dest: in_set_takeD in_set_dropD)
        ultimately show ?case using 1 ring_kept_trans [OF r(1)] r(4) by blast
      qed
    qed
  qed
qed

end
