(* ===== verification/Tx_Accept.thy ===== *)
theory Tx_Accept
  imports Tx_Map
begin

text \<open>
  Sending a packet over the ring as a queue: the context descriptor, the filled descriptors, the
  tail register, and the three outcomes of \<open>e1000_xmit_frame\<close>: the packet is queued, given
  up, or the queue is stopped and the packet handed back.
\<close>

unbundle bit_operations_syntax

section \<open>Context descriptors, filled descriptors, the tail\<close>

lemma rs_bit: "reports s \<longleftrightarrow> bit (desc_lower (snd s)) 27"
  using and_one_bit [of "desc_lower (snd s)" 27] by (simp add: reports_def)

lemma dd_bit: "slot_done s \<longleftrightarrow> bit (desc_upper (snd s)) 0"
  using and_one_bit [of "desc_upper (snd s)" 0] by (simp add: slot_done_def)

lemma txd_bits:
  "\<not> bit (txd_lower_of fl) 27" "\<not> bit (txd_upper_of fl) 0"
  by (simp_all add: txd_lower_of_def txd_upper_of_def Let_def bit_or_iff bit_and_iff bit_not_iff)

lemma bit_small:
  assumes "n < 2 ^ k"
  shows "\<not> bit (of_nat n :: u32) k"
proof -
  have "take_bit k n = n" using assms by (simp add: take_bit_nat_eq_self)
  then have "\<not> bit n k" by (metis bit_take_bit_iff less_irrefl)
  then show ?thesis by (simp add: bit_of_nat_iff)
qed

definition queue_slot :: "u32 \<Rightarrow> u32 \<Rightarrow> slot \<Rightarrow> slot" where
  "queue_slot cmd fl s =
     (let d = snd (fill_slot fl s); l = desc_lower d OR cmd
      in (fst s, d\<lparr>desc_lower := (if fl AND E1000_TX_FLAGS_NO_FCS \<noteq> 0 then l AND NOT E1000_TXD_CMD_IFCS else l)\<rparr>))"

definition queue_slots :: "u32 \<Rightarrow> u32 \<Rightarrow> slot list \<Rightarrow> slot list" where
  "queue_slots cmd fl ss = map (fill_slot fl) (butlast ss) @ [queue_slot cmd fl (last ss)]"

lemma fill_slot_quiet:
  assumes "buf_length (fst s) < 2 ^ 16"
  shows "\<not> reports (fill_slot fl s)" "\<not> slot_done (fill_slot fl s)"
proof -
  have "buf_length (fst s) < 2 ^ 27" using assms by simp
  from bit_small [OF this] show "\<not> reports (fill_slot fl s)"
    by (simp add: rs_bit fill_slot_def bit_or_iff txd_bits)
qed (simp add: dd_bit fill_slot_def txd_bits)

lemma queue_slot_reports:
  assumes "cmd AND E1000_TXD_CMD_RS \<noteq> 0"
  shows "reports (queue_slot cmd fl s)" "\<not> slot_done (queue_slot cmd fl s)"
proof -
  have "bit cmd 27" using assms and_one_bit [of cmd 27] by simp
  then show "reports (queue_slot cmd fl s)"
    by (simp add: rs_bit queue_slot_def Let_def bit_or_iff bit_and_iff bit_not_iff)
qed (simp add: dd_bit queue_slot_def Let_def fill_slot_def txd_bits)

lemma wp_take_context:
  assumes wf: "ring_wf (tx_ring s)"
  defines "b \<equiv> next_to_use (tx_ring s)"
  shows "wp (take_context f) (\<lambda>_ s'. \<exists>r c. s' = s\<lparr>tx_ring := r\<rparr> \<and> ring_wf r \<and>
     ring_count r = ring_count (tx_ring s) \<and> next_to_clean r = next_to_clean (tx_ring s) \<and>
     next_to_use r = (b + 1) mod ring_count (tx_ring s) \<and> view r b = (view (tx_ring s) b)[0 := c] \<and>
     buf_skb (fst c) = buf_skb (fst (view (tx_ring s) b ! 0)) \<and> snd c = f (snd (view (tx_ring s) b ! 0))) s"
proof -
  let ?N = "ring_count (tx_ring s)"
  have z: "0 < ?N" and b: "b < ?N" using wf by (simp_all add: ring_wf_simps b_def)
  then have b0: "(b + 0) mod ?N = b" and ub: "u16_of b = b" using ring_wf_simps(6) [OF wf] by simp_all
  have v0: "view (tx_ring s) b ! 0 = (buffer_info (tx_ring s) ! b, ring_desc (tx_ring s) ! b)"
    using view_nth [OF wf z, of b] b0 by simp
  define c where "c = ((buffer_info (tx_ring s) ! b)\<lparr>buf_time_stamp := k_jiffies (kernel_of s) (os_trace s),
    buf_next_to_watch := b\<rparr>, f (ring_desc (tx_ring s) ! b))"
  define r where "r = put_slot ((b + 0) mod ?N) c (tx_ring s)"
  have "buf_next_to_watch (fst c) < ?N" using b by (simp add: c_def)
  from ring_kept_put [OF wf z this, of b] view_put_slot [OF wf z, of b c]
  have r: "ring_wf r" "ring_count r = ?N" "next_to_clean r = next_to_clean (tx_ring s)"
    "view r b = (view (tx_ring s) b)[0 := c]" by (simp_all add: r_def ring_kept_def)
  have nx: "u16_of (ring_next ?N b) = (b + 1) mod ?N"
    using ring_next_less [OF b] ring_next_mod [OF b] ring_wf_simps(6) [OF wf] by simp
  let ?r = "r\<lparr>next_to_use := (b + 1) mod ?N\<rparr>"
  have "ring_wf ?r" using r(1) z by (auto simp: ring_wf_def r(2))
  note wf' = this
  have view': "view ?r b = view r b" by (simp add: view_def)
  have "wp (take_context f) Q s = Q () (s\<lparr>tx_ring := ?r\<rparr>)" for Q
    using b0 ub nx
    by (simp add: take_context_def wp net_wp Let_def b_def [symmetric] r_def c_def put_slot_def)
  then show ?thesis
    using wf' view' r v0 by (simp only:) (rule exI [of _ ?r], rule exI [of _ c], simp add: c_def)
qed

lemma wp_tx_queue:
  assumes wf: "ring_wf (tx_ring s)" and room: "k + m < ring_count (tx_ring s)" and m: "0 < m"
    and use': "next_to_use (tx_ring s) = (b + k) mod ring_count (tx_ring s)"
  shows "wp (e1000_tx_queue fl m) (\<lambda>_ s'. \<exists>r. s' = s\<lparr>tx_ring := r\<rparr> \<and> ring_wf r \<and>
     ring_count r = ring_count (tx_ring s) \<and> next_to_clean r = next_to_clean (tx_ring s) \<and>
     next_to_use r = (b + (k + m)) mod ring_count (tx_ring s) \<and>
     view r b = take k (view (tx_ring s) b) @ queue_slots (txd_cmd (ad s)) fl (take m (drop k (view (tx_ring s) b))) @
       drop (k + m) (view (tx_ring s) b)) s"
proof -
  let ?N = "ring_count (tx_ring s)" and ?v = "view (tx_ring s) b" and ?cmd = "txd_cmd (ad s)"
  define q where "q = k + (m - 1)"
  have q: "q < ?N" "k + (m - 1) < ?N" "q + 1 = k + m" using room m by (simp_all add: q_def)
  define i where "i = (b + q) mod ?N"
  have i: "i < ?N" using q by (simp add: i_def)
  define us where "us = take m (drop k ?v)"
  have us: "List.length us = m" using wf room by (simp add: us_def)
  have seg: "take (Suc (m - 1)) (drop k ?v) = us" using m by (simp add: us_def)
  show ?thesis
    unfolding e1000_tx_queue_def wp_bind wp_get use' us_def [symmetric]
  proof (rule wp_mono [OF wp_fill_descs [OF wf q(2), of fl b]], elim exE conjE, goal_cases)
    case (1 last s1 r1)
    have r1: "ring_wf r1" "ring_count r1 = ?N" "next_to_clean r1 = next_to_clean (tx_ring s)" "last = i"
      using 1 by (simp_all add: ring_kept_def i_def q_def add.assoc)
    have v1: "view r1 b = take k ?v @ map (fill_slot fl) us @ drop (k + m) ?v"
      using 1 seg m by simp
    obtain zs z where zs: "us = zs @ [z]" using us m by (cases us rule: rev_cases) auto
    let ?ws = "take k ?v @ map (fill_slot fl) zs"
    have lw: "List.length ?ws = q" using us wf room zs by (simp add: q_def)
    have v1': "view r1 b = ?ws @ fill_slot fl z # drop (k + m) ?v" using v1 zs by simp
    have at: "view r1 b ! q = fill_slot fl z" unfolding v1' lw [symmetric] by (rule nth_append_length)
    define d where "d = (let l = desc_lower (ring_desc r1 ! i) OR ?cmd in (ring_desc r1 ! i)\<lparr>desc_lower :=
      (if fl AND E1000_TX_FLAGS_NO_FCS \<noteq> 0 then l AND NOT E1000_TXD_CMD_IFCS else l)\<rparr>)"
    define x where "x = (buffer_info r1 ! i, d)"
    define r where "r = put_slot i x r1"
    have ri: "view r1 b ! q = (buffer_info r1 ! i, ring_desc r1 ! i)"
      using view_nth [OF r1(1), of q b] q(1) by (simp add: r1 i_def)
    have "buf_next_to_watch (fst x) < ring_count r1"
      using ring_wf_simps(7) [OF r1(1), of i] r1(2) i by (simp add: x_def)
    then have r: "ring_wf r" "ring_count r = ?N" "next_to_clean r = next_to_clean (tx_ring s)" "view r b = (view r1 b)[q := x]"
      using put_slot_wf [OF r1(1)] view_put_slot [OF r1(1), of q b x] r1 q(1) by (simp_all add: r_def i_def)
    have x: "x = queue_slot ?cmd fl z"
      using at ri by (simp add: x_def d_def queue_slot_def Let_def fill_slot_def prod_eq_iff)
    have vr: "view r b = take k ?v @ queue_slots ?cmd fl us @ drop (k + m) ?v"
      unfolding r(4) v1' lw [symmetric] list_update_length by (simp add: x queue_slots_def zs)
    let ?u = "(b + (k + m)) mod ?N"
    have nx: "u16_of (ring_next ?N i) = ?u"
      using ring_next_less [OF i] ring_next_mod [OF i] ring_wf_simps(6) [OF wf] q(3)
      by (simp add: i_def mod_Suc_eq) (metis add_Suc_right)
    let ?r = "r\<lparr>next_to_use := ?u\<rparr>"
    have wf': "ring_wf ?r" "view ?r b = view r b" using r(1,2) q(1) by (auto simp: ring_wf_def view_def)
    have same: "r1\<lparr>ring_desc := (ring_desc r1)[i := d], next_to_use := ?u\<rparr> = ?r"
      by (cases r1) (simp add: r_def x_def put_slot_def)
    have s1: "s1 = s\<lparr>tx_ring := r1\<rparr>" using 1 by simp
    have li: "i < List.length (ring_desc r1)" using ring_wf_simps(3) [OF r1(1)] r1(2) i by simp
    have "wp (do {
        set_tx_desc i (\<lambda>d. d\<lparr>desc_lower := desc_lower d OR ?cmd\<rparr>);
        (if fl AND E1000_TX_FLAGS_NO_FCS \<noteq> 0
         then set_tx_desc i (\<lambda>d. d\<lparr>desc_lower := desc_lower d AND NOT E1000_TXD_CMD_IFCS\<rparr>)
         else return ());
        set_tx_ring (\<lambda>r. r\<lparr>next_to_use := u16_of (ring_next (ring_count r) i)\<rparr>) }) Q s1 =
      Q () (s\<lparr>tx_ring := ?r\<rparr>)" for Q
      unfolding same [symmetric] s1
      by (cases "fl AND E1000_TX_FLAGS_NO_FCS = 0") (simp_all add: wp net_wp d_def Let_def r1(2) nx li)
    note run = this [unfolded wp_bind]
    show ?case
      unfolding r1(4) run using r vr wf' by (intro exI [of _ ?r]) simp
  qed
qed

section \<open>The tail register and the stopped queue\<close>

definition tx_tail :: "net \<Rightarrow> u32 option" where
  "tx_tail s = last_write (trace (adapter_hw s)) (E1000_TDT 0)"

text \<open>Steps that leave the ring, the packets and the tail alone.\<close>

definition ring_quiet :: "net \<Rightarrow> net \<Rightarrow> bool" where
  "ring_quiet s s' \<longleftrightarrow> env_same s s' \<and> tx_ring s' = tx_ring s \<and> freed (os_trace s') = freed (os_trace s) \<and>
     tx_tail s' = tx_tail s \<and> adapter (adapter_hw s') = adapter (adapter_hw s)"

lemma ring_quiet_refl [simp]: "ring_quiet s s"
  by (simp add: ring_quiet_def)

lemma ring_quiet_trans [trans]: "ring_quiet a b \<Longrightarrow> ring_quiet b c \<Longrightarrow> ring_quiet a c"
  by (auto simp: ring_quiet_def intro: env_same_trans)

lemma wp_maybe_stop_tx:
  assumes "n \<le> ring_count (tx_ring s)"
  shows "wp (e1000_maybe_stop_tx n) (\<lambda>res s'. ring_quiet s s' \<and> adapter_hw s' = adapter_hw s \<and>
     res = Inr (e1000_desc_unused (tx_ring s) < int n) \<and>
     queue_stopped s' = (queue_stopped s \<or> e1000_desc_unused (tx_ring s) < int n)) s"
  using assms
  by (auto simp: e1000_maybe_stop_tx_def maybe_stop_tx_again_def wp net_wp ring_quiet_def env_same_def tx_tail_def)

lemma wp_keeps:
  "state_io_rel (keeps_reg r) m \<Longrightarrow> wp m (\<lambda>_ h'. last_write (trace h') r = last_write (trace h) r \<and>
     adapter h' = adapter h) h"
  by (simp add: wp_def state_io_rel_def keeps_reg_def same_hw_iff)

lemma wp_write_tx_tail:
  "wp (write_tx_tail i) (\<lambda>_ s'. env_same s s' \<and> tx_ring s' = tx_ring s \<and> freed (os_trace s') = freed (os_trace s) \<and>
     tx_tail s' = Some (of_nat i) \<and> adapter (adapter_hw s') = adapter (adapter_hw s) \<and>
     queue_stopped s' = queue_stopped s) s"
proof -
  have ne: "E1000_TCTL \<noteq> E1000_TDT 0" "E1000_TDT 0 \<noteq> E1000_TCTL" by (simp_all add: E1000_TDT_def)
  have "wp ew32_prepare (\<lambda>_ h'. adapter h' = adapter h) h" for h
    unfolding ew32_prepare_def
    by (rule wp_mono [OF wp_keeps [where r = 0, OF keeps.frame_ew32_prepare]]) simp
  note prepare = this [of "adapter_hw s"]
  show ?thesis
  proof (cases "pcim2pci_wa (adapter (adapter_hw s))")
    case True
    then show ?thesis
      by (simp add: write_tx_tail_def e1000e_update_tdt_wa_def wp net_wp)
        (rule wp_mono [OF prepare], auto simp: env_same_def tx_tail_def ne)
  qed (simp add: write_tx_tail_def wp net_wp env_same_def tx_tail_def)
qed

lemma host_if_reg:
  assumes "unat i < 0x1000"
  shows "E1000_HOST_IF + push_bit 2 i \<noteq> E1000_TDT 0"
proof -
  have "unat (E1000_HOST_IF + push_bit 2 i) = 0x8800 + unat i * 4"
    using assms by (simp add: push_bit_eq_mult unat_word_ariths)
  moreover have "unat (E1000_TDT 0) = 0x3818" by (simp add: E1000_TDT_def)
  ultimately show ?thesis by (intro notI) simp
qed

lemmas keeps_frames = keeps.frame_return keeps.frame_get keeps.frame_bind keeps.frame_if keeps.frame_let
  keeps.frame_case_prod keeps.frame_case_option keeps.frame_er32 keeps.frame_delays keeps.frame_poll

lemma keeps_dwords:
  "unat off + i + n < 0x1000 \<Longrightarrow> state_io_rel (keeps_reg (E1000_TDT 0)) (host_if_dwords buffer p off i n acc)"
proof (induction n arbitrary: p i acc)
  case (Suc n)
  have "unat (ucast off + of_nat i :: u32) = unat off + i"
    using Suc.prems by (simp add: unat_word_ariths unat_of_nat)
  then show ?case
    using Suc by (auto simp: Let_def intro!: keeps_frames keeps_write host_if_reg)
qed (auto intro: keeps_frames)

lemma keeps_dhcp: "state_io_rel (keeps_reg (E1000_TDT 0)) (e1000e_mng_write_dhcp_info buffer len)"
proof -
  have header: "state_io_rel (keeps_reg (E1000_TDT 0)) (e1000_mng_write_cmd_header hdr)" for hdr
    by (auto simp: e1000_mng_write_cmd_header_def numeral_2_eq_2 Let_def unat_of_nat
        intro!: keeps_frames keeps_write host_if_reg)
  have "state_io_rel (keeps_reg (E1000_TDT 0)) (e1000_mng_host_if_write buffer len 8 acc)" for acc
  proof (cases "len = 0 \<or> 8 + unat len > E1000_HI_MAX_MNG_DATA_LENGTH")
    case False
    let ?d = "drop_bit 2 (len - (len AND 3))"
    have "len - (len AND 3) \<le> len" by (intro word_sub_le word_and_le2)
    then have "unat (len - (len AND 3)) \<le> unat len" by (simp add: word_le_nat_alt)
    moreover have "unat ?d = unat (len - (len AND 3)) div 4" by (simp add: drop_bit_eq_div unat_div)
    ultimately have d: "unat ?d < 0x200" using False by linarith
    then have "unat (2 + of_nat (unat ?d) :: u32) < 0x1000" by (simp add: unat_word_ariths unat_of_nat)
    with d False show ?thesis
      by (auto simp: e1000_mng_host_if_write_def Let_def unat_of_nat
          intro!: keeps_frames keeps_write host_if_reg keeps_dwords)
  qed (auto simp: e1000_mng_host_if_write_def intro!: keeps_frames)
  then show ?thesis
    unfolding e1000e_mng_write_dhcp_info_def e1000_mng_enable_host_if_def
    by (intro keeps_frames keeps_write header; simp add: E1000_TDT_def)
qed

section \<open>The slots of a queued packet\<close>

lemma unused_eq:
  assumes "tx_inv r ps"
  shows "e1000_desc_unused r = int (ring_count r) - int (slots_of ps) - 1"
proof -
  have u: "next_to_use r = (next_to_clean r + slots_of ps) mod ring_count r"
    and s: "slots_of ps < ring_count r" and c: "next_to_clean r < ring_count r"
    using assms by (auto simp: tx_inv_def ring_at_def)
  show ?thesis
  proof (cases "next_to_clean r + slots_of ps < ring_count r")
    case False
    then have "(next_to_clean r + slots_of ps) mod ring_count r = next_to_clean r + slots_of ps - ring_count r"
      using s c by (subst le_mod_geq) auto
    with False s c u show ?thesis by (simp add: e1000_desc_unused_def)
  qed (use s c u in \<open>simp add: e1000_desc_unused_def\<close>)
qed

lemma attach_nth:
  assumes "j < List.length us"
  shows "snd (attach w skb us ! j) = snd (us ! j)" "buf_dma (fst (attach w skb us ! j)) = buf_dma (fst (us ! j))"
    "buf_length (fst (attach w skb us ! j)) = buf_length (fst (us ! j))"
    "buf_mapped_as_page (fst (attach w skb us ! j)) = buf_mapped_as_page (fst (us ! j))"
    "buf_skb (fst (attach w skb us ! j)) = (if Suc j = List.length us then Some skb else buf_skb (fst (us ! j)))"
    "j = 0 \<Longrightarrow> buf_next_to_watch (fst (attach w skb us ! j)) = w"
    "Suc j = List.length us \<Longrightarrow> buf_segs (fst (attach w skb us ! j)) = skb_segs skb \<and>
       buf_bytecount (fst (attach w skb us ! j)) = skb_bytecount skb"
proof -
  obtain n where "List.length us = Suc n" using assms by (cases us) auto
  with assms show "snd (attach w skb us ! j) = snd (us ! j)" "buf_dma (fst (attach w skb us ! j)) = buf_dma (fst (us ! j))"
    "buf_length (fst (attach w skb us ! j)) = buf_length (fst (us ! j))"
    "buf_mapped_as_page (fst (attach w skb us ! j)) = buf_mapped_as_page (fst (us ! j))"
    "buf_skb (fst (attach w skb us ! j)) = (if Suc j = List.length us then Some skb else buf_skb (fst (us ! j)))"
    "j = 0 \<Longrightarrow> buf_next_to_watch (fst (attach w skb us ! j)) = w"
    "Suc j = List.length us \<Longrightarrow> buf_segs (fst (attach w skb us ! j)) = skb_segs skb \<and>
       buf_bytecount (fst (attach w skb us ! j)) = skb_bytecount skb"
    by (auto simp: attach_def Let_def nth_list_update)
qed

lemma length_queue_slots [simp]: "us \<noteq> [] \<Longrightarrow> List.length (queue_slots cmd fl us) = List.length us"
  by (simp add: queue_slots_def)

lemma queue_slots_nth:
  assumes "j < List.length us"
  shows "queue_slots cmd fl us ! j =
    (if Suc j = List.length us then queue_slot cmd fl (us ! j) else fill_slot fl (us ! j))"
proof (cases us rule: rev_cases)
  case (snoc ys y)
  with assms show ?thesis by (auto simp: queue_slots_def nth_append less_Suc_eq)
qed (use assms in simp)

lemma take_bit_ifcs: "take_bit 20 (l AND NOT E1000_TXD_CMD_IFCS) = take_bit 20 (l :: u32)"
proof -
  have "take_bit 20 (x :: u32) = x AND 0xFFFFF" for x
    by (simp add: take_bit_eq_mask mask_eq_exp_minus_1)
  moreover have "(NOT E1000_TXD_CMD_IFCS) AND 0xFFFFF = (0xFFFFF :: u32)" by code_simp
  ultimately show ?thesis by (simp only: and.assoc)
qed

text \<open>A slot that carries one mapped chunk of a packet.\<close>

definition carries :: "(dma_source \<times> nat) \<times> u64 \<Rightarrow> slot \<Rightarrow> bool" where
  "carries x s \<longleftrightarrow> desc_addr (snd s) = snd x \<and> take_bit 20 (desc_lower (snd s)) = of_nat (snd (fst x)) \<and>
     buf_dma (fst s) = snd x \<and> buf_length (fst s) = snd (fst x) \<and>
     buf_mapped_as_page (fst s) = (case fst (fst x) of Head _ \<Rightarrow> False | Frag _ _ \<Rightarrow> True)"

lemma low_bits:
  "take_bit 20 (txd_lower_of fl) = 0"
  by (simp add: txd_lower_of_def Let_def take_bit_or take_bit_and take_bit_not_take_bit)

lemma take_bit_20: "n < 2 ^ 16 \<Longrightarrow> take_bit 20 (of_nat n :: u32) = of_nat n"
proof -
  assume n: "n < 2 ^ 16"
  then have "take_bit 20 n = n" by (simp add: take_bit_nat_eq_self)
  then show ?thesis by (simp flip: of_nat_take_bit)
qed

lemma carries_fill:
  assumes "mapped_slot s0 x s" and "snd (fst x) < 2 ^ 16" and "buf_dma (fst t) = buf_dma (fst s)"
    and "buf_length (fst t) = buf_length (fst s)" and "buf_mapped_as_page (fst t) = buf_mapped_as_page (fst s)"
    and "take_bit 20 cmd = 0"
  shows "carries x (fill_slot fl t)" "carries x (queue_slot cmd fl t)"
proof -
  have l: "buf_length (fst s) = snd (fst x)" using assms(1,2) by (simp add: mapped_slot_def u16_of_def)
  show "carries x (fill_slot fl t)"
    using assms l take_bit_20 [OF assms(2)]
    by (simp add: carries_def fill_slot_def mapped_slot_def take_bit_or low_bits)
  then show "carries x (queue_slot cmd fl t)"
    using assms(6)
    by (auto simp: carries_def queue_slot_def fill_slot_def Let_def take_bit_or take_bit_ifcs low_bits
      simp del: take_bit_and)
qed

lemma chunk_lengths:
  assumes "limit < 2 ^ 16"
  shows "\<forall>c \<in> set (chunks limit skb). snd c < 2 ^ 16"
proof -
  have p: "\<forall>c \<in> set (pieces limit off len). snd c \<le> limit" for off len
  proof (induction limit off len rule: pieces.induct)
    case (1 limit off len)
    then show ?case by (cases "len = 0 \<or> limit = 0") (auto simp: pieces.simps [of limit off len])
  qed
  have "\<forall>c \<in> set (frags_chunks limit f fs). snd c \<le> limit" for f fs
  proof (induction fs arbitrary: f)
    case (Cons len fs)
    then show ?case using p [of 0 len] by (auto simp: frag_chunks_def)
  qed simp
  moreover have "\<forall>c \<in> set (head_chunks limit off len). snd c \<le> limit" for off len
    using p [of off len] by (auto simp: head_chunks_def)
  ultimately show ?thesis using assms by (fastforce simp: chunks_def)
qed

lemma placed_packet:
  fixes ctx ms :: "slot list" and b N :: nat and skb :: sk_buff and fl cmd :: u32
  assumes am: "all_mapped ss xs ms" and none: "\<forall>x \<in> set ms. buf_skb (fst x) = None" and ne: "ms \<noteq> []"
    and small: "\<forall>x \<in> set xs. snd (fst x) < 2 ^ 16"
    and ctx: "\<forall>x \<in> set ctx. free_slot x \<and> \<not> reports x"
    and cmd: "cmd AND E1000_TXD_CMD_RS \<noteq> 0" "take_bit 20 cmd = 0"
  defines "n \<equiv> List.length ctx + List.length ms"
  defines "us \<equiv> attach ((b + (n - 1)) mod N) skb (ctx @ ms)"
  defines "qs \<equiv> take (List.length ctx) us @ queue_slots cmd fl (drop (List.length ctx) us)"
  shows "packet_slots N b (n, skb) qs" "list_all2 carries xs (drop (List.length ctx) qs)"
    "\<forall>x \<in> set qs. \<not> slot_done x"
proof -
  let ?k = "List.length ctx"
  have lu: "List.length us = n" by (simp add: us_def n_def)
  have pos: "?k < n" using ne by (simp add: n_def)
  then have nd: "drop ?k us \<noteq> []" using lu by simp
  have lq: "List.length qs = n" using pos lu nd by (simp add: qs_def)
  note at = attach_nth [of _ "ctx @ ms" "(b + (n - 1)) mod N" skb, folded us_def, simplified, folded n_def]
  have ctx_at: "qs ! j = us ! j" if "j < ?k" for j
    using that lu pos by (simp_all add: qs_def nth_append)
  have chunk_at: "qs ! (?k + j) = (if Suc (?k + j) = n then queue_slot cmd fl (us ! (?k + j)) else fill_slot fl (us ! (?k + j)))"
    if "?k + j < n" for j
  proof -
    have "qs ! (?k + j) = queue_slots cmd fl (drop ?k us) ! j"
      using lu pos by (simp add: qs_def nth_append)
    then show ?thesis using queue_slots_nth [of j "drop ?k us" cmd fl] that lu by auto
  qed
  have xs: "List.length xs = List.length ms" using am by (simp add: all_mapped_def)
  have mapped: "mapped_slot (ss ! j) (xs ! j) (ms ! j)" "snd (fst (xs ! j)) < 2 ^ 16" "buf_skb (fst (ms ! j)) = None"
    "buf_length (fst (ms ! j)) < 2 ^ 16"
    if "j < List.length ms" for j
    using that am small none xs by (auto simp: all_mapped_def mapped_slot_def u16_of_def)
  have same: "fst (fill_slot fl x) = fst x" "fst (queue_slot cmd fl x) = fst x" for x
    by (simp_all add: fill_slot_def queue_slot_def Let_def)
  have buf: "fst (qs ! j) = fst (us ! j)" if "j < n" for j
  proof (cases "j < ?k")
    case False
    then show ?thesis using chunk_at [of "j - ?k"] that by (simp add: same)
  qed (simp add: ctx_at)
  show "list_all2 carries xs (drop ?k qs)"
  proof (rule list_all2_all_nthI)
    show "List.length xs = List.length (drop ?k qs)" using xs lq by (simp add: n_def)
    fix j assume "j < List.length xs"
    then have j: "j < List.length ms" "?k + j < n" using xs by (simp_all add: n_def)
    have "(ctx @ ms) ! (?k + j) = ms ! j" by simp
    with carries_fill [OF mapped(1,2) [OF j(1)], of "us ! (?k + j)" cmd fl] at(2-4) [OF j(2)] cmd(2) chunk_at [OF j(2)]
    show "carries (xs ! j) (drop ?k qs ! j)" using lq pos by auto
  qed
  have quiet: "free_slot (qs ! j) \<and> \<not> reports (qs ! j)" if "Suc j < n" for j
  proof (cases "j < ?k")
    case True
    then have "ctx ! j \<in> set ctx" "(ctx @ ms) ! j = ctx ! j" by (simp_all add: nth_append)
    with ctx at(1,5) [of j] that ctx_at [OF True] show ?thesis
      by (auto simp: free_slot_def reports_def slot_done_def)
  next
    case False
    then have "j = ?k + (j - ?k)" "j - ?k < List.length ms" using that by (auto simp: n_def)
    then obtain i where i: "j = ?k + i" "i < List.length ms" by blast
    have "(ctx @ ms) ! j = ms ! i" by (simp add: i)
    then have "buf_length (fst (us ! j)) < 2 ^ 16" "buf_skb (fst (us ! j)) = None"
      using at(3,5) [of j] mapped [OF i(2)] that by simp_all
    with fill_slot_quiet [of "us ! j" fl] chunk_at [of i] that i(1) show ?thesis
      by (simp add: free_slot_def same)
  qed
  have last: "last qs = qs ! (n - 1)" "Suc (n - 1) = n" "n - 1 < n" using lq pos by (auto simp: last_conv_nth simp flip: length_0_conv)
  have ql: "qs ! (n - 1) = queue_slot cmd fl (us ! (n - 1))"
    using chunk_at [of "n - 1 - ?k"] pos by simp
  have "hd qs = qs ! 0" using lq pos by (auto intro: hd_conv_nth)
  moreover have "\<forall>s \<in> set (butlast qs). free_slot s \<and> \<not> reports s"
  proof
    fix s assume "s \<in> set (butlast qs)"
    then obtain i where "i < List.length qs - 1" "s = qs ! i" by (auto simp: in_set_conv_nth nth_butlast)
    then show "free_slot s \<and> \<not> reports s" using quiet [of i] lq by simp
  qed
  note front = this
  ultimately show "packet_slots N b (n, skb) qs"
    using last ql lq pos buf at(5-7) [of "n - 1"] at(6) [of 0] queue_slot_reports(1) [OF cmd(1)]
    by (auto simp: packet_slots_def same)
  have "qs \<noteq> []" using lq pos by auto
  then have "set qs = insert (last qs) (set (butlast qs))"
    using append_butlast_last_id [of qs, symmetric] by (metis list.simps(15) rotate1.simps(2) set_rotate1)
  moreover have "\<not> slot_done (last qs)" using last ql queue_slot_reports(2) [OF cmd(1)] by simp
  ultimately show "\<forall>x \<in> set qs. \<not> slot_done x" using front by (simp add: free_slot_def)
qed

section \<open>The context phase\<close>

definition ctx_state :: "net \<Rightarrow> slot list \<Rightarrow> net \<Rightarrow> bool" where
  "ctx_state s ctx s' \<longleftrightarrow> (\<exists>r. s' = s\<lparr>tx_ring := r\<rparr> \<and> ring_wf r \<and> ring_count r = ring_count (tx_ring s) \<and>
     next_to_clean r = next_to_clean (tx_ring s) \<and>
     next_to_use r = (next_to_use (tx_ring s) + List.length ctx) mod ring_count (tx_ring s) \<and>
     view r (next_to_use (tx_ring s)) = ctx @ drop (List.length ctx) (view (tx_ring s) (next_to_use (tx_ring s))) \<and>
     (\<forall>x \<in> set ctx. free_slot x \<and> \<not> reports x))"

lemma ctx_state_none: "ring_wf (tx_ring s) \<Longrightarrow> ctx_state s [] s"
  unfolding ctx_state_def by (rule exI [of _ "tx_ring s"]) (simp add: ring_wf_simps)

lemma wp_take_context_state:
  assumes wf: "ring_wf (tx_ring s)" and free: "free_slot (view (tx_ring s) (next_to_use (tx_ring s)) ! 0)"
    and f: "\<And>d. \<not> bit (desc_upper d) 0 \<Longrightarrow> \<not> bit (desc_upper (f d)) 0 \<and> \<not> bit (desc_lower (f d)) 27"
  shows "wp (take_context f) (\<lambda>_ s'. \<exists>ctx. List.length ctx = 1 \<and> ctx_state s ctx s') s"
proof (rule wp_mono [OF wp_take_context [OF wf]], elim exE conjE, goal_cases)
  case (1 u s' r c)
  let ?v = "view (tx_ring s) (next_to_use (tx_ring s))"
  have "?v \<noteq> []" using wf ring_wf_simps(1) [OF wf] by (simp flip: length_0_conv)
  then have "?v[0 := c] = [c] @ drop 1 ?v" by (cases ?v) simp_all
  moreover have "\<not> bit (desc_upper (snd (?v ! 0))) 0" "buf_skb (fst (?v ! 0)) = None"
    using free by (simp_all add: free_slot_def dd_bit)
  with f [of "snd (?v ! 0)"] 1 have "free_slot c \<and> \<not> reports c" by (simp add: free_slot_def dd_bit rs_bit)
  ultimately show ?case using 1 unfolding ctx_state_def by (intro exI [of _ "[c]"] conjI exI [of _ r]) simp_all
qed

text \<open>What the driver relies on in a packet it is given.\<close>

definition skb_ok :: "sk_buff \<Rightarrow> bool" where
  "skb_ok skb \<longleftrightarrow> skb_headlen skb \<noteq> 0 \<and> skb_len skb < 2 ^ 20 \<and>
     (gso_size skb \<noteq> 0 \<longrightarrow> unat (tso_hdr_len skb) \<le> skb_len skb)"

lemma tso_desc_quiet:
  assumes "skb_ok skb" and "gso_size skb \<noteq> 0" and "\<not> bit (desc_upper d) 0"
  shows "\<not> bit (desc_upper (tso_desc skb protocol d)) 0 \<and> \<not> bit (desc_lower (tso_desc skb protocol d)) 27"
proof -
  have le: "unat (tso_hdr_len skb) \<le> skb_len skb" and len: "skb_len skb < 2 ^ 20"
    using assms by (simp_all add: skb_ok_def)
  have "(of_nat (skb_len skb) :: u32) - ucast (tso_hdr_len skb) = of_nat (skb_len skb - unat (tso_hdr_len skb))"
    using le by (simp add: of_nat_diff)
  moreover have "\<not> bit (of_nat (skb_len skb - unat (tso_hdr_len skb)) :: u32) 27"
    using len by (intro bit_small) simp
  ultimately show ?thesis
    using assms(3) by (simp add: tso_desc_def Let_def bit_or_iff bit_and_iff bit_push_bit_iff)
qed

lemma csum_desc_quiet:
  "\<not> bit (desc_upper (csum_desc skb protocol d)) 0 \<and> \<not> bit (desc_lower (csum_desc skb protocol d)) 27"
  by (simp add: csum_desc_def Let_def bit_or_iff)

text \<open>The same packet, its bytes apart.\<close>

definition same_frame :: "sk_buff \<Rightarrow> sk_buff \<Rightarrow> bool" where
  "same_frame skb skb' \<longleftrightarrow> skb' = skb\<lparr>skb_mem := skb_mem skb'\<rparr>"

lemma same_frame_eq:
  assumes "same_frame skb skb'"
  shows "skb_id skb' = skb_id skb" "skb_headlen skb' = skb_headlen skb" "skb_frags skb' = skb_frags skb"
    "chunks limit skb' = chunks limit skb" "xmit_more skb' = xmit_more skb" "gso_size skb' = gso_size skb"
    "csum_partial skb' = csum_partial skb" "skb_len skb' = skb_len skb" "skb_ok skb' = skb_ok skb"
proof -
  obtain m where "skb' = skb\<lparr>skb_mem := m\<rparr>" using assms by (auto simp: same_frame_def)
  then show "skb_id skb' = skb_id skb" "skb_headlen skb' = skb_headlen skb" "skb_frags skb' = skb_frags skb"
    "chunks limit skb' = chunks limit skb" "xmit_more skb' = xmit_more skb" "gso_size skb' = gso_size skb"
    "csum_partial skb' = csum_partial skb" "skb_len skb' = skb_len skb" "skb_ok skb' = skb_ok skb"
    by (simp_all add: skb_headlen_def chunks_def skb_ok_def tso_hdr_len_def)
qed

lemma same_frame_refl [simp]: "same_frame skb skb"
  by (simp add: same_frame_def)

lemma same_frame_tso: "same_frame skb (tso_headers k skb protocol)"
  by (simp add: same_frame_def tso_headers_def Let_def)

definition ctx_needed :: "sk_buff \<Rightarrow> nat" where
  "ctx_needed skb = (if gso_size skb \<noteq> 0 \<or> csum_partial skb then 1 else 0)"

lemma wp_tso:
  assumes wf: "ring_wf (tx_ring s)" and free: "free_slot (view (tx_ring s) (next_to_use (tx_ring s)) ! 0)"
    and ok: "skb_ok skb"
  shows "wp (e1000_tso skb protocol) (\<lambda>(t, skb') s'. same_frame skb skb' \<and> (if gso_size skb = 0 then t = 0 \<and> s' = s
     else t < 0 \<and> s' = s \<or> t = 1 \<and> (\<exists>ctx. List.length ctx = 1 \<and> ctx_state s ctx s'))) s"
proof (cases "gso_size skb = 0")
  case False
  have "skb_ok (tso_headers k skb protocol)" "gso_size (tso_headers k skb protocol) \<noteq> 0" for k
    using same_frame_eq [OF same_frame_tso [of skb k protocol]] ok False by simp_all
  note ctx = wp_take_context_state [OF wf free, OF tso_desc_quiet [OF this]]
  show ?thesis
    using False
    by (simp add: e1000_tso_def wp Let_def same_frame_tso) (use ctx in \<open>simp add: One_nat_def\<close>)
qed (simp add: e1000_tso_def wp)

lemma wp_csum:
  assumes wf: "ring_wf (tx_ring s)" and free: "free_slot (view (tx_ring s) (next_to_use (tx_ring s)) ! 0)"
  shows "wp (e1000_tx_csum skb protocol) (\<lambda>c s'. c = csum_partial skb \<and>
     (if c then \<exists>ctx. List.length ctx = 1 \<and> ctx_state s ctx s' else s' = s)) s"
proof (cases "csum_partial skb")
  case True
  note ctx = wp_take_context_state [OF wf free, of "csum_desc skb protocol", OF csum_desc_quiet]
  show ?thesis using True by (simp add: e1000_tx_csum_def wp) (use ctx in \<open>simp add: One_nat_def\<close>)
qed (simp add: e1000_tx_csum_def wp)

section \<open>A packet takes its place\<close>

definition adapter_ok :: "net \<Rightarrow> bool" where
  "adapter_ok s \<longleftrightarrow> 0 < tx_fifo_limit (ad s) \<and> tx_fifo_limit (ad s) < 2 ^ 16 \<and>
     txd_cmd (ad s) AND E1000_TXD_CMD_RS \<noteq> 0 \<and> take_bit 20 (txd_cmd (ad s)) = 0 \<and>
     xmit_stop_size s \<le> ring_count (tx_ring s)"

text \<open>
  The packet is queued: its slots follow the slots of the packets in flight, first a context
  descriptor when it needs one, then one slot for every chunk, in order, that carries the address
  its chunk was mapped at; the device is told, or the stack has promised another packet.
\<close>

definition sent :: "net \<Rightarrow> packet list \<Rightarrow> sk_buff \<Rightarrow> net \<Rightarrow> bool" where
  "sent s ps skb s' \<longleftrightarrow> (\<exists>ctx body xs. let p = (List.length ctx + List.length body, skb) in
     tx_inv (tx_ring s') (ps @ [p]) \<and>
     used_slots (tx_ring s') (ps @ [p]) = used_slots (tx_ring s) ps @ ctx @ body \<and>
     List.length ctx = ctx_needed skb \<and> map fst xs = chunks (tx_fifo_limit (ad s)) skb \<and>
     (\<forall>x \<in> set xs. \<not> k_dma_error (kernel_of s) (snd x)) \<and> list_all2 carries xs body \<and>
     (\<forall>x \<in> set (ctx @ body). \<not> slot_done x)) \<and>
   next_to_clean (tx_ring s') = next_to_clean (tx_ring s) \<and> freed (os_trace s') = freed (os_trace s) \<and>
   (tx_tail s' = Some (of_nat (next_to_use (tx_ring s'))) \<or>
    xmit_more skb \<and> \<not> queue_stopped s' \<and> tx_tail s' = tx_tail s)"

definition given_up :: "net \<Rightarrow> packet list \<Rightarrow> sk_buff \<Rightarrow> net \<Rightarrow> bool" where
  "given_up s ps skb s' \<longleftrightarrow> tx_inv (tx_ring s') ps \<and> used_slots (tx_ring s') ps = used_slots (tx_ring s) ps \<and>
     next_to_use (tx_ring s') = next_to_use (tx_ring s) \<and>
     next_to_clean (tx_ring s') = next_to_clean (tx_ring s) \<and>
     freed (os_trace s') = freed (os_trace s) @ [skb_id skb] \<and> tx_tail s' = tx_tail s"

lemma wp_xmit_timestamp:
  "wp (xmit_timestamp skb) (\<lambda>_ s'. ring_quiet s s' \<and> adapter_hw s' = adapter_hw s \<and>
     queue_stopped s' = queue_stopped s) s"
  by (simp add: xmit_timestamp_def wp net_wp ring_quiet_def env_same_def tx_tail_def)

lemma xmit_stop_same: "env_same s s' \<Longrightarrow> xmit_stop_size s' = xmit_stop_size s"
  by (simp add: env_same_def xmit_stop_size_def)

text \<open>After the mapping, a packet with at least one chunk is queued.\<close>

lemma wp_xmit_queue:
  fixes b k m :: nat
  assumes wf: "ring_wf (tx_ring s)" and room: "k + m < ring_count (tx_ring s)" and m: "0 < m"
    and use': "next_to_use (tx_ring s) = (b + k) mod ring_count (tx_ring s)"
    and stop: "xmit_stop_size s \<le> ring_count (tx_ring s)"
  shows "wp (xmit_queue skb flags m) (\<lambda>res s'. \<exists>fl. res = Inr NETDEV_TX_OK \<and> env_same s s' \<and>
     freed (os_trace s') = freed (os_trace s) \<and> ring_wf (tx_ring s') \<and>
     next_to_clean (tx_ring s') = next_to_clean (tx_ring s) \<and>
     next_to_use (tx_ring s') = (b + (k + m)) mod ring_count (tx_ring s) \<and>
     view (tx_ring s') b = take k (view (tx_ring s) b) @
       queue_slots (txd_cmd (ad s)) fl (take m (drop k (view (tx_ring s) b))) @ drop (k + m) (view (tx_ring s) b) \<and>
     (tx_tail s' = Some (of_nat (next_to_use (tx_ring s'))) \<or>
      xmit_more skb \<and> \<not> queue_stopped s' \<and> tx_tail s' = tx_tail s)) s"
  unfolding xmit_queue_def wp_bind wp_os
proof (rule wp_mono [OF wp_xmit_timestamp], goal_cases)
  case (1 stamp s1)
  define s2 where "s2 = s1\<lparr>os_trace := QueueSent (skb_len skb) # os_trace s1\<rparr>"
  have s2: "tx_ring s2 = tx_ring s" "env_same s s2" "freed (os_trace s2) = freed (os_trace s)" "tx_tail s2 = tx_tail s"
    "ad s2 = ad s1" "txd_cmd (ad s2) = txd_cmd (ad s)"
    using 1 by (simp_all add: s2_def ring_quiet_def env_same_def tx_tail_def)
  note queue = wp_tx_queue [of s2 k m b "flags OR stamp", unfolded s2(1,6), OF wf room m use']
  show ?case
    unfolding s2_def [symmetric]
  proof (rule wp_mono [OF queue], elim exE conjE, goal_cases)
    case (1 u s3 r)
    have s3: "env_same s s3" "tx_ring s3 = r" "freed (os_trace s3) = freed (os_trace s)" "tx_tail s3 = tx_tail s"
      using 1 s2 by (simp_all add: env_same_def tx_tail_def)
    have st: "xmit_stop_size s3 \<le> ring_count (tx_ring s3)" using stop s3 1 xmit_stop_same [OF s3(1)] by simp
    show ?case
      unfolding wp_get
    proof (rule wp_mono [OF wp_maybe_stop_tx [OF st]], elim conjE, goal_cases)
      case (1 res s4)
      have s4: "env_same s s4" "tx_ring s4 = r" "freed (os_trace s4) = freed (os_trace s)" "tx_tail s4 = tx_tail s"
        using 1 s3 env_same_trans [OF s3(1)] by (auto simp: ring_quiet_def)
      show ?case
        unfolding 1 sum.case wp wp_if
        using s4 \<open>ring_wf r\<close> \<open>next_to_clean r = _\<close> \<open>next_to_use r = _\<close> \<open>view r b = _\<close>
        by (auto intro!: wp_mono [OF wp_write_tx_tail] intro: env_same_trans [OF s4(1)])
    qed
  qed
qed

lemma ctx_stateD:
  assumes inv: "tx_inv (tx_ring s) ps" and ctx: "ctx_state s ctx s1"
    and room: "List.length ctx \<le> List.length (free_slots (tx_ring s) ps)"
  obtains r where "s1 = s\<lparr>tx_ring := r\<rparr>" "ring_wf r" "ring_count r = ring_count (tx_ring s)"
    "next_to_clean r = next_to_clean (tx_ring s)"
    "next_to_use r = (next_to_use (tx_ring s) + List.length ctx) mod ring_count (tx_ring s)"
    "view r (next_to_use (tx_ring s)) = ctx @ drop (List.length ctx) (free_slots (tx_ring s) ps) @ used_slots (tx_ring s) ps"
    "\<forall>x \<in> set ctx. free_slot x \<and> \<not> reports x"
  using ctx view_free_used(1) [OF inv] room unfolding ctx_state_def by auto

lemma all_nth_0: "\<forall>x \<in> set fs. P x \<Longrightarrow> fs \<noteq> [] \<Longrightarrow> P ((fs @ us) ! 0)"
  by (cases fs) auto

lemma wp_place_failed:
  assumes inv: "tx_inv (tx_ring s) ps" and ctx: "ctx_state s ctx s1"
    and room: "List.length ctx + List.length cs \<le> List.length (free_slots (tx_ring s) ps)"
    and fail: "place_failed s1 (next_to_use (tx_ring s)) (List.length ctx) cs evs r"
    and keep: "ring_kept (tx_ring s1) r" and evs: "freed evs = []"
    and s2: "s2 = s1\<lparr>tx_ring := r, os_trace := evs @ os_trace s1\<rparr>"
  shows "wp (xmit_drop skb (next_to_use (tx_ring s))) (\<lambda>res s'. res = Inr NETDEV_TX_OK \<and> env_same s s' \<and>
    given_up s ps skb s') s2"
proof -
  let ?b = "next_to_use (tx_ring s)" and ?k = "List.length ctx" and ?f = "free_slots (tx_ring s) ps"
    and ?u = "used_slots (tx_ring s) ps" and ?N = "ring_count (tx_ring s)"
  have wf: "ring_wf (tx_ring s)" using inv by (simp add: tx_inv_def ring_at_def)
  then have b: "?b < ?N" "0 < ?N" "u16_of ?b = ?b" by (simp_all add: ring_wf_simps)
  obtain r1 where s1: "s1 = s\<lparr>tx_ring := r1\<rparr>" and r1: "ring_wf r1" "ring_count r1 = ?N"
    "next_to_clean r1 = next_to_clean (tx_ring s)" "view r1 ?b = ctx @ drop ?k ?f @ ?u"
    and quiet: "\<forall>x \<in> set ctx. free_slot x \<and> \<not> reports x"
    using ctx_stateD [OF inv ctx] room by auto
  obtain xs ms es j where j: "j < List.length cs" "List.length xs = Suc j"
    and am: "all_mapped (drop ?k (view r1 ?b)) xs ms"
    and es: "list_all2 (\<lambda>x y. snd x = snd y \<and> buf_skb (fst x) = None \<and> buf_skb (fst y) = None) es ms"
    and v: "view r ?b = take ?k (view r1 ?b) @ es @ drop (?k + Suc j) (view r1 ?b)"
    using fail unfolding place_failed_def s1 by auto
  have free: "\<forall>x \<in> set ?f. free_slot x" using view_free_used(2) [OF inv] .
  have vr: "view r ?b = (ctx @ es @ drop (?k + Suc j) ?f) @ ?u" using v r1(4) room j by (simp add: add.commute)
  have "free_slot x" if "x \<in> set es" for x
  proof -
    obtain i where i: "i < List.length ms" "x = es ! i" "snd x = snd (ms ! i)" "buf_skb (fst x) = None"
      using es \<open>x \<in> set es\<close> by (auto simp: list_all2_conv_all_nth in_set_conv_nth)
    have "mapped_slot (drop ?k (view r1 ?b) ! i) (xs ! i) (ms ! i)" using am i by (simp add: all_mapped_def)
    moreover have "i < List.length ?f - ?k" using am i j room by (simp add: all_mapped_def)
    then have "drop ?k (view r1 ?b) ! i = drop ?k ?f ! i" using r1(4) room by (simp add: nth_append)
    moreover have "drop ?k ?f ! i \<in> set ?f"
      using am i j room by (simp add: all_mapped_def)
    ultimately show ?thesis using free i by (auto simp: mapped_slot_def free_slot_def slot_done_def)
  qed
  then have fs: "\<forall>x \<in> set (ctx @ es @ drop (?k + Suc j) ?f). free_slot x"
    using quiet free by (auto dest: in_set_dropD)
  have r: "ring_wf r" "ring_count r = ?N" "next_to_clean r = next_to_clean (tx_ring s)"
    using keep r1 by (simp_all add: ring_kept_def s1)
  define x where "x = ((fst (view r ?b ! 0))\<lparr>buf_time_stamp := 0\<rparr>, snd (view r ?b ! 0))"
  define r' where "r' = (put_slot ((?b + 0) mod ?N) x r)\<lparr>next_to_use := ?b\<rparr>"
  have w: "buf_next_to_watch (fst x) < ring_count r"
    using view_watch [OF r(1), of 0 ?b] b r by (simp add: x_def)
  have pos: "0 < ring_count r" using b r by simp
  have "ring_wf (put_slot ((?b + 0) mod ?N) x r)" using put_slot_wf [OF r(1) w] .
  then have wf': "ring_wf r'" using b(1) by (simp add: r'_def ring_wf_def r)
  let ?fs = "ctx @ es @ drop (?k + Suc j) ?f"
  have ne: "?fs \<noteq> []" using es am j by (auto simp: all_mapped_def dest: list_all2_lengthD)
  have "view r' ?b = (view r ?b)[0 := x]"
    using view_put_slot [OF r(1) pos, of ?b x] r by (simp add: r'_def view_def)
  moreover have "(fs @ us)[0 := x] = fs[0 := x] @ us" if "fs \<noteq> []" for fs us :: "slot list"
    using that by (cases fs) simp_all
  from this [OF ne] have "((ctx @ es @ drop (?k + Suc j) ?f) @ ?u)[0 := x] = ?fs[0 := x] @ ?u" .
  ultimately have v': "view r' ?b = ?fs[0 := x] @ ?u" unfolding vr by (rule trans)
  have "free_slot (view r ?b ! 0)"
    unfolding vr by (rule all_nth_0 [OF fs ne])
  then have "free_slot x" by (simp add: x_def free_slot_def slot_done_def)
  then have fs': "\<forall>x \<in> set (?fs[0 := x]). free_slot x" using fs set_update_subset_insert [of ?fs 0 x] by blast
  have r'f: "ring_count r' = ?N" "next_to_clean r' = next_to_clean (tx_ring s)" "next_to_use r' = ?b"
    by (simp_all add: r'_def r)
  note keep' = inv_keep [OF inv wf' r'f(1,2,3) v' fs']
  have b0: "(?b + 0) mod ring_count r = ?b" using b r by simp
  have "wp (set_tx_buf ?b (\<lambda>b. b\<lparr>buf_time_stamp := 0\<rparr>)) Q (s2\<lparr>os_trace := e\<rparr>) =
      Q () (s2\<lparr>tx_ring := put_slot ?b x r, os_trace := e\<rparr>)" for Q e
    using wp_set_pos(1) [of "s2\<lparr>os_trace := e\<rparr>" 0 ?b "\<lambda>b. b\<lparr>buf_time_stamp := 0\<rparr>"] r pos b0
    by (simp add: s2 x_def)
  note stamp = this
  have "r' = (put_slot ?b x r)\<lparr>next_to_use := ?b\<rparr>" using b by (simp add: r'_def)
  then have run: "wp (xmit_drop skb ?b) Q s2 =
      Q (Inr NETDEV_TX_OK) (s2\<lparr>tx_ring := r', os_trace := SkbFree (skb_id skb) # os_trace s2\<rparr>)" for Q
    unfolding xmit_drop_def wp_bind wp_kfree stamp wp_set_net(1) wp_return b(3) by simp
  show ?thesis
    unfolding run using keep' r'f evs
    by (simp add: given_up_def env_same_def tx_tail_def s1 s2)
qed


lemma wp_place_ok:
  assumes inv: "tx_inv (tx_ring s) ps" and ok: "adapter_ok s" and ctx: "ctx_state s ctx s1"
    and cs: "cs = chunks (tx_fifo_limit (ad s)) skb" "cs \<noteq> []" "List.length ctx = ctx_needed skb"
    and room: "List.length ctx + List.length cs < List.length (free_slots (tx_ring s) ps)"
    and placed: "place_ok s1 skb (next_to_use (tx_ring s)) (List.length ctx) cs evs r"
    and keep: "ring_kept (tx_ring s1) r" and evs: "freed evs = []"
    and s2: "s2 = s1\<lparr>tx_ring := r, os_trace := evs @ os_trace s1\<rparr>"
  shows "wp (xmit_queue skb fl (List.length cs)) (\<lambda>res s'. res = Inr NETDEV_TX_OK \<and> env_same s s' \<and>
    sent s ps skb s') s2"
proof -
  let ?b = "next_to_use (tx_ring s)" and ?k = "List.length ctx" and ?f = "free_slots (tx_ring s) ps"
    and ?u = "used_slots (tx_ring s) ps" and ?N = "ring_count (tx_ring s)"
  let ?n = "?k + List.length cs" and ?cmd = "txd_cmd (ad s)"
  have lf: "List.length ?f = ?N - slots_of ps" "slots_of ps < ?N"
    using view_free_used(3) [OF inv] inv by (simp_all add: tx_inv_def ring_at_def)
  obtain r1 where s1: "s1 = s\<lparr>tx_ring := r1\<rparr>" and r1: "ring_wf r1" "ring_count r1 = ?N"
    "next_to_clean r1 = next_to_clean (tx_ring s)" "next_to_use r1 = (?b + ?k) mod ?N"
    "view r1 ?b = ctx @ drop ?k ?f @ ?u"
    and quiet: "\<forall>x \<in> set ctx. free_slot x \<and> \<not> reports x"
    using ctx_stateD [OF inv ctx] room by (metis less_imp_le_nat add_leD1)
  obtain xs ms where xs: "map fst xs = cs" "\<forall>x \<in> set xs. \<not> k_dma_error (kernel_of s) (snd x)"
    and am: "all_mapped (drop ?k (view r1 ?b)) xs ms"
    and v: "view r ?b = attach ((?b + (?n - 1)) mod ?N) skb (ctx @ ms) @ drop ?n (view r1 ?b)"
    using placed unfolding place_ok_def s1 by (auto simp: r1)
  have lx: "List.length xs = List.length cs" using xs(1) by (metis length_map)
  then have lm: "List.length ms = List.length cs" using am by (simp add: all_mapped_def)
  define us where "us = attach ((?b + (?n - 1)) mod ?N) skb (ctx @ ms)"
  have lu: "List.length us = ?n" by (simp add: us_def lm)
  have vr: "view r ?b = us @ drop ?n ?f @ ?u" using v r1(5) room by (simp add: us_def add.commute)
  have free: "\<forall>x \<in> set ?f. free_slot x" using view_free_used(2) [OF inv] .
  have "buf_skb (fst x) = None" if "x \<in> set (take (List.length xs) (drop ?k (view r1 ?b)))" for x
  proof -
    have "take (List.length xs) (drop ?k (view r1 ?b)) = take (List.length xs) (drop ?k ?f)"
      using r1(5) room lx by simp
    then show ?thesis using that free by (auto simp: free_slot_def dest!: in_set_takeD in_set_dropD)
  qed
  then have none: "\<forall>x \<in> set ms. buf_skb (fst x) = None"
    using all_mapped_none [OF am] r1(5) room lx by simp
  have limit: "0 < tx_fifo_limit (ad s)" "tx_fifo_limit (ad s) < 2 ^ 16" "?cmd AND E1000_TXD_CMD_RS \<noteq> 0"
    "take_bit 20 ?cmd = 0" "xmit_stop_size s \<le> ?N"
    using ok by (simp_all add: adapter_ok_def)
  have small: "\<forall>x \<in> set xs. snd (fst x) < 2 ^ 16"
    using chunk_lengths [OF limit(2), of skb] xs(1) cs(1) by (metis (no_types, lifting) image_eqI image_set)
  have r: "ring_wf r" "ring_count r = ?N" "next_to_clean r = next_to_clean (tx_ring s)" "next_to_use r = (?b + ?k) mod ?N"
    using keep r1 by (simp_all add: ring_kept_def s1)
  have s2r: "tx_ring s2 = r" "ad s2 = ad s" "env_same s s2" "freed (os_trace s2) = freed (os_trace s)"
    "tx_tail s2 = tx_tail s" "xmit_stop_size s2 \<le> ?N"
    using evs r limit(5) by (simp_all add: s2 s1 env_same_def tx_tail_def xmit_stop_size_def)
  have ne: "ms \<noteq> []" "0 < List.length cs" using lm cs(2) by auto
  have fit: "?n < ?N" using room lf by linarith
  have "wp (xmit_queue skb fl (List.length cs)) (\<lambda>res s'. \<exists>fl. res = Inr NETDEV_TX_OK \<and> env_same s2 s' \<and>
     freed (os_trace s') = freed (os_trace s) \<and> ring_wf (tx_ring s') \<and>
     next_to_clean (tx_ring s') = next_to_clean (tx_ring s) \<and>
     next_to_use (tx_ring s') = (?b + ?n) mod ?N \<and>
     view (tx_ring s') ?b = take ?k us @ queue_slots ?cmd fl (drop ?k us) @ drop ?n ?f @ ?u \<and>
     (tx_tail s' = Some (of_nat (next_to_use (tx_ring s'))) \<or>
      xmit_more skb \<and> \<not> queue_stopped s' \<and> tx_tail s' = tx_tail s)) s2"
    using wp_xmit_queue [of s2 ?k "List.length cs" ?b skb fl] r fit ne(2) s2r lu vr by simp
  then show ?thesis
  proof (rule wp_mono, elim exE conjE, goal_cases)
    case (1 res s' fl')
    define qs where "qs = take ?k us @ queue_slots ?cmd fl' (drop ?k us)"
    note pp = placed_packet [OF am none ne(1) small quiet limit(3,4), where b = ?b and N = ?N and skb = skb and fl = fl', unfolded lm,
        folded us_def, folded qs_def]
    have v': "view (tx_ring s') ?b = qs @ drop ?n ?f @ ?u" using 1 by (simp add: qs_def)
    let ?p = "(?n, skb)"
    have cnt: "ring_count (tx_ring s') = ?N" using 1 s2r(1) r(2) by (simp add: env_same_def)
    have use': "next_to_use (tx_ring s') = (?b + fst ?p) mod ?N" using 1 by simp
    have rm: "slots_of ps + fst ?p < ?N" using room lf by simp
    have fr: "\<forall>x \<in> set (drop ?n ?f). free_slot x" using free by (auto dest: in_set_dropD)
    note snoc = inv_snoc [OF inv 1(5) cnt 1(6) use' rm v' pp(1) fr]
    have lk: "List.length (take ?k qs) = ?k" "List.length (drop ?k qs) = List.length cs"
      using pp(1) by (simp_all add: packet_slots_def)
    have "sent s ps skb s'"
      unfolding sent_def Let_def
      using 1 snoc pp(2,3) lk xs cs
      by (intro conjI exI [of _ "take ?k qs"] exI [of _ "drop ?k qs"] exI [of _ xs]) simp_all
    then show ?case using 1 env_same_trans [OF s2r(3)] by simp
  qed
qed

lemma chunks_nonempty: "0 < limit \<Longrightarrow> skb_headlen skb \<noteq> 0 \<Longrightarrow> chunks limit skb \<noteq> []"
  by (simp add: chunks_def head_chunks_def pieces.simps [of limit 0])

text \<open>Mapping and what follows it, after the context phase.\<close>

lemma wp_place_rest:
  assumes inv: "tx_inv (tx_ring s) ps" and ok: "adapter_ok s" "skb_ok skb"
    and ctx: "ctx_state s ctx s1" "List.length ctx = ctx_needed skb"
    and room: "ctx_needed skb + List.length (chunks (tx_fifo_limit (ad s)) skb) + slots_of ps < ring_count (tx_ring s)"
  shows "wp (do {
      r \<leftarrow> e1000_tx_map skb (next_to_use (tx_ring s)) (tx_fifo_limit (ad s));
      case r of Inl e \<Rightarrow> return (Inl e)
      | Inr cnt \<Rightarrow> if cnt \<noteq> 0 then xmit_queue skb fl cnt else xmit_drop skb (next_to_use (tx_ring s)) })
    (\<lambda>res s'. res = Inr NETDEV_TX_OK \<and> env_same s s' \<and> (sent s ps skb s' \<or> given_up s ps skb s')) s1"
proof -
  let ?b = "next_to_use (tx_ring s)" and ?k = "List.length ctx" and ?f = "free_slots (tx_ring s) ps"
  define cs where "cs = chunks (tx_fifo_limit (ad s)) skb"
  have lim: "0 < tx_fifo_limit (ad s)" and head: "skb_headlen skb \<noteq> 0"
    using ok by (simp_all add: adapter_ok_def skb_ok_def)
  have ne: "cs \<noteq> []" using chunks_nonempty [OF lim head] by (simp add: cs_def)
  have lf: "List.length ?f = ring_count (tx_ring s) - slots_of ps" using view_free_used(3) [OF inv] .
  have room': "?k + List.length cs < List.length ?f" using room ctx(2) lf by (simp add: cs_def)
  have "?k \<le> List.length ?f" using room' by simp
  from ctx_stateD [OF inv ctx(1) this]
  obtain r1 where s1: "s1 = s\<lparr>tx_ring := r1\<rparr>" and r1: "ring_wf r1" "ring_count r1 = ring_count (tx_ring s)"
    "next_to_use r1 = (?b + ?k) mod ring_count (tx_ring s)"
    "view r1 ?b = ctx @ drop ?k ?f @ used_slots (tx_ring s) ps" by metis
  have "take (List.length cs) (drop ?k (view r1 ?b)) = take (List.length cs) (drop ?k ?f)"
    using room' r1(4) by simp
  then have free: "\<forall>x \<in> set (take (List.length cs) (drop ?k (view r1 ?b))). buf_skb (fst x) = None"
    using view_free_used(2) [OF inv] by (auto simp: free_slot_def dest!: in_set_takeD in_set_dropD)
  have wf: "ring_wf (tx_ring s)" using inv by (simp add: tx_inv_def ring_at_def)
  have b: "?b < ring_count r1" using wf r1(2) by (simp add: ring_wf_simps)
  have fit: "?k + List.length cs < ring_count r1" using room' lf r1(2) by linarith
  have "tx_ring s1 = r1" "ad s1 = ad s" using s1 by simp_all
  note map_wp = wp_tx_map_view [of s1 ?b ?k "tx_fifo_limit (ad s)" skb, folded cs_def, unfolded this,
    OF r1(1) b r1(3) [folded r1(2)] fit lim head free]
  show ?thesis
    unfolding wp_bind
  proof (rule wp_mono [OF map_wp], elim exE conjE, goal_cases)
    case (1 res s2 r evs)
    have keep: "ring_kept (tx_ring s1) r" using 1 \<open>tx_ring s1 = r1\<close> by simp
    from 1(4) show ?case
    proof (elim disjE conjE)
      assume "res = Inr (List.length cs)" "place_ok s1 skb ?b ?k cs evs r"
      then show ?thesis
        using wp_mono [OF wp_place_ok [OF inv ok(1) ctx(1) cs_def ne ctx(2) room' _ keep 1(3,1)]] ne
        by (simp add: wp_option)
    next
      assume "res = Inr 0" "place_failed s1 ?b ?k cs evs r"
      then show ?thesis
        using wp_mono [OF wp_place_failed [OF inv ctx(1) less_imp_le [OF room'] _ keep 1(3,1)]] by simp
    qed
  qed
qed

lemma sent_frame:
  assumes "same_frame skb skb'"
  shows "given_up s ps skb' s' = given_up s ps skb s'"
  using same_frame_eq [OF assms] by (simp add: given_up_def)

lemma wp_xmit_place:
  assumes inv: "tx_inv (tx_ring s) ps" and ok: "adapter_ok s" "skb_ok skb"
    and room: "ctx_needed skb + List.length (chunks (tx_fifo_limit (ad s)) skb) + slots_of ps < ring_count (tx_ring s)"
  shows "wp (xmit_place skb) (\<lambda>res s'. res = Inr NETDEV_TX_OK \<and> env_same s s' \<and>
    ((\<exists>skb'. same_frame skb skb' \<and> sent s ps skb' s') \<or> given_up s ps skb s')) s"
proof -
  have wf: "ring_wf (tx_ring s)" using inv by (simp add: tx_inv_def ring_at_def)
  have "free_slots (tx_ring s) ps \<noteq> []" using view_free_used(3) [OF inv] room by auto
  then have "free_slot (view (tx_ring s) (next_to_use (tx_ring s)) ! 0)"
    using view_free_used(1,2) [OF inv] by (cases "free_slots (tx_ring s) ps") auto
  note free = this
  have rest: "wp (do {
      r \<leftarrow> e1000_tx_map skb' (next_to_use (tx_ring s)) (tx_fifo_limit (ad s));
      case r of Inl e \<Rightarrow> return (Inl e)
      | Inr cnt \<Rightarrow> if cnt \<noteq> 0 then xmit_queue skb' fl cnt else xmit_drop skb' (next_to_use (tx_ring s)) })
    (\<lambda>res s'. res = Inr NETDEV_TX_OK \<and> env_same s s' \<and>
      ((\<exists>skb'. same_frame skb skb' \<and> sent s ps skb' s') \<or> given_up s ps skb s')) s1"
    if "same_frame skb skb'" "ctx_state s ctx s1" "List.length ctx = ctx_needed skb" for skb' ctx s1 fl
  proof -
    note same = same_frame_eq [OF that(1)]
    have "ctx_needed skb' = ctx_needed skb" using same by (simp add: ctx_needed_def)
    then have "wp (do {
        r \<leftarrow> e1000_tx_map skb' (next_to_use (tx_ring s)) (tx_fifo_limit (ad s));
        case r of Inl e \<Rightarrow> return (Inl e)
        | Inr cnt \<Rightarrow> if cnt \<noteq> 0 then xmit_queue skb' fl cnt else xmit_drop skb' (next_to_use (tx_ring s)) })
      (\<lambda>res s'. res = Inr NETDEV_TX_OK \<and> env_same s s' \<and> (sent s ps skb' s' \<or> given_up s ps skb' s')) s1"
      by (intro wp_place_rest [OF inv ok(1) _ that(2)]) (simp_all only: ok(2) that(3) room same)
    then show ?thesis
      by (rule wp_mono) (use that(1) sent_frame [OF that(1)] in blast)
  qed
  show ?thesis
    unfolding xmit_place_def wp_bind wp_get wp_let
  proof (rule wp_mono [OF wp_tso [OF wf free ok(2)]], goal_cases)
    case (1 ts s1)
    obtain t skb' where ts: "ts = (t, skb')" by (cases ts)
    have same: "same_frame skb skb'" using 1 ts by simp
    have keep: "ad s1 = ad s" using 1 ts by (auto simp: ctx_state_def split: if_splits)
    show ?case
    proof (cases "t < 0")
      case True
      then have s1: "s1 = s" using 1 ts by (auto split: if_splits)
      have "given_up s ps skb (s\<lparr>os_trace := SkbFree (skb_id skb') # os_trace s\<rparr>)"
        using inv same_frame_eq(1) [OF same] by (simp add: given_up_def tx_tail_def)
      then show ?thesis using True ts s1 by (simp add: wp wp_kfree env_same_def)
    next
      case False
      show ?thesis
      proof (cases "t = 0")
        case True
        then have s1: "s1 = s" and g: "gso_size skb = 0" using 1 ts by (auto split: if_splits)
        have ctx: "\<exists>ctx. List.length ctx = ctx_needed skb \<and> ctx_state s ctx s2"
          if "if csum_partial skb' then \<exists>ctx. List.length ctx = 1 \<and> ctx_state s ctx s2 else s2 = s" for s2
          using that g same_frame_eq(7) [OF same] ctx_state_none [OF wf]
          by (cases "csum_partial skb'") (auto simp: ctx_needed_def)
        show ?thesis
          unfolding ts case_prod_conv s1 wp_if True wp_bind wp_let wp_return simp_thms
        proof (intro conjI impI, simp, rule wp_mono [OF wp_csum [OF wf free]], goal_cases)
          case (1 c s2)
          then obtain ctx where "List.length ctx = ctx_needed skb" "ctx_state s ctx s2" using ctx by metis
          from rest [OF same this(2,1), unfolded wp_bind] show ?case .
        qed
      next
        case False
        then have g: "gso_size skb \<noteq> 0" "t = 1" using 1 ts \<open>\<not> t < 0\<close> by (auto split: if_splits)
        then obtain ctx where "List.length ctx = ctx_needed skb" "ctx_state s ctx s1"
          using 1 ts by (auto simp: ctx_needed_def)
        from rest [OF same this(2,1), unfolded wp_bind] \<open>t \<noteq> 0\<close> \<open>\<not> t < 0\<close> show ?thesis
          unfolding ts case_prod_conv wp_if wp_bind wp_let wp_return by (intro conjI impI) (assumption | erule (1) notE)+
      qed
    qed
  qed
qed

section \<open>The transmit function\<close>

lemma wp_transfer_dhcp:
  "wp (e1000_transfer_dhcp_info skb) (\<lambda>_ s'. ring_quiet s s' \<and> queue_stopped s' = queue_stopped s) s"
proof -
  have quiet: "wp (on_hw (e1000e_mng_write_dhcp_info buffer len))
      (\<lambda>_ s'. ring_quiet s s' \<and> queue_stopped s' = queue_stopped s) s" for buffer len
    unfolding wp_on_hw
    by (rule wp_mono [OF wp_keeps [OF keeps_dhcp]]) (simp add: ring_quiet_def env_same_def tx_tail_def)
  show ?thesis
    unfolding e1000_transfer_dhcp_info_def wp_bind wp_get wp_let wp_if wp_return
    using quiet by simp
qed

text \<open>The packet that is sent, after padding and pulling; \<open>None\<close> when one of them fails.\<close>

definition prepared :: "net \<Rightarrow> sk_buff \<Rightarrow> sk_buff option" where
  "prepared s skb = Option.bind (k_put_padto (kernel_of s) (os_trace s) skb 17)
     (\<lambda>skb. fst (run_state (tso_pull skb) s))"

lemma wp_tso_pull: "wp (tso_pull skb) Q s = Q (fst (run_state (tso_pull skb) s)) s"
  by (simp add: tso_pull_def wp_def)

lemma sent_quiet:
  assumes "ring_quiet s s1"
  shows "sent s1 ps skb s' = sent s ps skb s'" "given_up s1 ps skb s' = given_up s ps skb s'"
  using assms by (simp_all add: ring_quiet_def env_same_def sent_def given_up_def)

lemma adapter_ok_same: "env_same s s' \<Longrightarrow> adapter_ok s' = adapter_ok s"
  by (simp add: adapter_ok_def xmit_stop_same) (simp add: env_same_def)

lemma desc_count_chunks:
  "0 < limit \<Longrightarrow> xmit_desc_count limit skb = ctx_needed skb + 1 + List.length (chunks limit skb)"
  by (simp add: xmit_desc_count_def ctx_needed_def length_chunks)

definition xmit_post :: "net \<Rightarrow> packet list \<Rightarrow> sk_buff \<Rightarrow> halt + netdev_tx \<Rightarrow> net \<Rightarrow> bool" where
  "xmit_post s ps skb res s' \<longleftrightarrow> env_same s s' \<and>
     (res = Inr NETDEV_TX_OK \<and> \<not> down s \<and>
        (\<exists>skb1 skb2. prepared s skb = Some skb1 \<and> same_frame skb1 skb2 \<and> sent s ps skb2 s') \<or>
      res = Inr NETDEV_TX_OK \<and> given_up s ps skb s' \<or>
      res = Inr NETDEV_TX_BUSY \<and> ring_quiet s s' \<and> queue_stopped s')"

lemma wp_xmit_rest:
  assumes inv: "tx_inv (tx_ring s) ps" and ok: "adapter_ok s" "skb_ok skb"
    and fits: "xmit_desc_count (tx_fifo_limit (ad s)) skb + 2 \<le> ring_count (tx_ring s)"
  shows "wp (do { r \<leftarrow> e1000_maybe_stop_tx (xmit_desc_count (tx_fifo_limit (ad s)) skb + 2);
      case r of Inl e \<Rightarrow> return (Inl e)
      | Inr busy \<Rightarrow> if busy then return (Inr NETDEV_TX_BUSY) else xmit_place skb })
    (\<lambda>res s'. env_same s s' \<and> (res = Inr NETDEV_TX_OK \<and>
       ((\<exists>skb'. same_frame skb skb' \<and> sent s ps skb' s') \<or> given_up s ps skb s') \<or>
      res = Inr NETDEV_TX_BUSY \<and> ring_quiet s s' \<and> queue_stopped s')) s"
  unfolding wp_bind
proof (rule wp_mono [OF wp_maybe_stop_tx [OF fits]], elim conjE, goal_cases)
  case (1 r s1)
  let ?n = "xmit_desc_count (tx_fifo_limit (ad s)) skb + 2"
  have same: "env_same s s1" "tx_ring s1 = tx_ring s" "ad s1 = ad s \<or> True" using 1 by (simp_all add: ring_quiet_def)
  show ?case
  proof (cases "e1000_desc_unused (tx_ring s) < int ?n")
    case True
    then show ?thesis using 1 same by (simp add: wp)
  next
    case False
    have lim: "0 < tx_fifo_limit (ad s)" using ok by (simp add: adapter_ok_def)
    have "slots_of ps < ring_count (tx_ring s)" using inv by (simp add: tx_inv_def ring_at_def)
    then have room: "ctx_needed skb + List.length (chunks (tx_fifo_limit (ad s)) skb) + slots_of ps < ring_count (tx_ring s)"
      using False unfolding unused_eq [OF inv] desc_count_chunks [OF lim] by linarith
    have lim1: "tx_fifo_limit (ad s1) = tx_fifo_limit (ad s)" using same by (simp add: env_same_def)
    have ok1: "adapter_ok s1" using adapter_ok_same [OF same(1)] ok by simp
    note place = wp_xmit_place [of s1 ps skb, unfolded same(2) lim1, OF inv ok1 ok(2) room]
    have "wp (xmit_place skb) (\<lambda>res s'. env_same s s' \<and> (res = Inr NETDEV_TX_OK \<and>
       ((\<exists>skb'. same_frame skb skb' \<and> sent s ps skb' s') \<or> given_up s ps skb s') \<or>
      res = Inr NETDEV_TX_BUSY \<and> ring_quiet s s' \<and> queue_stopped s')) s1"
      by (rule wp_mono [OF place]) (use sent_quiet [OF 1(1)] env_same_trans [OF same(1)] in blast)
    then show ?thesis using 1 False by simp
  qed
qed

lemma wp_xmit_frame:
  assumes inv: "tx_inv (tx_ring s) ps" and ok: "adapter_ok s"
    and pad: "\<And>skb'. k_put_padto (kernel_of s) (os_trace s) skb 17 = Some skb' \<Longrightarrow> skb_id skb' = skb_id skb"
    and skb: "\<And>skb'. prepared s skb = Some skb' \<Longrightarrow> skb_ok skb' \<and> skb_id skb' = skb_id skb \<and>
      xmit_desc_count (tx_fifo_limit (ad s)) skb' + 2 \<le> ring_count (tx_ring s)"
  shows "wp (e1000_xmit_frame skb) (xmit_post s ps skb) s"
proof -
  have free: "xmit_post s ps skb (Inr NETDEV_TX_OK) (s\<lparr>os_trace := SkbFree (skb_id skb') # os_trace s\<rparr>)"
    if "skb_id skb' = skb_id skb" for skb'
    using inv that by (simp add: xmit_post_def given_up_def env_same_def tx_tail_def)
  define pre where "pre skb = (if tx_pkt_filtering (mac (adapter_hw s))
    then do { _ \<leftarrow> e1000_transfer_dhcp_info skb; return () } else return ())" for skb
  have pre: "wp (pre skb) (\<lambda>_ s'. ring_quiet s s' \<and> queue_stopped s' = queue_stopped s) s" for skb
    unfolding pre_def by (simp add: wp wp_mono [OF wp_transfer_dhcp])
  have main: "wp (do { pre skb1; r \<leftarrow> e1000_maybe_stop_tx (xmit_desc_count (tx_fifo_limit (ad s)) skb1 + 2);
      case r of Inl e \<Rightarrow> return (Inl e)
      | Inr busy \<Rightarrow> if busy then return (Inr NETDEV_TX_BUSY) else xmit_place skb1 }) (xmit_post s ps skb) s"
    if up: "\<not> down s" and prep: "prepared s skb = Some skb1" for skb1
    unfolding wp_bind
  proof (rule wp_mono [OF pre], elim conjE, goal_cases)
    case (1 u s1)
    have same: "env_same s s1" "tx_ring s1 = tx_ring s" using 1 by (simp_all add: ring_quiet_def)
    have lim1: "tx_fifo_limit (ad s1) = tx_fifo_limit (ad s)" using same by (simp add: env_same_def)
    have ok1: "adapter_ok s1" using adapter_ok_same [OF same(1)] ok by simp
    note rest = wp_xmit_rest [of s1 ps skb1, unfolded same(2) lim1, OF inv ok1]
    have sk: "skb_ok skb1" "xmit_desc_count (tx_fifo_limit (ad s)) skb1 + 2 \<le> ring_count (tx_ring s)"
      "skb_id skb1 = skb_id skb"
      using skb [OF prep] by simp_all
    have "given_up s ps skb1 s' = given_up s ps skb s'" for s' using sk(3) by (simp add: given_up_def)
    with prep up sent_quiet [OF 1(1)] env_same_trans [OF same(1)] ring_quiet_trans [OF 1(1)]
    have "wp (do { r \<leftarrow> e1000_maybe_stop_tx (xmit_desc_count (tx_fifo_limit (ad s)) skb1 + 2);
      case r of Inl e \<Rightarrow> return (Inl e)
      | Inr busy \<Rightarrow> if busy then return (Inr NETDEV_TX_BUSY) else xmit_place skb1 }) (xmit_post s ps skb) s1"
      unfolding xmit_post_def by (intro wp_mono [OF rest [OF sk(1,2)]]) blast
    then show ?case unfolding wp_bind .
  qed
  have halves: "(case r of Inl e \<Rightarrow> return (Inl e) | Inr True \<Rightarrow> return (Inr NETDEV_TX_BUSY)
      | Inr False \<Rightarrow> xmit_place skb1) = (case r of Inl e \<Rightarrow> return (Inl e)
      | Inr busy \<Rightarrow> if busy then return (Inr NETDEV_TX_BUSY) else xmit_place skb1)" for r skb1
    by (auto split: sum.split bool.split)
  show ?thesis
  proof (cases "down s \<or> skb_len skb = 0")
    case True
    then show ?thesis using free [of skb] by (auto simp: e1000_xmit_frame_def wp wp_kfree)
  next
    case up: False
    show ?thesis
    proof (cases "k_put_padto (kernel_of s) (os_trace s) skb 17")
      case None
      then show ?thesis using up free [of skb] by (simp add: e1000_xmit_frame_def wp wp_kfree)
    next
      case (Some skb1)
      show ?thesis
      proof (cases "fst (run_state (tso_pull skb1) s)")
        case None
        then show ?thesis
          using up Some free [OF pad [OF Some]]
          by (simp add: e1000_xmit_frame_def wp wp_kfree wp_tso_pull)
      next
        case Some2: (Some skb2)
        then have "prepared s skb = Some skb2" using Some by (simp add: prepared_def)
        from main [OF _ this] up show ?thesis
          unfolding e1000_xmit_frame_def wp_bind wp_get wp_if Some option.case wp_tso_pull Some2 halves pre_def
          by simp
      qed
    qed
  qed
qed

end
