(* ===== verification/Rx_Queue.thy ===== *)
theory Rx_Queue
  imports Rx_Ring Tx_Accept "HOL-Library.Multiset"
begin

text \<open>
  The receive ring as a queue of buffers. Seen from an index on, the slots of the ring begin with
  those that hold a buffer the device may fill, in the order in which it fills them, and go on with
  the slots that wait for a new buffer. Giving buffers to the device appends to the first group,
  cleaning takes from its front.
\<close>

unbundle bit_operations_syntax

section \<open>Weakest preconditions of the primitives\<close>

lemma wp_on_net [net_wp]:
  "wp (on_net m) Q = (\<lambda>s. wp m (\<lambda>a t. Q a (s\<lparr>net_of := t\<rparr>)) (net_of s))"
  by (simp add: wp_def on_net_def fun_eq_iff case_prod_beta Let_def)

lemma wp_rx_os [net_wp]: "wp (rx_os e) Q = (\<lambda>s. Q () (s\<lparr>rx_trace := e # rx_trace s\<rparr>))"
  by (simp add: rx_os_def wp)

lemma wp_set_rx [net_wp]:
  "wp (set_rxr f) Q = (\<lambda>s. Q () (s\<lparr>rxr := f (rxr s)\<rparr>))"
  "wp (set_rxa g) Q = (\<lambda>s. Q () (s\<lparr>rxa := g (rxa s)\<rparr>))"
  "wp (set_rx_buf i b) Q = (\<lambda>s. Q () (s\<lparr>rxr := rxr s\<lparr>rx_info :=
      (rx_info (rxr s))[i := b (rx_info (rxr s) ! i)]\<rparr>\<rparr>))"
  "wp (set_rx_desc i d) Q = (\<lambda>s. Q () (s\<lparr>rxr := rxr s\<lparr>rx_descs :=
      (rx_descs (rxr s))[i := d (rx_descs (rxr s) ! i)]\<rparr>\<rparr>))"
  by (simp_all add: set_rxr_def set_rxa_def set_rx_buf_def set_rx_desc_def wp)

lemma wp_alloc_skb [net_wp]:
  "wp (alloc_skb sz) Q = (\<lambda>s. if k_rx_alloc (rx_kernel_of s) (rx_trace s) sz
     then Q (Some (List.length (rx_trace s))) (s\<lparr>rx_trace := RxAlloc (List.length (rx_trace s)) sz # rx_trace s\<rparr>)
     else Q None s)"
  by (simp add: alloc_skb_def wp net_wp fun_eq_iff)

lemma wp_rx_map_single [net_wp]:
  "wp (rx_map_single skb) Q = (\<lambda>s. Q (k_rx_map (rx_kernel_of s) (rx_trace s) skb)
     (s\<lparr>rx_trace := RxMap skb (k_rx_map (rx_kernel_of s) (rx_trace s) skb) # rx_trace s\<rparr>))"
  by (simp add: rx_map_single_def wp net_wp fun_eq_iff Let_def)

section \<open>The tail register\<close>

definition rx_tail :: "nic \<Rightarrow> u32 option" where
  "rx_tail s = last_write (trace (adapter_hw (net_of s))) (E1000_RDT 0)"

text \<open>What no operation of the receive path changes.\<close>

definition rx_env :: "nic \<Rightarrow> rx_config \<times> rx_kernel \<times> kernel" where
  "rx_env s = (rxc s, rx_kernel_of s, kernel_of (net_of s))"

lemma rx_env_fields:
  assumes "rx_env s' = rx_env s"
  shows "rxc s' = rxc s" "rx_kernel_of s' = rx_kernel_of s" "kernel_of (net_of s') = kernel_of (net_of s)"
  using assms by (simp_all add: rx_env_def)

lemma rdt_regs: "E1000_RCTL \<noteq> E1000_RDT 0" "E1000_RDT 0 \<noteq> E1000_RCTL" "E1000_LTRV \<noteq> E1000_RDT 0"
  "E1000_RDH 0 \<noteq> E1000_RDT 0"
  by (simp_all add: E1000_RDT_def E1000_RDH_def)

lemma wp_write_rx_tail:
  "wp (write_rx_tail i) (\<lambda>_ s'. \<exists>t. s' = s\<lparr>net_of := t\<rparr> \<and> rx_env s' = rx_env s \<and> rx_tail s' = Some (of_nat i)) s"
proof -
  have "wp ew32_prepare (\<lambda>_ h'. adapter h' = adapter h) h" for h
    unfolding ew32_prepare_def
    by (rule wp_mono [OF wp_keeps [where r = 0, OF keeps.frame_ew32_prepare]]) simp
  note prepare = this [of "adapter_hw (net_of s)"]
  show ?thesis
  proof (cases "pcim2pci_wa (adapter (adapter_hw (net_of s)))")
    case True
    then show ?thesis
      by (simp add: write_rx_tail_def e1000e_update_rdt_wa_def wp net_wp)
        (rule wp_mono [OF prepare], auto simp: rx_env_def rx_tail_def rdt_regs intro!: exI)
  qed (auto simp: write_rx_tail_def wp net_wp rx_env_def rx_tail_def intro!: exI)
qed

section \<open>The ring as a list of slots\<close>

type_synonym rx_slot = "rx_buffer \<times> rx_desc"

definition rx_view :: "rx_ring \<Rightarrow> nat \<Rightarrow> rx_slot list" where
  "rx_view r i = rotate i (zip (rx_info r) (rx_descs r))"

definition rx_wf :: "rx_ring \<Rightarrow> bool" where
  "rx_wf r \<longleftrightarrow> 0 < rx_count r \<and> rx_count r < 2 ^ 16 \<and>
     List.length (rx_info r) = rx_count r \<and> List.length (rx_descs r) = rx_count r"

lemma rx_wf_simps:
  assumes "rx_wf r"
  shows "0 < rx_count r" "List.length (rx_info r) = rx_count r" "List.length (rx_descs r) = rx_count r"
    "n < rx_count r \<Longrightarrow> u16_of n = n"
  using assms by (auto simp: rx_wf_def u16_of_def)

lemma length_rx_view [simp]: "rx_wf r \<Longrightarrow> List.length (rx_view r i) = rx_count r"
  by (simp add: rx_view_def rx_wf_simps)

lemma rx_view_nth:
  assumes "rx_wf r" and "k < rx_count r"
  shows "rx_view r i ! k = (rx_info r ! ((i + k) mod rx_count r), rx_descs r ! ((i + k) mod rx_count r))"
  using assms rx_wf_simps(1) [OF assms(1)] by (simp add: rx_view_def nth_rotate rx_wf_simps add.commute)

lemma rx_view_next:
  assumes "rx_wf r"
  shows "rx_view r ((i + 1) mod rx_count r) = rotate1 (rx_view r i)"
proof -
  have "List.length (zip (rx_info r) (rx_descs r)) = rx_count r" using assms by (simp add: rx_wf_simps)
  then show ?thesis unfolding rx_view_def
    by (metis rotate_conv_mod Suc_eq_plus1 rotate_Suc)
qed

lemma rx_view_put:
  assumes "rx_wf r" and "k < rx_count r" and "i = (c + k) mod rx_count r"
  shows "rx_view (r\<lparr>rx_info := (rx_info r)[i := b], rx_descs := (rx_descs r)[i := d]\<rparr>) c = (rx_view r c)[k := (b, d)]"
proof -
  have "List.length (zip (rx_info r) (rx_descs r)) = rx_count r" using assms by (simp add: rx_wf_simps)
  then have "rotate c ((zip (rx_info r) (rx_descs r))[i := (b, d)]) = (rotate c (zip (rx_info r) (rx_descs r)))[k := (b, d)]"
    using rotate_update [of k "zip (rx_info r) (rx_descs r)" c "(b, d)"] assms by simp
  then show ?thesis by (simp add: rx_view_def update_zip)
qed

lemma rx_put_wf:
  "rx_wf r \<Longrightarrow> rx_wf (r\<lparr>rx_info := (rx_info r)[i := b], rx_descs := (rx_descs r)[i := d]\<rparr>)"
  by (simp add: rx_wf_def)

section \<open>Books\<close>

text \<open>What a trace says of buffers and mappings, newest first.\<close>

definition collect :: "(rx_event \<Rightarrow> 'a list) \<Rightarrow> rx_event list \<Rightarrow> 'a list" where
  "collect g t = concat (map g t)"

lemma collect_simps [simp]:
  "collect g [] = []" "collect g (e # t) = g e @ collect g t" "collect g (t @ u) = collect g t @ collect g u"
  by (simp_all add: collect_def)

fun alloc_of :: "rx_event \<Rightarrow> nat list" where
  "alloc_of (RxAlloc skb _) = [skb]"
| "alloc_of _ = []"

fun handed_of :: "rx_event \<Rightarrow> nat list" where
  "handed_of (RxDeliver skb _ _) = [skb]"
| "handed_of _ = []"

fun freed_of :: "rx_event \<Rightarrow> nat list" where
  "freed_of (RxFree skb) = [skb]"
| "freed_of _ = []"

fun frame_of :: "rx_event \<Rightarrow> rx_frame list" where
  "frame_of (RxDeliver _ fr _) = [fr]"
| "frame_of _ = []"

fun mapped_of :: "(u64 \<Rightarrow> bool) \<Rightarrow> rx_event \<Rightarrow> u64 list" where
  "mapped_of err (RxMap _ a) = (if err a then [] else [a])"
| "mapped_of err _ = []"

fun unmapped_of :: "(u64 \<Rightarrow> bool) \<Rightarrow> rx_event \<Rightarrow> u64 list" where
  "unmapped_of err (RxUnmap a) = (if err a then [] else [a])"
| "unmapped_of err _ = []"

text \<open>The name of a buffer is the number of events before it.\<close>

fun fresh_names :: "rx_event list \<Rightarrow> bool" where
  "fresh_names [] = True"
| "fresh_names (e # t) = (fresh_names t \<and> (\<forall>skb \<in> set (alloc_of e). skb = List.length t))"

lemma fresh_names_distinct:
  "fresh_names t \<Longrightarrow> distinct (collect alloc_of t) \<and> (\<forall>skb \<in> set (collect alloc_of t). skb < List.length t)"
proof (induction t)
  case (Cons e t)
  then show ?case by (cases e) fastforce+
qed simp

definition held :: "rx_buffer \<Rightarrow> nat list" where
  "held b = (case rxb_skb b of Some skb \<Rightarrow> [skb] | None \<Rightarrow> [])"

definition ring_skbs :: "rx_ring \<Rightarrow> nat multiset" where
  "ring_skbs r = mset (concat (map held (rx_info r)))"

lemma mset_concat_update:
  assumes "i < List.length xs"
  shows "mset (concat (map h (xs[i := v]))) + mset (h (xs ! i)) = mset (concat (map h xs)) + mset (h v)"
proof -
  have "xs[i := v] = take i xs @ v # drop (Suc i) xs" using assms by (simp add: upd_conv_take_nth_drop)
  moreover have "xs = take i xs @ xs ! i # drop (Suc i) xs" using assms by (simp add: id_take_nth_drop)
  then have "concat (map h xs) = concat (map h (take i xs)) @ h (xs ! i) @ concat (map h (drop (Suc i) xs))"
    by (metis concat.simps(2) concat_append list.simps(9) map_append)
  ultimately show ?thesis by simp
qed

lemma ring_skbs_put:
  assumes "rx_wf r" and "i < rx_count r"
  shows "ring_skbs (r\<lparr>rx_info := (rx_info r)[i := b], rx_descs := ds\<rparr>) + mset (held (rx_info r ! i)) =
    ring_skbs r + mset (held b)"
  using mset_concat_update [of i "rx_info r" held b] assms by (simp add: ring_skbs_def rx_wf_simps)

text \<open>
  Every buffer that was allocated is in the ring, was handed up or was freed; every mapping that
  succeeded was taken back or belongs to a slot of the list.
\<close>

definition skb_books :: "nic \<Rightarrow> bool" where
  "skb_books s \<longleftrightarrow> fresh_names (rx_trace s) \<and>
     mset (collect alloc_of (rx_trace s)) =
       ring_skbs (rxr s) + mset (collect handed_of (rx_trace s)) + mset (collect freed_of (rx_trace s))"

definition map_books :: "nic \<Rightarrow> rx_slot list \<Rightarrow> bool" where
  "map_books s xs \<longleftrightarrow> (let err = k_dma_error (kernel_of (net_of s)) in
     mset (collect (mapped_of err) (rx_trace s)) =
       mset (collect (unmapped_of err) (rx_trace s)) + mset (map (rxb_dma \<circ> fst) xs))"

section \<open>The invariant\<close>

text \<open>
  A slot that the device may fill has a buffer and a mapping, and its descriptor has the address
  until the device writes it back.
\<close>

definition slot_full :: "(u64 \<Rightarrow> bool) \<Rightarrow> rx_slot \<Rightarrow> bool" where
  "slot_full err x \<longleftrightarrow> rxb_skb (fst x) \<noteq> None \<and> rxb_dma (fst x) \<noteq> 0 \<and> \<not> err (rxb_dma (fst x)) \<and>
     (\<not> rx_done (snd x) \<longrightarrow> rxd_addr (snd x) = rxb_dma (fst x))"

text \<open>
  A slot that waits for a buffer is not done; what is left of a mapping is none, or an error.
\<close>

definition slot_wait :: "(u64 \<Rightarrow> bool) \<Rightarrow> rx_slot \<Rightarrow> bool" where
  "slot_wait err x \<longleftrightarrow> \<not> rx_done (snd x) \<and> (rxb_dma (fst x) = 0 \<or> err (rxb_dma (fst x)))"

text \<open>
  From \<open>c\<close> on the ring has the full slots \<open>xs\<close>, of which the device has been told
  the first \<open>t\<close>; the others wait. The tail register is written at every sixteenth slot.
\<close>

definition rx_lag :: "nat \<Rightarrow> nat \<Rightarrow> nat \<Rightarrow> nat \<Rightarrow> bool" where
  "rx_lag n c t k \<longleftrightarrow> (\<forall>j. t < j \<and> j < k \<longrightarrow> (c + j) mod n mod E1000_RX_BUFFER_WRITE \<noteq> 0)"

definition rx_at :: "nat \<Rightarrow> rx_slot list \<Rightarrow> nat \<Rightarrow> nic \<Rightarrow> bool" where
  "rx_at c xs t s \<longleftrightarrow> (let r = rxr s; n = rx_count r; v = rx_view r c; k = List.length xs in
     rx_wf r \<and> c < n \<and> k < n \<and> take k v = xs \<and>
     (\<forall>x \<in> set xs. slot_full (k_dma_error (kernel_of (net_of s))) x) \<and>
     (\<forall>x \<in> set (drop k v). slot_wait (k_dma_error (kernel_of (net_of s))) x) \<and>
     t \<le> k \<and> rx_lag n c t k \<and> (\<forall>j < k. rx_done (snd (xs ! j)) \<longrightarrow> j < t) \<and>
     rx_tail s = Some (of_nat ((c + t) mod n)) \<and> skb_books s \<and> map_books s xs)"

lemma rx_atD:
  assumes "rx_at c xs t s"
  shows "rx_wf (rxr s)" "c < rx_count (rxr s)" "List.length xs < rx_count (rxr s)"
    "take (List.length xs) (rx_view (rxr s) c) = xs"
    "x \<in> set xs \<Longrightarrow> slot_full (k_dma_error (kernel_of (net_of s))) x"
    "x \<in> set (drop (List.length xs) (rx_view (rxr s) c)) \<Longrightarrow> slot_wait (k_dma_error (kernel_of (net_of s))) x"
    "t \<le> List.length xs" "j < List.length xs \<Longrightarrow> rx_done (snd (xs ! j)) \<Longrightarrow> j < t"
    "rx_tail s = Some (of_nat ((c + t) mod rx_count (rxr s)))" "skb_books s" "map_books s xs"
    "rx_lag (rx_count (rxr s)) c t (List.length xs)"
  using assms unfolding rx_at_def Let_def by blast+

lemma rx_at_keep:
  assumes at: "rx_at c xs t s" and s': "rxr s' = rxr s" "rx_trace s' = rx_trace s" "rx_env s' = rx_env s" "rx_tail s' = rx_tail s"
  shows "rx_at c xs t s'"
  using rx_atD [OF at]
  unfolding rx_at_def Let_def skb_books_def map_books_def s' rx_env_fields [OF s'(3)] by blast

text \<open>Slot \<open>k\<close> from \<open>c\<close> on, which waits for a buffer, gets one.\<close>

lemma rx_at_fill:
  assumes at: "rx_at c xs t s" and room: "List.length xs + 1 < rx_count (rxr s)"
    and i: "i = (c + List.length xs) mod rx_count (rxr s)"
    and ring: "rx_view (rxr s') c = (rx_view (rxr s) c)[List.length xs := (b, d)]" "rx_wf (rxr s')" "rx_count (rxr s') = rx_count (rxr s)"
    and env: "rx_env s' = rx_env s" "rx_tail s' = (if i mod E1000_RX_BUFFER_WRITE = 0 then Some (of_nat i) else rx_tail s)"
    and full: "slot_full (k_dma_error (kernel_of (net_of s))) (b, d)" "rxd_staterr d = rxd_staterr (rx_descs (rxr s) ! i)"
    and books: "skb_books s'" "map_books s' (xs @ [(b, d)])"
  shows "\<exists>t'. rx_at c (xs @ [(b, d)]) t' s'"
proof -
  note D = rx_atD [OF at]
  define t' where "t' = (if i mod E1000_RX_BUFFER_WRITE = 0 then List.length xs else t)"
  have t': "t \<le> t'" "t' \<le> List.length xs" "rx_tail s' = Some (of_nat ((c + t') mod rx_count (rxr s)))"
    using D(7,9) env(2) i by (simp_all add: t'_def)
  have lag: "rx_lag (rx_count (rxr s)) c t' (List.length (xs @ [(b, d)]))"
    using D(12) i by (auto simp: rx_lag_def t'_def less_Suc_eq)
  let ?k = "List.length xs" and ?v = "rx_view (rxr s) c"
  have k: "?k < List.length ?v" using D(1,3) by simp
  have "?v ! ?k \<in> set (drop ?k ?v)" using k by (simp add: Cons_nth_drop_Suc [symmetric])
  then have nd: "\<not> rx_done (snd (?v ! ?k))" using D(6) by (simp add: slot_wait_def)
  have d: "\<not> rx_done d"
    using nd full(2) rx_view_nth [OF D(1,3), of c] i by (simp add: rx_done_def)
  have tk: "take (List.length (xs @ [(b, d)])) (?v[?k := (b, d)]) = xs @ [(b, d)]"
    using take_Suc_update [OF k] D(4) by simp
  have dr: "set (drop (List.length (xs @ [(b, d)])) (?v[?k := (b, d)])) \<subseteq> set (drop ?k ?v)"
    using set_drop_subset_set_drop [of ?k "Suc ?k" ?v] by simp
  have j: "j < t'" if "j < List.length (xs @ [(b, d)])" "rx_done (snd ((xs @ [(b, d)]) ! j))" for j
    using that d D(8) [of j] t'(1) by (cases "j = ?k") (auto simp: nth_append)
  have "rx_at c (xs @ [(b, d)]) t' s'"
    unfolding rx_at_def Let_def ring t'(3) rx_env_fields [OF env(1)]
    using D(2,5,6) t'(2) lag room dr j tk full(1) books ring(2) by auto
  then show ?thesis ..
qed

text \<open>A slot that waits for a buffer changes and goes on waiting.\<close>

lemma rx_at_wait:
  assumes at: "rx_at c xs t s" and k: "List.length xs \<le> k" "k < rx_count (rxr s)"
    and ring: "rx_view (rxr s') c = (rx_view (rxr s) c)[k := x]" "rx_wf (rxr s')" "rx_count (rxr s') = rx_count (rxr s)"
    and env: "rx_env s' = rx_env s" "rx_tail s' = rx_tail s"
    and wait: "slot_wait (k_dma_error (kernel_of (net_of s))) x"
    and books: "skb_books s'" "map_books s' xs"
  shows "rx_at c xs t s'"
proof -
  note D = rx_atD [OF at]
  have "set (drop (List.length xs) ((rx_view (rxr s) c)[k := x])) \<subseteq> insert x (set (drop (List.length xs) (rx_view (rxr s) c)))"
    using k(1) by (simp add: drop_update_swap set_update_subset_insert)
  then show ?thesis
    unfolding rx_at_def Let_def ring env rx_env_fields [OF env(1)]
    using D(2-) k(1) wait books ring(2) by (auto simp: take_update_cancel)
qed

section \<open>Giving buffers to the device\<close>

text \<open>
  What the code relies on: a mapping that is not reported as an error is not 0, and a socket buffer
  has at least the room that was asked for.
\<close>

definition rx_kernel_ok :: "nic \<Rightarrow> bool" where
  "rx_kernel_ok s \<longleftrightarrow>
     (\<forall>t skb. k_dma_error (kernel_of (net_of s)) (k_rx_map (rx_kernel_of s) t skb) \<or> k_rx_map (rx_kernel_of s) t skb \<noteq> 0) \<and>
     (\<forall>sz. sz \<le> k_rx_room (rx_kernel_of s) sz)"

lemma rx_kernel_ok_env: "rx_env s' = rx_env s \<Longrightarrow> rx_kernel_ok s' = rx_kernel_ok s"
  unfolding rx_kernel_ok_def by (simp only: rx_env_fields [of s' s])

definition rx_never_fails :: "nic \<Rightarrow> bool" where
  "rx_never_fails s \<longleftrightarrow> (\<forall>t sz. k_rx_alloc (rx_kernel_of s) t sz) \<and>
     (\<forall>t skb. \<not> k_dma_error (kernel_of (net_of s)) (k_rx_map (rx_kernel_of s) t skb))"

lemma rx_never_fails_env: "rx_env s' = rx_env s \<Longrightarrow> rx_never_fails s' = rx_never_fails s"
  unfolding rx_never_fails_def by (simp only: rx_env_fields [of s' s])

text \<open>What giving out buffers does not change.\<close>

definition rx_quiet :: "nic \<Rightarrow> nic \<Rightarrow> bool" where
  "rx_quiet s s' \<longleftrightarrow> rx_env s' = rx_env s \<and> rx_count (rxr s') = rx_count (rxr s) \<and>
     rx_next_to_clean (rxr s') = rx_next_to_clean (rxr s) \<and>
     is_discarding (rxa s') = is_discarding (rxa s) \<and>
     collect frame_of (rx_trace s') = collect frame_of (rx_trace s)"

lemma rx_quiet_refl: "rx_quiet s s"
  by (simp add: rx_quiet_def)

lemma rx_quiet_trans: "rx_quiet s t \<Longrightarrow> rx_quiet t u \<Longrightarrow> rx_quiet s u"
  by (simp add: rx_quiet_def)

definition rx_failures :: "nic \<Rightarrow> u32 \<times> u32" where
  "rx_failures s = (alloc_rx_buff_failed (rxa s), rx_dma_failed (rxa s))"

lemma rx_failures_simps [simp]:
  "rx_failures (s\<lparr>rxr := r\<rparr>) = rx_failures s" "rx_failures (s\<lparr>net_of := t\<rparr>) = rx_failures s"
  "rx_failures (s\<lparr>rx_trace := tr\<rparr>) = rx_failures s" "rx_failures (s\<lparr>rxa := (rxa s)\<lparr>is_discarding := b\<rparr>\<rparr>) = rx_failures s"
  by (simp_all add: rx_failures_def)

text \<open>The trace and the buffer of a slot that has got an empty buffer.\<close>

definition got_skb :: "nic \<Rightarrow> rx_buffer \<Rightarrow> nat \<Rightarrow> rx_event list \<Rightarrow> bool" where
  "got_skb s b skb es \<longleftrightarrow> rxb_skb b = Some skb \<and> es = [] \<or>
     rxb_skb b = None \<and> skb = List.length (rx_trace s) \<and> es = [RxAlloc skb (rx_buffer_len (rxc s))]"

lemma skb_books_fill:
  assumes books: "skb_books s" and wf: "rx_wf (rxr s)" and i: "i < rx_count (rxr s)"
    and got: "got_skb s (rx_info (rxr s) ! i) skb es" and b: "rxb_skb b = Some skb"
    and s': "rxr s' = (rxr s)\<lparr>rx_info := (rx_info (rxr s))[i := b], rx_descs := ds\<rparr>"
      "rx_trace s' = RxMap skb a # es @ rx_trace s"
  shows "skb_books s'"
  using ring_skbs_put [OF wf i, where b = b and ds = ds] books got unfolding skb_books_def s' got_skb_def
  by (auto simp: held_def b)

lemma map_books_fill:
  assumes books: "map_books s xs" and got: "got_skb s b' skb es"
    and s': "rx_env s' = rx_env s" "rx_trace s' = RxMap skb a # es @ rx_trace s"
  shows "k_dma_error (kernel_of (net_of s)) a \<Longrightarrow> map_books s' xs"
    "\<not> k_dma_error (kernel_of (net_of s)) a \<Longrightarrow> rxb_dma b = a \<Longrightarrow> map_books s' (xs @ [(b, d)])"
  using books got unfolding map_books_def got_skb_def s' rx_env_fields [OF s'(1)] Let_def by auto

lemma wp_alloc_rx_slot:
  assumes at: "rx_at c xs t s" and ker: "rx_kernel_ok s" and room: "List.length xs + 1 < rx_count (rxr s)"
    and i: "i = (c + List.length xs) mod rx_count (rxr s)"
  shows "wp (alloc_rx_slot i) (\<lambda>filled s'. rx_quiet s s' \<and>
     (if filled then (\<exists>y t'. rx_at c (xs @ [y]) t' s' \<and> \<not> rx_done (snd y)) \<and> rx_failures s' = rx_failures s
      else rx_at c xs t s' \<and> rx_failures s' \<noteq> rx_failures s \<and> \<not> rx_never_fails s)) s"
    (is "wp _ ?Q s")
proof -
  note D = rx_atD [OF at]
  let ?k = "List.length xs" and ?r = "rxr s" and ?err = "k_dma_error (kernel_of (net_of s))"
  let ?b = "rx_info ?r ! i" and ?d = "rx_descs ?r ! i"
  have k: "?k < rx_count ?r" using room by simp
  have ik: "i < rx_count ?r" unfolding i using rx_wf_simps(1) [OF D(1)] by simp
  have len: "i < List.length (rx_info ?r)" "i < List.length (rx_descs ?r)" using ik rx_wf_simps [OF D(1)] by simp_all
  have v: "rx_view ?r c ! ?k = (?b, ?d)" unfolding i by (rule rx_view_nth [OF D(1) k])
  have "rx_view ?r c ! ?k \<in> set (drop ?k (rx_view ?r c))" using k D(1) by (simp add: Cons_nth_drop_Suc [symmetric])
  then have nd: "\<not> rx_done ?d" using D(6) v by (fastforce simp: slot_wait_def)
  define P where "P = ?Q"
  have map: "wp (rx_map_skb i skb) P s1"
    if got: "got_skb s ?b skb es" and s1: "s1 = s\<lparr>rx_trace := es @ rx_trace s, rxr := ?r\<lparr>rx_info := (rx_info ?r)[i := ?b\<lparr>rxb_skb := Some skb\<rparr>]\<rparr>\<rparr>" for skb es s1
  proof -
    define a where "a = k_rx_map (rx_kernel_of s) (es @ rx_trace s) skb"
    define b where "b = \<lparr>rxb_skb = Some skb, rxb_dma = a\<rparr>"
    define d where "d = ?d\<lparr>rxd_addr := a\<rparr>"
    have b: "?b\<lparr>rxb_skb := Some skb, rxb_dma := a\<rparr> = b" by (simp add: b_def)
    have es: "collect frame_of es = []" using got by (auto simp: got_skb_def)
    have fail: "P False s'" if "?err a" and
      s': "rxr s' = ?r\<lparr>rx_info := (rx_info ?r)[i := b], rx_descs := (rx_descs ?r)[i := ?d]\<rparr>"
      "rx_trace s' = RxMap skb a # es @ rx_trace s"
      "rx_env s' = rx_env s" "rx_tail s' = rx_tail s" "rxa s' = (rxa s)\<lparr>rx_dma_failed := rx_dma_failed (rxa s) + 1\<rparr>" for s'
    proof -
      have "skb_books s'" by (rule skb_books_fill [OF D(10,1) ik got _ s'(1,2)]) (simp add: b_def)
      moreover have "map_books s' xs" by (rule map_books_fill(1) [OF D(11) got s'(3,2) that(1)])
      ultimately have "rx_at c xs t s'"
        using rx_view_put [OF D(1) k i, where b = b and d = ?d] rx_put_wf [OF D(1), where i = i and b = b and d = ?d] nd
        by (intro rx_at_wait [OF at _ k, of s' "(b, ?d)"]) (simp_all add: s' slot_wait_def that(1) b_def)
      moreover have "\<not> rx_never_fails s" using that(1) by (auto simp: a_def rx_never_fails_def)
      ultimately show ?thesis using s' es by (simp add: P_def rx_quiet_def rx_failures_def)
    qed
    have ok: "P True s'" if "\<not> ?err a" and
      s': "rxr s' = ?r\<lparr>rx_info := (rx_info ?r)[i := b], rx_descs := (rx_descs ?r)[i := d]\<rparr>"
      "rx_trace s' = RxMap skb a # es @ rx_trace s"
      "rx_env s' = rx_env s" "rxa s' = rxa s" and
      tail: "rx_tail s' = (if i mod E1000_RX_BUFFER_WRITE = 0 then Some (of_nat i) else rx_tail s)" for s'
    proof -
      have "k_rx_map (rx_kernel_of s) (es @ rx_trace s) skb \<noteq> 0"
        using ker that(1) unfolding rx_kernel_ok_def a_def by blast
      then have full: "slot_full ?err (b, d)" using that(1) by (simp add: slot_full_def b_def d_def a_def [symmetric])
      have "skb_books s'" by (rule skb_books_fill [OF D(10,1) ik got _ s'(1,2)]) (simp add: b_def)
      moreover have "map_books s' (xs @ [(b, d)])"
        by (rule map_books_fill(2) [OF D(11) got s'(3,2) that(1)]) (simp add: b_def)
      ultimately have "\<exists>t'. rx_at c (xs @ [(b, d)]) t' s'"
        using rx_view_put [OF D(1) k i, where b = b and d = d] rx_put_wf [OF D(1), where i = i and b = b and d = d] full
        by (intro rx_at_fill [OF at room i]) (simp_all add: s' tail d_def)
      moreover have "\<not> rx_done d" using nd by (simp add: d_def rx_done_def)
      ultimately show ?thesis using s' es by (auto simp: P_def rx_quiet_def rx_failures_def)
    qed
    show ?thesis
      unfolding rx_map_skb_def wp net_wp s1
    proof (simp add: len b a_def [symmetric] d_def [symmetric] nth_list_update, intro conjI impI, goal_cases)
      case 1
      then show ?case by (intro fail) (simp_all add: rx_env_def rx_tail_def)
    next
      case 2
      show ?case
        by (rule wp_mono [OF wp_write_rx_tail], elim exE conjE, rule ok)
          (use 2 in \<open>simp_all add: rx_env_def\<close>)
    next
      case 3
      then show ?case by (intro ok) (simp_all add: rx_env_def rx_tail_def)
    qed
  qed
  have none: "P False s'" if "s' = s\<lparr>rxa := (rxa s)\<lparr>alloc_rx_buff_failed := alloc_rx_buff_failed (rxa s) + 1\<rparr>\<rparr>"
    "\<not> k_rx_alloc (rx_kernel_of s) (rx_trace s) (rx_buffer_len (rxc s))" for s'
  proof -
    have "rx_tail s' = rx_tail s" "rx_env s' = rx_env s" "rxr s' = ?r" "rx_trace s' = rx_trace s"
      by (simp_all add: that(1) rx_tail_def rx_env_def)
    then have "rx_at c xs t s'" using rx_at_keep [OF at, of s'] by simp
    moreover have "\<not> rx_never_fails s" using that(2) by (auto simp: rx_never_fails_def)
    ultimately show ?thesis by (simp add: that(1) P_def rx_quiet_def rx_failures_def rx_env_def)
  qed
  have "wp (alloc_rx_slot i) P s"
  proof (cases "rxb_skb ?b")
    case None
    then show ?thesis using none map [of "List.length (rx_trace s)" "[RxAlloc (List.length (rx_trace s)) (rx_buffer_len (rxc s))]"]
      by (simp add: alloc_rx_slot_def net_wp got_skb_def wp)
  next
    case (Some skb)
    have "?b\<lparr>rxb_skb := Some skb\<rparr> = ?b" using Some by simp
    then have "s = s\<lparr>rx_trace := [] @ rx_trace s, rxr := ?r\<lparr>rx_info := (rx_info ?r)[i := ?b\<lparr>rxb_skb := Some skb\<rparr>]\<rparr>\<rparr>"
      by (simp only: list_update_id) simp
    from map [OF _ this] Some show ?thesis by (simp add: alloc_rx_slot_def got_skb_def wp)
  qed
  then show ?thesis unfolding P_def .
qed

text \<open>Every buffer asked for is given out, unless an allocation or a mapping fails.\<close>

definition rx_more :: "nat \<Rightarrow> rx_slot list \<Rightarrow> nat \<Rightarrow> nic \<Rightarrow> rx_slot list \<Rightarrow> nic \<Rightarrow> bool" where
  "rx_more c xs m s ys s' \<longleftrightarrow> List.length ys \<le> m \<and> (\<exists>t. rx_at c (xs @ ys) t s') \<and>
     (\<forall>y \<in> set ys. \<not> rx_done (snd y)) \<and>
     (if List.length ys = m then rx_failures s' = rx_failures s else rx_failures s' \<noteq> rx_failures s \<and> \<not> rx_never_fails s)"

lemma wp_alloc_rx_loop:
  assumes "rx_at c xs t s" and "rx_kernel_ok s" and "List.length xs + m < rx_count (rxr s)"
  shows "wp (alloc_rx_loop m ((c + List.length xs) mod rx_count (rxr s))) (\<lambda>i s'. rx_quiet s s' \<and>
     (\<exists>ys. rx_more c xs m s ys s' \<and> i = (c + List.length (xs @ ys)) mod rx_count (rxr s))) s"
  using assms
proof (induction m arbitrary: xs t s)
  case 0
  then show ?case unfolding alloc_rx_loop.simps wp
    by (intro conjI rx_quiet_refl exI [of _ "[]"]) (auto simp: rx_more_def)
next
  case (Suc m)
  let ?n = "rx_count (rxr s)"
  define i where "i = (c + List.length xs) mod ?n"
  have room: "List.length xs + 1 < ?n" using Suc.prems(3) by simp
  have n: "0 < ?n" using room by simp
  have nxt: "ring_next ?n i = (c + (List.length xs + 1)) mod ?n"
    using n by (simp add: ring_next_mod i_def mod_simps)
  show ?case
    unfolding alloc_rx_loop.simps wp i_def [symmetric]
  proof (rule wp_mono [OF wp_alloc_rx_slot [OF Suc.prems(1,2) room i_def]], goal_cases)
    case (1 filled s1)
    show ?case
    proof (cases filled)
      case False
      then show ?thesis using 1 Suc.prems(1)
        by (auto simp: wp rx_more_def i_def intro!: exI [of _ "[]"])
    next
      case True
      then obtain y t1 where at: "rx_at c (xs @ [y]) t1 s1" and y: "\<not> rx_done (snd y)"
        and q: "rx_quiet s s1" and fl: "rx_failures s1 = rx_failures s" using 1 by auto
      have n1: "rx_count (rxr s1) = ?n" and env: "rx_env s1 = rx_env s" using q by (simp_all add: rx_quiet_def)
      have "rx_kernel_ok s1" using Suc.prems(2) rx_kernel_ok_env [OF env] by simp
      from Suc.IH [OF at this] Suc.prems(3) n1
      have "wp (alloc_rx_loop m (ring_next ?n i)) (\<lambda>i s'. rx_quiet s1 s' \<and>
          (\<exists>ys. rx_more c (xs @ [y]) m s1 ys s' \<and> i = (c + List.length ((xs @ [y]) @ ys)) mod ?n)) s1"
        by (simp add: nxt)
      then show ?thesis unfolding if_True
      proof (simp only: True simp_thms, elim wp_mono, elim exE conjE, goal_cases)
        case (1 j s2 ys)
        then show ?case using q y fl rx_never_fails_env [OF env]
          by (intro conjI exI [of _ "y # ys"]) (auto simp: rx_more_def elim: rx_quiet_trans)
      qed
    qed
  qed
qed

lemma rx_view_cong: "rx_info r' = rx_info r \<Longrightarrow> rx_descs r' = rx_descs r \<Longrightarrow> rx_view r' c = rx_view r c"
  by (simp add: rx_view_def)

text \<open>The ring's own indices are not part of the invariant.\<close>

lemma rx_at_indices:
  "rx_at c xs t (s\<lparr>rxr := (rxr s)\<lparr>rx_next_to_use := u\<rparr>\<rparr>) = rx_at c xs t s"
  "rx_at c xs t (s\<lparr>rxr := (rxr s)\<lparr>rx_next_to_clean := w\<rparr>\<rparr>) = rx_at c xs t s"
  by (simp_all add: rx_at_def rx_view_def rx_wf_def rx_tail_def skb_books_def ring_skbs_def map_books_def Let_def)

lemma wp_alloc_rx_buffers:
  assumes at: "rx_at c xs t s" and ker: "rx_kernel_ok s" and room: "List.length xs + m < rx_count (rxr s)"
    and use: "rx_next_to_use (rxr s) = (c + List.length xs) mod rx_count (rxr s)"
  shows "wp (e1000_alloc_rx_buffers m) (\<lambda>_ s'. rx_quiet s s' \<and> (\<exists>ys. rx_more c xs m s ys s' \<and>
     rx_next_to_use (rxr s') = (c + List.length (xs @ ys)) mod rx_count (rxr s))) s"
  unfolding e1000_alloc_rx_buffers_def wp net_wp use
proof (rule wp_mono [OF wp_alloc_rx_loop [OF at ker room]], elim conjE exE, goal_cases)
  case (1 i s1 ys)
  have "i < rx_count (rxr s)" using 1(3) room by simp
  then have "u16_of i = i" using rx_wf_simps(4) [OF rx_atD(1) [OF at]] by simp
  then show ?case using 1
    by (intro conjI exI [of _ ys])
      (simp_all add: rx_quiet_def rx_more_def rx_at_indices rx_env_def)
qed

section \<open>One packet\<close>

text \<open>
  What the stack should get of a list of reported slots, and whether a packet is being discarded
  after them: a packet that does not end in its first buffer is dropped up to its end.
\<close>

definition rx_frame_at :: "rx_config \<Rightarrow> rx_slot \<Rightarrow> rx_frame" where
  "rx_frame_at c x = \<lparr>fr_from = the (rxb_skb (fst x)), fr_len = rx_length c (snd x),
     fr_csum_ok = (rx_csum_verdict c (rxd_staterr (snd x)) = Some True),
     fr_hash = e1000_rx_hash c (snd x), fr_vlan = rx_vlan (snd x)\<rparr>"

definition rx_passes :: "rx_config \<Rightarrow> bool \<Rightarrow> rx_desc \<Rightarrow> bool" where
  "rx_passes c disc d \<longleftrightarrow> rx_eop d \<and> \<not> disc \<and> \<not> rx_bad_frame c d"

fun rx_spec :: "rx_config \<Rightarrow> bool \<Rightarrow> rx_slot list \<Rightarrow> rx_frame list" where
  "rx_spec c disc [] = []"
| "rx_spec c disc (x # xs) =
     (if rx_passes c disc (snd x) then [rx_frame_at c x] else []) @ rx_spec c (\<not> rx_eop (snd x)) xs"

definition rx_disc_after :: "bool \<Rightarrow> rx_slot list \<Rightarrow> bool" where
  "rx_disc_after disc xs = (if xs = [] then disc else \<not> rx_eop (snd (last xs)))"

lemma rx_disc_after_Cons: "rx_disc_after disc (x # xs) = rx_disc_after (\<not> rx_eop (snd x)) xs"
  by (simp add: rx_disc_after_def)

definition packet_events :: "nic \<Rightarrow> nat \<Rightarrow> rx_frame list \<Rightarrow> nat option \<Rightarrow> rx_event list \<Rightarrow> bool" where
  "packet_events s skb frs b es \<longleftrightarrow>
     frs = [] \<and> b = Some skb \<and> es = [] \<or>
     (\<exists>fr st. frs = [fr] \<and> b = None \<and> es = [RxDeliver skb fr st]) \<or>
     (\<exists>fr st new sz. frs = [fr] \<and> b = Some skb \<and> new = List.length (rx_trace s) \<and> es = [RxDeliver new fr st, RxAlloc new sz])"

definition frame_bytes :: "rx_config \<Rightarrow> rx_frame \<Rightarrow> u32" where
  "frame_bytes c fr = fr_len fr - (if \<not> crc_stripping c \<and> feat_rxfcs c then 4 else 0)"

definition rx_counts :: "rx_config \<Rightarrow> rx_frame list \<Rightarrow> rx_locals \<Rightarrow> rx_locals \<Rightarrow> bool" where
  "rx_counts c frs l l' \<longleftrightarrow> rl_packets l' = rl_packets l + of_nat (List.length frs) \<and>
     rl_bytes l' = rl_bytes l + sum_list (map (frame_bytes c) frs)"

definition put_buf :: "nat \<Rightarrow> nat option \<Rightarrow> rx_ring \<Rightarrow> rx_ring" where
  "put_buf i b r = r\<lparr>rx_info := (rx_info r)[i := \<lparr>rxb_skb = b, rxb_dma = 0\<rparr>]\<rparr>"

lemma wp_rx_hwtstamp:
  "wp (e1000e_rx_hwtstamp st) (\<lambda>_ s'. rxr s' = rxr s \<and> rx_trace s' = rx_trace s \<and> rx_env s' = rx_env s \<and>
     rx_tail s' = rx_tail s \<and> is_discarding (rxa s') = is_discarding (rxa s) \<and> rx_failures s' = rx_failures s) s"
  by (simp add: e1000e_rx_hwtstamp_def wp net_wp Let_def rx_env_def rx_tail_def rx_failures_def)

definition handed_up :: "nic \<Rightarrow> nat \<Rightarrow> rx_frame \<Rightarrow> nic \<Rightarrow> bool" where
  "handed_up s skb fr s' \<longleftrightarrow> rxr s' = rxr s \<and> rx_env s' = rx_env s \<and> rx_tail s' = rx_tail s \<and>
     is_discarding (rxa s') = is_discarding (rxa s) \<and> rx_failures s' = rx_failures s \<and>
     (\<exists>st. rx_trace s' = RxDeliver skb fr st # rx_trace s)"

lemma handed_up_counts:
  "handed_up (s\<lparr>rxa := (rxa s)\<lparr>hw_csum_good := g\<rparr>\<rparr>) skb fr = handed_up s skb fr"
  "handed_up (s\<lparr>rxa := (rxa s)\<lparr>hw_csum_err := g\<rparr>\<rparr>) skb fr = handed_up s skb fr"
  by (simp_all add: handed_up_def rx_env_def rx_tail_def rx_failures_def fun_eq_iff)

lemma wp_receive_skb:
  "wp (e1000_receive_skb skb' skb len csum hash d) (\<lambda>_. handed_up s skb'
     \<lparr>fr_from = skb, fr_len = len, fr_csum_ok = csum, fr_hash = hash, fr_vlan = rx_vlan d\<rparr>) s"
  unfolding e1000_receive_skb_def wp net_wp
  by (rule wp_mono [OF wp_rx_hwtstamp]) (simp add: handed_up_def rx_env_def rx_tail_def)

lemma wp_rx_hand:
  assumes Q: "\<And>s'. handed_up s skb' \<lparr>fr_from = skb, fr_len = len,
      fr_csum_ok = (rx_csum_verdict (rxc s) (rxd_staterr d) = Some True), fr_hash = hash, fr_vlan = rx_vlan d\<rparr> s' \<Longrightarrow> Q s'"
  shows "wp (e1000_rx_checksum (rxd_staterr d)) (\<lambda>csum. wp (e1000_receive_skb skb' skb len csum hash d) (\<lambda>_. Q)) s"
proof (cases "rx_csum_verdict (rxc s) (rxd_staterr d)")
  case None
  then show ?thesis using wp_mono [OF wp_receive_skb [of skb' skb len False hash d s]] Q
    unfolding e1000_rx_checksum_def wp by (simp add: wp)
next
  case (Some good)
  have "wp (e1000_receive_skb skb' skb len good hash d) (\<lambda>_. Q) (s\<lparr>rxa := (rxa s)\<lparr>hw_csum_good := g\<rparr>\<rparr>)"
    "wp (e1000_receive_skb skb' skb len good hash d) (\<lambda>_. Q) (s\<lparr>rxa := (rxa s)\<lparr>hw_csum_err := g\<rparr>\<rparr>)" for g
    by (rule wp_mono [OF wp_receive_skb], rule Q, simp add: handed_up_counts Some)+
  then show ?thesis using Some unfolding e1000_rx_checksum_def wp by (cases good) (simp_all add: net_wp wp)
qed

lemma wp_rx_packet:
  fixes skb :: nat and a :: u64
  assumes wf: "rx_wf (rxr s)" and i: "i < rx_count (rxr s)"
    and b: "rx_info (rxr s) ! i = \<lparr>rxb_skb = None, rxb_dma = 0\<rparr>" and ker: "rx_kernel_ok s"
    and fits: "rx_passes (rxc s) (is_discarding (rxa s)) d \<longrightarrow> rx_length (rxc s) d \<le> rx_buffer_len (rxc s)"
  defines "frs \<equiv> rx_spec (rxc s) (is_discarding (rxa s)) [(\<lparr>rxb_skb = Some skb, rxb_dma = a\<rparr>, d)]"
  shows "wp (rx_packet i skb d l) (\<lambda>r s'. \<exists>l' es bo. r = Inr l' \<and> rx_env s' = rx_env s \<and> rx_tail s' = rx_tail s \<and>
     rxr s' = put_buf i bo (rxr s) \<and> rx_trace s' = es @ rx_trace s \<and> packet_events s skb frs bo es \<and>
     is_discarding (rxa s') = (\<not> rx_eop d) \<and> rx_failures s' = rx_failures s \<and>
     rx_counts (rxc s) frs l l' \<and> rl_i l' = rl_i l \<and> rl_cleaned_count l' = rl_cleaned_count l \<and>
     rl_cleaned l' = rl_cleaned l \<and> rl_work l' = rl_work l) s"
proof -
  have keep: "put_buf i None (rxr s) = rxr s" unfolding put_buf_def b [symmetric] by simp
  define P where "P = (\<lambda>(r :: halt + rx_locals) s'. \<exists>l' es bo. r = Inr l' \<and> rx_env s' = rx_env s \<and> rx_tail s' = rx_tail s \<and>
     rxr s' = put_buf i bo (rxr s) \<and> rx_trace s' = es @ rx_trace s \<and> packet_events s skb frs bo es \<and>
     is_discarding (rxa s') = (\<not> rx_eop d) \<and> rx_failures s' = rx_failures s \<and>
     rx_counts (rxc s) frs l l' \<and> rl_i l' = rl_i l \<and> rl_cleaned_count l' = rl_cleaned_count l \<and>
     rl_cleaned l' = rl_cleaned l \<and> rl_work l' = rl_work l)"
  have recycle: "P (Inr l) s'" if "frs = []" "rx_env s' = rx_env s" "rx_tail s' = rx_tail s" "rx_trace s' = rx_trace s"
    "rxr s' = (rxr s)\<lparr>rx_info := (rx_info (rxr s))[i := (rx_info (rxr s) ! i)\<lparr>rxb_skb := Some skb\<rparr>]\<rparr>"
    "is_discarding (rxa s') = (\<not> rx_eop d)" "rx_failures s' = rx_failures s" for s'
    unfolding P_def by (intro exI [of _ l] exI [of _ "[]"] exI [of _ "Some skb"])
      (simp add: that put_buf_def b packet_events_def rx_counts_def)
  define l1 where "l1 = l\<lparr>rl_bytes := rl_bytes l + rx_counted (rxc s) d, rl_packets := rl_packets l + 1\<rparr>"
  define fr where "fr = rx_frame_at (rxc s) (\<lparr>rxb_skb = Some skb, rxb_dma = a\<rparr>, d)"
  have hand: "P (Inr l1) s'" if "frs = [fr]" "rx_eop d" "rx_env s' = rx_env s" "rx_tail s' = rx_tail s"
    "rxr s' = put_buf i bo (rxr s)" "is_discarding (rxa s') = (\<not> rx_eop d)" "rx_failures s' = rx_failures s"
    "rx_trace s' = es @ rx_trace s" "packet_events s skb frs bo es" for s' bo es
    unfolding P_def by (intro exI [of _ l1] exI [of _ es] exI [of _ bo])
      (use that in \<open>simp add: rx_counts_def l1_def frame_bytes_def fr_def rx_frame_at_def rx_counted_def\<close>)
  have "wp (rx_packet i skb d l) P s"
  proof (cases "rx_eop d \<and> \<not> is_discarding (rxa s)")
    case False
    then have "frs = []" by (auto simp: frs_def rx_passes_def)
    note rec = recycle [OF this]
    show ?thesis using False
      by (cases "rx_eop d"; cases "is_discarding (rxa s)")
        (simp_all add: rx_packet_def wp net_wp rec rx_env_def rx_tail_def rx_failures_def)
  next
    case True
    show ?thesis
    proof (cases "rx_bad_frame (rxc s) d")
      case True
      then have "frs = []" by (auto simp: frs_def rx_passes_def)
      note rec = recycle [OF this]
      show ?thesis using True \<open>rx_eop d \<and> \<not> is_discarding (rxa s)\<close>
        by (simp add: rx_packet_def wp net_wp rec rx_env_def rx_tail_def)
    next
      case False
      then have "frs = [fr]" using True by (simp add: frs_def rx_passes_def fr_def)
      note hand = hand [OF this]
      have len: "rx_length (rxc s) d \<le> rx_buffer_len (rxc s)" using fits True False by (simp add: rx_passes_def)
      have room: "\<not> rx_length (rxc s) d > k_rx_room (rx_kernel_of s) (rx_buffer_len (rxc s))"
        "\<not> rx_length (rxc s) d > k_rx_room (rx_kernel_of s) (rx_length (rxc s) d)"
        using ker order_trans [OF len] by (simp_all add: rx_kernel_ok_def not_less)
      have old: "P (Inr l1) s'" if "handed_up s skb fr s'" for s'
        using that True unfolding handed_up_def
        by (elim conjE exE, intro hand [where bo = None]) (auto simp: keep packet_events_def \<open>frs = [fr]\<close>)
      have fr: "\<lparr>fr_from = skb, fr_len = rx_length (rxc s) d, fr_csum_ok = (rx_csum_verdict (rxc s) (rxd_staterr d) = Some True),
          fr_hash = e1000_rx_hash (rxc s) d, fr_vlan = rx_vlan d\<rparr> = fr"
        by (simp add: fr_def rx_frame_at_def)
      have new: "P (Inr l1) s'" if "handed_up (s\<lparr>rx_trace := RxAlloc (List.length (rx_trace s)) sz # rx_trace s,
          rxr := (rxr s)\<lparr>rx_info := (rx_info (rxr s))[i := (rx_info (rxr s) ! i)\<lparr>rxb_skb := Some skb\<rparr>]\<rparr>\<rparr>)
          (List.length (rx_trace s)) fr s'" for s' sz
        using that True unfolding handed_up_def
        by (elim conjE exE, intro hand [where bo = "Some skb" and es = "[RxDeliver (List.length (rx_trace s)) fr st, RxAlloc (List.length (rx_trace s)) sz]" for st])
          (auto simp: put_buf_def b packet_events_def \<open>frs = [fr]\<close> rx_env_def rx_tail_def)
      show ?thesis
        using True False unfolding rx_packet_def wp net_wp
        by (simp add: rx_copybreak_def wp net_wp room l1_def [symmetric]) (intro conjI impI wp_rx_hand, simp_all add: old new fr)
    qed
  qed
  then show ?thesis unfolding P_def .
qed

section \<open>Taking a slot off the front\<close>

lemma collect_packet_events:
  assumes "packet_events s skb frs bo es"
  shows "collect freed_of es = []" "collect (mapped_of err) es = []" "collect (unmapped_of err) es = []"
    "fresh_names (rx_trace s) \<Longrightarrow> fresh_names (es @ rx_trace s)"
    "mset (collect alloc_of es) + {#skb#} = mset (held \<lparr>rxb_skb = bo, rxb_dma = a\<rparr>) + mset (collect handed_of es)"
  using assms by (auto simp: packet_events_def held_def)

lemma mset_exchange:
  fixes A :: "'a multiset"
  assumes "R' + S = R + H" and "A + S = H + D"
  shows "A + R = R' + D"
proof -
  have "(A + R) + S = (A + S) + R" by (simp only: ac_simps)
  also have "\<dots> = (R + H) + D" unfolding assms(2) by (simp only: ac_simps)
  also have "\<dots> = (R' + D) + S" unfolding assms(1) [symmetric] by (simp only: ac_simps)
  finally show ?thesis by (rule add_right_imp_eq)
qed

text \<open>The ring after a slot has been cleaned.\<close>

definition cleaned_slot :: "nat \<Rightarrow> nat option \<Rightarrow> rx_ring \<Rightarrow> rx_ring" where
  "cleaned_slot i bo r = r\<lparr>rx_info := (rx_info r)[i := \<lparr>rxb_skb = bo, rxb_dma = 0\<rparr>],
     rx_descs := (rx_descs r)[i := (rx_descs r ! i)\<lparr>rxd_staterr := rxd_staterr (rx_descs r ! i) AND NOT 0xFF\<rparr>]\<rparr>"

lemma not_done_masked: "\<not> rx_done (d\<lparr>rxd_staterr := w AND NOT 0xFF\<rparr>)"
proof -
  have "(w AND NOT 0xFF) AND E1000_RXD_STAT_DD = w AND (NOT 0xFF AND E1000_RXD_STAT_DD)" by (simp only: and.assoc)
  also have "NOT 0xFF AND E1000_RXD_STAT_DD = (0 :: u32)" by code_simp
  finally show ?thesis by (simp add: rx_done_def)
qed

lemma rx_at_front:
  assumes at: "rx_at c (x # xs) t s"
  shows "x = (rx_info (rxr s) ! c, rx_descs (rxr s) ! c)" "rxb_skb (fst x) \<noteq> None"
    "rx_done (snd x) \<Longrightarrow> 0 < t"
proof -
  note D = rx_atD [OF at]
  have "rx_view (rxr s) c ! 0 = x" using D(4) by (cases "rx_view (rxr s) c") auto
  then show "x = (rx_info (rxr s) ! c, rx_descs (rxr s) ! c)"
    using rx_view_nth [OF D(1), of 0 c] D(2) by simp
  show "rxb_skb (fst x) \<noteq> None" using D(5) [of x] by (simp add: slot_full_def)
  show "rx_done (snd x) \<Longrightarrow> 0 < t" using D(8) [of 0] by simp
qed

lemma rx_at_clean:
  assumes at: "rx_at c (x # xs) t s" and d: "rx_done (snd x)"
    and s0: "rx_trace s0 = RxUnmap (rxb_dma (fst x)) # rx_trace s"
    and ev: "packet_events s0 (the (rxb_skb (fst x))) frs bo es"
    and s': "rxr s' = cleaned_slot c bo (rxr s)" "rx_trace s' = es @ rx_trace s0" "rx_env s' = rx_env s" "rx_tail s' = rx_tail s"
  shows "rx_at ((c + 1) mod rx_count (rxr s)) xs (t - 1) s'"
proof -
  note D = rx_atD [OF at] and F = rx_at_front [OF at]
  let ?n = "rx_count (rxr s)" and ?v = "rx_view (rxr s) c" and ?k = "List.length xs"
  let ?b = "\<lparr>rxb_skb = bo, rxb_dma = 0\<rparr>" and ?d = "(snd x)\<lparr>rxd_staterr := rxd_staterr (snd x) AND NOT 0xFF\<rparr>"
  have n: "0 < ?n" "rx_count (rxr s') = ?n" using D(2) by (simp_all add: s' cleaned_slot_def)
  have wf: "rx_wf (rxr s')"
    using rx_put_wf [OF D(1)] by (simp add: s' cleaned_slot_def)
  obtain vs where vs: "?v = x # vs" "take ?k vs = xs" using D(4) by (cases ?v) auto
  have "rx_view (rxr s') c = ?v[0 := (?b, ?d)]"
    unfolding s' cleaned_slot_def using rx_view_put [OF D(1), of 0 c c] n D(2) F(1) by simp
  then have v: "rx_view (rxr s') ((c + 1) mod ?n) = vs @ [(?b, ?d)]"
    using rx_view_next [OF wf, of c] by (simp add: n(2) vs(1))
  have len: "List.length vs + 1 = ?n" using arg_cong [OF vs(1), of List.length] D(1) by simp
  have xs: "?k \<le> List.length vs" using len D(3) by simp
  have "skb_books s'"
  proof -
    have "mset (held (fst x)) = {#the (rxb_skb (fst x))#}" using F(2) by (auto simp: held_def)
    then have "ring_skbs (rxr s') + {#the (rxb_skb (fst x))#} = ring_skbs (rxr s) + mset (held ?b)"
      using ring_skbs_put [OF D(1,2), where b = ?b] F(1) by (simp add: s' cleaned_slot_def)
    note mset_exchange [OF this collect_packet_events(5) [OF ev]]
    moreover have "fresh_names (rx_trace s')"
      using D(10) collect_packet_events(4) [OF ev] by (simp add: s' s0 skb_books_def)
    ultimately show ?thesis using D(10) collect_packet_events(1) [OF ev]
      by (simp add: skb_books_def s'(2) s0 ac_simps)
  qed
  moreover have "map_books s' xs"
    using D(5) [of x] D(11) collect_packet_events(2,3) [OF ev]
    by (simp add: map_books_def Let_def s' s0 rx_env_fields [OF s'(3)] slot_full_def)
  moreover have "rx_lag ?n ((c + 1) mod ?n) (t - 1) ?k"
    unfolding rx_lag_def
  proof (intro allI impI)
    fix j assume "t - 1 < j \<and> j < ?k"
    then have "t < Suc j \<and> Suc j < List.length (x # xs)" by auto
    then have "(c + Suc j) mod ?n mod E1000_RX_BUFFER_WRITE \<noteq> 0" using D(12) unfolding rx_lag_def by blast
    moreover have "((c + 1) mod ?n + j) mod ?n = (c + Suc j) mod ?n" by (simp add: mod_simps)
    ultimately show "((c + 1) mod ?n + j) mod ?n mod E1000_RX_BUFFER_WRITE \<noteq> 0" by simp
  qed
  moreover have "j < t - 1" if "j < ?k" "rx_done (snd (xs ! j))" for j
    using D(8) [of "Suc j"] that by simp
  moreover have "Some (of_nat ((c + t) mod ?n)) = Some (of_nat (((c + 1) mod ?n + (t - 1)) mod ?n) :: u32)"
    using F(3) [OF d] by (cases t) (simp_all add: mod_simps)
  moreover have "slot_wait (k_dma_error (kernel_of (net_of s))) y" if "y \<in> set (drop ?k (vs @ [(?b, ?d)]))" for y
    using that D(6) [of y] vs(1) xs not_done_masked by (auto simp: slot_wait_def)
  ultimately show ?thesis
    using D(3,5,7,9) wf n vs(2) xs F(3) [OF d] unfolding rx_at_def Let_def s'(4) n(2) v rx_env_fields [OF s'(3)] by auto
qed

section \<open>The cleaning loop\<close>

text \<open>The device does not report more bytes than the buffer has.\<close>

definition rx_fits :: "rx_config \<Rightarrow> rx_desc \<Rightarrow> bool" where
  "rx_fits c d \<longleftrightarrow> (rx_eop d \<and> \<not> rx_bad_frame c d \<longrightarrow> rx_length c d \<le> rx_buffer_len c)"

definition done_prefix :: "nat \<Rightarrow> rx_slot list \<Rightarrow> rx_slot list" where
  "done_prefix w xs = take w (takeWhile (rx_done \<circ> snd) xs)"

lemma done_prefix_simps [simp]:
  "done_prefix 0 xs = []" "done_prefix w [] = []"
  "rx_done (snd x) \<Longrightarrow> done_prefix (Suc w) (x # xs) = x # done_prefix w xs"
  "\<not> rx_done (snd x) \<Longrightarrow> done_prefix w (x # xs) = []"
  by (simp_all add: done_prefix_def)

lemma done_prefix_append:
  assumes "\<forall>y \<in> set ys. \<not> rx_done (snd y)"
  shows "done_prefix w (xs @ ys) = done_prefix w xs"
proof -
  have "takeWhile (rx_done \<circ> snd) (xs @ ys) = takeWhile (rx_done \<circ> snd) xs"
    using assms by (induction xs) (auto simp: takeWhile_eq_Nil_iff dest: hd_in_set)
  then show ?thesis by (simp add: done_prefix_def)
qed

lemma done_prefix_length: "List.length (done_prefix w xs) \<le> List.length xs"
  unfolding done_prefix_def using length_takeWhile_le [of "rx_done \<circ> snd" xs] by simp

text \<open>
  What a run of the loop does with the reported slots \<open>zs\<close> at the front of \<open>xs\<close>.
\<close>

definition rx_cleaned :: "nat \<Rightarrow> rx_slot list \<Rightarrow> rx_slot list \<Rightarrow> rx_locals \<Rightarrow> nic \<Rightarrow> rx_locals \<Rightarrow> nic \<Rightarrow> bool" where
  "rx_cleaned c xs zs l s l' s' \<longleftrightarrow> (let n = rx_count (rxr s); k = List.length zs; c' = (c + k) mod n;
      frs = rx_spec (rxc s) (is_discarding (rxa s)) zs in
     rx_env s' = rx_env s \<and> rx_count (rxr s') = n \<and> rx_next_to_clean (rxr s') = rx_next_to_clean (rxr s) \<and>
     (\<exists>ys t. rx_at c' (drop k xs @ ys) t s' \<and> (\<forall>y \<in> set ys. \<not> rx_done (snd y)) \<and>
       List.length (drop k xs @ ys) + rl_cleaned_count l' < n \<and>
       rx_next_to_use (rxr s') = (c' + List.length (drop k xs @ ys)) mod n) \<and>
     rl_i l' = c' \<and> rl_work l' = rl_work l + k \<and> rl_cleaned l' = (rl_cleaned l \<or> k > 0) \<and>
     rx_counts (rxc s) frs l l' \<and>
     is_discarding (rxa s') = rx_disc_after (is_discarding (rxa s)) zs \<and>
     collect frame_of (rx_trace s') = rev frs @ collect frame_of (rx_trace s))"

lemma rx_cleaned_none:
  assumes "rx_at c xs t s" "List.length xs + rl_cleaned_count l < rx_count (rxr s)" "rl_i l = c"
    "rx_next_to_use (rxr s) = (c + List.length xs) mod rx_count (rxr s)"
  shows "rx_cleaned c xs [] l s l s"
  using assms rx_atD(2) [OF assms(1)]
  by (auto simp: rx_cleaned_def rx_counts_def rx_disc_after_def Let_def intro!: exI [of _ "[]"])

lemma rx_spec_append:
  "rx_spec c disc (zs @ ys) = rx_spec c disc zs @ rx_spec c (rx_disc_after disc zs) ys"
  by (induction zs arbitrary: disc) (simp_all add: rx_disc_after_Cons rx_disc_after_def [of _ "[]"])

lemma rx_disc_after_append: "rx_disc_after disc (zs @ ys) = rx_disc_after (rx_disc_after disc zs) ys"
  by (simp add: rx_disc_after_def)

lemma rx_cleaned_trans:
  assumes a: "rx_cleaned c xs zs l s l1 s1"
    and ys: "\<forall>y \<in> set ys. \<not> rx_done (snd y)"
    and b: "rx_cleaned ((c + List.length zs) mod rx_count (rxr s)) (drop (List.length zs) xs @ ys) us l1 s1 l2 s2"
    and len: "List.length (zs @ us) \<le> List.length xs"
  shows "rx_cleaned c xs (zs @ us) l s l2 s2"
proof -
  let ?n = "rx_count (rxr s)" and ?k = "List.length zs"
  define c1 where "c1 = (c + ?k) mod ?n"
  note b = b [folded c1_def]
  have dr: "drop (List.length us) (drop ?k xs @ ys) = drop (List.length (zs @ us)) xs @ ys"
    using len by (simp add: add.commute)
  have c2: "(c1 + List.length us) mod ?n = (c + List.length (zs @ us)) mod ?n" by (simp add: c1_def mod_simps ac_simps)
  have env: "rx_env s1 = rx_env s" "rx_count (rxr s1) = ?n" "rxc s1 = rxc s"
    using a by (simp_all add: rx_cleaned_def Let_def rx_env_def)
  obtain ys2 t2 where at2: "rx_at ((c + List.length (zs @ us)) mod ?n) (drop (List.length (zs @ us)) xs @ ys2) t2 s2"
      "\<forall>y \<in> set ys2. \<not> rx_done (snd y)"
      "List.length (drop (List.length (zs @ us)) xs @ ys2) + rl_cleaned_count l2 < ?n"
      "rx_next_to_use (rxr s2) = ((c + List.length (zs @ us)) mod ?n + List.length (drop (List.length (zs @ us)) xs @ ys2)) mod ?n"
  proof -
    from b obtain ys2 t2 where "rx_at ((c1 + List.length us) mod ?n) (drop (List.length us) (drop ?k xs @ ys) @ ys2) t2 s2"
        "\<forall>y \<in> set ys2. \<not> rx_done (snd y)"
        "List.length (drop (List.length us) (drop ?k xs @ ys) @ ys2) + rl_cleaned_count l2 < ?n"
        "rx_next_to_use (rxr s2) = ((c1 + List.length us) mod ?n + List.length (drop (List.length us) (drop ?k xs @ ys) @ ys2)) mod ?n"
      unfolding rx_cleaned_def Let_def env by blast
    then show ?thesis using ys unfolding dr c2 append_assoc
      by (intro that [of "ys @ ys2" t2]) auto
  qed
  show ?thesis
    unfolding rx_cleaned_def Let_def
  proof (intro conjI, goal_cases)
    case 4
    show ?case using at2 by blast
  qed (use a b c2 in \<open>auto simp: rx_cleaned_def Let_def env rx_spec_append rx_disc_after_append rx_counts_def
      c1_def [symmetric]\<close>)
qed

lemma frames_packet: "packet_events s skb frs bo es \<Longrightarrow> collect frame_of es = frs"
  by (auto simp: packet_events_def)

lemma wp_clean_rx_slot:
  assumes at: "rx_at c (x # xs) t s" and ker: "rx_kernel_ok s" and d: "rx_done (snd x)"
    and fits: "rx_fits (rxc s) (snd x)" and room: "List.length (x # xs) + rl_cleaned_count l < rx_count (rxr s)"
    and i: "rl_i l = c" and use: "rx_next_to_use (rxr s) = (c + List.length (x # xs)) mod rx_count (rxr s)"
  shows "wp (clean_rx_slot l) (\<lambda>r s'. \<exists>l'. r = Inr l' \<and> rx_cleaned c (x # xs) [x] l s l' s') s"
proof -
  note D = rx_atD [OF at] and F = rx_at_front [OF at]
  let ?n = "rx_count (rxr s)"
  obtain skb where skb: "rxb_skb (fst x) = Some skb" using F(2) by auto
  have x: "rx_info (rxr s) ! c = fst x" "rx_descs (rxr s) ! c = snd x" using F(1) by (metis fst_conv snd_conv)+
  have c: "c < List.length (rx_info (rxr s))" "c < List.length (rx_descs (rxr s))"
    using D(2) rx_wf_simps [OF D(1)] by simp_all
  define s1 where "s1 = s\<lparr>rx_trace := RxUnmap (rxb_dma (fst x)) # rx_trace s,
    rxr := (rxr s)\<lparr>rx_info := (rx_info (rxr s))[c := \<lparr>rxb_skb = None, rxb_dma = 0\<rparr>]\<rparr>\<rparr>"
  define l1 where "l1 = l\<lparr>rl_i := ring_next ?n c, rl_work := rl_work l + 1, rl_cleaned := True,
    rl_cleaned_count := rl_cleaned_count l + 1\<rparr>"
  have b1: "rx_info (rxr s1) ! c = \<lparr>rxb_skb = None, rxb_dma = 0\<rparr>" using c by (simp add: s1_def)
  have wf1: "rx_wf (rxr s1)" "c < rx_count (rxr s1)" using D(1,2) by (simp_all add: s1_def rx_wf_def)
  have env1: "rx_env s1 = rx_env s" "rx_tail s1 = rx_tail s" "is_discarding (rxa s1) = is_discarding (rxa s)" "rxc s1 = rxc s"
    by (simp_all add: s1_def rx_env_def rx_tail_def)
  have fit1: "rx_passes (rxc s1) (is_discarding (rxa s1)) (snd x) \<longrightarrow> rx_length (rxc s1) (snd x) \<le> rx_buffer_len (rxc s1)"
    using fits by (simp add: env1 rx_passes_def rx_fits_def)
  have frs: "rx_spec (rxc s1) (is_discarding (rxa s1)) [(\<lparr>rxb_skb = Some skb, rxb_dma = a\<rparr>, snd x)] =
      rx_spec (rxc s) (is_discarding (rxa s)) [x]" for a
    by (simp add: env1 rx_frame_at_def skb)
  note packet = wp_rx_packet [OF wf1 b1 _ fit1, where skb = skb and a = 0 and l = l1, unfolded frs rx_kernel_ok_env [OF env1(1)], OF ker]
  define c1 where "c1 = (c + 1) mod ?n"
  have nxt: "ring_next ?n c = c1" using D(2) by (simp add: c1_def ring_next_mod)
  let ?Q = "\<lambda>r s'. \<exists>l'. r = Inr l' \<and> rx_cleaned c (x # xs) [x] l s l' s'"
  have rest: "wp (if rl_cleaned_count l2 \<ge> E1000_RX_BUFFER_WRITE then do {
                e1000_alloc_rx_buffers (rl_cleaned_count l2);
                return (Inr (l2\<lparr>rl_cleaned_count := 0\<rparr>)) }
              else return (Inr l2)) ?Q s3"
    if s2: "rx_env s2 = rx_env s1" "rx_tail s2 = rx_tail s1" "rxr s2 = put_buf c bo (rxr s1)" "rx_trace s2 = es @ rx_trace s1"
      "packet_events s1 skb (rx_spec (rxc s) (is_discarding (rxa s)) [x]) bo es" "is_discarding (rxa s2) = (\<not> rx_eop (snd x))"
      and l2: "rx_counts (rxc s1) (rx_spec (rxc s) (is_discarding (rxa s)) [x]) l1 l2" "rl_i l2 = rl_i l1"
        "rl_cleaned_count l2 = rl_cleaned_count l1" "rl_cleaned l2 = rl_cleaned l1" "rl_work l2 = rl_work l1"
      and s3: "s3 = s2\<lparr>rxr := (rxr s2)\<lparr>rx_descs := (rx_descs (rxr s2))[c :=
         (rx_descs (rxr s2) ! c)\<lparr>rxd_staterr := rxd_staterr (rx_descs (rxr s2) ! c) AND NOT 0xFF\<rparr>]\<rparr>\<rparr>"
    for l2 s2 s3 es bo
  proof -
    have r3: "rxr s3 = cleaned_slot c bo (rxr s)"
      by (simp add: s3 s2(3) put_buf_def s1_def cleaned_slot_def)
    have s3': "rx_trace s3 = es @ rx_trace s1" "rx_env s3 = rx_env s" "rx_tail s3 = rx_tail s"
      "is_discarding (rxa s3) = (\<not> rx_eop (snd x))"
      using s2 env1 by (simp_all add: s3 rx_env_def rx_tail_def)
    have s1t: "rx_trace s1 = RxUnmap (rxb_dma (fst x)) # rx_trace s" by (simp add: s1_def)
    have at3: "rx_at c1 xs (t - 1) s3"
      unfolding c1_def by (rule rx_at_clean [OF at d s1t _ r3 s3'(1-3)]) (use s2(5) skb in simp)
    have r3': "rx_count (rxr s3) = ?n" "rx_next_to_use (rxr s3) = (c1 + List.length xs) mod ?n"
      "rx_next_to_clean (rxr s3) = rx_next_to_clean (rxr s)"
      using use by (simp_all add: r3 cleaned_slot_def c1_def mod_simps)
    have fr3: "collect frame_of (rx_trace s3) = rev (rx_spec (rxc s) (is_discarding (rxa s)) [x]) @ collect frame_of (rx_trace s)"
      using frames_packet [OF s2(5)] by (simp add: s3' s1t)
    have base: "rx_cleaned c (x # xs) [x] l s (l2\<lparr>rl_cleaned_count := cnt\<rparr>) s'"
      if "rx_at c1 (xs @ ys) t' s'" "\<forall>y \<in> set ys. \<not> rx_done (snd y)" "List.length (xs @ ys) + cnt < ?n"
        "rx_next_to_use (rxr s') = (c1 + List.length (xs @ ys)) mod ?n" "rx_quiet s3 s'" for ys t' s' cnt
    proof -
      have k: "(c + List.length [x]) mod ?n = c1" "drop (List.length [x]) (x # xs) = xs" by (simp_all add: c1_def)
      show ?thesis
        unfolding rx_cleaned_def Let_def k
      proof (intro conjI, goal_cases)
        case 4
        show ?case using that by (intro exI [of _ ys] exI [of _ t']) simp
      qed (use that(5) l2 s3' fr3 r3' env1 in \<open>simp_all add: rx_quiet_def l1_def nxt rx_disc_after_def rx_counts_def\<close>)
    qed
    have cnt: "rl_cleaned_count l2 = rl_cleaned_count l + 1" by (simp add: l2 l1_def)
    show ?thesis
    proof (cases "rl_cleaned_count l2 \<ge> E1000_RX_BUFFER_WRITE")
      case False
      have "rx_cleaned c (x # xs) [x] l s (l2\<lparr>rl_cleaned_count := rl_cleaned_count l2\<rparr>) s3"
        by (rule base [of "[]"]) (use at3 room r3' cnt in \<open>simp_all add: rx_quiet_refl\<close>)
      then show ?thesis using False by (simp add: wp)
    next
      case True
      have ker3: "rx_kernel_ok s3" using ker rx_kernel_ok_env [OF s3'(2)] by simp
      have m: "List.length xs + rl_cleaned_count l2 < rx_count (rxr s3)" using room cnt r3' by simp
      have "wp (do { e1000_alloc_rx_buffers (rl_cleaned_count l2);
                return (Inr (l2\<lparr>rl_cleaned_count := 0\<rparr>)) }) ?Q s3"
        unfolding wp
      proof (rule wp_mono [OF wp_alloc_rx_buffers [OF at3 ker3 m]], goal_cases)
        case 1
        then show ?case by (simp add: r3')
      next
        case (2 a s4)
        then obtain ys t4 where "rx_quiet s3 s4" "rx_at c1 (xs @ ys) t4 s4" "\<forall>y \<in> set ys. \<not> rx_done (snd y)"
          "List.length ys \<le> rl_cleaned_count l2" "rx_next_to_use (rxr s4) = (c1 + List.length (xs @ ys)) mod ?n"
          by (auto simp: rx_more_def r3')
        then have "rx_cleaned c (x # xs) [x] l s (l2\<lparr>rl_cleaned_count := 0\<rparr>) s4"
          using m by (intro base [of ys t4]) (simp_all add: r3')
        then show ?case by simp
      qed
      then show ?thesis using True by (simp only: if_True)
    qed
  qed
  have key: "wp (do { r \<leftarrow> rx_packet c skb (snd x) l1;
      case r of
        Inl e \<Rightarrow> return (Inl e)
      | Inr l \<Rightarrow> do {
          set_rx_desc c (\<lambda>d. d\<lparr>rxd_staterr := rxd_staterr d AND NOT 0xFF\<rparr>);
          if rl_cleaned_count l \<ge> E1000_RX_BUFFER_WRITE then do {
            e1000_alloc_rx_buffers (rl_cleaned_count l);
            return (Inr (l\<lparr>rl_cleaned_count := 0\<rparr>)) }
          else return (Inr l) } }) ?Q s1"
    unfolding wp
  proof (rule wp_mono [OF packet], elim exE conjE, goal_cases)
    case (1 r s2 l2 es bo)
    note rest [OF 1(2-7) 1(9-13) refl]
    then show ?case unfolding 1(1) by (simp only: sum.case wp net_wp)
  qed
  have b0: "(fst x)\<lparr>rxb_skb := None, rxb_dma := 0\<rparr> = \<lparr>rxb_skb = None, rxb_dma = 0\<rparr>" by simp
  show ?thesis
    using key unfolding clean_rx_slot_def wp net_wp Let_def i x skb option.case
    by (simp add: c s1_def l1_def b0)
qed

lemma wp_clean_rx_loop:
  assumes "rx_at c xs t s" and "rx_kernel_ok s"
    and "\<forall>x \<in> set xs. rx_done (snd x) \<longrightarrow> rx_fits (rxc s) (snd x)"
    and "List.length xs + rl_cleaned_count l < rx_count (rxr s)" and "rl_i l = c"
    and "rx_next_to_use (rxr s) = (c + List.length xs) mod rx_count (rxr s)"
  shows "wp (clean_rx_loop w l) (\<lambda>r s'. \<exists>l'. r = Inr l' \<and> rx_cleaned c xs (done_prefix w xs) l s l' s') s"
  using assms
proof (induction w arbitrary: c xs t s l)
  case 0
  note rx_cleaned_none [OF 0(1,4-6)]
  then show ?case by (subst clean_rx_loop.simps) (simp add: wp)
next
  case (Suc w)
  note D = rx_atD [OF Suc.prems(1)]
  show ?case
  proof (cases "xs \<noteq> [] \<and> rx_done (snd (hd xs))")
    case False
    have "\<not> rx_done (rx_descs (rxr s) ! c)"
    proof (cases xs)
      case Nil
      have "rx_view (rxr s) c ! 0 \<in> set (rx_view (rxr s) c)" using D(1,2) by (intro nth_mem) simp
      then show ?thesis using D(6) Nil rx_view_nth [OF D(1), of 0 c] D(2) by (fastforce simp: slot_wait_def)
    next
      case (Cons x xs')
      then show ?thesis using False rx_at_front(1) [of c x xs' t s] Suc.prems(1) by (metis list.sel(1) list.simps(3) snd_conv)
    qed
    moreover have "done_prefix (Suc w) xs = []" using False by (cases xs) auto
    ultimately show ?thesis using rx_cleaned_none [OF Suc.prems(1,4-6)] Suc.prems(5)
      by (subst clean_rx_loop.simps) (simp add: wp)
  next
    case True
    then obtain x xs' where xs: "xs = x # xs'" and d: "rx_done (snd x)" by (cases xs) auto
    have at: "rx_at c (x # xs') t s" using Suc.prems(1) xs by simp
    have fits: "rx_fits (rxc s) (snd x)" using Suc.prems(3) xs d by simp
    have dc: "rx_done (rx_descs (rxr s) ! rl_i l)" using d rx_at_front(1) [OF at] Suc.prems(5) by (metis snd_conv)
    have "wp (clean_rx_loop w l1) (\<lambda>r s'. \<exists>l'. r = Inr l' \<and> rx_cleaned c xs (done_prefix (Suc w) xs) l s l' s') s1"
      if cl: "rx_cleaned c (x # xs') [x] l s l1 s1" for l1 s1
    proof -
      let ?n = "rx_count (rxr s)"
      define c1 where "c1 = (c + 1) mod ?n"
      obtain ys t1 where at1: "rx_at c1 (xs' @ ys) t1 s1" "\<forall>y \<in> set ys. \<not> rx_done (snd y)"
        "List.length (xs' @ ys) + rl_cleaned_count l1 < ?n" "rx_next_to_use (rxr s1) = (c1 + List.length (xs' @ ys)) mod ?n"
        using cl unfolding rx_cleaned_def Let_def c1_def by auto
      have env: "rx_env s1 = rx_env s" "rx_count (rxr s1) = ?n" "rl_i l1 = c1" "rxc s1 = rxc s"
        using cl by (simp_all add: rx_cleaned_def Let_def c1_def rx_env_def)
      have "\<forall>x \<in> set (xs' @ ys). rx_done (snd x) \<longrightarrow> rx_fits (rxc s1) (snd x)"
        using Suc.prems(3) at1(2) by (auto simp: xs env)
      moreover have "rx_kernel_ok s1" using Suc.prems(2) rx_kernel_ok_env [OF env(1)] by simp
      ultimately have "wp (clean_rx_loop w l1) (\<lambda>r s'. \<exists>l'. r = Inr l' \<and> rx_cleaned c1 (xs' @ ys) (done_prefix w (xs' @ ys)) l1 s1 l' s') s1"
        using Suc.IH [OF at1(1) _ _ _ env(3)] at1(3,4) by (simp add: env)
      then show ?thesis
      proof (rule wp_mono, elim exE conjE, goal_cases)
        case (1 r s2 l2)
        have len: "List.length ([x] @ done_prefix w xs') \<le> List.length (x # xs')" using done_prefix_length [of w xs'] by simp
        have "rx_cleaned ((c + List.length [x]) mod ?n) (drop (List.length [x]) (x # xs') @ ys) (done_prefix w xs') l1 s1 l2 s2"
          using 1 by (simp add: c1_def done_prefix_append [OF at1(2)])
        note rx_cleaned_trans [OF cl at1(2) this len]
        then show ?case using 1 d by (simp add: xs)
      qed
    qed
    note rest = this
    have "wp (do { r \<leftarrow> clean_rx_slot l; case r of Inl e \<Rightarrow> return (Inl e) | Inr l \<Rightarrow> clean_rx_loop w l })
        (\<lambda>r s'. \<exists>l'. r = Inr l' \<and> rx_cleaned c xs (done_prefix (Suc w) xs) l s l' s') s"
      unfolding wp
    proof (rule wp_mono [OF wp_clean_rx_slot [OF at Suc.prems(2) d fits _ Suc.prems(5)]], goal_cases)
      case 1
      then show ?case using Suc.prems(4) xs by simp
    next
      case 2
      then show ?case using Suc.prems(6) xs by simp
    next
      case (3 r s1)
      then obtain l1 where "r = Inr l1" "rx_cleaned c (x # xs') [x] l s l1 s1" by blast
      then show ?case using rest [of l1 s1] by (simp only: sum.case)
    qed
    then show ?thesis using dc by (subst clean_rx_loop.simps) (simp add: wp)
  qed
qed

end
