(* ===== verification/Tx_System.thy ===== *)
theory Tx_System
  imports Tx_Accept "HOL-Library.Multiset"
begin

text \<open>
  The transmit ring as a system: the stack sends packets, the device reports descriptors between
  the head and the tail register, the interrupt cleans, the interface is reset, and other code
  changes what is not the ring. The reachable states are those of a queue of packets, and every
  packet the driver has accepted is freed once or is still in flight.
\<close>

unbundle bit_operations_syntax

section \<open>The device reports a descriptor\<close>

definition mark_slot :: "slot \<Rightarrow> slot" where
  "mark_slot x = (fst x, (snd x)\<lparr>desc_upper := desc_upper (snd x) OR E1000_TXD_STAT_DD\<rparr>)"

definition mark_done :: "nat \<Rightarrow> net \<Rightarrow> net" where
  "mark_done i s = s\<lparr>tx_ring := tx_ring s\<lparr>ring_desc := (ring_desc (tx_ring s))[i :=
     (ring_desc (tx_ring s) ! i)\<lparr>desc_upper := desc_upper (ring_desc (tx_ring s) ! i) OR E1000_TXD_STAT_DD\<rparr>]\<rparr>\<rparr>"

lemma mark_slot_done [simp]: "slot_done (mark_slot x)" "fst (mark_slot x) = fst x" "reports (mark_slot x) = reports x"
  by (simp_all add: mark_slot_def dd_bit reports_def bit_or_iff)

lemma mark_done_ring:
  "tx_ring (mark_done i s) = put_slot i (buffer_info (tx_ring s) ! i, snd (mark_slot (buffer_info (tx_ring s) ! i, ring_desc (tx_ring s) ! i))) (tx_ring s)"
  by (simp add: mark_done_def mark_slot_def put_slot_desc [symmetric])

lemma packet_slots_mark:
  assumes "packet_slots n i p ss" and "j < List.length ss" and "reports (ss ! j)"
  shows "packet_slots n i p (ss[j := mark_slot (ss ! j)])"
proof -
  have ne: "ss \<noteq> []" using assms(1) by (simp add: packet_slots_def)
  have "j = List.length ss - 1"
  proof (rule ccontr)
    assume "j \<noteq> List.length ss - 1"
    then have "ss ! j \<in> set (butlast ss)" using assms(2) by (auto simp: in_set_conv_nth nth_butlast intro!: exI [of _ j])
    then show False using assms(1,3) by (auto simp: packet_slots_def)
  qed
  moreover obtain us x where "ss = us @ [x]" using ne by (cases ss rule: rev_cases) auto
  ultimately show ?thesis using assms by (cases us) (auto simp: packet_slots_def list_update_append)
qed

lemma packets_at_mark:
  assumes "packets_at n i ps ss" and "j < slots_of ps" and "reports (ss ! j)"
  shows "packets_at n i ps (ss[j := mark_slot (ss ! j)])"
  using assms
proof (induction ps arbitrary: i ss j)
  case (Cons p ps)
  have len: "fst p \<le> List.length ss" using Cons.prems(1) by (auto simp: packet_slots_def min_def split: if_splits)
  show ?case
  proof (cases "j < fst p")
    case True
    then have "packet_slots n i p ((take (fst p) ss)[j := mark_slot (take (fst p) ss ! j)])"
      using Cons.prems len by (intro packet_slots_mark) simp_all
    with True Cons.prems(1) show ?thesis by (simp add: take_update_swap)
  next
    case False
    then have "packets_at n ((i + fst p) mod n) ps ((drop (fst p) ss)[j - fst p := mark_slot (drop (fst p) ss ! (j - fst p))])"
      using Cons.prems len by (intro Cons.IH) simp_all
    with False Cons.prems(1) len show ?thesis by (simp add: drop_update_swap)
  qed
qed simp

lemma mark_inv:
  assumes inv: "tx_inv (tx_ring s) ps" and j: "j < slots_of ps"
  defines "r \<equiv> tx_ring s"
  defines "i \<equiv> (next_to_clean r + j) mod ring_count r"
  assumes rep: "reports (view r (next_to_clean r) ! j)"
  shows "tx_inv (tx_ring (mark_done i s)) ps"
    "view (tx_ring (mark_done i s)) (next_to_clean r) = (view r (next_to_clean r))[j := mark_slot (view r (next_to_clean r) ! j)]"
    "next_to_clean (tx_ring (mark_done i s)) = next_to_clean r" "next_to_use (tx_ring (mark_done i s)) = next_to_use r"
    "ring_count (tx_ring (mark_done i s)) = ring_count r"
proof -
  have wf: "ring_wf r" and tot: "slots_of ps < ring_count r" and c: "next_to_clean r < ring_count r"
    and pk: "packets_at (ring_count r) (next_to_clean r) ps (view r (next_to_clean r))"
    and u: "next_to_use r = (next_to_clean r + slots_of ps) mod ring_count r"
    using inv by (auto simp: tx_inv_def ring_at_def r_def)
  have jn: "j < ring_count r" using j tot by simp
  let ?x = "view r (next_to_clean r) ! j"
  have x: "?x = (buffer_info r ! i, ring_desc r ! i)" using view_nth [OF wf jn] by (simp add: i_def)
  then have ring: "tx_ring (mark_done i s) = put_slot i (mark_slot ?x) r"
    using mark_done_ring [of i s] by (simp add: r_def mark_slot_def)
  have w: "buf_next_to_watch (fst (mark_slot ?x)) < ring_count r" using view_watch [OF wf jn] by simp
  have i: "i = (next_to_clean r + j) mod ring_count r" by (simp add: i_def)
  show v: "view (tx_ring (mark_done i s)) (next_to_clean r) = (view r (next_to_clean r))[j := mark_slot ?x]"
    using view_put_slot [OF wf jn, of "next_to_clean r" "mark_slot ?x"] unfolding ring i_def [symmetric] .
  show f: "next_to_clean (tx_ring (mark_done i s)) = next_to_clean r" "next_to_use (tx_ring (mark_done i s)) = next_to_use r"
    "ring_count (tx_ring (mark_done i s)) = ring_count r"
    unfolding ring by simp_all
  show "tx_inv (tx_ring (mark_done i s)) ps"
    unfolding tx_inv_def ring_at_def f v
    using put_slot_wf [OF wf w, of i] packets_at_mark [OF pk j rep] tot c u by (simp add: ring)
qed

section \<open>Emptying the ring\<close>

lemma wp_put_txbufs:
  assumes "i + n = List.length (buffer_info (tx_ring s))"
  shows "wp (put_txbufs i n) (\<lambda>_ s'. \<exists>bs. s' = s\<lparr>tx_ring := tx_ring s\<lparr>buffer_info := bs\<rparr>,
      os_trace := concat (map put_events (rev (drop i (buffer_info (tx_ring s))))) @ os_trace s\<rparr> \<and>
    List.length bs = List.length (buffer_info (tx_ring s))) s"
  using assms
proof (induction n arbitrary: i s)
  case 0
  then show ?case by (simp add: wp) (rule exI [of _ "buffer_info (tx_ring s)"], simp)
next
  case (Suc n)
  let ?bs = "buffer_info (tx_ring s)"
  define bs where "bs = ?bs[i := (?bs ! i)\<lparr>buf_dma := 0, buf_skb := None, buf_time_stamp := 0\<rparr>]"
  define s1 where "s1 = s\<lparr>tx_ring := tx_ring s\<lparr>buffer_info := bs\<rparr>, os_trace := put_events (?bs ! i) @ os_trace s\<rparr>"
  have d: "drop i ?bs = ?bs ! i # drop (Suc i) ?bs" "drop (Suc i) bs = drop (Suc i) ?bs"
    using Suc.prems by (simp_all add: Cons_nth_drop_Suc bs_def)
  have "Suc i + n = List.length (buffer_info (tx_ring s1))" using Suc.prems by (simp add: s1_def bs_def)
  from Suc.IH [OF this] have "wp (put_txbufs (Suc i) n) (\<lambda>_ s'. \<exists>bs. s' = s\<lparr>tx_ring := tx_ring s\<lparr>buffer_info := bs\<rparr>,
      os_trace := concat (map put_events (rev (drop i ?bs))) @ os_trace s\<rparr> \<and>
    List.length bs = List.length ?bs) s1"
    by (rule wp_mono) (auto simp: s1_def d bs_def)
  then show ?case by (simp add: wp wp_put_txbuf s1_def bs_def)
qed

text \<open>The packets that hang at the buffers of a list of slots.\<close>

definition slot_ids :: "slot list \<Rightarrow> nat list" where
  "slot_ids ss = concat (map (\<lambda>s. case buf_skb (fst s) of Some skb \<Rightarrow> [skb_id skb] | None \<Rightarrow> []) ss)"

lemma slot_ids_append [simp]: "slot_ids (ss @ ts) = slot_ids ss @ slot_ids ts" "slot_ids [] = []"
  by (simp_all add: slot_ids_def)

lemma slot_ids_free: "\<forall>s \<in> set ss. free_slot s \<Longrightarrow> slot_ids ss = []"
  by (induction ss) (auto simp: slot_ids_def free_slot_def)

lemma slot_ids_packet:
  assumes "packet_slots n i p ss"
  shows "slot_ids ss = [skb_id (snd p)]"
proof -
  have "ss = butlast ss @ [last ss]" using assms by (simp add: packet_slots_def)
  moreover have "slot_ids (butlast ss @ [last ss]) = [skb_id (snd p)]"
    using assms slot_ids_free [of "butlast ss"] unfolding slot_ids_append(1)
    by (simp add: packet_slots_def slot_ids_def [of "[last ss]"])
  ultimately show ?thesis by simp
qed

lemma slot_ids_packets: "packets_at n i ps ss \<Longrightarrow> slot_ids ss = map (skb_id \<circ> snd) ps"
proof (induction ps arbitrary: i ss)
  case (Cons p ps)
  have "slot_ids ss = slot_ids (take (fst p) ss) @ slot_ids (drop (fst p) ss)"
    by (simp flip: slot_ids_append)
  with Cons.prems Cons.IH [of "(i + fst p) mod n" "drop (fst p) ss"] slot_ids_packet [of n i p "take (fst p) ss"]
  show ?case by simp
qed (simp add: slot_ids_free)

lemma freed_put_all:
  "freed (concat (map put_events (rev bs))) =
     concat (map (\<lambda>b. case buf_skb b of Some skb \<Rightarrow> [skb_id skb] | None \<Rightarrow> []) bs)"
  by (induction bs) simp_all

lemma mset_concat_rotate: "mset (concat (rotate n xs)) = mset (concat xs)"
  by (induction n) (simp_all add: rotate1_hd_tl, metis concat_append mset_append add.commute concat.simps(2)
      list.collapse append_Nil2 concat.simps(1) list.sel(2) rotate1.simps)

lemma freed_ring:
  assumes "tx_inv r ps"
  shows "mset (freed (concat (map put_events (rev (buffer_info r))))) = mset (map (skb_id \<circ> snd) ps)"
proof -
  let ?f = "\<lambda>b. case buf_skb b of Some skb \<Rightarrow> [skb_id skb] | None \<Rightarrow> []"
  have wf: "ring_wf r" and pk: "packets_at (ring_count r) (next_to_clean r) ps (view r (next_to_clean r))"
    using assms by (auto simp: tx_inv_def ring_at_def)
  have "map fst (zip (buffer_info r) (ring_desc r)) = buffer_info r" using wf by (simp add: ring_wf_simps)
  then have "map (\<lambda>s. ?f (fst s)) (zip (buffer_info r) (ring_desc r)) = map ?f (buffer_info r)"
    by (metis (no_types, lifting) comp_apply map_eq_conv map_map)
  then have "map (\<lambda>s. ?f (fst s)) (view r (next_to_clean r)) = rotate (next_to_clean r) (map ?f (buffer_info r))"
    by (simp add: view_def rotate_map [symmetric])
  then have "mset (slot_ids (view r (next_to_clean r))) = mset (concat (map ?f (buffer_info r)))"
    by (simp add: slot_ids_def mset_concat_rotate)
  then show ?thesis by (simp add: freed_put_all slot_ids_packets [OF pk])
qed

lemma wp_clean_tx_ring:
  assumes inv: "tx_inv (tx_ring s) ps"
  shows "wp e1000_clean_tx_ring (\<lambda>_ s'. env_same s s' \<and> tx_inv (tx_ring s') [] \<and>
    next_to_use (tx_ring s') = 0 \<and> next_to_clean (tx_ring s') = 0 \<and> tx_tail s' = Some 0 \<and>
    mset (freed (os_trace s')) = mset (freed (os_trace s)) + mset (map (skb_id \<circ> snd) ps) \<and>
    queue_stopped s' = queue_stopped s) s"
proof -
  have wf: "ring_wf (tx_ring s)" using inv by (simp add: tx_inv_def ring_at_def)
  let ?N = "ring_count (tx_ring s)"
  have all: "0 + ?N = List.length (buffer_info (tx_ring s))" using wf by (simp add: ring_wf_simps)
  have empty: "tx_inv ((tx_ring s)\<lparr>next_to_use := 0, next_to_clean := 0,
      buffer_info := map (\<lambda>_. empty_buffer) bs, ring_desc := map (\<lambda>_. empty_desc) (ring_desc (tx_ring s))\<rparr>) []"
    if "List.length bs = List.length (buffer_info (tx_ring s))" for bs
  proof -
    have "\<forall>x \<in> set (zip (map (\<lambda>_. empty_buffer) bs) (map (\<lambda>_. empty_desc) ds)). x = (empty_buffer, empty_desc)" for ds :: "e1000_tx_desc list"
      by (auto simp: set_zip)
    moreover have "free_slot (empty_buffer, empty_desc)"
      by (simp add: free_slot_def slot_done_def empty_buffer_def empty_desc_def)
    ultimately show ?thesis
      using wf that ring_wf_simps(1) [OF wf]
      by (auto simp: tx_inv_def ring_at_def ring_wf_def view_def empty_buffer_def)
  qed
  show ?thesis
    unfolding e1000_clean_tx_ring_def wp_bind wp_get wp_let
  proof (rule wp_mono [OF wp_put_txbufs [OF all]], elim exE conjE, goal_cases)
    case (1 u s1 bs)
    show ?case
      unfolding 1 wp_os wp_set_net wp_writel
      by (rule wp_mono [OF wp_write_tx_tail])
        (use empty [OF 1(2)] freed_ring [OF inv] in \<open>simp add: env_same_def\<close>)
  qed
qed

section \<open>The steps\<close>

text \<open>
  The device owns the descriptors from \<open>next_to_clean\<close> up to the tail register, and reports
  those that ask for it.
\<close>

definition device_owns :: "net \<Rightarrow> nat \<Rightarrow> bool" where
  "device_owns s i \<longleftrightarrow> (let r = tx_ring s; n = ring_count r; c = next_to_clean r in
     case tx_tail s of Some t \<Rightarrow> i < n \<and> (i + n - c) mod n < (unat t + n - c) mod n | None \<Rightarrow> False)"

text \<open>What the stack promises about a packet it hands over, and the kernel about its services.\<close>

definition given_ok :: "net \<Rightarrow> sk_buff \<Rightarrow> bool" where
  "given_ok s skb \<longleftrightarrow>
     (case k_put_padto (kernel_of s) (os_trace s) skb 17 of Some skb' \<Rightarrow> skb_id skb' = skb_id skb | None \<Rightarrow> True) \<and>
     (case prepared s skb of
        Some skb' \<Rightarrow> skb_ok skb' \<and> skb_id skb' = skb_id skb \<and>
          xmit_desc_count (tx_fifo_limit (ad s)) skb' + 2 \<le> ring_count (tx_ring s)
      | None \<Rightarrow> True)"

definition other_code :: "net \<Rightarrow> net \<Rightarrow> bool" where
  "other_code s s' \<longleftrightarrow> tx_ring s' = tx_ring s \<and> tx_tail s' = tx_tail s \<and> kernel_of s' = kernel_of s \<and>
     freed (os_trace s') = freed (os_trace s) \<and> tx_fifo_limit (ad s') = tx_fifo_limit (ad s) \<and>
     txd_cmd (ad s') = txd_cmd (ad s)"

text \<open>A state of the system: the interface, and the packets it has accepted so far.\<close>

type_synonym tx_sys = "net \<times> nat list"

inductive tx_step :: "tx_sys \<Rightarrow> tx_sys \<Rightarrow> bool" where
  Accept: "given_ok s skb \<Longrightarrow> run_state (e1000_xmit_frame skb) s = (Inr NETDEV_TX_OK, s') \<Longrightarrow>
     tx_step (s, acc) (s', acc @ [skb_id skb])"
| Refuse: "given_ok s skb \<Longrightarrow> run_state (e1000_xmit_frame skb) s = (Inr NETDEV_TX_BUSY, s') \<Longrightarrow>
     tx_step (s, acc) (s', acc)"
| Clean: "run_state e1000_clean_tx_irq s = (Inr b, s') \<Longrightarrow> tx_step (s, acc) (s', acc)"
| Report: "device_owns s i \<Longrightarrow> desc_lower (ring_desc (tx_ring s) ! i) AND E1000_TXD_CMD_RS \<noteq> 0 \<Longrightarrow>
     tx_step (s, acc) (mark_done i s, acc)"
| Empty: "run_state e1000_clean_tx_ring s = ((), s') \<Longrightarrow> tx_step (s, acc) (s', acc)"
| Other: "other_code s s' \<Longrightarrow> tx_step (s, acc) (s', acc)"

inductive_cases tx_stepE: "tx_step (s, acc) x"

section \<open>The invariant\<close>

text \<open>
  The device has been told about the first \<open>t\<close> slots, and has reported none beyond them.
\<close>

definition told :: "net \<Rightarrow> packet list \<Rightarrow> nat \<Rightarrow> bool" where
  "told s ps t \<longleftrightarrow> (let r = tx_ring s; v = view r (next_to_clean r) in
     t \<le> slots_of ps \<and> tx_tail s = Some (of_nat ((next_to_clean r + t) mod ring_count r)) \<and>
     (\<forall>j < ring_count r. slot_done (v ! j) \<longrightarrow> j < t))"

definition sys_inv :: "net \<Rightarrow> nat list \<Rightarrow> packet list \<Rightarrow> bool" where
  "sys_inv s acc ps \<longleftrightarrow> tx_inv (tx_ring s) ps \<and> adapter_ok s \<and>
     mset acc = mset (freed (os_trace s)) + mset (map (skb_id \<circ> snd) ps) \<and> (\<exists>t. told s ps t)"

lemma inv_facts:
  assumes "tx_inv r ps"
  shows "ring_wf r" "slots_of ps < ring_count r" "next_to_clean r < ring_count r"
    "next_to_use r = (next_to_clean r + slots_of ps) mod ring_count r" "ring_count r < 2 ^ 16"
    "packets_at (ring_count r) (next_to_clean r) ps (view r (next_to_clean r))"
  using assms by (auto simp: tx_inv_def ring_at_def ring_wf_def)

text \<open>Only used slots can be done.\<close>

lemma done_used:
  assumes "tx_inv r ps" and "j < ring_count r" and "slot_done (view r (next_to_clean r) ! j)"
  shows "j < slots_of ps" "view r (next_to_clean r) ! j = used_slots r ps ! j"
proof -
  note v = view_free_used [OF assms(1)] and f = inv_facts [OF assms(1)]
  have all: "view r (next_to_clean r) = used_slots r ps @ free_slots r ps"
    by (simp add: used_slots_def free_slots_def)
  show "j < slots_of ps"
  proof (rule ccontr)
    assume "\<not> j < slots_of ps"
    then have "view r (next_to_clean r) ! j = free_slots r ps ! (j - slots_of ps)" "j - slots_of ps < List.length (free_slots r ps)"
      using v(3,4) assms(2) f(2) by (simp_all add: all nth_append)
    then have "view r (next_to_clean r) ! j \<in> set (free_slots r ps)" by simp
    then show False using v(2) assms(3) by (auto simp: free_slot_def)
  qed
  then show "view r (next_to_clean r) ! j = used_slots r ps ! j" using v(4) by (simp add: all nth_append)
qed

text \<open>A step that keeps the slots in use keeps what the device knows.\<close>

lemma told_keep:
  assumes told: "told s ps t" and inv: "tx_inv (tx_ring s) ps" "tx_inv (tx_ring s') (ps @ qs)"
    and used: "used_slots (tx_ring s') (ps @ qs) = used_slots (tx_ring s) ps @ ss"
    and new: "\<forall>x \<in> set ss. \<not> slot_done x"
    and same: "next_to_clean (tx_ring s') = next_to_clean (tx_ring s)" "ring_count (tx_ring s') = ring_count (tx_ring s)"
    and tail: "tx_tail s' = tx_tail s \<or> tx_tail s' = Some (of_nat (next_to_use (tx_ring s')))"
  shows "\<exists>t. told s' (ps @ qs) t"
proof -
  have tot: "slots_of (ps @ qs) = slots_of ps + slots_of qs" by (simp add: slots_of_def)
  have old: "j < t" if "j < ring_count (tx_ring s')" "slot_done (view (tx_ring s') (next_to_clean (tx_ring s')) ! j)" for j
  proof -
    have "j < slots_of (ps @ qs)" "slot_done (used_slots (tx_ring s') (ps @ qs) ! j)"
      using done_used [OF inv(2) that] that(2) by simp_all
    then have "slot_done ((used_slots (tx_ring s) ps @ ss) ! j)" "j < List.length (used_slots (tx_ring s) ps @ ss)"
      using used view_free_used(4) [OF inv(2)] by simp_all
    then have j: "j < slots_of ps" "slot_done (used_slots (tx_ring s) ps ! j)"
      using new view_free_used(4) [OF inv(1)] by (auto simp: nth_append split: if_splits)
    then have "slot_done (view (tx_ring s) (next_to_clean (tx_ring s)) ! j)" by (simp add: used_slots_def)
    then show "j < t" using told j(1) inv_facts(2) [OF inv(1)] by (simp add: told_def Let_def)
  qed
  have le: "t \<le> slots_of ps" using told by (simp add: told_def Let_def)
  from tail show ?thesis
  proof
    assume "tx_tail s' = tx_tail s"
    then have "told s' (ps @ qs) t" using told old le same tot by (simp add: told_def Let_def)
    then show ?thesis ..
  next
    assume "tx_tail s' = Some (of_nat (next_to_use (tx_ring s')))"
    then have "told s' (ps @ qs) (slots_of (ps @ qs))"
      using old le tot inv_facts(4) [OF inv(2)] by (fastforce simp: told_def Let_def)
    then show ?thesis ..
  qed
qed

section \<open>Every step keeps the invariant\<close>

lemma given_okD:
  assumes "given_ok s skb"
  shows "\<And>skb'. k_put_padto (kernel_of s) (os_trace s) skb 17 = Some skb' \<Longrightarrow> skb_id skb' = skb_id skb"
    "\<And>skb'. prepared s skb = Some skb' \<Longrightarrow> skb_ok skb' \<and> skb_id skb' = skb_id skb \<and>
      xmit_desc_count (tx_fifo_limit (ad s)) skb' + 2 \<le> ring_count (tx_ring s)"
  using assms by (simp_all add: given_ok_def)

lemma run_wp: "wp m Q s \<Longrightarrow> run_state m s = (a, s') \<Longrightarrow> Q a s'"
  by (simp add: wp_def)

lemma inv_sent:
  assumes inv: "sys_inv s acc ps" and sent: "sent s ps skb s'" and same: "env_same s s'"
  shows "\<exists>n. sys_inv s' (acc @ [skb_id skb]) (ps @ [(n, skb)])"
proof -
  obtain n ss where new: "tx_inv (tx_ring s') (ps @ [(n, skb)])"
    "used_slots (tx_ring s') (ps @ [(n, skb)]) = used_slots (tx_ring s) ps @ ss" "\<forall>x \<in> set ss. \<not> slot_done x"
    and fr: "freed (os_trace s') = freed (os_trace s)" and c: "next_to_clean (tx_ring s') = next_to_clean (tx_ring s)"
    and tail: "tx_tail s' = tx_tail s \<or> tx_tail s' = Some (of_nat (next_to_use (tx_ring s')))"
    using sent unfolding sent_def Let_def by blast
  from inv obtain t where old: "tx_inv (tx_ring s) ps" "adapter_ok s" "told s ps t"
    "mset acc = mset (freed (os_trace s)) + mset (map (skb_id \<circ> snd) ps)" by (auto simp: sys_inv_def)
  have cnt: "ring_count (tx_ring s') = ring_count (tx_ring s)" using same by (simp add: env_same_def)
  have "\<exists>t. told s' (ps @ [(n, skb)]) t" by (rule told_keep [OF old(3,1) new c cnt tail])
  then have "sys_inv s' (acc @ [skb_id skb]) (ps @ [(n, skb)])"
    using old new(1) fr adapter_ok_same [OF same] by (simp add: sys_inv_def)
  then show ?thesis by blast
qed

lemma inv_same_ring:
  assumes inv: "sys_inv s acc ps" and ok: "adapter_ok s'"
    and ring: "tx_inv (tx_ring s') ps" "used_slots (tx_ring s') ps = used_slots (tx_ring s) ps"
      "next_to_clean (tx_ring s') = next_to_clean (tx_ring s)" "ring_count (tx_ring s') = ring_count (tx_ring s)"
    and fr: "freed (os_trace s') = freed (os_trace s) @ f" and tail: "tx_tail s' = tx_tail s"
  shows "sys_inv s' (acc @ f) ps"
proof -
  from inv obtain t where old: "tx_inv (tx_ring s) ps" "told s ps t"
    "mset acc = mset (freed (os_trace s)) + mset (map (skb_id \<circ> snd) ps)" by (auto simp: sys_inv_def)
  have "\<exists>t. told s' (ps @ []) t"
    by (rule told_keep [OF old(2,1), of s' "[]" "[]"]) (use ring tail in simp_all)
  then show ?thesis using old ok ring(1) fr by (simp add: sys_inv_def)
qed

lemma step_xmit:
  assumes inv: "sys_inv s acc ps" and ok: "given_ok s skb" and run: "run_state (e1000_xmit_frame skb) s = (r, s')"
  shows "r = Inr NETDEV_TX_OK \<and> (\<exists>ps'. sys_inv s' (acc @ [skb_id skb]) ps') \<or>
    r = Inr NETDEV_TX_BUSY \<and> sys_inv s' acc ps \<and> queue_stopped s'"
proof -
  have old: "tx_inv (tx_ring s) ps" "adapter_ok s" using inv by (simp_all add: sys_inv_def)
  have post: "xmit_post s ps skb r s'" by (rule run_wp [OF wp_xmit_frame [OF old given_okD [OF ok]] run])
  then have same: "env_same s s'" by (simp add: xmit_post_def)
  have ok': "adapter_ok s'" using adapter_ok_same [OF same] old by simp
  have cnt: "ring_count (tx_ring s') = ring_count (tx_ring s)" using same by (simp add: env_same_def)
  from post consider
      (sent) skb1 skb2 where "r = Inr NETDEV_TX_OK" "prepared s skb = Some skb1" "same_frame skb1 skb2" "sent s ps skb2 s'"
    | (given) "r = Inr NETDEV_TX_OK" "given_up s ps skb s'"
    | (busy) "r = Inr NETDEV_TX_BUSY" "ring_quiet s s'" "queue_stopped s'"
    by (auto simp: xmit_post_def)
  then show ?thesis
  proof cases
    case sent
    then have "skb_id skb2 = skb_id skb" using given_okD(2) [OF ok] same_frame_eq(1) by metis
    with inv_sent [OF inv sent(4) same] sent(1) show ?thesis by auto
  next
    case given
    then show ?thesis
      using inv_same_ring [OF inv ok', of "[skb_id skb]"] cnt by (auto simp: given_up_def)
  next
    case busy
    then show ?thesis
      using inv_same_ring [OF inv ok', of "[]"] cnt old by (simp add: ring_quiet_def)
  qed
qed

lemma slots_of_take: "slots_of (take k ps) \<le> slots_of ps"
  unfolding slots_of_def by (metis append_take_drop_id le_add1 map_append sum_list.append)

lemma done_front:
  assumes "packets_at n i ps ss" and "0 < done_packets ps ss"
  shows "slot_done (ss ! (slots_of (take (done_packets ps ss) ps) - 1))"
  using assms
proof (induction ps arbitrary: i ss)
  case (Cons p ps)
  let ?k = "done_packets ps (drop (fst p) ss)" and ?n = "fst p"
  have d: "slot_done (last (take ?n ss))" using Cons.prems by (simp split: if_splits)
  have p: "packet_slots n i p (take ?n ss)" and rest: "packets_at n ((i + ?n) mod n) ps (drop ?n ss)"
    using Cons.prems by simp_all
  have len: "?n \<le> List.length ss" "0 < ?n"
    using p packet_slots_pos [OF p] by (auto simp: packet_slots_def min_def split: if_splits)
  have here: "last (take ?n ss) = ss ! (?n - 1)" using len by (subst last_conv_nth) auto
  show ?case
  proof (cases "slots_of (take ?k ps)")
    case 0
    then show ?thesis using d here by simp
  next
    case (Suc q)
    then have "?k \<noteq> 0" by (cases ?k) simp_all
    then have "slot_done (drop ?n ss ! q)" using Cons.IH [OF rest] Suc by simp
    then have "slot_done (ss ! (?n + q))" using len by simp
    then show ?thesis using d Suc by simp
  qed
qed simp

lemma told_clean:
  assumes told: "told s ps t" and inv: "tx_inv (tx_ring s) ps" "tx_inv (tx_ring s') (drop k ps)"
    and m: "m = slots_of (take k ps)" "m \<le> t"
    and same: "next_to_clean (tx_ring s') = (next_to_clean (tx_ring s) + m) mod ring_count (tx_ring s)"
      "ring_count (tx_ring s') = ring_count (tx_ring s)" "tx_tail s' = tx_tail s"
    and view: "view (tx_ring s') (next_to_clean (tx_ring s')) =
      drop m (view (tx_ring s) (next_to_clean (tx_ring s))) @ map clear_slot (take m (view (tx_ring s) (next_to_clean (tx_ring s))))"
  shows "told s' (drop k ps) (t - m)"
proof -
  let ?v = "view (tx_ring s) (next_to_clean (tx_ring s))" and ?N = "ring_count (tx_ring s)"
  have tot: "slots_of ps = m + slots_of (drop k ps)"
    unfolding m(1) slots_of_def by (metis append_take_drop_id map_append sum_list.append)
  have "j < t - m" if "j < ?N" "slot_done ((drop m ?v @ map clear_slot (take m ?v)) ! j)" for j
  proof -
    have len: "List.length ?v = ?N" using inv_facts(1) [OF inv(1)] by simp
    have "\<not> slot_done (clear_slot x)" for x using clear_slot_free [of x] by (simp add: free_slot_def)
    moreover have "t < ?N" using told inv_facts(2) [OF inv(1)] by (simp add: told_def Let_def)
    ultimately have "j < ?N - m"
      using that len m(2) by (cases "j < ?N - m") (simp_all add: nth_append)
    with that len have "slot_done (?v ! (m + j))" by (simp add: nth_append)
    moreover have "m + j < ?N" using \<open>j < ?N - m\<close> by simp
    ultimately have "m + j < t" using told by (simp add: told_def Let_def)
    then show ?thesis by simp
  qed
  moreover have "((next_to_clean (tx_ring s) + m) mod ?N + (t - m)) mod ?N = (next_to_clean (tx_ring s) + m + (t - m)) mod ?N"
    by (rule mod_add_left_eq)
  then have "((next_to_clean (tx_ring s) + m) mod ?N + (t - m)) mod ?N = (next_to_clean (tx_ring s) + t) mod ?N"
    using m(2) by simp
  ultimately show ?thesis
    using told tot m(2) view [unfolded same(1)] unfolding told_def Let_def same by auto
qed

lemma last_write_map: "last_write t r = map_of (reg_writes t) r"
  by (induction t rule: reg_writes.induct) auto

lemma step_clean:
  assumes inv: "sys_inv s acc ps" and run: "run_state e1000_clean_tx_irq s = (r, s')"
  shows "r = Inr True" "sys_inv s' acc (drop (done_packets ps (view (tx_ring s) (next_to_clean (tx_ring s)))) ps)"
proof -
  from inv obtain t where old: "tx_inv (tx_ring s) ps" "adapter_ok s" "told s ps t"
    "mset acc = mset (freed (os_trace s)) + mset (map (skb_id \<circ> snd) ps)" by (auto simp: sys_inv_def)
  note f = inv_facts [OF old(1)]
  let ?v = "view (tx_ring s) (next_to_clean (tx_ring s))"
  define k where "k = done_packets ps ?v"
  define m where "m = slots_of (take k ps)"
  have post: "r = Inr True \<and> env_same s s' \<and> tx_inv (tx_ring s') (drop k ps) \<and>
      next_to_clean (tx_ring s') = (next_to_clean (tx_ring s) + m) mod ring_count (tx_ring s) \<and>
      view (tx_ring s') (next_to_clean (tx_ring s')) = drop m ?v @ map clear_slot (take m ?v) \<and>
      freed (os_trace s') = freed (os_trace s) @ map (skb_id \<circ> snd) (take k ps) \<and>
      reg_writes (trace (adapter_hw s')) = reg_writes (trace (adapter_hw s))"
    using run_wp [OF wp_clean_tx_irq [OF old(1)] run] unfolding k_def m_def by blast
  show "r = Inr True" using post by simp
  have le: "m \<le> t"
  proof (cases "m = 0")
    case False
    then have "0 < k" by (cases k) (simp_all add: m_def)
    then have "slot_done (?v ! (m - 1))" using done_front [OF f(6)] by (simp add: k_def m_def)
    moreover have "m - 1 < ring_count (tx_ring s)" using slots_of_take [of k ps] f(2) by (simp add: m_def)
    ultimately have "m - 1 < t" using old(3) by (simp add: told_def Let_def)
    then show ?thesis by simp
  qed simp
  have same: "env_same s s'" "ring_count (tx_ring s') = ring_count (tx_ring s)" using post by (simp_all add: env_same_def)
  have tail: "tx_tail s' = tx_tail s" using post by (simp add: tx_tail_def last_write_map)
  have "told s' (drop k ps) (t - m)"
    using told_clean [OF old(3,1) _ m_def le _ same(2) tail] post by blast
  moreover have "mset (map (skb_id \<circ> snd) ps) = mset (map (skb_id \<circ> snd) (take k ps)) + mset (map (skb_id \<circ> snd) (drop k ps))"
    by (metis append_take_drop_id map_append mset_append)
  ultimately show "sys_inv s' acc (drop (done_packets ps ?v) ps)"
    using old post adapter_ok_same [OF same(1)] unfolding sys_inv_def k_def [symmetric] by (auto simp: ac_simps)
qed

lemma owned_index:
  assumes owns: "device_owns s i" and inv: "tx_inv (tx_ring s) ps" and told: "told s ps t"
  obtains j where "j < t" "i = (next_to_clean (tx_ring s) + j) mod ring_count (tx_ring s)" "j < ring_count (tx_ring s)"
proof -
  let ?N = "ring_count (tx_ring s)" and ?c = "next_to_clean (tx_ring s)"
  note f = inv_facts [OF inv]
  have t: "t < ?N" using told f(2) by (simp add: told_def Let_def)
  have shift: "((?c + x) mod ?N + ?N - ?c) mod ?N = x" if "x < ?N" for x
  proof -
    have "(?c + x) mod ?N + ?N - ?c = (?c + x) mod ?N + (?N - ?c)" using f(3) by simp
    then have "((?c + x) mod ?N + ?N - ?c) mod ?N = (?c + x + (?N - ?c)) mod ?N" by (simp add: mod_simps)
    also have "?c + x + (?N - ?c) = x + ?N" using f(3) by simp
    finally show ?thesis using that by simp
  qed
  have "(?c + t) mod ?N < 2 ^ 16" using f(5) mod_less_divisor [of ?N "?c + t"] t by linarith
  then have tail: "unat (of_nat ((?c + t) mod ?N) :: u32) = (?c + t) mod ?N"
    by (simp add: unat_of_nat take_bit_nat_eq_self_iff)
  define j where "j = (i + ?N - ?c) mod ?N"
  have own: "i < ?N" "j < t"
    using owns told shift [OF t] by (simp_all add: device_owns_def told_def Let_def tail j_def)
  have "(?c + j) mod ?N = (?c + (i + ?N - ?c)) mod ?N" by (simp add: j_def mod_simps)
  also have "?c + (i + ?N - ?c) = i + ?N" using f(3) by simp
  finally have "i = (?c + j) mod ?N" using own by simp
  then show ?thesis using that own t by simp
qed

lemma step_report:
  assumes inv: "sys_inv s acc ps" and owns: "device_owns s i"
    and rs: "desc_lower (ring_desc (tx_ring s) ! i) AND E1000_TXD_CMD_RS \<noteq> 0"
  shows "sys_inv (mark_done i s) acc ps"
proof -
  from inv obtain t where old: "tx_inv (tx_ring s) ps" "adapter_ok s" "told s ps t"
    "mset acc = mset (freed (os_trace s)) + mset (map (skb_id \<circ> snd) ps)" by (auto simp: sys_inv_def)
  note f = inv_facts [OF old(1)]
  obtain j where j: "j < t" "i = (next_to_clean (tx_ring s) + j) mod ring_count (tx_ring s)" "j < ring_count (tx_ring s)"
    using owned_index [OF owns old(1,3)] .
  have le: "j < slots_of ps" using j(1) old(3) by (simp add: told_def Let_def)
  have "view (tx_ring s) (next_to_clean (tx_ring s)) ! j = (buffer_info (tx_ring s) ! i, ring_desc (tx_ring s) ! i)"
    using view_nth [OF f(1) j(3)] j(2) by simp
  then have rep: "reports (view (tx_ring s) (next_to_clean (tx_ring s)) ! j)" using rs by (simp add: reports_def)
  note mk = mark_inv [OF old(1) le rep, folded j(2)]
  have other: "kernel_of (mark_done i s) = kernel_of s" "ad (mark_done i s) = ad s" "os_trace (mark_done i s) = os_trace s"
    "tx_tail (mark_done i s) = tx_tail s"
    by (simp_all add: mark_done_def tx_tail_def)
  have "told (mark_done i s) ps t"
    using old(3) mk(2-5) other(4) j(1,3) f(1) by (auto simp: told_def Let_def nth_list_update)
  moreover have "adapter_ok (mark_done i s)"
    using old(2) mk(5) other by (simp add: adapter_ok_def xmit_stop_size_def)
  ultimately show ?thesis using mk(1) old other by (auto simp: sys_inv_def)
qed

lemma step_empty:
  assumes inv: "sys_inv s acc ps" and run: "run_state e1000_clean_tx_ring s = (u, s')"
  shows "sys_inv s' acc []"
proof -
  from inv have old: "tx_inv (tx_ring s) ps" "adapter_ok s"
    "mset acc = mset (freed (os_trace s)) + mset (map (skb_id \<circ> snd) ps)" by (auto simp: sys_inv_def)
  note post = run_wp [OF wp_clean_tx_ring [OF old(1)] run]
  have "told s' [] 0"
    unfolding told_def Let_def
  proof (intro conjI allI impI)
    fix j assume "j < ring_count (tx_ring s')" "slot_done (view (tx_ring s') (next_to_clean (tx_ring s')) ! j)"
    then show "j < 0" using done_used(1) [of "tx_ring s'" "[]" j] post by simp
  qed (use post in simp_all)
  then show ?thesis using post old adapter_ok_same [of s s'] by (auto simp: sys_inv_def)
qed

lemma step_other:
  assumes inv: "sys_inv s acc ps" and other: "other_code s s'"
  shows "sys_inv s' acc ps"
  using assms by (simp add: sys_inv_def other_code_def adapter_ok_def xmit_stop_size_def told_def)

lemma tx_step_inv:
  assumes "tx_step (s, acc) (s', acc')" and "sys_inv s acc ps"
  shows "\<exists>ps'. sys_inv s' acc' ps'"
  using assms(1)
proof (elim tx_stepE, goal_cases)
  case (1 skb)
  with step_xmit [OF assms(2)] show ?case by force
next
  case (2 skb)
  with step_xmit [OF assms(2)] show ?case by force
next
  case (3 b)
  with step_clean [OF assms(2)] show ?case by blast
next
  case (4 i)
  with step_report [OF assms(2)] show ?case by blast
next
  case 5
  with step_empty [OF assms(2)] show ?case by blast
next
  case 6
  with step_other [OF assms(2)] show ?case by blast
qed

definition tx_reset :: "net \<Rightarrow> bool" where
  "tx_reset s \<longleftrightarrow> tx_inv (tx_ring s) [] \<and> adapter_ok s \<and> freed (os_trace s) = [] \<and>
     tx_tail s = Some (of_nat (next_to_use (tx_ring s)))"

lemma tx_reset_inv:
  assumes "tx_reset s"
  shows "sys_inv s [] []"
proof -
  have "told s [] 0"
    using assms done_used(1) [of "tx_ring s" "[]"] inv_facts(3,4) [of "tx_ring s" "[]"]
    by (auto simp: tx_reset_def told_def Let_def)
  then show ?thesis using assms by (auto simp: sys_inv_def tx_reset_def)
qed

text \<open>The transmit ring is a transition system; the invariant is that of a queue of packets.\<close>

interpretation tx: transition_system "\<lambda>(s, acc). tx_reset s \<and> acc = []" tx_step
    "\<lambda>(s, acc). \<exists>ps. sys_inv s acc ps"
  by unfold_locales (auto intro: tx_reset_inv dest: tx_step_inv)

lemma tx_reach_inv:
  assumes "tx_step\<^sup>*\<^sup>* (s0, []) (s, acc)" and "tx_reset s0"
  obtains ps where "sys_inv s acc ps"
  using tx.inv_reach [OF _ assms(1)] assms(2) by auto

section \<open>A concrete interface\<close>

definition sample_kernel :: kernel where
  "sample_kernel = \<lparr>k_dma_map = (\<lambda>t src n. 0x10000 * (1 + of_nat (List.length t))), k_dma_error = (\<lambda>a. a = 0),
     k_jiffies = (\<lambda>t. of_nat (List.length t)), k_put_padto = (\<lambda>t skb n. Some skb),
     k_pull_tail = (\<lambda>t skb n. Some skb), k_cow_head = (\<lambda>t skb. 0), k_pseudo_sum = (\<lambda>skb. 0),
     k_xmit_stopped = (\<lambda>t. False), k_max_skb_frags = 17, k_page_size = 4096, k_hz = 250\<rparr>"

definition sample_net :: net where
  "sample_net = \<lparr>adapter_hw = log_event (WriteL (E1000_TDT 0) 0) (sample_hw (const_device 0)),
     tx_ring = \<lparr>ring_desc = replicate 64 empty_desc, ring_count = 64, next_to_use = 0, next_to_clean = 0,
       buffer_info = replicate 64 empty_buffer\<rparr>,
     ad = \<lparr>tx_fifo_limit = 24000, txd_cmd = E1000_TXD_CMD_EOP OR E1000_TXD_CMD_IFCS OR E1000_TXD_CMD_RS,
       detect_tx_hung = False, tx_hang_recheck = False, tx_timeout_factor = 1, restart_queue = 0,
       total_tx_bytes = 0, total_tx_packets = 0, has_hw_timestamp = False, tx_hwtstamp_skb = None,
       tx_hwtstamp_start = 0, tx_hwtstamp_skipped = 0\<rparr>,
     down = False, queue_stopped = False, carrier_ok = True, kernel_of = sample_kernel, os_trace = []\<rparr>"

definition sample_skb :: sk_buff where
  "sample_skb = \<lparr>skb_id = 7, skb_len = 60, skb_data_len = 0, skb_mem = (\<lambda>k. 0), skb_frags = [],
     gso_size = 0, gso_segs = 0, gso_v6 = False, csum_partial = False, csum_start = 0, csum_offset = 0,
     skb_protocol = 0x0800, network_offset = 14, transport_offset = 34, tcp_hdrlen = 20, vlan_tag = None,
     no_fcs = False, wants_tstamp = False, xmit_more = False\<rparr>"

lemma sample_reset: "tx_reset sample_net"
proof -
  have "\<forall>x \<in> set (view (tx_ring sample_net) 0). x = (empty_buffer, empty_desc)"
    by (auto simp: view_def sample_net_def set_zip)
  moreover have "free_slot (empty_buffer, empty_desc)"
    by (simp add: free_slot_def slot_done_def empty_buffer_def empty_desc_def)
  ultimately have "tx_inv (tx_ring sample_net) []"
    by (auto simp: tx_inv_def ring_at_def ring_wf_def sample_net_def empty_buffer_def)
  moreover have "adapter_ok sample_net"
    by (simp add: adapter_ok_def sample_net_def xmit_stop_size_def sample_kernel_def DIV_ROUND_UP_def)
  ultimately show ?thesis
    by (simp add: tx_reset_def tx_tail_def) (simp add: sample_net_def log_event_def)
qed

lemma sample_given: "given_ok sample_net sample_skb"
  by (simp add: given_ok_def prepared_def tso_pull_def sample_net_def sample_kernel_def sample_skb_def skb_ok_def
      skb_headlen_def xmit_desc_count_def DIV_ROUND_UP_def)

lemma sample_xmit_step:
  "\<exists>acc. tx_step (sample_net, []) (snd (run_state (e1000_xmit_frame sample_skb) sample_net), acc)"
proof -
  obtain r s' where run: "run_state (e1000_xmit_frame sample_skb) sample_net = (r, s')" by fastforce
  from step_xmit [OF tx_reset_inv [OF sample_reset] sample_given run]
  show ?thesis using tx_step.Accept [OF sample_given, of s' "[]"] tx_step.Refuse [OF sample_given, of s' "[]"] run by auto
qed

lemma map_head_done: "map_head n limit i off 0 cnt = return (Inr (Mapped i cnt))"
  by (cases n) simp_all
lemma map_head_one:
  "0 < len \<Longrightarrow> len \<le> limit \<Longrightarrow> map_head len limit i off len cnt = do {
   ok \<leftarrow> map_chunk i (Head off) len; if \<not> ok then return (Inr (DmaError i cnt)) else do { s \<leftarrow> get; return (Inr (Mapped i (cnt + 1))) } }"
  by (cases len) (simp_all add: map_head_done Let_def cong: if_cong)

lemma sample_net_fields:
  "down sample_net = False" "ring_count (tx_ring sample_net) = 64" "next_to_use (tx_ring sample_net) = 0"
  "next_to_clean (tx_ring sample_net) = 0" "kernel_of sample_net = sample_kernel" "os_trace sample_net = []"
  "tx_fifo_limit (ad sample_net) = 24000" "List.length (buffer_info (tx_ring sample_net)) = 64"
  "List.length (ring_desc (tx_ring sample_net)) = 64"
  by (simp_all add: sample_net_def)

lemma sample_kernel_fields:
  "k_put_padto sample_kernel t skb n = Some skb" "k_jiffies sample_kernel t = of_nat (List.length t)"
  "k_dma_map sample_kernel t src n = 0x10000 * (1 + of_nat (List.length t))" "k_dma_error sample_kernel a = (a = 0)"
  "k_xmit_stopped sample_kernel t = False" "k_max_skb_frags sample_kernel = 17" "k_page_size sample_kernel = 4096"
  by (simp_all add: sample_kernel_def)

lemma sample_skb_fields:
  "skb_len sample_skb = 60" "gso_size sample_skb = 0" "skb_data_len sample_skb = 0" "skb_headlen sample_skb = 60"
  "skb_frags sample_skb = []" "csum_partial sample_skb = False" "vlan_tag sample_skb = None" "no_fcs sample_skb = False"
  "wants_tstamp sample_skb = False" "xmit_more sample_skb = False" "skb_protocol sample_skb = 0x0800" "skb_id sample_skb = 7"
  by (simp_all add: sample_skb_def skb_headlen_def)

lemmas sample_fields = sample_net_fields sample_kernel_fields sample_skb_fields

lemma sample_xmit_starts: "run_state (e1000_xmit_frame sample_skb) sample_net = run_state (xmit_place sample_skb) sample_net"
  by (simp add: e1000_xmit_frame_def e1000_transfer_dhcp_info_def sample_fields tso_pull_def xmit_desc_count_def
      DIV_ROUND_UP_def e1000_maybe_stop_tx_def e1000_desc_unused_def)

lemma sample_mapped:
  "wp (e1000_tx_map sample_skb 0 24000) (\<lambda>r s. r = Inr 1 \<and> ring_wf (tx_ring s) \<and> ring_count (tx_ring s) = 64 \<and>
   next_to_use (tx_ring s) = 0 \<and> next_to_clean (tx_ring s) = 0 \<and> freed (os_trace s) = [] \<and> xmit_stop_size s \<le> 64 \<and>
   tx_tail s = tx_tail sample_net) sample_net"
proof -
  have "ring_wf (tx_ring sample_net)" using sample_reset by (simp add: tx_reset_def tx_inv_def ring_at_def)
  then show ?thesis
    by (auto simp: e1000_tx_map_def map_head_one map_chunk_def wp net_wp sample_fields ring_wf_def u16_of_def
        xmit_stop_size_def DIV_ROUND_UP_def tx_tail_def jiffies_def nth_list_update
        dest!: set_update_subset_insert [THEN subsetD])
qed

lemma sample_sent_run:
  obtains s where "run_state (e1000_xmit_frame sample_skb) sample_net = (Inr NETDEV_TX_OK, s)" "freed (os_trace s) = []"
     "tx_tail s = Some 1" "next_to_use (tx_ring s) = 1" "next_to_clean (tx_ring s) = 0" "ring_count (tx_ring s) = 64"
proof -
  let ?Q = "\<lambda>r s. r = Inr NETDEV_TX_OK \<and> freed (os_trace s) = [] \<and>
     tx_tail s = Some 1 \<and> next_to_use (tx_ring s) = 1 \<and> next_to_clean (tx_ring s) = 0 \<and> ring_count (tx_ring s) = 64"
  have queue: "wp (xmit_queue sample_skb fl 1) ?Q s" if "ring_wf (tx_ring s)" "ring_count (tx_ring s) = 64"
    "next_to_use (tx_ring s) = 0" "next_to_clean (tx_ring s) = 0" "freed (os_trace s) = []" "xmit_stop_size s \<le> 64" for s fl
    by (rule wp_mono [OF wp_xmit_queue [of s 0 1 0]]) (use that sample_skb_fields in \<open>auto simp: env_same_def\<close>)
  have "wp (xmit_place sample_skb) ?Q sample_net"
    unfolding xmit_place_def e1000_tso_def e1000_tx_csum_def Let_def wp
    by (simp add: sample_fields wp, rule wp_mono [OF sample_mapped]) (auto intro!: queue [simplified])
  then have "?Q (fst (run_state (e1000_xmit_frame sample_skb) sample_net)) (snd (run_state (e1000_xmit_frame sample_skb) sample_net))"
    unfolding sample_xmit_starts by (simp add: wp_def)
  then show thesis by (intro that [of "snd (run_state (e1000_xmit_frame sample_skb) sample_net)"]) (auto simp: prod_eq_iff)
qed

text \<open>The packet has been sent, and then reported by the device.\<close>

lemma sample_reported:
  obtains s where "tx_step\<^sup>*\<^sup>* (sample_net, []) (s, [7])" "freed (os_trace s) = []" "tx_tail s = Some 1"
    "next_to_use (tx_ring s) = 1" "next_to_clean (tx_ring s) = 0" "ring_count (tx_ring s) = 64" "tx_done (tx_ring s) 0"
proof -
  obtain s where run: "run_state (e1000_xmit_frame sample_skb) sample_net = (Inr NETDEV_TX_OK, s)"
    and s: "freed (os_trace s) = []" "tx_tail s = Some 1" "next_to_use (tx_ring s) = 1" "next_to_clean (tx_ring s) = 0"
      "ring_count (tx_ring s) = 64"
    using sample_sent_run by blast
  have sent: "tx_step (sample_net, []) (s, [7])"
    using tx_step.Accept [OF sample_given run, of "[]"] by (simp add: sample_fields)
  then have "tx_step\<^sup>*\<^sup>* (sample_net, []) (s, [7])" by blast
  then obtain ps where inv: "sys_inv s [7] ps" using tx_reach_inv sample_reset by blast
  then have old: "tx_inv (tx_ring s) ps" "mset [7] = mset (map (skb_id \<circ> snd) ps)" by (auto simp: sys_inv_def s(1))
  note f = inv_facts [OF old(1)]
  obtain p where ps: "ps = [p]" using arg_cong [OF old(2), of size] by (cases ps) auto
  have p: "fst p = 1" using f(2,4) by (simp add: ps s slots_of_def)
  have "packet_slots 64 0 p (take 1 (view (tx_ring s) 0))" using f(6) by (simp add: ps p s)
  moreover have "view (tx_ring s) 0 ! 0 = (buffer_info (tx_ring s) ! 0, ring_desc (tx_ring s) ! 0)"
    using view_nth [OF f(1), of 0 0] by (simp add: s)
  ultimately have rs: "desc_lower (ring_desc (tx_ring s) ! 0) AND E1000_TXD_CMD_RS \<noteq> 0"
    using view_free_used(4) [OF old(1)] f(1) 
    by (cases "view (tx_ring s) 0") (auto simp: packet_slots_def reports_def)
  have "device_owns s 0" by (simp add: device_owns_def s)
  from tx_step.Report [OF this rs, of "[7]"] sent have "tx_step\<^sup>*\<^sup>* (sample_net, []) (mark_done 0 s, [7])"
    by (meson r_into_rtranclp rtranclp.rtrancl_into_rtrancl)
  moreover have "List.length (ring_desc (tx_ring s)) = 64" using f(1) s(5) by (simp add: ring_wf_def)
  then have "tx_done (tx_ring (mark_done 0 s)) 0" by (simp add: mark_done_def tx_done_def dd_bit bit_or_iff)
  ultimately show thesis by (intro that [of "mark_done 0 s"]) (use s in \<open>simp_all add: mark_done_def tx_tail_def\<close>)
qed

section \<open>What the ring promises\<close>

text \<open>
  C5: Sending. On a ring that holds the packets \<open>ps\<close>, with a packet the stack may give,
  \<open>e1000_xmit_frame\<close> always returns, and in one of three ways: the packet was queued behind
  \<open>ps\<close> in slots that describe exactly its chunks and the device is told (or the stack has
  promised another packet); it was given up and freed, and ring and tail are as before; or it is
  refused, ring, packets and tail are untouched, and the queue is stopped.
\<close>

theorem xmit_frame_outcomes:
  assumes "tx_inv (tx_ring s) ps" and "adapter_ok s" and "given_ok s skb"
    and "run_state (e1000_xmit_frame skb) s = (r, s')"
  shows "r = Inr NETDEV_TX_OK \<and> (\<exists>skb1 skb2. prepared s skb = Some skb1 \<and> same_frame skb1 skb2 \<and> sent s ps skb2 s') \<or>
    r = Inr NETDEV_TX_OK \<and> given_up s ps skb s' \<or>
    r = Inr NETDEV_TX_BUSY \<and> ring_quiet s s' \<and> queue_stopped s'"
  using run_wp [OF wp_xmit_frame [OF assms(1,2) given_okD [OF assms(3)]] assms(4)]
  by (auto simp: xmit_post_def)

theorem xmit_frame_outcomes_witness:
  "\<exists>r s'. run_state (e1000_xmit_frame sample_skb) sample_net = (r, s') \<and>
    (r = Inr NETDEV_TX_OK \<and> (\<exists>skb1 skb2. prepared sample_net sample_skb = Some skb1 \<and> same_frame skb1 skb2 \<and>
       sent sample_net [] skb2 s') \<or>
     r = Inr NETDEV_TX_OK \<and> given_up sample_net [] sample_skb s' \<or>
     r = Inr NETDEV_TX_BUSY \<and> ring_quiet sample_net s' \<and> queue_stopped s')"
proof -
  have "tx_inv (tx_ring sample_net) []" "adapter_ok sample_net" using sample_reset by (simp_all add: tx_reset_def)
  from xmit_frame_outcomes [OF this sample_given] show ?thesis by (metis surj_pair)
qed

text \<open>
  C4: Cleaning refines the queue. \<open>e1000_clean_tx_irq\<close> takes the longest prefix of reported
  packets off the queue, frees exactly these packets in the order they were sent, keeps the others
  where they are, adds up their segments and bytes, writes no register, and wakes a stopped queue
  when packets were taken, the link is up, and at least \<open>TX_WAKE_THRESHOLD\<close> slots are free.
\<close>

theorem clean_tx_irq_refines:
  assumes "tx_inv (tx_ring s) ps" and "run_state e1000_clean_tx_irq s = (r, s')"
    and "k = done_packets ps (view (tx_ring s) (next_to_clean (tx_ring s)))"
  shows "r = Inr True \<and> tx_inv (tx_ring s') (drop k ps) \<and>
    freed (os_trace s') = freed (os_trace s) @ map (skb_id \<circ> snd) (take k ps) \<and>
    next_to_use (tx_ring s') = next_to_use (tx_ring s) \<and>
    reg_writes (trace (adapter_hw s')) = reg_writes (trace (adapter_hw s)) \<and>
    total_tx_packets (ad s') = total_tx_packets (ad s) + sum_list (map (skb_segs \<circ> snd) (take k ps)) \<and>
    total_tx_bytes (ad s') = total_tx_bytes (ad s) + sum_list (map (skb_bytecount \<circ> snd) (take k ps)) \<and>
    queue_stopped s' = (queue_stopped s \<and> \<not> (k \<noteq> 0 \<and> carrier_ok s \<and> \<not> down s \<and>
      e1000_desc_unused (tx_ring s') \<ge> int TX_WAKE_THRESHOLD))"
  using run_wp [OF wp_clean_tx_irq [OF assms(1)] assms(2)] unfolding assms(3) by blast

theorem clean_tx_irq_refines_witness:
  "fst (run_state e1000_clean_tx_irq sample_net) = Inr True \<and>
   tx_inv (tx_ring (snd (run_state e1000_clean_tx_irq sample_net))) []"
proof -
  have "tx_inv (tx_ring sample_net) []" using sample_reset by (simp add: tx_reset_def)
  from clean_tx_irq_refines [OF this surjective_pairing refl] show ?thesis by simp
qed

text \<open>
  C3: Packets are freed once. In every state that sends, refusals, cleanings, reports of the
  device, emptying of the ring and other code can reach, the ring is a queue of packets, and the
  packets the interface has accepted are those it has freed and those in flight, each as often as
  it was accepted.
\<close>

theorem tx_frees_once:
  assumes "tx_step\<^sup>*\<^sup>* (s0, []) (s, acc)" and "tx_reset s0"
  shows "\<exists>ps. tx_inv (tx_ring s) ps \<and> mset acc = mset (freed (os_trace s)) + mset (map (skb_id \<circ> snd) ps)"
  using tx_reach_inv [OF assms] by (metis sys_inv_def)

theorem tx_frees_once_witness:
  "\<exists>s acc ps. tx_step (sample_net, []) (s, acc) \<and> tx_inv (tx_ring s) ps \<and>
    mset acc = mset (freed (os_trace s)) + mset (map (skb_id \<circ> snd) ps)"
  using sample_xmit_step tx_frees_once [OF _ sample_reset] by (meson r_into_rtranclp)

section \<open>Within the sizes of the driver\<close>

text \<open>
  The sizes a driver that has been configured and reset works with: a ring of at least
  \<open>E1000_MIN_TXD\<close> descriptors, and the transmit limit that a packet buffer with 2 KB or more for
  transmits gives (2048 - 96, see \<open>Reset.buffer_divided\<close>). A kernel with pages of 4 KB gives a
  packet at most 17 fragments.
\<close>

definition E1000_MIN_TXD :: nat where
  "E1000_MIN_TXD = 64"

definition driver_sized :: "net \<Rightarrow> bool" where
  "driver_sized s \<longleftrightarrow> E1000_MIN_TXD \<le> ring_count (tx_ring s) \<and>
     1952 \<le> tx_fifo_limit (ad s) \<and> tx_fifo_limit (ad s) \<le> 24576 \<and>
     k_page_size (kernel_of s) \<le> 4096 \<and> k_max_skb_frags (kernel_of s) \<le> 17"

text \<open>A packet of the stack: at most 64 KB, in the linear part and at most 17 fragments.\<close>

definition stack_packet :: "net \<Rightarrow> sk_buff \<Rightarrow> bool" where
  "stack_packet s skb \<longleftrightarrow>
     (case k_put_padto (kernel_of s) (os_trace s) skb 17 of Some skb' \<Rightarrow> skb_id skb' = skb_id skb | None \<Rightarrow> True) \<and>
     (case prepared s skb of
        Some skb' \<Rightarrow> skb_ok skb' \<and> skb_id skb' = skb_id skb \<and>
          List.length (skb_frags skb') \<le> 17 \<and> skb_headlen skb' + sum_list (skb_frags skb') \<le> 65536
      | None \<Rightarrow> True)"

lemma sum_round_up:
  assumes "0 < limit"
  shows "sum_list (map (\<lambda>n. DIV_ROUND_UP n limit) ns) \<le> sum_list ns div limit + List.length ns"
proof (induction ns)
  case (Cons n ns)
  have "n div limit + sum_list ns div limit \<le> (n + sum_list ns) div limit" by (metis div_add1_eq le_add1)
  moreover have "DIV_ROUND_UP n limit \<le> n div limit + 1"
    using assms div_le_mono [of "n + limit - 1" "n + limit" limit] div_add_self2 [of limit n]
    unfolding DIV_ROUND_UP_def by linarith
  ultimately show ?case using Cons by simp
qed simp

lemma div_bounds: "0 < (k :: nat) \<Longrightarrow> k \<le> limit \<Longrightarrow> n \<le> m \<Longrightarrow> n div limit \<le> m div k"
  using div_le_mono2 [of k limit n] div_le_mono [of n m k] by linarith

lemma sized_count:
  assumes "1952 \<le> limit" and "List.length (skb_frags skb) \<le> 17" and "skb_headlen skb + sum_list (skb_frags skb) \<le> 65536"
  shows "xmit_desc_count limit skb + 2 \<le> E1000_MIN_TXD"
proof -
  let ?ns = "skb_headlen skb # skb_frags skb"
  have "sum_list (map (\<lambda>n. DIV_ROUND_UP n limit) ?ns) \<le> sum_list ?ns div limit + List.length ?ns"
    using assms(1) by (intro sum_round_up) simp
  also have "sum_list ?ns div limit \<le> 65536 div 1952" using assms(1,3) by (intro div_bounds) simp_all
  finally show ?thesis using assms(2) by (simp add: xmit_desc_count_def E1000_MIN_TXD_def)
qed

lemma sized_stop: "driver_sized s \<Longrightarrow> xmit_stop_size s \<le> ring_count (tx_ring s)"
proof -
  assume s: "driver_sized s"
  let ?n = "DIV_ROUND_UP (k_page_size (kernel_of s)) (tx_fifo_limit (ad s))"
  have l: "0 < tx_fifo_limit (ad s)" using s by (simp add: driver_sized_def)
  have "?n \<le> 4096 div 1952 + 1"
  proof -
    have "?n \<le> k_page_size (kernel_of s) div tx_fifo_limit (ad s) + 1" using sum_round_up [OF l, of "[k_page_size (kernel_of s)]"] by simp
    also have "k_page_size (kernel_of s) div tx_fifo_limit (ad s) \<le> 4096 div 1952"
      using s by (intro div_bounds) (simp_all add: driver_sized_def)
    finally show ?thesis by simp
  qed
  then have "k_max_skb_frags (kernel_of s) * ?n \<le> 17 * 3" using s by (intro mult_le_mono) (simp_all add: driver_sized_def)
  then show ?thesis using s by (simp add: xmit_stop_size_def driver_sized_def E1000_MIN_TXD_def)
qed

lemma sized_given:
  assumes "driver_sized s" and "stack_packet s skb"
  shows "given_ok s skb"
  using assms sized_count
  by (fastforce simp: given_ok_def stack_packet_def driver_sized_def split: option.splits)

text \<open>The sends of any such packets, and everything else that touches the ring.\<close>

inductive stack_step :: "tx_sys \<Rightarrow> tx_sys \<Rightarrow> bool" where
  Send: "stack_packet s skb \<Longrightarrow> run_state (e1000_xmit_frame skb) s = (Inr t, s') \<Longrightarrow>
     stack_step (s, acc) (s', if t = NETDEV_TX_OK then acc @ [skb_id skb] else acc)"
| Cleans: "run_state e1000_clean_tx_irq s = (Inr b, s') \<Longrightarrow> stack_step (s, acc) (s', acc)"
| Reports: "device_owns s i \<Longrightarrow> desc_lower (ring_desc (tx_ring s) ! i) AND E1000_TXD_CMD_RS \<noteq> 0 \<Longrightarrow>
     stack_step (s, acc) (mark_done i s, acc)"
| Empties: "run_state e1000_clean_tx_ring s = ((), s') \<Longrightarrow> stack_step (s, acc) (s', acc)"
| Others: "other_code s s' \<Longrightarrow> stack_step (s, acc) (s', acc)"

definition tx_start :: "net \<Rightarrow> bool" where
  "tx_start s \<longleftrightarrow> tx_inv (tx_ring s) [] \<and> driver_sized s \<and> freed (os_trace s) = [] \<and>
     txd_cmd (ad s) AND E1000_TXD_CMD_RS \<noteq> 0 \<and> take_bit 20 (txd_cmd (ad s)) = 0 \<and>
     tx_tail s = Some (of_nat (next_to_use (tx_ring s)))"

lemma start_reset: "tx_start s \<Longrightarrow> tx_reset s"
  using sized_stop by (auto simp: tx_start_def tx_reset_def adapter_ok_def driver_sized_def)

inductive_cases stack_stepE: "stack_step (s, acc) (s', acc')"

lemma driver_sized_same: "env_same s s' \<Longrightarrow> driver_sized s' = driver_sized s"
  by (simp add: env_same_def driver_sized_def)

lemma stack_step_sized:
  assumes "stack_step (s, acc) (s', acc')" and sized: "driver_sized s" and inv: "sys_inv s acc ps"
  shows "tx_step (s, acc) (s', acc') \<and> driver_sized s'"
proof -
  have old: "tx_inv (tx_ring s) ps" "adapter_ok s" using inv by (simp_all add: sys_inv_def)
  from assms(1) show ?thesis
  proof (rule stack_stepE, goal_cases)
    case (1 skb t)
    have ok: "given_ok s skb" by (rule sized_given [OF sized 1(2)])
    have "env_same s s'" using run_wp [OF wp_xmit_frame [OF old given_okD [OF ok]] 1(3)] by (simp add: xmit_post_def)
    then show ?case
      using 1 tx_step.Accept [OF ok] tx_step.Refuse [OF ok] driver_sized_same sized by (cases t) auto
  next
    case (2 b)
    then show ?case using run_wp [OF wp_clean_tx_irq [OF old(1)] 2(2)] tx_step.Clean driver_sized_same sized by blast
  next
    case (3 i)
    then show ?case using tx_step.Report sized by (simp add: driver_sized_def mark_done_def)
  next
    case 4
    then show ?case using run_wp [OF wp_clean_tx_ring [OF old(1)] 4(2)] tx_step.Empty driver_sized_same sized by blast
  next
    case 5
    then show ?case using tx_step.Other sized by (simp add: driver_sized_def other_code_def)
  qed
qed

lemma stack_reach:
  assumes "stack_step\<^sup>*\<^sup>* (s0, []) x" and "tx_start s0"
  shows "tx_step\<^sup>*\<^sup>* (s0, []) x \<and> driver_sized (fst x)"
  using assms(1)
proof induction
  case base
  then show ?case using assms(2) by (simp add: tx_start_def)
next
  case (step x y)
  obtain s acc s' acc' where x: "x = (s, acc)" "y = (s', acc')" by fastforce
  obtain ps where "sys_inv s acc ps" using tx_reach_inv start_reset [OF assms(2)] step.IH x by blast
  then have "tx_step x y \<and> driver_sized s'" using stack_step_sized step.IH step.hyps(2) x by simp
  then show ?case using step.IH x by (auto intro: rtranclp.rtrancl_into_rtrancl)
qed

text \<open>
  C7: The data path always returns. In every state that a driver of these sizes can reach,
  \<open>e1000_xmit_frame\<close> with any packet of the stack runs into no \<open>BUG_ON\<close> and no endless loop, and
  neither does \<open>e1000_clean_tx_irq\<close>.
\<close>

theorem tx_returns:
  assumes "stack_step\<^sup>*\<^sup>* (s0, []) (s, acc)" and "tx_start s0" and "stack_packet s skb"
  shows "fst (run_state (e1000_xmit_frame skb) s) \<in> {Inr NETDEV_TX_OK, Inr NETDEV_TX_BUSY} \<and>
    fst (run_state e1000_clean_tx_irq s) = Inr True"
proof -
  have reach: "tx_step\<^sup>*\<^sup>* (s0, []) (s, acc)" "driver_sized s" using stack_reach [OF assms(1,2)] by simp_all
  obtain ps where inv: "sys_inv s acc ps" using tx_reach_inv [OF reach(1) start_reset [OF assms(2)]] .
  show ?thesis
    using step_xmit [OF inv sized_given [OF reach(2) assms(3)] surjective_pairing] step_clean(1) [OF inv surjective_pairing]
    by auto
qed

lemma sample_start: "tx_start sample_net"
  using sample_reset by (simp add: tx_start_def tx_reset_def adapter_ok_def driver_sized_def sample_fields E1000_MIN_TXD_def)

text \<open>A state with a packet in flight, and a packet in five fragments of a page.\<close>

definition frag_skb :: sk_buff where
  "frag_skb = sample_skb\<lparr>skb_id := 8, skb_len := 20534, skb_data_len := 20480, skb_frags := [4096, 4096, 4096, 4096, 4096]\<rparr>"

theorem tx_returns_witness:
  "\<exists>s. stack_step (sample_net, []) (s, [7]) \<and>
    fst (run_state (e1000_xmit_frame frag_skb) s) \<in> {Inr NETDEV_TX_OK, Inr NETDEV_TX_BUSY} \<and>
    fst (run_state e1000_clean_tx_irq s) = Inr True"
proof -
  obtain s where run: "run_state (e1000_xmit_frame sample_skb) sample_net = (Inr NETDEV_TX_OK, s)"
    using sample_sent_run by blast
  have "stack_packet sample_net sample_skb"
    by (simp add: stack_packet_def prepared_def tso_pull_def sample_fields skb_ok_def)
  from stack_step.Send [OF this run, of "[]"] have step: "stack_step (sample_net, []) (s, [7])" by (simp add: sample_fields)
  have "kernel_of s = sample_kernel"
    using run_wp [OF wp_xmit_frame [OF _ _ given_okD [OF sample_given]] run, of "[]"] sample_reset
    by (simp add: tx_reset_def xmit_post_def env_same_def sample_fields)
  then have "stack_packet s frag_skb"
    by (simp add: stack_packet_def prepared_def tso_pull_def sample_fields frag_skb_def skb_ok_def skb_headlen_def)
  note out = tx_returns [OF r_into_rtranclp [where r = stack_step, OF step] sample_start this]
  show ?thesis by (intro exI [of _ s] conjI step out [THEN conjunct1] out [THEN conjunct2])
qed

text \<open>
  With 1 KB for transmits the limit would be 928, and a packet that is sent on a ring of 64
  descriptors runs into the \<open>BUG_ON\<close> of the check that follows it.
\<close>

lemma small_fifo_bug:
  assumes "tx_fifo_limit (ad s) = 928" and "k_page_size (kernel_of s) = 4096" and "k_max_skb_frags (kernel_of s) = 17"
    and "ring_count (tx_ring s) = E1000_MIN_TXD"
  shows "fst (run_state (e1000_maybe_stop_tx (xmit_stop_size s)) s) = Inl Bug"
  using assms by (simp add: e1000_maybe_stop_tx_def xmit_stop_size_def DIV_ROUND_UP_def E1000_MIN_TXD_def)

lemma index_from:
  assumes "i < n" and "c < (n :: nat)"
  shows "(c + (i + n - c) mod n) mod n = i"
proof -
  have "(c + (i + n - c) mod n) mod n = (c + (i + n - c)) mod n" by (simp add: mod_simps)
  also have "c + (i + n - c) = i + n" using assms by simp
  finally show ?thesis using assms by simp
qed

lemma owned_iff:
  assumes inv: "tx_inv (tx_ring s) ps" and told: "told s ps t" and i: "i < ring_count (tx_ring s)"
  shows "device_owns s i \<longleftrightarrow> (i + ring_count (tx_ring s) - next_to_clean (tx_ring s)) mod ring_count (tx_ring s) < t"
proof
  let ?N = "ring_count (tx_ring s)" and ?c = "next_to_clean (tx_ring s)"
  note f = inv_facts [OF inv]
  assume "device_owns s i"
  then obtain j where j: "j < t" "i = (?c + j) mod ?N" "j < ?N" using owned_index [OF _ inv told] by metis
  moreover have "(?c + (i + ?N - ?c) mod ?N) mod ?N = (?c + j) mod ?N" using index_from [OF i f(3)] j(2) by simp
  then have "(i + ?N - ?c) mod ?N = j" using mod_add_cancel [of "(i + ?N - ?c) mod ?N" ?N j ?c] i j(3) by simp
  ultimately show "(i + ?N - ?c) mod ?N < t" by simp
next
  let ?N = "ring_count (tx_ring s)" and ?c = "next_to_clean (tx_ring s)"
  note f = inv_facts [OF inv]
  assume lt: "(i + ?N - ?c) mod ?N < t"
  have t: "t < ?N" "tx_tail s = Some (of_nat ((?c + t) mod ?N))" using told f(2) by (simp_all add: told_def Let_def)
  have "(?c + t) mod ?N < ?N" using t(1) by simp
  then have tail: "unat (of_nat ((?c + t) mod ?N) :: u32) = (?c + t) mod ?N"
    using f(5) by (simp add: unat_of_nat take_bit_nat_eq_self_iff)
  have "(?c + ((?c + t) mod ?N + ?N - ?c) mod ?N) mod ?N = (?c + t) mod ?N"
    using t(1) by (intro index_from [OF _ f(3)]) simp
  then have "((?c + t) mod ?N + ?N - ?c) mod ?N = t"
    using mod_add_cancel [of "((?c + t) mod ?N + ?N - ?c) mod ?N" ?N t ?c] t(1) i by simp
  then show "device_owns s i" using lt i t by (simp add: device_owns_def Let_def tail)
qed

text \<open>
  C6: The device stays in its part of the ring. In every reachable state, a descriptor that is
  marked done lies between \<open>next_to_clean\<close> and the tail, and every descriptor the device owns
  belongs to a packet in flight, never to a free slot.
\<close>

theorem tx_device_bounds:
  assumes "tx_step\<^sup>*\<^sup>* (s0, []) (s, acc)" and "tx_reset s0" and "i < ring_count (tx_ring s)"
  shows "(tx_done (tx_ring s) i \<longrightarrow> device_owns s i) \<and>
    (device_owns s i \<longrightarrow> (i + ring_count (tx_ring s) - next_to_clean (tx_ring s)) mod ring_count (tx_ring s) <
      ring_count (tx_ring s) - 1 - nat (e1000_desc_unused (tx_ring s)))"
proof -
  obtain ps where inv: "sys_inv s acc ps" using tx_reach_inv [OF assms(1,2)] .
  then obtain t where old: "tx_inv (tx_ring s) ps" "told s ps t" by (auto simp: sys_inv_def)
  let ?N = "ring_count (tx_ring s)" and ?c = "next_to_clean (tx_ring s)"
  let ?j = "(i + ?N - ?c) mod ?N"
  note f = inv_facts [OF old(1)]
  have j: "?j < ?N" using assms(3) by simp
  have v: "view (tx_ring s) ?c ! ?j = (buffer_info (tx_ring s) ! i, ring_desc (tx_ring s) ! i)"
    using view_nth [OF f(1) j, of ?c] index_from [OF assms(3) f(3)] by simp
  have fwd: "device_owns s i" if "tx_done (tx_ring s) i"
    using that old(2) v j by (simp add: owned_iff [OF old assms(3)] told_def Let_def slot_done_def tx_done_def)
  have "slots_of ps = ?N - 1 - nat (e1000_desc_unused (tx_ring s))"
    using f(2) by (simp add: unused_eq [OF old(1)] nat_diff_distrib)
  then have "?j < ?N - 1 - nat (e1000_desc_unused (tx_ring s))" if "device_owns s i"
    using that old(2) by (simp add: owned_iff [OF old assms(3)] told_def Let_def)
  with fwd show ?thesis by blast
qed

theorem tx_device_bounds_witness:
  "\<exists>s acc. tx_step\<^sup>*\<^sup>* (sample_net, []) (s, acc) \<and> tx_done (tx_ring s) 0 \<and> device_owns s 0 \<and> \<not> device_owns s 1"
proof -
  obtain s where reach: "tx_step\<^sup>*\<^sup>* (sample_net, []) (s, [7])" and s: "next_to_use (tx_ring s) = 1"
    "next_to_clean (tx_ring s) = 0" "ring_count (tx_ring s) = 64" "tx_done (tx_ring s) 0"
    using sample_reported by blast
  note bounds = tx_device_bounds [OF reach sample_reset]
  have "device_owns s 0" using bounds [of 0] s by simp
  moreover have "\<not> device_owns s 1" using bounds [of 1] s by (simp add: e1000_desc_unused_def)
  ultimately show ?thesis using reach s(4) by blast
qed

lemma all_done:
  assumes "packets_at n i ps ss" and "\<forall>j < slots_of ps. reports (ss ! j) \<longrightarrow> slot_done (ss ! j)"
  shows "done_packets ps ss = List.length ps"
  using assms
proof (induction ps arbitrary: i ss)
  case (Cons p ps)
  let ?n = "fst p"
  have p: "packet_slots n i p (take ?n ss)" and rest: "packets_at n ((i + ?n) mod n) ps (drop ?n ss)"
    using Cons.prems by simp_all
  have len: "?n \<le> List.length ss" "0 < ?n"
    using p packet_slots_pos [OF p] by (auto simp: packet_slots_def min_def split: if_splits)
  have here: "last (take ?n ss) = ss ! (?n - 1)" using len by (subst last_conv_nth) auto
  moreover have "reports (last (take ?n ss))" using p by (simp add: packet_slots_def)
  ultimately have "slot_done (last (take ?n ss))" using Cons.prems(2) len by simp
  moreover have "\<forall>j < slots_of ps. reports (drop ?n ss ! j) \<longrightarrow> slot_done (drop ?n ss ! j)"
    using Cons.prems(2) len by simp
  ultimately show ?case using Cons.IH [OF rest] by simp
qed simp

text \<open>
  C8: The ring drains. When the device has been told about every descriptor and has reported
  every one that asks for it, one run of \<open>e1000_clean_tx_irq\<close> leaves no packet in flight: all
  accepted packets are freed, all slots are free, and if a packet was cleaned while the link is up
  on a ring of more than \<open>TX_WAKE_THRESHOLD\<close> descriptors, the queue runs.
\<close>

theorem tx_drains:
  assumes "tx_step\<^sup>*\<^sup>* (s0, []) (s, acc)" and "tx_reset s0"
    and "tx_tail s = Some (of_nat (next_to_use (tx_ring s)))"
    and "\<And>i. device_owns s i \<Longrightarrow> desc_lower (ring_desc (tx_ring s) ! i) AND E1000_TXD_CMD_RS \<noteq> 0 \<Longrightarrow> tx_done (tx_ring s) i"
    and "run_state e1000_clean_tx_irq s = (r, s')"
  shows "mset (freed (os_trace s')) = mset acc \<and> e1000_desc_unused (tx_ring s') = int (ring_count (tx_ring s')) - 1 \<and>
    (freed (os_trace s') \<noteq> freed (os_trace s) \<and> carrier_ok s \<and> \<not> down s \<and>
      TX_WAKE_THRESHOLD < ring_count (tx_ring s) \<longrightarrow> \<not> queue_stopped s')"
proof -
  obtain ps where inv: "sys_inv s acc ps" using tx_reach_inv [OF assms(1,2)] .
  then obtain t where old: "tx_inv (tx_ring s) ps" "told s ps t" by (auto simp: sys_inv_def)
  let ?N = "ring_count (tx_ring s)" and ?c = "next_to_clean (tx_ring s)"
  let ?v = "view (tx_ring s) ?c"
  note f = inv_facts [OF old(1)]
  have eq: "(of_nat ((?c + slots_of ps) mod ?N) :: u32) = of_nat ((?c + t) mod ?N)"
    using assms(3) old(2) f(4) by (simp add: told_def Let_def)
  have tN: "t < ?N" "t \<le> slots_of ps" using old(2) f(2) by (simp_all add: told_def Let_def)
  have small: "unat (of_nat (x mod ?N) :: u32) = x mod ?N" for x
  proof -
    have "x mod ?N < 2 ^ 16" using f(5) tN(1) mod_less_divisor [of ?N x] by linarith
    then show ?thesis by (simp add: unat_of_nat take_bit_nat_eq_self_iff)
  qed
  have t: "t = slots_of ps"
    using arg_cong [OF eq, of unat] mod_add_cancel [OF f(2) tN(1)] by (simp add: small)
  have "slot_done (?v ! j)" if "j < slots_of ps" "reports (?v ! j)" for j
  proof -
    have j: "j < ?N" using that(1) f(2) by simp
    define i where "i = (?c + j) mod ?N"
    have i: "i < ?N" using j by (simp add: i_def)
    have v: "?v ! j = (buffer_info (tx_ring s) ! i, ring_desc (tx_ring s) ! i)"
      using view_nth [OF f(1) j, of ?c] by (simp add: i_def)
    have "(?c + (i + ?N - ?c) mod ?N) mod ?N = (?c + j) mod ?N" using index_from [OF i f(3)] by (simp add: i_def)
    then have "(i + ?N - ?c) mod ?N = j" using mod_add_cancel [of "(i + ?N - ?c) mod ?N" ?N j ?c] i j by simp
    then have "device_owns s i" using that(1) t by (simp add: owned_iff [OF old i])
    then show ?thesis using assms(4) [of i] that(2) v by (simp add: reports_def slot_done_def tx_done_def)
  qed
  then have k: "done_packets ps ?v = List.length ps" using all_done [OF f(6)] by simp
  have post: "tx_inv (tx_ring s') (drop (List.length ps) ps) \<and>
      freed (os_trace s') = freed (os_trace s) @ map (skb_id \<circ> snd) (take (List.length ps) ps) \<and>
      ring_count (tx_ring s') = ?N \<and>
      queue_stopped s' = (queue_stopped s \<and> \<not> (List.length ps \<noteq> 0 \<and> carrier_ok s \<and> \<not> down s \<and>
        e1000_desc_unused (tx_ring s') \<ge> int TX_WAKE_THRESHOLD))"
    using run_wp [OF wp_clean_tx_irq [OF old(1)] assms(5)] unfolding k by (simp add: env_same_def)
  have "sys_inv s' acc (drop (List.length ps) ps)" using step_clean(2) [OF inv assms(5)] unfolding k .
  then have m: "mset (freed (os_trace s')) = mset acc" by (simp add: sys_inv_def)
  have u: "e1000_desc_unused (tx_ring s') = int (ring_count (tx_ring s')) - 1"
    using post unused_eq [of "tx_ring s'" "[]"] by simp
  have "\<not> queue_stopped s'" if "freed (os_trace s') \<noteq> freed (os_trace s)" "carrier_ok s" "\<not> down s"
    "TX_WAKE_THRESHOLD < ?N"
    using that post u by auto
  with m u show ?thesis by blast
qed

text \<open>The packet that was sent and reported is freed.\<close>

theorem tx_drains_witness:
  "\<exists>s s'. tx_step\<^sup>*\<^sup>* (sample_net, []) (s, [7]) \<and> freed (os_trace s) = [] \<and>
    run_state e1000_clean_tx_irq s = (Inr True, s') \<and> freed (os_trace s') = [7] \<and>
    e1000_desc_unused (tx_ring s') = int (ring_count (tx_ring s')) - 1"
proof -
  obtain s where reach: "tx_step\<^sup>*\<^sup>* (sample_net, []) (s, [7])" and s: "freed (os_trace s) = []" "tx_tail s = Some 1"
    "next_to_use (tx_ring s) = 1" "next_to_clean (tx_ring s) = 0" "ring_count (tx_ring s) = 64" "tx_done (tx_ring s) 0"
    using sample_reported by blast
  obtain r s' where run: "run_state e1000_clean_tx_irq s = (r, s')" by fastforce
  obtain ps where "sys_inv s [7] ps" by (rule tx_reach_inv [OF reach sample_reset])
  from step_clean(1) [OF this run] have "r = Inr True" .
  moreover have "i = 0" if "device_owns s i" for i using that by (auto simp: device_owns_def s Let_def split: if_splits)
  then have "mset (freed (os_trace s')) = mset [7] \<and> e1000_desc_unused (tx_ring s') = int (ring_count (tx_ring s')) - 1"
    using tx_drains [OF reach sample_reset _ _ run] s by auto
  then have "freed (os_trace s') = [7]" "e1000_desc_unused (tx_ring s') = int (ring_count (tx_ring s')) - 1" by simp_all
  ultimately show ?thesis using reach s(1) run by blast
qed

section \<open>The mapping loops\<close>

lemma wp_run_state: "(\<And>Q. wp m Q s = wp m' (\<lambda>a. Q (f a)) s) \<Longrightarrow> run_state m s = map_prod f id (run_state m' s)"
proof -
  assume eq: "\<And>Q. wp m Q s = wp m' (\<lambda>a. Q (f a)) s"
  obtain a t where r: "run_state m s = (a, t)" by fastforce
  then have "wp m (\<lambda>x y. (x, y) = (a, t)) s" by (simp add: wp_def)
  then have "wp m' (\<lambda>x y. (f x, y) = (a, t)) s" unfolding eq .
  then show ?thesis using r by (cases "run_state m' s") (simp add: wp_def)
qed

text \<open>
  C14: The two mapping loops of \<open>e1000_tx_map\<close>, one that advances after it has mapped a piece
  of the linear part and one that advances before it maps a piece of a fragment, are one loop over
  the list of chunks of the packet, each chunk in the slot after the one before; they end for every
  limit but 0.
\<close>

theorem tx_map_loops:
  assumes "0 < limit" and "skb_headlen skb \<noteq> 0"
    and "next_to_use (tx_ring s) = ring_next (ring_count (tx_ring s)) p"
  shows "run_state (do {
      r \<leftarrow> map_head (skb_headlen skb) limit (next_to_use (tx_ring s)) 0 (skb_headlen skb) 0;
      case r of Inr (Mapped i cnt) \<Rightarrow> map_frags limit 0 (skb_frags skb) i cnt | _ \<Rightarrow> return r }) s =
    map_prod Inr id (run_state (map_all (chunks limit skb) p 0) s)"
proof (rule wp_run_state)
  fix Q :: "halt + mapping \<Rightarrow> net \<Rightarrow> bool"
  show "wp (do {
      r \<leftarrow> map_head (skb_headlen skb) limit (next_to_use (tx_ring s)) 0 (skb_headlen skb) 0;
      case r of Inr (Mapped i cnt) \<Rightarrow> map_frags limit 0 (skb_frags skb) i cnt | _ \<Rightarrow> return r }) Q s =
    wp (map_all (chunks limit skb) p 0) (\<lambda>m. Q (Inr m)) s"
    unfolding wp_bind chunks_def wp_map_all_append map_head_chunks [OF assms(1) order_refl assms(2,3)]
    by (intro wp_cong) (auto simp: wp map_frags_chunks [OF assms(1)] split: mapping.split)
qed

theorem tx_map_loops_witness:
  "run_state (do {
      r \<leftarrow> map_head 60 32 0 0 60 0;
      case r of Inr (Mapped i cnt) \<Rightarrow> map_frags 32 0 [] i cnt | _ \<Rightarrow> return r }) sample_net =
    map_prod Inr id (run_state (map_all [(Head 0, 32), (Head 32, 28)] 63 0) sample_net)"
proof -
  have c: "chunks 32 sample_skb = [(Head 0, 32), (Head 32, 28)]"
    by (simp add: chunks_def head_chunks_def pieces.simps sample_skb_def skb_headlen_def)
  have k: "skb_headlen sample_skb = 60" "skb_frags sample_skb = []"
    by (simp_all add: sample_skb_def skb_headlen_def)
  have u: "next_to_use (tx_ring sample_net) = 0" "ring_next (ring_count (tx_ring sample_net)) 63 = 0"
    by (simp_all add: sample_net_def ring_next_def)
  show ?thesis using tx_map_loops [of 32 sample_skb sample_net 63, unfolded c k u] by simp
qed

section \<open>What an error of the mapping leaves behind\<close>

text \<open>The mappings a history made, and those it took back.\<close>

fun good_maps :: "kernel \<Rightarrow> os_event list \<Rightarrow> nat" where
  "good_maps K [] = 0"
| "good_maps K (DmaMap _ _ a # t) = (if k_dma_error K a then 0 else 1) + good_maps K t"
| "good_maps K (_ # t) = good_maps K t"

fun unmaps :: "os_event list \<Rightarrow> nat" where
  "unmaps [] = 0"
| "unmaps (DmaUnmapSingle _ _ # t) = 1 + unmaps t"
| "unmaps (DmaUnmapPage _ _ # t) = 1 + unmaps t"
| "unmaps (_ # t) = unmaps t"

lemma maps_append [simp]:
  "good_maps K (a @ b) = good_maps K a + good_maps K b" "unmaps (a @ b) = unmaps a + unmaps b"
  by (induction a rule: good_maps.induct) (simp, simp, simp_all)


lemma unmaps_put: "unmaps (put_events b) \<le> 1"
  by (auto simp: put_events_def split: option.split)

lemma maps_put_all:
  "unmaps (concat (map (put_events \<circ> fst) ss)) \<le> List.length ss" "good_maps K (concat (map (put_events \<circ> fst) ss)) = 0"
proof (induction ss)
  case (Cons x ss)
  have "good_maps K (put_events (fst x)) = 0" by (auto simp: put_events_def split: option.split)
  with Cons [unfolded comp_def] unmaps_put [of "fst x"]
  show "unmaps (concat (map (put_events \<circ> fst) (x # ss))) \<le> List.length (x # ss)"
    "good_maps K (concat (map (put_events \<circ> fst) (x # ss))) = 0" by (simp_all add: comp_def)
qed simp_all

lemma maps_log:
  "good_maps K (map_log xs) = List.length (filter (\<lambda>x. \<not> k_dma_error K (snd x)) xs)" "unmaps (map_log xs) = 0"
  by (induction xs) (auto simp: map_log_def split: prod.splits)

text \<open>
  C15: An error of the mapping leaks. When a chunk of a packet cannot be mapped, \<open>e1000_tx_map\<close>
  returns 0 and takes mappings back, but never all of them: if any chunk was mapped before the
  error, fewer mappings are taken back than were made.
\<close>

theorem tx_map_error_leaks:
  assumes "ring_wf (tx_ring s)" and "0 < limit" and "skb_headlen skb \<noteq> 0"
    and "List.length (chunks limit skb) < ring_count (tx_ring s)"
    and "\<And>b. b \<in> set (buffer_info (tx_ring s)) \<Longrightarrow> buf_skb b = None"
    and "run_state (e1000_tx_map skb (next_to_use (tx_ring s)) limit) s = (Inr 0, s')"
  obtains evs where "os_trace s' = evs @ os_trace s" and "freed evs = []"
    and "0 < good_maps (kernel_of s) evs \<Longrightarrow> unmaps evs < good_maps (kernel_of s) evs"
proof -
  let ?b = "next_to_use (tx_ring s)"
  have b: "?b < ring_count (tx_ring s)" using assms(1) by (simp add: ring_wf_simps)
  have none: "\<forall>x \<in> set (take (List.length (chunks limit skb)) (drop 0 (view (tx_ring s) ?b))). buf_skb (fst x) = None"
    using assms(5) by (auto simp: view_def dest!: in_set_takeD set_zip_leftD)
  have ne: "chunks limit skb \<noteq> []" using chunks_nonempty [OF assms(2,3)] .
  have u: "?b = (?b + 0) mod ring_count (tx_ring s)" using b by simp
  have room: "0 + List.length (chunks limit skb) < ring_count (tx_ring s)" using assms(4) by simp
  obtain r evs where evs: "os_trace s' = evs @ os_trace s" "freed evs = []"
    and fail: "place_failed s ?b 0 (chunks limit skb) evs r"
    using run_wp [OF wp_tx_map_view [OF assms(1) b u room assms(2,3) none] assms(6)] ne by auto
  obtain xs ms j where j: "List.length xs = Suc j" "\<forall>x \<in> set (butlast xs). \<not> k_dma_error (kernel_of s) (snd x)"
    "k_dma_error (kernel_of s) (snd (last xs))"
    and e: "evs = concat (map (put_events \<circ> fst) (taken_back j ms)) @ map_log xs"
    using fail unfolding place_failed_def by auto
  have "xs = butlast xs @ [last xs]" using j(1) by (metis append_butlast_last_id length_0_conv nat.distinct(1))
  then have "filter (\<lambda>x. \<not> k_dma_error (kernel_of s) (snd x)) xs = butlast xs"
    using j(2,3) by (metis (no_types, lifting) append_Nil2 filter.simps filter_True filter_append)
  then have good: "good_maps (kernel_of s) evs = j" using j(1) by (simp add: e maps_log maps_put_all)
  have "unmaps evs \<le> List.length (taken_back j ms)" using maps_put_all(1) [of "taken_back j ms"] by (simp add: e maps_log)
  also have "\<dots> \<le> j - 1" by (simp add: taken_back_def)
  finally show ?thesis using that [OF evs] good by simp
qed

text \<open>A packet of a linear part and two fragments, the second of which cannot be mapped.\<close>

definition leak_net :: net where
  "leak_net = sample_net\<lparr>kernel_of := sample_kernel\<lparr>k_dma_map :=
     (\<lambda>t src n. case src of Frag (Suc _) _ \<Rightarrow> 0 | _ \<Rightarrow> 0x10000)\<rparr>\<rparr>"

definition leak_skb :: sk_buff where
  "leak_skb = sample_skb\<lparr>skb_len := 1060, skb_data_len := 1000, skb_frags := [500, 500]\<rparr>"

theorem tx_map_error_leaks_witness:
  "\<exists>s' evs. run_state (e1000_tx_map leak_skb 0 24000) leak_net = (Inr 0, s') \<and> os_trace s' = evs @ os_trace leak_net \<and>
     unmaps evs < good_maps (kernel_of leak_net) evs"
proof -
  have c: "chunks 24000 leak_skb = [(Head 0, 60), (Frag 0 0, 500), (Frag 1 0, 500)]" "skb_headlen leak_skb \<noteq> 0"
    by (simp_all add: leak_skb_def sample_skb_def skb_headlen_def chunks_def head_chunks_def frag_chunks_def pieces.simps)
  have k: "kernel_of leak_net = sample_kernel\<lparr>k_dma_map := (\<lambda>t src n. case src of Frag (Suc _) _ \<Rightarrow> 0 | _ \<Rightarrow> 0x10000)\<rparr>"
    "os_trace leak_net = []" "next_to_use (tx_ring leak_net) = ring_next (ring_count (tx_ring leak_net)) 63"
    by (simp_all add: leak_net_def sample_net_def ring_next_def)
  have err: "k_dma_error sample_kernel a \<longleftrightarrow> a = 0" for a by (simp add: sample_kernel_def)
  have "wp (e1000_tx_map leak_skb 0 24000) (\<lambda>r t. r = Inr 0 \<and> 0 < good_maps (kernel_of leak_net) (os_trace t)) leak_net"
    unfolding wp_tx_map [OF _ c(2) k(3), of 24000, simplified] c(1) map_all.simps wp
    by (simp add: wp_map_chunk wp net_wp Let_def k(1,2) err put_events_def)
  then have "fst (run_state (e1000_tx_map leak_skb 0 24000) leak_net) = Inr 0 \<and>
      0 < good_maps (kernel_of leak_net) (os_trace (snd (run_state (e1000_tx_map leak_skb 0 24000) leak_net)))"
    by (simp add: wp_def)
  then obtain s' where run: "run_state (e1000_tx_map leak_skb 0 24000) leak_net = (Inr 0, s')"
    and good: "0 < good_maps (kernel_of leak_net) (os_trace s')"
    by (metis prod.collapse)
  have start: "ring_wf (tx_ring leak_net)" "next_to_use (tx_ring leak_net) = 0" "os_trace leak_net = []"
    "ring_count (tx_ring leak_net) = 64" "\<And>b. b \<in> set (buffer_info (tx_ring leak_net)) \<Longrightarrow> buf_skb b = None"
    by (auto simp: leak_net_def sample_net_def ring_wf_def empty_buffer_def)
  have skb: "skb_headlen leak_skb \<noteq> 0" "List.length (chunks 24000 leak_skb) < 64"
    by (simp_all add: leak_skb_def sample_skb_def skb_headlen_def chunks_def head_chunks_def frag_chunks_def pieces.simps)
  show ?thesis
  proof (rule tx_map_error_leaks [OF start(1) _ skb(1) _ start(5), of 24000 s'])
    fix evs assume "os_trace s' = evs @ os_trace leak_net" "0 < good_maps (kernel_of leak_net) evs \<Longrightarrow> unmaps evs < good_maps (kernel_of leak_net) evs"
    then show ?thesis using run good start(3) by auto
  qed (use start skb run in simp_all)
qed

end
