(* ===== verification/Rx_System.thy ===== *)
theory Rx_System
  imports Rx_Queue Tx_System
begin

text \<open>
  The receive ring as a system: the device fills buffers between the head and the tail register and
  reports them, polls clean and refill the ring, the interface is emptied and filled again, and
  other code changes what is not the ring. What the stack gets are the packets that fit one buffer;
  the device never has a buffer that is not mapped; no buffer is lost or used twice.
\<close>

unbundle bit_operations_syntax

section \<open>Packets of a list of slots\<close>

text \<open>
  The descriptors of a packet end with the one that has the end-of-packet bit; the last group may
  be a packet that has not ended.
\<close>

fun rx_split :: "rx_slot list \<Rightarrow> rx_slot list list" where
  "rx_split [] = []"
| "rx_split (x # xs) =
     (if rx_eop (snd x) then [x] # rx_split xs
      else (case rx_split xs of [] \<Rightarrow> [[x]] | g # gs \<Rightarrow> (x # g) # gs))"

definition rx_single :: "rx_config \<Rightarrow> rx_slot list \<Rightarrow> bool" where
  "rx_single c g \<longleftrightarrow> (\<exists>x. g = [x] \<and> rx_eop (snd x) \<and> \<not> rx_bad_frame c (snd x))"

definition rx_whole :: "rx_config \<Rightarrow> rx_slot list list \<Rightarrow> rx_frame list" where
  "rx_whole c gs = map (\<lambda>g. rx_frame_at c (hd g)) (filter (rx_single c) gs)"

text \<open>A packet whose beginning was dropped is dropped to its end.\<close>

lemma rx_spec_whole:
  "rx_spec c disc xs = rx_whole c (if disc then tl (rx_split xs) else rx_split xs)"
proof (induction xs arbitrary: disc)
  case (Cons x xs)
  show ?case
  proof (cases "rx_eop (snd x)")
    case True
    then show ?thesis by (simp add: Cons rx_passes_def rx_whole_def rx_single_def)
  next
    case False
    then show ?thesis by (cases "rx_split xs") (auto simp: Cons rx_passes_def rx_whole_def rx_single_def)
  qed
qed (simp add: rx_whole_def)

lemma rx_split_concat: "concat (rx_split xs) = xs"
  by (induction xs) (auto split: list.splits)

section \<open>The invariant of the ring\<close>

definition rx_inv :: "nic \<Rightarrow> rx_slot list \<Rightarrow> bool" where
  "rx_inv s xs \<longleftrightarrow> rx_kernel_ok s \<and> (\<forall>x \<in> set xs. rx_done (snd x) \<longrightarrow> rx_fits (rxc s) (snd x)) \<and>
     rx_next_to_use (rxr s) = (rx_next_to_clean (rxr s) + List.length xs) mod rx_count (rxr s) \<and>
     (\<exists>t. rx_at (rx_next_to_clean (rxr s)) xs t s)"

lemma rx_desc_unused_eq:
  assumes "rx_next_to_use r = (rx_next_to_clean r + k) mod rx_count r"
    and "rx_next_to_clean r < rx_count r" and "k < rx_count r"
  shows "rx_desc_unused r = int (rx_count r - 1 - k)"
proof (cases "rx_next_to_clean r + k < rx_count r")
  case True
  then show ?thesis using assms by (simp add: rx_desc_unused_def)
next
  case False
  then have "rx_next_to_use r = rx_next_to_clean r + k - rx_count r"
    using assms by (simp add: mod_if)
  then show ?thesis using assms False by (auto simp: rx_desc_unused_def)
qed

text \<open>A change of the rest of the interface that leaves the tail register alone.\<close>

lemma rx_inv_keep:
  assumes "rx_inv s xs" and s': "rxr s' = rxr s" "rx_trace s' = rx_trace s" "rx_env s' = rx_env s" "rx_tail s' = rx_tail s"
  shows "rx_inv s' xs"
  using assms(1) rx_at_keep [OF _ s'] rx_kernel_ok_env [OF s'(3)] rx_env_fields(1) [OF s'(3)]
  by (auto simp: rx_inv_def s'(1))

lemma wp_bind_mono:
  assumes "wp m P s" and "\<And>a s'. P a s' \<Longrightarrow> wp (f a) Q s'"
  shows "wp (m \<bind> f) Q s"
  unfolding wp by (rule wp_mono [OF assms])

lemma wp_check_ltr_demote:
  "wp (e1000e_check_ltr_demote b) (\<lambda>_ s'. rxr s' = rxr s \<and> rx_trace s' = rx_trace s \<and> rx_env s' = rx_env s \<and>
     rx_tail s' = rx_tail s \<and> is_discarding (rxa s') = is_discarding (rxa s) \<and> rx_failures s' = rx_failures s \<and>
     total_rx_bytes (rxa s') = total_rx_bytes (rxa s) \<and> total_rx_packets (rxa s') = total_rx_packets (rxa s)) s"
  by (simp add: e1000e_check_ltr_demote_def e1000_demote_ltr_def wp net_wp Let_def rx_env_def rx_tail_def
      rx_failures_def rdt_regs)

section \<open>Cleaning the ring\<close>

text \<open>
  What a poll with budget \<open>w\<close> makes of a ring with the full slots \<open>xs\<close>: the result,
  and the full slots afterwards.
\<close>

definition rx_polled :: "nat \<Rightarrow> nic \<Rightarrow> rx_slot list \<Rightarrow> halt + bool \<times> nat \<Rightarrow> nic \<Rightarrow> rx_slot list \<Rightarrow> bool" where
  "rx_polled w s xs r s' xs' \<longleftrightarrow> (let zs = done_prefix w xs; k = List.length zs in
     r = Inr (zs \<noteq> [], k) \<and> rx_env s' = rx_env s \<and> rx_count (rxr s') = rx_count (rxr s) \<and>
     collect frame_of (rx_trace s') =
       rev (rx_whole (rxc s) (if is_discarding (rxa s) then tl (rx_split zs) else rx_split zs)) @ collect frame_of (rx_trace s) \<and>
     is_discarding (rxa s') = rx_disc_after (is_discarding (rxa s)) zs \<and>
     take (List.length xs - k) xs' = drop k xs \<and> (\<forall>y \<in> set (drop (List.length xs - k) xs'). \<not> rx_done (snd y)) \<and>
     (rx_never_fails s \<longrightarrow> List.length xs' = rx_count (rxr s) - 1))"

text \<open>The ring with as many buffers given out as it can hold.\<close>

definition rx_filled :: "rx_slot list \<Rightarrow> nic \<Rightarrow> nic \<Rightarrow> bool" where
  "rx_filled xs s s' \<longleftrightarrow> rx_quiet s s' \<and> (\<exists>ys. rx_inv s' (xs @ ys) \<and> (\<forall>y \<in> set ys. \<not> rx_done (snd y)) \<and>
     (rx_never_fails s \<longrightarrow> List.length (xs @ ys) = rx_count (rxr s) - 1))"

lemma wp_fill_up:
  assumes inv: "rx_inv s xs"
  shows "wp (e1000_alloc_rx_buffers (nat (rx_desc_unused (rxr s)))) (\<lambda>_. rx_filled xs s) s"
proof -
  let ?n = "rx_count (rxr s)" and ?c = "rx_next_to_clean (rxr s)"
  obtain t where at: "rx_at ?c xs t s" and ker: "rx_kernel_ok s" and use: "rx_next_to_use (rxr s) = (?c + List.length xs) mod ?n"
    and fits: "\<forall>x \<in> set xs. rx_done (snd x) \<longrightarrow> rx_fits (rxc s) (snd x)"
    using inv by (auto simp: rx_inv_def)
  note D = rx_atD [OF at]
  have un: "nat (rx_desc_unused (rxr s)) = ?n - 1 - List.length xs"
    by (simp only: rx_desc_unused_eq [OF use D(2,3)] nat_int)
  have room: "List.length xs + (?n - 1 - List.length xs) < ?n" using D(3) by simp
  show ?thesis
    unfolding un
  proof (rule wp_mono [OF wp_alloc_rx_buffers [OF at ker room use]], elim conjE exE, goal_cases)
    case (1 u s1 ys)
    have env: "rx_env s1 = rx_env s" "rxc s1 = rxc s" "rx_count (rxr s1) = ?n" "rx_next_to_clean (rxr s1) = ?c"
      using 1(1) by (simp_all add: rx_quiet_def rx_env_def)
    have "rx_inv s1 (xs @ ys)"
      using 1 fits ker rx_kernel_ok_env [OF env(1)] by (auto simp: rx_inv_def env rx_more_def)
    moreover have "List.length (xs @ ys) = ?n - 1" if "rx_never_fails s"
      using 1(2) that D(3) by (auto simp: rx_more_def split: if_splits)
    ultimately show ?case using 1 by (auto simp: rx_filled_def rx_more_def intro!: exI [of _ ys])
  qed
qed

lemma wp_rx_refill: "rx_inv s xs \<Longrightarrow> wp rx_refill (\<lambda>_. rx_filled xs s) s"
  using wp_fill_up by (simp add: rx_refill_def wp)

lemma rx_filled_full:
  assumes inv: "rx_inv s xs" and "rx_desc_unused (rxr s) = 0"
  shows "rx_filled xs s s"
proof -
  obtain t where at: "rx_at (rx_next_to_clean (rxr s)) xs t s"
    and use: "rx_next_to_use (rxr s) = (rx_next_to_clean (rxr s) + List.length xs) mod rx_count (rxr s)"
    using inv by (auto simp: rx_inv_def)
  have "List.length xs = rx_count (rxr s) - 1"
    using rx_desc_unused_eq [OF use rx_atD(2,3) [OF at]] assms(2) rx_atD(3) [OF at] by simp
  then show ?thesis using inv by (auto simp: rx_filled_def rx_quiet_refl intro!: exI [of _ "[]"])
qed

lemma wp_refill_some:
  assumes inv: "rx_inv s xs"
  shows "wp (do { s \<leftarrow> get; if rx_desc_unused (rxr s) \<noteq> 0 then e1000_alloc_rx_buffers (nat (rx_desc_unused (rxr s))) else return () })
     (\<lambda>_. rx_filled xs s) s"
  using wp_fill_up [OF inv] rx_filled_full [OF inv] by (cases "rx_desc_unused (rxr s) = 0") (simp_all add: wp)

lemma wp_clean_rx_irq:
  assumes inv: "rx_inv s xs"
  shows "wp (e1000_clean_rx_irq w) (\<lambda>r s'. \<exists>xs'. rx_polled w s xs r s' xs' \<and> rx_inv s' xs') s"
proof -
  let ?c = "rx_next_to_clean (rxr s)" and ?n = "rx_count (rxr s)"
  obtain t where at: "rx_at ?c xs t s" and ker: "rx_kernel_ok s" and use: "rx_next_to_use (rxr s) = (?c + List.length xs) mod ?n"
    and fits: "\<forall>x \<in> set xs. rx_done (snd x) \<longrightarrow> rx_fits (rxc s) (snd x)"
    using inv by (auto simp: rx_inv_def)
  define zs where "zs = done_prefix w xs"
  define l0 where "l0 = \<lparr>rl_i = ?c, rl_cleaned_count = 0, rl_cleaned = False, rl_bytes = 0, rl_packets = 0, rl_work = 0\<rparr>"
  have l0: "List.length xs + rl_cleaned_count l0 < ?n" "rl_i l0 = ?c" using rx_atD(3) [OF at] by (simp_all add: l0_def)
  have after: "wp (do {
         set_rxr (\<lambda>r. r\<lparr>rx_next_to_clean := u16_of (rl_i l)\<rparr>);
         s \<leftarrow> get;
         (if rx_desc_unused (rxr s) \<noteq> 0 then e1000_alloc_rx_buffers (nat (rx_desc_unused (rxr s))) else return ());
         e1000e_check_ltr_demote (rl_bytes l);
         set_rxa (\<lambda>a. a\<lparr>total_rx_bytes := total_rx_bytes a + rl_bytes l,
           total_rx_packets := total_rx_packets a + rl_packets l\<rparr>);
         return (Inr (rl_cleaned l, rl_work l)) }) (\<lambda>r s'. \<exists>xs'. rx_polled w s xs r s' xs' \<and> rx_inv s' xs') s1"
    if cl: "rx_cleaned ?c xs zs l0 s l s1" for l s1
  proof -
    define c1 where "c1 = (?c + List.length zs) mod ?n"
    define rest where "rest = drop (List.length zs) xs"
    obtain ys t1 where at1: "rx_at c1 (rest @ ys) t1 s1" and nd: "\<forall>y \<in> set ys. \<not> rx_done (snd y)"
      and use1: "rx_next_to_use (rxr s1) = (c1 + List.length (rest @ ys)) mod ?n"
      using cl unfolding rx_cleaned_def Let_def c1_def rest_def by blast
    have s1: "rx_env s1 = rx_env s" "rx_count (rxr s1) = ?n" "rl_i l = c1" "rl_work l = List.length zs" "rl_cleaned l = (zs \<noteq> [])"
      "is_discarding (rxa s1) = rx_disc_after (is_discarding (rxa s)) zs"
      "collect frame_of (rx_trace s1) = rev (rx_spec (rxc s) (is_discarding (rxa s)) zs) @ collect frame_of (rx_trace s)"
      "rxc s1 = rxc s"
      using cl by (simp_all add: rx_cleaned_def Let_def c1_def l0_def rx_env_def)
    have c1: "u16_of c1 = c1" using rx_wf_simps(4) [OF rx_atD(1) [OF at1]] rx_atD(2) [OF at1] by simp
    define s2 where "s2 = s1\<lparr>rxr := (rxr s1)\<lparr>rx_next_to_clean := c1\<rparr>\<rparr>"
    have at2: "rx_at c1 (rest @ ys) t1 s2" using at1 by (simp add: s2_def rx_at_indices)
    have env2: "rx_env s2 = rx_env s" using s1(1) by (simp add: s2_def rx_env_def)
    have ker2: "rx_kernel_ok s2" using ker rx_kernel_ok_env [OF env2] by simp
    have "x \<in> set xs" if "x \<in> set rest" for x using that by (auto simp: rest_def dest: in_set_dropD)
    then have fits2: "\<forall>x \<in> set (rest @ ys). rx_done (snd x) \<longrightarrow> rx_fits (rxc s2) (snd x)"
      using fits nd s1(8) by (auto simp: s2_def)
    have ind2: "rx_next_to_clean (rxr s2) = c1" "rx_next_to_use (rxr s2) = (c1 + List.length (rest @ ys)) mod rx_count (rxr s2)"
      using use1 s1(2) by (simp_all add: s2_def)
    have len: "List.length rest = List.length xs - List.length zs" by (simp add: rest_def)
    have inv2: "rx_inv s2 (rest @ ys)"
      using ker2 fits2 ind2 at2 by (auto simp: rx_inv_def)
    have polled: "rx_polled w s xs (Inr (rl_cleaned l, rl_work l)) s' ((rest @ ys) @ us)"
      if "rx_quiet s2 s'" "\<forall>y \<in> set us. \<not> rx_done (snd y)"
        "rx_never_fails s2 \<longrightarrow> List.length ((rest @ ys) @ us) = rx_count (rxr s2) - 1" for s' us
      using that nd s1 rx_never_fails_env [OF env2] env2 len
      unfolding rx_polled_def Let_def zs_def [symmetric] rx_quiet_def rx_spec_whole [symmetric]
      by (auto simp: s2_def rest_def)
    have fin: "wp (do {
         e1000e_check_ltr_demote (rl_bytes l);
         set_rxa (\<lambda>a. a\<lparr>total_rx_bytes := total_rx_bytes a + rl_bytes l,
           total_rx_packets := total_rx_packets a + rl_packets l\<rparr>);
         return (Inr (rl_cleaned l, rl_work l)) }) (\<lambda>r s'. \<exists>xs'. rx_polled w s xs r s' xs' \<and> rx_inv s' xs') s3"
      if s3: "rx_inv s3 ((rest @ ys) @ us)" "rx_quiet s2 s3" "\<forall>y \<in> set us. \<not> rx_done (snd y)"
        "rx_never_fails s2 \<longrightarrow> List.length ((rest @ ys) @ us) = rx_count (rxr s2) - 1" for s3 us
      unfolding wp net_wp
    proof (rule wp_mono [OF wp_check_ltr_demote], elim conjE, goal_cases)
      case (1 u s4)
      let ?s = "s4\<lparr>rxa := (rxa s4)\<lparr>total_rx_bytes := total_rx_bytes (rxa s4) + rl_bytes l,
           total_rx_packets := total_rx_packets (rxa s4) + rl_packets l\<rparr>\<rparr>"
      have "rx_inv ?s ((rest @ ys) @ us)"
        by (rule rx_inv_keep [OF s3(1)]) (use 1 in \<open>simp_all add: rx_env_def rx_tail_def\<close>)
      moreover have "rx_quiet s2 ?s" using s3(2) 1 by (simp add: rx_quiet_def rx_env_def)
      ultimately show ?case using polled [OF _ s3(3,4)] by blast
    qed
    have "wp (do {
         (do { s \<leftarrow> get; if rx_desc_unused (rxr s) \<noteq> 0 then e1000_alloc_rx_buffers (nat (rx_desc_unused (rxr s))) else return () });
         e1000e_check_ltr_demote (rl_bytes l);
         set_rxa (\<lambda>a. a\<lparr>total_rx_bytes := total_rx_bytes a + rl_bytes l,
           total_rx_packets := total_rx_packets a + rl_packets l\<rparr>);
         return (Inr (rl_cleaned l, rl_work l)) }) (\<lambda>r s'. \<exists>xs'. rx_polled w s xs r s' xs' \<and> rx_inv s' xs') s2"
      by (rule wp_bind_mono [OF wp_refill_some [OF inv2]], unfold rx_filled_def, elim exE conjE, rule fin)
    then show ?thesis by (simp add: wp net_wp c1 s1(3) s2_def)
  qed
  show ?thesis
    unfolding e1000_clean_rx_irq_def wp l0_def [symmetric]
  proof (rule wp_mono [OF wp_clean_rx_loop [OF at ker fits l0 use]], elim exE conjE, goal_cases)
    case (1 r s1 l)
    then show ?case using after [of l s1] by (simp only: sum.case zs_def wp)
  qed
qed

section \<open>Emptying the ring\<close>

definition empty_rx_buffer :: rx_buffer where
  "empty_rx_buffer = \<lparr>rxb_skb = None, rxb_dma = 0\<rparr>"

definition drop_events :: "rx_buffer \<Rightarrow> rx_event list" where
  "drop_events b = map RxFree (held b) @ (if rxb_dma b \<noteq> 0 then [RxUnmap (rxb_dma b)] else [])"

lemma wp_free_rx_slots:
  assumes "i + n = List.length (rx_info (rxr s))"
  shows "wp (free_rx_slots i n) (\<lambda>_ s'. s' = s\<lparr>rxr := (rxr s)\<lparr>rx_info := take i (rx_info (rxr s)) @ replicate n empty_rx_buffer\<rparr>,
      rx_trace := concat (map drop_events (rev (drop i (rx_info (rxr s))))) @ rx_trace s\<rparr>) s"
  using assms
proof (induction n arbitrary: i s)
  case 0
  then show ?case by (simp add: wp)
next
  case (Suc n)
  let ?bs = "rx_info (rxr s)" and ?b = "rx_info (rxr s) ! i"
  define s1 where "s1 = s\<lparr>rx_trace := drop_events ?b @ rx_trace s, rxr := (rxr s)\<lparr>rx_info := ?bs[i := empty_rx_buffer]\<rparr>\<rparr>"
  have i: "i < List.length ?bs" using Suc.prems by simp
  have d: "drop i ?bs = ?b # drop (Suc i) ?bs" "take (Suc i) (?bs[i := empty_rx_buffer]) = take i ?bs @ [empty_rx_buffer]"
    using i by (simp_all add: Cons_nth_drop_Suc take_Suc_update)
  have "Suc i + n = List.length (rx_info (rxr s1))" using Suc.prems by (simp add: s1_def)
  from Suc.IH [OF this]
  have "wp (free_rx_slots (Suc i) n) (\<lambda>_ s'. s' = s\<lparr>rxr := (rxr s)\<lparr>rx_info := take i ?bs @ replicate (Suc n) empty_rx_buffer\<rparr>,
      rx_trace := concat (map drop_events (rev (drop i ?bs))) @ rx_trace s\<rparr>) s1"
    by (rule wp_mono) (simp add: s1_def d)
  moreover have "?b\<lparr>rxb_dma := 0, rxb_skb := None\<rparr> = empty_rx_buffer"
    "rxb_dma ?b = 0 \<Longrightarrow> ?b\<lparr>rxb_skb := None\<rparr> = empty_rx_buffer"
    "rxb_skb ?b = None \<Longrightarrow> ?b\<lparr>rxb_dma := 0\<rparr> = empty_rx_buffer"
    "rxb_skb ?b = None \<Longrightarrow> rxb_dma ?b = 0 \<Longrightarrow> ?bs[i := empty_rx_buffer] = ?bs"
    using list_update_id [of ?bs i] by (cases ?b; simp add: empty_rx_buffer_def)+
  moreover have "drop_events ?b = (case rxb_skb ?b of Some skb \<Rightarrow> [RxFree skb] | None \<Rightarrow> []) @
      (if rxb_dma ?b \<noteq> 0 then [RxUnmap (rxb_dma ?b)] else [])"
    by (simp add: drop_events_def held_def split: option.split)
  ultimately show ?case
    using i by (cases "rxb_skb ?b"; cases "rxb_dma ?b = 0")
      (simp_all add: wp net_wp s1_def nth_list_update)
qed

lemma mset_rotate: "mset (rotate n xs) = mset xs"
proof -
  have "mset (drop k xs @ take k xs) = mset (take k xs @ drop k xs)" for k by (simp only: mset_append union_commute)
  then show ?thesis by (simp add: rotate_drop_take)
qed

lemma mset_concat_image: "mset (concat xs) = sum_mset (image_mset mset (mset xs))"
  by (induction xs) simp_all

lemma mset_concat_cong: "mset xs = mset ys \<Longrightarrow> mset (concat xs) = mset (concat ys)"
  by (simp only: mset_concat_image)

lemma mset_concat_rev: "mset (concat (rev xs)) = mset (concat xs)"
  by (rule mset_concat_cong) simp

lemma collect_concat: "collect g (concat xs) = concat (map (collect g) xs)"
  by (induction xs) simp_all

lemma collect_drop_events:
  "collect alloc_of (drop_events b) = []" "collect handed_of (drop_events b) = []" "collect frame_of (drop_events b) = []"
  "collect freed_of (drop_events b) = held b" "collect (mapped_of err) (drop_events b) = []"
  "collect (unmapped_of err) (drop_events b) = (if rxb_dma b \<noteq> 0 \<and> \<not> err (rxb_dma b) then [rxb_dma b] else [])"
  by (simp_all add: drop_events_def held_def split: option.splits)

lemma fresh_names_append: "fresh_names t \<Longrightarrow> collect alloc_of es = [] \<Longrightarrow> fresh_names (es @ t)"
  by (induction es) auto

text \<open>The events of emptying the ring: every buffer is freed, every mapping is taken back.\<close>

lemma empty_ring_books:
  assumes at: "rx_at c xs t s"
  defines "es \<equiv> concat (map drop_events (rev (rx_info (rxr s))))"
  shows "mset (collect freed_of es) = ring_skbs (rxr s)"
    "mset (collect (unmapped_of (k_dma_error (kernel_of (net_of s)))) es) = mset (map (rxb_dma \<circ> fst) xs)"
    "collect alloc_of es = []" "collect handed_of es = []" "collect frame_of es = []"
    "collect (mapped_of err) es = []"
proof -
  note D = rx_atD [OF at]
  let ?err = "k_dma_error (kernel_of (net_of s))" and ?v = "rx_view (rxr s) c"
  define h where "h b = (if rxb_dma b \<noteq> 0 \<and> \<not> ?err (rxb_dma b) then [rxb_dma b] else [])" for b :: rx_buffer
  show "collect alloc_of es = []" "collect handed_of es = []" "collect frame_of es = []"
    "collect (mapped_of err) es = []"
    by (simp_all add: es_def collect_concat collect_drop_events comp_def)
  show "mset (collect freed_of es) = ring_skbs (rxr s)"
    using mset_concat_rev [of "map held (rx_info (rxr s))"]
    by (simp add: es_def collect_concat collect_drop_events comp_def ring_skbs_def rev_map)
  have "collect (unmapped_of ?err) (drop_events b) = h b" for b by (simp add: collect_drop_events h_def)
  then have "mset (collect (unmapped_of ?err) es) = mset (concat (map h (rx_info (rxr s))))"
    using mset_concat_rev [of "map h (rx_info (rxr s))"]
    by (simp add: es_def collect_concat comp_def rev_map)
  also have "\<dots> = mset (concat (map (h \<circ> fst) ?v))"
  proof -
    have "mset (map fst ?v) = mset (rx_info (rxr s))"
      using rx_wf_simps(2,3) [OF D(1)] by (simp add: rx_view_def rotate_map [symmetric] mset_rotate)
    then have "mset (map (h \<circ> fst) ?v) = mset (map h (rx_info (rxr s)))" by (simp only: mset_map map_map [symmetric])
    then show ?thesis by (rule mset_concat_cong [symmetric])
  qed
  also have "concat (map (h \<circ> fst) ?v) = concat (map (h \<circ> fst) xs) @ concat (map (h \<circ> fst) (drop (List.length xs) ?v))"
    using D(4) by (metis append_take_drop_id concat_append map_append)
  also have "concat (map (h \<circ> fst) (drop (List.length xs) ?v)) = []"
    using D(6) by (auto simp: h_def slot_wait_def)
  also have "concat (map (h \<circ> fst) ys) = map (rxb_dma \<circ> fst) ys" if "set ys \<subseteq> set xs" for ys
    using that D(5) by (induction ys) (auto simp: h_def slot_full_def)
  finally show "mset (collect (unmapped_of ?err) es) = mset (map (rxb_dma \<circ> fst) xs)" by simp
qed

lemma wp_clean_rx_ring:
  assumes inv: "rx_inv s xs"
  shows "wp e1000_clean_rx_ring (\<lambda>_ s'. rx_inv s' [] \<and> ring_skbs (rxr s') = {#} \<and> rx_env s' = rx_env s \<and>
     rx_count (rxr s') = rx_count (rxr s) \<and> \<not> is_discarding (rxa s') \<and>
     collect frame_of (rx_trace s') = collect frame_of (rx_trace s)) s"
proof -
  let ?n = "rx_count (rxr s)"
  obtain t where at: "rx_at (rx_next_to_clean (rxr s)) xs t s" and ker: "rx_kernel_ok s"
    using inv by (auto simp: rx_inv_def)
  note D = rx_atD [OF at] and B = empty_ring_books [OF at]
  define es where "es = concat (map drop_events (rev (rx_info (rxr s))))"
  note B = B [folded es_def]
  define r where "r = (rxr s)\<lparr>rx_info := replicate ?n empty_rx_buffer, rx_descs := map (\<lambda>_. empty_rx_desc) (rx_descs (rxr s)),
    rx_next_to_clean := 0, rx_next_to_use := 0\<rparr>"
  have descs: "map (\<lambda>_. empty_rx_desc) (rx_descs (rxr s)) = replicate ?n empty_rx_desc"
    using rx_wf_simps(3) [OF D(1)] by (simp add: map_replicate_const)
  have wf: "rx_wf r" "rx_count r = ?n" using D(1) by (simp_all add: r_def rx_wf_def)
  have view: "rx_view r 0 = replicate ?n (empty_rx_buffer, empty_rx_desc)"
    by (simp add: rx_view_def r_def descs zip_replicate)
  have skbs: "ring_skbs r = {#}"
    by (simp add: ring_skbs_def r_def held_def empty_rx_buffer_def)
  have final: "rx_inv s' [] \<and> ring_skbs (rxr s') = {#}"
    if s': "rxr s' = r" "rx_trace s' = es @ rx_trace s" "rx_env s' = rx_env s" "rx_tail s' = Some 0" for s'
  proof -
    have "skb_books s'"
      using D(10) B(1,3,4) fresh_names_append [of "rx_trace s" es]
      by (simp add: skb_books_def s' skbs ac_simps)
    moreover have "map_books s' []"
      using D(11) B(2,6) by (simp add: map_books_def Let_def s'(2) rx_env_fields [OF s'(3)] ac_simps)
    ultimately have "rx_at 0 [] 0 s'"
      using wf rx_wf_simps(1) [OF wf(1)]
      by (auto simp: rx_at_def rx_lag_def Let_def s'(1,4) view slot_wait_def rx_done_def empty_rx_desc_def empty_rx_buffer_def)
    then show ?thesis using ker rx_kernel_ok_env [OF s'(3)] by (auto simp: rx_inv_def s'(1) skbs) (auto simp: r_def)
  qed
  have len: "0 + ?n = List.length (rx_info (rxr s))" using rx_wf_simps(2) [OF D(1)] by simp
  show ?thesis
    unfolding e1000_clean_rx_ring_def wp net_wp
  proof (rule wp_mono [OF wp_free_rx_slots [OF len]], goal_cases)
    case (1 u s1)
    show ?case
    proof (rule wp_mono [OF wp_write_rx_tail], elim exE conjE, goal_cases)
      case (1 v s2 t2)
      have s2: "rxr s2 = r" "rx_trace s2 = es @ rx_trace s" "rx_env s2 = rx_env s" "rx_tail s2 = Some 0" "\<not> is_discarding (rxa s2)"
        using 1 \<open>s1 = _\<close> by (simp_all add: r_def es_def rx_env_def)
      then show ?case using final [OF s2(1-4)] B(5) by (simp add: wf)
    qed
  qed
qed

section \<open>The device\<close>

text \<open>
  The device owns the slots from \<open>next_to_clean\<close> up to the tail register that it has not
  reported yet. It writes one back with any flags, length and tag that fit the buffer.
\<close>

definition rx_owns :: "nic \<Rightarrow> nat \<Rightarrow> bool" where
  "rx_owns s i \<longleftrightarrow> (let n = rx_count (rxr s); c = rx_next_to_clean (rxr s) in
     i < n \<and> \<not> rx_done (rx_descs (rxr s) ! i) \<and>
     (case rx_tail s of Some tail \<Rightarrow> (i + n - c) mod n < (unat tail + n - c) mod n | None \<Rightarrow> False))"

definition write_back :: "nat \<Rightarrow> rx_desc \<Rightarrow> nic \<Rightarrow> nic" where
  "write_back i d s = s\<lparr>rxr := (rxr s)\<lparr>rx_descs := (rx_descs (rxr s))[i := d]\<rparr>\<rparr>"

definition rx_other_code :: "nic \<Rightarrow> nic \<Rightarrow> bool" where
  "rx_other_code s s' \<longleftrightarrow> rxr s' = rxr s \<and> rx_trace s' = rx_trace s \<and> rx_env s' = rx_env s \<and> rx_tail s' = rx_tail s"

inductive rx_step :: "nic \<Rightarrow> nic \<Rightarrow> bool" where
  Poll: "run_state (e1000_clean_rx_irq w) s = (r, s') \<Longrightarrow> rx_step s s'"
| Fill: "run_state rx_refill s = (u, s') \<Longrightarrow> rx_step s s'"
| Clear: "run_state e1000_clean_rx_ring s = (u, s') \<Longrightarrow> rx_step s s'"
| Receive: "rx_owns s i \<Longrightarrow> rx_done d \<Longrightarrow> rx_fits (rxc s) d \<Longrightarrow> rx_step s (write_back i d s)"
| Else: "rx_other_code s s' \<Longrightarrow> rx_step s s'"

inductive_cases rx_stepE: "rx_step s s'"

lemma cyclic_offset:
  assumes "c < (n :: nat)" and "x < n"
  shows "((c + x) mod n + n - c) mod n = x"
proof -
  have "(c + x) mod n + n - c = (c + x) mod n + (n - c)" using assms by simp
  then have "((c + x) mod n + n - c) mod n = (c + x + (n - c)) mod n" by (simp add: mod_simps)
  also have "c + x + (n - c) = x + n" using assms by simp
  finally show ?thesis using assms by simp
qed

lemma rx_tail_offset:
  assumes at: "rx_at (rx_next_to_clean (rxr s)) xs t s"
  defines "n \<equiv> rx_count (rxr s)" and "c \<equiv> rx_next_to_clean (rxr s)"
  shows "(unat (of_nat ((c + t) mod n) :: u32) + n - c) mod n = t"
proof -
  note D = rx_atD [OF at]
  have t: "t < n" using D(3,7) by (simp add: n_def)
  have "(c + t) mod n < 2 ^ 32"
    using D(1) order_less_trans [OF mod_less_divisor [of n "c + t"], of "2 ^ 32"] by (simp add: rx_wf_def n_def)
  then have tail: "unat (of_nat ((c + t) mod n) :: u32) = (c + t) mod n"
    by (simp add: unat_of_nat take_bit_nat_eq_self_iff)
  show ?thesis unfolding tail using cyclic_offset [OF D(2)] t by (simp add: n_def c_def)
qed

lemma rx_owned_slot:
  assumes owns: "rx_owns s i" and at: "rx_at (rx_next_to_clean (rxr s)) xs t s"
  obtains j where "j < t" "j < List.length xs" "i = (rx_next_to_clean (rxr s) + j) mod rx_count (rxr s)"
    "xs ! j = (rx_info (rxr s) ! i, rx_descs (rxr s) ! i)" "\<not> rx_done (snd (xs ! j))"
proof -
  let ?n = "rx_count (rxr s)" and ?c = "rx_next_to_clean (rxr s)"
  note D = rx_atD [OF at]
  define j where "j = (i + ?n - ?c) mod ?n"
  have own: "i < ?n" "j < t" "\<not> rx_done (rx_descs (rxr s) ! i)"
    using owns rx_tail_offset [OF at] by (simp_all add: rx_owns_def D(9) Let_def j_def)
  have "(?c + j) mod ?n = (?c + (i + ?n - ?c)) mod ?n" by (simp add: j_def mod_simps)
  also have "?c + (i + ?n - ?c) = i + ?n" using D(2) by simp
  finally have i: "i = (?c + j) mod ?n" using own(1) by simp
  have jk: "j < List.length xs" using own(2) D(7) by simp
  have "xs ! j = take (List.length xs) (rx_view (rxr s) ?c) ! j" using D(4) by simp
  also have "\<dots> = (rx_info (rxr s) ! i, rx_descs (rxr s) ! i)"
    using rx_view_nth [OF D(1), of j ?c] jk D(3) i by simp
  finally show ?thesis using that own jk i by simp
qed

lemma write_back_inv:
  assumes inv: "rx_inv s xs" and owns: "rx_owns s i" and d: "rx_done d" "rx_fits (rxc s) d"
  shows "\<exists>xs'. rx_inv (write_back i d s) xs'"
proof -
  let ?n = "rx_count (rxr s)" and ?c = "rx_next_to_clean (rxr s)"
  obtain t where at: "rx_at ?c xs t s" and ker: "rx_kernel_ok s" and use: "rx_next_to_use (rxr s) = (?c + List.length xs) mod ?n"
    and fits: "\<forall>x \<in> set xs. rx_done (snd x) \<longrightarrow> rx_fits (rxc s) (snd x)"
    using inv by (auto simp: rx_inv_def)
  note D = rx_atD [OF at]
  obtain j where j: "j < t" "j < List.length xs" "i = (?c + j) mod ?n" "xs ! j = (rx_info (rxr s) ! i, rx_descs (rxr s) ! i)"
    using rx_owned_slot [OF owns at] by metis
  let ?x = "(fst (xs ! j), d)" and ?s = "write_back i d s"
  have r: "rxr ?s = (rxr s)\<lparr>rx_info := (rx_info (rxr s))[i := rx_info (rxr s) ! i], rx_descs := (rx_descs (rxr s))[i := d]\<rparr>"
    by (simp add: write_back_def)
  have view: "rx_view (rxr ?s) ?c = (rx_view (rxr s) ?c)[j := ?x]"
    using rx_view_put [OF D(1), of j i ?c, where b = "rx_info (rxr s) ! i" and d = d] j D(3) unfolding r by simp
  have wf: "rx_wf (rxr ?s)" "rx_count (rxr ?s) = ?n" using D(1) by (simp_all add: write_back_def rx_wf_def)
  have env: "rx_env ?s = rx_env s" "rx_tail ?s = rx_tail s" "rx_next_to_clean (rxr ?s) = ?c"
    "rx_next_to_use (rxr ?s) = rx_next_to_use (rxr s)" "rxc ?s = rxc s"
    by (simp_all add: write_back_def rx_env_def rx_tail_def)
  have full: "slot_full err y" if "\<forall>x \<in> set xs. slot_full err x" "y \<in> set (xs[j := ?x])" for err y
    using that(1) set_update_subset_insert [of xs j ?x] that(2) nth_mem [OF j(2)] d(1)
    by (auto simp: slot_full_def)
  have "rx_done (snd (xs[j := ?x] ! m)) \<Longrightarrow> m < t" if "m < List.length xs" for m
    using that j(1,2) D(8) [of m] by (cases "m = j") auto
  moreover have "map (rxb_dma \<circ> fst) (xs[j := ?x]) = map (rxb_dma \<circ> fst) xs"
    by (simp add: map_update list_update_id [of _ j, symmetric] nth_map j(2))
      (metis comp_def fst_conv j(2) list_update_id map_update)
  moreover have "skb_books ?s" "rx_trace ?s = rx_trace s"
    using D(10) by (simp_all add: skb_books_def write_back_def ring_skbs_def)
  ultimately have "rx_at ?c (xs[j := ?x]) t ?s"
    using D(2,3,4,6,7,9,11,12) j(2) wf full D(5)
    unfolding rx_at_def Let_def view env(2) wf(2) rx_env_fields [OF env(1)] map_books_def
    by (auto simp: take_update_swap)
  moreover have "\<forall>x \<in> set (xs[j := ?x]). rx_done (snd x) \<longrightarrow> rx_fits (rxc s) (snd x)"
    using fits d(2) set_update_subset_insert [of xs j ?x] by auto
  ultimately have "rx_inv ?s (xs[j := ?x])"
    using use ker rx_kernel_ok_env [OF env(1)] by (auto simp: rx_inv_def env wf(2))
  then show ?thesis ..
qed

section \<open>Reachable states\<close>

definition rx_reset :: "nic \<Rightarrow> bool" where
  "rx_reset s \<longleftrightarrow> rx_wf (rxr s) \<and> rx_next_to_use (rxr s) = 0 \<and> rx_next_to_clean (rxr s) = 0 \<and>
     (\<forall>b \<in> set (rx_info (rxr s)). b = empty_rx_buffer) \<and> (\<forall>d \<in> set (rx_descs (rxr s)). \<not> rx_done d) \<and>
     rx_trace s = [] \<and> rx_tail s = Some 0 \<and> rx_kernel_ok s"

lemma rx_reset_inv:
  assumes "rx_reset s"
  shows "rx_inv s []"
proof -
  have wf: "rx_wf (rxr s)" using assms by (simp add: rx_reset_def)
  have "slot_wait err x" if "x \<in> set (rx_view (rxr s) 0)" for err x
  proof -
    have "(fst x, snd x) \<in> set (zip (rx_info (rxr s)) (rx_descs (rxr s)))" using that by (simp add: rx_view_def)
    then have "fst x \<in> set (rx_info (rxr s))" "snd x \<in> set (rx_descs (rxr s))"
      by (blast dest: set_zip_leftD set_zip_rightD)+
    then have "fst x = empty_rx_buffer" "\<not> rx_done (snd x)" using assms by (simp_all add: rx_reset_def)
    then show ?thesis by (simp add: slot_wait_def empty_rx_buffer_def)
  qed
  moreover have "held empty_rx_buffer = []" by (simp add: held_def empty_rx_buffer_def)
  then have "ring_skbs (rxr s) = {#}" using assms by (auto simp: ring_skbs_def rx_reset_def)
  ultimately have "rx_at 0 [] 0 s"
    using assms rx_wf_simps(1) [OF wf]
    by (simp add: rx_at_def rx_reset_def rx_lag_def skb_books_def map_books_def Let_def)
  then show ?thesis using assms by (auto simp: rx_inv_def rx_reset_def)
qed

lemma rx_step_inv:
  assumes "rx_step s s'" and "\<exists>xs. rx_inv s xs"
  shows "\<exists>xs. rx_inv s' xs"
  using assms
proof (elim rx_stepE exE, goal_cases)
  case (1 xs w r)
  with run_wp [OF wp_clean_rx_irq] show ?case by blast
next
  case (2 xs)
  from run_wp [OF wp_rx_refill [OF 2(2)] 2(1)] show ?case by (auto simp: rx_filled_def)
next
  case (3 xs)
  from run_wp [OF wp_clean_rx_ring [OF 3(2)] 3(1)] show ?case by blast
next
  case (4 xs i d)
  then show ?case using write_back_inv by blast
next
  case (5 xs)
  then show ?case using rx_inv_keep unfolding rx_other_code_def by blast
qed

text \<open>The receive ring is a transition system; the invariant is that of a queue of buffers.\<close>

interpretation rx: transition_system rx_reset rx_step "\<lambda>s. \<exists>xs. rx_inv s xs"
  by unfold_locales (auto intro: rx_reset_inv rx_step_inv)

lemma rx_reach_inv:
  assumes "rx_step\<^sup>*\<^sup>* s0 s" and "rx_reset s0"
  obtains xs where "rx_inv s xs"
  using rx.inv_reach [OF assms(2,1)] by blast

section \<open>How far the tail register lags\<close>

lemma rx_lag_bound:
  assumes "rx_lag n c t k" and "E1000_RX_BUFFER_WRITE dvd n"
  shows "k \<le> t + E1000_RX_BUFFER_WRITE"
proof (rule ccontr)
  assume "\<not> k \<le> t + E1000_RX_BUFFER_WRITE"
  define j where "j = t + 16 - (c + t) mod 16"
  have m: "(c + t) mod 16 < 16" by simp
  have j: "t < j" "j < k" using \<open>\<not> k \<le> _\<close> m unfolding j_def by linarith+
  have "c + j = (c + t) - (c + t) mod 16 + 16" using m mod_less_eq_dividend [of "c + t" 16] unfolding j_def by linarith
  then have "(c + j) mod 16 = 0" by (metis minus_mod_eq_mult_div mod_add_self2 mod_mult_self1_is_0)
  then have "(c + j) mod n mod 16 = 0" using assms(2) by (simp add: mod_mod_cancel)
  then show False using assms(1) j by (auto simp: rx_lag_def)
qed

text \<open>The slots the device has been told about and has not reported are its own.\<close>

lemma rx_told_owned:
  assumes at: "rx_at (rx_next_to_clean (rxr s)) xs t s" and j: "j < t" "\<not> rx_done (snd (xs ! j))"
  shows "rx_owns s ((rx_next_to_clean (rxr s) + j) mod rx_count (rxr s))"
proof -
  let ?n = "rx_count (rxr s)" and ?c = "rx_next_to_clean (rxr s)"
  note D = rx_atD [OF at]
  have t: "t < ?n" "j < ?n" "j < List.length xs" using D(3,7) j(1) by simp_all
  have "xs ! j = take (List.length xs) (rx_view (rxr s) ?c) ! j" using D(4) by simp
  then have "\<not> rx_done (rx_descs (rxr s) ! ((?c + j) mod ?n))"
    using j(2) rx_view_nth [OF D(1) t(2), of ?c] t(3) by simp
  then show ?thesis
    using rx_tail_offset [OF at] cyclic_offset [OF D(2) t(2)] j(1) t by (simp add: rx_owns_def Let_def D(9))
qed

lemma rx_full_told:
  assumes "rx_inv s xs" and "List.length xs = rx_count (rxr s) - 1" and "E1000_RX_BUFFER_WRITE dvd rx_count (rxr s)"
  obtains t where "rx_at (rx_next_to_clean (rxr s)) xs t s" "rx_count (rxr s) \<le> t + 17"
proof -
  obtain t where at: "rx_at (rx_next_to_clean (rxr s)) xs t s" using assms(1) by (auto simp: rx_inv_def)
  then show ?thesis using that rx_lag_bound [OF rx_atD(12) [OF at] assms(3)] assms(2) by force
qed

section \<open>A concrete interface\<close>

definition sample_rx_kernel :: rx_kernel where
  "sample_rx_kernel = \<lparr>k_rx_alloc = (\<lambda>t sz. True), k_rx_map = (\<lambda>t skb. 0x10000), k_rx_room = (\<lambda>sz. sz),
     k_cyc2time = (\<lambda>t w. w)\<rparr>"

definition sample_rx_config :: rx_config where
  "sample_rx_config = \<lparr>rx_buffer_len = 1522, crc_stripping = True, feat_rxall = False, feat_rxfcs = False,
     feat_rxcsum = True, feat_rxhash = False, copybreak = 0, c10_pba_bytes = 0x6000, pci_device_id = 0x15B8,
     ltr_of = \<lparr>lat_enc = 0, max_ltr_enc = 0\<rparr>\<rparr>"

definition sample_rx_adapter :: rx_adapter where
  "sample_rx_adapter = \<lparr>is_discarding = False, check_rx_hwtstamp = False, hw_csum_err = 0, hw_csum_good = 0,
     alloc_rx_buff_failed = 0, rx_dma_failed = 0, total_rx_bytes = 0, total_rx_packets = 0, c10_mpc_count = 0,
     c10_rx_bytes = 0, c10_demote_ltr = False\<rparr>"

definition sample_nic :: nic where
  "sample_nic = \<lparr>net_of = sample_net\<lparr>adapter_hw := log_event (WriteL (E1000_RDT 0) 0) (adapter_hw sample_net)\<rparr>,
     rxr = \<lparr>rx_descs = replicate 32 empty_rx_desc, rx_count = 32, rx_next_to_use = 0, rx_next_to_clean = 0,
       rx_info = replicate 32 empty_rx_buffer\<rparr>,
     rxc = sample_rx_config, rxa = sample_rx_adapter, rx_kernel_of = sample_rx_kernel, rx_trace = []\<rparr>"

lemma sample_nic_kernel: "rx_kernel_ok sample_nic" "rx_never_fails sample_nic"
  by (simp_all add: rx_kernel_ok_def rx_never_fails_def sample_nic_def sample_rx_kernel_def sample_net_def sample_kernel_def)

lemma sample_nic_reset: "rx_reset sample_nic"
  using sample_nic_kernel(1)
  by (simp add: rx_reset_def rx_tail_def) (simp add: sample_nic_def rx_wf_def rx_done_def empty_rx_desc_def)

text \<open>A ring with one buffer that the device has filled with a packet of 60 bytes.\<close>

definition filled_desc :: rx_desc where
  "filled_desc = \<lparr>rxd_addr = 0, rxd_staterr = 0x23, rxd_len = 60, rxd_vlan = 0\<rparr>"

definition filled_slot :: rx_slot where
  "filled_slot = (\<lparr>rxb_skb = Some 0, rxb_dma = 0x10000\<rparr>, filled_desc)"

definition filled_nic :: nic where
  "filled_nic = sample_nic\<lparr>net_of := sample_net\<lparr>adapter_hw := log_event (WriteL (E1000_RDT 0) 1) (adapter_hw sample_net)\<rparr>,
     rxr := \<lparr>rx_descs = filled_desc # replicate 31 empty_rx_desc, rx_count = 32, rx_next_to_use = 1, rx_next_to_clean = 0,
       rx_info = fst filled_slot # replicate 31 empty_rx_buffer\<rparr>,
     rx_trace := [RxMap 0 0x10000, RxAlloc 0 1522]\<rparr>"

lemma filled_nic_inv: "rx_inv filled_nic [filled_slot]"
proof -
  have parts: "rxc filled_nic = sample_rx_config" "rx_kernel_of filled_nic = sample_rx_kernel"
    "kernel_of (net_of filled_nic) = sample_kernel" "rx_next_to_clean (rxr filled_nic) = 0"
    "rx_next_to_use (rxr filled_nic) = 1" "rx_count (rxr filled_nic) = 32"
    "rx_trace filled_nic = [RxMap 0 0x10000, RxAlloc 0 1522]"
    "rx_info (rxr filled_nic) = fst filled_slot # replicate 31 empty_rx_buffer"
    "rx_descs (rxr filled_nic) = filled_desc # replicate 31 empty_rx_desc"
    by (simp_all add: filled_nic_def sample_nic_def sample_net_def)
  have ker: "rx_kernel_ok filled_nic"
    by (simp add: rx_kernel_ok_def parts sample_rx_kernel_def sample_kernel_def)
  have fit: "rx_fits sample_rx_config filled_desc" by code_simp
  have view: "rx_view (rxr filled_nic) 0 = filled_slot # replicate 31 (empty_rx_buffer, empty_rx_desc)"
    by (simp add: rx_view_def parts zip_replicate filled_slot_def)
  have tail: "rx_tail filled_nic = Some 1" by (simp add: rx_tail_def filled_nic_def)
  have "slot_wait err (empty_rx_buffer, empty_rx_desc)" for err
    by (simp add: slot_wait_def rx_done_def empty_rx_desc_def empty_rx_buffer_def)
  moreover have "slot_full (k_dma_error sample_kernel) filled_slot" "rx_done (snd filled_slot)"
    by (simp_all add: slot_full_def filled_slot_def rx_done_def filled_desc_def sample_kernel_def)
  ultimately have "rx_at 0 [filled_slot] 1 filled_nic"
    by (simp add: rx_at_def Let_def parts view tail rx_wf_def rx_lag_def)
      (simp add: skb_books_def map_books_def Let_def parts ring_skbs_def held_def filled_slot_def empty_rx_buffer_def sample_kernel_def)
  then show ?thesis using ker fit by (auto simp: rx_inv_def parts filled_slot_def)
qed

section \<open>What the ring promises\<close>

text \<open>
  C9: Receiving. A poll with budget \<open>w\<close> takes the longest prefix of reported descriptors that
  the budget allows, \<open>zs\<close>, and hands up, in order, one frame for every packet that lies in one
  descriptor and has no error; of a packet in several descriptors nothing is handed up, also when
  its beginning was dropped by an earlier poll. It reports the number of descriptors taken, and the
  other full slots stay in front of those that were filled again.
\<close>

theorem clean_rx_refines:
  assumes "rx_inv s xs" and "run_state (e1000_clean_rx_irq w) s = (r, s')"
  defines "zs \<equiv> done_prefix w xs"
  shows "r = Inr (zs \<noteq> [], List.length zs) \<and>
     collect frame_of (rx_trace s') = rev (rx_whole (rxc s)
       (if is_discarding (rxa s) then tl (rx_split zs) else rx_split zs)) @ collect frame_of (rx_trace s) \<and>
     is_discarding (rxa s') = rx_disc_after (is_discarding (rxa s)) zs \<and>
     (\<exists>ys. rx_inv s' (drop (List.length zs) xs @ ys) \<and> (\<forall>y \<in> set ys. \<not> rx_done (snd y)))"
proof -
  obtain xs' where p: "rx_polled w s xs r s' xs'" "rx_inv s' xs'"
    using run_wp [OF wp_clean_rx_irq [OF assms(1)] assms(2)] by blast
  let ?m = "List.length xs - List.length zs"
  have "xs' = drop (List.length zs) xs @ drop ?m xs'"
    using p(1) unfolding rx_polled_def Let_def zs_def by (metis append_take_drop_id)
  then show ?thesis
    using p unfolding rx_polled_def Let_def zs_def [symmetric] by metis
qed

theorem clean_rx_refines_witness:
  "\<exists>r s'. run_state (e1000_clean_rx_irq 64) filled_nic = (r, s') \<and> r = Inr (True, 1) \<and>
     collect frame_of (rx_trace s') = [\<lparr>fr_from = 0, fr_len = 60, fr_csum_ok = True, fr_hash = None, fr_vlan = None\<rparr>]"
proof -
  obtain r s' where run: "run_state (e1000_clean_rx_irq 64) filled_nic = (r, s')" by fastforce
  have d: "rx_done (snd filled_slot)" "rx_eop (snd filled_slot)" by (simp_all add: rx_done_def rx_eop_def filled_slot_def filled_desc_def)
  have "done_prefix 64 [filled_slot] = [filled_slot]" using d(1) by (simp add: done_prefix_def)
  moreover have "rx_whole sample_rx_config [[filled_slot]] =
      [\<lparr>fr_from = 0, fr_len = 60, fr_csum_ok = True, fr_hash = None, fr_vlan = None\<rparr>]"
  proof -
    have "\<not> rx_bad_frame sample_rx_config filled_desc" by code_simp
    moreover have "rx_frame_at sample_rx_config filled_slot =
        \<lparr>fr_from = 0, fr_len = 60, fr_csum_ok = True, fr_hash = None, fr_vlan = None\<rparr>" by code_simp
    ultimately show ?thesis using d(2) by (simp add: rx_whole_def rx_single_def filled_slot_def)
  qed
  moreover have "rxc filled_nic = sample_rx_config" "\<not> is_discarding (rxa filled_nic)" "rx_trace filled_nic = [RxMap 0 0x10000, RxAlloc 0 1522]"
    by (simp_all add: filled_nic_def sample_nic_def sample_rx_adapter_def)
  ultimately show ?thesis using clean_rx_refines [OF filled_nic_inv run] run d(2) by simp
qed

text \<open>
  C10: In every reachable state of the receive ring every socket buffer the driver has allocated is
  in exactly one place, and there once: in a slot of the ring, with the stack, or freed.
\<close>

theorem rx_skbs_conserved:
  assumes "rx_step\<^sup>*\<^sup>* s0 s" and "rx_reset s0"
  shows "distinct (collect alloc_of (rx_trace s)) \<and>
    mset (collect alloc_of (rx_trace s)) =
      mset (concat (map held (rx_info (rxr s)))) + mset (collect handed_of (rx_trace s)) + mset (collect freed_of (rx_trace s))"
proof -
  obtain xs where "rx_inv s xs" using rx_reach_inv [OF assms] .
  then have "skb_books s" by (auto simp: rx_inv_def dest: rx_atD(10))
  then show ?thesis using fresh_names_distinct by (auto simp: skb_books_def ring_skbs_def)
qed

text \<open>
  C11: In every reachable state, for every slot that the device owns there is a buffer, the
  descriptor holds the bus address of that buffer, and this address is mapped: it was mapped more
  often than it was unmapped.
\<close>

theorem rx_device_mapped:
  assumes "rx_step\<^sup>*\<^sup>* s0 s" and "rx_reset s0" and "rx_owns s i"
  defines "err \<equiv> k_dma_error (kernel_of (net_of s))" and "a \<equiv> rxb_dma (rx_info (rxr s) ! i)"
  shows "rxb_skb (rx_info (rxr s) ! i) \<noteq> None \<and> rxd_addr (rx_descs (rxr s) ! i) = a \<and> \<not> err a \<and>
    count (mset (collect (unmapped_of err) (rx_trace s))) a < count (mset (collect (mapped_of err) (rx_trace s))) a"
proof -
  obtain xs where inv: "rx_inv s xs" using rx_reach_inv [OF assms(1,2)] .
  then obtain t where at: "rx_at (rx_next_to_clean (rxr s)) xs t s" by (auto simp: rx_inv_def)
  obtain j where j: "j < List.length xs" "xs ! j = (rx_info (rxr s) ! i, rx_descs (rxr s) ! i)" "\<not> rx_done (snd (xs ! j))"
    using rx_owned_slot [OF assms(3) at] by metis
  have full: "slot_full err (xs ! j)" using rx_atD(5) [OF at] j(1) by (simp add: err_def)
  have "a \<in> set (map (rxb_dma \<circ> fst) xs)" using nth_mem [OF j(1)] j(2) by (force simp: a_def)
  then have "0 < count (mset (map (rxb_dma \<circ> fst) xs)) a" by (simp only: count_greater_zero_iff set_mset_mset)
  moreover have "count (mset (collect (mapped_of err) (rx_trace s))) a =
      count (mset (collect (unmapped_of err) (rx_trace s))) a + count (mset (map (rxb_dma \<circ> fst) xs)) a"
    using rx_atD(11) [OF at] by (simp add: map_books_def Let_def err_def)
  ultimately show ?thesis using full j(2,3) by (auto simp: slot_full_def a_def)
qed

text \<open>A ring that has just been filled: 31 buffers, of which the device has at least 15.\<close>

lemma sample_fill:
  obtains s xs where "rx_step sample_nic s" "run_state rx_refill sample_nic = ((), s)" "rx_inv s xs" "List.length xs = 31"
    "rx_count (rxr s) = 32" "rx_never_fails s" "\<forall>x \<in> set xs. \<not> rx_done (snd x)"
proof -
  obtain s where run: "run_state rx_refill sample_nic = ((), s)" by (metis old.unit.exhaust surj_pair)
  have f: "rx_filled [] sample_nic s" using run_wp [OF wp_rx_refill [OF rx_reset_inv [OF sample_nic_reset]] run] .
  have n: "rx_count (rxr sample_nic) = 32" by (simp add: sample_nic_def)
  obtain ys where ys: "rx_inv s ys" "\<forall>y \<in> set ys. \<not> rx_done (snd y)" "List.length ys = 31" "rx_quiet sample_nic s"
    using f sample_nic_kernel(2) n by (auto simp: rx_filled_def)
  have "rx_count (rxr s) = 32" "rx_never_fails s"
    using ys(4) n sample_nic_kernel(2) rx_never_fails_env [of s sample_nic] by (simp_all add: rx_quiet_def)
  then show ?thesis using that [OF rx_step.Fill [OF run] run ys(1,3)] ys(2) by blast
qed

theorem rx_skbs_conserved_witness:
  "\<exists>s. rx_step\<^sup>*\<^sup>* sample_nic s \<and> run_state rx_refill sample_nic = ((), s) \<and> distinct (collect alloc_of (rx_trace s)) \<and>
    mset (collect alloc_of (rx_trace s)) =
      mset (concat (map held (rx_info (rxr s)))) + mset (collect handed_of (rx_trace s)) + mset (collect freed_of (rx_trace s))"
proof (rule sample_fill)
  fix s assume "rx_step sample_nic s" "run_state rx_refill sample_nic = ((), s)"
  then show ?thesis using rx_skbs_conserved [OF r_into_rtranclp sample_nic_reset] by blast
qed

theorem rx_device_mapped_witness:
  "\<exists>s. rx_step\<^sup>*\<^sup>* sample_nic s \<and> rx_owns s 0 \<and> rxd_addr (rx_descs (rxr s) ! 0) = rxb_dma (rx_info (rxr s) ! 0)"
proof (rule sample_fill)
  fix s xs assume st: "rx_step sample_nic s" and run: "run_state rx_refill sample_nic = ((), s)"
    and s: "rx_inv s xs" "List.length xs = 31" "rx_count (rxr s) = 32" "\<forall>x \<in> set xs. \<not> rx_done (snd x)"
  have c: "rx_next_to_clean (rxr s) = 0"
    using run_wp [OF wp_rx_refill [OF rx_reset_inv [OF sample_nic_reset]] run]
    by (simp add: rx_filled_def rx_quiet_def sample_nic_def)
  obtain t where t: "rx_at 0 xs t s" "32 \<le> t + 17" using rx_full_told [OF s(1)] s(2,3) c by auto
  have "rx_owns s 0" using rx_told_owned [of s xs t 0] t c s(2,4) by simp
  then show ?thesis using rx_device_mapped [OF r_into_rtranclp [of rx_step, OF st] sample_nic_reset] st by blast
qed

text \<open>
  C12: In every reachable state a poll returns: no descriptor is reported without a buffer, no packet
  overruns its socket buffer (either would stop the kernel), and not more than the budget is used.
\<close>

theorem rx_poll_returns:
  assumes "rx_step\<^sup>*\<^sup>* s0 s" and "rx_reset s0" and "run_state (e1000_clean_rx_irq w) s = (r, s')"
  shows "\<exists>k \<le> w. r = Inr (k > 0, k)"
proof -
  obtain xs where "rx_inv s xs" using rx_reach_inv [OF assms(1,2)] .
  then obtain xs' where "rx_polled w s xs r s' xs'" using run_wp [OF wp_clean_rx_irq assms(3)] by blast
  then show ?thesis by (auto simp: rx_polled_def Let_def done_prefix_def)
qed

theorem rx_poll_returns_witness: "\<exists>k \<le> 64. \<exists>s'. run_state (e1000_clean_rx_irq 64) sample_nic = (Inr (k > 0, k), s')"
  using rx_poll_returns [OF rtranclp.rtrancl_refl sample_nic_reset, of 64] by (metis surj_pair)

text \<open>
  C13: While the kernel gives memory and mappings, every poll leaves the ring full: one slot is free,
  all others hold a buffer, and, in a ring whose size is a multiple of 16, the device has been told
  of all but 16 of them, so that it can receive.
\<close>

theorem rx_poll_refills:
  assumes "rx_step\<^sup>*\<^sup>* s0 s" and "rx_reset s0" and "run_state (e1000_clean_rx_irq w) s = (r, s')"
    and "rx_never_fails s" and "E1000_RX_BUFFER_WRITE dvd rx_count (rxr s)"
  defines "n \<equiv> rx_count (rxr s)" and "c \<equiv> rx_next_to_clean (rxr s')"
  shows "rx_desc_unused (rxr s') = 0 \<and>
    (\<exists>tail. rx_tail s' = Some tail \<and> n \<le> (unat tail + n - c) mod n + 17)"
proof -
  obtain xs where "rx_inv s xs" using rx_reach_inv [OF assms(1,2)] .
  then obtain xs' where p: "rx_polled w s xs r s' xs'" "rx_inv s' xs'" using run_wp [OF wp_clean_rx_irq assms(3)] by blast
  have n: "rx_count (rxr s') = n" "List.length xs' = n - 1"
    using p(1) assms(4) by (simp_all add: rx_polled_def Let_def n_def)
  obtain t where at: "rx_at c xs' t s'" "n \<le> t + 17" using rx_full_told [OF p(2)] n assms(5) by (auto simp: n_def c_def)
  have "rx_next_to_use (rxr s') = (c + (n - 1)) mod n" using p(2) n by (simp add: rx_inv_def c_def)
  moreover have "c < n" using rx_atD(2) [OF at(1)] n(1) by simp
  ultimately have "rx_desc_unused (rxr s') = 0" using rx_desc_unused_eq [of "rxr s'" "n - 1"] n(1) by (simp add: c_def)
  moreover have "(unat (of_nat ((c + t) mod n) :: u32) + n - c) mod n = t"
    using rx_tail_offset [of s' xs' t] at(1) n(1) by (simp add: c_def)
  ultimately show ?thesis using at(2) rx_atD(9) [OF at(1)] n(1) by simp
qed

theorem rx_poll_refills_witness:
  "\<exists>r s'. run_state (e1000_clean_rx_irq 64) sample_nic = (r, s') \<and> rx_desc_unused (rxr s') = 0"
proof -
  obtain r s' where run: "run_state (e1000_clean_rx_irq 64) sample_nic = (r, s')" by fastforce
  have "16 dvd rx_count (rxr sample_nic)" by (simp add: sample_nic_def)
  from rx_poll_refills [OF rtranclp.rtrancl_refl sample_nic_reset run sample_nic_kernel(2) this] run
  show ?thesis by blast
qed

text \<open>
  A buffer whose mapping failed keeps the error as its address, and emptying the ring then
  unmaps this address, although nothing was mapped there: the mapping is tried, and nothing in the
  history before or after has mapped the address.
\<close>

theorem rx_unmaps_failed:
  assumes "rx_reset s" and "\<And>t sz. k_rx_alloc (rx_kernel_of s) t sz" and "\<And>t skb. k_rx_map (rx_kernel_of s) t skb = a"
    and "k_dma_error (kernel_of (net_of s)) a" and "a \<noteq> 0" and "1 < rx_count (rxr s)"
    and "run_state (do { rx_refill; e1000_clean_rx_ring }) s = (u, s')"
  shows "RxUnmap a \<in> set (rx_trace s') \<and> collect (mapped_of (k_dma_error (kernel_of (net_of s)))) (rx_trace s') = []"
proof -
  let ?n = "rx_count (rxr s)"
  have R: "rx_wf (rxr s)" "rx_next_to_use (rxr s) = 0" "rx_next_to_clean (rxr s) = 0" "rx_trace s = []"
    "rx_info (rxr s) \<noteq> []" "rx_info (rxr s) ! 0 = empty_rx_buffer"
    using assms(1,6) rx_wf_simps(2) [of "rxr s"] by (auto simp: rx_reset_def dest: nth_mem)
  have len: "List.length (rx_info (rxr s)) = ?n" using rx_wf_simps(2) [OF R(1)] .
  then have len0: "0 < List.length (rx_info (rxr s))" using assms(6) by simp
  have un: "nat (rx_desc_unused (rxr s)) = Suc (?n - 2)" using assms(6) R(2,3) by (simp add: rx_desc_unused_def)
  define b where "b = \<lparr>rxb_skb = Some 0, rxb_dma = a\<rparr>"
  have first: "wp rx_refill (\<lambda>_ s1. rx_trace s1 = [RxMap 0 a, RxAlloc 0 (rx_buffer_len (rxc s))] \<and>
      rx_info (rxr s1) = (rx_info (rxr s))[0 := b] \<and> rx_count (rxr s1) = ?n) s"
    unfolding rx_refill_def wp un e1000_alloc_rx_buffers_def net_wp
    using assms(2-4) R len
    by (simp add: alloc_rx_slot_def rx_map_skb_def wp net_wp empty_rx_buffer_def b_def nth_list_update_eq [OF len0])
  have rest: "wp e1000_clean_rx_ring (\<lambda>_ s2. RxUnmap a \<in> set (rx_trace s2) \<and>
      collect (mapped_of (k_dma_error (kernel_of (net_of s)))) (rx_trace s2) = []) s1"
    if s1: "rx_trace s1 = [RxMap 0 a, RxAlloc 0 (rx_buffer_len (rxc s))]"
      "rx_info (rxr s1) = (rx_info (rxr s))[0 := b]" "rx_count (rxr s1) = ?n" for s1
  proof -
    have "b \<in> set (rx_info (rxr s1))" using s1(2) R(5) by (cases "rx_info (rxr s)") auto
    then have "RxUnmap a \<in> set (concat (map drop_events (rev (rx_info (rxr s1)))))"
      using assms(5) by (force simp: drop_events_def b_def)
    moreover have "collect (mapped_of err) (concat (map drop_events bs)) = []" for err bs
      by (simp add: collect_concat collect_drop_events comp_def)
    ultimately show ?thesis
      unfolding e1000_clean_rx_ring_def wp net_wp
      using s1 assms(4) len
      by (intro wp_mono [OF wp_free_rx_slots]) (auto intro!: wp_mono [OF wp_write_rx_tail])
  qed
  have "wp (do { rx_refill; e1000_clean_rx_ring }) (\<lambda>_ s2. RxUnmap a \<in> set (rx_trace s2) \<and>
      collect (mapped_of (k_dma_error (kernel_of (net_of s)))) (rx_trace s2) = []) s"
    unfolding wp by (rule wp_mono [OF first], elim conjE, rule rest)
  from run_wp [OF this assms(7)] show ?thesis .
qed

text \<open>An interface whose kernel cannot map anything; the error value is that of current kernels.\<close>

definition no_dma_nic :: nic where
  "no_dma_nic = sample_nic\<lparr>net_of := (net_of sample_nic)\<lparr>kernel_of := sample_kernel\<lparr>k_dma_error := (\<lambda>a. a = 0xFFFFFFFFFFFFFFFF)\<rparr>\<rparr>,
     rx_kernel_of := sample_rx_kernel\<lparr>k_rx_map := (\<lambda>t skb. 0xFFFFFFFFFFFFFFFF)\<rparr>\<rparr>"

theorem rx_unmaps_failed_witness:
  "\<exists>s'. run_state (do { rx_refill; e1000_clean_rx_ring }) no_dma_nic = ((), s') \<and> RxUnmap 0xFFFFFFFFFFFFFFFF \<in> set (rx_trace s')"
proof -
  obtain s' where run: "run_state (do { rx_refill; e1000_clean_rx_ring }) no_dma_nic = ((), s')"
    by (metis old.unit.exhaust surj_pair)
  have k: "k_rx_alloc (rx_kernel_of no_dma_nic) t sz" "k_rx_map (rx_kernel_of no_dma_nic) t skb = 0xFFFFFFFFFFFFFFFF" for t sz skb
    by (simp_all add: no_dma_nic_def sample_nic_def sample_rx_kernel_def)
  have ring: "rxr no_dma_nic = rxr sample_nic" "rx_trace no_dma_nic = rx_trace sample_nic" "rx_tail no_dma_nic = rx_tail sample_nic"
    by (simp_all add: no_dma_nic_def rx_tail_def)
  have "rx_kernel_ok no_dma_nic"
    by (simp add: rx_kernel_ok_def no_dma_nic_def sample_nic_def sample_rx_kernel_def)
  then have reset: "rx_reset no_dma_nic" using sample_nic_reset by (simp add: rx_reset_def ring)
  have err: "k_dma_error (kernel_of (net_of no_dma_nic)) 0xFFFFFFFFFFFFFFFF" by (simp add: no_dma_nic_def)
  have "1 < rx_count (rxr no_dma_nic)" by (simp add: ring) (simp add: sample_nic_def)
  from rx_unmaps_failed [OF reset k err _ this run] run show ?thesis by simp
qed

end
