(* ===== verification/Irq_Frame.thy ===== *)
theory Irq_Frame
  imports Irq Rx_System
begin

text \<open>
  What the two directions of the data path leave alone: sending and cleaning sent packets does not
  touch the receive ring and its tail register, receiving does not touch the transmit ring, and
  neither changes the interrupt mask. This is what lets the two rings and the interrupts be put
  together.
\<close>

unbundle bit_operations_syntax

section \<open>Relations that programs respect\<close>

locale monad_frame =
  fixes R :: "'s \<Rightarrow> 's \<Rightarrow> bool"
  assumes refl: "R s s"
    and trans: "R a b \<Longrightarrow> R b c \<Longrightarrow> R a c"
begin

lemma frame_return: "state_io_rel R (return x)"
  by (auto simp: state_io_rel_def refl)

lemma frame_get: "state_io_rel R get"
  by (auto simp: state_io_rel_def refl)

lemma frame_gets: "state_io_rel R (gets f)"
  by (auto simp: state_io_rel_def refl)

lemma frame_bind:
  "state_io_rel R m \<Longrightarrow> (\<And>a. state_io_rel R (f a)) \<Longrightarrow> state_io_rel R (State_Monad.bind m f)"
  by (auto simp: state_io_rel_def split: prod.splits) (metis trans snd_conv)

lemma frame_if:
  "(b \<Longrightarrow> state_io_rel R m) \<Longrightarrow> (\<not> b \<Longrightarrow> state_io_rel R n) \<Longrightarrow> state_io_rel R (if b then m else n)"
  by simp

lemma frame_let: "(\<And>a. state_io_rel R (f a)) \<Longrightarrow> state_io_rel R (Let x f)"
  by simp

lemma frame_case_prod: "(\<And>a b. state_io_rel R (f a b)) \<Longrightarrow> state_io_rel R (case_prod f p)"
  by (cases p) simp

lemma frame_case_option:
  "state_io_rel R m \<Longrightarrow> (\<And>a. state_io_rel R (f a)) \<Longrightarrow> state_io_rel R (case_option m f x)"
  by (cases x) simp_all

lemma frame_case_sum:
  "(\<And>a. state_io_rel R (f a)) \<Longrightarrow> (\<And>b. state_io_rel R (g b)) \<Longrightarrow> state_io_rel R (case_sum f g x)"
  by (cases x) simp_all

lemma frame_case_bool:
  "state_io_rel R m \<Longrightarrow> state_io_rel R n \<Longrightarrow> state_io_rel R (case_bool m n b)"
  by (cases b) simp_all

lemma frame_case_nat:
  "state_io_rel R m \<Longrightarrow> (\<And>k. state_io_rel R (f k)) \<Longrightarrow> state_io_rel R (case_nat m f n)"
  by (cases n) simp_all

lemma frame_poll: "state_io_rel R rdop \<Longrightarrow> state_io_rel R idle \<Longrightarrow> state_io_rel R (poll n rdop ok idle)"
  by (induction n) (auto simp: poll.simps intro!: frame_return frame_bind frame_if)

lemma frame_modify: "(\<And>s. R s (f s)) \<Longrightarrow> state_io_rel R (modify f)"
  by (auto simp: state_io_rel_def)

lemmas frames = frame_return frame_get frame_gets frame_bind frame_if frame_let frame_case_prod frame_case_option
  frame_case_sum frame_case_bool frame_case_nat frame_poll

end

section \<open>The interrupt mask\<close>

text \<open>
  Whether the causes the driver serves can interrupt, as far as the history of the device says: the
  mask has been set after the last read of the cause register that found an interrupt asserted (which
  sets the mask, as the comments of the handlers say) and after the last time it was cleared.
\<close>

fun unmasked :: "event list \<Rightarrow> bool" where
  "unmasked [] \<longleftrightarrow> False"
| "unmasked (WriteL r v # t) \<longleftrightarrow>
     (if r = E1000_IMS \<and> v AND IMS_ENABLE_MASK = IMS_ENABLE_MASK then True
      else if r = E1000_IMC then False else unmasked t)"
| "unmasked (ReadL r v # t) \<longleftrightarrow>
     (if r = E1000_ICR \<and> v AND E1000_ICR_INT_ASSERTED \<noteq> 0 then False else unmasked t)"
| "unmasked (e # t) \<longleftrightarrow> unmasked t"

definition hw_kept :: "u32 \<Rightarrow> hw \<Rightarrow> hw \<Rightarrow> bool" where
  "hw_kept r h h' \<longleftrightarrow> same_hw h h' \<and> last_write (trace h') r = last_write (trace h) r \<and>
     unmasked (trace h') = unmasked (trace h)"

interpretation hk: monad_frame "hw_kept r" for r
  by standard (auto simp: hw_kept_def intro: same.R_refl same.R_trans)

lemma hw_kept_log:
  "(\<And>v. e \<noteq> ReadL E1000_ICR v) \<Longrightarrow> (\<And>v. e \<noteq> WriteL r v) \<Longrightarrow> (\<And>v. e \<noteq> WriteL E1000_IMS v) \<Longrightarrow>
   (\<And>v. e \<noteq> WriteL E1000_IMC v) \<Longrightarrow> hw_kept r h (log_event e h)"
  by (cases e) (auto simp: hw_kept_def log_event_def same_hw_def)

lemma hk_er32: "q \<noteq> E1000_ICR \<Longrightarrow> state_io_rel (hw_kept r) (er32 q)"
  unfolding er32_def by (intro hk.frames hk.frame_modify hw_kept_log) auto

lemma hk_flush: "state_io_rel (hw_kept r) e1e_flush"
  unfolding e1e_flush_def by (intro hk.frames hk_er32) simp

lemma hk_delays: "state_io_rel (hw_kept r) (udelay n)" "state_io_rel (hw_kept r) (usleep_range lo hi)"
  "state_io_rel (hw_kept r) (mdelay n)"
  unfolding udelay_def usleep_range_def mdelay_def by (intro hk.frame_modify hw_kept_log; simp)+

lemma hk_prepare_loop: "state_io_rel (hw_kept r) (ew32_prepare_loop n)"
  by (induction n) (auto intro!: hk.frames hk_er32 hk_delays)

lemma hk_prepare: "state_io_rel (hw_kept r) ew32_prepare"
  by (simp add: ew32_prepare_def hk_prepare_loop)

lemma hk_ew32:
  "q \<noteq> r \<Longrightarrow> q \<noteq> E1000_IMS \<Longrightarrow> q \<noteq> E1000_IMC \<Longrightarrow> state_io_rel (hw_kept r) (ew32 q v)"
  unfolding ew32_def by (intro hk.frames hk_prepare hk.frame_modify hw_kept_log) auto

lemma hk_pci: "state_io_rel (hw_kept r) (pci_read_config_word a)"
  unfolding pci_read_config_word_def by (intro hk.frames hk.frame_modify hw_kept_log) auto

section \<open>The host interface\<close>

lemma host_if_regs:
  assumes "unat i < 0x200"
  shows "E1000_HOST_IF + push_bit 2 i \<noteq> E1000_IMS" "E1000_HOST_IF + push_bit 2 i \<noteq> E1000_IMC"
    "E1000_HOST_IF + push_bit 2 i \<noteq> E1000_ICR" "E1000_HOST_IF + push_bit 2 i \<noteq> E1000_RDT 0"
proof -
  have "unat (E1000_HOST_IF + push_bit 2 i) = 0x8800 + unat i * 4"
    using assms by (simp add: push_bit_eq_mult unat_word_ariths)
  then have ne: "E1000_HOST_IF + push_bit 2 i \<noteq> v" if "unat v < 0x8800" for v
    using that by (intro notI) simp
  show "E1000_HOST_IF + push_bit 2 i \<noteq> E1000_IMS" "E1000_HOST_IF + push_bit 2 i \<noteq> E1000_IMC"
    "E1000_HOST_IF + push_bit 2 i \<noteq> E1000_ICR" "E1000_HOST_IF + push_bit 2 i \<noteq> E1000_RDT 0"
    by (rule ne; simp add: E1000_RDT_def)+
qed

lemma hk_host_if:
  assumes "unat i < 0x200"
  shows "state_io_rel (hw_kept (E1000_RDT 0)) (E1000_READ_REG_ARRAY E1000_HOST_IF i)"
    "state_io_rel (hw_kept (E1000_RDT 0)) (E1000_WRITE_REG_ARRAY E1000_HOST_IF i v)"
  unfolding E1000_READ_REG_ARRAY_def E1000_WRITE_REG_ARRAY_def
  using host_if_regs [OF assms] by (auto intro: hk_er32 hk_ew32)

lemma hk_dwords:
  "unat off + i + n < 0x200 \<Longrightarrow> state_io_rel (hw_kept (E1000_RDT 0)) (host_if_dwords buffer p off i n acc)"
proof (induction n arbitrary: p i acc)
  case (Suc n)
  have "unat (ucast off + of_nat i :: u32) = unat off + i"
    using Suc.prems by (simp add: unat_word_ariths unat_of_nat)
  then show ?case
    using Suc by (auto simp: Let_def intro!: hk.frames hk_host_if)
qed (auto intro: hk.frames)

lemma hk_dhcp: "state_io_rel (hw_kept (E1000_RDT 0)) (e1000e_mng_write_dhcp_info buffer len)"
proof -
  have header: "state_io_rel (hw_kept (E1000_RDT 0)) (e1000_mng_write_cmd_header hdr)" for hdr
    by (auto simp: e1000_mng_write_cmd_header_def numeral_2_eq_2 Let_def unat_of_nat
        intro!: hk.frames hk_host_if hk_flush)
  have "state_io_rel (hw_kept (E1000_RDT 0)) (e1000_mng_host_if_write buffer len 8 acc)" for acc
  proof (cases "len = 0 \<or> 8 + unat len > E1000_HI_MAX_MNG_DATA_LENGTH")
    case False
    let ?d = "drop_bit 2 (len - (len AND 3))"
    have "len - (len AND 3) \<le> len" by (intro word_sub_le word_and_le2)
    then have "unat (len - (len AND 3)) \<le> unat len" by (simp add: word_le_nat_alt)
    moreover have "unat ?d = unat (len - (len AND 3)) div 4" by (simp add: drop_bit_eq_div unat_div)
    ultimately have d: "unat ?d < 0x1F0" using False by linarith
    then have "unat (2 + of_nat (unat ?d) :: u32) < 0x200" by (simp add: unat_word_ariths unat_of_nat)
    with d False show ?thesis
      by (auto simp: e1000_mng_host_if_write_def Let_def unat_of_nat
          intro!: hk.frames hk_host_if hk_dwords)
  qed (auto simp: e1000_mng_host_if_write_def intro!: hk.frames)
  then show ?thesis
    unfolding e1000e_mng_write_dhcp_info_def e1000_mng_enable_host_if_def
    by (intro hk.frames hk_er32 hk_ew32 hk_delays header; simp add: E1000_RDT_def)
qed

section \<open>Sending\<close>

text \<open>What code that drives the transmit ring keeps.\<close>

definition net_kept :: "net \<Rightarrow> net \<Rightarrow> bool" where
  "net_kept s s' \<longleftrightarrow> hw_kept (E1000_RDT 0) (adapter_hw s) (adapter_hw s') \<and> kernel_of s' = kernel_of s \<and>
     down s' = down s \<and> set (os_trace s) \<subseteq> set (os_trace s')"

interpretation nk: monad_frame net_kept
  by standard (auto simp: net_kept_def hk.refl intro: hk.trans)

lemma nk_on_hw: "state_io_rel (hw_kept (E1000_RDT 0)) m \<Longrightarrow> state_io_rel net_kept (on_hw m)"
  by (auto simp: state_io_rel_def on_hw_def net_kept_def Let_def case_prod_beta)

lemma nk_prims:
  "state_io_rel net_kept (os e)" "state_io_rel net_kept (set_tx_ring f)" "state_io_rel net_kept (set_ad g)"
  "state_io_rel net_kept (set_tx_buf i b)" "state_io_rel net_kept (set_tx_desc i d)" "state_io_rel net_kept jiffies"
  "state_io_rel net_kept (dev_kfree_skb skb)" "state_io_rel net_kept netif_stop_queue"
  "state_io_rel net_kept netif_start_queue" "state_io_rel net_kept netif_wake_queue"
  unfolding os_def set_tx_ring_def set_ad_def set_tx_buf_def set_tx_desc_def jiffies_def dev_kfree_skb_def
    netif_stop_queue_def netif_start_queue_def netif_wake_queue_def
  by (intro nk.frames nk.frame_modify; auto simp: net_kept_def hk.refl)+

lemma nk_writel: "r \<noteq> E1000_RDT 0 \<Longrightarrow> r \<noteq> E1000_IMS \<Longrightarrow> r \<noteq> E1000_IMC \<Longrightarrow> state_io_rel net_kept (writel v r)"
  unfolding writel_def by (intro nk_on_hw hk.frame_modify hw_kept_log) auto

lemma nk_tail: "state_io_rel net_kept (write_tx_tail i)"
  unfolding write_tx_tail_def e1000e_update_tdt_wa_def
  by (intro nk.frames nk_prims nk_writel nk_on_hw hk_prepare hk_er32 hk_ew32; simp add: E1000_TDT_def E1000_RDT_def)

lemma nk_map_chunk: "state_io_rel net_kept (map_chunk i src n)"
  unfolding map_chunk_def by (intro nk.frames nk_prims)

lemma nk_map_head: "state_io_rel net_kept (map_head fuel limit i offset len cnt)"
  by (induction fuel arbitrary: i offset len cnt) (auto simp: Let_def intro!: nk.frames nk_map_chunk)

lemma nk_map_frag: "state_io_rel net_kept (map_frag fuel limit f i offset len cnt)"
  by (induction fuel arbitrary: i offset len cnt) (auto simp: Let_def intro!: nk.frames nk_map_chunk)

lemma nk_map_frags: "state_io_rel net_kept (map_frags limit f frags i cnt)"
  by (induction frags arbitrary: f i cnt)
    (auto intro!: nk.frames nk_map_frag split: sum.split mapping.split)

lemma nk_put_txbuf: "state_io_rel net_kept (e1000_put_txbuf i)"
  unfolding e1000_put_txbuf_def by (intro nk.frames nk_prims)

lemma nk_unmap_back: "state_io_rel net_kept (unmap_back i n)"
  by (induction n arbitrary: i) (auto simp: Let_def intro!: nk.frames nk_put_txbuf)

lemma nk_tx_map: "state_io_rel net_kept (e1000_tx_map skb first limit)"
  unfolding e1000_tx_map_def
  by (auto intro!: nk.frames nk_prims nk_map_head nk_map_frags nk_unmap_back split: sum.split mapping.split)

lemma nk_fill: "state_io_rel net_kept (fill_descs fl n i)"
  by (induction n arbitrary: i) (auto simp: fill_desc_def Let_def intro!: nk.frames nk_prims)

lemma nk_tx_queue: "state_io_rel net_kept (e1000_tx_queue fl cnt)"
  unfolding e1000_tx_queue_def by (intro nk.frames nk_prims nk_fill)

lemma nk_context: "state_io_rel net_kept (e1000_tso skb p)" "state_io_rel net_kept (e1000_tx_csum skb p)"
  unfolding e1000_tso_def e1000_tx_csum_def take_context_def by (intro nk.frames nk_prims)+

lemma nk_maybe_stop: "state_io_rel net_kept (e1000_maybe_stop_tx n)"
  unfolding e1000_maybe_stop_tx_def maybe_stop_tx_again_def by (intro nk.frames nk_prims)

lemma nk_xmit: "state_io_rel net_kept (e1000_xmit_frame skb)"
  unfolding e1000_xmit_frame_def xmit_place_def xmit_queue_def xmit_drop_def xmit_timestamp_def tso_pull_def
    e1000_transfer_dhcp_info_def
  by (intro nk.frames nk_prims nk_context nk_maybe_stop nk_tx_map nk_tx_queue nk_tail nk_on_hw hk_dhcp)

lemma nk_clean_packet: "state_io_rel net_kept (clean_packet fuel eop l)"
  by (induction fuel arbitrary: l) (auto simp: Let_def intro!: nk.frames nk_prims nk_put_txbuf)

lemma nk_clean_packets: "state_io_rel net_kept (clean_packets fuel l)"
  by (induction fuel arbitrary: l; subst clean_packets.simps)
    (auto simp: Let_def intro!: nk.frame_return nk.frame_get nk.frame_bind nk.frame_if nk.frame_case_sum nk_clean_packet)

lemma nk_clean_tx: "state_io_rel net_kept e1000_clean_tx_irq"
  unfolding e1000_clean_tx_irq_def tx_wake_def tx_check_hang_def
  by (intro nk.frames nk_prims nk_clean_packets nk_on_hw hk_er32; simp)

text \<open>The rest of the interface is not a part of this state at all.\<close>

lemma nk_ring: "state_io_rel net_kept e1000_clean_tx_ring"
proof -
  have "state_io_rel net_kept (put_txbufs i n)" for i n
    by (induction n arbitrary: i) (auto intro!: nk.frames nk_put_txbuf)
  then show ?thesis
    unfolding e1000_clean_tx_ring_def
    by (intro nk.frames nk_prims nk_writel nk_tail; simp add: E1000_TDH_def E1000_RDT_def)
qed

section \<open>Receiving\<close>

definition net_same_tx :: "net \<Rightarrow> net \<Rightarrow> bool" where
  "net_same_tx s s' \<longleftrightarrow> hw_kept (E1000_TDT 0) (adapter_hw s) (adapter_hw s') \<and> other_code s s' \<and>
     down s' = down s \<and> set (os_trace s) \<subseteq> set (os_trace s')"

definition nic_kept :: "nic \<Rightarrow> nic \<Rightarrow> bool" where
  "nic_kept s s' \<longleftrightarrow> net_same_tx (net_of s) (net_of s')"

interpretation nt: monad_frame net_same_tx
  by standard (auto simp: net_same_tx_def other_code_def hk.refl intro: hk.trans)

interpretation rk: monad_frame nic_kept
  by standard (auto simp: nic_kept_def nt.refl intro: nt.trans)

lemma nt_on_hw: "state_io_rel (hw_kept (E1000_TDT 0)) m \<Longrightarrow> state_io_rel net_same_tx (on_hw m)"
  by (auto simp: state_io_rel_def on_hw_def net_same_tx_def other_code_def Let_def case_prod_beta hw_kept_def tx_tail_def)

lemma rk_on_net: "state_io_rel net_same_tx m \<Longrightarrow> state_io_rel nic_kept (on_net m)"
  by (auto simp: state_io_rel_def on_net_def nic_kept_def Let_def case_prod_beta)

lemma nt_prims: "state_io_rel net_same_tx (os (WorkScheduled w))"
  "r \<noteq> E1000_TDT 0 \<Longrightarrow> r \<noteq> E1000_IMS \<Longrightarrow> r \<noteq> E1000_IMC \<Longrightarrow> state_io_rel net_same_tx (writel v r)"
  unfolding os_def writel_def
  by (intro nt.frame_modify nt_on_hw hk.frame_modify hw_kept_log; auto simp: net_same_tx_def other_code_def hk.refl tx_tail_def)+

lemma rk_prims:
  "state_io_rel nic_kept (rx_os e)" "state_io_rel nic_kept (set_rxr f)" "state_io_rel nic_kept (set_rxa g)"
  "state_io_rel nic_kept (set_rx_buf i b)" "state_io_rel nic_kept (set_rx_desc i d)"
  "state_io_rel nic_kept (alloc_skb n)" "state_io_rel nic_kept (rx_map_single skb)"
  unfolding rx_os_def set_rxr_def set_rxa_def set_rx_buf_def set_rx_desc_def alloc_skb_def rx_map_single_def
  by (intro rk.frames rk.frame_modify; simp add: nic_kept_def nt.refl)+

lemma rk_tail: "state_io_rel nic_kept (write_rx_tail i)"
  unfolding write_rx_tail_def e1000e_update_rdt_wa_def
  by (intro rk.frames rk_on_net nt.frames nt_prims nt_on_hw hk_prepare hk_er32 hk_ew32;
      simp add: E1000_TDT_def E1000_RDT_def)

lemma rk_alloc: "state_io_rel nic_kept (e1000_alloc_rx_buffers n)"
proof -
  have map: "state_io_rel nic_kept (rx_map_skb i skb)" for i skb
    unfolding rx_map_skb_def by (intro rk.frames rk_prims rk_tail)
  have "state_io_rel nic_kept (alloc_rx_slot i)" for i
    unfolding alloc_rx_slot_def by (intro rk.frames rk_prims map)
  then have "state_io_rel nic_kept (alloc_rx_loop n i)" for n i
    by (induction n arbitrary: i) (auto intro!: rk.frames)
  then show ?thesis
    unfolding e1000_alloc_rx_buffers_def by (intro rk.frames rk_prims)
qed

lemma rk_packet: "state_io_rel nic_kept (rx_packet i skb d l)"
  unfolding rx_packet_def rx_copybreak_def e1000_rx_checksum_def e1000_receive_skb_def e1000e_rx_hwtstamp_def
  by (intro rk.frames rk_prims rk_on_net nt_on_hw hk_er32; simp)

lemma rk_loop: "state_io_rel nic_kept (clean_rx_loop left l)"
proof -
  have "state_io_rel nic_kept (clean_rx_slot l)" for l
    unfolding clean_rx_slot_def by (intro rk.frames rk_prims rk_packet rk_alloc)
  then show ?thesis
    by (induction left arbitrary: l; subst clean_rx_loop.simps)
      (auto intro!: rk.frame_return rk.frame_get rk.frame_bind rk.frame_if rk.frame_case_sum)
qed

lemma rk_clean_rx: "state_io_rel nic_kept (e1000_clean_rx_irq w)"
  unfolding e1000_clean_rx_irq_def e1000e_check_ltr_demote_def e1000_demote_ltr_def
  by (intro rk.frames rk_prims rk_loop rk_alloc rk_on_net nt_on_hw hk.frames hk_er32 hk_ew32;
      simp add: E1000_TDT_def)

lemma rk_clean_ring: "state_io_rel nic_kept e1000_clean_rx_ring"
proof -
  have "state_io_rel nic_kept (free_rx_slots i n)" for i n
    by (induction n arbitrary: i) (auto intro!: rk.frames rk_prims)
  then show ?thesis
    unfolding e1000_clean_rx_ring_def
    by (intro rk.frames rk_prims rk_tail rk_on_net nt_prims; simp add: E1000_TDT_def E1000_RDH_def)
qed

lemma rk_refill: "state_io_rel nic_kept rx_refill"
  unfolding rx_refill_def by (intro rk.frames rk_alloc)

end
