(* ===== verification/Params.thy ===== *)
theory Params
  imports Prelude
begin

text \<open>
  The module parameters of \<open>param.c\<close>: what a user may give, the check of one value, and
  the settings that the driver starts with. Messages to the log are not modelled. A parameter is
  the list of the values that were given, one per board; the arrays of the source hold
  \<open>OPTION_UNSET\<close> behind them and are never read there.
\<close>

section \<open>Constants\<close>

abbreviation (input) OPTION_UNSET :: int where "OPTION_UNSET \<equiv> - 1"
abbreviation (input) OPTION_DISABLED :: int where "OPTION_DISABLED \<equiv> 0"
abbreviation (input) OPTION_ENABLED :: int where "OPTION_ENABLED \<equiv> 1"
abbreviation (input) DEFAULT_TIDV :: int where "DEFAULT_TIDV \<equiv> 8"
abbreviation (input) MAX_TXDELAY :: int where "MAX_TXDELAY \<equiv> 0xFFFF"
abbreviation (input) MIN_TXDELAY :: int where "MIN_TXDELAY \<equiv> 0"
abbreviation (input) DEFAULT_TADV :: int where "DEFAULT_TADV \<equiv> 32"
abbreviation (input) MAX_TXABSDELAY :: int where "MAX_TXABSDELAY \<equiv> 0xFFFF"
abbreviation (input) MIN_TXABSDELAY :: int where "MIN_TXABSDELAY \<equiv> 0"
abbreviation (input) DEFAULT_RDTR :: int where "DEFAULT_RDTR \<equiv> 0"
abbreviation (input) MAX_RXDELAY :: int where "MAX_RXDELAY \<equiv> 0xFFFF"
abbreviation (input) MIN_RXDELAY :: int where "MIN_RXDELAY \<equiv> 0"
abbreviation (input) DEFAULT_RADV :: int where "DEFAULT_RADV \<equiv> 8"
abbreviation (input) MAX_RXABSDELAY :: int where "MAX_RXABSDELAY \<equiv> 0xFFFF"
abbreviation (input) MIN_RXABSDELAY :: int where "MIN_RXABSDELAY \<equiv> 0"
abbreviation (input) DEFAULT_ITR :: int where "DEFAULT_ITR \<equiv> 3"
abbreviation (input) MAX_ITR :: int where "MAX_ITR \<equiv> 100000"
abbreviation (input) MIN_ITR :: int where "MIN_ITR \<equiv> 100"
abbreviation (input) E1000E_INT_MODE_LEGACY :: int where "E1000E_INT_MODE_LEGACY \<equiv> 0"
abbreviation (input) E1000E_INT_MODE_MSI :: int where "E1000E_INT_MODE_MSI \<equiv> 1"
abbreviation (input) E1000E_INT_MODE_MSIX :: int where "E1000E_INT_MODE_MSIX \<equiv> 2"

section \<open>One option\<close>

text \<open>What \<open>struct e1000_option\<close> says of the values, without the texts.\<close>

datatype e1000_option_kind = enable_option | range_option int int | list_option "int list"

record e1000_option =
  opt_type :: e1000_option_kind
  opt_def :: int

text \<open>A value is unsigned, the limits are signed: C compares them as unsigned numbers.\<close>

fun option_accepts :: "e1000_option_kind \<Rightarrow> u32 \<Rightarrow> bool" where
  "option_accepts enable_option v \<longleftrightarrow> v = word_of_int OPTION_ENABLED \<or> v = word_of_int OPTION_DISABLED"
| "option_accepts (range_option lo hi) v \<longleftrightarrow> word_of_int lo \<le> v \<and> v \<le> word_of_int hi"
| "option_accepts (list_option is) v \<longleftrightarrow> v \<in> set (map word_of_int is)"

definition e1000_validate_option :: "u32 \<Rightarrow> e1000_option \<Rightarrow> s32 \<times> u32" where
  "e1000_validate_option v opt =
     (if v = word_of_int OPTION_UNSET then (0, word_of_int (opt_def opt))
      else if option_accepts (opt_type opt) v then (0, v)
      else (- 1, word_of_int (opt_def opt)))"

section \<open>All options\<close>

record module_params =
  p_TxIntDelay :: "int list"
  p_TxAbsIntDelay :: "int list"
  p_RxIntDelay :: "int list"
  p_RxAbsIntDelay :: "int list"
  p_InterruptThrottleRate :: "int list"
  p_IntMode :: "int list"
  p_SmartPowerDownEnable :: "int list"
  p_KumeranLockLoss :: "int list"
  p_CrcStripping :: "int list"
  p_EEE :: "int list"
  p_Node :: "int list"

text \<open>What the check asks the board and the kernel.\<close>

record board =
  has_msix :: bool
  has_smart_power_down :: bool
  is_ich8lan :: bool
  has_eee :: bool
  kstrdup_ok :: bool
  max_numnodes :: int
  node_online :: "int \<Rightarrow> bool"

text \<open>The members of the adapter that the check sets.\<close>

record settings =
  tx_int_delay :: u32
  tx_abs_int_delay :: u32
  rx_int_delay :: u32
  rx_abs_int_delay :: u32
  set_rate :: u32
  rate_setting :: u32
  int_mode :: int
  smart_power_down :: bool
  strips_crc :: bool
  kmrn_lock_loss :: bool
  eee_disable :: bool
  numa_node :: int

text \<open>The value of a parameter for a board: that of the user if there is one, checked.\<close>

definition checked_param :: "int list \<Rightarrow> nat \<Rightarrow> e1000_option \<Rightarrow> u32" where
  "checked_param given bd opt =
     (if bd < List.length given then snd (e1000_validate_option (word_of_int (given ! bd)) opt)
      else word_of_int (opt_def opt))"

definition tx_delay_option :: e1000_option where
  "tx_delay_option = \<lparr>opt_type = range_option MIN_TXDELAY MAX_TXDELAY, opt_def = DEFAULT_TIDV\<rparr>"

definition tx_abs_delay_option :: e1000_option where
  "tx_abs_delay_option = \<lparr>opt_type = range_option MIN_TXABSDELAY MAX_TXABSDELAY, opt_def = DEFAULT_TADV\<rparr>"

definition rx_delay_option :: e1000_option where
  "rx_delay_option = \<lparr>opt_type = range_option MIN_RXDELAY MAX_RXDELAY, opt_def = DEFAULT_RDTR\<rparr>"

definition rx_abs_delay_option :: e1000_option where
  "rx_abs_delay_option = \<lparr>opt_type = range_option MIN_RXABSDELAY MAX_RXABSDELAY, opt_def = DEFAULT_RADV\<rparr>"

definition itr_option :: e1000_option where
  "itr_option = \<lparr>opt_type = range_option MIN_ITR MAX_ITR, opt_def = DEFAULT_ITR\<rparr>"

definition on_off_option :: "int \<Rightarrow> e1000_option" where
  "on_off_option d = \<lparr>opt_type = enable_option, opt_def = d\<rparr>"

text \<open>The throttle rate: small values are modes and are not checked against the range.\<close>

definition given_itr :: "int list \<Rightarrow> nat \<Rightarrow> u32" where
  "given_itr given bd =
     (if bd < List.length given then
        (let itr = (word_of_int (given ! bd) :: u32) in
         if itr > 4 then (case e1000_validate_option itr itr_option of (ret, itr) \<Rightarrow>
           if ret \<noteq> 0 then word_of_int (opt_def itr_option) else itr)
         else itr)
      else word_of_int (opt_def itr_option))"

text \<open>The rate and the setting that a value means.\<close>

definition itr_modes :: "u32 \<Rightarrow> u32 \<times> u32" where
  "itr_modes itr =
     (if itr = 0 then (itr, itr)
      else if itr = 1 then (20000, itr)
      else if itr = 2 then (20000, word_of_int (opt_def itr_option))
      else if itr = 3 then (20000, itr)
      else if itr = 4 then (itr, itr)
      else (itr, itr AND NOT 3))"

definition int_mode_option :: "board \<Rightarrow> e1000_option" where
  "int_mode_option b = (let m = (if has_msix b then E1000E_INT_MODE_MSIX else E1000E_INT_MODE_MSI) in
     \<lparr>opt_type = range_option 0 m, opt_def = m\<rparr>)"

definition node_option :: "board \<Rightarrow> e1000_option" where
  "node_option b = \<lparr>opt_type = range_option 0 (max_numnodes b - 1), opt_def = - 1\<rparr>"

definition checked_node :: "board \<Rightarrow> int list \<Rightarrow> nat \<Rightarrow> int" where
  "checked_node b given bd =
     (let node = (if bd < List.length given then sint (checked_param given bd (node_option b)) else opt_def (node_option b)) in
      if node \<noteq> - 1 \<and> \<not> node_online b node then opt_def (node_option b) else node)"

text \<open>The part before the interrupt mode and the part after it.\<close>

definition check_rates :: "module_params \<Rightarrow> nat \<Rightarrow> settings \<Rightarrow> settings" where
  "check_rates p bd s = (case itr_modes (given_itr (p_InterruptThrottleRate p) bd) of (itr, setting) \<Rightarrow>
     s\<lparr>tx_int_delay := checked_param (p_TxIntDelay p) bd tx_delay_option,
       tx_abs_int_delay := checked_param (p_TxAbsIntDelay p) bd tx_abs_delay_option,
       rx_int_delay := checked_param (p_RxIntDelay p) bd rx_delay_option,
       rx_abs_int_delay := checked_param (p_RxAbsIntDelay p) bd rx_abs_delay_option,
       set_rate := itr, rate_setting := setting\<rparr>)"

definition check_switches :: "board \<Rightarrow> module_params \<Rightarrow> nat \<Rightarrow> settings \<Rightarrow> settings" where
  "check_switches b p bd s = s\<lparr>
     smart_power_down := smart_power_down s \<or> has_smart_power_down b \<and> bd < List.length (p_SmartPowerDownEnable p) \<and>
       checked_param (p_SmartPowerDownEnable p) bd (on_off_option OPTION_DISABLED) \<noteq> 0,
     strips_crc := strips_crc s \<or>
       checked_param (p_CrcStripping p) bd (on_off_option OPTION_ENABLED) = word_of_int OPTION_ENABLED,
     kmrn_lock_loss := (if is_ich8lan b then checked_param (p_KumeranLockLoss p) bd (on_off_option OPTION_ENABLED) \<noteq> 0
       else kmrn_lock_loss s),
     eee_disable := (if has_eee b then checked_param (p_EEE p) bd (on_off_option OPTION_ENABLED) = 0 else eee_disable s),
     numa_node := checked_node b (p_Node p) bd\<rparr>"

text \<open>\<open>e1000e_check_options\<close>; without memory for a text it stops at the interrupt mode.\<close>

definition e1000e_check_options :: "board \<Rightarrow> module_params \<Rightarrow> nat \<Rightarrow> settings \<Rightarrow> settings" where
  "e1000e_check_options b p bd s =
     (let s = check_rates p bd s in
      if \<not> kstrdup_ok b then s
      else check_switches b p bd (s\<lparr>int_mode := sint (checked_param (p_IntMode p) bd (int_mode_option b))\<rparr>))"

section \<open>What the settings can be\<close>

text \<open>A value of the user is taken when it is in the range, else the default.\<close>

definition user_choice :: "int list \<Rightarrow> nat \<Rightarrow> int \<Rightarrow> int \<Rightarrow> int \<Rightarrow> int" where
  "user_choice given bd lo hi d =
     (if bd < List.length given \<and> lo \<le> given ! bd \<and> given ! bd \<le> hi then given ! bd else d)"

text \<open>The array of a parameter holds C integers.\<close>

definition c_ints :: "int list \<Rightarrow> bool" where
  "c_ints given \<longleftrightarrow> (\<forall>v \<in> set given. - (2 ^ 31) \<le> v \<and> v < 2 ^ 31)"

definition params_ok :: "module_params \<Rightarrow> bool" where
  "params_ok p \<longleftrightarrow> list_all c_ints [p_TxIntDelay p, p_TxAbsIntDelay p, p_RxIntDelay p, p_RxAbsIntDelay p,
     p_InterruptThrottleRate p, p_IntMode p, p_SmartPowerDownEnable p, p_KumeranLockLoss p, p_CrcStripping p,
     p_EEE p, p_Node p]"

lemma uint_of_int32: "uint (word_of_int v :: u32) = v mod 2 ^ 32"
  by (simp add: unsigned_of_int take_bit_eq_mod)

lemma mod_int32: "- (2 ^ 31) \<le> v \<Longrightarrow> v < 2 ^ 31 \<Longrightarrow> v mod 2 ^ 32 = (if v < 0 then v + 2 ^ 32 else v)" for v :: int
proof (cases "v < 0")
  case True
  assume "- (2 ^ 31) \<le> v"
  then have "(v + 2 ^ 32) mod 2 ^ 32 = v + 2 ^ 32" using True by (intro mod_pos_pos_trivial) simp_all
  then show ?thesis using True by simp
qed simp

lemma of_int32_less:
  assumes "- (2 ^ 31) \<le> v" "v < 2 ^ 31" and "0 \<le> w" "w < 2 ^ 31"
  shows "(word_of_int v :: u32) \<le> word_of_int w \<longleftrightarrow> 0 \<le> v \<and> v \<le> w"
    and "(word_of_int w :: u32) \<le> word_of_int v \<longleftrightarrow> v < 0 \<or> w \<le> v"
    and "(word_of_int v :: u32) = word_of_int w \<longleftrightarrow> v = w"
  using mod_int32 [OF assms(1,2)] assms
  by (auto simp: word_le_def uint_of_int32 word_uint_eq_iff split: if_splits)

text \<open>Comparing as unsigned numbers is comparing as integers when the range is not negative.\<close>

lemma range_choice:
  assumes "c_ints given" and "0 \<le> lo" "lo \<le> hi" "hi < 2 ^ 31"
  shows "checked_param given bd \<lparr>opt_type = range_option lo hi, opt_def = d\<rparr> = word_of_int (user_choice given bd lo hi d)"
proof (cases "bd < List.length given")
  case True
  define v where "v = given ! bd"
  have v: "- (2 ^ 31) \<le> v" "v < 2 ^ 31" using assms(1) nth_mem [OF True] by (auto simp: c_ints_def v_def)
  have unset: "(word_of_int v :: u32) = word_of_int (- 1) \<longleftrightarrow> v = - 1"
    using mod_int32 [OF v] v
    by (auto simp: word_uint_eq_iff uint_of_int32 unsigned_minus_1_eq_mask mask_eq_exp_minus_1 split: if_splits)
  have lo: "(word_of_int lo :: u32) \<le> word_of_int v \<longleftrightarrow> v < 0 \<or> lo \<le> v" using of_int32_less(2) [OF v] assms by simp
  have hi: "(word_of_int v :: u32) \<le> word_of_int hi \<longleftrightarrow> 0 \<le> v \<and> v \<le> hi" using of_int32_less(1) [OF v] assms by simp
  show ?thesis
    using True assms(2) unset
    by (auto simp: checked_param_def e1000_validate_option_def user_choice_def v_def [symmetric] lo hi)
qed (simp add: checked_param_def user_choice_def)

lemma uint_choice:
  assumes "c_ints given" and "0 \<le> lo" "lo \<le> hi" "hi < 2 ^ 31" and "0 \<le> d" "d < 2 ^ 31"
  shows "uint (checked_param given bd \<lparr>opt_type = range_option lo hi, opt_def = d\<rparr>) = user_choice given bd lo hi d"
    and "sint (checked_param given bd \<lparr>opt_type = range_option lo hi, opt_def = d\<rparr>) = user_choice given bd lo hi d"
proof -
  have "0 \<le> user_choice given bd lo hi d" "user_choice given bd lo hi d < 2 ^ 31"
    using assms by (auto simp: user_choice_def)
  then show "uint (checked_param given bd \<lparr>opt_type = range_option lo hi, opt_def = d\<rparr>) = user_choice given bd lo hi d"
    "sint (checked_param given bd \<lparr>opt_type = range_option lo hi, opt_def = d\<rparr>) = user_choice given bd lo hi d"
    by (simp_all add: range_choice [OF assms(1-4)] uint_of_int32 signed_of_int signed_take_bit_int_eq_self)
qed

lemma on_off_range: "checked_param given bd (on_off_option d) = checked_param given bd \<lparr>opt_type = range_option 0 1, opt_def = d\<rparr>"
proof -
  have "v = 1 \<or> v = 0 \<longleftrightarrow> v \<le> 1" for v :: u32
    by (auto simp: word_le_nat_alt word_unat_eq_iff le_Suc_eq)
  then show ?thesis by (auto simp: checked_param_def on_off_option_def e1000_validate_option_def)
qed

section \<open>Rates\<close>

definition rate_choice :: "int list \<Rightarrow> nat \<Rightarrow> int" where
  "rate_choice given bd =
     (if bd < List.length given \<and> (given ! bd \<in> {0..4} \<or> given ! bd \<in> {MIN_ITR..MAX_ITR}) then given ! bd
      else DEFAULT_ITR)"

text \<open>The rate to start with and the setting that a choice means.\<close>

definition rate_spec :: "int \<Rightarrow> int \<times> int" where
  "rate_spec c = (if c = 1 \<or> c = 3 then (20000, c) else if c = 2 then (20000, 3) else if c \<le> 4 then (c, c)
     else (c, c - c mod 4))"

lemma given_itr_choice:
  assumes "c_ints given"
  shows "given_itr given bd = word_of_int (rate_choice given bd)"
proof (cases "bd < List.length given")
  case True
  define v where "v = given ! bd"
  have v: "- (2 ^ 31) \<le> v" "v < 2 ^ 31" using assms nth_mem [OF True] by (auto simp: c_ints_def v_def)
  have small: "(word_of_int v :: u32) \<le> 4 \<longleftrightarrow> 0 \<le> v \<and> v \<le> 4" using of_int32_less(1) [OF v, of 4] by simp
  have range: "snd (e1000_validate_option (word_of_int v) itr_option) = word_of_int (user_choice [v] 0 MIN_ITR MAX_ITR DEFAULT_ITR)"
    using range_choice [of "[v]" MIN_ITR MAX_ITR 0 DEFAULT_ITR] v
    by (simp add: c_ints_def checked_param_def itr_option_def)
  have "given_itr given bd = (if 0 \<le> v \<and> v \<le> 4 then word_of_int v
      else snd (e1000_validate_option (word_of_int v) itr_option))"
    using True small
    by (auto simp: given_itr_def Let_def v_def [symmetric] not_le [symmetric] e1000_validate_option_def itr_option_def)
  also have "\<dots> = word_of_int (rate_choice given bd)"
    using True unfolding range by (auto simp: rate_choice_def user_choice_def v_def [symmetric])
  finally show ?thesis .
qed (simp add: given_itr_def rate_choice_def itr_option_def)

lemma rate_choice_cases:
  obtains "rate_choice given bd \<in> {0, 1, 2, 3, 4}" | "100 \<le> rate_choice given bd" "rate_choice given bd \<le> 100000"
proof -
  have "rate_choice given bd \<in> {0..4} \<or> rate_choice given bd \<in> {100..100000}" by (auto simp: rate_choice_def)
  moreover have "{0..4 :: int} = {0, 1, 2, 3, 4}" by auto
  ultimately show ?thesis using that by auto
qed

lemma and_not_mask_push: "w AND NOT (mask n) = push_bit n (drop_bit n w)"
  for w :: "'a::len word"
  by (rule bit_word_eqI) (auto simp: bit_simps)

lemma and_not_3: "uint (w AND NOT 3 :: u32) = uint w - uint w mod 4"
proof -
  have "(3 :: u32) = mask 2" by (simp add: mask_eq_exp_minus_1)
  then have "uint (w AND NOT 3) = uint (push_bit 2 (drop_bit 2 w))" by (simp only: and_not_mask_push)
  also have "\<dots> = take_bit 32 (push_bit 2 (drop_bit 2 (uint w)))"
    using take_bit_int_eq_self [OF unsigned_greater_eq, of w 32] uint_lt2p [of w]
    by (simp only: unsigned_push_bit_eq unsigned_drop_bit_eq) simp
  also have "\<dots> = take_bit 32 (uint w div 4 * 4)"
    by (simp add: push_bit_eq_mult drop_bit_eq_div)
  also have "\<dots> = uint w div 4 * 4"
    using uint_lt2p [of w] by (intro take_bit_int_eq_self) (simp_all add: pos_imp_zdiv_nonneg_iff)
  finally show ?thesis by (simp add: minus_mod_eq_div_mult)
qed

lemma itr_modes_spec:
  "map_prod uint uint (itr_modes (word_of_int (rate_choice given bd))) = rate_spec (rate_choice given bd)"
proof (cases rule: rate_choice_cases [of given bd])
  case 1
  then show ?thesis by (auto simp: itr_modes_def itr_option_def rate_spec_def)
next
  case 2
  define c where "c = rate_choice given bd"
  have c: "100 \<le> c" "c \<le> 100000" using 2 by (simp_all add: c_def)
  have u: "uint (word_of_int c :: u32) = c" using c by (simp add: uint_of_int32)
  have "(word_of_int c :: u32) \<noteq> of_nat k" if "k \<le> 4" for k
    using u c that by (auto simp: word_uint_eq_iff unsigned_of_nat take_bit_nat_eq_self)
  from this [of 0] this [of 1] this [of 2] this [of 3] this [of 4]
  show ?thesis using c by (simp add: itr_modes_def rate_spec_def c_def [symmetric] u and_not_3)
qed

section \<open>The settings\<close>

text \<open>What the rest of the driver may rely on.\<close>

definition settings_ok :: "board \<Rightarrow> settings \<Rightarrow> bool" where
  "settings_ok b s \<longleftrightarrow> tx_int_delay s \<le> 0xFFFF \<and> tx_abs_int_delay s \<le> 0xFFFF \<and> rx_int_delay s \<le> 0xFFFF \<and>
     rx_abs_int_delay s \<le> 0xFFFF \<and>
     ((rate_setting s, set_rate s) \<in> {(0, 0), (1, 20000), (3, 20000), (4, 4)} \<or>
       100 \<le> set_rate s \<and> set_rate s \<le> 100000 \<and> rate_setting s = set_rate s AND NOT 3) \<and>
     int_mode s \<in> {0 .. (if has_msix b then 2 else 1)} \<and>
     (numa_node s = - 1 \<or> 0 \<le> numa_node s \<and> numa_node s < max_numnodes b \<and> node_online b (numa_node s))"

text \<open>The settings as they follow from what the user gave, in terms of integers.\<close>

definition settings_choice :: "board \<Rightarrow> module_params \<Rightarrow> nat \<Rightarrow> settings \<Rightarrow> bool" where
  "settings_choice b p bd s \<longleftrightarrow>
     uint (tx_int_delay s) = user_choice (p_TxIntDelay p) bd 0 0xFFFF 8 \<and>
     uint (tx_abs_int_delay s) = user_choice (p_TxAbsIntDelay p) bd 0 0xFFFF 32 \<and>
     uint (rx_int_delay s) = user_choice (p_RxIntDelay p) bd 0 0xFFFF 0 \<and>
     uint (rx_abs_int_delay s) = user_choice (p_RxAbsIntDelay p) bd 0 0xFFFF 8 \<and>
     (uint (set_rate s), uint (rate_setting s)) = rate_spec (rate_choice (p_InterruptThrottleRate p) bd) \<and>
     (let m = if has_msix b then 2 else 1 in int_mode s = user_choice (p_IntMode p) bd 0 m m) \<and>
     (let n = user_choice (p_Node p) bd 0 (max_numnodes b - 1) (- 1) in
       numa_node s = (if n = - 1 \<or> node_online b n then n else - 1)) \<and>
     (has_eee b \<longrightarrow> eee_disable s = (user_choice (p_EEE p) bd 0 1 1 = 0)) \<and>
     (is_ich8lan b \<longrightarrow> kmrn_lock_loss s = (user_choice (p_KumeranLockLoss p) bd 0 1 1 = 1))"

lemma checked_node_choice:
  assumes "c_ints given" and "0 < max_numnodes b" "max_numnodes b \<le> 2 ^ 31"
  shows "checked_node b given bd = (let n = user_choice given bd 0 (max_numnodes b - 1) (- 1) in
    if n = - 1 \<or> node_online b n then n else - 1)"
proof -
  define n where "n = user_choice given bd 0 (max_numnodes b - 1) (- 1)"
  have "- (2 ^ 31) \<le> n" "n < 2 ^ 31" using assms by (auto simp: n_def user_choice_def)
  then have "sint (word_of_int n :: u32) = n" by (simp add: signed_of_int signed_take_bit_int_eq_self)
  moreover have "checked_param given bd (node_option b) = word_of_int n"
    using range_choice [OF assms(1), of 0 "max_numnodes b - 1" bd "- 1"] assms(2,3) by (simp add: node_option_def n_def)
  moreover have "n = - 1" if "\<not> bd < List.length given" using that by (simp add: n_def user_choice_def)
  ultimately show ?thesis by (auto simp: checked_node_def Let_def node_option_def n_def [symmetric])
qed

lemma check_options_choice:
  assumes p: "params_ok p" and b: "kstrdup_ok b" "0 < max_numnodes b" "max_numnodes b \<le> 2 ^ 31"
  shows "settings_choice b p bd (e1000e_check_options b p bd s)"
proof -
  have rate: "map_prod uint uint (itr_modes (given_itr (p_InterruptThrottleRate p) bd)) =
      rate_spec (rate_choice (p_InterruptThrottleRate p) bd)"
    using p given_itr_choice [of "p_InterruptThrottleRate p" bd] itr_modes_spec by (simp add: params_ok_def)
  have "checked_param g bd \<lparr>opt_type = range_option 0 1, opt_def = 1\<rparr> = word_of_int (user_choice g bd 0 1 1) \<and>
      user_choice g bd 0 1 1 \<in> {0, 1}" if "c_ints g" for g
    using range_choice [OF that, of 0 1 bd 1] by (auto simp: user_choice_def)
  then have switch: "checked_param g bd (on_off_option 1) = 0 \<longleftrightarrow> user_choice g bd 0 1 1 = 0"
    "user_choice g bd 0 1 1 = 0 \<or> user_choice g bd 0 1 1 = 1" if "c_ints g" for g
    using that by (force simp: on_off_range)+
  obtain r t where modes: "itr_modes (given_itr (p_InterruptThrottleRate p) bd) = (r, t)" by fastforce
  show ?thesis
    using p b rate switch [of "p_EEE p"] switch [of "p_KumeranLockLoss p"] checked_node_choice [of "p_Node p" b bd]
    by (auto simp: settings_choice_def e1000e_check_options_def check_rates_def check_switches_def params_ok_def Let_def modes
        tx_delay_option_def tx_abs_delay_option_def rx_delay_option_def rx_abs_delay_option_def int_mode_option_def uint_choice)
qed

lemma user_choice_range: "lo \<le> hi \<Longrightarrow> user_choice given bd lo hi d = d \<or> lo \<le> user_choice given bd lo hi d \<and> user_choice given bd lo hi d \<le> hi"
  by (auto simp: user_choice_def)

lemma settings_choice_ok:
  assumes c: "settings_choice b p bd s" and n: "0 < max_numnodes b"
  shows "settings_ok b s"
proof -
  have delays: "w \<le> 0xFFFF" if "uint w = user_choice g bd 0 0xFFFF d" "d \<le> 0xFFFF" "0 \<le> d" for w :: u32 and g d
    using user_choice_range [of 0 "0xFFFF" g bd d] that by (auto simp: word_le_def)
  have rate: "uint (set_rate s) = fst (rate_spec (rate_choice g bd)) \<and> uint (rate_setting s) = snd (rate_spec (rate_choice g bd)) \<Longrightarrow>
      (rate_setting s, set_rate s) \<in> {(0, 0), (1, 20000), (3, 20000), (4, 4)} \<or>
       100 \<le> set_rate s \<and> set_rate s \<le> 100000 \<and> rate_setting s = set_rate s AND NOT 3" for g
    by (cases rule: rate_choice_cases [of g bd])
      (auto simp: rate_spec_def word_uint_eq_iff word_le_def and_not_3)
  have m: "int_mode s = (let m = if has_msix b then 2 else 1 in user_choice (p_IntMode p) bd 0 m m)"
    and n': "numa_node s = (let n = user_choice (p_Node p) bd 0 (max_numnodes b - 1) (- 1) in
       if n = - 1 \<or> node_online b n then n else - 1)"
    and d: "uint (tx_int_delay s) = user_choice (p_TxIntDelay p) bd 0 0xFFFF 8"
      "uint (tx_abs_int_delay s) = user_choice (p_TxAbsIntDelay p) bd 0 0xFFFF 32"
      "uint (rx_int_delay s) = user_choice (p_RxIntDelay p) bd 0 0xFFFF 0"
      "uint (rx_abs_int_delay s) = user_choice (p_RxAbsIntDelay p) bd 0 0xFFFF 8"
    and r: "(uint (set_rate s), uint (rate_setting s)) = rate_spec (rate_choice (p_InterruptThrottleRate p) bd)"
    using c by (simp_all only: settings_choice_def Let_def)
  have "int_mode s \<in> {0 .. (if has_msix b then 2 else 1)}"
    using m by (auto simp: user_choice_def)
  moreover have "numa_node s = - 1 \<or> 0 \<le> numa_node s \<and> numa_node s < max_numnodes b \<and> node_online b (numa_node s)"
    using n' n user_choice_range [of 0 "max_numnodes b - 1" "p_Node p" bd "- 1"] by (auto simp: Let_def split: if_splits)
  moreover note delays [OF d(1)] delays [OF d(2)] delays [OF d(3)] delays [OF d(4)]
    rate [of "p_InterruptThrottleRate p"]
  ultimately show ?thesis using r by (simp add: settings_ok_def prod_eq_iff)
qed


definition sample_params :: module_params where
  "sample_params = \<lparr>p_TxIntDelay = [- 5], p_TxAbsIntDelay = [64], p_RxIntDelay = [], p_RxAbsIntDelay = [70000],
     p_InterruptThrottleRate = [8001], p_IntMode = [3], p_SmartPowerDownEnable = [], p_KumeranLockLoss = [],
     p_CrcStripping = [0], p_EEE = [], p_Node = [7]\<rparr>"

definition sample_board :: board where
  "sample_board = \<lparr>has_msix = True, has_smart_power_down = False, is_ich8lan = False, has_eee = True,
     kstrdup_ok = True, max_numnodes = 4, node_online = (\<lambda>n. n = 0)\<rparr>"

definition sample_settings :: settings where
  "sample_settings = \<lparr>tx_int_delay = 0, tx_abs_int_delay = 0, rx_int_delay = 0, rx_abs_int_delay = 0, set_rate = 0,
     rate_setting = 0, int_mode = 0, smart_power_down = False, strips_crc = False, kmrn_lock_loss = False,
     eee_disable = False, numa_node = 0\<rparr>"


end
