(* ===== verification/Coalesce.thy ===== *)
theory Coalesce
  imports Irq
begin

text \<open>
  The interrupt rate as \<open>ethtool.c\<close> shows and sets it: a mode from 0 to 4 or the time between two
  interrupts in microseconds.
\<close>

unbundle bit_operations_syntax

definition e1000_get_coalesce :: "u32 if_io" where
  "e1000_get_coalesce = do {
     q \<leftarrow> gets irq;
     return (if itr_setting q \<le> 4 then itr_setting q else 1000000 div itr_setting q) }"

definition coalesce_refused :: "u32 \<Rightarrow> bool" where
  "coalesce_refused usecs \<longleftrightarrow>
     usecs > E1000_MAX_ITR_USECS \<or> usecs > 4 \<and> usecs < E1000_MIN_ITR_USECS \<or> usecs = 2"

definition e1000_set_coalesce :: "u32 \<Rightarrow> (halt + s32) if_io" where
  "e1000_set_coalesce usecs =
     (if coalesce_refused usecs then return (Inr (- EINVAL))
      else do {
        (if usecs = 4 then set_irq (\<lambda>q. q\<lparr>itr_setting := 4, itr := 4\<rparr>)
         else if usecs \<le> 3 then set_irq (\<lambda>q. q\<lparr>itr := 20000, itr_setting := usecs\<rparr>)
         else set_irq (\<lambda>q. q\<lparr>itr := 1000000 div usecs, itr_setting := (1000000 div usecs) AND NOT 3\<rparr>));
        q \<leftarrow> gets irq;
        r \<leftarrow> e1000e_write_itr (if itr_setting q \<noteq> 0 then itr q else 0);
        case r of
          Inl e \<Rightarrow> return (Inl e)
        | Inr _ \<Rightarrow> return (Inr 0) })"

end
