(* ===== verification/Irq_System.thy ===== *)
theory Irq_System
  imports Irq_Frame Params Coalesce
begin

text \<open>
  The network interface as one system: the two rings, the interrupts and the poll that serves both.
  Interrupts are masked while a poll is scheduled, and the end of a poll unmasks them, so that no
  cause is left unserved; every poll returns within its budget with the sent packets freed and the
  received ones handed up.
\<close>

unbundle bit_operations_syntax

section \<open>Weakest preconditions of the primitives\<close>

named_theorems if_wp \<open>weakest preconditions of the interrupt layer\<close>

lemma wp_on_nic [if_wp]:
  "wp (on_nic m) Q = (\<lambda>s. wp m (\<lambda>a t. Q a (s\<lparr>nic_of := t\<rparr>)) (nic_of s))"
  by (simp add: wp_def on_nic_def fun_eq_iff case_prod_beta Let_def)

lemma wp_if_os [if_wp]: "wp (if_os e) Q = (\<lambda>s. Q () (s\<lparr>if_trace := e # if_trace s\<rparr>))"
  by (simp add: if_os_def wp)

lemma wp_set_irq [if_wp]: "wp (set_irq f) Q = (\<lambda>s. Q () (s\<lparr>irq := f (irq s)\<rparr>))"
  by (simp add: set_irq_def wp)

section \<open>Rates\<close>

definition itr_ok :: "irq_adapter \<Rightarrow> bool" where
  "itr_ok q \<longleftrightarrow> itr q \<le> 100000 \<and> tx_itr q \<le> 2 \<and> rx_itr q \<le> 2"

lemma update_itr_level: "level \<le> 2 \<Longrightarrow> e1000_update_itr level p b \<le> 2"
  by (auto simp: e1000_update_itr_def)

lemma conservative_level:
  "level \<le> 2 \<Longrightarrow> conservative setting level \<le> 2"
  "setting = 3 \<Longrightarrow> conservative setting level \<noteq> 0"
  by (auto simp: conservative_def)

lemma itr_of_level_bound: "old \<le> 100000 \<Longrightarrow> itr_of_level level old \<le> 100000"
  by (auto simp: itr_of_level_def)

lemma itr_step_bound: "old \<le> 100000 \<Longrightarrow> new \<le> 100000 \<Longrightarrow> itr_step old new \<le> 100000"
  by (auto simp: itr_step_def min_def)

lemma unat_rate: "rate \<le> 100000 \<Longrightarrow> unat (rate * 256 :: u32) = unat rate * 256"
  by (simp add: unat_word_ariths word_le_nat_alt)

lemma itr_interval_ok:
  assumes "rate \<le> 100000"
  shows "itr_interval rate = Inr (if rate = 0 then 0 else 1000000000 div (rate * 256))"
proof -
  have "rate * 256 \<noteq> 0" if "rate \<noteq> 0"
    using unat_rate [OF assms] that by (metis mult_eq_0_iff unat_0 unat_eq_zero zero_neq_numeral)
  then show ?thesis by (simp add: itr_interval_def)
qed

text \<open>Moderation only touches the moderation registers, and leaves the state well formed.\<close>

lemma eitr_regs: "E1000_EITR_82574 v \<noteq> E1000_IMS" if "v < 3"
proof -
  have "v = 0 \<or> v = 1 \<or> v = 2" using that by auto
  then show ?thesis by (auto simp: E1000_EITR_82574_def)
qed

definition if_kept :: "iface \<Rightarrow> iface \<Rightarrow> bool" where
  "if_kept s s' \<longleftrightarrow> net_kept (net_of (nic_of s)) (net_of (nic_of s')) \<and>
     net_same_tx (net_of (nic_of s)) (net_of (nic_of s')) \<and>
     rxr (nic_of s') = rxr (nic_of s) \<and> rx_trace (nic_of s') = rx_trace (nic_of s) \<and>
     rxc (nic_of s') = rxc (nic_of s) \<and> rx_kernel_of (nic_of s') = rx_kernel_of (nic_of s) \<and>
     is_discarding (rxa (nic_of s')) = is_discarding (rxa (nic_of s)) \<and>
     k_napi_prep s' = k_napi_prep s \<and> msix_entries (irq s') = msix_entries (irq s) \<and>
     itr_setting (irq s') = itr_setting (irq s)"

interpretation ik: monad_frame if_kept
  by standard (auto simp: if_kept_def nk.refl nt.refl intro: nk.trans nt.trans)

text \<open>The parts of the invariant of the two rings that such steps keep.\<close>

lemma if_kept_rings:
  assumes "if_kept s s'"
  shows "other_code (net_of (nic_of s)) (net_of (nic_of s'))" "rx_other_code (nic_of s) (nic_of s')"
    "is_down s' = is_down s" "unmasked (trace (hw_of s')) = unmasked (trace (hw_of s))"
    "set (os_trace (net_of (nic_of s))) \<subseteq> set (os_trace (net_of (nic_of s')))"
  using assms
  by (simp_all add: if_kept_def net_same_tx_def net_kept_def rx_other_code_def rx_env_def rx_tail_def hw_kept_def)

lemma ik_net:
  assumes "state_io_rel net_kept m" and "state_io_rel net_same_tx m"
  shows "state_io_rel if_kept (if_net m)"
  using assms by (auto simp: state_io_rel_def on_nic_def on_net_def if_kept_def Let_def case_prod_beta)

lemma ik_hw:
  assumes "\<And>r. r \<in> {E1000_RDT 0, E1000_TDT 0} \<Longrightarrow> state_io_rel (hw_kept r) m"
  shows "state_io_rel if_kept (if_net (on_hw m))"
  using assms by (intro ik_net nk_on_hw nt_on_hw) auto

lemma ik_er32: "q \<noteq> E1000_ICR \<Longrightarrow> state_io_rel if_kept (if_er32 q)"
  by (intro ik_hw hk_er32)

lemma ik_ew32:
  "q \<noteq> E1000_RDT 0 \<Longrightarrow> q \<noteq> E1000_TDT 0 \<Longrightarrow> q \<noteq> E1000_IMS \<Longrightarrow> q \<noteq> E1000_IMC \<Longrightarrow> state_io_rel if_kept (if_ew32 q v)"
  by (intro ik_hw hk_ew32) auto

lemma ik_flush: "state_io_rel if_kept (if_net (on_hw e1e_flush))"
  by (intro ik_hw hk_flush)

lemma ik_if_os: "state_io_rel if_kept (if_os e)"
  by (simp add: if_os_def ik.frame_modify if_kept_def nk.refl nt.refl)

lemma ik_set_irq:
  "(\<And>q. msix_entries (f q) = msix_entries q \<and> itr_setting (f q) = itr_setting q) \<Longrightarrow> state_io_rel if_kept (set_irq f)"
  by (simp add: set_irq_def ik.frame_modify if_kept_def nk.refl nt.refl)

lemma wp_rel: "state_io_rel R m \<Longrightarrow> wp m (\<lambda>_ s'. R s s') s"
  by (simp add: wp_def state_io_rel_def)

lemma relI: "(\<And>s. wp m (\<lambda>_ s'. R s s') s) \<Longrightarrow> state_io_rel R m"
  by (simp add: wp_def state_io_rel_def)

text \<open>A device access of this layer changes nothing of the layer.\<close>

lemma wp_if_net:
  assumes "state_io_rel if_kept (if_net m)"
  shows "wp (if_net m) (\<lambda>_ s'. if_kept s s' \<and> irq s' = irq s \<and> if_trace s' = if_trace s \<and> rxa (nic_of s') = rxa (nic_of s)) s"
  using wp_rel [OF assms, of s]
  by (simp add: wp_def on_nic_def on_net_def Let_def case_prod_beta)

section \<open>Setting the rate\<close>

lemma wp_write_itr:
  assumes "\<not> msix_entries (irq s)" and "rate \<le> 100000"
  shows "wp (e1000e_write_itr rate) (\<lambda>r s'. r = Inr () \<and> if_kept s s' \<and> irq s' = irq s \<and> if_trace s' = if_trace s) s"
  unfolding e1000e_write_itr_def wp itr_interval_ok [OF assms(2)] sum.case
  using assms(1) by (auto simp: E1000_RDT_def E1000_TDT_def intro!: wp_mono [OF wp_if_net] ik_ew32)

text \<open>The rate that the traffic since the last poll asks for.\<close>

definition itr_target :: "iface \<Rightarrow> u32" where
  "itr_target s = (let q = irq s; n = ad (net_of (nic_of s)); a = rxa (nic_of s) in
     if link_speed q \<noteq> SPEED_1000 then 4000
     else if aim_disabled q then 0
     else itr_of_level (max
       (conservative (itr_setting q) (e1000_update_itr (rx_itr q) (sint (total_rx_packets a)) (sint (total_rx_bytes a))))
       (conservative (itr_setting q) (e1000_update_itr (tx_itr q) (sint (total_tx_packets n)) (sint (total_tx_bytes n)))))
       (itr q))"

lemma wp_choose_itr:
  assumes "itr_ok (irq s)"
  shows "wp choose_itr (\<lambda>t s'. t = itr_target s \<and> if_kept s s' \<and> if_trace s' = if_trace s \<and> nic_of s' = nic_of s \<and>
     tx_itr (irq s') \<le> 2 \<and> rx_itr (irq s') \<le> 2 \<and>
     irq s' = (irq s)\<lparr>tx_itr := tx_itr (irq s'), rx_itr := rx_itr (irq s')\<rparr>) s"
  using assms
  by (auto simp: choose_itr_def itr_target_def wp if_wp Let_def itr_ok_def if_kept_def nk.refl nt.refl
      intro: conservative_level update_itr_level)

lemma itr_target_bound: "itr_ok (irq s) \<Longrightarrow> itr_target s \<le> 100000"
  by (simp add: itr_target_def Let_def itr_ok_def itr_of_level_bound)

lemma wp_set_itr:
  assumes ok: "itr_ok (irq s)" and msi: "\<not> msix_entries (irq s)"
  shows "wp e1000_set_itr (\<lambda>r s'. r = Inr () \<and> if_kept s s' \<and> itr_ok (irq s') \<and> if_trace s' = if_trace s \<and>
     itr (irq s') = itr_step (itr (irq s)) (itr_target s)) s"
proof -
  let ?old = "itr (irq s)" and ?t = "itr_target s"
  define n where "n = itr_step ?old ?t"
  have n: "n \<le> 100000" using itr_step_bound itr_target_bound [OF ok] ok by (simp add: n_def itr_ok_def)
  have id: "itr_step ?old ?old = ?old" by (simp add: itr_step_def)
  have after: "wp (do {
       set_irq (\<lambda>q. q\<lparr>itr := n, rx_itr_val := n\<rparr>);
       s \<leftarrow> get;
       if msix_entries (irq s) then do { set_irq (\<lambda>q. q\<lparr>set_itr := True\<rparr>); return (Inr ()) }
       else e1000e_write_itr n }) (\<lambda>r s'. r = Inr () \<and> if_kept s s' \<and> itr_ok (irq s') \<and> if_trace s' = if_trace s \<and>
         itr (irq s') = n) s1"
    if s1: "if_kept s s1" "if_trace s1 = if_trace s" "itr_ok (irq s1)" for s1
  proof -
    let ?s = "s1\<lparr>irq := (irq s1)\<lparr>itr := n, rx_itr_val := n\<rparr>\<rparr>"
    have "if_kept s ?s" using s1(1) by (simp add: if_kept_def)
    moreover have "\<not> msix_entries (irq ?s)" using msi s1(1) by (simp add: if_kept_def)
    moreover have "itr_ok (irq ?s)" using s1(3) n by (simp add: itr_ok_def)
    ultimately show ?thesis
      using s1(2) ik.trans by (auto simp: wp if_wp intro!: wp_mono [OF wp_write_itr [OF _ n]])
  qed
  show ?thesis
    unfolding e1000_set_itr_def wp Let_def
  proof (rule wp_mono [OF wp_choose_itr [OF ok]], elim conjE exE, goal_cases)
    case (1 t s1)
    have "itr (irq s1) = ?old" by (subst 1(7)) simp
    moreover from this have "itr_ok (irq s1)" using ok 1(5,6) by (simp add: itr_ok_def)
    ultimately show ?case
      using after [OF 1(2,3), unfolded wp n_def] 1(1-3) id by (auto simp: n_def)
  qed
qed

section \<open>Unmasking\<close>

lemma unmasked_wr:
  "v AND IMS_ENABLE_MASK = IMS_ENABLE_MASK \<Longrightarrow> unmasked (trace (wr E1000_IMS v h))"
  "r \<noteq> E1000_ICR \<Longrightarrow> unmasked (trace (rd r h)) = unmasked (trace h)"
  using wr_trace [of E1000_IMS v h] by (auto simp: rd_def log_event_def)

lemma ims_mask:
  "IMS_ENABLE_MASK AND IMS_ENABLE_MASK = IMS_ENABLE_MASK"
  "(IMS_ENABLE_MASK OR E1000_IMS_ECCER) AND IMS_ENABLE_MASK = IMS_ENABLE_MASK"
  by (auto intro!: bit_word_eqI simp: bit_simps)

text \<open>Enabling interrupts leaves both rings alone.\<close>

definition rings_kept :: "iface \<Rightarrow> iface \<Rightarrow> bool" where
  "rings_kept s s' \<longleftrightarrow> other_code (net_of (nic_of s)) (net_of (nic_of s')) \<and> rx_other_code (nic_of s) (nic_of s') \<and>
     is_down s' = is_down s \<and> set (os_trace (net_of (nic_of s))) \<subseteq> set (os_trace (net_of (nic_of s'))) \<and>
     is_discarding (rxa (nic_of s')) = is_discarding (rxa (nic_of s)) \<and>
     k_napi_prep s' = k_napi_prep s \<and> msix_entries (irq s') = msix_entries (irq s)"

lemma rings_kept_refl: "rings_kept s s"
  by (simp add: rings_kept_def other_code_def rx_other_code_def)

lemma rings_kept_trans: "rings_kept a b \<Longrightarrow> rings_kept b c \<Longrightarrow> rings_kept a c"
  by (auto simp: rings_kept_def other_code_def rx_other_code_def)

lemma if_kept_imp: "if_kept s s' \<Longrightarrow> rings_kept s s'"
  using if_kept_rings [of s s'] by (simp add: rings_kept_def if_kept_def)

lemma ims_regs: "E1000_IMS \<noteq> E1000_TDT 0" "E1000_IMS \<noteq> E1000_RDT 0"
  by (simp_all add: E1000_TDT_def E1000_RDT_def)

lemma last_write_wr: "last_write (trace (wr r v h)) q = (if r = q then Some v else last_write (trace h) q)"
  by (simp add: last_write_map)

lemma last_write_rd: "last_write (trace (rd r h)) q = last_write (trace h) q"
  by (simp add: rd_def log_event_def)

lemma wp_irq_enable:
  assumes "\<not> msix_entries (irq s)"
  shows "wp e1000_irq_enable (\<lambda>_ s'. rings_kept s s' \<and> unmasked (trace (hw_of s')) \<and> irq s' = irq s \<and>
     if_trace s' = if_trace s) s"
  using assms
  by (auto simp: e1000_irq_enable_def wp net_wp if_wp unmasked_wr ims_mask rings_kept_def other_code_def
      rx_other_code_def rx_env_def rx_tail_def tx_tail_def last_write_wr last_write_rd ims_regs)

section \<open>The poll\<close>

fun napi_busy :: "if_event list \<Rightarrow> bool" where
  "napi_busy [] \<longleftrightarrow> False"
| "napi_busy (NapiSchedule # t) \<longleftrightarrow> True"
| "napi_busy (NapiComplete _ # t) \<longleftrightarrow> False"
| "napi_busy (_ # t) \<longleftrightarrow> napi_busy t"

definition poll_end :: "nat \<Rightarrow> nat \<Rightarrow> iface \<Rightarrow> iface \<Rightarrow> bool" where
  "poll_end w k s s' \<longleftrightarrow>
     (if k < w then if_trace s' = NapiComplete k # if_trace s \<and> (is_down s \<or> unmasked (trace (hw_of s')))
      else if_trace s' = if_trace s \<and> unmasked (trace (hw_of s')) = unmasked (trace (hw_of s)))"

definition if_rings :: "iface \<Rightarrow> nat list \<Rightarrow> packet list \<Rightarrow> rx_slot list \<Rightarrow> bool" where
  "if_rings s acc ps xs \<longleftrightarrow> sys_inv (net_of (nic_of s)) acc ps \<and> rx_inv (nic_of s) xs"

lemma if_rings_kept: "if_rings s acc ps xs \<Longrightarrow> rings_kept s s' \<Longrightarrow> if_rings s' acc ps xs"
  unfolding if_rings_def rings_kept_def rx_other_code_def using step_other rx_inv_keep by blast

text \<open>What a poll does: first the sent packets, then the received ones.\<close>

definition reported :: "iface \<Rightarrow> packet list \<Rightarrow> nat" where
  "reported s ps = (let r = tx_ring (net_of (nic_of s)) in done_packets ps (view r (next_to_clean r)))"

definition rings_polled :: "nat \<Rightarrow> iface \<Rightarrow> nat list \<Rightarrow> packet list \<Rightarrow> rx_slot list \<Rightarrow> iface \<Rightarrow> bool" where
  "rings_polled w s acc ps xs s' \<longleftrightarrow> (let zs = done_prefix w xs in
     freed (os_trace (net_of (nic_of s'))) = freed (os_trace (net_of (nic_of s))) @ map (skb_id \<circ> snd) (take (reported s ps) ps) \<and>
     collect frame_of (rx_trace (nic_of s')) = rev (rx_whole (rxc (nic_of s))
       (if is_discarding (rxa (nic_of s)) then tl (rx_split zs) else rx_split zs)) @ collect frame_of (rx_trace (nic_of s)) \<and>
     is_down s' = is_down s \<and> set (os_trace (net_of (nic_of s))) \<subseteq> set (os_trace (net_of (nic_of s'))) \<and>
     k_napi_prep s' = k_napi_prep s \<and> \<not> msix_entries (irq s') \<and>
     (\<exists>xs'. if_rings s' acc (drop (reported s ps) ps) xs'))"

lemma rings_polled_kept:
  assumes p: "rings_polled w s acc ps xs s1" and k: "rings_kept s1 s2"
  shows "rings_polled w s acc ps xs s2"
proof -
  obtain xs' where "if_rings s1 acc (drop (reported s ps) ps) xs'" using p by (auto simp: rings_polled_def Let_def)
  then have "\<exists>xs'. if_rings s2 acc (drop (reported s ps) ps) xs'" using if_rings_kept [OF _ k] by blast
  moreover have "freed (os_trace (net_of (nic_of s2))) = freed (os_trace (net_of (nic_of s1)))"
    "rx_trace (nic_of s2) = rx_trace (nic_of s1)" "is_down s2 = is_down s1" "k_napi_prep s2 = k_napi_prep s1"
    "msix_entries (irq s2) = msix_entries (irq s1)"
    "set (os_trace (net_of (nic_of s1))) \<subseteq> set (os_trace (net_of (nic_of s2)))"
    using k by (simp_all add: rings_kept_def other_code_def rx_other_code_def)
  ultimately show ?thesis
    using p unfolding rings_polled_def Let_def by (metis order_trans)
qed

lemma wp_conjI: "wp m P s \<Longrightarrow> wp m Q s \<Longrightarrow> wp m (\<lambda>a s. P a s \<and> Q a s) s"
  by (simp add: wp_conj)

lemma wp_clean_tx_if:
  assumes "if_rings s acc ps xs"
  shows "wp (if_net e1000_clean_tx_irq) (\<lambda>r s'. r = Inr True \<and> if_rings s' acc (drop (reported s ps) ps) xs \<and>
     freed (os_trace (net_of (nic_of s'))) = freed (os_trace (net_of (nic_of s))) @ map (skb_id \<circ> snd) (take (reported s ps) ps) \<and>
     net_kept (net_of (nic_of s)) (net_of (nic_of s')) \<and> irq s' = irq s \<and> if_trace s' = if_trace s \<and>
     k_napi_prep s' = k_napi_prep s \<and> nic_of s' = (nic_of s)\<lparr>net_of := net_of (nic_of s')\<rparr>) s"
proof -
  let ?n = "net_of (nic_of s)"
  have inv: "sys_inv ?n acc ps" "tx_inv (tx_ring ?n) ps" "rx_inv (nic_of s) xs"
    using assms by (auto simp: if_rings_def sys_inv_def)
  have sys: "wp e1000_clean_tx_irq (\<lambda>r n'. r = Inr True \<and> sys_inv n' acc (drop (reported s ps) ps)) ?n"
    by (rule wpI) (use step_clean [OF inv(1)] in \<open>auto simp: reported_def Let_def\<close>)
  have rx: "rx_inv ((nic_of s)\<lparr>net_of := n'\<rparr>) xs" if "net_kept ?n n'" for n'
    by (rule rx_inv_keep [OF inv(3)])
      (use that in \<open>simp_all add: net_kept_def hw_kept_def rx_env_def rx_tail_def\<close>)
  show ?thesis
    unfolding if_wp net_wp
    by (rule wp_mono [OF wp_conjI [OF sys wp_conjI [OF wp_clean_tx_irq [OF inv(2)] wp_rel [OF nk_clean_tx]]]])
      (auto simp: if_rings_def reported_def Let_def rx)
qed

lemma wp_clean_rx_if:
  assumes "if_rings s acc ps xs"
  shows "wp (on_nic (e1000_clean_rx_irq w)) (\<lambda>r s'. (let zs = done_prefix w xs in r = Inr (zs \<noteq> [], List.length zs) \<and>
     (\<exists>xs'. if_rings s' acc ps xs') \<and>
     collect frame_of (rx_trace (nic_of s')) = rev (rx_whole (rxc (nic_of s))
       (if is_discarding (rxa (nic_of s)) then tl (rx_split zs) else rx_split zs)) @ collect frame_of (rx_trace (nic_of s)) \<and>
     net_same_tx (net_of (nic_of s)) (net_of (nic_of s')) \<and> irq s' = irq s \<and> if_trace s' = if_trace s \<and>
     k_napi_prep s' = k_napi_prep s)) s"
proof -
  have inv: "sys_inv (net_of (nic_of s)) acc ps" "rx_inv (nic_of s) xs" using assms by (simp_all add: if_rings_def)
  have tx: "sys_inv n' acc ps" if "net_same_tx (net_of (nic_of s)) n'" for n'
    using step_other [OF inv(1)] that by (simp add: net_same_tx_def)
  show ?thesis
    unfolding if_wp
    by (rule wp_mono [OF wp_conjI [OF wp_clean_rx_irq [OF inv(2)] wp_rel [OF rk_clean_rx]]])
      (auto simp: if_rings_def nic_kept_def rx_polled_def Let_def tx)
qed

lemma rings_polledI:
  assumes tx: "freed (os_trace (net_of (nic_of s1))) = freed (os_trace (net_of (nic_of s))) @ map (skb_id \<circ> snd) (take (reported s ps) ps)"
      "net_kept (net_of (nic_of s)) (net_of (nic_of s1))" "irq s1 = irq s" "k_napi_prep s1 = k_napi_prep s"
      "nic_of s1 = (nic_of s)\<lparr>net_of := net_of (nic_of s1)\<rparr>"
    and rx: "\<exists>xs'. if_rings s2 acc (drop (reported s ps) ps) xs'"
      "collect frame_of (rx_trace (nic_of s2)) = rev (rx_whole (rxc (nic_of s1))
       (if is_discarding (rxa (nic_of s1)) then tl (rx_split zs) else rx_split zs)) @ collect frame_of (rx_trace (nic_of s1))"
      "net_same_tx (net_of (nic_of s1)) (net_of (nic_of s2))" "irq s2 = irq s1" "k_napi_prep s2 = k_napi_prep s1"
    and zs: "zs = done_prefix w xs" and m: "\<not> msix_entries (irq s)"
  shows "rings_polled w s acc ps xs s2"
proof -
  have "rxc (nic_of s1) = rxc (nic_of s)" "rxa (nic_of s1) = rxa (nic_of s)" "rx_trace (nic_of s1) = rx_trace (nic_of s)"
    by (subst tx(5), simp)+
  then show ?thesis
    using tx(1-4) rx m unfolding rings_polled_def Let_def zs net_kept_def net_same_tx_def other_code_def by auto
qed

text \<open>The end of a poll, when the budget was not used up.\<close>

definition poll_finish :: "nat \<Rightarrow> iface \<Rightarrow> (halt + nat) if_io" where
  "poll_finish k s = do {
     r \<leftarrow> (if itr_setting (irq s) AND 3 \<noteq> 0 then e1000_set_itr else return (Inr ()));
     case r of
       Inl e \<Rightarrow> return (Inl e)
     | Inr _ \<Rightarrow> do {
         if_os (NapiComplete k);
         s \<leftarrow> get;
         (if \<not> is_down s then
            (if msix_entries (irq s) then if_ew32 E1000_IMS (rx_ims_val (irq s)) else e1000_irq_enable)
          else return ());
         return (Inr k) } }"

lemma wp_poll_finish:
  assumes ok: "itr_ok (irq s1)" and m: "\<not> msix_entries (irq s1)"
  shows "wp (poll_finish k s) (\<lambda>r s'. r = Inr k \<and> rings_kept s1 s' \<and> itr_ok (irq s') \<and>
     if_trace s' = NapiComplete k # if_trace s1 \<and> (is_down s1 \<or> unmasked (trace (hw_of s')))) s1"
proof -
  have rate: "wp (if itr_setting (irq s) AND 3 \<noteq> 0 then e1000_set_itr else return (Inr ()))
      (\<lambda>r s'. r = Inr () \<and> rings_kept s1 s' \<and> itr_ok (irq s') \<and> if_trace s' = if_trace s1) s1"
    using wp_mono [OF wp_set_itr [OF ok m]] ok if_kept_imp rings_kept_refl by (auto simp: wp)
  have fin: "wp (do {
         if_os (NapiComplete k);
         s \<leftarrow> get;
         (if \<not> is_down s then
            (if msix_entries (irq s) then if_ew32 E1000_IMS (rx_ims_val (irq s)) else e1000_irq_enable)
          else return ());
         return (Inr k) }) (\<lambda>r s'. r = Inr k \<and> rings_kept s1 s' \<and> itr_ok (irq s') \<and>
     if_trace s' = NapiComplete k # if_trace s1 \<and> (is_down s1 \<or> unmasked (trace (hw_of s')))) s2"
    if s2: "rings_kept s1 s2" "itr_ok (irq s2)" "if_trace s2 = if_trace s1" for s2
  proof -
    let ?s = "s2\<lparr>if_trace := NapiComplete k # if_trace s1\<rparr>"
    have kept: "rings_kept s1 ?s" and down: "is_down ?s = is_down s1"
      using s2(1) by (simp_all add: rings_kept_def)
    have mm: "\<not> msix_entries (irq ?s)" using s2(1) m by (simp add: rings_kept_def)
    show ?thesis
    proof (cases "is_down s1")
      case True
      then show ?thesis using kept s2 down by (simp add: wp if_wp)
    next
      case False
      have "wp e1000_irq_enable (\<lambda>_ s'. rings_kept s1 s' \<and> itr_ok (irq s') \<and>
          if_trace s' = NapiComplete k # if_trace s1 \<and> unmasked (trace (hw_of s'))) ?s"
        by (rule wp_mono [OF wp_irq_enable [OF mm]]) (use s2(2) rings_kept_trans [OF kept] in auto)
      then show ?thesis using False mm down s2(3) by (simp add: wp if_wp)
    qed
  qed
  show ?thesis
    unfolding poll_finish_def
    by (rule wp_bind_mono [OF rate], elim conjE) (simp only: sum.case fin)
qed

lemma poll_finish_eq:
  "e1000e_poll weight = do {
     s \<leftarrow> get;
     r \<leftarrow> (if \<not> msix_entries (irq s) \<or> rx_ims_val (irq s) AND tx_ims_val (irq s) \<noteq> 0
          then if_net e1000_clean_tx_irq else return (Inr True));
     case r of
       Inl e \<Rightarrow> return (Inl e)
     | Inr tx_cleaned \<Rightarrow> do {
         r \<leftarrow> on_nic (e1000_clean_rx_irq weight);
         case r of
           Inl e \<Rightarrow> return (Inl e)
         | Inr (_, work) \<Rightarrow>
             (let work_done = (if tx_cleaned then work else weight) in
              if work_done < weight then poll_finish work_done s else return (Inr work_done)) } }"
  unfolding e1000e_poll_def poll_finish_def Let_def ..

lemma wp_nic_poll:
  assumes rings: "if_rings s acc ps xs" and ok: "itr_ok (irq s)" and m: "\<not> msix_entries (irq s)"
    and k: "k = List.length (done_prefix w xs)"
  shows "wp (e1000e_poll w) (\<lambda>r s'. r = Inr k \<and> rings_polled w s acc ps xs s' \<and> itr_ok (irq s') \<and> poll_end w k s s') s"
proof -
  have go: "(\<not> msix_entries (irq s) \<or> rx_ims_val (irq s) AND tx_ims_val (irq s) \<noteq> 0) = True" using m by simp
  have rest: "wp (if k < w then poll_finish k s else return (Inr k))
      (\<lambda>r s'. r = Inr k \<and> rings_polled w s acc ps xs s' \<and> itr_ok (irq s') \<and> poll_end w k s s') s2"
    if s2: "rings_polled w s acc ps xs s2" "irq s2 = irq s" "if_trace s2 = if_trace s"
      "unmasked (trace (hw_of s2)) = unmasked (trace (hw_of s))" for s2
  proof (cases "k < w")
    case True
    have m2: "itr_ok (irq s2)" "\<not> msix_entries (irq s2)" using s2(2) ok m by simp_all
    have d: "is_down s2 = is_down s" using s2(1) by (simp add: rings_polled_def Let_def)
    show ?thesis
      unfolding if_P [OF True]
      by (rule wp_mono [OF wp_poll_finish [OF m2]])
        (use True s2(3) d rings_polled_kept [OF s2(1)] in \<open>auto simp: poll_end_def\<close>)
  next
    case False
    then show ?thesis using s2 ok by (simp add: wp poll_end_def)
  qed
  show ?thesis
    unfolding poll_finish_eq wp go simp_thms
  proof (rule wp_mono [OF wp_clean_tx_if [OF rings]], elim conjE, goal_cases)
    case (1 r s1)
    note tx = 1
    show ?case
      unfolding tx(1) sum.case wp
    proof (rule wp_mono [OF wp_clean_rx_if [OF tx(2)]], unfold Let_def, elim conjE, goal_cases)
      case (1 q s2)
      note rx = 1
      have p: "rings_polled w s acc ps xs s2"
        by (rule rings_polledI [OF tx(3,4,5,7,8) rx(2,3,4,5,7) refl m])
      have "irq s2 = irq s" "if_trace s2 = if_trace s" "unmasked (trace (hw_of s2)) = unmasked (trace (hw_of s))"
        using tx(4,5,6) rx(4,5,6) by (simp_all add: net_kept_def net_same_tx_def hw_kept_def)
      from rest [OF p this] show ?case
        unfolding rx(1) sum.case prod.case k [symmetric] if_True wp .
    qed
  qed
qed

section \<open>The handlers\<close>

text \<open>Steps that leave the rings, the rate and the mask alone.\<close>

definition calm :: "iface \<Rightarrow> iface \<Rightarrow> bool" where
  "calm s s' \<longleftrightarrow> rings_kept s s' \<and> unmasked (trace (hw_of s')) = unmasked (trace (hw_of s)) \<and>
     itr (irq s') = itr (irq s) \<and> tx_itr (irq s') = tx_itr (irq s) \<and> rx_itr (irq s') = rx_itr (irq s) \<and>
     (napi_busy (if_trace s) \<longrightarrow> napi_busy (if_trace s'))"

interpretation ck: monad_frame calm
  by standard (auto simp: calm_def rings_kept_refl intro: rings_kept_trans)

lemma ck_net: "state_io_rel if_kept (if_net m) \<Longrightarrow> state_io_rel calm (if_net m)"
  by (rule relI, rule wp_mono [OF wp_if_net]) (auto simp: calm_def if_kept_imp if_kept_rings(4))

lemma ck_access:
  "q \<noteq> E1000_ICR \<Longrightarrow> state_io_rel calm (if_er32 q)"
  "r \<noteq> E1000_RDT 0 \<Longrightarrow> r \<noteq> E1000_TDT 0 \<Longrightarrow> r \<noteq> E1000_IMS \<Longrightarrow> r \<noteq> E1000_IMC \<Longrightarrow> state_io_rel calm (if_ew32 r v)"
  by (intro ck_net ik_er32 ik_ew32; assumption)+

lemma ck_state:
  "state_io_rel calm (if_net (on_hw (set_mac f)))" "state_io_rel calm (if_net (os (WorkScheduled w)))"
  "state_io_rel calm (if_net (set_ad (\<lambda>a. a\<lparr>total_tx_bytes := 0, total_tx_packets := 0\<rparr>)))"
  "state_io_rel calm (on_nic (set_rxa (\<lambda>a. a\<lparr>total_rx_bytes := 0, total_rx_packets := 0\<rparr>)))"
  by (auto simp: state_io_rel_def on_nic_def on_net_def on_hw_def set_ad_def set_rxa_def os_def calm_def rings_kept_def
      other_code_def rx_other_code_def rx_env_def rx_tail_def tx_tail_def Let_def)

lemma ck_if_os: "(\<And>t. napi_busy t \<Longrightarrow> napi_busy (e # t)) \<Longrightarrow> state_io_rel calm (if_os e)"
  by (auto simp: if_os_def intro!: ck.frame_modify) (simp add: calm_def rings_kept_def other_code_def rx_other_code_def)

lemma ck_set_irq:
  "(\<And>q. msix_entries (f q) = msix_entries q \<and> itr (f q) = itr q \<and> tx_itr (f q) = tx_itr q \<and> rx_itr (f q) = rx_itr q) \<Longrightarrow>
   state_io_rel calm (set_irq f)"
  unfolding set_irq_def by (rule ck.frame_modify) (simp add: calm_def rings_kept_def other_code_def rx_other_code_def)

lemma ck_lsc: "state_io_rel calm intr_lsc"
  unfolding intr_lsc_def
  by (intro ck.frames ck_state ck_access ck_if_os ck_set_irq; simp add: E1000_RDT_def E1000_TDT_def)

lemma ck_totals: "state_io_rel calm reset_tx_totals" "state_io_rel calm reset_rx_totals"
  unfolding reset_tx_totals_def reset_rx_totals_def by (rule ck_state)+

lemma wp_eccer: "wp intr_eccer (\<lambda>_ s'. calm s s' \<and> WorkScheduled reset_task \<in> set (os_trace (net_of (nic_of s')))) s"
proof -
  have "state_io_rel calm intr_eccer"
    unfolding intr_eccer_def by (intro ck.frames ck_state ck_access ck_set_irq; simp)
  moreover have "wp intr_eccer (\<lambda>_ s'. WorkScheduled reset_task \<in> set (os_trace (net_of (nic_of s')))) s"
    by (simp add: intr_eccer_def wp net_wp if_wp os_def)
  ultimately show ?thesis by (simp add: wp_conj wp_rel)
qed

text \<open>The kernel schedules a poll when none is scheduled.\<close>

definition napi_ok :: "iface \<Rightarrow> bool" where
  "napi_ok s \<longleftrightarrow> (\<forall>t. k_napi_prep s t \<longleftrightarrow> \<not> napi_busy t)"

definition reset_due :: "iface \<Rightarrow> bool" where
  "reset_due s \<longleftrightarrow> WorkScheduled reset_task \<in> set (os_trace (net_of (nic_of s)))"

lemma calm_rings: "calm s s' \<Longrightarrow> rings_kept s s'"
  by (simp add: calm_def)

lemma wp_napi_schedule:
  assumes "napi_ok s" and "state_io_rel calm m"
  shows "wp (napi_schedule m) (\<lambda>_ s'. calm s s' \<and> napi_busy (if_trace s')) s"
proof -
  have go: "wp (do { m; if_os NapiSchedule }) (\<lambda>_ s'. calm s s' \<and> napi_busy (if_trace s')) s"
    by (rule wp_conjI [OF wp_rel]) (auto simp: wp if_wp intro!: ck.frame_bind assms(2) ck_if_os)
  show ?thesis
    using assms(1) go ck.refl [of s] by (simp add: napi_schedule_def wp napi_ok_def)
qed

lemma wp_intr_cause:
  assumes "napi_ok s"
  shows "wp (intr_cause icr) (\<lambda>r s'. r = IRQ_HANDLED \<and> calm s s' \<and> (napi_busy (if_trace s') \<or> reset_due s')) s"
proof -
  have lsc: "wp (if icr AND E1000_ICR_LSC \<noteq> 0 then intr_lsc else return ()) (\<lambda>_ s'. calm s s') s"
    by (intro wp_rel ck.frames ck_lsc)
  have rest: "wp (do { s \<leftarrow> get;
     if icr AND E1000_ICR_ECCER \<noteq> 0 \<and> mac_type (mac (hw_of s)) \<ge> e1000_pch_lpt then do {
       intr_eccer;
       return IRQ_HANDLED }
     else do {
       napi_schedule (do { reset_tx_totals; reset_rx_totals });
       return IRQ_HANDLED } }) (\<lambda>r s'. r = IRQ_HANDLED \<and> calm s s' \<and> (napi_busy (if_trace s') \<or> reset_due s')) s1"
    if c: "calm s s1" for s1
  proof -
    have "napi_ok s1" using assms c by (simp add: napi_ok_def calm_def rings_kept_def)
    then have "wp (napi_schedule (do { reset_tx_totals; reset_rx_totals })) (\<lambda>_ s'. calm s1 s' \<and> napi_busy (if_trace s')) s1"
      by (rule wp_napi_schedule) (intro ck.frame_bind ck_totals)
    then have "wp (napi_schedule (do { reset_tx_totals; reset_rx_totals })) (\<lambda>_ s'. calm s s' \<and> napi_busy (if_trace s')) s1"
      by (rule wp_mono) (blast intro: ck.trans [OF c])
    moreover have "wp intr_eccer (\<lambda>_ s'. calm s s' \<and> reset_due s') s1"
      by (rule wp_mono [OF wp_eccer]) (auto simp: reset_due_def intro: ck.trans [OF c])
    ultimately show ?thesis unfolding wp by (auto elim: wp_mono)
  qed
  show ?thesis
    unfolding intr_cause_def by (rule wp_bind_mono [OF lsc rest])
qed

section \<open>The interface as a transition system\<close>

definition if_other :: "iface \<Rightarrow> iface \<Rightarrow> bool" where
  "if_other s s' \<longleftrightarrow> other_code (net_of (nic_of s)) (net_of (nic_of s')) \<and> rx_other_code (nic_of s) (nic_of s') \<and>
     set (os_trace (net_of (nic_of s))) \<subseteq> set (os_trace (net_of (nic_of s'))) \<and>
     k_napi_prep s' = k_napi_prep s \<and> \<not> msix_entries (irq s') \<and> itr_ok (irq s') \<and>
     (napi_busy (if_trace s) \<longrightarrow> napi_busy (if_trace s')) \<and>
     (is_down s' \<or> \<not> is_down s \<and> unmasked (trace (hw_of s')) = unmasked (trace (hw_of s)))"

type_synonym if_sys = "iface \<times> nat list"

text \<open>
  The kernel polls only what has been scheduled; the other code may change anything but the rings,
  as long as it leaves the mask alone or takes the interface down.
\<close>

inductive if_step :: "if_sys \<Rightarrow> if_sys \<Rightarrow> bool" where
  Intr: "run_state e1000_intr s = (r, s') \<Longrightarrow> if_step (s, acc) (s', acc)"
| Msi: "run_state e1000_intr_msi s = (r, s') \<Longrightarrow> if_step (s, acc) (s', acc)"
| Poll: "napi_busy (if_trace s) \<Longrightarrow> run_state (e1000e_poll w) s = (q, s') \<Longrightarrow> if_step (s, acc) (s', acc)"
| Send: "given_ok (net_of (nic_of s)) skb \<Longrightarrow> run_state (if_net (e1000_xmit_frame skb)) s = (Inr t, s') \<Longrightarrow>
     if_step (s, acc) (s', if t = NETDEV_TX_OK then acc @ [skb_id skb] else acc)"
| Report: "device_owns (net_of (nic_of s)) i \<Longrightarrow>
     desc_lower (ring_desc (tx_ring (net_of (nic_of s))) ! i) AND E1000_TXD_CMD_RS \<noteq> 0 \<Longrightarrow>
     if_step (s, acc) (s\<lparr>nic_of := (nic_of s)\<lparr>net_of := mark_done i (net_of (nic_of s))\<rparr>\<rparr>, acc)"
| Receive: "rx_owns (nic_of s) i \<Longrightarrow> rx_done d \<Longrightarrow> rx_fits (rxc (nic_of s)) d \<Longrightarrow>
     if_step (s, acc) (s\<lparr>nic_of := write_back i d (nic_of s)\<rparr>, acc)"
| Kick: "run_state watchdog_kick s = (u, s') \<Longrightarrow> if_step (s, acc) (s', acc)"
| Rate: "unat (gotc (irq s)) + unat (gorc (irq s)) < 2 ^ 32 \<Longrightarrow> run_state watchdog_itr s = (v, s') \<Longrightarrow>
     if_step (s, acc) (s', acc)"
| SetRate: "run_state (e1000_set_coalesce usecs) s = (v, s') \<Longrightarrow> if_step (s, acc) (s', acc)"
| EmptyTx: "run_state (if_net e1000_clean_tx_ring) s = (u, s') \<Longrightarrow> if_step (s, acc) (s', acc)"
| EmptyRx: "run_state (on_nic e1000_clean_rx_ring) s = (u, s') \<Longrightarrow> if_step (s, acc) (s', acc)"
| Fill: "run_state (on_nic rx_refill) s = (u, s') \<Longrightarrow> if_step (s, acc) (s', acc)"
| Up: "run_state up_enable s = (v, s') \<Longrightarrow> if_step (s, acc) (s', acc)"
| Else: "if_other s s' \<Longrightarrow> if_step (s, acc) (s', acc)"

inductive_cases if_stepE: "if_step (s, acc) x"

text \<open>A cause is not left unserved: it can interrupt, or a poll or a reset is on its way.\<close>

definition served :: "iface \<Rightarrow> bool" where
  "served s \<longleftrightarrow> is_down s \<or> unmasked (trace (hw_of s)) \<or> napi_busy (if_trace s) \<or> reset_due s"

definition if_inv :: "iface \<Rightarrow> nat list \<Rightarrow> bool" where
  "if_inv s acc \<longleftrightarrow> (\<exists>ps xs. if_rings s acc ps xs) \<and> itr_ok (irq s) \<and> \<not> msix_entries (irq s) \<and> napi_ok s \<and> served s"

lemma if_inv_calm:
  assumes "if_inv s acc" and "calm s s'"
  shows "if_inv s' acc"
proof -
  obtain ps xs where "if_rings s acc ps xs" using assms(1) by (auto simp: if_inv_def)
  then have "if_rings s' acc ps xs" using if_rings_kept calm_rings [OF assms(2)] by blast
  moreover have "itr_ok (irq s')" "\<not> msix_entries (irq s')" "napi_ok s'" "served s'"
    using assms by (auto simp: if_inv_def calm_def rings_kept_def itr_ok_def napi_ok_def served_def reset_due_def)
  ultimately show ?thesis by (auto simp: if_inv_def)
qed

lemma if_inv_other:
  assumes inv: "if_inv s acc" and other: "if_other s s'"
  shows "if_inv s' acc"
proof -
  obtain ps xs where rings: "sys_inv (net_of (nic_of s)) acc ps" "rx_inv (nic_of s) xs"
    using inv by (auto simp: if_inv_def if_rings_def)
  have "sys_inv (net_of (nic_of s')) acc ps"
    using other by (intro step_other [OF rings(1)]) (simp add: if_other_def)
  moreover have "rx_inv (nic_of s') xs"
    by (rule rx_inv_keep [OF rings(2)]) (use other in \<open>simp_all add: if_other_def rx_other_code_def\<close>)
  moreover have "itr_ok (irq s')" "\<not> msix_entries (irq s')" "napi_ok s'" "served s'"
    using inv other by (auto simp: if_inv_def if_other_def napi_ok_def served_def reset_due_def)
  ultimately show ?thesis by (auto simp: if_inv_def if_rings_def)
qed

text \<open>Interrupts.\<close>

definition icr_read :: "iface \<Rightarrow> iface" where
  "icr_read s = s\<lparr>nic_of := (nic_of s)\<lparr>net_of := (net_of (nic_of s))\<lparr>adapter_hw := rd E1000_ICR (hw_of s)\<rparr>\<rparr>\<rparr>"

lemma icr_read_kept: "rings_kept s (icr_read s)" "irq (icr_read s) = irq s" "if_trace (icr_read s) = if_trace s"
  "rdv E1000_ICR (hw_of s) AND E1000_ICR_INT_ASSERTED = 0 \<Longrightarrow> unmasked (trace (hw_of (icr_read s))) = unmasked (trace (hw_of s))"
  by (simp_all add: icr_read_def rings_kept_def other_code_def rx_other_code_def rx_env_def rx_tail_def tx_tail_def rd_def log_event_def)

lemma if_inv_cause:
  assumes inv: "if_inv s acc" and run: "run_state (intr_cause icr) (icr_read s) = (r, s')"
  shows "if_inv s' acc"
proof -
  have napi: "napi_ok (icr_read s)" using inv icr_read_kept(1) [of s] by (simp add: if_inv_def napi_ok_def rings_kept_def)
  note c = run_wp [OF wp_intr_cause [OF napi] run]
  have "rings_kept s s'" using rings_kept_trans [OF icr_read_kept(1) calm_rings] c by blast
  moreover have "itr_ok (irq s')" "\<not> msix_entries (irq s')"
    using c inv icr_read_kept(2) [of s] by (auto simp: calm_def rings_kept_def if_inv_def itr_ok_def)
  ultimately show ?thesis
    using inv c if_rings_kept by (fastforce simp: if_inv_def served_def napi_ok_def rings_kept_def)
qed

lemma if_inv_intr:
  assumes inv: "if_inv s acc" and run: "run_state e1000_intr s = (r, s')"
  shows "if_inv s' acc"
proof -
  let ?icr = "rdv E1000_ICR (hw_of s)"
  have eq: "run_state e1000_intr s = run_state (if ?icr = 0 \<or> is_down s then return IRQ_NONE
     else if ?icr AND E1000_ICR_INT_ASSERTED = 0 then return IRQ_NONE else intr_cause ?icr) (icr_read s)"
    by (simp add: e1000_intr_def icr_read_def on_nic_def on_net_def on_hw_def Let_def)
  show ?thesis
  proof (cases "is_down s \<or> ?icr AND E1000_ICR_INT_ASSERTED = 0")
    case True
    then have "s' = icr_read s" using run eq by (auto split: if_splits)
    then show ?thesis
      using True inv icr_read_kept [of s] if_rings_kept [OF _ icr_read_kept(1)]
      by (fastforce simp: if_inv_def served_def napi_ok_def rings_kept_def reset_due_def)
  next
    case False
    then have "run_state (intr_cause ?icr) (icr_read s) = (r, s')" using run eq by (auto split: if_splits)
    then show ?thesis by (rule if_inv_cause [OF inv])
  qed
qed

lemma if_inv_msi:
  assumes inv: "if_inv s acc" and run: "run_state e1000_intr_msi s = (r, s')"
  shows "if_inv s' acc"
proof -
  have "run_state e1000_intr_msi s = run_state (intr_cause (rdv E1000_ICR (hw_of s))) (icr_read s)"
    by (simp add: e1000_intr_msi_def icr_read_def on_nic_def on_net_def on_hw_def Let_def)
  then show ?thesis using if_inv_cause [OF inv, of "rdv E1000_ICR (hw_of s)" r s'] run by simp
qed

text \<open>Operations of one ring.\<close>

lemma if_inv_rings:
  assumes inv: "if_inv s acc" and s': "s' = s\<lparr>nic_of := nic_of s'\<rparr>"
    and tx: "\<exists>ps. sys_inv (net_of (nic_of s')) acc' ps" and rx: "\<exists>xs. rx_inv (nic_of s') xs"
    and kept: "is_down s' = is_down s" "unmasked (trace (hw_of s')) = unmasked (trace (hw_of s))"
      "set (os_trace (net_of (nic_of s))) \<subseteq> set (os_trace (net_of (nic_of s')))"
  shows "if_inv s' acc'"
proof -
  have "irq s' = irq s" "if_trace s' = if_trace s" "k_napi_prep s' = k_napi_prep s" by (subst s', simp)+
  then show ?thesis using assms by (auto simp: if_inv_def if_rings_def served_def reset_due_def napi_ok_def)
qed

lemma if_inv_net:
  assumes inv: "if_inv s acc" and run: "run_state (if_net m) s = (r, s')" and kept: "state_io_rel net_kept m"
    and tx: "\<exists>ps. sys_inv (net_of (nic_of s')) acc' ps"
  shows "if_inv s' acc'"
proof -
  obtain xs where xs: "rx_inv (nic_of s) xs" using inv by (auto simp: if_inv_def if_rings_def)
  have k: "net_kept (net_of (nic_of s)) (net_of (nic_of s'))" and nic: "nic_of s' = (nic_of s)\<lparr>net_of := net_of (nic_of s')\<rparr>"
    and s': "s' = s\<lparr>nic_of := nic_of s'\<rparr>"
    using run kept by (auto simp: state_io_rel_def on_nic_def on_net_def Let_def case_prod_beta)
  have "rxr (nic_of s') = rxr (nic_of s)" "rx_trace (nic_of s') = rx_trace (nic_of s)" "rxc (nic_of s') = rxc (nic_of s)"
    "rx_kernel_of (nic_of s') = rx_kernel_of (nic_of s)"
    by (subst nic, simp)+
  then have "rx_inv (nic_of s') xs"
    using k by (intro rx_inv_keep [OF xs]) (simp_all add: net_kept_def hw_kept_def rx_env_def rx_tail_def)
  then show ?thesis
    using k by (intro if_inv_rings [OF inv s' tx]) (auto simp: net_kept_def hw_kept_def)
qed

lemma if_inv_nic:
  assumes inv: "if_inv s acc" and run: "run_state (on_nic m) s = (r, s')" and kept: "state_io_rel nic_kept m"
    and rx: "\<exists>xs. rx_inv (nic_of s') xs"
  shows "if_inv s' acc"
proof -
  obtain ps where ps: "sys_inv (net_of (nic_of s)) acc ps" using inv by (auto simp: if_inv_def if_rings_def)
  have k: "net_same_tx (net_of (nic_of s)) (net_of (nic_of s'))" and s': "s' = s\<lparr>nic_of := nic_of s'\<rparr>"
    using run kept by (auto simp: state_io_rel_def nic_kept_def on_nic_def Let_def case_prod_beta)
  have "sys_inv (net_of (nic_of s')) acc ps" using step_other [OF ps] k by (simp add: net_same_tx_def)
  then show ?thesis
    using k by (intro if_inv_rings [OF inv s' _ rx]) (auto simp: net_same_tx_def hw_kept_def)
qed

lemma if_inv_poll:
  assumes inv: "if_inv s acc" and busy: "napi_busy (if_trace s)" and run: "run_state (e1000e_poll w) s = (r, s')"
  shows "if_inv s' acc"
proof -
  obtain ps xs where rings: "if_rings s acc ps xs" and ok: "itr_ok (irq s)" "\<not> msix_entries (irq s)"
    using inv by (auto simp: if_inv_def)
  have p: "rings_polled w s acc ps xs s'" "itr_ok (irq s')" "poll_end w (List.length (done_prefix w xs)) s s'"
    using run_wp [OF wp_nic_poll [OF rings ok refl] run] by blast+
  have "served s'"
    using p(1,3) busy by (auto simp: served_def poll_end_def rings_polled_def Let_def split: if_splits)
  then show ?thesis
    using p(1,2) inv by (auto simp: if_inv_def rings_polled_def Let_def napi_ok_def)
qed

lemma if_inv_send:
  assumes inv: "if_inv s acc" and ok: "given_ok (net_of (nic_of s)) skb"
    and run: "run_state (if_net (e1000_xmit_frame skb)) s = (Inr t, s')"
  shows "if_inv s' (if t = NETDEV_TX_OK then acc @ [skb_id skb] else acc)"
proof -
  obtain ps where ps: "sys_inv (net_of (nic_of s)) acc ps" using inv by (auto simp: if_inv_def if_rings_def)
  have "run_state (e1000_xmit_frame skb) (net_of (nic_of s)) = (Inr t, net_of (nic_of s'))"
    using run by (auto simp: on_nic_def on_net_def Let_def case_prod_beta prod_eq_iff)
  from step_xmit [OF ps ok this] have "\<exists>ps'. sys_inv (net_of (nic_of s')) (if t = NETDEV_TX_OK then acc @ [skb_id skb] else acc) ps'"
    by auto
  then show ?thesis by (rule if_inv_net [OF inv run nk_xmit])
qed

lemma if_inv_empty_tx:
  assumes inv: "if_inv s acc" and run: "run_state (if_net e1000_clean_tx_ring) s = (u, s')"
  shows "if_inv s' acc"
proof -
  obtain ps where ps: "sys_inv (net_of (nic_of s)) acc ps" using inv by (auto simp: if_inv_def if_rings_def)
  have "run_state e1000_clean_tx_ring (net_of (nic_of s)) = (u, net_of (nic_of s'))"
    using run by (auto simp: on_nic_def on_net_def Let_def case_prod_beta prod_eq_iff)
  from step_empty [OF ps this] show ?thesis by (intro if_inv_net [OF inv run nk_ring]) blast
qed

lemma if_inv_rx_op:
  assumes inv: "if_inv s acc" and run: "run_state (on_nic m) s = (u, s')" and kept: "state_io_rel nic_kept m"
    and m: "\<And>xs. rx_inv (nic_of s) xs \<Longrightarrow> wp m (\<lambda>_ t. \<exists>xs. rx_inv t xs) (nic_of s)"
  shows "if_inv s' acc"
proof -
  obtain xs where xs: "rx_inv (nic_of s) xs" using inv by (auto simp: if_inv_def if_rings_def)
  have "run_state m (nic_of s) = (u, nic_of s')"
    using run by (auto simp: on_nic_def Let_def case_prod_beta prod_eq_iff)
  from run_wp [OF m [OF xs] this] show ?thesis by (rule if_inv_nic [OF inv run kept])
qed

lemma wp_rx_ops:
  assumes "rx_inv s xs"
  shows "wp e1000_clean_rx_ring (\<lambda>_ t. \<exists>xs. rx_inv t xs) s" "wp rx_refill (\<lambda>_ t. \<exists>xs. rx_inv t xs) s"
  by (rule wp_mono [OF wp_clean_rx_ring [OF assms]], blast)
    (rule wp_mono [OF wp_rx_refill [OF assms]], auto simp: rx_filled_def)

text \<open>The device.\<close>

lemma if_inv_report:
  assumes inv: "if_inv s acc" and owns: "device_owns (net_of (nic_of s)) i"
    and rs: "desc_lower (ring_desc (tx_ring (net_of (nic_of s))) ! i) AND E1000_TXD_CMD_RS \<noteq> 0"
  shows "if_inv (s\<lparr>nic_of := (nic_of s)\<lparr>net_of := mark_done i (net_of (nic_of s))\<rparr>\<rparr>) acc"
proof -
  let ?s = "s\<lparr>nic_of := (nic_of s)\<lparr>net_of := mark_done i (net_of (nic_of s))\<rparr>\<rparr>"
  obtain ps xs where rings: "sys_inv (net_of (nic_of s)) acc ps" "rx_inv (nic_of s) xs"
    using inv by (auto simp: if_inv_def if_rings_def)
  have "rx_inv (nic_of ?s) xs"
    by (rule rx_inv_keep [OF rings(2)]) (simp_all add: mark_done_def rx_env_def rx_tail_def)
  then show ?thesis
    using step_report [OF rings(1) owns rs]
    by (intro if_inv_rings [OF inv]) (auto simp: mark_done_def)
qed

lemma if_inv_receive:
  assumes inv: "if_inv s acc" and d: "rx_owns (nic_of s) i" "rx_done d" "rx_fits (rxc (nic_of s)) d"
  shows "if_inv (s\<lparr>nic_of := write_back i d (nic_of s)\<rparr>) acc"
proof -
  obtain ps xs where rings: "sys_inv (net_of (nic_of s)) acc ps" "rx_inv (nic_of s) xs"
    using inv by (auto simp: if_inv_def if_rings_def)
  have n: "net_of (write_back i d (nic_of s)) = net_of (nic_of s)" by (simp add: write_back_def)
  show ?thesis
    using write_back_inv [OF rings(2) d] rings(1)
    by (intro if_inv_rings [OF inv]) (auto simp: n)
qed

text \<open>The watchdog and the way up.\<close>

lemma unat_dif:
  assumes "unat a + unat b < 2 ^ 32"
  shows "unat (simple_itr a b) \<le> 8000" and "2000 \<le> unat (simple_itr a b)"
proof -
  define g where "g = (unat a + unat b) div 10000"
  define d where "d = (if unat a > unat b then unat a - unat b else unat b - unat a) div 10000"
  have dg: "d \<le> g" unfolding d_def g_def by (intro div_le_mono) auto
  have small: "g < 429497" using assms unfolding g_def by simp
  have goc: "unat ((a + b) div 10000) = g" using assms by (simp add: g_def unat_div unat_word_ariths)
  have "unat ((if a > b then a - b else b - a) div 10000) = d"
    by (auto simp: d_def unat_div word_less_nat_alt unat_sub word_le_nat_alt)
  note dif = this
  have prod: "unat ((if a > b then a - b else b - a) div 10000 * 6000) = d * 6000"
    using dif dg small by (simp add: unat_word_ariths)
  have ratio: "d * 6000 div g \<le> 6000" if "0 < g"
    using dg that by (metis div_le_mono mult_le_mono1 mult.commute nonzero_mult_div_cancel_right less_numeral_extra(3))
  have val: "unat (simple_itr a b) = (if 0 < g then d * 6000 div g + 2000 else 8000)"
  proof (cases "0 < g")
    case True
    then have "(a + b) div 10000 > 0" using goc by (simp add: word_less_nat_alt)
    moreover define p where "p = (if a > b then a - b else b - a) div 10000 * 6000"
    moreover define q where "q = (a + b) div 10000"
    moreover have "unat (p div q + 2000) = d * 6000 div g + 2000"
    proof -
      have "unat (p div q) = d * 6000 div g" using goc prod by (simp add: unat_div p_def q_def)
      then show ?thesis using ratio [OF True] by (simp add: unat_word_ariths(1))
    qed
    ultimately show ?thesis using True by (simp add: simple_itr_def Let_def)
  next
    case False
    then have "\<not> (a + b) div 10000 > 0" using goc by (simp add: word_less_nat_alt)
    then show ?thesis using False by (simp add: simple_itr_def Let_def)
  qed
  show "unat (simple_itr a b) \<le> 8000" "2000 \<le> unat (simple_itr a b)" using ratio by (auto simp: val)
qed

lemma if_inv_rate:
  assumes inv: "if_inv s acc" and sum: "unat (gotc (irq s)) + unat (gorc (irq s)) < 2 ^ 32"
    and run: "run_state watchdog_itr s = (v, s')"
  shows "if_inv s' acc"
proof -
  have m: "\<not> msix_entries (irq s)" using inv by (simp add: if_inv_def)
  have "simple_itr (gotc (irq s)) (gorc (irq s)) \<le> 100000" using unat_dif [OF sum] by (simp add: word_le_nat_alt)
  from wp_write_itr [OF m this] have "wp watchdog_itr (\<lambda>_ s'. calm s s') s"
    using if_kept_imp if_kept_rings(4) ck.refl by (auto simp: watchdog_itr_def wp calm_def elim!: wp_mono)
  from if_inv_calm [OF inv run_wp [OF this run]] show ?thesis .
qed

text \<open>
  A rate that the user sets is well formed, so that the interval can be computed; what is shown
  afterwards is the mode, or a time that is at least the given one and at most the longest.
\<close>

lemma coalesce_rate:
  assumes "\<not> coalesce_refused usecs" and "\<not> usecs \<le> 4"
  shows "100 \<le> 1000000 div usecs" "1000000 div usecs \<le> 100000"
    "4 < (1000000 div usecs) AND NOT 3" "usecs \<le> 1000000 div ((1000000 div usecs) AND NOT 3)"
    "1000000 div ((1000000 div usecs) AND NOT 3) \<le> 10000"
proof -
  define u where "u = unat usecs"
  have u: "10 \<le> u" "u \<le> 10000" using assms by (auto simp: coalesce_refused_def u_def word_le_nat_alt word_less_nat_alt)
  define q where "q = 1000000 div u"
  have uq: "unat (1000000 div usecs) = q" by (simp add: unat_div q_def u_def)
  have q: "100 \<le> q" "q \<le> 100000"
    using div_le_mono2 [of u 10000 1000000] div_le_mono2 [of 10 u 1000000] u by (simp_all add: q_def)
  show "100 \<le> 1000000 div usecs" "1000000 div usecs \<le> 100000"
    using q uq by (simp_all add: word_le_nat_alt)
  define s where "s = q - q mod 4"
  have "uint ((1000000 div usecs) AND NOT 3) = int q - int q mod 4" using and_not_3 [of "1000000 div usecs"] uq by (metis uint_nat)
  then have "int (unat ((1000000 div usecs) AND NOT 3)) = int q - int (q mod 4)" by (simp only: uint_nat zmod_int) simp
  then have us: "unat ((1000000 div usecs) AND NOT 3) = s" unfolding s_def by linarith
  have "s = 4 * (q div 4)" by (simp add: s_def minus_mod_eq_mult_div)
  moreover have "25 \<le> q div 4" using q(1) by simp
  ultimately have s: "100 \<le> s" "s \<le> q" by simp_all
  then show "4 < (1000000 div usecs) AND NOT 3" using us by (simp add: word_less_nat_alt)
  have "u * s \<le> 1000000" using s(2) u by (metis q_def div_times_less_eq_dividend le_trans mult.commute mult_le_mono2)
  then have "u \<le> 1000000 div s" using s(1) by (simp add: less_eq_div_iff_mult_less_eq)
  moreover have "1000000 div s \<le> 10000" using div_le_mono2 [of 100 s 1000000] s(1) by simp
  moreover have "unat (1000000 div ((1000000 div usecs) AND NOT 3)) = 1000000 div s"
    unfolding unat_div us by simp
  ultimately show "usecs \<le> 1000000 div ((1000000 div usecs) AND NOT 3)" "1000000 div ((1000000 div usecs) AND NOT 3) \<le> 10000"
    by (simp_all add: word_le_nat_alt u_def)
qed

lemma wp_set_coalesce:
  assumes ok: "itr_ok (irq s)" and m: "\<not> msix_entries (irq s)"
  shows "wp (e1000_set_coalesce usecs) (\<lambda>r t. rings_kept s t \<and> itr_ok (irq t) \<and> if_trace t = if_trace s \<and>
    unmasked (trace (hw_of t)) = unmasked (trace (hw_of s)) \<and>
    (if coalesce_refused usecs then r = Inr (- EINVAL) \<and> t = s
     else r = Inr 0 \<and> (let shown = fst (run_state e1000_get_coalesce t) in
       if usecs \<le> 4 then shown = usecs else usecs \<le> shown \<and> shown \<le> 10000))) s"
proof (cases "coalesce_refused usecs")
  case True
  then show ?thesis using ok by (simp add: e1000_set_coalesce_def wp rings_kept_refl)
next
  case False
  define f :: "irq_adapter \<Rightarrow> irq_adapter" where "f = (if usecs = 4 then (\<lambda>q. q\<lparr>itr_setting := 4, itr := 4\<rparr>)
     else if usecs \<le> 3 then (\<lambda>q. q\<lparr>itr := 20000, itr_setting := usecs\<rparr>)
     else (\<lambda>q. q\<lparr>itr := 1000000 div usecs, itr_setting := (1000000 div usecs) AND NOT 3\<rparr>))"
  let ?s = "s\<lparr>irq := f (irq s)\<rparr>"
  have three: "usecs \<le> 4 \<longleftrightarrow> usecs \<le> 3 \<or> usecs = 4"
    by (auto simp: word_le_nat_alt word_unat_eq_iff)
  have rate: "itr (f (irq s)) \<le> 100000"
    using coalesce_rate(2) [OF False] three by (auto simp: f_def)
  have f: "itr_ok (irq ?s)" "\<not> msix_entries (irq ?s)" using ok m rate by (auto simp: f_def itr_ok_def)
  have shown: "let shown = fst (run_state e1000_get_coalesce t) in
       if usecs \<le> 4 then shown = usecs else usecs \<le> shown \<and> shown \<le> 10000" if "irq t = f (irq s)" for t
    using that coalesce_rate(3-5) [OF False] three
    by (auto simp: e1000_get_coalesce_def f_def Let_def)
  define rest :: "(halt + s32) if_io" where "rest = do {
      q \<leftarrow> gets irq;
      r \<leftarrow> e1000e_write_itr (if itr_setting q \<noteq> 0 then itr q else 0);
      case r of Inl e \<Rightarrow> return (Inl e) | Inr _ \<Rightarrow> return (Inr 0) }"
  define set :: "unit if_io" where "set = (if usecs = 4 then set_irq (\<lambda>q. q\<lparr>itr_setting := 4, itr := 4\<rparr>)
         else if usecs \<le> 3 then set_irq (\<lambda>q. q\<lparr>itr := 20000, itr_setting := usecs\<rparr>)
         else set_irq (\<lambda>q. q\<lparr>itr := 1000000 div usecs, itr_setting := (1000000 div usecs) AND NOT 3\<rparr>))"
  have prog: "e1000_set_coalesce usecs = do { set; rest }"
    using False unfolding e1000_set_coalesce_def set_def rest_def by (simp only: if_False)
  have first: "wp set R s = R () ?s" for R
    unfolding set_def f_def by (auto simp: wp if_wp)
  have "wp (e1000e_write_itr (if itr_setting (irq ?s) \<noteq> 0 then itr (irq ?s) else 0))
      (\<lambda>r t. r = Inr () \<and> if_kept ?s t \<and> irq t = irq ?s \<and> if_trace t = if_trace ?s) ?s"
    using rate by (intro wp_write_itr [OF f(2)]) simp
  then have "wp rest (\<lambda>r t. r = Inr 0 \<and> if_kept ?s t \<and> irq t = irq ?s \<and> if_trace t = if_trace s) ?s"
    unfolding rest_def wp by (rule wp_mono) (auto simp: wp)
  moreover have "rings_kept s ?s" using m f(2) by (simp add: rings_kept_def other_code_def rx_other_code_def)
  ultimately have "wp rest (\<lambda>r t. rings_kept s t \<and> itr_ok (irq t) \<and> if_trace t = if_trace s \<and>
       unmasked (trace (hw_of t)) = unmasked (trace (hw_of s)) \<and> r = Inr 0 \<and>
       (let shown = fst (run_state e1000_get_coalesce t) in
         if usecs \<le> 4 then shown = usecs else usecs \<le> shown \<and> shown \<le> 10000)) ?s"
    using f(1) shown if_kept_rings(4) by (elim wp_mono) (fastforce intro: rings_kept_trans if_kept_imp)
  then show ?thesis
    unfolding prog wp_bind first using False by (elim wp_mono) simp
qed

lemma if_inv_coalesce:
  assumes inv: "if_inv s acc" and run: "run_state (e1000_set_coalesce usecs) s = (v, s')"
  shows "if_inv s' acc"
proof -
  obtain ps xs where rings: "if_rings s acc ps xs" and ok: "itr_ok (irq s)" "\<not> msix_entries (irq s)" "napi_ok s" "served s"
    using inv by (auto simp: if_inv_def)
  note post = run_wp [OF wp_set_coalesce [OF ok(1,2)] run]
  then show ?thesis
    using if_rings_kept [OF rings, of s'] ok by (auto simp: if_inv_def served_def napi_ok_def rings_kept_def reset_due_def)
qed

lemma if_inv_kick:
  assumes inv: "if_inv s acc" and run: "run_state watchdog_kick s = (u, s')"
  shows "if_inv s' acc"
proof -
  have m: "\<not> msix_entries (irq s)" using inv by (simp add: if_inv_def)
  have "wp (if_ew32 E1000_ICS E1000_ICS_RXDMT0) (\<lambda>_ s'. calm s s') s"
    by (intro wp_rel ck_access) (simp_all add: E1000_RDT_def E1000_TDT_def)
  then have "wp watchdog_kick (\<lambda>_ s'. calm s s') s" using m by (simp add: watchdog_kick_def wp)
  from if_inv_calm [OF inv run_wp [OF this run]] show ?thesis .
qed

lemma ck_start: "state_io_rel calm (if_net netif_start_queue)"
  by (auto simp: state_io_rel_def on_nic_def on_net_def netif_start_queue_def os_def calm_def rings_kept_def
      other_code_def rx_other_code_def rx_env_def rx_tail_def tx_tail_def Let_def)

lemma if_inv_up:
  assumes inv: "if_inv s acc" and run: "run_state up_enable s = (v, s')"
  shows "if_inv s' acc"
proof -
  let ?s = "s\<lparr>nic_of := (nic_of s)\<lparr>net_of := (net_of (nic_of s))\<lparr>down := False\<rparr>\<rparr>\<rparr>"
  obtain ps xs where rings: "sys_inv (net_of (nic_of s)) acc ps" "rx_inv (nic_of s) xs"
    and ok: "itr_ok (irq s)" "\<not> msix_entries (irq s)" "napi_ok s"
    using inv by (auto simp: if_inv_def if_rings_def)
  have m: "\<not> msix_entries (irq ?s)" using ok(2) by simp
  have "sys_inv (net_of (nic_of ?s)) acc ps"
    by (intro step_other [OF rings(1)]) (simp add: other_code_def tx_tail_def)
  moreover have "rx_inv (nic_of ?s) xs"
    by (rule rx_inv_keep [OF rings(2)]) (simp_all add: rx_env_def rx_tail_def)
  ultimately have s: "if_rings ?s acc ps xs" by (simp add: if_rings_def)
  have after: "state_io_rel calm (do { if_net netif_start_queue; e1000e_trigger_lsc; return (Inr () :: halt + unit) })"
    unfolding e1000e_trigger_lsc_def
    by (intro ck.frames ck_start ck_access; simp add: E1000_RDT_def E1000_TDT_def)
  have "wp (do { e1000_irq_enable; if_net netif_start_queue; e1000e_trigger_lsc; return (Inr () :: halt + unit) })
      (\<lambda>_ t. rings_kept ?s t \<and> unmasked (trace (hw_of t)) \<and> itr_ok (irq t)) ?s"
  proof (rule wp_bind_mono [OF wp_irq_enable [OF m]], elim conjE, goal_cases)
    case (1 u t)
    have "itr_ok (irq t)" using 1(3) ok(1) by simp
    then show ?case
      by (intro wp_mono [OF wp_rel [OF after, of t]])
        (use 1 in \<open>auto simp: calm_def itr_ok_def intro: rings_kept_trans\<close>)
  qed
  then have "wp up_enable (\<lambda>_ t. rings_kept ?s t \<and> unmasked (trace (hw_of t)) \<and> itr_ok (irq t)) s"
    using ok(2) by (simp add: up_enable_def wp if_wp net_wp)
  note post = run_wp [OF this run]
  then show ?thesis
    using if_rings_kept [OF s, of s'] ok(2,3) by (auto simp: if_inv_def served_def napi_ok_def rings_kept_def)
qed

lemma if_step_inv:
  assumes "if_step (s, acc) (s', acc')" and inv: "if_inv s acc"
  shows "if_inv s' acc'"
  using assms(1)
proof (elim if_stepE, goal_cases)
  case (1 r)
  then show ?case using if_inv_intr [OF inv] by simp
next
  case (2 r)
  then show ?case using if_inv_msi [OF inv] by simp
next
  case (3 w q)
  then show ?case using if_inv_poll [OF inv] by simp
next
  case (4 skb t)
  then show ?case using if_inv_send [OF inv] by simp
next
  case (5 i)
  then show ?case using if_inv_report [OF inv] by simp
next
  case (6 i d)
  then show ?case using if_inv_receive [OF inv] by simp
next
  case (7 u)
  then show ?case using if_inv_kick [OF inv] by simp
next
  case (8 v)
  then show ?case using if_inv_rate [OF inv] by simp
next
  case (9 usecs v)
  then show ?case using if_inv_coalesce [OF inv] by simp
next
  case (10 u)
  then show ?case using if_inv_empty_tx [OF inv] by simp
next
  case (11 u)
  then show ?case using if_inv_rx_op [OF inv _ rk_clean_ring wp_rx_ops(1)] by simp
next
  case (12 u)
  then show ?case using if_inv_rx_op [OF inv _ rk_refill wp_rx_ops(2)] by simp
next
  case (13 v)
  then show ?case using if_inv_up [OF inv] by simp
next
  case 14
  then show ?case using if_inv_other [OF inv] by simp
qed

section \<open>Reachable states\<close>

text \<open>The interface before it is opened: both rings are empty, it is down, no poll is scheduled.\<close>

definition if_reset :: "iface \<Rightarrow> bool" where
  "if_reset s \<longleftrightarrow> tx_reset (net_of (nic_of s)) \<and> rx_reset (nic_of s) \<and> is_down s \<and> napi_ok s \<and>
     \<not> msix_entries (irq s) \<and> itr_ok (irq s)"

lemma if_reset_inv: "if_reset s \<Longrightarrow> if_inv s []"
  using tx_reset_inv rx_reset_inv by (fastforce simp: if_reset_def if_inv_def if_rings_def served_def)

interpretation ifs: transition_system "\<lambda>(s, acc). if_reset s \<and> acc = []" if_step "\<lambda>(s, acc). if_inv s acc"
  by unfold_locales (auto intro: if_reset_inv dest: if_step_inv)

lemma if_reach_inv: "if_step\<^sup>*\<^sup>* (s0, []) (s, acc) \<Longrightarrow> if_reset s0 \<Longrightarrow> if_inv s acc"
  using ifs.inv_reach [of "(s0, [])" "(s, acc)"] by simp

text \<open>A concrete interface: it is up, its interrupts are moderated, and the kernel polls.\<close>

definition sample_irq :: irq_adapter where
  "sample_irq = \<lparr>itr = 20000, itr_setting = 3, tx_itr = 0, rx_itr = 0, link_speed = SPEED_1000, aim_disabled = False,
     msix_entries = False, num_vectors = 1, eiac_mask = 0, rx_ims_val = 0, tx_ims_val = 0, rx_itr_val = 0,
     tx_itr_val = 0, set_itr = False, lsc_gig_speed_drop = False, rx_needs_restart = False, restart_now = False,
     dma_burst = False, has_swsm_on_load = False, has_ctrlext_on_load = False, corr_errors = 0, uncorr_errors = 0,
     tx_delay = 8, rx_delay = 0, gotc = 0, gorc = 0\<rparr>"

definition sample_if :: "nic \<Rightarrow> iface" where
  "sample_if n = \<lparr>nic_of = n, irq = sample_irq, k_napi_prep = (\<lambda>t. \<not> napi_busy t), if_trace = [NapiSchedule]\<rparr>"

definition closed_if :: iface where
  "closed_if = (sample_if (sample_nic\<lparr>net_of := (net_of sample_nic)\<lparr>down := True\<rparr>\<rparr>))\<lparr>if_trace := []\<rparr>"

lemma sample_irq_ok: "itr_ok sample_irq" "\<not> msix_entries sample_irq"
  by (simp_all add: itr_ok_def sample_irq_def)

lemma closed_if_reset: "if_reset closed_if"
proof -
  let ?n = "(net_of sample_nic)\<lparr>down := True\<rparr>"
  have "tx_reset ?n"
    using sample_reset by (simp add: tx_reset_def sample_nic_def adapter_ok_def xmit_stop_size_def tx_tail_def ims_regs E1000_TDT_def E1000_RDT_def log_event_def)
  moreover have "rx_reset (sample_nic\<lparr>net_of := ?n\<rparr>)"
    using sample_nic_reset by (simp add: rx_reset_def rx_kernel_ok_def rx_tail_def)
  ultimately show ?thesis
    using sample_irq_ok by (simp add: if_reset_def closed_if_def sample_if_def napi_ok_def)
qed

section \<open>What the interface promises\<close>

text \<open>
  C1: No interrupt is lost. In every state that interrupts, polls, sending, the device, the
  watchdog and the rest of the driver can reach, an interface that is up and for which no reset has
  been scheduled has its interrupts unmasked, or a poll is scheduled that will serve what happened.
\<close>

theorem irq_never_lost:
  assumes "if_step\<^sup>*\<^sup>* (s0, []) (s, acc)" and "if_reset s0" and "\<not> is_down s" and "\<not> reset_due s"
  shows "unmasked (trace (hw_of s)) \<or> napi_busy (if_trace s)"
  using if_reach_inv [OF assms(1,2)] assms(3,4) by (auto simp: if_inv_def served_def)

theorem irq_never_lost_witness:
  "\<exists>s. run_state up_enable closed_if = (Inr (), s) \<and> (unmasked (trace (hw_of s)) \<or> napi_busy (if_trace s))"
proof -
  obtain v s where run: "run_state up_enable closed_if = (v, s)" by fastforce
  have "wp up_enable (\<lambda>v s. v = Inr () \<and> \<not> is_down s \<and> \<not> reset_due s) closed_if"
    by (simp add: up_enable_def e1000_irq_enable_def e1000e_trigger_lsc_def netif_start_queue_def os_def wp net_wp if_wp
        closed_if_def sample_if_def sample_irq_def reset_due_def sample_nic_def sample_net_def)
  from run_wp [OF this run] run show ?thesis
    using irq_never_lost [OF r_into_rtranclp [of if_step, OF if_step.Up [OF run]] closed_if_reset] by blast
qed

text \<open>
  C2: A poll serves both rings. It frees, in order, the packets the device has reported as sent,
  hands up the frames among the received descriptors that its budget allows, and reports the number
  of descriptors it took, at most its budget. If that is less than the budget, the poll is over and
  the interrupts are unmasked unless the interface is down; else the kernel polls again. It runs
  into no null pointer, no overrun, no endless loop and no division by zero.
\<close>

theorem poll_serves:
  assumes "if_rings s acc ps xs" and "itr_ok (irq s)" and "\<not> msix_entries (irq s)"
    and "run_state (e1000e_poll w) s = (r, s')"
  defines "zs \<equiv> done_prefix w xs" and "k \<equiv> List.length (done_prefix w xs)"
  shows "r = Inr k \<and> k \<le> w \<and>
    freed (os_trace (net_of (nic_of s'))) = freed (os_trace (net_of (nic_of s))) @ map (skb_id \<circ> snd) (take (reported s ps) ps) \<and>
    collect frame_of (rx_trace (nic_of s')) = rev (rx_whole (rxc (nic_of s))
      (if is_discarding (rxa (nic_of s)) then tl (rx_split zs) else rx_split zs)) @ collect frame_of (rx_trace (nic_of s)) \<and>
    (\<exists>xs'. if_rings s' acc (drop (reported s ps) ps) xs') \<and>
    (if k < w then if_trace s' = NapiComplete k # if_trace s \<and> (is_down s \<or> unmasked (trace (hw_of s')))
     else if_trace s' = if_trace s)"
proof -
  have p: "r = Inr k" "rings_polled w s acc ps xs s'" "poll_end w k s s'"
    using run_wp [OF wp_nic_poll [OF assms(1-3) refl] assms(4)] by (auto simp: k_def)
  moreover have "k \<le> w" by (simp add: k_def done_prefix_def)
  ultimately show ?thesis unfolding rings_polled_def poll_end_def Let_def zs_def by (auto split: if_splits)
qed

theorem poll_serves_witness:
  "\<exists>s'. run_state (e1000e_poll 64) (sample_if filled_nic) = (Inr 1, s') \<and> unmasked (trace (hw_of s')) \<and>
     collect frame_of (rx_trace (nic_of s')) = [\<lparr>fr_from = 0, fr_len = 60, fr_csum_ok = True, fr_hash = None, fr_vlan = None\<rparr>]"
proof -
  obtain r s' where run: "run_state (e1000e_poll 64) (sample_if filled_nic) = (r, s')" by fastforce
  have "tx_reset (net_of filled_nic)"
    using sample_reset by (simp add: tx_reset_def filled_nic_def sample_nic_def adapter_ok_def xmit_stop_size_def tx_tail_def
        E1000_TDT_def E1000_RDT_def log_event_def)
  then have rings: "if_rings (sample_if filled_nic) [] [] [filled_slot]"
    using tx_reset_inv filled_nic_inv by (simp add: if_rings_def sample_if_def)
  have z: "done_prefix 64 [filled_slot] = [filled_slot]" "rx_eop (snd filled_slot)"
    by (simp_all add: done_prefix_def rx_done_def rx_eop_def filled_slot_def filled_desc_def)
  have "\<not> rx_bad_frame sample_rx_config filled_desc" by code_simp
  moreover have "rx_frame_at sample_rx_config filled_slot =
      \<lparr>fr_from = 0, fr_len = 60, fr_csum_ok = True, fr_hash = None, fr_vlan = None\<rparr>" by code_simp
  ultimately have w: "rx_whole sample_rx_config [[filled_slot]] =
      [\<lparr>fr_from = 0, fr_len = 60, fr_csum_ok = True, fr_hash = None, fr_vlan = None\<rparr>]"
    using z(2) by (simp add: rx_whole_def rx_single_def filled_slot_def)
  have f: "rxc (nic_of (sample_if filled_nic)) = sample_rx_config" "\<not> is_discarding (rxa (nic_of (sample_if filled_nic)))"
    "rx_trace (nic_of (sample_if filled_nic)) = [RxMap 0 0x10000, RxAlloc 0 1522]" "\<not> is_down (sample_if filled_nic)"
    by (simp_all add: sample_if_def filled_nic_def sample_nic_def sample_rx_adapter_def sample_net_def)
  have q: "itr_ok (irq (sample_if filled_nic))" "\<not> msix_entries (irq (sample_if filled_nic))"
    using sample_irq_ok by (simp_all add: sample_if_def)
  from poll_serves [OF rings q run] run show ?thesis by (simp add: z w f)
qed

text \<open>Four steps reach a target that is a multiple of four.\<close>

lemma itr_step_up:
  assumes "x < t" and "t \<le> 100000"
  shows "unat (itr_step x t) = min (unat x + unat t div 4) (unat t)"
proof -
  have "unat (x + drop_bit 2 t) = unat x + unat t div 4"
    using assms by (simp add: unat_word_ariths drop_bit_eq_div unat_div word_less_nat_alt word_le_nat_alt)
  then show ?thesis using assms(1) by (auto simp: itr_step_def min_def word_le_nat_alt)
qed

lemma itr_step_reaches:
  assumes t: "t \<le> 100000" "4 dvd unat t"
  shows "((\<lambda>x. itr_step x t) ^^ 4) old = t"
proof -
  let ?f = "\<lambda>n. ((\<lambda>x. itr_step x t) ^^ n) old"
  have stay: "itr_step x t = t" if "\<not> x < t" for x using that by (simp add: itr_step_def)
  have up: "itr_step x t = t \<or> itr_step x t < t \<and> Suc n * (unat t div 4) \<le> unat (itr_step x t)"
    if "x < t" "n * (unat t div 4) \<le> unat x" for x n
    using itr_step_up [OF that(1) t(1)] that(2) by (auto simp: min_def word_less_nat_alt word_unat_eq_iff split: if_splits)
  have "?f (Suc n) = t \<or> ?f (Suc n) < t \<and> Suc n * (unat t div 4) \<le> unat (?f (Suc n))" for n
  proof (induction n)
    case 0
    show ?case using stay [of old] up [of old 0] by (cases "old < t") simp_all
  next
    case (Suc n)
    then show ?case using stay [of t] up [of "?f (Suc n)" "Suc n"] by auto
  qed
  moreover have "Suc 3 = 4" by simp
  ultimately have "?f 4 = t \<or> ?f 4 < t \<and> 4 * (unat t div 4) \<le> unat (?f 4)" by metis
  then show ?thesis using t(2) by (auto simp: word_less_nat_alt)
qed



text \<open>
  C40: The rate that the driver starts with, from the module parameters: it is 0 and then no interval
  is written, or the interval in units of 256 ns is between 39 and 39062 and so fits the 16 bits of
  the register; only the simplified mode starts with its own number as the rate, and its interval,
  976562, does not fit.
\<close>

theorem itr_start_interval:
  assumes "params_ok p" and "kstrdup_ok b" and "0 < max_numnodes b" "max_numnodes b \<le> 2 ^ 31"
    and "st = e1000e_check_options b p bd s"
  shows "set_rate st = 0 \<and> rate_setting st = 0 \<or>
    set_rate st = 4 \<and> rate_setting st = 4 \<and> itr_interval (set_rate st) = Inr 976562 \<or>
    (\<exists>v. itr_interval (set_rate st) = Inr v \<and> 39 \<le> v \<and> v \<le> 39062)"
proof -
  have ok: "set_rate st \<le> 100000" and cases: "rate_setting st = 0 \<and> set_rate st = 0 \<or> rate_setting st = 4 \<and> set_rate st = 4 \<or> 100 \<le> set_rate st"
    using settings_choice_ok [OF check_options_choice [OF assms(1-4), of bd s]] assms(3,5) by (auto simp: settings_ok_def)
  have "39 \<le> 1000000000 div (set_rate st * 256)" "1000000000 div (set_rate st * 256) \<le> 39062" if "100 \<le> set_rate st"
  proof -
    define n where "n = unat (set_rate st) * 256"
    have n: "25600 \<le> n" "n \<le> 25600000" using that ok by (auto simp: n_def word_le_nat_alt)
    have d: "unat (1000000000 div (set_rate st * 256)) = 1000000000 div n"
      by (simp add: unat_div unat_rate [OF ok] n_def)
    have "1000000000 div 25600000 \<le> 1000000000 div n" "1000000000 div n \<le> 1000000000 div 25600"
      using n by (intro div_le_mono2; simp)+
    then show "39 \<le> 1000000000 div (set_rate st * 256)" "1000000000 div (set_rate st * 256) \<le> 39062"
      by (simp_all add: word_le_nat_alt d)
  qed
  then show ?thesis using cases by (auto simp: itr_interval_ok [OF ok])
qed

theorem itr_start_interval_witness:
  "\<exists>v. itr_interval (set_rate (e1000e_check_options sample_board sample_params 0 sample_settings)) = Inr v \<and> 39 \<le> v \<and> v \<le> 39062"
proof -
  define st where "st = e1000e_check_options sample_board sample_params 0 sample_settings"
  have "params_ok sample_params" by (simp add: params_ok_def sample_params_def c_ints_def)
  then have choice: "settings_choice sample_board sample_params 0 st"
    unfolding st_def by (intro check_options_choice) (simp_all add: sample_board_def)
  have "uint (set_rate st) = 8001"
    using choice by (auto simp: settings_choice_def sample_params_def user_choice_def rate_spec_def rate_choice_def)
  moreover have "set_rate st = 0 \<and> rate_setting st = 0 \<or>
      set_rate st = 4 \<and> rate_setting st = 4 \<and> itr_interval (set_rate st) = Inr 976562 \<or>
      (\<exists>v. itr_interval (set_rate st) = Inr v \<and> 39 \<le> v \<and> v \<le> 39062)"
    using \<open>params_ok sample_params\<close> by (intro itr_start_interval [of sample_params sample_board st 0 sample_settings])
      (simp_all add: sample_board_def st_def)
  ultimately show ?thesis unfolding st_def [symmetric] by auto
qed

end
