(* ===== verification/Vlan.thy ===== *)
theory Vlan
  imports Irq_System Mac
begin

text \<open>
  The VLAN filter of \<open>netdev.c\<close> (the variant without \<open>vlan_group\<close>): identifiers that the
  kernel adds and removes, the identifier that management firmware uses, the filter table of the
  device, which a reset clears and the driver restores. The state is that of the interface with the
  members of the adapter that this code keeps; the bit map of active identifiers is a set. Parts with
  a filter table are those of \<open>82571.c\<close> and \<open>80003es2lan.c\<close>.
\<close>

unbundle bit_operations_syntax

section \<open>State and operations\<close>

record vlan_adapter =
  vlan_if :: iface
  has_vlan_filter :: bool
  mng_vlan_id :: u16
  active_vlans :: "u16 set"

type_synonym 'a vlan_io = "(vlan_adapter, 'a) state"

definition on_if :: "'a if_io \<Rightarrow> 'a vlan_io" where
  "on_if m = State (\<lambda>s. let (a, t) = run_state m (vlan_if s) in (a, s\<lparr>vlan_if := t\<rparr>))"

abbreviation vlan_dev :: "'a io \<Rightarrow> 'a vlan_io" where
  "vlan_dev m \<equiv> on_if (if_net (on_hw m))"

abbreviation vlan_hw :: "vlan_adapter \<Rightarrow> hw" where
  "vlan_hw s \<equiv> hw_of (vlan_if s)"

text \<open>Word and bit of the filter table for an identifier.\<close>

definition vlan_entry :: "u16 \<Rightarrow> u32" where
  "vlan_entry vid = drop_bit 5 (ucast vid) AND 0x7F"

definition vlan_bit :: "u16 \<Rightarrow> u32" where
  "vlan_bit vid = push_bit (unat (vid AND 0x1F)) 1"

text \<open>Whether the firmware has told that it uses a VLAN, and whether it is this one.\<close>

definition cookie_vlan :: "vlan_adapter \<Rightarrow> bool" where
  "cookie_vlan s \<longleftrightarrow> cookie_status (mng_cookie (vlan_hw s)) AND E1000_MNG_DHCP_COOKIE_STATUS_VLAN \<noteq> 0"

definition managed :: "vlan_adapter \<Rightarrow> u16 \<Rightarrow> bool" where
  "managed s vid \<longleftrightarrow> cookie_vlan s \<and> vid = mng_vlan_id s"

definition e1000_vlan_rx_add_vid :: "u16 \<Rightarrow> s32 vlan_io" where
  "e1000_vlan_rx_add_vid vid = do {
     s \<leftarrow> get;
     if managed s vid then return 0
     else do {
       (if has_vlan_filter s then do {
          let index = vlan_entry vid;
          vfta \<leftarrow> vlan_dev (E1000_READ_REG_ARRAY E1000_VFTA index);
          vlan_dev (e1000_write_vfta_generic index (vfta OR vlan_bit vid)) }
        else return ());
       modify (\<lambda>s. s\<lparr>active_vlans := insert vid (active_vlans s)\<rparr>);
       return 0 } }"

definition e1000_vlan_rx_kill_vid :: "u16 \<Rightarrow> s32 vlan_io" where
  "e1000_vlan_rx_kill_vid vid = do {
     s \<leftarrow> get;
     if managed s vid then do { on_if e1000e_release_hw_control; return 0 }
     else do {
       (if has_vlan_filter s then do {
          let index = vlan_entry vid;
          vfta \<leftarrow> vlan_dev (E1000_READ_REG_ARRAY E1000_VFTA index);
          vlan_dev (e1000_write_vfta_generic index (vfta AND NOT (vlan_bit vid))) }
        else return ());
       modify (\<lambda>s. s\<lparr>active_vlans := active_vlans s - {vid}\<rparr>);
       return 0 } }"

definition e1000e_vlan_filter_disable :: "unit vlan_io" where
  "e1000e_vlan_filter_disable = do {
     s \<leftarrow> get;
     if has_vlan_filter s then do {
       rctl \<leftarrow> vlan_dev (er32 E1000_RCTL);
       vlan_dev (ew32 E1000_RCTL (rctl AND NOT (E1000_RCTL_VFE OR E1000_RCTL_CFIEN)));
       if mng_vlan_id s \<noteq> E1000_MNG_VLAN_NONE then do {
         _ \<leftarrow> e1000_vlan_rx_kill_vid (mng_vlan_id s);
         modify (\<lambda>s. s\<lparr>mng_vlan_id := E1000_MNG_VLAN_NONE\<rparr>) }
       else return () }
     else return () }"

definition e1000e_vlan_filter_enable :: "unit vlan_io" where
  "e1000e_vlan_filter_enable = do {
     s \<leftarrow> get;
     if has_vlan_filter s then do {
       rctl \<leftarrow> vlan_dev (er32 E1000_RCTL);
       vlan_dev (ew32 E1000_RCTL ((rctl OR E1000_RCTL_VFE) AND NOT E1000_RCTL_CFIEN)) }
     else return () }"

definition e1000e_vlan_strip_disable :: "unit vlan_io" where
  "e1000e_vlan_strip_disable = do {
     ctrl \<leftarrow> vlan_dev (er32 E1000_CTRL);
     vlan_dev (ew32 E1000_CTRL (ctrl AND NOT E1000_CTRL_VME)) }"

definition e1000e_vlan_strip_enable :: "unit vlan_io" where
  "e1000e_vlan_strip_enable = do {
     ctrl \<leftarrow> vlan_dev (er32 E1000_CTRL);
     vlan_dev (ew32 E1000_CTRL (ctrl OR E1000_CTRL_VME)) }"

definition e1000_update_mng_vlan :: "unit vlan_io" where
  "e1000_update_mng_vlan = do {
     s \<leftarrow> get;
     let vid = cookie_vlan_id (mng_cookie (vlan_hw s));
     let old_vid = mng_vlan_id s;
     (if cookie_vlan s then do {
        _ \<leftarrow> e1000_vlan_rx_add_vid vid;
        modify (\<lambda>s. s\<lparr>mng_vlan_id := vid\<rparr>) }
      else return ());
     if old_vid \<noteq> E1000_MNG_VLAN_NONE \<and> vid \<noteq> old_vid then do {
       _ \<leftarrow> e1000_vlan_rx_kill_vid old_vid;
       return () }
     else return () }"

text \<open>The walk over the bit map looks at each of the 4096 identifiers when it gets there.\<close>

fun restore_vlan_loop :: "nat \<Rightarrow> nat \<Rightarrow> unit vlan_io" where
  "restore_vlan_loop vid 0 = return ()"
| "restore_vlan_loop vid (Suc n) = do {
     s \<leftarrow> get;
     _ \<leftarrow> (if of_nat vid \<in> active_vlans s then e1000_vlan_rx_add_vid (of_nat vid) else return 0);
     restore_vlan_loop (Suc vid) n }"

definition e1000_restore_vlan :: "unit vlan_io" where
  "e1000_restore_vlan = do {
     _ \<leftarrow> e1000_vlan_rx_add_vid 0;
     restore_vlan_loop 0 4096 }"

section \<open>Clearing the table\<close>

fun clear_vfta_82571_loop :: "u32 \<Rightarrow> u32 \<Rightarrow> nat \<Rightarrow> nat \<Rightarrow> unit io" where
  "clear_vfta_82571_loop vfta_offset vfta_bit_in_reg offset 0 = return ()"
| "clear_vfta_82571_loop vfta_offset vfta_bit_in_reg offset (Suc n) = do {
     E1000_WRITE_REG_ARRAY E1000_VFTA (of_nat offset) (if of_nat offset = vfta_offset then vfta_bit_in_reg else 0);
     e1e_flush;
     clear_vfta_82571_loop vfta_offset vfta_bit_in_reg (Suc offset) n }"

definition e1000_clear_vfta_82571 :: "unit io" where
  "e1000_clear_vfta_82571 = do {
     h \<leftarrow> get;
     let vlan_id = cookie_vlan_id (mng_cookie h);
     if mac_type (mac h) \<in> {e1000_82573, e1000_82574, e1000_82583} \<and> vlan_id \<noteq> 0
     then clear_vfta_82571_loop (vlan_entry vlan_id) (vlan_bit vlan_id) 0 E1000_VLAN_FILTER_TBL_SIZE
     else clear_vfta_82571_loop 0 0 0 E1000_VLAN_FILTER_TBL_SIZE }"

text \<open>The member \<open>clear_vfta\<close> of the operations of the parts with a filter.\<close>

definition clear_vfta :: "unit io" where
  "clear_vfta = do {
     h \<leftarrow> get;
     if mac_type (mac h) = e1000_80003es2lan then e1000_clear_vfta_generic else e1000_clear_vfta_82571 }"

section \<open>The table as a set\<close>

definition vlan_reg :: "u32 \<Rightarrow> u32" where
  "vlan_reg index = E1000_VFTA + push_bit 2 index"

definition vlan_slot :: "u16 \<Rightarrow> nat" where
  "vlan_slot vid = unat (vid AND 0x1F)"

text \<open>The identifiers whose bit is set, and what the table has to be made of for that to mean anything.\<close>

definition vlan_table :: "hw \<Rightarrow> u16 set" where
  "vlan_table h = {vid. vid < 4096 \<and> bit (rdv (vlan_reg (vlan_entry vid)) h) (vlan_slot vid)}"

definition vlan_storage :: "device \<Rightarrow> bool" where
  "vlan_storage d \<longleftrightarrow> (\<forall>i < 128. storage_reg d (vlan_reg (of_nat i)))"

lemma unat_vlan_entry: "unat (vlan_entry vid) = unat vid div 32 mod 128"
proof -
  have "vlan_entry vid = take_bit 7 (drop_bit 5 (ucast vid))"
    by (simp add: vlan_entry_def take_bit_eq_mask mask_eq_exp_minus_1)
  then show ?thesis by (simp add: unat_mod unat_div unsigned_ucast_eq take_bit_eq_mod drop_bit_eq_div)
qed

lemma unat_vlan_slot: "vlan_slot vid = unat vid mod 32"
proof -
  have "vid AND 0x1F = take_bit 5 vid" by (simp add: take_bit_eq_mask mask_eq_exp_minus_1)
  then show ?thesis by (simp add: vlan_slot_def unat_mod take_bit_eq_mod)
qed

lemma vlan_entry_bound: "vlan_entry vid < 128" "unat (vlan_entry vid) < 128" "vlan_slot vid < 32"
  by (simp_all add: word_less_nat_alt unat_vlan_entry unat_vlan_slot)

lemma vlan_place_eq:
  assumes "a < 4096" "b < 4096"
  shows "vlan_entry a = vlan_entry b \<and> vlan_slot a = vlan_slot b \<longleftrightarrow> a = b"
proof -
  have "unat a < 4096" "unat b < 4096" using assms by (simp_all add: word_less_nat_alt)
  then have d: "unat (vlan_entry a) = unat a div 32" "unat (vlan_entry b) = unat b div 32"
    by (simp_all add: unat_vlan_entry)
  have "unat a = unat b" if "unat a div 32 = unat b div 32" "unat a mod 32 = unat b mod 32"
    using that by (metis div_mult_mod_eq)
  then show ?thesis
    using d by (auto simp: unat_vlan_slot) (metis word_unat_eq_iff)
qed

lemma vlan_reg_eq: "a < 128 \<Longrightarrow> b < 128 \<Longrightarrow> vlan_reg a = vlan_reg b \<longleftrightarrow> a = b"
proof -
  assume "a < 128" "b < 128"
  then have l: "unat a < 128" "unat b < 128" by (simp_all add: word_less_nat_alt)
  have "unat (push_bit 2 x) = unat x * 4" if "unat x < 128" for x :: u32
    using that by (simp add: push_bit_eq_mult unat_word_ariths)
  then have "unat (push_bit 2 a) = unat a * 4" "unat (push_bit 2 b) = unat b * 4" using l by auto
  then show ?thesis by (auto simp: vlan_reg_def) (metis mult_right_cancel word_unat_eq_iff zero_neq_numeral)
qed

lemma vlan_storage_reg: "vlan_storage d \<Longrightarrow> i < 128 \<Longrightarrow> storage_reg d (vlan_reg i)"
proof -
  assume s: "vlan_storage d" and "i < 128"
  then have "unat i < 128" by (simp add: word_less_nat_alt)
  with s have "storage_reg d (vlan_reg (of_nat (unat i)))" by (simp only: vlan_storage_def)
  then show ?thesis by simp
qed

lemma bit_vlan_bit: "bit (vlan_bit vid) n \<longleftrightarrow> n = vlan_slot vid"
  using vlan_entry_bound(3) [of vid] by (auto simp: vlan_bit_def vlan_slot_def bit_simps)

text \<open>What a write to one word of the table does to the set, and that reads leave it.\<close>

lemma vlan_table_rd: "vlan_storage (dev h) \<Longrightarrow> vlan_table (rd r h) = vlan_table h"
  using vlan_entry_bound(1) by (auto simp: vlan_table_def storage_reg_simps vlan_storage_reg)

lemma vlan_table_wr:
  assumes "vlan_storage (dev h)" and "i < 128"
  shows "vlan_table (wr (vlan_reg i) v h) =
    {vid. vid < 4096 \<and> (if vlan_entry vid = i then bit v (vlan_slot vid) else vid \<in> vlan_table h)}"
proof -
  have "rdv (vlan_reg (vlan_entry vid)) (wr (vlan_reg i) v h) =
      (if vlan_entry vid = i then v else rdv (vlan_reg (vlan_entry vid)) h)" for vid
    using vlan_storage_reg [OF assms(1), of "vlan_entry vid"] vlan_entry_bound(1) [of vid] assms(2)
    by (auto simp: storage_reg_simps vlan_reg_eq)
  then show ?thesis by (auto simp: vlan_table_def)
qed

lemma vlan_table_wr_other:
  assumes "vlan_storage (dev h)" and "\<forall>i < 128. r \<noteq> vlan_reg i"
  shows "vlan_table (wr r v h) = vlan_table h"
  using assms vlan_entry_bound(1) by (auto simp: vlan_table_def storage_reg_simps vlan_storage_reg)

lemma vlan_table_set:
  assumes "vlan_storage (dev h)" and "vid < 4096"
  shows "vlan_table (wr (vlan_reg (vlan_entry vid)) (rdv (vlan_reg (vlan_entry vid)) h OR vlan_bit vid) h)
      = insert vid (vlan_table h)"
    and "vlan_table (wr (vlan_reg (vlan_entry vid)) (rdv (vlan_reg (vlan_entry vid)) h AND NOT (vlan_bit vid)) h)
      = vlan_table h - {vid}"
proof -
  have b: "bit (NOT (vlan_bit vid)) (vlan_slot x) \<longleftrightarrow> vlan_slot x \<noteq> vlan_slot vid" for x
    using vlan_entry_bound(3) [of x] by (simp add: bit_not_iff bit_vlan_bit)
  have in_table: "x \<in> vlan_table h \<longleftrightarrow> bit (rdv (vlan_reg (vlan_entry vid)) h) (vlan_slot x)"
    if "x < 4096" "vlan_entry x = vlan_entry vid" for x
    using that by (simp add: vlan_table_def)
  have out: "x < 4096" if "x \<in> vlan_table h" for x using that by (simp add: vlan_table_def)
  show "vlan_table (wr (vlan_reg (vlan_entry vid)) (rdv (vlan_reg (vlan_entry vid)) h OR vlan_bit vid) h)
      = insert vid (vlan_table h)"
    unfolding vlan_table_wr [OF assms(1) vlan_entry_bound(1)]
    using vlan_place_eq [OF _ assms(2)] in_table out assms(2) by (auto simp: bit_or_iff bit_vlan_bit)
  show "vlan_table (wr (vlan_reg (vlan_entry vid)) (rdv (vlan_reg (vlan_entry vid)) h AND NOT (vlan_bit vid)) h)
      = vlan_table h - {vid}"
    unfolding vlan_table_wr [OF assms(1) vlan_entry_bound(1)]
    using vlan_place_eq [OF _ assms(2)] in_table out by (auto simp: bit_and_iff b)
qed

section \<open>What the operations do\<close>

lemma wp_on_if [if_wp]: "wp (on_if m) Q = (\<lambda>s. wp m (\<lambda>a t. Q a (s\<lparr>vlan_if := t\<rparr>)) (vlan_if s))"
  by (simp add: wp_def on_if_def fun_eq_iff case_prod_beta Let_def)

text \<open>All of the operations leave this.\<close>

definition vlan_kept :: "vlan_adapter \<Rightarrow> vlan_adapter \<Rightarrow> bool" where
  "vlan_kept s t \<longleftrightarrow> has_vlan_filter t = has_vlan_filter s \<and> mng_vlan_id t = mng_vlan_id s \<and>
     same_hw (vlan_hw s) (vlan_hw t)"

definition vlan_ready :: "vlan_adapter \<Rightarrow> bool" where
  "vlan_ready s \<longleftrightarrow> has_vlan_filter s \<and> vlan_storage (dev (vlan_hw s))"

lemma vlan_hw_fields:
  "same_hw a b \<Longrightarrow> dev b = dev a \<and> mng_cookie b = mng_cookie a \<and> mac b = mac a"
  by (auto simp: same_hw_def) (metis hw.select_convs(9) hw.surjective hw.update_convs(10),
      metis hw.select_convs(6) hw.surjective hw.update_convs(10), metis hw.select_convs(1) hw.surjective hw.update_convs(10))

lemma same_hw_access: "same_hw h (rd r h)" "same_hw h (wr r v h)"
  using wr_trace [of r v h] by (auto simp: same_hw_def rd_def log_event_def)

lemma vlan_kept_refl: "vlan_kept s s"
  by (simp add: vlan_kept_def same.R_refl)

lemma vlan_kept_trans: "vlan_kept a b \<Longrightarrow> vlan_kept b c \<Longrightarrow> vlan_kept a c"
  by (auto simp: vlan_kept_def intro: same.R_trans)

lemma vlan_kept_ready: "vlan_kept s t \<Longrightarrow> vlan_ready t = vlan_ready s"
  using vlan_hw_fields by (auto simp: vlan_kept_def vlan_ready_def)

lemma vlan_kept_managed: "vlan_kept s t \<Longrightarrow> managed t = managed s"
  using vlan_hw_fields by (auto simp: vlan_kept_def managed_def cookie_vlan_def fun_eq_iff)

text \<open>One update of a word of the table.\<close>

definition vlan_edit :: "u16 \<Rightarrow> (u32 \<Rightarrow> u32) \<Rightarrow> unit vlan_io" where
  "vlan_edit vid f = do {
     vfta \<leftarrow> vlan_dev (E1000_READ_REG_ARRAY E1000_VFTA (vlan_entry vid));
     vlan_dev (e1000_write_vfta_generic (vlan_entry vid) (f vfta)) }"

lemma wp_vlan_edit:
  assumes "vlan_ready s"
  shows "wp (vlan_edit vid f) (\<lambda>_ t. vlan_kept s t \<and> active_vlans t = active_vlans s \<and>
    vlan_table (vlan_hw t) = vlan_table (wr (vlan_reg (vlan_entry vid))
      (f (rdv (vlan_reg (vlan_entry vid)) (vlan_hw s))) (rd (vlan_reg (vlan_entry vid)) (vlan_hw s)))) s"
proof -
  have st: "vlan_storage (dev (vlan_hw s))" using assms by (simp add: vlan_ready_def)
  show ?thesis
    unfolding vlan_edit_def E1000_READ_REG_ARRAY_def E1000_WRITE_REG_ARRAY_def e1000_write_vfta_generic_def
      vlan_reg_def [symmetric] wp net_wp if_wp
    by (auto simp: vlan_kept_def vlan_table_rd st intro!: same.R_trans [OF same_hw_access(1)]
        same.R_trans [OF same_hw_access(2)] same_hw_access(1))
qed

lemma vlan_add_edit:
  "e1000_vlan_rx_add_vid vid = do {
     s \<leftarrow> get;
     if managed s vid then return 0
     else do {
       (if has_vlan_filter s then vlan_edit vid (\<lambda>vfta. vfta OR vlan_bit vid) else return ());
       modify (\<lambda>s. s\<lparr>active_vlans := insert vid (active_vlans s)\<rparr>);
       return 0 } }"
  unfolding e1000_vlan_rx_add_vid_def vlan_edit_def Let_def ..

lemma vlan_kill_edit:
  "e1000_vlan_rx_kill_vid vid = do {
     s \<leftarrow> get;
     if managed s vid then do { on_if e1000e_release_hw_control; return 0 }
     else do {
       (if has_vlan_filter s then vlan_edit vid (\<lambda>vfta. vfta AND NOT (vlan_bit vid)) else return ());
       modify (\<lambda>s. s\<lparr>active_vlans := active_vlans s - {vid}\<rparr>);
       return 0 } }"
  unfolding e1000_vlan_rx_kill_vid_def vlan_edit_def Let_def ..

lemma wp_add_vid:
  assumes "vlan_ready s" and "vid < 4096"
  shows "wp (e1000_vlan_rx_add_vid vid) (\<lambda>r t. r = 0 \<and> vlan_kept s t \<and>
    active_vlans t = (if managed s vid then active_vlans s else insert vid (active_vlans s)) \<and>
    vlan_table (vlan_hw t) =
      (if managed s vid then vlan_table (vlan_hw s) else insert vid (vlan_table (vlan_hw s)))) s"
proof (cases "managed s vid")
  case True
  then show ?thesis unfolding vlan_add_edit wp by (simp add: vlan_kept_refl wp)
next
  case False
  have st: "vlan_storage (dev (vlan_hw s))" and f: "has_vlan_filter s" using assms(1) by (auto simp: vlan_ready_def)
  have "vlan_table (wr (vlan_reg (vlan_entry vid)) (rdv (vlan_reg (vlan_entry vid)) (vlan_hw s) OR vlan_bit vid)
      (rd r (vlan_hw s))) = insert vid (vlan_table (vlan_hw s))" for r
    using vlan_table_set(1) [of "rd r (vlan_hw s)" vid] st assms(2) vlan_storage_reg [OF st vlan_entry_bound(1)]
    by (simp add: vlan_table_rd storage_reg_simps)
  then show ?thesis
    unfolding vlan_add_edit wp using False f
    by (auto simp: wp vlan_kept_def intro!: wp_mono [OF wp_vlan_edit [OF assms(1)]])
qed

text \<open>Giving control back to the firmware does not touch the table.\<close>

lemma vlan_reg_not_control: "i < 128 \<Longrightarrow> vlan_reg i \<noteq> E1000_SWSM \<and> vlan_reg i \<noteq> E1000_CTRL_EXT"
proof -
  assume "i < 128"
  then have l: "unat i < 128" by (simp add: word_less_nat_alt)
  then have "unat (vlan_reg i) = 22016 + unat i * 4"
    by (simp add: vlan_reg_def push_bit_eq_mult unat_word_ariths)
  with l show ?thesis by auto
qed

lemma wp_release_hw_control:
  assumes "vlan_ready s"
  shows "wp (on_if e1000e_release_hw_control) (\<lambda>_ t. vlan_kept s t \<and> active_vlans t = active_vlans s \<and>
    vlan_table (vlan_hw t) = vlan_table (vlan_hw s)) s"
proof -
  have st: "vlan_storage (dev (vlan_hw s))" using assms by (simp add: vlan_ready_def)
  have sw: "vlan_table (wr E1000_SWSM v (rd r (vlan_hw s))) = vlan_table (vlan_hw s)"
    "vlan_table (wr E1000_CTRL_EXT v (rd r (vlan_hw s))) = vlan_table (vlan_hw s)" for v r
    using st vlan_reg_not_control by (subst vlan_table_wr_other; fastforce simp: vlan_table_rd)+
  show ?thesis
    unfolding e1000e_release_hw_control_def wp net_wp if_wp
    by (auto simp: wp net_wp if_wp vlan_kept_def sw same.R_refl intro!: same.R_trans [OF same_hw_access(1)] same_hw_access)
qed

lemma wp_kill_vid:
  assumes "vlan_ready s" and "vid < 4096"
  shows "wp (e1000_vlan_rx_kill_vid vid) (\<lambda>r t. r = 0 \<and> vlan_kept s t \<and>
    active_vlans t = (if managed s vid then active_vlans s else active_vlans s - {vid}) \<and>
    vlan_table (vlan_hw t) =
      (if managed s vid then vlan_table (vlan_hw s) else vlan_table (vlan_hw s) - {vid})) s"
proof (cases "managed s vid")
  case True
  then show ?thesis
    unfolding vlan_kill_edit wp by (auto simp: wp intro!: wp_mono [OF wp_release_hw_control [OF assms(1)]])
next
  case False
  have st: "vlan_storage (dev (vlan_hw s))" and f: "has_vlan_filter s" using assms(1) by (auto simp: vlan_ready_def)
  have "vlan_table (wr (vlan_reg (vlan_entry vid)) (rdv (vlan_reg (vlan_entry vid)) (vlan_hw s) AND NOT (vlan_bit vid))
      (rd r (vlan_hw s))) = vlan_table (vlan_hw s) - {vid}" for r
    using vlan_table_set(2) [of "rd r (vlan_hw s)" vid] st assms(2) vlan_storage_reg [OF st vlan_entry_bound(1)]
    by (simp add: vlan_table_rd storage_reg_simps)
  then show ?thesis
    unfolding vlan_kill_edit wp using False f
    by (auto simp: wp vlan_kept_def intro!: wp_mono [OF wp_vlan_edit [OF assms(1)]])
qed

section \<open>Sequences of requests\<close>

datatype vlan_req = AddVid u16 | KillVid u16

primrec request_vid :: "vlan_req \<Rightarrow> u16" where
  "request_vid (AddVid v) = v"
| "request_vid (KillVid v) = v"

primrec vlan_request :: "vlan_req \<Rightarrow> s32 vlan_io" where
  "vlan_request (AddVid v) = e1000_vlan_rx_add_vid v"
| "vlan_request (KillVid v) = e1000_vlan_rx_kill_vid v"

primrec vlan_requests :: "vlan_req list \<Rightarrow> unit vlan_io" where
  "vlan_requests [] = return ()"
| "vlan_requests (q # qs) = do { _ \<leftarrow> vlan_request q; vlan_requests qs }"

text \<open>The abstract filter: a set of identifiers, on which requests for a reserved one have no effect.\<close>

primrec filter_request :: "(u16 \<Rightarrow> bool) \<Rightarrow> vlan_req \<Rightarrow> u16 set \<Rightarrow> u16 set" where
  "filter_request reserved (AddVid v) A = (if reserved v then A else insert v A)"
| "filter_request reserved (KillVid v) A = (if reserved v then A else A - {v})"

lemma wp_vlan_request:
  assumes "vlan_ready s" and "request_vid q < 4096"
  shows "wp (vlan_request q) (\<lambda>_ t. vlan_kept s t \<and>
    active_vlans t = filter_request (managed s) q (active_vlans s) \<and>
    vlan_table (vlan_hw t) = filter_request (managed s) q (vlan_table (vlan_hw s))) s"
  using assms by (cases q) (auto intro!: wp_mono [OF wp_add_vid] wp_mono [OF wp_kill_vid])

lemma wp_vlan_requests:
  assumes "vlan_ready s" and "\<forall>q \<in> set qs. request_vid q < 4096"
  shows "wp (vlan_requests qs) (\<lambda>_ t. vlan_kept s t \<and>
    active_vlans t = fold (filter_request (managed s)) qs (active_vlans s) \<and>
    vlan_table (vlan_hw t) = fold (filter_request (managed s)) qs (vlan_table (vlan_hw s))) s"
  using assms
proof (induction qs arbitrary: s)
  case Nil
  then show ?case by (simp add: wp vlan_kept_refl)
next
  case (Cons q qs)
  have q: "request_vid q < 4096" and qs: "\<forall>q \<in> set qs. request_vid q < 4096" using Cons.prems by auto
  show ?case
    unfolding vlan_requests.simps wp
  proof (rule wp_mono [OF wp_vlan_request [OF Cons.prems(1) q]], elim conjE, goal_cases)
    case (1 r t)
    have "vlan_ready t" using 1 Cons.prems(1) vlan_kept_ready by simp
    note Cons.IH [OF this qs]
    then show ?case
      by (rule wp_mono) (use 1 vlan_kept_managed in \<open>auto intro: vlan_kept_trans\<close>)
  qed
qed

section \<open>Clearing and restoring\<close>

lemma wp_clear_loop:
  assumes "vlan_storage (dev h)" and "offset + n = 128"
    and "\<forall>vid < 4096. unat (vlan_entry vid) < offset \<longrightarrow> (vid \<in> vlan_table h \<longleftrightarrow> vlan_entry vid = k \<and> bit b (vlan_slot vid))"
  shows "wp (clear_vfta_82571_loop k b offset n) (\<lambda>_ g. same_hw h g \<and>
    vlan_table g = {vid. vid < 4096 \<and> vlan_entry vid = k \<and> bit b (vlan_slot vid)}) h"
  using assms
proof (induction n arbitrary: offset h)
  case 0
  have "vlan_table h = {vid. vid < 4096 \<and> vlan_entry vid = k \<and> bit b (vlan_slot vid)}"
    using 0 vlan_entry_bound(2) by (auto simp: vlan_table_def)
  then show ?case by (simp add: wp same.R_refl)
next
  case (Suc n)
  let ?v = "if of_nat offset = k then b else 0"
  define g where "g = rd E1000_STATUS (wr (vlan_reg (of_nat offset)) ?v h)"
  have o: "offset < 128" using Suc.prems(2) by simp
  have i: "(of_nat offset :: u32) < 128" "unat (of_nat offset :: u32) = offset"
    using o by (simp_all add: word_less_nat_alt unat_of_nat)
  have at: "vlan_entry vid = of_nat offset \<longleftrightarrow> unat (vlan_entry vid) = offset" for vid
    using i(2) by (metis word_unat_eq_iff)
  have same: "same_hw h g" unfolding g_def by (rule same.R_trans [OF same_hw_access(2) same_hw_access(1)])
  have st: "vlan_storage (dev g)" using Suc.prems(1) by (simp add: g_def)
  have tab: "vlan_table g = {vid. vid < 4096 \<and> (if unat (vlan_entry vid) = offset then bit ?v (vlan_slot vid)
      else vid \<in> vlan_table h)}"
    using Suc.prems(1) by (simp add: g_def vlan_table_rd vlan_table_wr [OF _ i(1)] at)
  have "\<forall>vid < 4096. unat (vlan_entry vid) < Suc offset \<longrightarrow>
      (vid \<in> vlan_table g \<longleftrightarrow> vlan_entry vid = k \<and> bit b (vlan_slot vid))"
  proof (intro allI impI)
    fix vid :: u16
    assume v: "vid < 4096" "unat (vlan_entry vid) < Suc offset"
    show "vid \<in> vlan_table g \<longleftrightarrow> vlan_entry vid = k \<and> bit b (vlan_slot vid)"
    proof (cases "unat (vlan_entry vid) = offset")
      case True
      then show ?thesis using v(1) at [of vid] by (auto simp: tab)
    next
      case False
      then show ?thesis using v Suc.prems(3) by (auto simp: tab)
    qed
  qed
  from Suc.IH [OF st _ this] Suc.prems(2)
  have "wp (clear_vfta_82571_loop k b (Suc offset) n) (\<lambda>_ g'. same_hw g g' \<and>
      vlan_table g' = {vid. vid < 4096 \<and> vlan_entry vid = k \<and> bit b (vlan_slot vid)}) g" by simp
  then show ?case
    unfolding clear_vfta_82571_loop.simps E1000_WRITE_REG_ARRAY_def vlan_reg_def [symmetric] wp g_def [symmetric]
    by (rule wp_mono) (use same same.R_trans in auto)
qed

lemma clear_generic_loop: "clear_vfta_loop offset n = clear_vfta_82571_loop k 0 offset n"
  by (induction n arbitrary: offset) (simp_all only: clear_vfta_loop.simps clear_vfta_82571_loop.simps if_cancel)

text \<open>The identifier that a part keeps when its table is cleared.\<close>

definition kept_vlan :: "hw \<Rightarrow> u16 set" where
  "kept_vlan h = (let vlan_id = cookie_vlan_id (mng_cookie h) in
     if mac_type (mac h) \<in> {e1000_82573, e1000_82574, e1000_82583} \<and> vlan_id \<noteq> 0 then {vlan_id} else {})"

lemma wp_clear_vfta:
  assumes "vlan_storage (dev h)" and "cookie_vlan_id (mng_cookie h) < 4096"
  shows "wp clear_vfta (\<lambda>_ g. same_hw h g \<and> vlan_table g = kept_vlan h) h"
proof -
  have none: "wp (clear_vfta_82571_loop 0 0 0 128) (\<lambda>_ g. same_hw h g \<and> vlan_table g = {}) h"
    by (rule wp_mono [OF wp_clear_loop [OF assms(1)]]) auto
  let ?v = "cookie_vlan_id (mng_cookie h)"
  have "{vid. vid < 4096 \<and> vlan_entry vid = vlan_entry ?v \<and> bit (vlan_bit ?v) (vlan_slot vid)} = {?v}"
    using vlan_place_eq [OF _ assms(2)] assms(2) by (auto simp: bit_vlan_bit)
  then have one: "wp (clear_vfta_82571_loop (vlan_entry ?v) (vlan_bit ?v) 0 128) (\<lambda>_ g. same_hw h g \<and> vlan_table g = {?v}) h"
    by (intro wp_mono [OF wp_clear_loop [OF assms(1)]]) auto
  have "wp e1000_clear_vfta_generic (\<lambda>_ g. same_hw h g \<and> vlan_table g = {}) h"
    using none unfolding e1000_clear_vfta_generic_def clear_generic_loop [of _ _ 0] .
  moreover have "kept_vlan h = (if mac_type (mac h) \<in> {e1000_82573, e1000_82574, e1000_82583} \<and> ?v \<noteq> 0 then {?v} else {})"
    by (simp only: kept_vlan_def Let_def)
  moreover have "mac_type (mac h) \<notin> {e1000_82573, e1000_82574, e1000_82583}" if "mac_type (mac h) = e1000_80003es2lan"
    using that by simp
  ultimately show ?thesis
    using none one unfolding clear_vfta_def e1000_clear_vfta_82571_def wp Let_def by presburger
qed

lemma wp_restore_loop:
  assumes "vlan_ready s" and "n + vid \<le> 4096"
  shows "wp (restore_vlan_loop vid n) (\<lambda>_ t. vlan_kept s t \<and> active_vlans t = active_vlans s \<and>
    vlan_table (vlan_hw t) = vlan_table (vlan_hw s) \<union>
      {v \<in> active_vlans s. vid \<le> unat v \<and> unat v < vid + n \<and> \<not> managed s v}) s"
  using assms
proof (induction n arbitrary: vid s)
  case 0
  then show ?case by (auto simp: wp vlan_kept_refl)
next
  case (Suc n)
  define v :: u16 where "v = of_nat vid"
  have u: "unat v = vid" "v < 4096" using Suc.prems(2) by (simp_all add: v_def unat_of_nat word_less_nat_alt)
  have eq: "x = v \<longleftrightarrow> unat x = vid" for x using u(1) by (metis word_unat_eq_iff)
  have split: "{x \<in> A. vid \<le> unat x \<and> unat x < vid + Suc n \<and> P x} =
      (if v \<in> A \<and> P v then {v} else {}) \<union> {x \<in> A. Suc vid \<le> unat x \<and> unat x < Suc vid + n \<and> P x}" for A P
    using u(1) by (auto simp: eq) (metis Suc_leI eq le_neq_implies_less)+
  have "wp (if v \<in> active_vlans s then e1000_vlan_rx_add_vid v else return 0) (\<lambda>_ t. vlan_kept s t \<and>
      active_vlans t = active_vlans s \<and> vlan_table (vlan_hw t) = vlan_table (vlan_hw s) \<union>
        (if v \<in> active_vlans s \<and> \<not> managed s v then {v} else {})) s"
    by (auto simp: wp vlan_kept_refl intro!: wp_mono [OF wp_add_vid [OF Suc.prems(1) u(2)]])
  then show ?case
    unfolding restore_vlan_loop.simps wp_bind wp_get v_def [symmetric] split
  proof (rule wp_mono, elim conjE, goal_cases)
    case (1 r t)
    have "vlan_ready t" "n + Suc vid \<le> 4096" using 1(2) Suc.prems by (simp_all add: vlan_kept_ready)
    note Suc.IH [OF this]
    then show ?case
      by (rule wp_mono) (use 1 vlan_kept_managed in \<open>auto intro: vlan_kept_trans\<close>)
  qed
qed

lemma wp_restore_vlan:
  assumes "vlan_ready s" and "active_vlans s \<subseteq> {..< 4096}"
  shows "wp e1000_restore_vlan (\<lambda>_ t. vlan_kept s t \<and>
    active_vlans t = active_vlans s \<union> ({0} - Collect (managed s)) \<and>
    vlan_table (vlan_hw t) = vlan_table (vlan_hw s) \<union> (insert 0 (active_vlans s) - Collect (managed s))) s"
  unfolding e1000_restore_vlan_def wp
proof (rule wp_mono [OF wp_add_vid [OF assms(1)]], simp, elim conjE, goal_cases)
  case (1 r t)
  have "vlan_ready t" using 1 assms(1) vlan_kept_ready by simp
  then have "wp (restore_vlan_loop 0 4096) (\<lambda>_ u. vlan_kept t u \<and> active_vlans u = active_vlans t \<and>
      vlan_table (vlan_hw u) = vlan_table (vlan_hw t) \<union> {v \<in> active_vlans t. unat v < 4096 \<and> \<not> managed t v}) t"
    using wp_restore_loop [of t 4096 0] by simp
  moreover have "unat v < 4096" if "v \<in> active_vlans s" for v
    using that assms(2) by (auto simp: word_less_nat_alt)
  ultimately show ?case
    by (elim wp_mono) (use 1 vlan_kept_managed in \<open>auto intro: vlan_kept_trans split: if_splits\<close>)
qed

lemma wp_clear_restore:
  assumes "vlan_ready s" and "active_vlans s \<subseteq> {..< 4096}" and "cookie_vlan_id (mng_cookie (vlan_hw s)) < 4096"
  shows "wp (do { vlan_dev clear_vfta; e1000_restore_vlan }) (\<lambda>_ t.
    vlan_table (vlan_hw t) = kept_vlan (vlan_hw s) \<union> (insert 0 (active_vlans s) - Collect (managed s)) \<and>
    active_vlans t = active_vlans s \<union> ({0} - Collect (managed s))) s"
proof -
  have st: "vlan_storage (dev (vlan_hw s))" using assms(1) by (simp add: vlan_ready_def)
  show ?thesis
    unfolding wp net_wp if_wp
  proof (rule wp_mono [OF wp_clear_vfta [OF st assms(3)]], elim conjE, goal_cases)
    case (1 r h)
    let ?s = "s\<lparr>vlan_if := vlan_if s\<lparr>nic_of := nic_of (vlan_if s)\<lparr>net_of := net_of (nic_of (vlan_if s))\<lparr>adapter_hw := h\<rparr>\<rparr>\<rparr>\<rparr>"
    have kept: "vlan_kept s ?s" using 1 by (simp add: vlan_kept_def)
    then have "vlan_ready ?s" "active_vlans ?s \<subseteq> {..< 4096}" "managed ?s = managed s"
      using assms(1,2) vlan_kept_ready vlan_kept_managed by auto
    then show ?case
      by (intro wp_mono [OF wp_restore_vlan]) (use 1 in auto)
  qed
qed

section \<open>What the filter promises\<close>

text \<open>
  C37: The filter table of the device and the bit map of the driver both implement a set of
  identifiers: any sequence of added and removed identifiers acts on each of them as on the abstract
  set, where requests for the identifier that the firmware owns have no effect, so that table and bit
  map stay equal when they were.
\<close>

theorem vlan_table_refines:
  assumes "vlan_ready s" and "\<forall>q \<in> set qs. request_vid q < 4096"
    and "run_state (vlan_requests qs) s = (r, t)"
  shows "vlan_table (vlan_hw t) = fold (filter_request (managed s)) qs (vlan_table (vlan_hw s)) \<and>
    active_vlans t = fold (filter_request (managed s)) qs (active_vlans s) \<and>
    (vlan_table (vlan_hw s) = active_vlans s \<longrightarrow> vlan_table (vlan_hw t) = active_vlans t)"
  using run_wp [OF wp_vlan_requests [OF assms(1,2)] assms(3)] by simp

definition sample_vlan :: "u32 \<Rightarrow> vlan_adapter" where
  "sample_vlan v = \<lparr>vlan_if = sample_if (sample_nic\<lparr>net_of := sample_net\<lparr>adapter_hw :=
       (sample_hw (ram_device (\<lambda>r. v)))\<lparr>mac := sample_mac\<lparr>mac_type := e1000_82574\<rparr>,
         mng_cookie := [0, 0, 0, 0, 2, 0, 5, 0, 0, 0, 0, 0, 0, 0, 0, 0]\<rparr>\<rparr>\<rparr>),
     has_vlan_filter = True, mng_vlan_id = 5, active_vlans = {3, 100}\<rparr>"

lemma sample_vlan_facts:
  "vlan_ready (sample_vlan v)" "managed (sample_vlan v) vid \<longleftrightarrow> vid = 5" "active_vlans (sample_vlan v) = {3, 100}"
  "cookie_vlan_id (mng_cookie (vlan_hw (sample_vlan v))) = 5" "mac_type (mac (vlan_hw (sample_vlan v))) = e1000_82574"
  "vlan_table (vlan_hw (sample_vlan 0)) = {}"
  by (simp_all add: vlan_ready_def vlan_storage_def sample_vlan_def sample_if_def ram_device_storage managed_def
      cookie_vlan_def cookie_status_def cookie_vlan_id_def)
    (simp add: vlan_table_def rdv_def ram_device_def)

theorem vlan_table_refines_witness:
  "\<exists>r t. run_state (vlan_requests [AddVid 3, AddVid 9, KillVid 3, AddVid 5, AddVid 4095]) (sample_vlan 0) = (r, t) \<and>
    vlan_table (vlan_hw t) = {9, 4095}"
proof -
  obtain r t where run: "run_state (vlan_requests [AddVid 3, AddVid 9, KillVid 3, AddVid 5, AddVid 4095]) (sample_vlan 0) = (r, t)"
    by (meson surj_pair)
  let ?qs = "[AddVid 3, AddVid 9, KillVid 3, AddVid 5, AddVid 4095]"
  have "\<forall>q \<in> set ?qs. request_vid q < 4096" by simp
  then have "vlan_table (vlan_hw t) = fold (filter_request (managed (sample_vlan 0))) ?qs {}"
    using vlan_table_refines [OF sample_vlan_facts(1) _ run] unfolding sample_vlan_facts(6) by blast
  also have "\<dots> = {9, 4095}" by (simp add: sample_vlan_facts(2) insert_Diff_if insert_commute)
  finally show ?thesis using run by blast
qed

text \<open>
  C36: A reset clears the table, bringing it up restores it: after \<open>clear_vfta\<close> and
  \<open>e1000_restore_vlan\<close> the table holds exactly the identifiers of the bit map and 0, whatever it
  held before, except for the identifier that the firmware owns, which is there exactly on the parts
  that keep it when they clear the table.
\<close>

theorem vlan_restored:
  assumes "vlan_ready s" and "active_vlans s \<subseteq> {..< 4096}" and "cookie_vlan_id (mng_cookie (vlan_hw s)) < 4096"
    and "run_state (do { vlan_dev clear_vfta; e1000_restore_vlan }) s = (r, t)"
  shows "vlan_table (vlan_hw t) = kept_vlan (vlan_hw s) \<union> (insert 0 (active_vlans s) - Collect (managed s)) \<and>
    active_vlans t = active_vlans s \<union> ({0} - Collect (managed s))"
  using run_wp [OF wp_clear_restore [OF assms(1-3)] assms(4)] .

theorem vlan_restored_witness:
  "\<exists>r t. run_state (do { vlan_dev clear_vfta; e1000_restore_vlan }) (sample_vlan 0xFFFFFFFF) = (r, t) \<and>
    vlan_table (vlan_hw t) = {0, 3, 5, 100}"
proof -
  obtain r t where run: "run_state (do { vlan_dev clear_vfta; e1000_restore_vlan }) (sample_vlan 0xFFFFFFFF) = (r, t)"
    by (meson surj_pair)
  have k: "kept_vlan (vlan_hw (sample_vlan 0xFFFFFFFF)) = {5}"
    unfolding kept_vlan_def sample_vlan_facts Let_def by simp
  have "vlan_table (vlan_hw t) = {5} \<union> (insert 0 {3, 100} - Collect (managed (sample_vlan 0xFFFFFFFF)))"
    using vlan_restored [OF sample_vlan_facts(1) _ _ run] unfolding k sample_vlan_facts by simp
  also have "\<dots> = {0, 3, 5, 100}" by (auto simp: sample_vlan_facts)
  finally show ?thesis using run by blast
qed

text \<open>
  On a part that does not keep the identifier of the firmware, a reset takes it from the table, and
  restoring does not bring it back, because adding it is refused.
\<close>

lemma managed_vlan_lost:
  assumes "vlan_ready s" and "active_vlans s \<subseteq> {..< 4096}" and "cookie_vlan_id (mng_cookie (vlan_hw s)) < 4096"
    and "mac_type (mac (vlan_hw s)) \<notin> {e1000_82573, e1000_82574, e1000_82583}" and "managed s vid"
  shows "vid \<notin> vlan_table (vlan_hw (snd (run_state (do { vlan_dev clear_vfta; e1000_restore_vlan }) s)))"
  using wp_clear_restore [OF assms(1-3)] assms(4,5) by (auto simp: wp_def kept_vlan_def Let_def)

section \<open>The identifier of the firmware\<close>

text \<open>
  When the firmware has changed its VLAN, the filter follows: the new identifier is in the table, the
  old one is out of it. That holds for an old identifier that the kernel uses too, and while the
  firmware uses no VLAN, the old identifier stays noted and is removed again by each update.
\<close>

lemma mng_vlan_moved:
  fixes s :: vlan_adapter
  defines "vid \<equiv> cookie_vlan_id (mng_cookie (vlan_hw s))" and "old \<equiv> mng_vlan_id s"
  assumes ready: "vlan_ready s" and vid: "vid < 4096" and old: "old < 4096 \<or> old = E1000_MNG_VLAN_NONE"
  shows "wp e1000_update_mng_vlan (\<lambda>_ t.
    mng_vlan_id t = (if cookie_vlan s then vid else old) \<and>
    vlan_table (vlan_hw t) = (if cookie_vlan s \<and> vid \<noteq> old then insert vid (vlan_table (vlan_hw s)) else vlan_table (vlan_hw s)) -
      (if old \<noteq> E1000_MNG_VLAN_NONE \<and> vid \<noteq> old then {old} else {}) \<and>
    active_vlans t = (if cookie_vlan s \<and> vid \<noteq> old then insert vid (active_vlans s) else active_vlans s) -
      (if old \<noteq> E1000_MNG_VLAN_NONE \<and> vid \<noteq> old then {old} else {})) s"
proof -
  define step where "step = (if cookie_vlan s then do {
      _ \<leftarrow> e1000_vlan_rx_add_vid vid; modify (\<lambda>s. s\<lparr>mng_vlan_id := vid\<rparr>) } else return ())"
  have st: "wp step (\<lambda>_ t. vlan_ready t \<and> mng_vlan_id t = (if cookie_vlan s then vid else old) \<and>
      (\<forall>x. managed t x \<longleftrightarrow> cookie_vlan s \<and> x = mng_vlan_id t) \<and>
      vlan_table (vlan_hw t) = (if cookie_vlan s \<and> vid \<noteq> old then insert vid (vlan_table (vlan_hw s)) else vlan_table (vlan_hw s)) \<and>
      active_vlans t = (if cookie_vlan s \<and> vid \<noteq> old then insert vid (active_vlans s) else active_vlans s)) s"
  proof (cases "cookie_vlan s")
    case True
    have m: "managed s vid \<longleftrightarrow> vid = old" using True by (simp add: managed_def old_def)
    have "vlan_ready (t\<lparr>mng_vlan_id := vid\<rparr>) \<and> cookie_vlan (t\<lparr>mng_vlan_id := vid\<rparr>)" if "vlan_kept s t" for t
      using vlan_kept_ready [OF that] ready that True vlan_hw_fields
      by (auto simp: vlan_ready_def vlan_kept_def cookie_vlan_def)
    then show ?thesis
      unfolding step_def wp_if wp_bind wp_modify wp_return using True m
      by (intro conjI impI wp_mono [OF wp_add_vid [OF ready vid]]) (auto simp: managed_def)
  next
    case False
    then show ?thesis unfolding step_def wp using ready by (simp add: wp old_def managed_def)
  qed
  have upd: "e1000_update_mng_vlan = do {
     s \<leftarrow> get;
     (if cookie_vlan s then do {
        _ \<leftarrow> e1000_vlan_rx_add_vid (cookie_vlan_id (mng_cookie (vlan_hw s)));
        modify (\<lambda>t. t\<lparr>mng_vlan_id := cookie_vlan_id (mng_cookie (vlan_hw s))\<rparr>) }
      else return ());
     if mng_vlan_id s \<noteq> E1000_MNG_VLAN_NONE \<and> cookie_vlan_id (mng_cookie (vlan_hw s)) \<noteq> mng_vlan_id s then do {
       _ \<leftarrow> e1000_vlan_rx_kill_vid (mng_vlan_id s);
       return () }
     else return () }"
    unfolding e1000_update_mng_vlan_def Let_def ..
  show ?thesis
    unfolding upd wp_bind wp_get vid_def [symmetric] old_def [symmetric] step_def [symmetric]
  proof (rule wp_mono [OF st], elim conjE, goal_cases)
    case (1 r t)
    show ?case
    proof (cases "old \<noteq> E1000_MNG_VLAN_NONE \<and> vid \<noteq> old")
      case True
      then have "\<not> managed t old" using 1 by auto
      then show ?thesis
        using True 1 old unfolding wp
        by (auto simp: wp vlan_kept_def intro!: wp_mono [OF wp_kill_vid [of t old]])
    next
      case False
      then show ?thesis using 1 by (auto simp: wp)
    qed
  qed
qed

end
