(* ===== verification/Reset.thy ===== *)
theory Reset
  imports Irq_System
begin

text \<open>
  Configuration of the device in \<open>netdev.c\<close>: the first part of \<open>e1000e_reset\<close>, which divides the
  packet buffer and derives the marks of flow control, the chunk size of the transmit path and
  whether the interrupt rate adapts; and the filters of pass-through management.
\<close>

unbundle bit_operations_syntax

section \<open>The packet buffer\<close>

record fifo_config =
  fifo_pba :: u32
  fifo_max_frame :: u32
  fifo_mtu :: u32
  disable_fc_pause_time :: bool

definition align :: "u32 \<Rightarrow> u32 \<Rightarrow> u32" where
  "align x a = (x + (a - 1)) AND NOT (a - 1)"

text \<open>
  The new size of the receive part, in KB, from the allocation that the register holds. A transmit
  descriptor has 16 bytes.
\<close>

definition fifo_split :: "u32 \<Rightarrow> u32 \<Rightarrow> u32" where
  "fifo_split max_frame pba =
     (let tx_space = drop_bit 16 pba;
          rx = pba AND 0xffff;
          min_tx_space = drop_bit 10 (align ((max_frame + 16 - 4) * 2) 1024);
          min_rx_space = drop_bit 10 (align max_frame 1024) in
      if tx_space < min_tx_space \<and> min_tx_space - tx_space < rx then
        (let rx = rx - (min_tx_space - tx_space) in if rx < min_rx_space then min_rx_space else rx)
      else rx)"

definition reset_pba :: "fifo_config \<Rightarrow> u32 if_io" where
  "reset_pba c = do {
     if_ew32 E1000_PBA (fifo_pba c);
     if fifo_max_frame c > 1518 + 4 then do {
       pba \<leftarrow> if_er32 E1000_PBA;
       let pba = fifo_split (fifo_max_frame c) pba;
       if_ew32 E1000_PBA pba;
       return pba }
     else return (fifo_pba c) }"

section \<open>Flow control\<close>

abbreviation if_set_fc :: "(fc_info \<Rightarrow> fc_info) \<Rightarrow> unit if_io" where
  "if_set_fc f \<equiv> if_net (on_hw (set_fc f))"

definition high_water_mark :: "u32 \<Rightarrow> u32 \<Rightarrow> u32" where
  "high_water_mark pba max_frame =
     (let hwm = (ucast (min (push_bit 10 pba * 9 div 10) (push_bit 10 pba - max_frame)) :: u16) in
      ucast hwm AND E1000_FCRTH_RTH)"

definition fc_default :: "fifo_config \<Rightarrow> u32 \<Rightarrow> u32 if_io" where
  "fc_default c pba = do {
     let high = high_water_mark pba (fifo_max_frame c);
     if_set_fc (\<lambda>f. f\<lparr>high_water := high, low_water := high - 8\<rparr>);
     return pba }"

definition reset_fc :: "fifo_config \<Rightarrow> u32 \<Rightarrow> u32 if_io" where
  "reset_fc c pba = do {
     if_set_fc (\<lambda>f. f\<lparr>pause_time := if disable_fc_pause_time c then 0xFFFF else E1000_FC_PAUSE_TIME,
       send_xon := True, current_mode := requested_mode f\<rparr>);
     s \<leftarrow> get;
     let ty = mac_type (mac (hw_of s));
     if ty \<in> {e1000_ich9lan, e1000_ich10lan} then
       (if fifo_mtu c > 1500 then do {
          if_ew32 E1000_PBA 14;
          if_set_fc (\<lambda>f. f\<lparr>high_water := 0x2800, low_water := 0x2800 - 8\<rparr>);
          return 14 }
        else fc_default c pba)
     else if ty = e1000_pchlan then do {
       (if fifo_mtu c > 1500 then if_set_fc (\<lambda>f. f\<lparr>high_water := 0x3500, low_water := 0x1500\<rparr>)
        else if_set_fc (\<lambda>f. f\<lparr>high_water := 0x5000, low_water := 0x3000\<rparr>));
       if_set_fc (\<lambda>f. f\<lparr>refresh_time := 0x1000\<rparr>);
       return pba }
     else if ty \<in> {e1000_pch2lan, e1000_pch_lpt, e1000_pch_spt, e1000_pch_cnp} then do {
       if_set_fc (\<lambda>f. f\<lparr>refresh_time := 0x0400\<rparr>);
       if fifo_mtu c \<le> 1500 then do {
         if_set_fc (\<lambda>f. f\<lparr>high_water := 0x05C20, low_water := 0x05048, pause_time := 0x0650\<rparr>);
         return pba }
       else do {
         if_ew32 E1000_PBA 14;
         if_set_fc (\<lambda>f. f\<lparr>high_water := (push_bit 10 14 * 9 div 10) AND E1000_FCRTH_RTH,
           low_water := (push_bit 10 14 * 8 div 10) AND E1000_FCRTL_RTL\<rparr>);
         return 14 } }
     else fc_default c pba }"

section \<open>Transmit limit and adaptive moderation\<close>

definition fifo_limit :: "u32 \<Rightarrow> u32" where
  "fifo_limit reg = min (push_bit 10 (drop_bit 16 reg) - 96) (push_bit 10 24)"

text \<open>The rate is not adapted where two full frames do not fit.\<close>

definition reset_aim :: "fifo_config \<Rightarrow> u32 \<Rightarrow> (halt + unit) if_io" where
  "reset_aim c pba = do {
     q \<leftarrow> gets irq;
     if itr_setting q AND 0x3 \<noteq> 0 then
       (if fifo_max_frame c * 2 > push_bit 10 pba then
          (if \<not> aim_disabled q then do {
             set_irq (\<lambda>q. q\<lparr>aim_disabled := True\<rparr>);
             e1000e_write_itr 0 }
           else return (Inr ()))
        else if aim_disabled q then do {
          set_irq (\<lambda>q. q\<lparr>aim_disabled := False, itr := 20000\<rparr>);
          e1000e_write_itr 20000 }
        else return (Inr ()))
     else return (Inr ()) }"

definition reset_fifo :: "fifo_config \<Rightarrow> (halt + unit) if_io" where
  "reset_fifo c = do {
     pba \<leftarrow> reset_pba c;
     pba \<leftarrow> reset_fc c pba;
     reg \<leftarrow> if_er32 E1000_PBA;
     if_net (set_ad (\<lambda>a. a\<lparr>tx_fifo_limit := unat (fifo_limit reg)\<rparr>));
     reset_aim c pba }"

section \<open>Filters of pass-through management\<close>

abbreviation (input) ipmi_ports :: u32 where
  "ipmi_ports \<equiv> E1000_MDEF_PORT_623 OR E1000_MDEF_PORT_664"

text \<open>Filters for nothing but the two ports are enabled; the ports they cover are collected.\<close>

fun enable_ipmi_filters :: "nat \<Rightarrow> nat \<Rightarrow> u32 \<Rightarrow> u32 \<Rightarrow> (u32 \<times> u32) io" where
  "enable_ipmi_filters i 0 manc2h j = return (manc2h, j)"
| "enable_ipmi_filters i (Suc n) manc2h j = do {
     mdef \<leftarrow> er32 (E1000_MDEF i);
     if mdef AND NOT ipmi_ports \<noteq> 0 then enable_ipmi_filters (Suc i) n manc2h j
     else enable_ipmi_filters (Suc i) n (if mdef \<noteq> 0 then manc2h OR push_bit i 1 else manc2h) (j OR mdef) }"

fun create_ipmi_filter :: "nat \<Rightarrow> nat \<Rightarrow> u32 \<Rightarrow> u32 io" where
  "create_ipmi_filter i 0 manc2h = return manc2h"
| "create_ipmi_filter i (Suc n) manc2h = do {
     mdef \<leftarrow> er32 (E1000_MDEF i);
     if mdef = 0 then do {
       ew32 (E1000_MDEF i) ipmi_ports;
       return (manc2h OR push_bit 1 1) }
     else create_ipmi_filter (Suc i) n manc2h }"

definition ipmi_filters :: "u32 \<Rightarrow> u32 io" where
  "ipmi_filters manc2h = do {
     (manc2h, j) \<leftarrow> enable_ipmi_filters 0 8 manc2h 0;
     if j = ipmi_ports then return manc2h else create_ipmi_filter 0 8 manc2h }"

definition e1000_init_manageability_pt :: "bool \<Rightarrow> unit io" where
  "e1000_init_manageability_pt mng_pt_enabled = do {
     if \<not> mng_pt_enabled then return ()
     else do {
       manc \<leftarrow> er32 E1000_MANC;
       manc2h \<leftarrow> er32 E1000_MANC2H;
       h \<leftarrow> get;
       manc2h \<leftarrow> (if mac_type (mac h) \<in> {e1000_82574, e1000_82583} then ipmi_filters manc2h
         else return (manc2h OR (E1000_MANC2H_PORT_623 OR E1000_MANC2H_PORT_664)));
       ew32 E1000_MANC2H manc2h;
       ew32 E1000_MANC (manc OR E1000_MANC_EN_MNG2HOST) } }"

section \<open>What the division gives\<close>

text \<open>A transmit share of \<open>kb\<close> KB gives 96 bytes less, at most 24 KB; no share at all wraps.\<close>

lemma fifo_limit_share:
  "unat (fifo_limit reg) = (let kb = unat (drop_bit 16 reg) in if kb = 0 \<or> 24 < kb then 24576 else 1024 * kb - 96)"
proof -
  let ?kb = "unat (drop_bit 16 reg)" and ?b = "push_bit 10 (drop_bit 16 reg)"
  have "unat reg < 65536 * 65536" using unsigned_less [of reg, where 'a = nat] by simp
  then have kb: "?kb < 65536" by (simp add: drop_bit_eq_div unat_div less_mult_imp_div_less)
  then have b: "unat ?b = 1024 * ?kb" by (simp add: push_bit_eq_mult unat_word_ariths)
  have limit: "unat (fifo_limit reg) = min (unat (?b - 96)) 24576"
    unfolding fifo_limit_def by (simp add: min_def word_le_nat_alt)
  show ?thesis
  proof (cases "?kb = 0")
    case True
    then have "?b = 0" using b by (simp add: unat_eq_0)
    then show ?thesis using True unfolding limit by simp
  next
    case False
    then have "96 \<le> ?b" using b by (simp add: word_le_nat_alt)
    then have "unat (?b - 96) = 1024 * ?kb - 96" by (simp add: unat_sub b)
    moreover have "min (1024 * k - 96) 24576 = (if 24 < k then 24576 else 1024 * k - 96)" for k :: nat by arith
    ultimately show ?thesis using False unfolding limit by (simp add: Let_def)
  qed
qed

lemma unat_fifo_limit: "0 < unat (fifo_limit reg)" "unat (fifo_limit reg) \<le> 24576"
proof -
  have b: "push_bit 10 (24 :: u32) = 24576" by simp
  show "unat (fifo_limit reg) \<le> 24576"
    unfolding fifo_limit_def b by (simp add: min_def word_le_nat_alt)
  have "push_bit 10 x \<noteq> 96" for x :: u32
  proof
    assume "push_bit 10 x = 96"
    then have "bit (push_bit 10 x) 5 = bit (96 :: u32) 5" by simp
    then show False by (simp add: bit_simps)
  qed
  then have "push_bit 10 (drop_bit 16 reg) - 96 \<noteq> 0" by simp
  then have "fifo_limit reg \<noteq> 0" unfolding fifo_limit_def b by (simp add: min_def)
  then show "0 < unat (fifo_limit reg)" by (simp add: unat_gt_0)
qed

text \<open>The mark leaves a tenth of the buffer, and a full frame, above it.\<close>

lemma high_water_fits:
  assumes "unat pba < 64" and "unat frame + 8 \<le> 1024 * unat pba"
  defines "h \<equiv> unat (high_water_mark pba frame)"
  shows "h + unat frame \<le> 1024 * unat pba" "10 * h \<le> 9 * (1024 * unat pba)" "8 \<le> h" "8 dvd h"
proof -
  let ?b = "push_bit 10 pba" and ?n = "1024 * unat pba"
  have b: "unat ?b = ?n" using assms(1) by (simp add: push_bit_eq_mult unat_word_ariths)
  have le: "frame \<le> ?b" using assms(2) b by (simp add: word_le_nat_alt)
  have u: "unat (?b * 9 div 10) = ?n * 9 div 10" "unat (?b - frame) = ?n - unat frame"
    using b assms(1) le by (simp_all add: unat_div unat_word_ariths unat_sub)
  define m where "m = min (?b * 9 div 10) (?b - frame)"
  have m: "unat m = min (?n * 9 div 10) (?n - unat frame)"
    using u by (simp add: m_def min_def word_le_nat_alt)
  have lt: "m < 65536" using m assms(1) by (simp add: word_less_nat_alt)
  then have "unat (take_bit 16 m) = unat m"
    unfolding unsigned_take_bit_eq by (intro take_bit_nat_eq_self) (simp add: word_less_nat_alt)
  then have t: "take_bit 16 m = m" by (simp add: word_unat_eq_iff)
  have "high_water_mark pba frame = ucast (ucast m :: u16) AND E1000_FCRTH_RTH"
    by (simp only: high_water_mark_def m_def Let_def)
  also have "\<dots> = push_bit 3 (drop_bit 3 (take_bit 16 m))"
  proof (rule bit_word_eqI)
    fix n :: nat
    have mask: "(0xFFF8 :: u32) = mask 16 AND NOT (mask 3)" by (simp add: mask_eq_exp_minus_1)
    show "bit (ucast (ucast m :: u16) AND (0xFFF8 :: u32)) n = bit (push_bit 3 (drop_bit 3 (take_bit 16 m))) n" if "n < LENGTH(32)"
      unfolding mask using that by (auto simp: bit_simps)
  qed
  finally have "high_water_mark pba frame = push_bit 3 (drop_bit 3 m)" unfolding t .
  moreover have "unat (push_bit 3 (drop_bit 3 m)) = 8 * (unat m div 8)"
    using lt by (simp add: push_bit_eq_mult drop_bit_eq_div unat_word_ariths unat_div word_less_nat_alt)
  ultimately have h: "h = 8 * (unat m div 8)" by (simp add: h_def)
  have "8 * (unat m div 8) \<le> unat m" by simp
  then have hm: "h \<le> unat m" using h by simp
  show "8 dvd h" using h by simp
  show "h + unat frame \<le> 1024 * unat pba" using hm m assms(2) by (simp add: min_def split: if_splits)
  show "10 * h \<le> 9 * (1024 * unat pba)" using hm m by (simp add: min_def split: if_splits)
  have "1 \<le> unat pba" using assms(2) by (cases "unat pba") simp_all
  then have "8 \<le> ?n * 9 div 10" by linarith
  moreover have "8 \<le> ?n - unat frame" using assms(2) by linarith
  ultimately have "8 \<le> unat m" unfolding m by simp
  then have "1 \<le> unat m div 8" by simp
  then show "8 \<le> h" unfolding h by linarith
qed

lemma wp_reset_pba:
  "wp (reset_pba c) (\<lambda>p t. last_write (trace (hw_of t)) E1000_PBA = Some p \<and> fc (hw_of t) = fc (hw_of s) \<and>
     mac (hw_of t) = mac (hw_of s) \<and> dev (hw_of t) = dev (hw_of s) \<and> irq t = irq s) s"
  unfolding reset_pba_def Let_def wp net_wp if_wp by (auto simp: wp net_wp if_wp last_write_wr last_write_rd)

text \<open>Parts that compute the marks, and the marks.\<close>

definition computed_marks :: "fifo_config \<Rightarrow> mac_kind \<Rightarrow> bool" where
  "computed_marks c ty \<longleftrightarrow> ty \<notin> {e1000_pchlan, e1000_pch2lan, e1000_pch_lpt, e1000_pch_spt, e1000_pch_cnp} \<and>
     (ty \<in> {e1000_ich9lan, e1000_ich10lan} \<longrightarrow> fifo_mtu c \<le> 1500)"

definition jumbo_pch :: "fifo_config \<Rightarrow> mac_kind \<Rightarrow> bool" where
  "jumbo_pch c ty \<longleftrightarrow> ty \<in> {e1000_pch2lan, e1000_pch_lpt, e1000_pch_spt, e1000_pch_cnp} \<and> fifo_mtu c > 1500"

text \<open>The other parts have fixed marks: high and low, in bytes.\<close>

definition fixed_marks :: "fifo_config \<Rightarrow> mac_kind \<Rightarrow> (nat \<times> nat) option" where
  "fixed_marks c ty =
     (if ty \<in> {e1000_ich9lan, e1000_ich10lan} \<and> fifo_mtu c > 1500 then Some (10240, 10232)
      else if ty = e1000_pchlan then Some (if fifo_mtu c > 1500 then (13568, 5376) else (20480, 12288))
      else if ty \<in> {e1000_pch2lan, e1000_pch_lpt, e1000_pch_spt, e1000_pch_cnp}
      then Some (if fifo_mtu c > 1500 then (12896, 11464) else (23584, 20552))
      else None)"

lemma marks_fixed_or_computed: "computed_marks c ty \<longleftrightarrow> fixed_marks c ty = None"
  by (cases ty) (auto simp: computed_marks_def fixed_marks_def)

lemma fixed_room: "fixed_marks c ty = Some (hi, lo) \<Longrightarrow> fifo_mtu c \<le> 1500 \<Longrightarrow> hi \<le> 23584"
  by (auto simp: fixed_marks_def split: if_splits)

lemma wp_fixed_marks:
  assumes "fixed_marks c (mac_type (mac (hw_of s))) = Some (hi, lo)"
  shows "wp (reset_fc c p) (\<lambda>rx t. unat (high_water (fc (hw_of t))) = hi \<and> unat (low_water (fc (hw_of t))) = lo) s"
  using assms
  by (cases "fifo_mtu c \<le> 1500"; cases "mac_type (mac (hw_of s))")
    (auto simp: linorder_not_less [symmetric] reset_fc_def Let_def wp net_wp if_wp fixed_marks_def)

lemma wp_reset_fc:
  assumes "last_write (trace (hw_of s)) E1000_PBA = Some p"
  shows "wp (reset_fc c p) (\<lambda>rx t. last_write (trace (hw_of t)) E1000_PBA = Some rx \<and> irq t = irq s \<and>
    dev (hw_of t) = dev (hw_of s) \<and> (computed_marks c (mac_type (mac (hw_of s))) \<longrightarrow> rx = p \<and> high_water (fc (hw_of t)) = high_water_mark p (fifo_max_frame c) \<and>
      low_water (fc (hw_of t)) = high_water (fc (hw_of t)) - 8) \<and>
    (jumbo_pch c (mac_type (mac (hw_of s))) \<longrightarrow> rx = 14 \<and> high_water (fc (hw_of t)) = 12896 \<and> low_water (fc (hw_of t)) = 11464) \<and>
    send_xon (fc (hw_of t)) \<and> current_mode (fc (hw_of t)) = requested_mode (fc (hw_of s))) s"
  using assms
  by (cases "fifo_mtu c \<le> 1500"; cases "mac_type (mac (hw_of s))")
    (auto simp: not_le reset_fc_def fc_default_def Let_def wp net_wp if_wp last_write_wr computed_marks_def jumbo_pch_def)

text \<open>The frame that has to fit, and the shares that the division may give.\<close>

lemma fifo_split_cases:
  defines "need \<equiv> \<lambda>x :: u32. drop_bit 10 (align x 1024)"
  shows "fifo_split frame pba \<in> {pba AND 0xffff, need frame,
    (pba AND 0xffff) - (need ((frame + 16 - 4) * 2) - drop_bit 16 pba)}"
    and "fifo_split frame pba \<noteq> pba AND 0xffff \<Longrightarrow> need frame \<le> fifo_split frame pba"
  unfolding fifo_split_def need_def Let_def by (auto simp: not_less split: if_splits)

lemma wp_reset_aim:
  assumes "itr_ok (irq s)" and "\<not> msix_entries (irq s)"
  shows "wp (reset_aim c pba) (\<lambda>r t. r = Inr () \<and> itr_ok (irq t) \<and> fc (hw_of t) = fc (hw_of s) \<and>
    ad (net_of (nic_of t)) = ad (net_of (nic_of s)) \<and>
    last_write (trace (hw_of t)) E1000_PBA = last_write (trace (hw_of s)) E1000_PBA \<and>
    (itr_setting (irq s) AND 3 \<noteq> 0 \<longrightarrow> aim_disabled (irq t) = (fifo_max_frame c * 2 > push_bit 10 pba))) s"
  using assms itr_interval_ok [of 0] itr_interval_ok [of 20000]
  unfolding reset_aim_def e1000e_write_itr_def wp net_wp if_wp Let_def
  by (auto simp: wp net_wp if_wp itr_ok_def last_write_wr)

text \<open>
  C39: The division of the packet buffer, for every device, part and frame size. The chunk size of
  the transmit path is 96 bytes less than the share of the transmits and at most 24 KB; so it is
  at least 1952 where the share is 2 KB or more. Rates stay well formed and adapt exactly where two
  full frames fit the receive part. Where the marks of flow control are computed and a frame and 8
  bytes fit the receive part, the high mark leaves room for a full frame and a tenth of the buffer
  above it, and the low mark is 8 bytes below the high one. The parts with fixed marks get these;
  frames of the usual size have room above them in 25 KB, but on the 82579 and later parts with large
  frames only those of at most 1440 bytes have.
\<close>

theorem buffer_divided:
  assumes "itr_ok (irq s)" and "\<not> msix_entries (irq s)" and "run_state (reset_fifo c) s = (r, t)"
  shows "r = Inr () \<and> itr_ok (irq t) \<and>
    0 < tx_fifo_limit (ad (net_of (nic_of t))) \<and> tx_fifo_limit (ad (net_of (nic_of t))) \<le> 24576 \<and>
    (\<exists>rx tr. last_write (trace (hw_of t)) E1000_PBA = Some rx \<and> last_write tr E1000_PBA = Some rx \<and>
      (let kb = unat (drop_bit 16 (dev_readl (dev (hw_of s)) tr E1000_PBA)) in
        tx_fifo_limit (ad (net_of (nic_of t))) = (if kb = 0 \<or> 24 < kb then 24576 else 1024 * kb - 96)) \<and>
      (itr_setting (irq s) AND 3 \<noteq> 0 \<longrightarrow> aim_disabled (irq t) = (fifo_max_frame c * 2 > push_bit 10 rx)) \<and>
      (computed_marks c (mac_type (mac (hw_of s))) \<and> unat rx < 64 \<and> unat (fifo_max_frame c) + 8 \<le> 1024 * unat rx \<longrightarrow>
        unat (high_water (fc (hw_of t))) + unat (fifo_max_frame c) \<le> 1024 * unat rx \<and>
        10 * unat (high_water (fc (hw_of t))) \<le> 9 * (1024 * unat rx) \<and>
        unat (low_water (fc (hw_of t))) + 8 = unat (high_water (fc (hw_of t)))) \<and>
      (\<not> computed_marks c (mac_type (mac (hw_of s))) \<longrightarrow>
        fixed_marks c (mac_type (mac (hw_of s))) = Some (unat (high_water (fc (hw_of t))), unat (low_water (fc (hw_of t)))) \<and>
        (fifo_mtu c \<le> 1500 \<and> unat (fifo_max_frame c) \<le> 2016 \<and> 25 \<le> unat rx \<longrightarrow>
          unat (high_water (fc (hw_of t))) + unat (fifo_max_frame c) \<le> 1024 * unat rx) \<and>
        (jumbo_pch c (mac_type (mac (hw_of s))) \<longrightarrow>
          (unat (high_water (fc (hw_of t))) + unat (fifo_max_frame c) \<le> 1024 * unat rx \<longleftrightarrow> unat (fifo_max_frame c) \<le> 1440))))"
proof -
  let ?ty = "mac_type (mac (hw_of s))"
  have low: "unat (h - 8) + 8 = unat h" if "8 \<le> unat h" for h :: u32
    using that by (simp add: unat_sub word_le_nat_alt)
  have "wp (reset_fifo c) (\<lambda>r t. r = Inr () \<and> itr_ok (irq t) \<and>
      (\<exists>rx tr. last_write (trace (hw_of t)) E1000_PBA = Some rx \<and> last_write tr E1000_PBA = Some rx \<and>
        tx_fifo_limit (ad (net_of (nic_of t))) = unat (fifo_limit (dev_readl (dev (hw_of s)) tr E1000_PBA)) \<and>
        (itr_setting (irq s) AND 3 \<noteq> 0 \<longrightarrow> aim_disabled (irq t) = (fifo_max_frame c * 2 > push_bit 10 rx)) \<and>
        (computed_marks c ?ty \<longrightarrow> high_water (fc (hw_of t)) = high_water_mark rx (fifo_max_frame c) \<and>
          low_water (fc (hw_of t)) = high_water (fc (hw_of t)) - 8) \<and>
        (jumbo_pch c ?ty \<longrightarrow> rx = 14) \<and>
        (\<forall>hi lo. fixed_marks c ?ty = Some (hi, lo) \<longrightarrow>
          unat (high_water (fc (hw_of t))) = hi \<and> unat (low_water (fc (hw_of t))) = lo))) s"
    unfolding reset_fifo_def wp
  proof (rule wp_mono [OF wp_reset_pba], elim conjE, goal_cases)
    case (1 p s1)
    have fixed: "wp (reset_fc c p) (\<lambda>rx t. \<forall>hi lo. fixed_marks c ?ty = Some (hi, lo) \<longrightarrow>
        unat (high_water (fc (hw_of t))) = hi \<and> unat (low_water (fc (hw_of t))) = lo) s1"
      using wp_fixed_marks [of c s1 _ _ p] \<open>mac (hw_of s1) = mac (hw_of s)\<close> by (auto simp: wp_def)
    show ?case
    proof (rule wp_mono [OF wp_both [OF wp_reset_fc [OF 1(1)] fixed]], elim conjE, goal_cases)
      case (1 rx s2)
      show ?case
        unfolding wp net_wp if_wp
        by (rule wp_mono [OF wp_reset_aim])
          (use 1 \<open>irq s1 = irq s\<close> \<open>mac (hw_of s1) = mac (hw_of s)\<close> \<open>dev (hw_of s1) = dev (hw_of s)\<close> assms(1,2)
            in \<open>auto simp: last_write_rd rdv_def intro!: exI [of _ "trace (hw_of s2)"]\<close>)
    qed
  qed
  from run_wp [OF this assms(3)] obtain rx tr where t: "r = Inr ()" "itr_ok (irq t)"
      "tx_fifo_limit (ad (net_of (nic_of t))) = unat (fifo_limit (dev_readl (dev (hw_of s)) tr E1000_PBA))"
      "last_write (trace (hw_of t)) E1000_PBA = Some rx" "last_write tr E1000_PBA = Some rx"
      "itr_setting (irq s) AND 3 \<noteq> 0 \<longrightarrow> aim_disabled (irq t) = (fifo_max_frame c * 2 > push_bit 10 rx)"
      "computed_marks c ?ty \<longrightarrow> high_water (fc (hw_of t)) = high_water_mark rx (fifo_max_frame c) \<and>
          low_water (fc (hw_of t)) = high_water (fc (hw_of t)) - 8"
      "jumbo_pch c ?ty \<longrightarrow> rx = 14"
    and fixed: "fixed_marks c ?ty = Some (hi, lo) \<Longrightarrow>
        unat (high_water (fc (hw_of t))) = hi \<and> unat (low_water (fc (hw_of t))) = lo" for hi lo
    by blast
  have computed: "unat (high_water (fc (hw_of t))) + unat (fifo_max_frame c) \<le> 1024 * unat rx \<and>
      10 * unat (high_water (fc (hw_of t))) \<le> 9 * (1024 * unat rx) \<and>
      unat (low_water (fc (hw_of t))) + 8 = unat (high_water (fc (hw_of t)))"
    if a: "computed_marks c ?ty" and fit: "unat rx < 64" "unat (fifo_max_frame c) + 8 \<le> 1024 * unat rx"
    using t(7) a high_water_fits(1-3) [OF fit] low by simp
  have marks: "fixed_marks c ?ty = Some (unat (high_water (fc (hw_of t))), unat (low_water (fc (hw_of t))))"
    if "\<not> computed_marks c ?ty"
    using that fixed unfolding marks_fixed_or_computed by (cases "fixed_marks c ?ty") auto
  have jumbo: "unat (high_water (fc (hw_of t))) + unat (fifo_max_frame c) \<le> 1024 * unat rx \<longleftrightarrow> unat (fifo_max_frame c) \<le> 1440"
    if "jumbo_pch c ?ty"
  proof -
    have "unat (high_water (fc (hw_of t))) = 12896" using that fixed [of 12896 11464] by (auto simp: jumbo_pch_def fixed_marks_def)
    moreover have "unat rx = 14" using t(8) that by simp
    ultimately show ?thesis by linarith
  qed
  have room: "unat (high_water (fc (hw_of t))) + unat (fifo_max_frame c) \<le> 1024 * unat rx"
    if "\<not> computed_marks c ?ty" "fifo_mtu c \<le> 1500" "unat (fifo_max_frame c) \<le> 2016" "25 \<le> unat rx"
    using fixed_room [OF marks [OF that(1)] that(2)] that(3,4) by linarith
  show ?thesis
    unfolding t(3) Let_def
    by (intro conjI impI exI [of _ rx] exI [of _ tr])
      (use t(1,2,4,5,6) unat_fifo_limit fifo_limit_share [unfolded Let_def] computed marks room jumbo in blast)+
qed

definition sample_fifo :: fifo_config where
  "sample_fifo = \<lparr>fifo_pba = 20, fifo_max_frame = 1522, fifo_mtu = 1500, disable_fc_pause_time = False\<rparr>"

definition sample_82574 :: iface where
  "sample_82574 = sample_if (sample_nic\<lparr>net_of := sample_net\<lparr>adapter_hw :=
     (sample_hw (const_device 0))\<lparr>mac := sample_mac\<lparr>mac_type := e1000_82574\<rparr>\<rparr>\<rparr>\<rparr>)"

theorem buffer_divided_witness:
  "\<exists>t. run_state (reset_fifo sample_fifo) sample_82574 = (Inr (), t) \<and>
    unat (high_water (fc (hw_of t))) + 1522 \<le> 20480 \<and> 0 < tx_fifo_limit (ad (net_of (nic_of t)))"
proof -
  obtain r t where run: "run_state (reset_fifo sample_fifo) sample_82574 = (r, t)" by (meson surj_pair)
  have st: "itr_ok (irq sample_82574)" "\<not> msix_entries (irq sample_82574)" "mac_type (mac (hw_of sample_82574)) = e1000_82574"
    using sample_irq_ok by (simp_all add: sample_82574_def sample_if_def)
  have cfg: "fifo_max_frame sample_fifo = 1522" "computed_marks sample_fifo e1000_82574"
    by (simp_all add: sample_fifo_def computed_marks_def)
  have "wp (reset_pba sample_fifo) (\<lambda>p t. p = 20 \<and> last_write (trace (hw_of t)) E1000_PBA = Some 20 \<and>
      irq t = irq sample_82574 \<and> mac (hw_of t) = mac (hw_of sample_82574)) sample_82574"
    by (simp add: reset_pba_def sample_fifo_def wp net_wp if_wp last_write_wr)
  then have "wp (reset_fifo sample_fifo) (\<lambda>r t. last_write (trace (hw_of t)) E1000_PBA = Some 20) sample_82574"
    unfolding reset_fifo_def wp
  proof (rule wp_mono, elim conjE, goal_cases)
    case (1 p s1)
    show ?case
    proof (rule wp_mono [OF wp_reset_fc], goal_cases)
      case (2 rx s2)
      then show ?case
        unfolding wp net_wp if_wp
        by (intro wp_mono [OF wp_reset_aim]) (use 1 st cfg in \<open>auto simp: last_write_rd\<close>)
    qed (use 1 in simp)
  qed
  then have "last_write (trace (hw_of t)) E1000_PBA = Some 20" using run_wp run by fastforce
  then show ?thesis
    using buffer_divided [OF st(1,2) run] cfg st(3) run by auto
qed

text \<open>With large frames the later parts have fixed marks, above which less than 1441 bytes are left.\<close>

lemma jumbo_frame_exceeds:
  assumes "last_write (trace (hw_of s)) E1000_PBA = Some p" and "jumbo_pch c (mac_type (mac (hw_of s)))"
    and "1440 < unat (fifo_max_frame c)"
  shows "wp (reset_fc c p) (\<lambda>rx t. rx = 14 \<and> 1024 * 14 < unat (high_water (fc (hw_of t))) + unat (fifo_max_frame c)) s"
  by (rule wp_mono [OF wp_reset_fc [OF assms(1)]]) (use assms(2,3) in auto)

section \<open>The new filter\<close>

lemma wp_enable_none:
  assumes "\<forall>x. storage_reg (dev h) (E1000_MDEF x)"
    and "\<forall>x < i + n. rdv (E1000_MDEF x) h = 0 \<or> rdv (E1000_MDEF x) h AND NOT ipmi_ports \<noteq> 0"
  shows "wp (enable_ipmi_filters i n m j) (\<lambda>r t. r = (m, j) \<and> dev t = dev h \<and>
    (\<forall>x. rdv (E1000_MDEF x) t = rdv (E1000_MDEF x) h)) h"
  using assms
proof (induction n arbitrary: i h)
  case 0
  then show ?case by (simp add: wp)
next
  case (Suc n)
  let ?h = "rd (E1000_MDEF i) h"
  have "\<forall>x. rdv (E1000_MDEF x) ?h = rdv (E1000_MDEF x) h" using Suc.prems(1) by (simp add: storage_reg_simps)
  with Suc.prems have "wp (enable_ipmi_filters (Suc i) n m j) (\<lambda>r t. r = (m, j) \<and> dev t = dev h \<and>
      (\<forall>x. rdv (E1000_MDEF x) t = rdv (E1000_MDEF x) h)) ?h"
    using Suc.IH [of ?h "Suc i"] by simp
  moreover have "rdv (E1000_MDEF i) h = 0 \<or> rdv (E1000_MDEF i) h AND NOT ipmi_ports \<noteq> 0" using Suc.prems(2) by simp
  ultimately show ?case by (auto simp: wp)
qed

lemma wp_create_first:
  assumes "\<forall>x. storage_reg (dev h) (E1000_MDEF x)" and "i \<le> k" "k < i + n"
    and "\<forall>x < k. rdv (E1000_MDEF x) h \<noteq> 0" and "rdv (E1000_MDEF k) h = 0"
  shows "wp (create_ipmi_filter i n m) (\<lambda>r t. r = m OR 2 \<and> last_write (trace t) (E1000_MDEF k) = Some ipmi_ports) h"
  using assms
proof (induction n arbitrary: i h)
  case (Suc n)
  show ?case
  proof (cases "i = k")
    case True
    then show ?thesis using Suc.prems(5) by (simp add: wp last_write_wr)
  next
    case False
    let ?h = "rd (E1000_MDEF i) h"
    have "\<forall>x. rdv (E1000_MDEF x) ?h = rdv (E1000_MDEF x) h" using Suc.prems(1) by (simp add: storage_reg_simps)
    moreover have "rdv (E1000_MDEF i) h \<noteq> 0" using False Suc.prems(2,4) by simp
    ultimately show ?thesis using Suc.IH [of ?h "Suc i"] Suc.prems False by (simp add: wp)
  qed
qed simp

text \<open>
  The filter for the two ports of pass-through management is put into the first empty place \<open>k\<close>, but
  it is always the second filter whose packets are given to the host.
\<close>

lemma new_filter_unheard:
  assumes st: "\<forall>x. storage_reg (dev h) (E1000_MDEF x)" and ty: "mac_type (mac h) \<in> {e1000_82574, e1000_82583}"
    and other: "\<forall>x < 8. rdv (E1000_MDEF x) h = 0 \<or> rdv (E1000_MDEF x) h AND NOT ipmi_ports \<noteq> 0"
    and k: "k < 8" "\<forall>x < k. rdv (E1000_MDEF x) h \<noteq> 0" "rdv (E1000_MDEF k) h = 0"
  shows "wp (e1000_init_manageability_pt True) (\<lambda>_ t. last_write (trace t) (E1000_MDEF k) = Some ipmi_ports \<and>
    last_write (trace t) E1000_MANC2H = Some (rdv E1000_MANC2H (rd E1000_MANC h) OR 2)) h"
proof -
  let ?h = "rd E1000_MANC2H (rd E1000_MANC h)"
  have reads: "\<forall>x. rdv (E1000_MDEF x) ?h = rdv (E1000_MDEF x) h" using st by (simp add: storage_reg_simps)
  have "k = 0 \<or> k = 1 \<or> k = 2 \<or> k = 3 \<or> k = 4 \<or> k = 5 \<or> k = 6 \<or> k = 7" using k(1) by auto
  then have regs: "E1000_MDEF k \<noteq> E1000_MANC2H" "E1000_MDEF k \<noteq> E1000_MANC" by (auto simp: E1000_MDEF_def)
  have e: "wp (enable_ipmi_filters 0 8 m 0) (\<lambda>r t. r = (m, 0) \<and> dev t = dev ?h \<and>
      (\<forall>x. rdv (E1000_MDEF x) t = rdv (E1000_MDEF x) ?h)) ?h" for m
    by (rule wp_enable_none) (use st other reads in auto)
  have new: "wp (ipmi_filters m) (\<lambda>r t. r = m OR 2 \<and> last_write (trace t) (E1000_MDEF k) = Some ipmi_ports) ?h" for m
    unfolding ipmi_filters_def wp_bind wp_case_prod wp_if
  proof (rule wp_mono [OF e], goal_cases)
    case (1 r t)
    then have "\<forall>x. storage_reg (dev t) (E1000_MDEF x)" "\<forall>x. rdv (E1000_MDEF x) t = rdv (E1000_MDEF x) h"
      using st reads by simp_all
    then have "wp (create_ipmi_filter 0 8 m) (\<lambda>r t. r = m OR 2 \<and> last_write (trace t) (E1000_MDEF k) = Some ipmi_ports) t"
      using k by (intro wp_create_first) simp_all
    then show ?case using 1 by simp
  qed
  show ?thesis
    using ty by (auto simp: e1000_init_manageability_pt_def wp wp_mono [OF new] last_write_wr regs regs [symmetric])
qed

end
