(* ===== verification/Eeprom_Bytes.thy ===== *)
theory Eeprom_Bytes
  imports Ich8_Words
begin

text \<open>
  The NVM as bytes, \<open>ethtool.c\<close>: reading and writing any range of bytes over the word operations of
  a part. The first and the last word of a range that starts or ends inside a word are read, changed
  and written back.
\<close>

unbundle bit_operations_syntax

section \<open>Reading and writing bytes\<close>

record ethtool_eeprom =
  ee_offset :: u32
  ee_len :: u32
  ee_magic :: u32

text \<open>A buffer of words, little endian, as bytes.\<close>

definition bytes_of_words :: "u16 list \<Rightarrow> u8 list" where
  "bytes_of_words ws = concat (map (\<lambda>w. [ucast w, ucast (drop_bit 8 w)]) ws)"

fun words_of_bytes :: "u8 list \<Rightarrow> u16 list" where
  "words_of_bytes (lo # hi # bs) = (ucast lo OR push_bit 8 (ucast hi)) # words_of_bytes bs"
| "words_of_bytes [] = []"
| "words_of_bytes [b] = []"

definition first_word :: "ethtool_eeprom \<Rightarrow> u32" where
  "first_word e = drop_bit 1 (ee_offset e)"

definition last_word :: "ethtool_eeprom \<Rightarrow> u32" where
  "last_word e = drop_bit 1 (ee_offset e + ee_len e - 1)"

definition word_count :: "ethtool_eeprom \<Rightarrow> u32" where
  "word_count e = last_word e - first_word e + 1"

fun get_words :: "'x nvm_access_ops_scheme \<Rightarrow> u32 \<Rightarrow> nat \<Rightarrow> nat \<Rightarrow> u16 list \<Rightarrow> (s32 \<times> u16 list) io" where
  "get_words ops first i 0 buff = return (0, buff)"
| "get_words ops first i (Suc n) buff = do {
     (ret_val, v) \<leftarrow> read_nvm_word ops (ucast (first + of_nat i));
     if ret_val \<noteq> 0 then return (ret_val, buff)
     else get_words ops first (Suc i) n (buff[i := v]) }"

text \<open>
  What \<open>kmalloc\<close> gives is a parameter: nothing, or a buffer of words with any content. \<open>ident\<close> is
  the vendor and the device number. The value has the request with its \<open>magic\<close> and the bytes.
\<close>

definition e1000_get_eeprom ::
  "'x nvm_access_ops_scheme \<Rightarrow> u16 list option \<Rightarrow> u32 \<Rightarrow> ethtool_eeprom \<Rightarrow> u8 list \<Rightarrow>
   (s32 \<times> ethtool_eeprom \<times> u8 list) io" where
  "e1000_get_eeprom ops mem ident e bytes =
     (if ee_len e = 0 then return (- EINVAL, e, bytes)
      else
        (let e = e\<lparr>ee_magic := ident\<rparr>; n = word_count e in
         case mem of
           None \<Rightarrow> return (- ENOMEM, e, bytes)
         | Some buff \<Rightarrow> do {
             h \<leftarrow> get;
             (ret_val, buff) \<leftarrow> (if nvm_type (nvm h) = e1000_nvm_eeprom_spi
               then e1000_read_nvm ops (ucast (first_word e)) (ucast n) buff
               else get_words ops (first_word e) 0 (unat n) buff);
             let buff = (if ret_val \<noteq> 0 then replicate (unat n) 0xFFFF else buff);
             return (ret_val, e, take (unat (ee_len e)) (drop (unat (ee_offset e AND 1)) (bytes_of_words buff))) }))"

text \<open>The words that are only partly overwritten.\<close>

definition read_edges ::
  "'x nvm_access_ops_scheme \<Rightarrow> ethtool_eeprom \<Rightarrow> u16 list \<Rightarrow> (s32 \<times> u16 list) io" where
  "read_edges ops e buff = do {
     (ret_val, buff) \<leftarrow> (if ee_offset e AND 1 \<noteq> 0 then do {
         (ret_val, v) \<leftarrow> read_nvm_word ops (ucast (first_word e));
         return (ret_val, buff[0 := v]) }
       else return (0, buff));
     if (ee_offset e + ee_len e) AND 1 \<noteq> 0 \<and> ret_val = 0 then do {
       (ret_val, v) \<leftarrow> read_nvm_word ops (ucast (last_word e));
       return (ret_val, buff[unat (last_word e - first_word e) := v]) }
     else return (ret_val, buff) }"

definition splice_bytes :: "nat \<Rightarrow> u8 list \<Rightarrow> u8 list \<Rightarrow> u8 list" where
  "splice_bytes o' bs b = take o' b @ bs @ drop (o' + length bs) b"

definition e1000_set_eeprom ::
  "'x nvm_update_ops_scheme \<Rightarrow> u16 list option \<Rightarrow> u32 \<Rightarrow> ethtool_eeprom \<Rightarrow> u8 list \<Rightarrow> s32 io" where
  "e1000_set_eeprom ops mem ident e bytes =
     (if ee_len e = 0 then return (- EOPNOTSUPP)
      else if ee_magic e \<noteq> ident then return (- EFAULT)
      else case mem of
        None \<Rightarrow> return (- ENOMEM)
      | Some buff \<Rightarrow> do {
          (ret_val, buff) \<leftarrow> read_edges ops e buff;
          if ret_val \<noteq> 0 then return ret_val
          else do {
            let buff = words_of_bytes (splice_bytes (unat (ee_offset e AND 1)) bytes (bytes_of_words buff));
            ret_val \<leftarrow> e1000_write_nvm ops (ucast (first_word e)) (ucast (word_count e)) (take (unat (word_count e)) buff);
            if ret_val \<noteq> 0 then return ret_val
            else do {
              h \<leftarrow> get;
              if first_word e \<le> ucast NVM_CHECKSUM_REG \<or> mac_type (mac h) \<in> {e1000_82583, e1000_82574, e1000_82573}
              then nvm_update ops else return 0 } } })"

section \<open>Bytes and words\<close>

lemma length_bytes_of_words [simp]: "length (bytes_of_words ws) = 2 * length ws"
  by (induction ws) (simp_all add: bytes_of_words_def)

text \<open>Byte \<open>c\<close> of a word.\<close>

definition word_byte :: "u16 \<Rightarrow> nat \<Rightarrow> u8" where
  "word_byte w c = (if c = 0 then ucast w else ucast (drop_bit 8 w))"

lemma bytes_of_words_nth:
  "k < length ws \<Longrightarrow> c < 2 \<Longrightarrow> bytes_of_words ws ! (2 * k + c) = word_byte (ws ! k) c"
proof (induction ws arbitrary: k)
  case (Cons w ws)
  have c: "c = 0 \<or> c = 1" using Cons.prems(2) by auto
  show ?case
  proof (cases k)
    case 0
    then show ?thesis using c by (auto simp: bytes_of_words_def word_byte_def)
  next
    case (Suc m)
    then have "bytes_of_words (w # ws) ! (2 * k + c) = bytes_of_words ws ! (2 * m + c)"
      by (simp add: bytes_of_words_def)
    then show ?thesis using Cons Suc by simp
  qed
qed simp

lemma words_of_bytes_nth:
  assumes "length bs = 2 * n"
  shows "length (words_of_bytes bs) = n \<and>
    (\<forall>k < n. \<forall>c < 2. word_byte (words_of_bytes bs ! k) c = bs ! (2 * k + c))"
  using assms
proof (induction bs arbitrary: n rule: words_of_bytes.induct)
  case (1 lo hi bs)
  then obtain m where n: "n = Suc m" "length bs = 2 * m" by (cases n) auto
  have w: "word_byte (ucast lo OR push_bit 8 (ucast hi)) c = [lo, hi] ! c" if "c < 2" for c
  proof -
    have high: "\<not> bit lo (8 + n)" for n using bit_imp_le_length [of lo "8 + n"] by auto
    have "ucast (ucast lo OR push_bit 8 (ucast hi) :: u16) = lo" "ucast (drop_bit 8 (ucast lo OR push_bit 8 (ucast hi) :: u16)) = hi"
      by (auto intro!: bit_word_eqI simp: bit_simps high)
    then show ?thesis using that by (auto simp: word_byte_def less_Suc_eq numeral_2_eq_2)
  qed
  have "word_byte (words_of_bytes (lo # hi # bs) ! k) c = (lo # hi # bs) ! (2 * k + c)" if "k < n" "c < 2" for k c
  proof (cases k)
    case 0
    then show ?thesis using w [OF that(2)] that(2) by (auto simp: less_Suc_eq numeral_2_eq_2)
  next
    case (Suc j)
    then show ?thesis using 1(1) [OF n(2)] that n(1) by simp
  qed
  then show ?case using 1(1) [OF n(2)] n(1) by simp
qed simp_all

lemma splice_bytes_nth:
  assumes "o' + length bs \<le> length b"
  shows "j < length b \<Longrightarrow> splice_bytes o' bs b ! j = (if o' \<le> j \<and> j < o' + length bs then bs ! (j - o') else b ! j)"
    and "length (splice_bytes o' bs b) = length b"
  using assms by (auto simp: splice_bytes_def nth_append min_def)

section \<open>A range of bytes in a word memory\<close>

definition byte_at :: "(u16 \<Rightarrow> u16) \<Rightarrow> nat \<Rightarrow> u8" where
  "byte_at f j = word_byte (f (of_nat (j div 2))) (j mod 2)"

definition overwrite :: "nat \<Rightarrow> u16 list \<Rightarrow> (u16 \<Rightarrow> u16) \<Rightarrow> u16 \<Rightarrow> u16" where
  "overwrite a vs f x = (if a \<le> unat x \<and> unat x < a + length vs then vs ! (unat x - a) else f x)"

definition put_bytes :: "nat \<Rightarrow> u8 list \<Rightarrow> (nat \<Rightarrow> u8) \<Rightarrow> nat \<Rightarrow> u8" where
  "put_bytes off bs g j = (if off \<le> j \<and> j < off + length bs then bs ! (j - off) else g j)"

text \<open>Whether the words at the ends that the range does not fill have been read.\<close>

definition edges_read :: "nat \<Rightarrow> nat \<Rightarrow> (u16 \<Rightarrow> u16) \<Rightarrow> u16 list \<Rightarrow> bool" where
  "edges_read off len f buff \<longleftrightarrow>
     (odd off \<longrightarrow> buff ! 0 = f (of_nat (off div 2))) \<and>
     (odd (off + len) \<longrightarrow> buff ! ((off + len - 1) div 2 - off div 2) = f (of_nat ((off + len - 1) div 2)))"

lemma spliced_words:
  assumes "0 < length bs" and "off + length bs \<le> 2 * 65536"
  defines "n \<equiv> (off + length bs - 1) div 2 - off div 2 + 1"
  assumes "n \<le> length buff" and "edges_read off (length bs) f buff"
  defines "vs \<equiv> take n (words_of_bytes (splice_bytes (off mod 2) bs (bytes_of_words buff)))"
  shows "length vs = n"
    and "j < 2 * 65536 \<Longrightarrow> byte_at (overwrite (off div 2) vs f) j = put_bytes off bs (byte_at f) j"
proof -
  let ?L = "length bs" and ?a = "off div 2" and ?p = "off mod 2" and ?b = "bytes_of_words buff"
  have off: "off = 2 * ?a + ?p" "?p < 2" by simp_all
  have "off + ?L - 1 = 2 * ?a + (?p + ?L - 1)" using assms(1) off(1) by linarith
  then have last: "(off + ?L - 1) div 2 = ?a + (?p + ?L - 1) div 2" by simp
  then have n: "n = (?p + ?L - 1) div 2 + 1" by (simp add: n_def)
  have m: "M \<le> 2 * ((M - 1) div 2 + 1)" "2 * ((M - 1) div 2 + 1) \<le> M + 1"
    "2 * ((M - 1) div 2 + 1) = M + 1 \<longleftrightarrow> odd M" if "0 < M" for M :: nat
    using that by presburger+
  have "odd (?p + ?L) \<longleftrightarrow> odd (off + ?L)" by presburger
  then have n2: "?p + ?L \<le> 2 * n" "2 * n \<le> ?p + ?L + 1" "2 * n = ?p + ?L + 1 \<longleftrightarrow> odd (off + ?L)"
    using m [of "?p + ?L"] assms(1) unfolding n by simp_all
  have fits: "?p + ?L \<le> length ?b" using n2(1) assms(4) by simp
  note sp = splice_bytes_nth [OF fits]
  note w = words_of_bytes_nth [of "splice_bytes ?p bs ?b" "length buff"]
  have lw: "length (words_of_bytes (splice_bytes ?p bs ?b)) = length buff" using w sp(2) by simp
  then show len: "length vs = n" using assms(4) by (simp add: vs_def)
  show "byte_at (overwrite ?a vs f) j = put_bytes off bs (byte_at f) j" if j: "j < 2 * 65536"
  proof -
    define k where "k = j div 2 - ?a"
    have x: "unat (of_nat (j div 2) :: u16) = j div 2" using j by (simp add: unat_of_nat take_bit_nat_eq_self)
    show ?thesis
    proof (cases "?a \<le> j div 2 \<and> j div 2 < ?a + n")
      case False
      moreover have "off \<le> j \<and> j < off + ?L \<Longrightarrow> ?a \<le> j div 2 \<and> j div 2 < ?a + n"
        using n2(1) off(1) by linarith
      ultimately have "\<not> (off \<le> j \<and> j < off + ?L)" by blast
      moreover have "overwrite ?a vs f (of_nat (j div 2)) = f (of_nat (j div 2))" using False by (auto simp: overwrite_def x len)
      ultimately show ?thesis by (auto simp: byte_at_def put_bytes_def)
    next
      case True
      have k: "k < n" "j div 2 = ?a + k" using True by (auto simp: k_def)
      have "j = 2 * (j div 2) + j mod 2" "j mod 2 < 2" by simp_all
      then have jk: "2 * k + j mod 2 < 2 * n" "j = 2 * ?a + (2 * k + j mod 2)" "off = 2 * ?a + ?p"
        using k off(1) by linarith+
      have "overwrite ?a vs f (of_nat (j div 2)) = vs ! k" using True by (auto simp: overwrite_def x len k_def)
      then have "byte_at (overwrite ?a vs f) j = word_byte (words_of_bytes (splice_bytes ?p bs ?b) ! k) (j mod 2)"
        using k(1) by (simp add: byte_at_def vs_def)
      also have "\<dots> = splice_bytes ?p bs ?b ! (2 * k + j mod 2)"
        using w sp(2) k(1) assms(4) jk(1) by simp
      also have "\<dots> = put_bytes off bs (byte_at f) j"
      proof (cases "?p \<le> 2 * k + j mod 2 \<and> 2 * k + j mod 2 < ?p + ?L")
        case True
        then have "off \<le> j" "j < off + ?L" "2 * k + j mod 2 - ?p = j - off" using jk(2,3) by linarith+
        then show ?thesis using True sp(1) jk(1) assms(4) by (simp add: put_bytes_def)
      next
        case False
        then have "\<not> (off \<le> j \<and> j < off + ?L)" using jk(2,3) by linarith
        moreover have "?b ! (2 * k + j mod 2) = byte_at f j"
        proof -
          have b: "?b ! (2 * k + j mod 2) = word_byte (buff ! k) (j mod 2)"
            using k(1) assms(4) by (simp add: bytes_of_words_nth)
          consider "2 * k + j mod 2 < ?p" | "?p + ?L \<le> 2 * k + j mod 2" using False by linarith
          then have "buff ! k = f (of_nat (j div 2))"
          proof cases
            case 1
            then have "k = 0" "odd off" using off(2) by (simp, presburger)
            then show ?thesis using assms(5) k(2) by (simp add: edges_read_def)
          next
            case 2
            then have "2 * n = ?p + ?L + 1" "k = n - 1" using n2(2) jk(1) by linarith+
            then have "odd (off + ?L)" "k = n - 1" using n2(3) by simp_all
            moreover have "?a + (n - 1) = (off + ?L - 1) div 2" "n - 1 = (off + ?L - 1) div 2 - ?a"
              unfolding last n by simp_all
            ultimately show ?thesis using assms(5) k(2) by (simp add: edges_read_def)
          qed
          then show ?thesis by (simp add: b byte_at_def)
        qed
        ultimately show ?thesis using False sp(1) jk(1) assms(4) by (auto simp: put_bytes_def)
      qed
      finally show ?thesis .
    qed
  qed
qed


section \<open>The request\<close>

text \<open>A range the core of \<open>ethtool\<close> lets through: within the bytes of at most 65535 words.\<close>

definition request_within :: "ethtool_eeprom \<Rightarrow> nat \<Rightarrow> bool" where
  "request_within e words \<longleftrightarrow> 0 < unat (ee_len e) \<and> unat (ee_offset e) + unat (ee_len e) \<le> 2 * words \<and> words \<le> 65535"

definition range_words :: "ethtool_eeprom \<Rightarrow> nat" where
  "range_words e = (unat (ee_offset e) + unat (ee_len e) - 1) div 2 - unat (ee_offset e) div 2 + 1"

lemma and_one_unat: "unat (x AND 1) = unat x mod 2" "x AND 1 \<noteq> 0 \<longleftrightarrow> odd (unat x)" for x :: u32
proof -
  show a: "unat (x AND 1) = unat x mod 2" by (simp add: unat_mod and_one_eq)
  have "x AND 1 \<noteq> 0 \<longleftrightarrow> unat (x AND 1) \<noteq> 0" by (simp add: unat_eq_0)
  then show "x AND 1 \<noteq> 0 \<longleftrightarrow> odd (unat x)" unfolding a by presburger
qed

lemma unat_half: "unat (drop_bit 1 x) = unat x div 2" for x :: u32
  by (simp add: drop_bit_eq_div unat_div)

lemma ucast_of_unat: "unat x = n \<Longrightarrow> (ucast x :: u16) = of_nat n" for x :: u32
  by (auto simp: of_nat_unat)

lemma request_words:
  assumes "request_within e words"
  shows "unat (ee_offset e + ee_len e) = unat (ee_offset e) + unat (ee_len e)"
    and "unat (first_word e) = unat (ee_offset e) div 2"
    and "unat (last_word e) = (unat (ee_offset e) + unat (ee_len e) - 1) div 2"
    and "unat (word_count e) = range_words e"
    and "unat (last_word e - first_word e) = range_words e - 1"
    and "unat (ee_offset e) div 2 + range_words e \<le> words" and "0 < range_words e"
    and "(unat (ee_offset e) + unat (ee_len e) - 1) div 2 = unat (ee_offset e) div 2 + (range_words e - 1)"
proof -
  let ?O = "unat (ee_offset e)" and ?L = "unat (ee_len e)"
  have r: "0 < ?L" "?O + ?L \<le> 2 * words" "words \<le> 65535" using assms by (simp_all add: request_within_def)
  have sum: "unat (ee_offset e + ee_len e) = ?O + ?L"
    using r by (subst unat_plus_if_size) (simp add: word_size)
  then have "ee_offset e + ee_len e \<noteq> 0" using r(1) by (metis add_is_0 less_numeral_extra(3) unat_0)
  then have end1: "unat (ee_offset e + ee_len e - 1) = ?O + ?L - 1" by (simp add: unat_minus_one sum)
  show "unat (ee_offset e + ee_len e) = ?O + ?L" by (rule sum)
  show f: "unat (first_word e) = ?O div 2" unfolding first_word_def by (rule unat_half)
  show l: "unat (last_word e) = (?O + ?L - 1) div 2" unfolding last_word_def unat_half end1 ..
  have le: "?O div 2 \<le> (?O + ?L - 1) div 2" using r(1) by (intro div_le_mono) linarith
  then have "first_word e \<le> last_word e" by (simp add: word_le_nat_alt f l)
  then have d: "unat (last_word e - first_word e) = (?O + ?L - 1) div 2 - ?O div 2" by (simp add: unat_sub f l)
  then show "unat (last_word e - first_word e) = range_words e - 1" by (simp add: range_words_def)
  have lw: "(?O + ?L - 1) div 2 < words" using r(1,2) by linarith
  have "unat (word_count e) = unat (last_word e - first_word e) + 1"
    unfolding word_count_def using r(3) lw by (subst unat_plus_if_size) (simp add: word_size d)
  then show "unat (word_count e) = range_words e" by (simp add: range_words_def d)
  show "?O div 2 + range_words e \<le> words" "0 < range_words e" using lw le by (simp_all add: range_words_def)
  show "(?O + ?L - 1) div 2 = ?O div 2 + (range_words e - 1)" using le by (simp add: range_words_def)
qed


lemma request_at:
  assumes "request_within e words" and "k < range_words e"
  shows "(ucast (first_word e + of_nat k) :: u16) = of_nat (unat (ee_offset e) div 2 + k)"
    and "unat (ucast (first_word e + of_nat k) :: u16) < words"
proof -
  note w = request_words(2,6) [OF assms(1)]
  have words: "words \<le> 65535" using assms(1) by (simp add: request_within_def)
  show at: "(ucast (first_word e + of_nat k) :: u16) = of_nat (unat (ee_offset e) div 2 + k)"
    using assms(2) w words by (intro ucast_of_unat, subst unat_plus_if_size)
      (simp add: word_size unat_of_nat take_bit_nat_eq_self)
  have "unat (ee_offset e) div 2 + k < words" using assms(2) w(2) by linarith
  then show "unat (ucast (first_word e + of_nat k) :: u16) < words"
    using words unfolding at by (simp add: unat_of_nat take_bit_nat_eq_self del: of_nat_add)
qed

lemma request_range:
  assumes "request_within e words"
  shows "unat (ee_offset e) mod 2 + unat (ee_len e) \<le> 2 * range_words e"
proof -
  let ?O = "unat (ee_offset e)" and ?L = "unat (ee_len e)"
  have "?O + ?L - 1 \<le> 2 * (?O div 2 + (range_words e - 1)) + 1"
    unfolding request_words(8) [OF assms, symmetric] by linarith
  moreover have "p + l \<le> 2 * n" if "x + l - 1 \<le> 2 * (a + (n - 1)) + 1" "x = 2 * a + p" "0 < n" for x l a n p :: nat
    using that by arith
  ultimately show ?thesis
    using request_words(7) [OF assms] mult_div_mod_eq [of 2 ?O, symmetric] by blast
qed

lemma ranged_bytes:
  assumes "request_within e words" and "length b = range_words e"
    and "\<And>k. k < range_words e \<Longrightarrow> b ! k = f (of_nat (unat (ee_offset e) div 2 + k))"
  shows "take (unat (ee_len e)) (drop (unat (ee_offset e) mod 2) (bytes_of_words b)) =
    map (byte_at f) [unat (ee_offset e) ..< unat (ee_offset e) + unat (ee_len e)]" (is "?l = ?r")
proof (rule nth_equalityI)
  let ?O = "unat (ee_offset e)" and ?L = "unat (ee_len e)"
  note len = request_range [OF assms(1)]
  show "length ?l = length ?r" using len assms(2) by simp
  fix j assume "j < length ?l"
  then have j: "j < ?L" by simp
  define m where "m = ?O mod 2 + j"
  have "2 * (m div 2) + m mod 2 = m" by simp
  moreover have m: "m < 2 * range_words e" using j len by (simp add: m_def)
  ultimately have k: "m div 2 < range_words e" by linarith
  have "2 * (?O div 2) + ?O mod 2 = ?O" by simp
  then have O: "?O + j = 2 * (?O div 2) + m" unfolding m_def by linarith
  have "?l ! j = bytes_of_words b ! m" using j len assms(2) by (simp add: m_def)
  also have "\<dots> = word_byte (b ! (m div 2)) (m mod 2)"
    using bytes_of_words_nth [of "m div 2" b "m mod 2"] k assms(2) by simp
  also have "\<dots> = byte_at f (?O + j)" using assms(3) [OF k] unfolding O byte_at_def by simp
  finally show "?l ! j = ?r ! j" using j by simp
qed

section \<open>Over a store of words\<close>

text \<open>
  What the two routines rely on: reads and writes of ranges of words, a refused write that changes
  nothing, and a part without a serial EEPROM whose checksum is only updated for the words it covers.
\<close>

locale nvm_store = nvm_words ops inv word
  for ops :: "'x nvm_update_ops_scheme" and inv :: "hw \<Rightarrow> bool" and word :: "hw \<Rightarrow> u16 \<Rightarrow> u16" +
  assumes write_words: "inv h \<Longrightarrow> length vs = unat n \<Longrightarrow> run_state (e1000_write_nvm ops a n vs) h = (r, h') \<Longrightarrow>
      inv h' \<and> word h' = (if r = 0 then overwrite (unat a) vs (word h) else word h)"
    and no_serial: "inv h \<Longrightarrow> nvm_type (nvm h) \<noteq> e1000_nvm_eeprom_spi"
    and no_flush: "inv h \<Longrightarrow> mac_type (mac h) \<notin> {e1000_82583, e1000_82574, e1000_82573}"
begin

lemma ucast_first: "request_within e n \<Longrightarrow> (ucast (first_word e) :: u16) = of_nat (unat (ee_offset e) div 2)"
  by (intro ucast_of_unat request_words(2))

lemma wp_edges:
  assumes "inv h" and r: "request_within e (length buff)"
  shows "wp (read_edges ops e buff) (\<lambda>(ret, b) g. inv g \<and> word g = word h \<and> length b = length buff \<and>
    (ret = 0 \<longrightarrow> edges_read (unat (ee_offset e)) (unat (ee_len e)) (word h) b)) h"
proof -
  let ?O = "unat (ee_offset e)" and ?L = "unat (ee_len e)"
  define d where "d = range_words e - 1"
  define z where "z = (of_nat (?O div 2 + d) :: u16)"
  note w = request_words [OF r]
  have last: "(ucast (last_word e) :: u16) = z"
    unfolding z_def d_def using w(3,8) by (intro ucast_of_unat) simp
  have edges: "edges_read ?O ?L f b \<longleftrightarrow> (odd ?O \<longrightarrow> b ! 0 = f (of_nat (?O div 2))) \<and> (odd (?O + ?L) \<longrightarrow> b ! d = f z)"
    for f b unfolding edges_read_def w(8) z_def d_def by simp
  have same: "d = 0 \<Longrightarrow> z = of_nat (?O div 2)" by (simp add: z_def)
  have d: "d < length buff" "0 < length buff" using w(6,7) unfolding d_def by linarith+
  have second: "wp (if (ee_offset e + ee_len e) AND 1 \<noteq> 0 \<and> ret = 0 then do {
        (ret_val, v) \<leftarrow> read_nvm_word ops (ucast (last_word e));
        return (ret_val, b[unat (last_word e - first_word e) := v]) }
      else return (ret, b)) (\<lambda>(ret, b) g. inv g \<and> word g = word h \<and> length b = length buff \<and>
    (ret = 0 \<longrightarrow> edges_read ?O ?L (word h) b)) g"
    if "inv g" "word g = word h" "length b = length buff"
      "ret = 0 \<Longrightarrow> odd ?O \<Longrightarrow> b ! 0 = word h (of_nat (?O div 2))" for ret b g
    unfolding wp edges and_one_unat(2) w(1) w(5) [folded d_def] last
    using that d same by (auto intro!: wp_read_word simp: nth_list_update)
  have first: "wp (if ee_offset e AND 1 \<noteq> 0 then do {
         (ret_val, v) \<leftarrow> read_nvm_word ops (ucast (first_word e));
         return (ret_val, buff[0 := v]) }
       else return (0, buff)) (\<lambda>(ret, b) g. inv g \<and> word g = word h \<and> length b = length buff \<and>
    (ret = 0 \<longrightarrow> odd ?O \<longrightarrow> b ! 0 = word h (of_nat (?O div 2)))) h"
    unfolding wp and_one_unat(2) ucast_first [OF r] using assms(1) d(2) by (auto intro!: wp_read_word)
  show ?thesis
    unfolding read_edges_def
    by (subst wp_bind, rule wp_mono [OF first]) (simp only: split_beta, intro second, simp_all)
qed


lemma wp_get_words:
  assumes "inv h" and "i + n \<le> length buff"
  shows "wp (get_words ops first i n buff) (\<lambda>(r, b) g. inv g \<and> word g = word h \<and>
    (r = 0 \<longrightarrow> length b = length buff \<and>
      (\<forall>k. b ! k = (if i \<le> k \<and> k < i + n then word h (ucast (first + of_nat k)) else buff ! k)))) h"
  using assms
proof (induction n arbitrary: i buff h)
  case (Suc n)
  have IH: "wp (get_words ops first (Suc i) n (buff[i := v])) (\<lambda>(r, b) g. inv g \<and> word g = word h \<and>
    (r = 0 \<longrightarrow> length b = length buff \<and>
      (\<forall>k. b ! k = (if i \<le> k \<and> k < i + Suc n then word h (ucast (first + of_nat k)) else buff ! k)))) h'"
    if "inv h'" "word h' = word h" "v = word h (ucast (first + of_nat i))" for h' v
    using Suc.prems(2) that
    by (intro wp_mono [OF Suc.IH]) (auto simp: nth_list_update not_less_eq_eq le_less)
  show ?case
    unfolding get_words.simps wp
  proof (rule wp_read_word [OF Suc.prems(1)], goal_cases)
    case (1 r v h')
    then show ?case using IH [of h' v] by (cases "r = 0") simp_all
  qed
qed (auto simp: wp)


lemma bytes_blank: "bytes_of_words (replicate n 0xFFFF) = replicate (2 * n) 0xFF"
  by (induction n) (simp_all add: bytes_of_words_def)

lemma wp_get_bytes:
  assumes "inv h" and r: "request_within e n" and "length buff = range_words e"
  shows "wp (e1000_get_eeprom ops (Some buff) ident e bytes) (\<lambda>(ret, e', bs) g. inv g \<and> word g = word h \<and>
    e' = e\<lparr>ee_magic := ident\<rparr> \<and>
    bs = (if ret = 0 then map (byte_at (word h)) [unat (ee_offset e) ..< unat (ee_offset e) + unat (ee_len e)]
      else replicate (unat (ee_len e)) 0xFF)) h"
proof -
  let ?e = "e\<lparr>ee_magic := ident\<rparr>"
  have same: "first_word ?e = first_word e" "word_count ?e = word_count e"
    by (simp_all add: first_word_def word_count_def last_word_def)
  note w = request_words [OF r]
  have len: "ee_len e \<noteq> 0" using r by (auto simp: request_within_def)
  show ?thesis
    unfolding e1000_get_eeprom_def wp Let_def option.case if_not_P [OF len] same ethtool_eeprom.simps
      w(4) and_one_unat(1)
  proof (simp only: no_serial [OF assms(1)] simp_thms, rule wp_mono [OF wp_get_words [OF assms(1)]], goal_cases)
    case (2 x g)
    then show ?case
      using assms(3) request_range [OF r] ranged_bytes [OF r, of "snd x" "word h"]
      by (auto simp: case_prod_beta bytes_blank request_at [OF r])
  qed (simp add: assms(3))
qed


lemma wp_set_bytes:
  assumes "inv h" and r: "request_within e (length buff)" and "length bytes = unat (ee_len e)"
    and "NVM_CHECKSUM_REG < of_nat (unat (ee_offset e) div 2)"
  shows "wp (e1000_set_eeprom ops (Some buff) ident e bytes) (\<lambda>ret g. inv g \<and>
    (if ret = 0 then \<forall>j < 131072. byte_at (word g) j = put_bytes (unat (ee_offset e)) bytes (byte_at (word h)) j
     else word g = word h)) h"
proof -
  let ?O = "unat (ee_offset e)" and ?L = "unat (ee_len e)" and ?n = "range_words e"
  note w = request_words [OF r]
  have len: "ee_len e \<noteq> 0" "length buff \<le> 65535" using r by (auto simp: request_within_def)
  have high: "\<not> first_word e \<le> 63"
    using assms(4) w(2,6) len(2) by (simp add: word_le_nat_alt word_less_nat_alt unat_of_nat take_bit_nat_eq_self)
  have n: "unat (ucast (word_count e) :: u16) = ?n"
    using w(6) len(2) unfolding ucast_of_unat [OF w(4)] by (simp add: unat_of_nat take_bit_nat_eq_self)
  have a: "unat (ucast (first_word e) :: u16) = ?O div 2"
    using w(6) len(2) unfolding ucast_first [OF r] by (simp add: unat_of_nat take_bit_nat_eq_self)
  let ?Q = "\<lambda>ret g. inv g \<and>
    (if ret = 0 then \<forall>j < 131072. byte_at (word g) j = put_bytes ?O bytes (byte_at (word h)) j
     else word g = word h)"
  have put: "wp (e1000_write_nvm ops (ucast (first_word e)) (ucast (word_count e))
      (take ?n (words_of_bytes (splice_bytes (?O mod 2) bytes (bytes_of_words b))))) ?Q g"
    if g: "inv g" "word g = word h" "length b = length buff" "edges_read ?O ?L (word h) b" for b g
  proof (rule wpI)
    fix ret g'
    let ?vs = "take ?n (words_of_bytes (splice_bytes (?O mod 2) bytes (bytes_of_words b)))"
    have "0 < length bytes" "?O + length bytes \<le> 2 * 65536" "?n \<le> length b"
      using r assms(3) g(3) w(6) by (auto simp: request_within_def)
    with g(4) have vs: "length ?vs = ?n"
      "j < 2 * 65536 \<Longrightarrow> byte_at (overwrite (?O div 2) ?vs (word h)) j = put_bytes ?O bytes (byte_at (word h)) j" for j
      using spliced_words [of bytes ?O b "word h"] by (simp_all add: range_words_def assms(3))
    assume "run_state (e1000_write_nvm ops (ucast (first_word e)) (ucast (word_count e)) ?vs) g = (ret, g')"
    from write_words [OF g(1) _ this, unfolded n a, OF vs(1)] show "?Q ret g'"
      using vs(2) g(2) by simp
  qed
  show ?thesis
    unfolding e1000_set_eeprom_def wp Let_def and_one_unat(1) w(4) option.case
  proof (simp add: len(1) assms(1), rule impI, rule wp_mono [OF wp_edges [OF assms(1) r]], goal_cases)
    case (1 x g)
    show ?case
    proof (cases "fst x = 0")
      case True
      with 1 have g: "inv g" "word g = word h" "length (snd x) = length buff" "edges_read ?O ?L (word h) (snd x)"
        by (simp_all add: case_prod_beta)
      show ?thesis
        using True by (auto intro!: wp_mono [OF put [OF g]] simp: high dest: no_flush)
    qed (use 1 in \<open>simp add: case_prod_beta\<close>)
  qed
qed

end


section \<open>On the ICH and PCH parts\<close>

text \<open>The words behind the shadow RAM; the part and its flash are those of \<open>h0\<close>.\<close>

definition bytes_inv :: "hw \<Rightarrow> hw \<Rightarrow> bool" where
  "bytes_inv h0 h \<longleftrightarrow> words_inv h \<and> nvm_type (nvm h) = e1000_nvm_flash_sw \<and> e1000_ich10lan \<le> mac_type (mac h) \<and>
     flash_mem h = flash_mem h0 \<and> dev h = dev h0"

lemma frame_read_word: "state_io_rel same_hw (read_nvm_word ich8_update_ops a)"
proof -
  have loop: "state_io_rel same_hw (read_shadow_loop offset act i n data)" for offset act i n data
    by (induction n arbitrary: i data)
      (auto simp: Let_def e1000_read_flash_word_ich8lan_def intro!: same_frames frame_flash_read)
  show ?thesis
    unfolding read_nvm_word_def e1000_read_nvm_def ich8_update_ops_def nvm_access_ops.simps
      e1000_read_nvm_ich8lan_def ich8_lock_ops_def nvm_lock_ops.simps e1000_acquire_nvm_ich8lan_def
      e1000_release_nvm_ich8lan_def
    by (intro same_frames frame_active_bank loop)
qed

lemma words_put:
  assumes "bytes_inv h0 h" and "length vs = unat n" and "run_state (e1000_write_nvm ich8_update_ops a n vs) h = (r, g)"
  shows "bytes_inv h0 g \<and> nvm_content g = (if r = 0 then overwrite (unat a) vs (nvm_content h) else nvm_content h)"
proof (cases "nvm_bad_range (word_size (nvm h)) a n")
  case True
  with assms show ?thesis
    by (auto simp: e1000_write_nvm_def ich8_update_ops_def e1000_write_nvm_ich8lan_def)
next
  case False
  have h: "words_inv h" "length (shadow_ram h) = 2048" "word_size (nvm h) = 2048"
    using assms(1) by (auto simp: bytes_inv_def words_inv_def)
  have fit: "unat a + unat n \<le> length (shadow_ram h)" using range_ok [OF False] h by simp
  let ?h1 = "log_event MutexLock h"
  let ?h2 = "?h1\<lparr>shadow_ram := write_shadow_loop (unat a) (unat n) vs (shadow_ram h)\<rparr>"
  note w = write_shadow [OF fit assms(2)]
  have g: "r = 0" "g = log_event MutexUnlock ?h2"
    using assms(3) run_write_shadow [OF False, of vs] by (simp_all add: e1000_write_nvm_def ich8_update_ops_def)
  have l: "words_inv ?h1" "nvm_content ?h1 = nvm_content h" "flash_mem ?h1 = flash_mem h"
    using words_log [OF h(1), of MutexLock] by simp_all
  have 2: "words_inv ?h2" "flash_mem ?h2 = flash_mem h"
    using l(1,3) w by (simp_all add: words_inv_def idle_flash_def flash_state_def flash_mem_def)
  have "nvm_content ?h2 x = overwrite (unat a) vs (nvm_content ?h1) x" for x
    using w assms(2) by (simp add: nvm_content_def stored_word_def flash_mem_def Let_def overwrite_def)
  then have "nvm_content ?h2 = overwrite (unat a) vs (nvm_content h)" using l(2) by auto
  with 2 g words_log [OF 2(1), of MutexUnlock] assms(1) show ?thesis by (simp add: bytes_inv_def)
qed

interpretation ich8b: nvm_store ich8_update_ops "bytes_inv h0" nvm_content for h0
proof
  fix h a r v h'
  assume h: "bytes_inv h0 h" and run: "run_state (read_nvm_word ich8_update_ops a) h = ((r, v), h')"
  have "read_nvm_word ich8_update_ops a = read_nvm_word ich8_access_ops a"
    by (simp add: read_nvm_word_def e1000_read_nvm_def ich8_update_ops_def ich8_access_ops_def)
  with wpD [OF wp_words_read run [simplified this]] same_hw_run [OF frame_read_word run] h
  show "bytes_inv h0 h' \<and> nvm_content h' = nvm_content h \<and> (r = 0 \<longrightarrow> v = nvm_content h a)"
    by (simp add: bytes_inv_def same_hw_fields)
next
  fix h a v r h'
  assume h: "bytes_inv h0 h" and run: "run_state (e1000_write_nvm ich8_update_ops a 1 [v]) h = (r, h')"
  have "overwrite (unat a) [v] f = f(a := v)" for f
    by (auto simp: overwrite_def fun_eq_iff word_unat_eq_iff)
  with words_put [OF h _ run] show "bytes_inv h0 h' \<and> (r = 0 \<longrightarrow> nvm_content h' = (nvm_content h)(a := v))"
    by simp
next
  show "bytes_inv h0 h \<Longrightarrow> nvm_type (nvm h) \<noteq> e1000_nvm_eeprom_spi" for h by (simp add: bytes_inv_def)
  show "bytes_inv h0 h \<Longrightarrow> mac_type (mac h) \<notin> {e1000_82583, e1000_82574, e1000_82573}" for h
    by (auto simp: bytes_inv_def less_eq_mac_kind_def)
qed (rule words_put)


subsection \<open>A ready part serves every request\<close>

lemma ready_word:
  assumes "words_inv h" and "always_ready (dev h)" and "unat a < 2048"
  shows "wp (read_nvm_word ich8_update_ops a) (\<lambda>(r, v) g. r = 0 \<and> words_inv g \<and> always_ready (dev g)) h"
proof -
  have ok: "\<not> nvm_bad_range (word_size (nvm h)) a 1" using assms read_range [of h a] by (simp add: words_inv_def)
  obtain code where "flash_layout code (nvm h)" using assms(1) by (auto simp: words_inv_def)
  then have size: "unat (flash_bank_size (nvm h)) \<le> 4194304" by (simp add: flash_layout_def)
  have mac: "mac_type (mac h) < e1000_pch_spt" using assms(1) by (simp add: words_inv_def)
  have lim: "push_bit 1 (o' + ucast a) \<le> ICH_FLASH_LINEAR_ADDR_MASK" if "unat o' \<le> 4194304" for o' :: u32
  proof -
    have "unat (push_bit 1 (o' + ucast a)) \<le> unat ICH_FLASH_LINEAR_ADDR_MASK"
      using that assms(3) by (simp add: unat_word_ariths push_bit_eq_mult)
    then show ?thesis by (simp only: word_le_nat_alt)
  qed
  have loop: "wp (read_shadow_loop a ((if b \<noteq> 0 then flash_bank_size (nvm h) else 0) + ucast a) 0 (unat (1 :: u16)) [0])
      (\<lambda>(r, v) g'. r = 0) g" if "dev g = dev h" for b :: u32 and g
    using assms(2) that size lim [of "flash_bank_size (nvm h)"] lim [of 0]
    by (auto simp: wp Let_def succeeds_def intro!: wp_mono [OF ready_read_word])
  have "wp (e1000_read_nvm_ich8lan ich8_lock_ops a 1 [0]) (\<lambda>(r, v) g. r = 0) h"
    unfolding e1000_read_nvm_ich8lan_def ich8_lock_ops_def e1000_acquire_nvm_ich8lan_def
      e1000_release_nvm_ich8lan_def wp Let_def nvm_lock_ops.simps
  proof (simp only: ok simp_thms, rule wp_mono [OF ready_active_bank], goal_cases)
    case (4 b g)
    then have "dev g = dev h" by (simp add: same_hw_fields)
    show ?case by (rule wp_mono [OF loop [OF \<open>dev g = dev h\<close>]]) auto
  qed (use assms(2) size mac in auto)
  then have r: "wp (read_nvm_word ich8_update_ops a) (\<lambda>(r, v) g. r = 0) h"
    by (auto simp: read_nvm_word_def e1000_read_nvm_def ich8_update_ops_def wp elim!: wp_mono)
  show ?thesis
  proof (rule wpI, goal_cases)
    case (1 x g)
    have "wp (read_nvm_word ich8_access_ops a) (\<lambda>(r, v) g. words_inv g) h"
      by (rule wp_mono [OF wp_words_read [OF assms(1)]]) auto
    moreover have "read_nvm_word ich8_update_ops a = read_nvm_word ich8_access_ops a"
      by (simp add: read_nvm_word_def e1000_read_nvm_def ich8_update_ops_def ich8_access_ops_def)
    moreover have "dev g = dev h" using same_hw_run [OF frame_read_word 1] by (simp add: same_hw_fields)
    ultimately show ?case using wpD [OF r 1] 1 assms(2) by (auto simp: wp_def case_prod_beta)
  qed
qed

lemma ready_get_words:
  assumes "words_inv h" and "always_ready (dev h)"
    and "\<And>k. i \<le> k \<Longrightarrow> k < i + n \<Longrightarrow> unat (ucast (first + of_nat k) :: u16) < 2048"
  shows "wp (get_words ich8_update_ops first i n buff) (\<lambda>(r, v) g. r = 0) h"
  using assms
proof (induction n arbitrary: i buff h)
  case (Suc n)
  have "unat (ucast (first + of_nat i) :: u16) < 2048" using Suc.prems(3) by simp
  then show ?case
    unfolding get_words.simps wp
    by (intro wp_mono [OF ready_word [OF Suc.prems(1,2)]]) (auto intro!: Suc.IH Suc.prems(3))
qed (simp add: wp)

lemma ready_get:
  assumes "words_inv h" and "always_ready (dev h)" and "nvm_type (nvm h) = e1000_nvm_flash_sw" and r: "request_within e 2048"
  shows "wp (e1000_get_eeprom ich8_update_ops (Some buff) ident e bytes) (\<lambda>(ret, e', bs) g. ret = 0) h"
proof -
  let ?e = "e\<lparr>ee_magic := ident\<rparr>"
  have same: "first_word ?e = first_word e" "word_count ?e = word_count e"
    by (simp_all add: first_word_def word_count_def last_word_def)
  have len: "ee_len e \<noteq> 0" using r by (auto simp: request_within_def)
  show ?thesis
    unfolding e1000_get_eeprom_def wp Let_def option.case if_not_P [OF len] same ethtool_eeprom.simps
      request_words(4) [OF r]
  proof (simp add: assms(3), rule wp_mono [OF ready_get_words [OF assms(1,2)]], goal_cases)
    case (1 k)
    then show ?case using request_at(2) [OF r, of k] by simp
  qed auto
qed

lemma ready_edges:
  assumes "words_inv h" and "always_ready (dev h)" and r: "request_within e 2048"
  shows "wp (read_edges ich8_update_ops e buff) (\<lambda>(ret, b) g. ret = 0 \<and> words_inv g) h"
proof -
  note w = request_words [OF r]
  have f: "unat (ucast (first_word e) :: u16) < 2048" using request_at(2) [OF r w(7)] by simp
  have "(ucast (last_word e) :: u16) = of_nat (unat (ee_offset e) div 2 + (range_words e - 1))"
    using w(3,8) by (intro ucast_of_unat) simp
  also have "\<dots> = ucast (first_word e + of_nat (range_words e - 1))"
    using w(7) by (intro request_at(1) [OF r, symmetric]) simp
  finally have l: "unat (ucast (last_word e) :: u16) < 2048" using request_at(2) [OF r, of "range_words e - 1"] w(7) by simp
  show ?thesis
    unfolding read_edges_def wp
    using assms(1,2) by (auto intro!: wp_mono [OF ready_word] f l)
qed

lemma set_in_range:
  assumes "request_within e 2048"
  shows "\<not> nvm_bad_range 2048 (ucast (first_word e)) (ucast (word_count e))"
proof -
  note w = request_words [OF assms]
  have a: "unat (ucast (first_word e) :: u16) = unat (ee_offset e) div 2"
    using w(6,7) unfolding ucast_of_unat [OF w(2)] by (simp add: unat_of_nat take_bit_nat_eq_self)
  have n: "unat (ucast (word_count e) :: u16) = range_words e"
    using w(6) unfolding ucast_of_unat [OF w(4)] by (simp add: unat_of_nat take_bit_nat_eq_self)
  then show ?thesis using w(6,7) a by (intro range_fits) simp_all
qed

lemma ready_set:
  assumes "words_inv h" and "always_ready (dev h)" and "nvm_type (nvm h) = e1000_nvm_flash_sw"
    and "e1000_ich10lan \<le> mac_type (mac h)" and r: "request_within e (length buff)" "length buff = 2048"
    and "128 \<le> unat (ee_offset e)" and "ee_magic e = ident"
  shows "wp (e1000_set_eeprom ich8_update_ops (Some buff) ident e bytes) (\<lambda>ret g. ret = 0) h"
proof -
  note w = request_words [OF r(1)]
  have len: "ee_len e \<noteq> 0" using r by (auto simp: request_within_def)
  have high: "\<not> first_word e \<le> 63" using assms(7) w(2) by (simp add: word_le_nat_alt)
  have inv: "bytes_inv h h" using assms by (simp add: bytes_inv_def)
  have edges: "wp (read_edges ich8_update_ops e buff) (\<lambda>(ret, b) g. ret = 0 \<and> bytes_inv h g) h"
    by (rule wp_mono [OF wp_both [OF ready_edges [OF assms(1,2) r(1) [unfolded r(2)]] ich8b.wp_edges [OF inv r(1)]]]) auto
  have put: "wp (e1000_write_nvm ich8_update_ops (ucast (first_word e)) (ucast (word_count e)) vs)
      (\<lambda>ret g'. ret = 0 \<and> e1000_ich10lan \<le> mac_type (mac g')) g" if "bytes_inv h g" for vs g
  proof -
    have "\<not> nvm_bad_range (word_size (nvm g)) (ucast (first_word e)) (ucast (word_count e))"
      using that set_in_range [of e] r by (simp add: bytes_inv_def words_inv_def)
    from run_write_shadow [OF this, of vs] show ?thesis
      using that by (simp add: wp_def e1000_write_nvm_def ich8_update_ops_def bytes_inv_def)
  qed
  show ?thesis
    unfolding e1000_set_eeprom_def wp Let_def option.case
    by (simp add: len assms(8), rule wp_mono [OF edges])
      (auto simp: high less_eq_mac_kind_def intro!: wp_mono [OF put])
qed

text \<open>
  C25: on the parts from ICH10 to LPT, setting a range of bytes that starts at byte 128 or later, where
  the words of the checksum end, changes these bytes and no other, at odd and even ends alike; a
  failing call changes none. Reading any range back then gives its bytes, or all bits set and an
  error. Neither call changes the flash itself, and where the part serves its flash cycles both
  succeed.
\<close>

theorem eeprom_bytes:
  assumes "words_inv h" and "nvm_type (nvm h) = e1000_nvm_flash_sw" and "e1000_ich10lan \<le> mac_type (mac h)"
    and "request_within e 2048" and "length buff = 2048" and "length bytes = unat (ee_len e)"
    and "128 \<le> unat (ee_offset e)" and "request_within e' 2048" and "length buff' = range_words e'"
  shows "let (r, h1) = run_state (e1000_set_eeprom ich8_update_ops (Some buff) ident e bytes) h;
      content = (if r = 0 then put_bytes (unat (ee_offset e)) bytes (byte_at (nvm_content h)) else byte_at (nvm_content h));
      ((r', _, bytes'), h2) = run_state (e1000_get_eeprom ich8_update_ops (Some buff') ident e' old) h1 in
    (\<forall>j < 131072. byte_at (nvm_content h1) j = content j) \<and>
    bytes' = (if r' = 0 then map content [unat (ee_offset e') ..< unat (ee_offset e') + unat (ee_len e')]
      else replicate (unat (ee_len e')) 0xFF) \<and>
    flash_mem h2 = flash_mem h \<and>
    (always_ready (dev h) \<and> ee_magic e = ident \<longrightarrow> r = 0 \<and> r' = 0)"
proof -
  have inv: "bytes_inv h h" using assms by (simp add: bytes_inv_def)
  have within: "request_within e (length buff)" using assms(4,5) by simp
  have high: "NVM_CHECKSUM_REG < of_nat (unat (ee_offset e) div 2)"
    using assms(7) request_words(6,7) [OF assms(4)] by (simp add: word_less_nat_alt unat_of_nat take_bit_nat_eq_self)
  obtain r h1 where set: "run_state (e1000_set_eeprom ich8_update_ops (Some buff) ident e bytes) h = (r, h1)"
    by (meson surj_pair)
  obtain r' e'' bytes' h2 where got: "run_state (e1000_get_eeprom ich8_update_ops (Some buff') ident e' old) h1 =
    ((r', e'', bytes'), h2)" by (metis prod.exhaust)
  let ?content = "if r = 0 then put_bytes (unat (ee_offset e)) bytes (byte_at (nvm_content h)) else byte_at (nvm_content h)"
  have 1: "bytes_inv h h1" "\<forall>j < 131072. byte_at (nvm_content h1) j = ?content j"
    using wpD [OF ich8b.wp_set_bytes [OF inv within assms(6) high] set] by (auto split: if_splits)
  have 2: "bytes_inv h h2" "bytes' = (if r' = 0
      then map (byte_at (nvm_content h1)) [unat (ee_offset e') ..< unat (ee_offset e') + unat (ee_len e')]
      else replicate (unat (ee_len e')) 0xFF)"
    using wpD [OF ich8b.wp_get_bytes [OF 1(1) assms(8,9)] got] by simp_all
  have 3: "r = 0 \<and> r' = 0" if "always_ready (dev h)" "ee_magic e = ident"
  proof -
    have "r = 0" using wpD [OF ready_set [OF assms(1) that(1) assms(2,3) within assms(5,7) that(2)] set] .
    then show ?thesis
      using wpD [OF ready_get [OF _ _ _ assms(8)] got] 1(1) that(1) by (simp add: bytes_inv_def)
  qed
  have "map (byte_at (nvm_content h1)) [unat (ee_offset e') ..< unat (ee_offset e') + unat (ee_len e')] =
    map ?content [unat (ee_offset e') ..< unat (ee_offset e') + unat (ee_len e')]"
    using 1(2) assms(8) by (intro map_cong) (auto simp: request_within_def)
  with 1(2) 2 3 show ?thesis by (simp add: set got bytes_inv_def)
qed

text \<open>Three bytes from the odd offset 141, read back with a byte before them.\<close>

theorem eeprom_bytes_witness:
  "let h = hw.nvm_update (\<lambda>n. n\<lparr>nvm_type := e1000_nvm_flash_sw\<rparr>) commit_hw;
      (r, h1) = run_state (e1000_set_eeprom ich8_update_ops (Some (replicate 2048 0)) 7
        \<lparr>ee_offset = 141, ee_len = 3, ee_magic = 7\<rparr> [1, 2, 3]) h;
      ((r', _, bytes'), h2) = run_state (e1000_get_eeprom ich8_update_ops (Some [0, 0]) 7
        \<lparr>ee_offset = 140, ee_len = 4, ee_magic = 0\<rparr> [9, 9, 9, 9]) h1 in
    r = 0 \<and> r' = 0 \<and> bytes' = [byte_at (nvm_content h) 140, 1, 2, 3] \<and> flash_mem h2 = flash_mem h"
proof -
  let ?h = "hw.nvm_update (\<lambda>n. n\<lparr>nvm_type := e1000_nvm_flash_sw\<rparr>) commit_hw"
  have "words_inv ?h" "e1000_ich10lan \<le> mac_type (mac ?h)"
    using commit_hw_words commit_chip_ready
    by (simp_all add: words_inv_def flash_layout_def idle_flash_def flash_state_def)
  from eeprom_bytes [OF this(1) _ this(2), of "\<lparr>ee_offset = 141, ee_len = 3, ee_magic = 7\<rparr>" "replicate 2048 0" "[1, 2, 3]"
      "\<lparr>ee_offset = 140, ee_len = 4, ee_magic = 0\<rparr>" "[0, 0]" 7 "[9, 9, 9, 9]"]
  show ?thesis
    using commit_chip_ready by (auto simp: request_within_def range_words_def Let_def case_prod_beta put_bytes_def upt_rec)
qed

end
