(* ===== verification/Spec2Isabelle.thy ===== *)
theory Spec2Isabelle
  imports Nvm_Serial Nvm_Eerd Mac Mac_Link Manage Phy Ich8_Words Vlan Reset Eeprom_Bytes
begin

text \<open>
  A verification library for the Intel e1000e network driver of this repository, version 3.4.2.1,
  \<^verbatim>\<open>src/I219-V-driver-no-checksum/e1000e-3.4.2.1/src\<close>. The rest of the repository is notes, small
  scripts and an older copy of the same driver. The name of the directory is its one change: the
  check of the NVM checksum, \<open>e1000e_validate_nvm_checksum_generic\<close>, accepts every content.

  \<^bold>\<open>The program.\<close> The driver has two halves. The lower half (\<^verbatim>\<open>nvm.c\<close>, \<^verbatim>\<open>mac.c\<close>, \<^verbatim>\<open>phy.c\<close>,
  \<^verbatim>\<open>manage.c\<close> and a file per family of parts) works on \<^verbatim>\<open>struct e1000_hw\<close> and the registers of the
  device: it reads and writes the EEPROM or flash, sets addresses and filters, brings up the link
  and talks to management firmware. Families differ by tables of function pointers. The upper half
  (\<^verbatim>\<open>netdev.c\<close>, with the options of \<^verbatim>\<open>param.c\<close>) works on \<^verbatim>\<open>struct e1000_adapter\<close>: it maps packets into
  the transmit ring, gives buffers to the receive ring, serves interrupts by scheduling a poll that
  cleans both rings, adapts the interrupt rate, and keeps the VLAN filter.

  \<^bold>\<open>How the code is modelled.\<close> C functions are programs of the state monad of the HOL library, with
  the guards, early returns and order of accesses of the source. Integers have their width
  (\<open>u8\<close> to \<open>u64\<close>); \<open>s32\<close> return codes are integers. Constants are abbreviations of their values. The
  device is a parameter: what a read gives is an arbitrary function of the register and of the
  trace of all earlier accesses (\<open>dev\<close>, \<open>trace\<close> of \<open>hw\<close>, newest event first), so a theorem without a
  hypothesis about \<open>dev\<close> holds for every device. The kernel is a parameter in the same way: whether
  an allocation or a mapping fails, or a poll can be scheduled, is an arbitrary function of what it
  was asked before (\<open>kernel_of\<close>, \<open>rx_kernel_of\<close>, \<open>k_napi_prep\<close>). Function pointers are records of
  programs. A null pointer, an overrun, a division by zero or \<^verbatim>\<open>BUG_ON\<close> is \<open>Bug\<close>, a loop without end
  \<open>Endless\<close>, both values of the sum type with \<open>halt\<close>; error codes are results like any other.
  The states form layers, each a record that contains the one below: \<open>hw\<close> (\<^verbatim>\<open>struct e1000_hw\<close>), \<open>net\<close>
  (with the transmit ring), \<open>nic\<close> (with the receive ring), \<open>iface\<close> (with interrupts), \<open>vlan_adapter\<close>;
  \<open>on_hw\<close>, \<open>on_net\<close>, \<open>on_nic\<close> and \<open>on_if\<close> lift a program by one layer.

  \<^bold>\<open>Theories, lower half.\<close>
  \<open>Prelude\<close>: widths, weakest preconditions (rules in \<open>wp\<close>), the bounded polling and retry loops of the
  driver, and the locale \<open>transition_system\<close> for invariants of reachable states.
  \<open>Regs\<close>, \<open>Net_Regs\<close>, \<open>Rx_Regs\<close>, \<open>Irq_Regs\<close>: constants of the header files.
  \<open>Hw\<close>: the structures of \<^verbatim>\<open>hw.h\<close> and the accessors, with the wait for the management engine before
  a write. \<open>Bus\<close>: reasoning about accesses, the frame locales \<open>read_frame\<close> and \<open>bus_frame\<close>, and
  \<open>storage_reg\<close>, the documented behaviour of a plain register.
  \<open>Nvm\<close>: all of \<^verbatim>\<open>nvm.c\<close>. \<open>Nvm_Serial\<close> shows that the bit-banged interface transmits exactly the bits
  meant, that page writes do not cross a page, and the limit of the ninth address bit; \<open>Nvm_Eerd\<close>
  that reads through \<open>EERD\<close> return the words of the part, and states the locale \<open>nvm_words\<close>, the
  word memory that checksum and board number routines rely on.
  \<open>Mac\<close> and \<open>Mac_Link\<close>: all of \<^verbatim>\<open>mac.c\<close>, with the multicast table as the image of the list under the
  hash, the round trip of a receive address, the range of the inter-frame spacing, LED values, the
  semaphore, and the resolution of flow control, on which two partners agree.
  \<open>Phy\<close>: register access and derived state of \<^verbatim>\<open>phy.c\<close>, as definitions.
  \<open>Manage\<close>: all of \<^verbatim>\<open>manage.c\<close>, with the block that the DHCP filter writes to the firmware.
  \<open>Ich8_Flash\<close> and \<open>Ich8_Nvm\<close>: flash controller and NVM of \<^verbatim>\<open>ich8lan.c\<close>. \<open>Flash_Part\<close> is the
  documented behaviour of the part; \<open>Ich8_Commit\<close> shows that losing power at any moment of a commit
  leaves a complete image selected, and that a ready part commits; \<open>Ich8_Words\<close> that writes are read
  back, interprets \<open>nvm_words\<close> on the operations of the part, and describes what an erase selects.
  \<open>Ich8_Ltr\<close>: latency reporting of \<^verbatim>\<open>ich8lan.c\<close>, with the bounds of the encoding.

  \<^bold>\<open>Theories, upper half.\<close>
  \<open>Net_State\<close>, \<open>Tx_Ring\<close>, \<open>Tx_Send\<close>: the transmit path, \<open>e1000_xmit_frame\<close> down to mapping and filling
  descriptors, and \<open>e1000_clean_tx_irq\<close>. \<open>Tx_Queue\<close> sees the ring as a queue of packets, \<open>Tx_Map\<close> and
  \<open>Tx_Accept\<close> show how a packet joins it, and \<open>Tx_System\<close> is the transition system of sending,
  reporting, cleaning and emptying: every accepted packet is freed once or in flight, the device
  never owns a free slot, and nothing runs into \<open>Bug\<close> or \<open>Endless\<close>.
  \<open>Rx_Ring\<close>: the receive path with one buffer per packet. \<open>Rx_Queue\<close> and \<open>Rx_System\<close> show the same way
  that a poll hands up exactly the intact packets in order, that no buffer is lost or used twice,
  and that the device only has mapped buffers.
  \<open>Irq\<close>: handlers, poll, masks, moderation and vectors. \<open>Irq_Frame\<close> shows that the two directions
  leave each other and the interrupt mask alone (the locale \<open>monad_frame\<close>), and \<open>Irq_System\<close> composes
  them: the transition system of interrupts, polls, sending, the device and the watchdog, in
  which no cause is left unserved, what a poll does to both rings, and the path of the rate.
  \<open>Coalesce\<close>: the rate as \<^verbatim>\<open>ethtool.c\<close> shows and sets it, a step of that system.
  \<open>Eeprom_Bytes\<close>: the NVM as bytes of \<^verbatim>\<open>ethtool.c\<close>, over the locale \<open>nvm_store\<close>, which extends
  \<open>nvm_words\<close> and is interpreted on the ICH operations.
  \<open>Params\<close>: all of \<^verbatim>\<open>param.c\<close>; settings are well formed whatever the user gives.
  \<open>Vlan\<close>: the VLAN filter; table and bit map implement a set, and a reset is undone.
  \<open>Reset\<close>: the packet buffer, flow control marks and transmit limit of \<open>e1000e_reset\<close>, and the filters
  of pass-through management.

  \<^bold>\<open>Loops and fuel.\<close> Loops over a range are structural in the number of rounds left. Polling loops
  have the bound of the source (\<open>poll\<close>, \<open>retry\<close>). Loops that have no bound in the source take fuel. The mapping loops
  get the length of the data, as each round maps at least one byte when the limit is positive, which
  \<open>Reset.buffer_divided\<close> shows of the limit; the cleaning loops get the size of the ring; they give
  \<open>Endless\<close> when it ends, and \<open>Tx_System.tx_returns\<close> shows that it does not. That theorem also shows
  that the \<open>BUG_ON\<close> of the send path is not reached, from the sizes of ring, limit and packet alone;
  with 1 KB of transmit buffer it would be (\<open>Tx_System.small_fifo_bug\<close>). The page loop of an SPI
  write gets the number of words, and \<open>Nvm_Serial.write_pages_fuel\<close> shows that more changes nothing.

  \<^bold>\<open>What the transition systems assume.\<close> The device reports only descriptors it owns, and writes
  descriptors that fit their buffers; the kernel gives addresses no older buffer has; a packet is
  given to the driver once. The interface composed in \<open>Irq_System\<close> uses one interrupt (legacy or
  MSI); the handlers of MSI-X are modelled but not part of the system. A step \<open>Else\<close> stands for
  the rest of the driver: it keeps the rings and well formed rates, and leaves the mask alone or
  takes the interface down. Steps are atomic; the lock and barrier primitives of the
  kernel have no model.

  \<^bold>\<open>What the proofs showed.\<close> Among the theorems are descriptions of behaviour that the source or its
  comments do not intend: \<open>Nvm_Serial.spi_address_reached\<close>, \<open>Ich8_Words.erase_addresses\<close>,
  \<open>Ich8_Words.erase_failure_hidden\<close>, \<open>Ich8_Words.read_after_write\<close>, \<open>Ich8_Ltr.ltr_limit_compares_codes\<close>, \<open>Tx_System.tx_map_error_leaks\<close>,
  \<open>Rx_System.rx_unmaps_failed\<close>, \<open>Eeprom_Bytes.eeprom_bytes\<close>, \<open>Irq_System.itr_start_interval\<close>, \<open>Vlan.managed_vlan_lost\<close>,
  \<open>Vlan.mng_vlan_moved\<close>, \<open>Reset.new_filter_unheard\<close> and \<open>Reset.jumbo_frame_exceeds\<close>.

  \<^bold>\<open>Not modelled.\<close> Packet split and chained pages (two variants of the receive path for large
  frames). The rest of \<^verbatim>\<open>netdev.c\<close>: probing, suspending, statistics, time stamps, and the
  configuration functions, which write constants to registers. The rest of \<^verbatim>\<open>ich8lan.c\<close>, of \<^verbatim>\<open>phy.c\<close>
  and of the files of the older families: workarounds that are sequences of PHY register writes
  with no state of their own. The rest of \<^verbatim>\<open>ethtool.c\<close>, which reports and tests over the other parts, and \<^verbatim>\<open>ptp.c\<close>,
  over a counter of the kernel. \<^verbatim>\<open>kcompat.c\<close> and \<^verbatim>\<open>kcompat.h\<close>, back-ports of kernel interfaces. The
  older copy of the driver. Where the source has variants for older kernels, the one of a current
  kernel with polling is modelled.
\<close>

end
